(* ===== verification/Rtr_Prelude.thy ===== *)
theory Rtr_Prelude
  imports "HOL-Library.Word" "HOL-Library.Monad_Syntax" "HOL-Library.Multiset"
begin

text \<open>
  Shared vocabulary of the development: the machine integers of the C code, the outcome of
  calls to the allocator, and the list, option and word lemmas that more than one component
  uses.

  Conventions used by every theory.
  \<^item> A function of the C code that can abort on a failing \<^verbatim>\<open>assert\<close>, dereference a NULL pointer or
    run into undefined behaviour has a result in \<^typ>\<open>'a option\<close>; \<^const>\<open>None\<close> is that outcome and
    nothing else. Error codes that the code returns are values of the code's own enumerations.
  \<^item> Memory comes from user-replaceable function pointers (\<^verbatim>\<open>alloc_utils.c\<close>), so whether a call
    succeeds is decided by the environment. An allocation script of type \<open>mem\<close> lists the answers
    the allocator will give; when the script is used up every further request succeeds. All
    operations that allocate take the script and hand back what is left of it.
  \<^item> Pointers to RTR sockets are only compared for identity; \<open>socket_id\<close> stands for them.
\<close>

unbundle bit_operations_syntax

named_theorems alloc_simps \<open>evaluation of allocation scripts\<close>
named_theorems enum_simps \<open>unfolding of small enumeration-valued helpers\<close>

type_synonym u8 = "8 word"
type_synonym u16 = "16 word"
type_synonym u32 = "32 word"
type_synonym u64 = "64 word"

type_synonym socket_id = nat
type_synonym mem = "bool list"

section \<open>The allocator\<close>

fun rtr_malloc :: "mem \<Rightarrow> bool \<times> mem" where
  "rtr_malloc [] = (True, [])"
| "rtr_malloc (b # m) = (b, m)"

definition rtr_realloc :: "mem \<Rightarrow> bool \<times> mem" where
  "rtr_realloc m = rtr_malloc m"

lemma rtr_realloc_Nil [simp, alloc_simps]: "rtr_realloc [] = (True, [])"
  by (simp add: rtr_realloc_def)

lemma rtr_realloc_Cons [simp, alloc_simps]: "rtr_realloc (b # m) = (b, m)"
  by (simp add: rtr_realloc_def)

declare rtr_malloc.simps [alloc_simps]

lemma rtr_malloc_set: "rtr_malloc mem = (b, mem') \<Longrightarrow> set mem' \<subseteq> set mem \<and> (\<not> b \<longrightarrow> False \<in> set mem)"
  by (cases mem) auto

lemma rtr_realloc_set: "rtr_realloc mem = (b, mem') \<Longrightarrow> set mem' \<subseteq> set mem \<and> (\<not> b \<longrightarrow> False \<in> set mem)"
  by (simp add: rtr_realloc_def rtr_malloc_set)

lemma rtr_malloc_fine: "False \<notin> set mem \<Longrightarrow> \<exists>mem'. rtr_malloc mem = (True, mem') \<and> False \<notin> set mem'"
  by (cases mem rule: rtr_malloc.cases) auto

section \<open>Lists\<close>

lemma set_tl_subset: "set (tl xs) \<subseteq> set xs"
  by (cases xs) auto

lemma distinct_submset:
  assumes "mset xs \<subseteq># mset ys" "distinct ys"
  shows "distinct xs"
  unfolding distinct_count_atmost_1
proof
  fix a
  have "count (mset xs) a \<le> count (mset ys) a" by (rule mset_subset_eq_count [OF assms(1)])
  moreover have "count (mset ys) a \<le> 1" using assms(2) by (simp add: distinct_count_atmost_1)
  moreover have "0 < count (mset xs) a \<longleftrightarrow> a \<in> set xs" by simp
  ultimately show "count (mset xs) a = (if a \<in> set xs then 1 else 0)" by (auto simp del: count_greater_zero_iff)
qed

definition remove_nth :: "nat \<Rightarrow> 'a list \<Rightarrow> 'a list" where
  "remove_nth i xs = take i xs @ drop (Suc i) xs"

lemma remove_nth_length [simp]: "i < length xs \<Longrightarrow> length (remove_nth i xs) = length xs - 1"
  by (simp add: remove_nth_def)

lemma mset_remove_nth:
  "i < length xs \<Longrightarrow> add_mset (xs ! i) (mset (remove_nth i xs)) = mset xs"
proof -
  assume i: "i < length xs"
  have "mset xs = mset (take i xs @ xs ! i # drop (Suc i) xs)"
    using id_take_nth_drop [OF i] by simp
  then show ?thesis by (simp add: remove_nth_def)
qed

lemma set_remove_nth_distinct:
  "i < length xs \<Longrightarrow> distinct xs \<Longrightarrow> set (remove_nth i xs) = set xs - {xs ! i}"
proof -
  assume i: "i < length xs" and d: "distinct xs"
  have eq: "xs = take i xs @ xs ! i # drop (Suc i) xs"
    by (rule id_take_nth_drop [OF i])
  with d have "distinct (take i xs @ xs ! i # drop (Suc i) xs)" by simp
  then have "xs ! i \<notin> set (take i xs)" "xs ! i \<notin> set (drop (Suc i) xs)" by auto
  moreover have "set xs = set (take i xs) \<union> {xs ! i} \<union> set (drop (Suc i) xs)"
    by (subst eq) auto
  ultimately show ?thesis by (auto simp: remove_nth_def)
qed

lemma distinct_remove_nth: "distinct xs \<Longrightarrow> distinct (remove_nth i xs)"
  by (auto simp: remove_nth_def intro: set_take_disj_set_drop_if_distinct)
    (metis IntI append_take_drop_id distinct_append empty_iff in_set_dropD
      le_add2 plus_1_eq_Suc set_take_disj_set_drop_if_distinct disjoint_iff)

section \<open>Options\<close>

lemma bind_SomeE: "x \<bind> f = Some y \<Longrightarrow> (\<And>a. x = Some a \<Longrightarrow> f a = Some y \<Longrightarrow> P) \<Longrightarrow> P"
  by (cases x) simp_all

lemma bind_Some_iff: "(x \<bind> f = Some y) = (\<exists>a. x = Some a \<and> f a = Some y)"
  by (cases x) auto

text \<open>A loop over a list whose body may abort.\<close>

fun fold_opt :: "('a \<Rightarrow> 's \<Rightarrow> 's option) \<Rightarrow> 'a list \<Rightarrow> 's \<Rightarrow> 's option" where
  "fold_opt f [] s = Some s"
| "fold_opt f (x # xs) s = f x s \<bind> fold_opt f xs"

lemma fold_opt_append [simp]: "fold_opt f (xs @ ys) s = fold_opt f xs s \<bind> fold_opt f ys"
  by (induction xs arbitrary: s) (auto split: bind_split)

text \<open>An invariant that every iteration establishes for the elements processed so far.\<close>

lemma fold_opt_invariant:
  assumes "I [] s"
    and "\<And>ys x s'. \<lbrakk>ys @ [x] = take (Suc (length ys)) xs; I ys s'\<rbrakk> \<Longrightarrow> \<exists>s''. f x s' = Some s'' \<and> I (ys @ [x]) s''"
  shows "\<exists>s'. fold_opt f xs s = Some s' \<and> I xs s'"
proof -
  have "\<exists>s'. fold_opt f (take n xs) s = Some s' \<and> I (take n xs) s'" for n
  proof (induction n)
    case (Suc n)
    show ?case
    proof (cases "n < length xs")
      case True
      from Suc obtain s' where s': "fold_opt f (take n xs) s = Some s'" "I (take n xs) s'" by blast
      obtain s'' where "f (xs ! n) s' = Some s''" "I (take n xs @ [xs ! n]) s''"
        using assms(2) [of "take n xs" "xs ! n" s'] s' True by (auto simp: take_Suc_conv_app_nth)
      then show ?thesis using True s' by (auto simp: take_Suc_conv_app_nth)
    qed (use Suc in simp)
  qed (use assms(1) in simp)
  from this [of "length xs"] show ?thesis by simp
qed

end
