(* ===== verification/Ip_Addr.thy ===== *)
theory Ip_Addr
  imports Rtr_Prelude
begin

text \<open>
  IP addresses and bit extraction: \<^verbatim>\<open>rtrlib/lib/utils.c\<close> (\<^verbatim>\<open>rtr_get_bits\<close>), \<^verbatim>\<open>ipv4.c\<close>, \<^verbatim>\<open>ipv6.c\<close>
  and \<^verbatim>\<open>ip.c\<close>. The definitions keep the code's masks, shifts and assertions; a failing assertion
  and a shift by 32 or more are \<^const>\<open>None\<close>. The lemmas relate them to \<open>addr_bit\<close>, the \<open>i\<close>-th bit
  of an address counted from the most significant one, which is what the prefix trie branches on.
\<close>

unbundle bit_operations_syntax

section \<open>Data\<close>

datatype rtr_ip_version = RTR_IPV4 | RTR_IPV6

datatype rtr_ipv6_addr = Addr6 u32 u32 u32 u32

datatype rtr_ip_addr = Ip4 u32 | Ip6 rtr_ipv6_addr

fun ip_ver :: "rtr_ip_addr \<Rightarrow> rtr_ip_version" where
  "ip_ver (Ip4 _) = RTR_IPV4"
| "ip_ver (Ip6 _) = RTR_IPV6"

section \<open>Bit extraction\<close>

definition rtr_get_bits :: "u32 \<Rightarrow> nat \<Rightarrow> nat \<Rightarrow> u32 option" where
  "rtr_get_bits val from number =
     (if \<not> number < 33 then None
      else if \<not> number > 0 then None
      else
        let mask = (NOT 0 :: u32);
            mask = (if number \<noteq> 32 then NOT (drop_bit number mask) else mask)
        in if from \<ge> 32 then None
           else Some (drop_bit from mask AND val))"

definition rtr_ipv4_get_bits :: "u32 \<Rightarrow> nat \<Rightarrow> nat \<Rightarrow> u32 option" where
  "rtr_ipv4_get_bits val from quantity = rtr_get_bits val from quantity"

fun rtr_ipv6_get_bits :: "rtr_ipv6_addr \<Rightarrow> nat \<Rightarrow> nat \<Rightarrow> rtr_ipv6_addr option" where
  "rtr_ipv6_get_bits (Addr6 a0 a1 a2 a3) first_bit quantity =
     (if \<not> first_bit \<le> 127 \<or> \<not> quantity \<le> 128 \<or> \<not> first_bit + quantity \<le> 128 then None
      else do {
        let bits_left = quantity;
        (r0, bits_left) \<leftarrow>
          (if first_bit \<le> 31 then
             let q = (if quantity > 32 then 32 else quantity)
             in if \<not> bits_left \<ge> q then None
                else map_option (\<lambda>r. (r, bits_left - q)) (rtr_get_bits a0 first_bit q)
           else Some (0, bits_left));
        (r1, bits_left) \<leftarrow>
          (if first_bit \<le> 63 \<and> first_bit + quantity > 32 then
             let fr = (if first_bit < 32 then 0 else first_bit - 32);
                 q = (if bits_left > 32 then 32 else bits_left)
             in if \<not> bits_left \<ge> q then None
                else map_option (\<lambda>r. (r, bits_left - q)) (rtr_get_bits a1 fr q)
           else Some (0, bits_left));
        (r2, bits_left) \<leftarrow>
          (if first_bit \<le> 95 \<and> first_bit + quantity > 64 then
             let fr = (if first_bit < 64 then 0 else first_bit - 64);
                 q = (if bits_left > 32 then 32 else bits_left)
             in if \<not> bits_left \<ge> q then None
                else map_option (\<lambda>r. (r, bits_left - q)) (rtr_get_bits a2 fr q)
           else Some (0, bits_left));
        r3 \<leftarrow>
          (if first_bit \<le> 127 \<and> first_bit + quantity > 96 then
             let fr = (if first_bit < 96 then 0 else first_bit - 96);
                 q = (if bits_left > 32 then 32 else bits_left)
             in if \<not> bits_left \<ge> q then None
                else rtr_get_bits a3 fr q
           else Some 0);
        Some (Addr6 r0 r1 r2 r3)
      })"

fun rtr_ip_addr_get_bits :: "rtr_ip_addr \<Rightarrow> nat \<Rightarrow> nat \<Rightarrow> rtr_ip_addr option" where
  "rtr_ip_addr_get_bits (Ip6 a) from number = map_option Ip6 (rtr_ipv6_get_bits a from number)"
| "rtr_ip_addr_get_bits (Ip4 a) from number = map_option Ip4 (rtr_ipv4_get_bits a from number)"

section \<open>Comparisons\<close>

fun rtr_ip_addr_is_zero :: "rtr_ip_addr \<Rightarrow> bool" where
  "rtr_ip_addr_is_zero (Ip6 (Addr6 a0 a1 a2 a3)) = (a0 = 0 \<and> a1 = 0 \<and> a2 = 0 \<and> a3 = 0)"
| "rtr_ip_addr_is_zero (Ip4 a) = (a = 0)"

definition rtr_ipv4_addr_equal :: "u32 \<Rightarrow> u32 \<Rightarrow> bool" where
  "rtr_ipv4_addr_equal a b = (if a = b then True else False)"

fun rtr_ipv6_addr_equal :: "rtr_ipv6_addr \<Rightarrow> rtr_ipv6_addr \<Rightarrow> bool" where
  "rtr_ipv6_addr_equal (Addr6 a0 a1 a2 a3) (Addr6 b0 b1 b2 b3) =
     (if a0 = b0 \<and> a1 = b1 \<and> a2 = b2 \<and> a3 = b3 then True else False)"

fun rtr_ip_addr_equal :: "rtr_ip_addr \<Rightarrow> rtr_ip_addr \<Rightarrow> bool" where
  "rtr_ip_addr_equal (Ip6 a) (Ip6 b) = rtr_ipv6_addr_equal a b"
| "rtr_ip_addr_equal (Ip4 a) (Ip4 b) = rtr_ipv4_addr_equal a b"
| "rtr_ip_addr_equal _ _ = False"

section \<open>The bit view\<close>

fun addr_width :: "rtr_ip_addr \<Rightarrow> nat" where
  "addr_width (Ip4 _) = 32"
| "addr_width (Ip6 _) = 128"

fun addr_bit :: "rtr_ip_addr \<Rightarrow> nat \<Rightarrow> bool" where
  "addr_bit (Ip4 a) i = (i < 32 \<and> bit a (31 - i))"
| "addr_bit (Ip6 (Addr6 a0 a1 a2 a3)) i =
     (if i < 32 then bit a0 (31 - i)
      else if i < 64 then bit a1 (63 - i)
      else if i < 96 then bit a2 (95 - i)
      else i < 128 \<and> bit a3 (127 - i))"

text \<open>The first \<open>n\<close> bits of two addresses of the same family agree.\<close>

definition same_bits :: "nat \<Rightarrow> rtr_ip_addr \<Rightarrow> rtr_ip_addr \<Rightarrow> bool" where
  "same_bits n a b = (ip_ver a = ip_ver b \<and> (\<forall>i\<in>{..<n}. addr_bit a i = addr_bit b i))"

lemma rtr_ip_addr_equal_iff [simp]: "rtr_ip_addr_equal a b = (a = b)"
proof (cases a; cases b)
  fix x y assume "a = Ip6 x" "b = Ip6 y"
  then show ?thesis by (cases x; cases y) simp
qed (auto simp: rtr_ipv4_addr_equal_def)

lemma addr_width_ver: "addr_width a = (if ip_ver a = RTR_IPV4 then 32 else 128)"
  by (cases a) auto

lemma word_eq_from_msb: "(\<And>i. i < 32 \<Longrightarrow> bit a (31 - i) = bit b (31 - i)) \<Longrightarrow> a = (b :: u32)"
proof (rule bit_word_eqI)
  fix n assume all: "\<And>i. i < 32 \<Longrightarrow> bit a (31 - i) = bit b (31 - i)" and "n < LENGTH(32)"
  then have "31 - (31 - n) = n" "31 - n < 32" by auto
  then show "bit a n = bit b n" using all [of "31 - n"] by simp
qed

lemma Ip6_word_bits:
  assumes "\<And>i. i < 128 \<Longrightarrow> addr_bit (Ip6 (Addr6 a0 a1 a2 a3)) i = addr_bit (Ip6 (Addr6 b0 b1 b2 b3)) i"
  shows "a0 = b0 \<and> a1 = b1 \<and> a2 = b2 \<and> a3 = b3"
proof (intro conjI; rule word_eq_from_msb)
  fix i :: nat assume i: "i < 32"
  show "bit a0 (31 - i) = bit b0 (31 - i)" using assms [of i] i by simp
  show "bit a1 (31 - i) = bit b1 (31 - i)" using assms [of "i + 32"] i by simp
  show "bit a2 (31 - i) = bit b2 (31 - i)" using assms [of "i + 64"] i by simp
  show "bit a3 (31 - i) = bit b3 (31 - i)" using assms [of "i + 96"] i by simp
qed

text \<open>An address is determined by its family and its bits.\<close>

lemma addr_eqI:
  assumes "ip_ver a = ip_ver b" "\<And>i. i < addr_width a \<Longrightarrow> addr_bit a i = addr_bit b i"
  shows "a = b"
proof (cases a)
  case (Ip4 x)
  with assms(1) obtain y where b: "b = Ip4 y" by (cases b) auto
  have "x = y" by (rule word_eq_from_msb) (use assms(2) Ip4 b in auto)
  then show ?thesis using Ip4 b by simp
next
  case (Ip6 x)
  with assms(1) obtain y where b: "b = Ip6 y" by (cases b) auto
  show ?thesis using Ip6 b assms(2) Ip6_word_bits
    by (cases x; cases y) (metis addr_width.simps(2))
qed

lemma same_bits_refl [simp]: "same_bits n a a"
  by (simp add: same_bits_def)

lemma same_bits_sym: "same_bits n a b \<Longrightarrow> same_bits n b a"
  by (simp add: same_bits_def)

lemma same_bits_trans: "same_bits n a b \<Longrightarrow> same_bits n b c \<Longrightarrow> same_bits n a c"
  by (simp add: same_bits_def)

lemma same_bits_mono: "same_bits n a b \<Longrightarrow> m \<le> n \<Longrightarrow> same_bits m a b"
  by (simp add: same_bits_def)

lemma same_bits_Suc:
  "same_bits (Suc n) a b = (same_bits n a b \<and> addr_bit a n = addr_bit b n)"
  by (auto simp: same_bits_def less_Suc_eq)

lemma same_bits_full: "same_bits (addr_width a) a b \<Longrightarrow> a = b"
  by (rule addr_eqI) (auto simp: same_bits_def)

section \<open>What the extraction computes\<close>

lemma rtr_get_bits_bit:
  assumes "0 < n" "n \<le> 32" "f < 32"
  shows "\<exists>w. rtr_get_bits v f n = Some w \<and>
           (\<forall>i<32. bit w (31 - i) = (f \<le> i \<and> i < f + n \<and> bit v (31 - i)))"
proof -
  let ?m = "if n \<noteq> 32 then NOT (drop_bit n (NOT 0)) else (NOT 0 :: u32)"
  let ?w = "drop_bit f ?m AND v"
  have "rtr_get_bits v f n = Some ?w"
    using assms by (simp add: rtr_get_bits_def Let_def)
  moreover have "bit ?w (31 - i) = (f \<le> i \<and> i < f + n \<and> bit v (31 - i))" if "i < 32" for i
    using assms that by (auto simp: bit_and_iff bit_drop_bit_eq bit_not_iff bit_mask_iff)
  ultimately show ?thesis by blast
qed

lemma rtr_get_bits_zero_aborts: "rtr_get_bits v f 0 = None"
  by (simp add: rtr_get_bits_def)

text \<open>The leading bits of one word, in the shape in which the four-word code uses them.\<close>

lemma rtr_get_bits_full [simp]: "rtr_get_bits v 0 32 = Some v"
  by (simp add: rtr_get_bits_def)

lemma rtr_get_bits_prefix:
  assumes "0 < q" "q \<le> 32"
  obtains w where "rtr_get_bits v 0 q = Some w"
    and "\<And>i k. k \<le> i \<Longrightarrow> i < k + 32 \<Longrightarrow> bit w (k + 31 - i) = (i < q + k \<and> bit v (k + 31 - i))"
proof -
  from assms obtain w where w: "rtr_get_bits v 0 q = Some w"
    and b: "\<And>i. i < 32 \<Longrightarrow> bit w (31 - i) = (i < q \<and> bit v (31 - i))"
    using rtr_get_bits_bit [of q 0 v] by auto
  have shift: "bit w (k + 31 - i) = (i < q + k \<and> bit v (k + 31 - i))" if "k \<le> i" "i < k + 32" for i k
  proof -
    have "31 - (i - k) = k + 31 - i" "i - k < 32" "(i - k < q) = (i < q + k)" using that by auto
    with b [of "i - k"] show ?thesis by simp
  qed
  show thesis by (rule that [OF w shift])
qed

lemma rtr_ipv6_get_bits_prefix:
  assumes "0 < n" "n \<le> 128"
  shows "\<exists>r. rtr_ipv6_get_bits a 0 n = Some r \<and>
           (\<forall>i. addr_bit (Ip6 r) i = (i < n \<and> addr_bit (Ip6 a) i))"
proof -
  obtain a0 a1 a2 a3 where a: "a = Addr6 a0 a1 a2 a3" by (cases a)
  consider "n \<le> 32" | "32 < n" "n \<le> 64" | "64 < n" "n \<le> 96" | "96 < n" "n \<le> 128"
    using assms(2) by linarith
  then show ?thesis
  proof cases
    case 1
    then obtain w where "rtr_get_bits a0 0 n = Some w"
      and b: "\<And>i k. k \<le> i \<Longrightarrow> i < k + 32 \<Longrightarrow> bit w (k + 31 - i) = (i < n + k \<and> bit a0 (k + 31 - i))"
      using assms(1) by (elim rtr_get_bits_prefix [where v = a0 and q = n]) auto
    with 1 show ?thesis using b [of 0] by (auto simp: a)
  next
    case 2
    then obtain w where "rtr_get_bits a1 0 (n - 32) = Some w"
      and b: "\<And>i k. k \<le> i \<Longrightarrow> i < k + 32 \<Longrightarrow> bit w (k + 31 - i) = (i < n - 32 + k \<and> bit a1 (k + 31 - i))"
      by (elim rtr_get_bits_prefix [where v = a1 and q = "n - 32", rotated -1]) auto
    with 2 show ?thesis using b [of 32] by (auto simp: a)
  next
    case 3
    then obtain w where "rtr_get_bits a2 0 (n - 64) = Some w"
      and b: "\<And>i k. k \<le> i \<Longrightarrow> i < k + 32 \<Longrightarrow> bit w (k + 31 - i) = (i < n - 64 + k \<and> bit a2 (k + 31 - i))"
      by (elim rtr_get_bits_prefix [where v = a2 and q = "n - 64", rotated -1]) auto
    with 3 show ?thesis using b [of 64] by (auto simp: a)
  next
    case 4
    then obtain w where "rtr_get_bits a3 0 (n - 96) = Some w"
      and b: "\<And>i k. k \<le> i \<Longrightarrow> i < k + 32 \<Longrightarrow> bit w (k + 31 - i) = (i < n - 96 + k \<and> bit a3 (k + 31 - i))"
      by (elim rtr_get_bits_prefix [where v = a3 and q = "n - 96", rotated -1]) auto
    with 4 show ?thesis using b [of 96] by (auto simp: a)
  qed
qed

text \<open>
  Extracting the first \<open>n > 0\<close> bits keeps exactly those bits; extracting one bit gives a zero
  address exactly when the bit is clear. These are the only two uses the library makes of the
  extraction functions.
\<close>

lemma rtr_ip_addr_get_bits_prefix:
  assumes "0 < n" "n \<le> addr_width a"
  shows "\<exists>r. rtr_ip_addr_get_bits a 0 n = Some r \<and> ip_ver r = ip_ver a \<and>
           (\<forall>i. addr_bit r i = (i < n \<and> addr_bit a i))"
proof (cases a)
  case (Ip4 x)
  then have "n \<le> 32" using assms by simp
  with assms(1) obtain w where "rtr_get_bits x 0 n = Some w"
    and b: "\<And>i k. k \<le> i \<Longrightarrow> i < k + 32 \<Longrightarrow> bit w (k + 31 - i) = (i < n + k \<and> bit x (k + 31 - i))"
    by (elim rtr_get_bits_prefix [where v = x and q = n]) auto
  then show ?thesis using b [of 0] Ip4 by (auto simp: rtr_ipv4_get_bits_def)
next
  case (Ip6 x)
  then show ?thesis using rtr_ipv6_get_bits_prefix [of n x] assms by auto
qed

lemma rtr_get_bits_single:
  assumes "f < 32"
  shows "\<exists>w. rtr_get_bits v f 1 = Some w \<and> (w = 0) = (\<not> bit v (31 - f))"
proof -
  from assms obtain w where w: "rtr_get_bits v f 1 = Some w"
    and b: "\<And>i. i < 32 \<Longrightarrow> bit w (31 - i) = (f \<le> i \<and> i < f + 1 \<and> bit v (31 - i))"
    using rtr_get_bits_bit [of 1 f v] by auto
  have "w = 0" if "\<not> bit v (31 - f)"
    by (rule word_eq_from_msb) (use b that in \<open>auto simp: le_less_Suc_eq\<close>)
  moreover have "\<not> bit v (31 - f)" if "w = 0"
    using b [OF assms] that by simp
  ultimately show ?thesis using w by blast
qed

lemma rtr_ip_addr_get_bits_single:
  assumes "f < addr_width a"
  shows "\<exists>r. rtr_ip_addr_get_bits a f 1 = Some r \<and> rtr_ip_addr_is_zero r = (\<not> addr_bit a f)"
proof (cases a)
  case (Ip4 x)
  then show ?thesis using assms rtr_get_bits_single [of f x]
    by (auto simp: rtr_ipv4_get_bits_def)
next
  case (Ip6 x)
  obtain a0 a1 a2 a3 where x: "x = Addr6 a0 a1 a2 a3" by (cases x)
  consider "f < 32" | "32 \<le> f" "f < 64" | "64 \<le> f" "f < 96" | "96 \<le> f" "f < 128"
    using assms Ip6 by fastforce
  then show ?thesis
  proof cases
    case 1
    then obtain w where "rtr_get_bits a0 f 1 = Some w" "(w = 0) = (\<not> bit a0 (31 - f))"
      using rtr_get_bits_single [of f a0] by auto
    with 1 show ?thesis by (simp add: Ip6 x)
  next
    case 2
    then obtain w where "rtr_get_bits a1 (f - 32) 1 = Some w" "(w = 0) = (\<not> bit a1 (63 - f))"
      using rtr_get_bits_single [of "f - 32" a1] by (auto simp: less_diff_conv2)
    with 2 show ?thesis by (simp add: Ip6 x)
  next
    case 3
    then obtain w where "rtr_get_bits a2 (f - 64) 1 = Some w" "(w = 0) = (\<not> bit a2 (95 - f))"
      using rtr_get_bits_single [of "f - 64" a2] by (auto simp: less_diff_conv2)
    with 3 show ?thesis by (simp add: Ip6 x)
  next
    case 4
    then obtain w where "rtr_get_bits a3 (f - 96) 1 = Some w" "(w = 0) = (\<not> bit a3 (127 - f))"
      using rtr_get_bits_single [of "f - 96" a3] by (auto simp: less_diff_conv2)
    with 4 show ?thesis by (simp add: Ip6 x)
  qed
qed

text \<open>From here on the extraction functions are used through these two lemmas only.\<close>

declare rtr_ip_addr_get_bits.simps [simp del] rtr_ipv6_get_bits.simps [simp del]

end
