(* ===== verification/Trie.thy ===== *)
theory Trie
  imports Ip_Addr
begin

text \<open>
  The prefix trie of \<^verbatim>\<open>rtrlib/pfx/trie/trie.c\<close>. A node is an item (prefix, prefix length, data) with
  two children; \<open>Null\<close> is the NULL pointer. The parent pointers of the C structure are represented
  by position: a pointer into a trie is the list of turns that leads to the node, \<open>subtree_at\<close>
  follows it and \<open>update_at\<close> rewrites the subtree in place. The level argument counts the turns.

  The second half states the shape of the trie (\<open>trie_inv\<close>): a node on level \<open>n\<close> agrees with
  everything below it on the first \<open>n\<close> bits, the left and right subtrees differ in bit \<open>n\<close>,
  prefix lengths grow downwards and no prefix occurs twice. All operations keep it.
\<close>

section \<open>Data\<close>

record 'd trie_item =
  tn_prefix :: rtr_ip_addr
  tn_len :: nat
  tn_data :: 'd

datatype 'd trie_node = Null | Node "'d trie_item" "'d trie_node" "'d trie_node"

datatype child_node_rel = LEFT | RIGHT

type_synonym node_ptr = "child_node_rel list"

section \<open>Operations\<close>

definition swap_nodes :: "'d trie_item \<Rightarrow> 'd trie_item \<Rightarrow> 'd trie_item \<times> 'd trie_item" where
  "swap_nodes a b =
     (a\<lparr>tn_prefix := tn_prefix b, tn_len := tn_len b, tn_data := tn_data b\<rparr>,
      b\<lparr>tn_prefix := tn_prefix a, tn_len := tn_len a, tn_data := tn_data a\<rparr>)"

fun add_child_node :: "'d trie_node \<Rightarrow> 'd trie_item \<Rightarrow> child_node_rel \<Rightarrow> 'd trie_node option" where
  "add_child_node Null child rel = None"
| "add_child_node (Node it l r) child LEFT = Some (Node it (Node child Null Null) r)"
| "add_child_node (Node it l r) child RIGHT = Some (Node it l (Node child Null Null))"

text \<open>The level is an \<^verbatim>\<open>unsigned int\<close>, the bit position an \<^verbatim>\<open>uint8_t\<close>.\<close>

definition is_left_child :: "rtr_ip_addr \<Rightarrow> nat \<Rightarrow> bool option" where
  "is_left_child addr lvl = map_option rtr_ip_addr_is_zero (rtr_ip_addr_get_bits addr (lvl mod 256) 1)"

fun trie_insert :: "'d trie_node \<Rightarrow> 'd trie_item \<Rightarrow> nat \<Rightarrow> 'd trie_node option" where
  "trie_insert Null new lvl = None"
| "trie_insert (Node it l r) new lvl =
     (let (it, new) = (if tn_len new < tn_len it then swap_nodes it new else (it, new)) in
      do {
        left \<leftarrow> is_left_child (tn_prefix new) lvl;
        if left then
          (if l = Null then add_child_node (Node it l r) new LEFT
           else do { l' \<leftarrow> trie_insert l new (lvl + 1); Some (Node it l' r) })
        else
          (if r = Null then add_child_node (Node it l r) new RIGHT
           else do { r' \<leftarrow> trie_insert r new (lvl + 1); Some (Node it l r') })
      })"

text \<open>\<open>trie_lookup\<close> returns the node it stops at with its level; \<open>Null\<close> when it runs off the trie.\<close>

fun trie_lookup ::
  "'d trie_node \<Rightarrow> rtr_ip_addr \<Rightarrow> nat \<Rightarrow> nat \<Rightarrow> ('d trie_node \<times> nat) option" where
  "trie_lookup Null prefix mask_len lvl = Some (Null, lvl)"
| "trie_lookup (Node it l r) prefix mask_len lvl =
     do {
       hit \<leftarrow> (if tn_len it \<le> mask_len then
                do { a \<leftarrow> rtr_ip_addr_get_bits (tn_prefix it) 0 (tn_len it);
                     b \<leftarrow> rtr_ip_addr_get_bits prefix 0 (tn_len it);
                     Some (rtr_ip_addr_equal a b) }
              else Some False);
       if hit then Some (Node it l r, lvl)
       else do {
         left \<leftarrow> is_left_child prefix lvl;
         if left then trie_lookup l prefix mask_len (lvl + 1)
         else trie_lookup r prefix mask_len (lvl + 1)
       }
     }"

text \<open>
  \<open>trie_lookup_exact\<close> walks down with a pointer to the current node. It returns that pointer (or
  the parent's, one level up), the level and the found flag; no pointer for an empty trie.
\<close>

fun trie_lookup_exact ::
  "'d trie_node \<Rightarrow> rtr_ip_addr \<Rightarrow> nat \<Rightarrow> nat \<Rightarrow> node_ptr
     \<Rightarrow> (node_ptr option \<times> nat \<times> bool) option" where
  "trie_lookup_exact Null prefix mask_len lvl ptr = Some (None, lvl, False)"
| "trie_lookup_exact (Node it l r) prefix mask_len lvl ptr =
     (if lvl > 0 \<and> tn_len it > mask_len then Some (Some (butlast ptr), lvl - 1, False)
      else if tn_len it = mask_len \<and> rtr_ip_addr_equal (tn_prefix it) prefix
        then Some (Some ptr, lvl, True)
      else do {
        left \<leftarrow> is_left_child prefix lvl;
        if left then
          (if l = Null then Some (Some ptr, lvl, False)
           else trie_lookup_exact l prefix mask_len (lvl + 1) (ptr @ [LEFT]))
        else
          (if r = Null then Some (Some ptr, lvl, False)
           else trie_lookup_exact r prefix mask_len (lvl + 1) (ptr @ [RIGHT]))
      })"

definition prefix_is_same :: "'d trie_item \<Rightarrow> rtr_ip_addr \<Rightarrow> nat \<Rightarrow> bool" where
  "prefix_is_same n p mask_len = (tn_len n = mask_len \<and> rtr_ip_addr_equal (tn_prefix n) p)"

definition replace_node_data :: "'d trie_item \<Rightarrow> 'd trie_item \<Rightarrow> 'd trie_item" where
  "replace_node_data a b = a\<lparr>tn_prefix := tn_prefix b, tn_len := tn_len b, tn_data := tn_data b\<rparr>"

fun trie_is_leaf :: "'d trie_node \<Rightarrow> bool" where
  "trie_is_leaf Null = False"
| "trie_is_leaf (Node it l r) = (l = Null \<and> r = Null)"

fun set_node_data :: "'d \<Rightarrow> 'd trie_node \<Rightarrow> 'd trie_node" where
  "set_node_data d Null = Null"
| "set_node_data d (Node it l r) = Node (it\<lparr>tn_data := d\<rparr>) l r"

fun node_item :: "'d trie_node \<Rightarrow> 'd trie_item option" where
  "node_item Null = None"
| "node_item (Node it l r) = Some it"

fun node_count :: "'d trie_node \<Rightarrow> nat" where
  "node_count Null = 0"
| "node_count (Node it l r) = Suc (node_count l + node_count r)"

lemma node_count_set_node_data [simp]: "node_count (set_node_data d t) = node_count t"
  by (cases t) auto

text \<open>
  \<open>trie_remove\<close> returns the contents of the node that was unlinked (no item for a NULL result)
  and the trie without it: where \<^verbatim>\<open>deref_node\<close> clears the parent's child pointer, the subtree
  becomes \<open>Null\<close>.
\<close>

function trie_remove ::
  "'d trie_node \<Rightarrow> rtr_ip_addr \<Rightarrow> nat \<Rightarrow> nat \<Rightarrow> ('d trie_item option \<times> 'd trie_node) option" where
  "trie_remove Null prefix mask_len lvl = None"
| "trie_remove (Node it l r) prefix mask_len lvl =
     (if prefix_is_same it prefix mask_len then
        (if trie_is_leaf (Node it l r) then Some (Some it, Null)
         else case (node_item l, node_item r) of
           (Some li, None) \<Rightarrow>
             do { (rm, l') \<leftarrow> trie_remove (set_node_data (tn_data it) l) (tn_prefix li) (tn_len li) (lvl + 1);
                  Some (rm, Node (replace_node_data it li) l' r) }
         | (None, Some ri) \<Rightarrow>
             do { (rm, r') \<leftarrow> trie_remove (set_node_data (tn_data it) r) (tn_prefix ri) (tn_len ri) (lvl + 1);
                  Some (rm, Node (replace_node_data it ri) l r') }
         | (Some li, Some ri) \<Rightarrow>
             (if tn_len li < tn_len ri then
                do { (rm, l') \<leftarrow> trie_remove (set_node_data (tn_data it) l) (tn_prefix li) (tn_len li) (lvl + 1);
                     Some (rm, Node (replace_node_data it li) l' r) }
              else
                do { (rm, r') \<leftarrow> trie_remove (set_node_data (tn_data it) r) (tn_prefix ri) (tn_len ri) (lvl + 1);
                     Some (rm, Node (replace_node_data it ri) l r') })
         | (None, None) \<Rightarrow> None)
      else do {
        left \<leftarrow> is_left_child prefix lvl;
        if left then
          (if l = Null then Some (None, Node it l r)
           else do { (rm, l') \<leftarrow> trie_remove l prefix mask_len (lvl + 1); Some (rm, Node it l' r) })
        else
          (if r = Null then Some (None, Node it l r)
           else do { (rm, r') \<leftarrow> trie_remove r prefix mask_len (lvl + 1); Some (rm, Node it l r') })
      })"
  by pat_completeness auto
termination
  by (relation "measure (\<lambda>(t, p, m, n). node_count t)") auto

text \<open>Pointers into a trie.\<close>

fun subtree_at :: "node_ptr \<Rightarrow> 'd trie_node \<Rightarrow> 'd trie_node" where
  "subtree_at [] t = t"
| "subtree_at (d # ds) Null = Null"
| "subtree_at (LEFT # ds) (Node it l r) = subtree_at ds l"
| "subtree_at (RIGHT # ds) (Node it l r) = subtree_at ds r"

fun update_at :: "node_ptr \<Rightarrow> ('d trie_node \<Rightarrow> 'd trie_node option) \<Rightarrow> 'd trie_node \<Rightarrow> 'd trie_node option" where
  "update_at [] f t = f t"
| "update_at (d # ds) f Null = None"
| "update_at (LEFT # ds) f (Node it l r) = do { l' \<leftarrow> update_at ds f l; Some (Node it l' r) }"
| "update_at (RIGHT # ds) f (Node it l r) = do { r' \<leftarrow> update_at ds f r; Some (Node it l r') }"


fun trie_items :: "'d trie_node \<Rightarrow> 'd trie_item list" where
  "trie_items Null = []"
| "trie_items (Node it l r) = trie_items l @ it # trie_items r"

fun trie_height :: "'d trie_node \<Rightarrow> nat" where
  "trie_height Null = 0"
| "trie_height (Node it l r) = Suc (max (trie_height l) (trie_height r))"

definition item_key :: "'d trie_item \<Rightarrow> rtr_ip_addr \<times> nat" where
  "item_key x = (tn_prefix x, tn_len x)"

section \<open>The shape of the trie\<close>

text \<open>A prefix is in canonical form when its host bits are zero.\<close>

definition canonical :: "rtr_ip_addr \<Rightarrow> nat \<Rightarrow> bool" where
  "canonical p n = (n \<le> addr_width p \<and> (\<forall>i\<in>{n..<addr_width p}. \<not> addr_bit p i))"

definition item_ok :: "rtr_ip_version \<Rightarrow> 'd trie_item \<Rightarrow> bool" where
  "item_ok v x = (ip_ver (tn_prefix x) = v \<and> canonical (tn_prefix x) (tn_len x))"

definition below :: "'d trie_item \<Rightarrow> nat \<Rightarrow> bool \<Rightarrow> 'd trie_item \<Rightarrow> bool" where
  "below it lvl b x = (addr_bit (tn_prefix x) lvl = b \<and> tn_len it \<le> tn_len x \<and>
     same_bits lvl (tn_prefix it) (tn_prefix x) \<and> item_key x \<noteq> item_key it)"

fun trie_inv :: "rtr_ip_version \<Rightarrow> nat \<Rightarrow> 'd trie_node \<Rightarrow> bool" where
  "trie_inv v lvl Null = True"
| "trie_inv v lvl (Node it l r) =
     (item_ok v it \<and> (\<forall>x\<in>set (trie_items l). below it lvl False x) \<and>
      (\<forall>x\<in>set (trie_items r). below it lvl True x) \<and>
      trie_inv v (Suc lvl) l \<and> trie_inv v (Suc lvl) r)"

text \<open>An item that may stand on level \<open>lvl\<close> or deeper, given the items already there.\<close>

definition fits :: "rtr_ip_version \<Rightarrow> nat \<Rightarrow> 'd trie_item \<Rightarrow> 'd trie_item set \<Rightarrow> bool" where
  "fits v lvl new xs = (item_ok v new \<and> lvl \<le> tn_len new \<and>
     (\<forall>x\<in>xs. same_bits lvl (tn_prefix new) (tn_prefix x) \<and> item_key x \<noteq> item_key new))"

lemma item_key_iff: "item_key x = item_key y \<longleftrightarrow> tn_prefix x = tn_prefix y \<and> tn_len x = tn_len y"
  by (auto simp: item_key_def)

lemma canonical_le: "canonical p n \<Longrightarrow> n \<le> addr_width p"
  by (simp add: canonical_def)

lemma canonical_eq:
  assumes "canonical a n" "canonical b m" "same_bits k a b" "n \<le> k" "m \<le> k"
  shows "a = b"
proof (rule addr_eqI)
  show v: "ip_ver a = ip_ver b" using assms(3) by (simp add: same_bits_def)
  fix i assume i: "i < addr_width a"
  show "addr_bit a i = addr_bit b i"
  proof (cases "i < k")
    case True
    then show ?thesis using assms(3) by (simp add: same_bits_def)
  next
    case False
    moreover have "addr_width a = addr_width b" using v by (simp add: addr_width_ver)
    ultimately show ?thesis using assms i by (auto simp: canonical_def)
  qed
qed

lemma trie_inv_items:
  "trie_inv v lvl t \<Longrightarrow> x \<in> set (trie_items t) \<Longrightarrow> item_ok v x"
  by (induction t arbitrary: lvl) auto

text \<open>Below a node on level \<open>lvl\<close> every prefix is longer than \<open>lvl\<close>: the trie is no deeper than
  the prefixes it holds are long.\<close>

lemma below_level:
  assumes "item_ok v it" "item_ok v x" "below it lvl b x" "lvl \<le> tn_len it"
  shows "Suc lvl \<le> tn_len x"
proof (rule ccontr)
  assume "\<not> Suc lvl \<le> tn_len x"
  with assms have "tn_len x = lvl" "tn_len it = lvl" by (auto simp: below_def)
  moreover from this have "tn_prefix it = tn_prefix x"
    using assms canonical_eq [of "tn_prefix it" lvl "tn_prefix x" lvl lvl]
    by (auto simp: item_ok_def below_def)
  ultimately show False using assms(3) by (simp add: below_def item_key_iff)
qed

lemma trie_inv_child_level:
  assumes "trie_inv v lvl (Node it l r)" "lvl \<le> tn_len it" "x \<in> set (trie_items l) \<union> set (trie_items r)"
  shows "Suc lvl \<le> tn_len x"
  using assms below_level [of v it x lvl] trie_inv_items by fastforce

lemma trie_inv_root_le: "trie_inv v lvl (Node it l r) \<Longrightarrow> x \<in> set (trie_items (Node it l r)) \<Longrightarrow> tn_len it \<le> tn_len x"
  by (auto simp: below_def)

lemma trie_inv_same_bits:
  assumes "trie_inv v lvl t" "x \<in> set (trie_items t)" "y \<in> set (trie_items t)"
  shows "same_bits lvl (tn_prefix x) (tn_prefix y)"
proof (cases t)
  case Null
  then show ?thesis using assms by simp
next
  case (Node it l r)
  have root: "same_bits lvl (tn_prefix it) (tn_prefix z)" if "z \<in> set (trie_items t)" for z
    using assms(1) Node that by (auto simp: below_def)
  show ?thesis
    by (rule same_bits_trans [OF same_bits_sym [OF root [OF assms(2)]] root [OF assms(3)]])
qed

lemma trie_inv_distinct: "trie_inv v lvl t \<Longrightarrow> distinct (map item_key (trie_items t))"
proof (induction t arbitrary: lvl)
  case (Node it l r)
  have "item_key x \<noteq> item_key y" if "x \<in> set (trie_items l)" "y \<in> set (trie_items r)" for x y
    using Node.prems that by (auto simp: below_def item_key_iff)
  then have "item_key ` set (trie_items l) \<inter> item_key ` set (trie_items r) = {}" by blast
  moreover have "item_key it \<notin> item_key ` set (trie_items l)" "item_key it \<notin> item_key ` set (trie_items r)"
    using Node.prems by (auto simp: below_def)
  moreover have "distinct (map item_key (trie_items l))" "distinct (map item_key (trie_items r))"
    using Node by auto
  ultimately show ?case by simp
qed simp

lemma is_left_child_bit:
  assumes "lvl < addr_width a"
  shows "is_left_child a lvl = Some (\<not> addr_bit a lvl)"
proof -
  have "lvl mod 256 = lvl" using assms by (cases a) auto
  then show ?thesis using rtr_ip_addr_get_bits_single [OF assms] by (auto simp: is_left_child_def)
qed

section \<open>Insertion\<close>

lemma swap_nodes_eq [simp]: "swap_nodes a b = (b, a :: 'd trie_item)"
  by (simp add: swap_nodes_def)

lemma replace_node_data_eq [simp]: "replace_node_data a b = (b :: 'd trie_item)"
  by (simp add: replace_node_data_def)

text \<open>The node that stays on level \<open>lvl\<close> and the one that is pushed down.\<close>

lemma trie_insert_step:
  assumes inv: "trie_inv v lvl (Node it l r)"
    and new: "fits v lvl new (set (trie_items (Node it l r)))"
    and lvl: "lvl \<le> tn_len it"
  obtains it' nw where
    "(if tn_len new < tn_len it then swap_nodes it new else (it, new)) = (it', nw)"
    "{#it', nw#} = {#it, new#}"
    "item_ok v it'" "lvl \<le> tn_len it'" "below it' lvl (addr_bit (tn_prefix nw) lvl) nw"
    "\<forall>x\<in>set (trie_items l). below it' lvl False x" "\<forall>x\<in>set (trie_items r). below it' lvl True x"
    "fits v lvl nw (set (trie_items l) \<union> set (trie_items r))" "Suc lvl \<le> tn_len nw"
proof -
  note defs = fits_def below_def same_bits_sym item_key_iff
  show thesis
  proof (cases "tn_len new < tn_len it")
    case True
    have b: "below new lvl (addr_bit (tn_prefix it) lvl) it"
      using True new by (auto simp: defs)
    have l: "\<forall>x\<in>set (trie_items l). below new lvl False x" "\<forall>x\<in>set (trie_items r). below new lvl True x"
      using True inv new by (auto simp: defs)
    have f: "fits v lvl it (set (trie_items l) \<union> set (trie_items r))"
      using inv lvl by (auto simp: defs)
    have "Suc lvl \<le> tn_len it" using True new by (auto simp: defs)
    with True b l f new show thesis
      by (intro that [of new it]) (auto simp: fits_def)
  next
    case False
    have b: "below it lvl (addr_bit (tn_prefix new) lvl) new"
      using False new by (auto simp: defs)
    have l: "\<forall>x\<in>set (trie_items l). below it lvl False x" "\<forall>x\<in>set (trie_items r). below it lvl True x"
      using inv by auto
    have f: "fits v lvl new (set (trie_items l) \<union> set (trie_items r))"
      using new by (auto simp: defs)
    have "Suc lvl \<le> tn_len new"
      using below_level [OF _ _ b lvl, of v] inv new by (auto simp: fits_def)
    with False b l f inv lvl show thesis
      by (intro that [of it new]) auto
  qed
qed

lemma fits_left:
  assumes "fits v lvl nw (set (trie_items l) \<union> set (trie_items r))" "Suc lvl \<le> tn_len nw"
    "\<forall>x\<in>set (trie_items l). below it lvl b x" "addr_bit (tn_prefix nw) lvl = b"
  shows "fits v (Suc lvl) nw (set (trie_items l))"
  using assms by (auto simp: fits_def below_def same_bits_Suc)

theorem trie_insert_correct:
  assumes "t \<noteq> Null" "trie_inv v lvl t" "fits v lvl new (set (trie_items t))"
    "\<forall>x\<in>set (trie_items t). lvl \<le> tn_len x"
  shows "\<exists>t'. trie_insert t new lvl = Some t' \<and> t' \<noteq> Null \<and>
           mset (trie_items t') = add_mset new (mset (trie_items t)) \<and> trie_inv v lvl t'"
  using assms
proof (induction t arbitrary: new lvl)
  case Null
  then show ?case by simp
next
  case (Node it l r)
  from Node.prems have lvl: "lvl \<le> tn_len it" by simp
  obtain it' nw where sw: "(if tn_len new < tn_len it then swap_nodes it new else (it, new)) = (it', nw)"
    and ms: "{#it', nw#} = {#it, new#}" and it': "item_ok v it'" "lvl \<le> tn_len it'"
    and b: "below it' lvl (addr_bit (tn_prefix nw) lvl) nw"
    and bl: "\<forall>x\<in>set (trie_items l). below it' lvl False x"
    and br: "\<forall>x\<in>set (trie_items r). below it' lvl True x"
    and f: "fits v lvl nw (set (trie_items l) \<union> set (trie_items r))" and nw: "Suc lvl \<le> tn_len nw"
    by (rule trie_insert_step [OF Node.prems(2,3) lvl])
  have msx: "add_mset new (mset (trie_items (Node it l r))) =
      add_mset it' (add_mset nw (mset (trie_items l) + mset (trie_items r)))"
    using arg_cong [OF ms, of "\<lambda>M. M + (mset (trie_items l) + mset (trie_items r))"]
    by (simp add: add_mset_commute)
  have okn: "item_ok v nw" using f by (simp add: fits_def)
  then have "lvl < addr_width (tn_prefix nw)"
    using nw by (auto simp: item_ok_def canonical_def)
  then have left: "is_left_child (tn_prefix nw) lvl = Some (\<not> addr_bit (tn_prefix nw) lvl)"
    by (rule is_left_child_bit)
  have lv: "\<forall>x\<in>set (trie_items l). Suc lvl \<le> tn_len x" "\<forall>x\<in>set (trie_items r). Suc lvl \<le> tn_len x"
    using trie_inv_child_level [OF Node.prems(2) lvl] by auto
  have inv: "trie_inv v (Suc lvl) l" "trie_inv v (Suc lvl) r" using Node.prems(2) by auto
  have leaf: "trie_inv v (Suc lvl) (Node nw Null Null)" using okn by simp
  show ?case
  proof (cases "addr_bit (tn_prefix nw) lvl")
    case False
    show ?thesis
    proof (cases "l = Null")
      case True
      then show ?thesis using False left sw it' b br inv leaf msx
        by (auto simp: add_mset_commute)
    next
      case l: False
      obtain l' where l': "trie_insert l nw (Suc lvl) = Some l'" "l' \<noteq> Null"
        "mset (trie_items l') = add_mset nw (mset (trie_items l))" "trie_inv v (Suc lvl) l'"
        using Node.IH(1) [OF l inv(1) fits_left [OF f nw bl] lv(1)] False by auto
      have "set (trie_items l') = insert nw (set (trie_items l))"
        using arg_cong [OF l'(3), of set_mset] by simp
      then show ?thesis using False l left sw it' b bl br inv l' msx by (simp add: add_mset_commute)
    qed
  next
    case True
    show ?thesis
    proof (cases "r = Null")
      case r: True
      then show ?thesis using True left sw it' b bl inv leaf msx
        by (auto simp: add_mset_commute)
    next
      case r: False
      have f': "fits v lvl nw (set (trie_items r) \<union> set (trie_items l))" using f by (simp add: Un_commute)
      obtain r' where r': "trie_insert r nw (Suc lvl) = Some r'" "r' \<noteq> Null"
        "mset (trie_items r') = add_mset nw (mset (trie_items r))" "trie_inv v (Suc lvl) r'"
        using Node.IH(2) [OF r inv(2) fits_left [OF f' nw br] lv(2)] True by auto
      have "set (trie_items r') = insert nw (set (trie_items r))"
        using arg_cong [OF r'(3), of set_mset] by simp
      then show ?thesis using True r left sw it' b bl br inv r' msx by (simp add: add_mset_commute)
    qed
  qed
qed

section \<open>Removal\<close>

lemma trie_remove_count:
  "trie_remove t p m lvl = Some (Some x, t') \<Longrightarrow> node_count t = Suc (node_count t')"
proof (induction t p m lvl arbitrary: x t' rule: trie_remove.induct)
  case (2 it l r p m lvl)
  note prem = "2.prems" [unfolded trie_remove.simps(2) [of it l r p m lvl]]
  show ?case
  proof (cases "prefix_is_same it p m")
    case True
    with "2.IH"(1-4) prem show ?thesis
      by (auto simp: bind_Some_iff simp del: trie_remove.simps split: if_splits option.splits)
  next
    case False
    with prem obtain left where left: "is_left_child p lvl = Some left"
      by (auto simp: bind_Some_iff simp del: trie_remove.simps)
    show ?thesis
    proof (cases left)
      case True
      with \<open>\<not> prefix_is_same it p m\<close> left "2.IH"(5) [OF _ left] prem show ?thesis
        by (auto simp: bind_Some_iff simp del: trie_remove.simps split: if_splits)
    next
      case False
      with \<open>\<not> prefix_is_same it p m\<close> left "2.IH"(6) [OF _ left] prem show ?thesis
        by (auto simp: bind_Some_iff simp del: trie_remove.simps split: if_splits)
    qed
  qed
qed simp

lemma node_item_iff: "node_item t = Some it \<longleftrightarrow> (\<exists>l r. t = Node it l r)" "node_item t = None \<longleftrightarrow> t = Null"
  by (cases t; simp)+

declare trie_remove.simps [simp del]

lemma trie_inv_set_node_data_items:
  "item_key x = item_key y \<Longrightarrow> below it lvl b x = below it lvl b y"
  "item_key x = item_key y \<Longrightarrow> below x lvl b it = below y lvl b it"
  by (auto simp: below_def item_key_iff)

lemma item_ok_data [simp]: "item_ok v (x\<lparr>tn_data := d\<rparr>) = item_ok v x"
  by (simp add: item_ok_def)

lemma item_key_data [simp]: "item_key (x\<lparr>tn_data := d\<rparr>) = item_key x"
  by (simp add: item_key_def)

lemma below_data [simp]:
  "below (x\<lparr>tn_data := d\<rparr>) lvl b y = below x lvl b y"
  "below y lvl b (x\<lparr>tn_data := d\<rparr>) = below y lvl b x"
  by (auto simp: below_def item_key_iff)

text \<open>Pulling the root of a child subtree up one level.\<close>

lemma below_promote:
  assumes "\<forall>x\<in>set (trie_items (Node ci cl cr)). below it lvl b x" "trie_inv v (Suc lvl) (Node ci cl cr)"
  shows "x \<in> set (trie_items cl) \<union> set (trie_items cr) \<Longrightarrow> below ci lvl b x"
    and "below it lvl (\<not> b) y \<Longrightarrow> tn_len ci \<le> tn_len y \<Longrightarrow> below ci lvl (\<not> b) y"
proof -
  have c: "below it lvl b ci" using assms(1) by simp
  have sb: "same_bits lvl (tn_prefix ci) (tn_prefix z)" if "same_bits lvl (tn_prefix it) (tn_prefix z)" for z
    using c that by (auto simp: below_def intro: same_bits_trans [OF same_bits_sym])
  show "below ci lvl b x" if x: "x \<in> set (trie_items cl) \<union> set (trie_items cr)"
  proof -
    have "below it lvl b x" "tn_len ci \<le> tn_len x" "item_key x \<noteq> item_key ci"
      using assms x by (auto simp: below_def)
    then show ?thesis using sb by (auto simp: below_def)
  qed
  show "below ci lvl (\<not> b) y" if "below it lvl (\<not> b) y" "tn_len ci \<le> tn_len y"
    using that c sb by (auto simp: below_def item_key_iff)
qed

lemma trie_inv_promote_left:
  assumes "trie_inv v lvl (Node it (Node ci cl cr) r)" "\<forall>y\<in>set (trie_items r). tn_len ci \<le> tn_len y"
    "mset (trie_items c) = mset (trie_items cl) + mset (trie_items cr)" "trie_inv v (Suc lvl) c"
  shows "trie_inv v lvl (Node ci c r)"
proof -
  have "set (trie_items c) = set (trie_items cl) \<union> set (trie_items cr)"
    using arg_cong [OF assms(3), of set_mset] by simp
  then have "\<forall>x\<in>set (trie_items c). below ci lvl False x"
    using below_promote(1) [of ci cl cr it lvl False v] assms(1) by auto
  moreover have "\<forall>y\<in>set (trie_items r). below ci lvl True y"
    using below_promote(2) [of ci cl cr it lvl False v] assms(1,2) by auto
  ultimately show ?thesis using assms(1,4) by simp
qed

lemma trie_inv_promote_right:
  assumes "trie_inv v lvl (Node it l (Node ci cl cr))" "\<forall>y\<in>set (trie_items l). tn_len ci \<le> tn_len y"
    "mset (trie_items c) = mset (trie_items cl) + mset (trie_items cr)" "trie_inv v (Suc lvl) c"
  shows "trie_inv v lvl (Node ci l c)"
proof -
  have "set (trie_items c) = set (trie_items cl) \<union> set (trie_items cr)"
    using arg_cong [OF assms(3), of set_mset] by simp
  then have "\<forall>x\<in>set (trie_items c). below ci lvl True x"
    using below_promote(1) [of ci cl cr it lvl True v] assms(1) by auto
  moreover have "\<forall>y\<in>set (trie_items l). below ci lvl False y"
    using below_promote(2) [of ci cl cr it lvl True v] assms(1,2) by auto
  ultimately show ?thesis using assms(1,4) by simp
qed

lemma trie_remove_root:
  assumes "trie_inv v lvl (Node it l r)"
  shows "\<exists>x t'. trie_remove (Node it l r) (tn_prefix it) (tn_len it) lvl = Some (Some x, t') \<and>
           tn_data x = tn_data it \<and>
           mset (trie_items t') = mset (trie_items l) + mset (trie_items r) \<and> trie_inv v lvl t'"
  using assms
proof (induction "node_count l + node_count r" arbitrary: it l r lvl rule: less_induct)
  case less
  have same: "prefix_is_same it (tn_prefix it) (tn_len it)" by (simp add: prefix_is_same_def)
  note unfold = trie_remove.simps(2) [of it l r "tn_prefix it"]
  have IH: "\<exists>x c'. trie_remove (set_node_data d c) (tn_prefix ci) (tn_len ci) (Suc lvl) = Some (Some x, c') \<and>
      tn_data x = d \<and> mset (trie_items c') = mset (trie_items cl) + mset (trie_items cr) \<and>
      trie_inv v (Suc lvl) c'"
    if "c = Node ci cl cr" "trie_inv v (Suc lvl) c" "c = l \<or> c = r" for c ci cl cr d
    using that less.hyps [of cl cr "Suc lvl" "ci\<lparr>tn_data := d\<rparr>"] by auto
  have inv: "trie_inv v (Suc lvl) l" "trie_inv v (Suc lvl) r" using less.prems by auto
  have left: ?case if l: "l = Node li ll lr"
    and small: "r = Null \<or> (\<exists>ri rl rr. r = Node ri rl rr \<and> tn_len li < tn_len ri)" for li ll lr
  proof -
    have le: "\<forall>y\<in>set (trie_items r). tn_len li \<le> tn_len y"
      using small inv trie_inv_root_le by fastforce
    obtain x l' where l': "trie_remove (set_node_data (tn_data it) l) (tn_prefix li) (tn_len li) (Suc lvl) = Some (Some x, l')"
      "tn_data x = tn_data it" "mset (trie_items l') = mset (trie_items ll) + mset (trie_items lr)"
      "trie_inv v (Suc lvl) l'"
      using IH [OF l inv(1)] by blast
    have "trie_remove (Node it l r) (tn_prefix it) (tn_len it) lvl = Some (Some x, Node li l' r)"
      unfolding unfold using small same l l'(1) by auto
    moreover have "trie_inv v lvl (Node li l' r)"
      by (rule trie_inv_promote_left [OF less.prems [unfolded l] le l'(3,4)])
    ultimately show ?thesis using l l'(2,3)
      by (intro exI [of _ x] exI [of _ "Node li l' r"]) simp
  qed
  have right: ?case if r: "r = Node ri rl rr"
    and small: "l = Null \<or> (\<exists>li ll lr. l = Node li ll lr \<and> \<not> tn_len li < tn_len ri)" for ri rl rr
  proof -
    have le: "\<forall>y\<in>set (trie_items l). tn_len ri \<le> tn_len y"
      using small inv trie_inv_root_le by fastforce
    obtain x r' where r': "trie_remove (set_node_data (tn_data it) r) (tn_prefix ri) (tn_len ri) (Suc lvl) = Some (Some x, r')"
      "tn_data x = tn_data it" "mset (trie_items r') = mset (trie_items rl) + mset (trie_items rr)"
      "trie_inv v (Suc lvl) r'"
      using IH [OF r inv(2)] by blast
    have "trie_remove (Node it l r) (tn_prefix it) (tn_len it) lvl = Some (Some x, Node ri l r')"
      unfolding unfold using small same r r'(1) by auto
    moreover have "trie_inv v lvl (Node ri l r')"
      by (rule trie_inv_promote_right [OF less.prems [unfolded r] le r'(3,4)])
    ultimately show ?thesis using r r'(2,3)
      by (intro exI [of _ x] exI [of _ "Node ri l r'"]) simp
  qed
  have leaf: ?case if "l = Null" "r = Null"
    unfolding unfold using that same by simp
  show ?case
  proof (cases l)
    case Null
    then show ?thesis using leaf right by (cases r) auto
  next
    case l: (Node li ll lr)
    then show ?thesis
    proof (cases r)
      case r: (Node ri rl rr)
      then show ?thesis using left [OF l] right [OF r] l by (cases "tn_len li < tn_len ri") auto
    qed (use l left in auto)
  qed
qed

section \<open>Pointers into the trie\<close>

lemma subtree_at_Null [simp]: "subtree_at path Null = Null"
  by (cases path) auto

lemma below_keys:
  assumes "item_key ` A \<subseteq> item_key ` B" "\<forall>x\<in>B. below it lvl b x"
  shows "\<forall>x\<in>A. below it lvl b x"
proof
  fix x assume "x \<in> A"
  then have "item_key x \<in> item_key ` B" using assms(1) by blast
  then obtain y where "y \<in> B" "item_key x = item_key y" by blast
  then show "below it lvl b x" using assms(2) trie_inv_set_node_data_items(1) by blast
qed

text \<open>Rewriting the subtree behind a pointer, by one that holds no new prefixes, keeps the shape of
  the trie and changes its contents by exactly what changed in the subtree.\<close>

lemma update_at_inv:
  assumes "trie_inv v lvl t" "subtree_at path t = s" "s \<noteq> Null" "f s = Some s'"
    "trie_inv v (lvl + length path) s'" "item_key ` set (trie_items s') \<subseteq> item_key ` set (trie_items s)"
  shows "\<exists>t'. update_at path f t = Some t' \<and> trie_inv v lvl t' \<and>
           item_key ` set (trie_items t') \<subseteq> item_key ` set (trie_items t) \<and>
           mset (trie_items t') + mset (trie_items s) = mset (trie_items t) + mset (trie_items s')"
  using assms
proof (induction path t arbitrary: lvl rule: subtree_at.induct)
  case (3 ds it l r)
  have "trie_inv v (Suc lvl) l" using "3.prems" by simp
  from "3.IH" [OF this] "3.prems" obtain l' where l': "update_at ds f l = Some l'" "trie_inv v (Suc lvl) l'"
    "item_key ` set (trie_items l') \<subseteq> item_key ` set (trie_items l)"
    "mset (trie_items l') + mset (trie_items s) = mset (trie_items l) + mset (trie_items s')"
    by (auto simp: bind_Some_iff)
  have "\<forall>x\<in>set (trie_items l'). below it lvl False x"
    using "3.prems"(1) by (intro below_keys [OF l'(3)]) simp
  moreover have "item_key ` set (trie_items (Node it l' r)) \<subseteq> item_key ` set (trie_items (Node it l r))"
    using l'(3) by auto
  moreover have "mset (trie_items (Node it l' r)) + mset (trie_items s) = mset (trie_items (Node it l r)) + mset (trie_items s')"
    using l'(4) by (simp add: ac_simps)
  ultimately show ?case using "3.prems"(1) l'(1,2) by simp
next
  case (4 ds it l r)
  have "trie_inv v (Suc lvl) r" using "4.prems" by simp
  from "4.IH" [OF this] "4.prems" obtain r' where r': "update_at ds f r = Some r'" "trie_inv v (Suc lvl) r'"
    "item_key ` set (trie_items r') \<subseteq> item_key ` set (trie_items r)"
    "mset (trie_items r') + mset (trie_items s) = mset (trie_items r) + mset (trie_items s')"
    by (auto simp: bind_Some_iff)
  have "\<forall>x\<in>set (trie_items r'). below it lvl True x"
    using "4.prems"(1) by (intro below_keys [OF r'(3)]) simp
  moreover have "item_key ` set (trie_items (Node it l r')) \<subseteq> item_key ` set (trie_items (Node it l r))"
    using r'(3) by auto
  moreover have "mset (trie_items (Node it l r')) + mset (trie_items s) = mset (trie_items (Node it l r)) + mset (trie_items s')"
    using r'(4) by (simp add: ac_simps)
  ultimately show ?case using "4.prems"(1) r'(1,2) by simp
qed auto

lemma subtree_at_inv:
  "trie_inv v lvl t \<Longrightarrow> trie_inv v (lvl + length path) (subtree_at path t)"
proof (induction path t arbitrary: lvl rule: subtree_at.induct)
  case (3 ds it l r)
  then show ?case using "3.IH" [of "Suc lvl"] by simp
next
  case (4 ds it l r)
  then show ?case using "4.IH" [of "Suc lvl"] by simp
qed auto

lemma subtree_at_items: "set (trie_items (subtree_at path t)) \<subseteq> set (trie_items t)"
  by (induction path t rule: subtree_at.induct) auto

section \<open>Exact lookup\<close>

text \<open>The arguments of a search for prefix \<open>p/m\<close> that has reached a node on level \<open>lvl\<close>.\<close>

definition on_track :: "rtr_ip_version \<Rightarrow> nat \<Rightarrow> rtr_ip_addr \<Rightarrow> nat \<Rightarrow> 'd trie_node \<Rightarrow> bool" where
  "on_track v lvl p m t = (ip_ver p = v \<and> canonical p m \<and> lvl \<le> m \<and> trie_inv v lvl t \<and>
     (\<forall>x\<in>set (trie_items t). lvl \<le> tn_len x \<and> same_bits lvl p (tn_prefix x)))"

lemma on_track_level:
  assumes "on_track v lvl p m (Node it l r)" "lvl > 0 \<longrightarrow> tn_len it \<le> m"
    "\<not> (tn_len it = m \<and> tn_prefix it = p)"
  shows "lvl < addr_width p" "lvl > 0 \<Longrightarrow> lvl < m"
proof -
  have m: "m \<le> addr_width p" using assms(1) by (auto simp: on_track_def canonical_def)
  show lm: "lvl < m" if "lvl > 0"
  proof (rule ccontr)
    assume "\<not> lvl < m"
    with assms that have "m = lvl" "tn_len it = lvl" by (auto simp: on_track_def)
    moreover from this have "p = tn_prefix it"
      using assms(1) canonical_eq [of p lvl "tn_prefix it" lvl lvl] by (auto simp: on_track_def item_ok_def)
    ultimately show False using assms(3) by simp
  qed
  have "0 < addr_width p" by (cases p) auto
  with lm m show "lvl < addr_width p" by (cases "lvl = 0") auto
qed

lemma on_track_child:
  assumes "on_track v lvl p m (Node it l r)" "lvl < m"
    "c = (if addr_bit p lvl then r else l)"
  shows "on_track v (Suc lvl) p m c"
proof -
  have lv: "Suc lvl \<le> tn_len x" if "x \<in> set (trie_items c)" for x
    using trie_inv_child_level [of v lvl it l r x] assms that by (auto simp: on_track_def split: if_splits)
  have "addr_bit (tn_prefix x) lvl = addr_bit p lvl" "same_bits lvl p (tn_prefix x)"
    if "x \<in> set (trie_items c)" for x
    using assms that by (auto simp: on_track_def below_def split: if_splits)
  with lv assms show ?thesis by (auto simp: on_track_def same_bits_Suc)
qed

lemma on_track_other:
  assumes "on_track v lvl p m (Node it l r)"
  shows "(p, m) \<notin> item_key ` set (trie_items (if addr_bit p lvl then l else r))"
  using assms by (auto simp: on_track_def below_def item_key_def split: if_splits)


text \<open>What \<open>trie_lookup_exact\<close> reports about the subtree it was called on: whether the prefix is
  there, a pointer to its node if so, and otherwise a pointer at which \<open>trie_insert\<close> has the same
  effect as at the start of the search.\<close>

definition exact_result :: "'d trie_node \<Rightarrow> rtr_ip_addr \<Rightarrow> nat \<Rightarrow> nat \<Rightarrow> node_ptr \<Rightarrow> bool \<Rightarrow> bool" where
  "exact_result t p m lvl path f =
     ((f \<longleftrightarrow> (p, m) \<in> item_key ` set (trie_items t)) \<and> subtree_at path t \<noteq> Null \<and>
      (f \<longrightarrow> map_option item_key (node_item (subtree_at path t)) = Some (p, m)) \<and>
      (\<not> f \<longrightarrow> (\<forall>new. item_key new = (p, m) \<longrightarrow>
         update_at path (\<lambda>s. trie_insert s new (lvl + length path)) t = trie_insert t new lvl)))"

lemma exact_result_here:
  "(p, m) \<notin> item_key ` set (trie_items (Node it l r)) \<Longrightarrow> exact_result (Node it l r) p m lvl [] False"
  by (simp add: exact_result_def)

lemma exact_result_child:
  assumes "exact_result c p m (Suc lvl) path f" "c = (if b then r else l)" "c \<noteq> Null"
    "is_left_child p lvl = Some (\<not> b)" "tn_len it \<le> m"
    "(p, m) \<in> item_key ` set (trie_items (Node it l r)) \<longleftrightarrow> (p, m) \<in> item_key ` set (trie_items c)"
  shows "exact_result (Node it l r) p m lvl ((if b then RIGHT else LEFT) # path) f"
proof -
  have "update_at ((if b then RIGHT else LEFT) # path) (\<lambda>s. trie_insert s new (lvl + Suc (length path))) (Node it l r)
      = trie_insert (Node it l r) new lvl" if "item_key new = (p, m)" "\<not> f" for new :: "'a trie_item"
  proof -
    have "tn_prefix new = p" "tn_len new = m" using that(1) by (auto simp: item_key_def)
    moreover have "update_at path (\<lambda>s. trie_insert s new (Suc lvl + length path)) c = trie_insert c new (Suc lvl)"
      using assms(1) that by (simp add: exact_result_def)
    ultimately show ?thesis using assms(2-5) by (auto split: if_splits)
  qed
  then show ?thesis using assms(1,2,6) by (auto simp: exact_result_def)
qed

lemma trie_lookup_exact_step:
  assumes tr: "on_track v lvl p m (Node it l r)" and it: "lvl > 0 \<longrightarrow> tn_len it \<le> m"
    and new: "\<not> (tn_len it = m \<and> tn_prefix it = p)"
    and c: "c = (if addr_bit p lvl then r else l)" and d: "d = (if addr_bit p lvl then RIGHT else LEFT)"
  shows "is_left_child p lvl = Some (\<not> addr_bit p lvl)"
    and "(p, m) \<in> item_key ` set (trie_items (Node it l r)) \<longleftrightarrow> (p, m) \<in> item_key ` set (trie_items c)"
    and "trie_lookup_exact (Node it l r) p m lvl ptr =
           (if c = Null then Some (Some ptr, lvl, False) else trie_lookup_exact c p m (Suc lvl) (ptr @ [d]))"
    and "x \<in> set (trie_items c) \<Longrightarrow> Suc lvl \<le> tn_len x \<and> tn_len it \<le> tn_len x"
proof -
  show left: "is_left_child p lvl = Some (\<not> addr_bit p lvl)"
    by (rule is_left_child_bit [OF on_track_level(1) [OF tr it new]])
  show "(p, m) \<in> item_key ` set (trie_items (Node it l r)) \<longleftrightarrow> (p, m) \<in> item_key ` set (trie_items c)"
    using new on_track_other [OF tr] by (cases "addr_bit p lvl") (auto simp: c item_key_def [of it])
  show "trie_lookup_exact (Node it l r) p m lvl ptr =
      (if c = Null then Some (Some ptr, lvl, False) else trie_lookup_exact c p m (Suc lvl) (ptr @ [d]))"
    using it new left by (auto simp: c d)
  show "Suc lvl \<le> tn_len x \<and> tn_len it \<le> tn_len x" if "x \<in> set (trie_items c)"
    using trie_inv_child_level [of v lvl it l r x] trie_inv_root_le [of v lvl it l r x] tr that
    by (auto simp: on_track_def c split: if_splits)
qed

theorem trie_lookup_exact_correct:
  assumes "on_track v lvl p m t" "t \<noteq> Null" "lvl > 0 \<longrightarrow> (\<forall>it. node_item t = Some it \<longrightarrow> tn_len it \<le> m)"
  shows "\<exists>path f. trie_lookup_exact t p m lvl ptr = Some (Some (ptr @ path), lvl + length path, f) \<and>
           exact_result t p m lvl path f"
  using assms
proof (induction t arbitrary: lvl ptr)
  case (Node it l r)
  have it: "lvl > 0 \<longrightarrow> tn_len it \<le> m" using Node.prems(3) by simp
  show ?case
  proof (cases "tn_len it = m \<and> tn_prefix it = p")
    case True
    then show ?thesis using it
      by (intro exI [of _ "[]"] exI [of _ True]) (auto simp: exact_result_def item_key_def)
  next
    case False
    define c where "c = (if addr_bit p lvl then r else l)"
    define d where "d = (if addr_bit p lvl then RIGHT else LEFT)"
    note step = trie_lookup_exact_step [OF Node.prems(1) it False c_def d_def]
    have IH: "\<exists>path f. trie_lookup_exact c p m (Suc lvl) (ptr @ [d]) =
          Some (Some ((ptr @ [d]) @ path), Suc lvl + length path, f) \<and> exact_result c p m (Suc lvl) path f"
      if "on_track v (Suc lvl) p m c" "c \<noteq> Null" "\<forall>it. node_item c = Some it \<longrightarrow> tn_len it \<le> m"
      using Node.IH [of "Suc lvl" "ptr @ [d]"] that unfolding c_def by (cases "addr_bit p lvl") simp_all
    have here: ?thesis if "(p, m) \<notin> item_key ` set (trie_items c)"
      "trie_lookup_exact (Node it l r) p m lvl ptr = Some (Some ptr, lvl, False)"
      using that exact_result_here [of p m it l r lvl] step(2) by (intro exI [of _ "[]"] exI [of _ False]) simp
    show ?thesis
    proof (cases c)
      case Null
      then show ?thesis using here step(3) [of ptr] by simp
    next
      case c: (Node ci cl cr)
      show ?thesis
      proof (cases "tn_len ci \<le> m")
        case True
        have le: "Suc lvl \<le> tn_len ci" "tn_len it \<le> tn_len ci" using step(4) [of ci] c by auto
        have "on_track v (Suc lvl) p m c"
          using on_track_child [OF Node.prems(1) _ c_def] le True by simp
        then obtain path f where
          "trie_lookup_exact c p m (Suc lvl) (ptr @ [d]) = Some (Some ((ptr @ [d]) @ path), Suc lvl + length path, f)"
          "exact_result c p m (Suc lvl) path f" using IH True c by auto
        then show ?thesis
          using step(3) [of ptr] exact_result_child [OF _ c_def _ step(1) _ step(2)] c le True
          by (intro exI [of _ "d # path"] exI [of _ f]) (simp add: d_def)
      next
        case False
        have "\<forall>x\<in>set (trie_items c). tn_len ci \<le> tn_len x"
          using Node.prems(1) c trie_inv_root_le [of v "Suc lvl" ci cl cr]
          by (auto simp: on_track_def c_def split: if_splits)
        then have "(p, m) \<notin> item_key ` set (trie_items c)" using False by (auto simp: item_key_def)
        then show ?thesis using here step(3) [of ptr] c False by simp
      qed
    qed
  qed
qed simp

section \<open>Covering lookup\<close>

definition covers :: "rtr_ip_addr \<Rightarrow> nat \<Rightarrow> 'd trie_item \<Rightarrow> bool" where
  "covers p m x = (tn_len x \<le> m \<and> same_bits (tn_len x) (tn_prefix x) p)"

text \<open>A search for the route prefix \<open>p/m\<close> can reach level \<open>lvl\<close> of the trie without a failing
  assertion: no zero-length prefix, and the trie is not deeper than an address is wide.\<close>

definition searchable :: "rtr_ip_addr \<Rightarrow> nat \<Rightarrow> 'd trie_node \<Rightarrow> bool" where
  "searchable p lvl t = (trie_inv (ip_ver p) lvl t \<and> lvl + trie_height t \<le> addr_width p \<and>
     (\<forall>x\<in>set (trie_items t). lvl \<le> tn_len x \<and> 0 < tn_len x))"

lemma searchable_child:
  assumes "searchable p lvl (Node it l r)" "c = l \<or> c = r"
  shows "searchable p (Suc lvl) c"
  using assms trie_inv_child_level [of "ip_ver p" lvl it l r] by (auto simp: searchable_def)

lemma searchable_covers_test:
  assumes "searchable p lvl (Node it l r)" "m \<le> addr_width p"
  shows "(if tn_len it \<le> m then
            do { a \<leftarrow> rtr_ip_addr_get_bits (tn_prefix it) 0 (tn_len it);
                 b \<leftarrow> rtr_ip_addr_get_bits p 0 (tn_len it);
                 Some (rtr_ip_addr_equal a b) }
          else Some False) = Some (covers p m it)"
proof (cases "tn_len it \<le> m")
  case True
  have it: "ip_ver (tn_prefix it) = ip_ver p" "0 < tn_len it" "tn_len it \<le> addr_width (tn_prefix it)"
    using assms(1) by (auto simp: searchable_def item_ok_def canonical_def)
  have p: "tn_len it \<le> addr_width p" using assms(2) True by simp
  obtain a where a: "rtr_ip_addr_get_bits (tn_prefix it) 0 (tn_len it) = Some a" "ip_ver a = ip_ver p"
    "\<And>i. i < addr_width (tn_prefix it) \<Longrightarrow> addr_bit a i = (i < tn_len it \<and> addr_bit (tn_prefix it) i)"
    using rtr_ip_addr_get_bits_prefix [of "tn_len it" "tn_prefix it"] it by auto
  obtain b where b: "rtr_ip_addr_get_bits p 0 (tn_len it) = Some b" "ip_ver b = ip_ver p"
    "\<And>i. i < addr_width p \<Longrightarrow> addr_bit b i = (i < tn_len it \<and> addr_bit p i)"
    using rtr_ip_addr_get_bits_prefix [of "tn_len it" p] it p by auto
  have w: "addr_width (tn_prefix it) = addr_width p" "addr_width a = addr_width p"
    using it(1) a(2) by (auto simp: addr_width_ver)
  have "a = b \<longleftrightarrow> same_bits (tn_len it) (tn_prefix it) p"
  proof
    assume "a = b"
    then have "addr_bit (tn_prefix it) i = addr_bit p i" if "i < tn_len it" for i
      using a(3) [of i] b(3) [of i] w p that by simp
    then show "same_bits (tn_len it) (tn_prefix it) p" using it(1) by (simp add: same_bits_def)
  next
    assume "same_bits (tn_len it) (tn_prefix it) p"
    then show "a = b" using a b w p by (intro addr_eqI) (auto simp: same_bits_def)
  qed
  then show ?thesis using True a(1) b(1) by (simp add: covers_def)
qed (simp add: covers_def)

text \<open>The subtree the search does not enter holds no covering prefix.\<close>

lemma searchable_other:
  assumes "searchable p lvl (Node it l r)" "x \<in> set (trie_items (if addr_bit p lvl then l else r))"
  shows "\<not> covers p m x"
proof
  assume "covers p m x"
  moreover have "lvl < tn_len x"
    using trie_inv_child_level [of "ip_ver p" lvl it l r x] assms by (auto simp: searchable_def split: if_splits)
  ultimately have "addr_bit (tn_prefix x) lvl = addr_bit p lvl" by (auto simp: covers_def same_bits_def)
  then show False using assms by (auto simp: searchable_def below_def split: if_splits)
qed

definition lookup_result :: "'d trie_node \<Rightarrow> rtr_ip_addr \<Rightarrow> nat \<Rightarrow> 'd trie_node \<Rightarrow> nat \<Rightarrow> bool" where
  "lookup_result t p m s lvl' =
     (filter (covers p m) (trie_items s) = filter (covers p m) (trie_items t) \<and>
      searchable p lvl' s \<and> set (trie_items s) \<subseteq> set (trie_items t) \<and>
      (\<forall>it. node_item s = Some it \<longrightarrow> covers p m it) \<and> node_count s \<le> node_count t)"

lemma searchable_left:
  assumes "searchable p lvl (Node it l r)"
  shows "is_left_child p lvl = Some (\<not> addr_bit p lvl)"
  using assms by (intro is_left_child_bit) (simp add: searchable_def)

lemma lookup_result_child:
  assumes "searchable p lvl (Node it l r)" "\<not> covers p m it"
    "lookup_result (if addr_bit p lvl then r else l) p m s lvl'"
  shows "lookup_result (Node it l r) p m s lvl'"
proof -
  have "filter (covers p m) (trie_items (if addr_bit p lvl then l else r)) = []"
    using searchable_other [OF assms(1)] by (simp add: filter_empty_conv)
  then show ?thesis using assms(2,3) by (auto simp: lookup_result_def split: if_splits)
qed

theorem trie_lookup_correct:
  assumes "searchable p lvl t" "m \<le> addr_width p"
  shows "\<exists>s lvl'. trie_lookup t p m lvl = Some (s, lvl') \<and> lookup_result t p m s lvl'"
  using assms(1)
proof (induction t arbitrary: lvl)
  case Null
  then show ?case by (simp add: lookup_result_def)
next
  case (Node it l r)
  note test = searchable_covers_test [OF Node.prems assms(2)]
  note left = searchable_left [OF Node.prems]
  show ?case
  proof (cases "covers p m it")
    case True
    then show ?thesis using test Node.prems by (simp add: lookup_result_def)
  next
    case False
    have "\<exists>s lvl'. trie_lookup (if addr_bit p lvl then r else l) p m (Suc lvl) = Some (s, lvl') \<and>
        lookup_result (if addr_bit p lvl then r else l) p m s lvl'"
      using Node.IH searchable_child [OF Node.prems] by (cases "addr_bit p lvl") auto
    then obtain s lvl' where s: "trie_lookup (if addr_bit p lvl then r else l) p m (Suc lvl) = Some (s, lvl')"
      "lookup_result (if addr_bit p lvl then r else l) p m s lvl'" by blast
    have "trie_lookup (Node it l r) p m lvl = Some (s, lvl')"
      using test left False s(1) by (auto split: if_splits)
    then show ?thesis using lookup_result_child [OF Node.prems False s(2)] by blast
  qed
qed

section \<open>IPv4 prefixes as words\<close>

lemma canonical_Ip4: "canonical (Ip4 a) n = (n \<le> 32 \<and> take_bit (32 - n) a = 0)"
proof (cases "n \<le> 32")
  case True
  have "(\<forall>i\<in>{n..<32}. \<not> bit a (31 - i)) \<longleftrightarrow> (\<forall>j<32 - n. \<not> bit a j)"
  proof
    assume L: "\<forall>i\<in>{n..<32}. \<not> bit a (31 - i)"
    show "\<forall>j<32 - n. \<not> bit a j"
    proof (intro allI impI)
      fix j :: nat assume "j < 32 - n"
      then have "31 - j \<in> {n..<32}" "31 - (31 - j) = j" by auto
      then show "\<not> bit a j" using L by metis
    qed
  qed auto
  moreover have "take_bit (32 - n) a = 0 \<longleftrightarrow> (\<forall>j<32 - n. \<not> bit a j)"
    using True by (auto simp: bit_eq_iff bit_take_bit_iff)
  ultimately show ?thesis using True by (auto simp: canonical_def)
qed (simp add: canonical_def)

lemma same_bits_Ip4: "n \<le> 32 \<Longrightarrow> same_bits n (Ip4 a) (Ip4 b) = (drop_bit (32 - n) a = drop_bit (32 - n) b)"
proof -
  assume n: "n \<le> 32"
  have "(\<forall>i\<in>{..<n}. bit a (31 - i) = bit b (31 - i)) \<longleftrightarrow> (\<forall>j. bit a (32 - n + j) = bit b (32 - n + j))"
  proof
    assume L: "\<forall>i\<in>{..<n}. bit a (31 - i) = bit b (31 - i)"
    show "\<forall>j. bit a (32 - n + j) = bit b (32 - n + j)"
    proof
      fix j show "bit a (32 - n + j) = bit b (32 - n + j)"
      proof (cases "j < n")
        case True
        then have "n - 1 - j \<in> {..<n}" "31 - (n - 1 - j) = 32 - n + j" using n by auto
        then show ?thesis using L by metis
      next
        case False
        then have "\<not> bit a (32 - n + j)" "\<not> bit b (32 - n + j)"
          using n bit_imp_le_length [of a] bit_imp_le_length [of b] by fastforce+
        then show ?thesis by simp
      qed
    qed
  next
    assume R: "\<forall>j. bit a (32 - n + j) = bit b (32 - n + j)"
    show "\<forall>i\<in>{..<n}. bit a (31 - i) = bit b (31 - i)"
    proof
      fix i assume "i \<in> {..<n}"
      then have "32 - n + (n - 1 - i) = 31 - i" using n by auto
      then show "bit a (31 - i) = bit b (31 - i)" using R by metis
    qed
  qed
  moreover have lt: "j < 32" if "bit c (32 - n + j)" for j and c :: u32
    using bit_imp_le_length [OF that] n by simp
  have "(drop_bit (32 - n) a = drop_bit (32 - n) b) \<longleftrightarrow> (\<forall>j. bit a (32 - n + j) = bit b (32 - n + j))"
    using lt by (auto simp: bit_eq_iff bit_drop_bit_eq)
  ultimately show ?thesis using n by (auto simp: same_bits_def)
qed

end
