(* ===== verification/Pfx_Table.thy ===== *)
theory Pfx_Table
  imports Trie
begin

text \<open>
  The prefix table of \<^verbatim>\<open>rtrlib/pfx/trie/trie-pfx.c\<close>: two tries, one per address family, whose nodes
  carry the records of one prefix. Node data (\<^verbatim>\<open>struct node_data\<close>, a counted array) is a list.
  Calls of the update callback are appended to the log \<open>pfx_log\<close> of the table; \<open>update_fp\<close> says
  whether a callback is installed. The table lock is taken and released on every path of every
  operation and is not part of the state.
\<close>

section \<open>Data\<close>

record data_elem =
  de_asn :: u32
  de_max_len :: nat
  de_socket :: socket_id

record rtr_pfx_record =
  pr_asn :: u32
  pr_prefix :: rtr_ip_addr
  pr_min_len :: nat
  pr_max_len :: nat
  pr_socket :: socket_id

type_synonym node_data = "data_elem list"
type_synonym pfx_trie = "node_data trie_node"

datatype rtr_pfx_rtvals = RTR_PFX_SUCCESS | RTR_PFX_ERROR | RTR_PFX_DUPLICATE_RECORD
  | RTR_PFX_RECORD_NOT_FOUND | RTR_PFX_NOT_INITIALIZED

datatype rtr_pfxv_state = RTR_BGP_PFXV_STATE_VALID | RTR_BGP_PFXV_STATE_NOT_FOUND
  | RTR_BGP_PFXV_STATE_INVALID

datatype rtr_pfx_operation_type = RTR_PFX_REMOVE | RTR_PFX_ADD

record rtr_pfx_table =
  ipv4 :: pfx_trie
  ipv6 :: pfx_trie
  update_fp :: bool
  pfx_log :: "(rtr_pfx_record \<times> rtr_pfx_operation_type) list"

section \<open>Helpers\<close>

definition pfx_table_notify_clients ::
  "rtr_pfx_table \<Rightarrow> rtr_pfx_record \<Rightarrow> rtr_pfx_operation_type \<Rightarrow> rtr_pfx_table" where
  "pfx_table_notify_clients tbl r op =
     (if update_fp tbl then tbl\<lparr>pfx_log := pfx_log tbl @ [(r, op)]\<rparr> else tbl)"

definition rtr_pfx_table_init :: "bool \<Rightarrow> rtr_pfx_table" where
  "rtr_pfx_table_init fp = \<lparr>ipv4 = Null, ipv6 = Null, update_fp = fp, pfx_log = []\<rparr>"

definition rec_elem :: "rtr_pfx_record \<Rightarrow> data_elem" where
  "rec_elem r = \<lparr>de_asn = pr_asn r, de_max_len = pr_max_len r, de_socket = pr_socket r\<rparr>"

definition pfx_table_append_elem ::
  "node_data \<Rightarrow> rtr_pfx_record \<Rightarrow> mem \<Rightarrow> rtr_pfx_rtvals \<times> node_data \<times> mem" where
  "pfx_table_append_elem data r mem =
     (let (ok, mem) = rtr_realloc mem in
      if \<not> ok then (RTR_PFX_ERROR, data, mem) else (RTR_PFX_SUCCESS, data @ [rec_elem r], mem))"

text \<open>The node itself, its data block and the element array are allocated in turn.\<close>

definition pfx_table_create_node ::
  "rtr_pfx_record \<Rightarrow> mem \<Rightarrow> rtr_pfx_rtvals \<times> node_data trie_item option \<times> mem" where
  "pfx_table_create_node r mem =
     (let (ok, mem) = rtr_malloc mem in
      if \<not> ok then (RTR_PFX_ERROR, None, mem)
      else let (ok, mem) = rtr_malloc mem in
      if \<not> ok then (RTR_PFX_ERROR, None, mem)
      else let (err, data, mem) = pfx_table_append_elem [] r mem in
      if err \<noteq> RTR_PFX_SUCCESS then (err, None, mem)
      else (RTR_PFX_SUCCESS, Some \<lparr>tn_prefix = pr_prefix r, tn_len = pr_min_len r, tn_data = data\<rparr>, mem))"

fun find_elem_from :: "nat \<Rightarrow> node_data \<Rightarrow> rtr_pfx_record \<Rightarrow> nat option" where
  "find_elem_from i [] r = None"
| "find_elem_from i (e # es) r =
     (if de_asn e = pr_asn r \<and> de_max_len e = pr_max_len r \<and> de_socket e = pr_socket r then Some i
      else find_elem_from (Suc i) es r)"

definition pfx_table_find_elem :: "node_data \<Rightarrow> rtr_pfx_record \<Rightarrow> nat option" where
  "pfx_table_find_elem data r = find_elem_from 0 data r"

definition pfx_table_get_root :: "rtr_pfx_table \<Rightarrow> rtr_ip_version \<Rightarrow> pfx_trie" where
  "pfx_table_get_root tbl ver = (if ver = RTR_IPV4 then ipv4 tbl else ipv6 tbl)"

definition set_root :: "rtr_pfx_table \<Rightarrow> rtr_ip_version \<Rightarrow> pfx_trie \<Rightarrow> rtr_pfx_table" where
  "set_root tbl ver t = (if ver = RTR_IPV4 then tbl\<lparr>ipv4 := t\<rparr> else tbl\<lparr>ipv6 := t\<rparr>)"

text \<open>When the shrinking reallocation fails the element goes back, at the end of the array.\<close>

definition pfx_table_del_elem :: "node_data \<Rightarrow> nat \<Rightarrow> mem \<Rightarrow> rtr_pfx_rtvals \<times> node_data \<times> mem" where
  "pfx_table_del_elem data index mem =
     (let deleted_elem = data ! index; rest = remove_nth index data in
      if rest = [] then (RTR_PFX_SUCCESS, [], mem)
      else let (ok, mem) = rtr_realloc mem in
      if \<not> ok then (RTR_PFX_ERROR, rest @ [deleted_elem], mem)
      else (RTR_PFX_SUCCESS, rest, mem))"

section \<open>Adding and removing records\<close>

fun rtr_pfx_table_add ::
  "rtr_pfx_table option \<Rightarrow> rtr_pfx_record option \<Rightarrow> mem
     \<Rightarrow> (rtr_pfx_rtvals \<times> rtr_pfx_table option \<times> mem) option" where
  "rtr_pfx_table_add None r mem = Some (RTR_PFX_NOT_INITIALIZED, None, mem)"
| "rtr_pfx_table_add (Some tbl) None mem = Some (RTR_PFX_ERROR, Some tbl, mem)"
| "rtr_pfx_table_add (Some tbl) (Some r) mem =
     (let ver = ip_ver (pr_prefix r); root = pfx_table_get_root tbl ver in
      if root \<noteq> Null then
        do {
          (node, lvl, found) \<leftarrow> trie_lookup_exact root (pr_prefix r) (pr_min_len r) 0 [];
          ptr \<leftarrow> node;
          if found then
            do {
              it \<leftarrow> node_item (subtree_at ptr root);
              if pfx_table_find_elem (tn_data it) r \<noteq> None then
                Some (RTR_PFX_DUPLICATE_RECORD, Some tbl, mem)
              else
                (let (rtval, data, mem) = pfx_table_append_elem (tn_data it) r mem in
                 do {
                   root' \<leftarrow> update_at ptr (\<lambda>s. Some (set_node_data data s)) root;
                   let tbl = set_root tbl ver root';
                   Some (rtval,
                         Some (if rtval = RTR_PFX_SUCCESS then pfx_table_notify_clients tbl r RTR_PFX_ADD else tbl),
                         mem)
                 })
            }
          else
            (case pfx_table_create_node r mem of
              (err, Some new_node, mem) \<Rightarrow>
                do {
                  root' \<leftarrow> update_at ptr (\<lambda>s. trie_insert s new_node lvl) root;
                  Some (RTR_PFX_SUCCESS, Some (pfx_table_notify_clients (set_root tbl ver root') r RTR_PFX_ADD), mem)
                }
            | (err, None, mem) \<Rightarrow> Some (RTR_PFX_ERROR, Some tbl, mem))
        }
      else
        (case pfx_table_create_node r mem of
          (err, Some new_node, mem) \<Rightarrow>
            Some (RTR_PFX_SUCCESS,
                  Some (pfx_table_notify_clients (set_root tbl ver (Node new_node Null Null)) r RTR_PFX_ADD), mem)
        | (err, None, mem) \<Rightarrow> Some (RTR_PFX_ERROR, Some tbl, mem)))"

text \<open>A NULL table is dereferenced.\<close>

fun rtr_pfx_table_remove ::
  "rtr_pfx_table option \<Rightarrow> rtr_pfx_record \<Rightarrow> mem
     \<Rightarrow> (rtr_pfx_rtvals \<times> rtr_pfx_table option \<times> mem) option" where
  "rtr_pfx_table_remove None r mem = None"
| "rtr_pfx_table_remove (Some tbl) r mem =
     (let ver = ip_ver (pr_prefix r); root = pfx_table_get_root tbl ver in
      do {
        (node, lvl, found) \<leftarrow> trie_lookup_exact root (pr_prefix r) (pr_min_len r) 0 [];
        if \<not> found then Some (RTR_PFX_RECORD_NOT_FOUND, Some tbl, mem)
        else do {
          ptr \<leftarrow> node;
          it \<leftarrow> node_item (subtree_at ptr root);
          case pfx_table_find_elem (tn_data it) r of
            None \<Rightarrow> Some (RTR_PFX_RECORD_NOT_FOUND, Some tbl, mem)
          | Some index \<Rightarrow>
              (let (rtval, data, mem) = pfx_table_del_elem (tn_data it) index mem in
               do {
                 root1 \<leftarrow> update_at ptr (\<lambda>s. Some (set_node_data data s)) root;
                 if rtval = RTR_PFX_ERROR then Some (RTR_PFX_ERROR, Some (set_root tbl ver root1), mem)
                 else do {
                   root2 \<leftarrow> (if data = [] then
                      update_at ptr
                        (\<lambda>s. do { (rm, s') \<leftarrow> trie_remove s (pr_prefix r) (pr_min_len r) lvl;
                                  rm_node \<leftarrow> rm;
                                  if tn_data rm_node = [] then Some s' else None }) root1
                      else Some root1);
                   Some (RTR_PFX_SUCCESS,
                         Some (pfx_table_notify_clients (set_root tbl ver root2) r RTR_PFX_REMOVE), mem)
                 }
               })
        }
      })"

section \<open>Origin validation\<close>

fun pfx_table_elem_matches :: "node_data \<Rightarrow> u32 \<Rightarrow> nat \<Rightarrow> bool" where
  "pfx_table_elem_matches [] asn prefix_len = False"
| "pfx_table_elem_matches (e # es) asn prefix_len =
     (if de_asn e \<noteq> 0 \<and> de_asn e = asn \<and> prefix_len \<le> de_max_len e then True
      else pfx_table_elem_matches es asn prefix_len)"

definition elem_record :: "node_data trie_item \<Rightarrow> data_elem \<Rightarrow> rtr_pfx_record" where
  "elem_record it e = \<lparr>pr_asn = de_asn e, pr_prefix = tn_prefix it, pr_min_len = tn_len it,
     pr_max_len = de_max_len e, pr_socket = de_socket e\<rparr>"

definition item_records :: "node_data trie_item \<Rightarrow> rtr_pfx_record list" where
  "item_records it = map (elem_record it) (tn_data it)"

definition pfx_table_node2pfx_record :: "node_data trie_item \<Rightarrow> nat \<Rightarrow> rtr_pfx_record list option" where
  "pfx_table_node2pfx_record it ary_len =
     (if ary_len < length (tn_data it) then None else Some (item_records it))"

lemma trie_lookup_count: "trie_lookup t p m lvl = Some (s, n) \<Longrightarrow> node_count s \<le> node_count t"
proof (induction t p m lvl rule: trie_lookup.induct)
  case (2 it l r p m lvl)
  then show ?case by (auto simp: bind_Some_iff simp del: trie_lookup.simps(1) split: if_splits) fastforce+
qed simp

text \<open>The first block of \<open>rtr_pfx_table_validate_r\<close> and its loop body both extend the array of
  reasons by the records of one node; \<open>want\<close> says whether the caller passed \<^verbatim>\<open>reason\<close> and
  \<^verbatim>\<open>reason_len\<close>. No records are returned when an allocation fails.\<close>

definition validate_extend ::
  "bool \<Rightarrow> node_data trie_item \<Rightarrow> rtr_pfx_record list \<Rightarrow> mem \<Rightarrow> rtr_pfx_record list option \<times> mem" where
  "validate_extend want it reason mem =
     (if want then
        let (ok, mem) = rtr_realloc mem in
        if \<not> ok then (None, mem)
        else (map_option (\<lambda>rs. reason @ rs) (pfx_table_node2pfx_record it (length (tn_data it))), mem)
      else (Some reason, mem))"

function validate_loop ::
  "bool \<Rightarrow> u32 \<Rightarrow> rtr_ip_addr \<Rightarrow> nat \<Rightarrow> pfx_trie \<Rightarrow> nat \<Rightarrow> rtr_pfx_record list \<Rightarrow> mem
     \<Rightarrow> (rtr_pfx_rtvals \<times> rtr_pfxv_state option \<times> rtr_pfx_record list \<times> mem) option" where
  "validate_loop want asn prefix prefix_len Null lvl reason mem = None"
| "validate_loop want asn prefix prefix_len (Node it l r) lvl reason mem =
     (if pfx_table_elem_matches (tn_data it) asn prefix_len then
        Some (RTR_PFX_SUCCESS, Some RTR_BGP_PFXV_STATE_VALID, reason, mem)
      else do {
        bits \<leftarrow> rtr_ip_addr_get_bits prefix (lvl mod 256) 1;
        (node, lvl') \<leftarrow> trie_lookup (if rtr_ip_addr_is_zero bits then l else r) prefix prefix_len (lvl + 1);
        case node_item node of
          None \<Rightarrow> Some (RTR_PFX_SUCCESS, Some RTR_BGP_PFXV_STATE_INVALID, reason, mem)
        | Some nit \<Rightarrow>
            (case validate_extend want nit reason mem of
              (None, mem) \<Rightarrow> Some (RTR_PFX_ERROR, None, [], mem)
            | (Some reason, mem) \<Rightarrow> validate_loop want asn prefix prefix_len node lvl' reason mem)
      })"
  by pat_completeness auto
termination
  by (relation "measure (\<lambda>(w, a, p, m, t, n, rs, mm). node_count t)")
    (auto dest!: trie_lookup_count split: if_splits)

fun rtr_pfx_table_validate_r ::
  "rtr_pfx_table option \<Rightarrow> bool \<Rightarrow> u32 \<Rightarrow> rtr_ip_addr \<Rightarrow> nat \<Rightarrow> mem
     \<Rightarrow> (rtr_pfx_rtvals \<times> rtr_pfxv_state option \<times> rtr_pfx_record list \<times> mem) option" where
  "rtr_pfx_table_validate_r None want asn prefix prefix_len mem = None"
| "rtr_pfx_table_validate_r (Some tbl) want asn prefix prefix_len mem =
     (let root = pfx_table_get_root tbl (ip_ver prefix) in
      if root = Null then Some (RTR_PFX_SUCCESS, Some RTR_BGP_PFXV_STATE_NOT_FOUND, [], mem)
      else do {
        (node, lvl) \<leftarrow> trie_lookup root prefix prefix_len 0;
        case node_item node of
          None \<Rightarrow> Some (RTR_PFX_SUCCESS, Some RTR_BGP_PFXV_STATE_NOT_FOUND, [], mem)
        | Some it \<Rightarrow>
            (case validate_extend want it [] mem of
              (None, mem) \<Rightarrow> Some (RTR_PFX_ERROR, None, [], mem)
            | (Some reason, mem) \<Rightarrow> validate_loop want asn prefix prefix_len node lvl reason mem)
      })"

definition rtr_pfx_table_validate ::
  "rtr_pfx_table option \<Rightarrow> u32 \<Rightarrow> rtr_ip_addr \<Rightarrow> nat \<Rightarrow> (rtr_pfx_rtvals \<times> rtr_pfxv_state option) option" where
  "rtr_pfx_table_validate tbl asn prefix prefix_len =
     map_option (\<lambda>(rv, st, rs, mem). (rv, st)) (rtr_pfx_table_validate_r tbl False asn prefix prefix_len [])"

section \<open>Removing the records of a socket\<close>

text \<open>The nested loops over the node data: \<open>i\<close> is the index of the outer loop. A failing
  \<open>pfx_table_del_elem\<close> ends both with the data as it left it.\<close>

function remove_id_elems ::
  "rtr_pfx_table \<Rightarrow> node_data trie_item \<Rightarrow> node_data \<Rightarrow> socket_id \<Rightarrow> nat \<Rightarrow> mem
     \<Rightarrow> rtr_pfx_rtvals \<times> rtr_pfx_table \<times> node_data \<times> mem" where
  "remove_id_elems tbl it data socket i mem =
     (if \<not> i < length data then (RTR_PFX_SUCCESS, tbl, data, mem)
      else if de_socket (data ! i) = socket then
        let r = elem_record it (data ! i); (rtval, data', mem) = pfx_table_del_elem data i mem in
        if rtval = RTR_PFX_ERROR then (RTR_PFX_ERROR, tbl, data', mem)
        else remove_id_elems (pfx_table_notify_clients tbl r RTR_PFX_REMOVE) it data' socket i mem
      else remove_id_elems tbl it data socket (i + 1) mem)"
  by pat_completeness auto
termination
  by (relation "measure (\<lambda>(tbl, it, data, s, i, mem). length data - i)")
    (auto simp: pfx_table_del_elem_def Let_def split: if_splits prod.splits)

declare remove_id_elems.simps [simp del]

text \<open>\<open>pfx_table_remove_id\<close> on the subtree behind \<^verbatim>\<open>node\<close>: the loop repeats while the node was emptied
  and took over the contents of a child. The table argument only carries the callback and its log.\<close>

function pfx_table_remove_id ::
  "rtr_pfx_table \<Rightarrow> pfx_trie \<Rightarrow> socket_id \<Rightarrow> nat \<Rightarrow> mem
     \<Rightarrow> (rtr_pfx_rtvals \<times> rtr_pfx_table \<times> pfx_trie \<times> mem) option" where
  "pfx_table_remove_id tbl Null socket level mem = None"
| "pfx_table_remove_id tbl (Node it l r) socket level mem =
     (case remove_id_elems tbl it (tn_data it) socket 0 mem of
       (rtval, tbl, data, mem) \<Rightarrow>
         if rtval = RTR_PFX_ERROR then Some (RTR_PFX_ERROR, tbl, Node (it\<lparr>tn_data := data\<rparr>) l r, mem)
         else if data = [] then
           do {
             (rm, node) \<leftarrow> trie_remove (Node (it\<lparr>tn_data := data\<rparr>) l r) (tn_prefix it) (tn_len it) level;
             case rm of
               None \<Rightarrow> None
             | Some rm_node \<Rightarrow>
                 if tn_data rm_node \<noteq> [] then None
                 else if node = Null then Some (RTR_PFX_SUCCESS, tbl, Null, mem)
                 else pfx_table_remove_id tbl node socket level mem
           }
         else
           do {
             (rtval, tbl, l', mem) \<leftarrow>
               (if l \<noteq> Null then pfx_table_remove_id tbl l socket (level + 1) mem
                else Some (RTR_PFX_SUCCESS, tbl, l, mem));
             if rtval = RTR_PFX_ERROR then Some (RTR_PFX_ERROR, tbl, Node (it\<lparr>tn_data := data\<rparr>) l' r, mem)
             else if r \<noteq> Null then
               do {
                 (rtval, tbl, r', mem) \<leftarrow> pfx_table_remove_id tbl r socket (level + 1) mem;
                 Some (rtval, tbl, Node (it\<lparr>tn_data := data\<rparr>) l' r', mem)
               }
             else Some (RTR_PFX_SUCCESS, tbl, Node (it\<lparr>tn_data := data\<rparr>) l' r, mem)
           })"
  by pat_completeness auto
termination
  by (relation "measure (\<lambda>(tbl, t, s, n, mem). node_count t)")
    (auto dest!: trie_remove_count)

declare pfx_table_remove_id.simps [simp del]

fun rtr_pfx_table_src_remove ::
  "rtr_pfx_table option \<Rightarrow> socket_id \<Rightarrow> mem \<Rightarrow> (rtr_pfx_rtvals \<times> rtr_pfx_table option \<times> mem) option" where
  "rtr_pfx_table_src_remove None socket mem = Some (RTR_PFX_SUCCESS, None, mem)"
| "rtr_pfx_table_src_remove (Some tbl) socket mem =
     do {
       (rtval, tbl, mem) \<leftarrow>
         (if ipv4 tbl \<noteq> Null then
            do { (rtval, tbl, root, mem) \<leftarrow> pfx_table_remove_id tbl (ipv4 tbl) socket 0 mem;
                 Some (rtval, tbl\<lparr>ipv4 := root\<rparr>, mem) }
          else Some (RTR_PFX_SUCCESS, tbl, mem));
       if rtval = RTR_PFX_ERROR then Some (RTR_PFX_ERROR, Some tbl, mem)
       else do {
         (rtval, tbl, mem) \<leftarrow>
           (if ipv6 tbl \<noteq> Null then
              do { (rtval, tbl, root, mem) \<leftarrow> pfx_table_remove_id tbl (ipv6 tbl) socket 0 mem;
                   Some (rtval, tbl\<lparr>ipv6 := root\<rparr>, mem) }
            else Some (RTR_PFX_SUCCESS, tbl, mem));
         if rtval = RTR_PFX_ERROR then Some (RTR_PFX_ERROR, Some tbl, mem)
         else Some (RTR_PFX_SUCCESS, Some tbl, mem)
       }
     }"

section \<open>Iterating, copying, comparing and freeing tables\<close>

fun pfx_table_for_each_rec ::
  "pfx_trie \<Rightarrow> (rtr_pfx_record \<Rightarrow> 's \<Rightarrow> 's option) \<Rightarrow> 's \<Rightarrow> 's option" where
  "pfx_table_for_each_rec Null fp s = None"
| "pfx_table_for_each_rec (Node it l r) fp s =
     do {
       s \<leftarrow> (if l \<noteq> Null then pfx_table_for_each_rec l fp s else Some s);
       s \<leftarrow> fold_opt fp (item_records it) s;
       if r \<noteq> Null then pfx_table_for_each_rec r fp s else Some s
     }"

fun rtr_pfx_table_for_each_ipv4_record ::
  "rtr_pfx_table option \<Rightarrow> (rtr_pfx_record \<Rightarrow> 's \<Rightarrow> 's option) \<Rightarrow> 's \<Rightarrow> (rtr_pfx_rtvals \<times> 's) option" where
  "rtr_pfx_table_for_each_ipv4_record None fp s = Some (RTR_PFX_NOT_INITIALIZED, s)"
| "rtr_pfx_table_for_each_ipv4_record (Some tbl) fp s =
     do { s \<leftarrow> (if ipv4 tbl \<noteq> Null then pfx_table_for_each_rec (ipv4 tbl) fp s else Some s);
          Some (RTR_PFX_SUCCESS, s) }"

fun rtr_pfx_table_for_each_ipv6_record ::
  "rtr_pfx_table option \<Rightarrow> (rtr_pfx_record \<Rightarrow> 's \<Rightarrow> 's option) \<Rightarrow> 's \<Rightarrow> (rtr_pfx_rtvals \<times> 's) option" where
  "rtr_pfx_table_for_each_ipv6_record None fp s = Some (RTR_PFX_NOT_INITIALIZED, s)"
| "rtr_pfx_table_for_each_ipv6_record (Some tbl) fp s =
     do { s \<leftarrow> (if ipv6 tbl \<noteq> Null then pfx_table_for_each_rec (ipv6 tbl) fp s else Some s);
          Some (RTR_PFX_SUCCESS, s) }"

text \<open>The callback's argument block: destination table, error flag and what is left of the script.\<close>

fun pfx_table_copy_cb ::
  "socket_id \<Rightarrow> rtr_pfx_record \<Rightarrow> rtr_pfx_table option \<times> bool \<times> mem
     \<Rightarrow> (rtr_pfx_table option \<times> bool \<times> mem) option" where
  "pfx_table_copy_cb socket r (dst, error, mem) =
     (if pr_socket r \<noteq> socket then
        do { (rtval, dst, mem) \<leftarrow> rtr_pfx_table_add dst (Some r) mem;
             Some (dst, (if rtval \<noteq> RTR_PFX_SUCCESS then True else error), mem) }
      else Some (dst, error, mem))"

definition pfx_table_copy_except_socket ::
  "rtr_pfx_table option \<Rightarrow> rtr_pfx_table option \<Rightarrow> socket_id \<Rightarrow> mem
     \<Rightarrow> (rtr_pfx_rtvals \<times> rtr_pfx_table option \<times> mem) option" where
  "pfx_table_copy_except_socket src dst socket mem =
     do {
       (_, dst, error, mem) \<leftarrow>
         rtr_pfx_table_for_each_ipv4_record src (pfx_table_copy_cb socket) (dst, False, mem);
       if error then Some (RTR_PFX_ERROR, dst, mem)
       else do {
         (_, dst, error, mem) \<leftarrow>
           rtr_pfx_table_for_each_ipv6_record src (pfx_table_copy_cb socket) (dst, error, mem);
         if error then Some (RTR_PFX_ERROR, dst, mem) else Some (RTR_PFX_SUCCESS, dst, mem)
       }
     }"

definition pfx_table_swap :: "rtr_pfx_table \<Rightarrow> rtr_pfx_table \<Rightarrow> rtr_pfx_table \<times> rtr_pfx_table" where
  "pfx_table_swap a b =
     (a\<lparr>ipv4 := ipv4 b, ipv6 := ipv6 b\<rparr>, b\<lparr>ipv4 := ipv4 a, ipv6 := ipv6 a\<rparr>)"

fun pfx_table_notify_diff_cb ::
  "socket_id \<Rightarrow> rtr_pfx_operation_type \<Rightarrow> rtr_pfx_record \<Rightarrow> rtr_pfx_table \<times> rtr_pfx_table \<times> mem
     \<Rightarrow> (rtr_pfx_table \<times> rtr_pfx_table \<times> mem) option" where
  "pfx_table_notify_diff_cb socket op r (new_table, old_table, mem) =
     (if socket = pr_socket r \<and> op = RTR_PFX_ADD then
        do {
          (rtval, old', mem) \<leftarrow> rtr_pfx_table_remove (Some old_table) r mem;
          old_table \<leftarrow> old';
          Some (if rtval \<noteq> RTR_PFX_SUCCESS then pfx_table_notify_clients new_table r op else new_table,
                old_table, mem)
        }
      else if socket = pr_socket r \<and> op = RTR_PFX_REMOVE then
        Some (pfx_table_notify_clients new_table r op, old_table, mem)
      else Some (new_table, old_table, mem))"

text \<open>The iterated tries are those of the table at the start of each iteration: the callback
  changes the other table, or only the log.\<close>

definition pfx_table_notify_diff ::
  "rtr_pfx_table \<Rightarrow> rtr_pfx_table \<Rightarrow> socket_id \<Rightarrow> mem \<Rightarrow> (rtr_pfx_table \<times> rtr_pfx_table \<times> mem) option" where
  "pfx_table_notify_diff new_table old_table socket mem =
     (let old_table_fp = update_fp old_table; old_table = old_table\<lparr>update_fp := False\<rparr> in
      do {
        (_, s) \<leftarrow> rtr_pfx_table_for_each_ipv4_record (Some new_table)
                  (pfx_table_notify_diff_cb socket RTR_PFX_ADD) (new_table, old_table, mem);
        (_, s) \<leftarrow> rtr_pfx_table_for_each_ipv6_record (Some (fst s))
                  (pfx_table_notify_diff_cb socket RTR_PFX_ADD) s;
        (_, s) \<leftarrow> rtr_pfx_table_for_each_ipv4_record (Some (fst (snd s)))
                  (pfx_table_notify_diff_cb socket RTR_PFX_REMOVE) s;
        (_, new_table, old_table, mem) \<leftarrow> rtr_pfx_table_for_each_ipv6_record (Some (fst (snd s)))
                  (pfx_table_notify_diff_cb socket RTR_PFX_REMOVE) s;
        Some (new_table, old_table\<lparr>update_fp := old_table_fp\<rparr>, mem)
      })"

text \<open>One trie of \<open>rtr_pfx_table_free\<close>: notify for the root, remove it, until it was the last node.\<close>

function free_trie :: "rtr_pfx_table \<Rightarrow> pfx_trie \<Rightarrow> rtr_pfx_table option" where
  "free_trie tbl Null = Some tbl"
| "free_trie tbl (Node it l r) =
     (let tbl = fold (\<lambda>rec t. pfx_table_notify_clients t rec RTR_PFX_REMOVE) (item_records it) tbl in
      case trie_remove (Node it l r) (tn_prefix it) (tn_len it) 0 of
        Some (Some rm_node, root) \<Rightarrow> free_trie tbl root
      | _ \<Rightarrow> None)"
  by pat_completeness auto
termination
  by (relation "measure (\<lambda>(tbl, t). node_count t)") (auto dest!: trie_remove_count)

fun rtr_pfx_table_free :: "rtr_pfx_table option \<Rightarrow> rtr_pfx_table option option" where
  "rtr_pfx_table_free None = Some None"
| "rtr_pfx_table_free (Some tbl) =
     do {
       tbl \<leftarrow> (if ipv4 tbl \<noteq> Null then map_option (\<lambda>t. t\<lparr>ipv4 := Null\<rparr>) (free_trie tbl (ipv4 tbl)) else Some tbl);
       tbl \<leftarrow> (if ipv6 tbl \<noteq> Null then map_option (\<lambda>t. t\<lparr>ipv6 := Null\<rparr>) (free_trie tbl (ipv6 tbl)) else Some tbl);
       Some (Some tbl)
     }"

definition pfx_table_free_without_notify :: "rtr_pfx_table \<Rightarrow> rtr_pfx_table option option" where
  "pfx_table_free_without_notify tbl = rtr_pfx_table_free (Some (tbl\<lparr>update_fp := False\<rparr>))"

end
