(* ===== verification/Pfx_Proofs.thy ===== *)
theory Pfx_Proofs
  imports Pfx_Table
begin

text \<open>
  Correctness of the prefix table. \<open>trie_records\<close> and \<open>pfx_records\<close> list the stored records in the
  order of the iterator; the table invariant \<open>pfx_inv\<close> is the shape of both tries plus nodes with
  non-empty, duplicate-free data. Adding and removing records is shown to refine insertion and
  deletion in the set of records, and \<open>rtr_pfx_table_validate_r\<close> to compute the route origin
  validation of RFC 6811 on that set.
\<close>

section \<open>The records of a table\<close>

definition trie_records :: "pfx_trie \<Rightarrow> rtr_pfx_record list" where
  "trie_records t = concat (map item_records (trie_items t))"

definition pfx_records :: "rtr_pfx_table \<Rightarrow> rtr_pfx_record list" where
  "pfx_records tbl = trie_records (ipv4 tbl) @ trie_records (ipv6 tbl)"

definition rec_key :: "rtr_pfx_record \<Rightarrow> rtr_ip_addr \<times> nat" where
  "rec_key r = (pr_prefix r, pr_min_len r)"

definition rec_ok :: "rtr_pfx_record \<Rightarrow> bool" where
  "rec_ok r = canonical (pr_prefix r) (pr_min_len r)"

definition pfx_trie_inv :: "rtr_ip_version \<Rightarrow> pfx_trie \<Rightarrow> bool" where
  "pfx_trie_inv v t = (trie_inv v 0 t \<and> (\<forall>x\<in>set (trie_items t). tn_data x \<noteq> [] \<and> distinct (tn_data x)))"

definition pfx_inv :: "rtr_pfx_table \<Rightarrow> bool" where
  "pfx_inv tbl = (pfx_trie_inv RTR_IPV4 (ipv4 tbl) \<and> pfx_trie_inv RTR_IPV6 (ipv6 tbl))"

lemma in_item_records:
  "r \<in> set (item_records x) \<longleftrightarrow> rec_key r = item_key x \<and> rec_elem r \<in> set (tn_data x)"
proof -
  have "r = elem_record x e \<longleftrightarrow> rec_key r = item_key x \<and> rec_elem r = e" for e
    by (cases r; cases e) (auto simp: elem_record_def rec_key_def item_key_def rec_elem_def)
  then have "r \<in> elem_record x ` A \<longleftrightarrow> rec_key r = item_key x \<and> rec_elem r \<in> A" for A
    by (simp add: image_iff)
  then show ?thesis by (simp add: item_records_def)
qed

lemma in_trie_records:
  "r \<in> set (trie_records t) \<longleftrightarrow>
     (\<exists>x\<in>set (trie_items t). rec_key r = item_key x \<and> rec_elem r \<in> set (tn_data x))"
  by (auto simp: trie_records_def in_item_records)

lemma elem_record_inj: "elem_record x e = elem_record x e' \<longleftrightarrow> e = e'"
  by (cases e; cases e') (auto simp: elem_record_def)

lemma elem_record_rec_elem: "item_key x = rec_key r \<Longrightarrow> elem_record x (rec_elem r) = r"
  by (cases r) (auto simp: elem_record_def rec_elem_def rec_key_def item_key_def)

lemma elem_record_data [simp]: "elem_record (x\<lparr>tn_data := d\<rparr>) = elem_record x"
  by (rule ext) (simp add: elem_record_def)

lemma mset_trie_records: "mset (trie_records t) = (\<Sum>x\<in>#mset (trie_items t). mset (item_records x))"
  by (simp add: trie_records_def mset_concat sum_mset_sum_list [symmetric] comp_def del: sum_mset_sum_list)

lemma trie_records_distinct:
  assumes "pfx_trie_inv v t"
  shows "distinct (trie_records t)"
proof -
  have "distinct (map item_key (trie_items t))" "\<forall>x\<in>set (trie_items t). distinct (tn_data x)"
    using assms trie_inv_distinct by (auto simp: pfx_trie_inv_def)
  then have "distinct (concat (map item_records xs))" if "xs = trie_items t" for xs
    unfolding that [symmetric]
  proof (induction xs)
    case (Cons x xs)
    have "distinct (item_records x)"
      using Cons.prems by (auto simp: item_records_def distinct_map inj_on_def elem_record_inj)
    moreover have "set (item_records x) \<inter> set (concat (map item_records xs)) = {}"
      using Cons.prems by (auto simp: in_item_records)
    ultimately show ?case using Cons by simp
  qed simp
  then show ?thesis by (simp add: trie_records_def)
qed

lemma trie_records_ver:
  "pfx_trie_inv v t \<Longrightarrow> r \<in> set (trie_records t) \<Longrightarrow> ip_ver (pr_prefix r) = v \<and> rec_ok r"
  using trie_inv_items [of v 0 t]
  by (fastforce simp: pfx_trie_inv_def in_trie_records item_ok_def rec_key_def item_key_def rec_ok_def)

lemma pfx_inv_root: "pfx_inv tbl \<Longrightarrow> pfx_trie_inv v (pfx_table_get_root tbl v)"
  by (cases v) (auto simp: pfx_inv_def pfx_table_get_root_def)

lemma pfx_inv_set_root: "pfx_inv tbl \<Longrightarrow> pfx_trie_inv v t \<Longrightarrow> pfx_inv (set_root tbl v t)"
  by (cases v) (auto simp: pfx_inv_def set_root_def)

lemma mset_pfx_records_set_root:
  "mset (pfx_records (set_root tbl v t)) + mset (trie_records (pfx_table_get_root tbl v)) =
   mset (pfx_records tbl) + mset (trie_records t)"
  by (cases v) (auto simp: pfx_records_def set_root_def pfx_table_get_root_def ac_simps)

lemma pfx_records_root_iff:
  assumes "pfx_inv tbl"
  shows "r \<in> set (pfx_records tbl) \<longleftrightarrow> r \<in> set (trie_records (pfx_table_get_root tbl (ip_ver (pr_prefix r))))"
  using assms trie_records_ver [of RTR_IPV4 "ipv4 tbl" r] trie_records_ver [of RTR_IPV6 "ipv6 tbl" r]
  by (cases "ip_ver (pr_prefix r)") (auto simp: pfx_inv_def pfx_records_def pfx_table_get_root_def)

lemma pfx_records_distinct: "pfx_inv tbl \<Longrightarrow> distinct (pfx_records tbl)"
  using trie_records_distinct trie_records_ver [of RTR_IPV4 "ipv4 tbl"] trie_records_ver [of RTR_IPV6 "ipv6 tbl"]
  by (fastforce simp: pfx_inv_def pfx_records_def)

lemma pfx_inv_notify [simp]: "pfx_inv (pfx_table_notify_clients tbl r op) = pfx_inv tbl"
  by (simp add: pfx_table_notify_clients_def pfx_inv_def)

lemma pfx_records_notify [simp]: "pfx_records (pfx_table_notify_clients tbl r op) = pfx_records tbl"
  by (simp add: pfx_table_notify_clients_def pfx_records_def)

lemma update_fp_notify [simp]: "update_fp (pfx_table_notify_clients tbl r op) = update_fp tbl"
  by (simp add: pfx_table_notify_clients_def)

lemma tries_notify [simp]:
  "ipv4 (pfx_table_notify_clients tbl r op) = ipv4 tbl" "ipv6 (pfx_table_notify_clients tbl r op) = ipv6 tbl"
  by (simp_all add: pfx_table_notify_clients_def)

lemma set_root_log [simp]: "update_fp (set_root tbl v t) = update_fp tbl" "pfx_log (set_root tbl v t) = pfx_log tbl"
  by (simp_all add: set_root_def)

lemma pfx_log_notify:
  "pfx_log (pfx_table_notify_clients tbl r op) = pfx_log tbl @ (if update_fp tbl then [(r, op)] else [])"
  by (simp add: pfx_table_notify_clients_def)

section \<open>Elements of a node\<close>

lemma find_elem_from_iff:
  "find_elem_from i es r = None \<longleftrightarrow> rec_elem r \<notin> set es"
  "find_elem_from i es r = Some j \<Longrightarrow> i \<le> j \<and> j < i + length es \<and> es ! (j - i) = rec_elem r"
proof -
  have e: "de_asn e = pr_asn r \<and> de_max_len e = pr_max_len r \<and> de_socket e = pr_socket r \<longleftrightarrow> e = rec_elem r" for e
    by (cases e) (auto simp: rec_elem_def)
  show "find_elem_from i es r = None \<longleftrightarrow> rec_elem r \<notin> set es"
    by (induction es arbitrary: i) (auto simp: e)
  show "find_elem_from i es r = Some j \<Longrightarrow> i \<le> j \<and> j < i + length es \<and> es ! (j - i) = rec_elem r"
    by (induction es arbitrary: i) (fastforce simp: e nth_Cons' split: if_splits)+
qed

lemma pfx_table_find_elem_None [simp]: "pfx_table_find_elem es r = None \<longleftrightarrow> rec_elem r \<notin> set es"
  by (simp add: pfx_table_find_elem_def find_elem_from_iff)

lemma pfx_table_find_elem_Some:
  "pfx_table_find_elem es r = Some j \<Longrightarrow> j < length es \<and> es ! j = rec_elem r"
  using find_elem_from_iff(2) [of 0 es r j] by (simp add: pfx_table_find_elem_def)

lemma pfx_table_elem_matches_iff:
  "pfx_table_elem_matches es asn m \<longleftrightarrow> (\<exists>e\<in>set es. de_asn e \<noteq> 0 \<and> de_asn e = asn \<and> m \<le> de_max_len e)"
  by (induction es) auto

section \<open>One trie\<close>

lemma trie_key_unique:
  "trie_inv v lvl t \<Longrightarrow> x \<in> set (trie_items t) \<Longrightarrow> y \<in> set (trie_items t) \<Longrightarrow> item_key x = item_key y \<Longrightarrow> x = y"
  using trie_inv_distinct [of v lvl t] by (auto simp: distinct_map inj_on_def)

lemma root_lookup_exact:
  assumes "pfx_trie_inv v t" "t \<noteq> Null" "ip_ver p = v" "canonical p m"
  shows "\<exists>path f. trie_lookup_exact t p m 0 [] = Some (Some path, length path, f) \<and> exact_result t p m 0 path f"
proof -
  have "on_track v 0 p m t"
    using assms trie_inv_items [of v 0 t] by (auto simp: on_track_def pfx_trie_inv_def same_bits_def item_ok_def)
  then show ?thesis using trie_lookup_exact_correct [of v 0 p m t "[]"] assms(2) by simp
qed

lemma exact_result_found:
  assumes "exact_result t p m lvl path True"
  obtains it l r where "subtree_at path t = Node it l r" "item_key it = (p, m)" "it \<in> set (trie_items t)"
proof -
  obtain it l r where s: "subtree_at path t = Node it l r"
    using assms by (cases "subtree_at path t") (auto simp: exact_result_def)
  moreover have "item_key it = (p, m)" using assms s by (simp add: exact_result_def)
  moreover have "it \<in> set (trie_items t)" using subtree_at_items [of path t] s by auto
  ultimately show thesis using that by blast
qed

lemma exact_result_records:
  assumes "trie_inv v 0 t" "exact_result t p m lvl path f" "rec_key r = (p, m)"
  shows "r \<in> set (trie_records t) \<longleftrightarrow>
    f \<and> (\<forall>it. node_item (subtree_at path t) = Some it \<longrightarrow> rec_elem r \<in> set (tn_data it))"
proof (cases f)
  case True
  with assms(2) have "exact_result t p m lvl path True" by simp
  then obtain it s1 s2 where it: "subtree_at path t = Node it s1 s2" "item_key it = (p, m)" "it \<in> set (trie_items t)"
    by (rule exact_result_found)
  moreover have "r \<in> set (trie_records t) \<longleftrightarrow> rec_elem r \<in> set (tn_data it)"
    unfolding in_trie_records assms(3) using it(2,3) trie_key_unique [OF assms(1)] by metis
  ultimately show ?thesis using True by simp
next
  case False
  then have "(p, m) \<notin> item_key ` set (trie_items t)" using assms(2) by (simp add: exact_result_def)
  then show ?thesis using assms(3) False by (auto simp: in_trie_records)
qed

text \<open>Rewriting the data of a node through its pointer.\<close>

lemma subtree_at_update_at:
  "update_at path f t = Some t' \<Longrightarrow> f (subtree_at path t) = Some s \<Longrightarrow> subtree_at path t' = s"
  by (induction path t arbitrary: t' rule: subtree_at.induct) (auto simp: bind_Some_iff)

lemma set_data_at:
  assumes "trie_inv v 0 t" "subtree_at path t = Node it l r"
  shows "\<exists>t'. update_at path (\<lambda>s. Some (set_node_data d s)) t = Some t' \<and> trie_inv v 0 t' \<and>
           subtree_at path t' = Node (it\<lparr>tn_data := d\<rparr>) l r \<and>
           add_mset it (mset (trie_items t')) = add_mset (it\<lparr>tn_data := d\<rparr>) (mset (trie_items t))"
proof -
  let ?f = "\<lambda>s. Some (set_node_data d s)"
  have i: "trie_inv v (0 + length path) (Node (it\<lparr>tn_data := d\<rparr>) l r)"
    using subtree_at_inv [OF assms(1), of path] assms(2) by simp
  have f: "?f (Node it l r) = Some (Node (it\<lparr>tn_data := d\<rparr>) l r)" by simp
  have k: "item_key ` set (trie_items (Node (it\<lparr>tn_data := d\<rparr>) l r)) \<subseteq> item_key ` set (trie_items (Node it l r))"
    by simp
  from update_at_inv [OF assms(1,2), where f = ?f, OF _ f i k] obtain t' where t': "update_at path ?f t = Some t'" "trie_inv v 0 t'"
    "mset (trie_items t') + mset (trie_items (Node it l r)) =
     mset (trie_items t) + mset (trie_items (Node (it\<lparr>tn_data := d\<rparr>) l r))"
    by auto
  have "add_mset it (mset (trie_items t')) = add_mset (it\<lparr>tn_data := d\<rparr>) (mset (trie_items t))"
    using t'(3) by simp
  then show ?thesis using t'(1,2) subtree_at_update_at [OF t'(1)] assms(2) by simp
qed

lemma records_replace_item:
  assumes "add_mset a (mset (trie_items t')) = add_mset b (mset (trie_items t))"
  shows "mset (item_records a) + mset (trie_records t') = mset (item_records b) + mset (trie_records t)"
  using arg_cong [OF assms, of "\<lambda>M. \<Sum>x\<in>#M. mset (item_records x)"] by (simp add: mset_trie_records)

lemma items_replace_item:
  assumes "add_mset a (mset (trie_items t')) = add_mset b (mset (trie_items t))"
  shows "set (trie_items t') \<subseteq> insert b (set (trie_items t))"
  using arg_cong [OF assms, of set_mset] by auto

text \<open>Dropping an emptied node.\<close>

lemma drop_node_at:
  assumes "trie_inv v 0 t" "subtree_at path t = Node it l r" "tn_data it = []" "item_key it = (p, m)"
  shows "\<exists>t'. update_at path (\<lambda>s. do { (rm, s') \<leftarrow> trie_remove s p m (length path); rm_node \<leftarrow> rm;
                                  if tn_data rm_node = [] then Some s' else None }) t = Some t' \<and>
           trie_inv v 0 t' \<and> add_mset it (mset (trie_items t')) = mset (trie_items t)"
proof -
  let ?f = "\<lambda>s. do { (rm, s') \<leftarrow> trie_remove s p m (length path); rm_node \<leftarrow> rm;
                  if tn_data rm_node = [] then Some s' else None }"
  have "trie_inv v (length path) (Node it l r)"
    using subtree_at_inv [OF assms(1), of path] assms(2) by simp
  then obtain x s' where s': "trie_remove (Node it l r) p m (length path) = Some (Some x, s')" "tn_data x = []"
    "mset (trie_items s') = mset (trie_items l) + mset (trie_items r)" "trie_inv v (0 + length path) s'"
    using trie_remove_root [of v "length path" it l r] assms(3,4) by (auto simp: item_key_def)
  have f: "?f (Node it l r) = Some s'" using s'(1,2) by simp
  have "set (trie_items s') = set (trie_items l) \<union> set (trie_items r)"
    using arg_cong [OF s'(3), of set_mset] by simp
  then have k: "item_key ` set (trie_items s') \<subseteq> item_key ` set (trie_items (Node it l r))" by auto
  from update_at_inv [OF assms(1,2), where f = ?f, OF _ f s'(4) k] obtain t' where t': "update_at path ?f t = Some t'" "trie_inv v 0 t'"
    "mset (trie_items t') + mset (trie_items (Node it l r)) = mset (trie_items t) + mset (trie_items s')"
    by auto
  have "add_mset it (mset (trie_items t')) = mset (trie_items t)"
    using t'(3) s'(3) by simp
  then show ?thesis using t'(1,2) by blast
qed

lemma set_data_same:
  "subtree_at path t = Node it l r \<Longrightarrow> update_at path (\<lambda>s. Some (set_node_data (tn_data it) s)) t = Some t"
  by (induction path t rule: subtree_at.induct) auto

lemma pfx_trie_add_elem:
  assumes "pfx_trie_inv v t" "subtree_at path t = Node it s1 s2" "item_key it = rec_key r"
    "rec_elem r \<notin> set (tn_data it)"
  shows "\<exists>t'. update_at path (\<lambda>s. Some (set_node_data (tn_data it @ [rec_elem r]) s)) t = Some t' \<and>
           pfx_trie_inv v t' \<and> mset (trie_records t') = add_mset r (mset (trie_records t))"
proof -
  let ?d = "tn_data it @ [rec_elem r]"
  have inv: "trie_inv v 0 t" using assms(1) by (simp add: pfx_trie_inv_def)
  from set_data_at [OF this assms(2), of ?d] obtain t' where
    t': "update_at path (\<lambda>s. Some (set_node_data ?d s)) t = Some t'" "trie_inv v 0 t'"
    "add_mset it (mset (trie_items t')) = add_mset (it\<lparr>tn_data := ?d\<rparr>) (mset (trie_items t))" by blast
  have "item_records (it\<lparr>tn_data := ?d\<rparr>) = item_records it @ [r]"
    using elem_record_rec_elem [OF assms(3)] by (simp add: item_records_def)
  then have "mset (trie_records t') = add_mset r (mset (trie_records t))"
    using records_replace_item [OF t'(3)] by simp
  moreover have "it \<in> set (trie_items t)" using subtree_at_items [of path t] assms(2) by auto
  then have "pfx_trie_inv v t'"
    using items_replace_item [OF t'(3)] t'(2) assms(1,4) by (auto simp: pfx_trie_inv_def)
  ultimately show ?thesis using t'(1) by blast
qed

lemma pfx_trie_add_node:
  assumes "pfx_trie_inv v t" "t \<noteq> Null" "exact_result t (pr_prefix r) (pr_min_len r) 0 path False"
    "ip_ver (pr_prefix r) = v" "rec_ok r"
    "new = \<lparr>tn_prefix = pr_prefix r, tn_len = pr_min_len r, tn_data = [rec_elem r]\<rparr>"
  shows "\<exists>t'. update_at path (\<lambda>s. trie_insert s new (length path)) t = Some t' \<and>
           pfx_trie_inv v t' \<and> mset (trie_records t') = add_mset r (mset (trie_records t))"
proof -
  have k: "item_key new = (pr_prefix r, pr_min_len r)" using assms(6) by (simp add: item_key_def)
  have inv: "trie_inv v 0 t" using assms(1) by (simp add: pfx_trie_inv_def)
  have "fits v 0 new (set (trie_items t))"
    using assms(3-6) k trie_inv_items [OF inv]
    by (auto simp: fits_def item_ok_def rec_ok_def exact_result_def same_bits_def) (metis imageI)
  from trie_insert_correct [OF assms(2) inv this] obtain t' where t': "trie_insert t new 0 = Some t'"
    "mset (trie_items t') = add_mset new (mset (trie_items t))" "trie_inv v 0 t'" by auto
  have "update_at path (\<lambda>s. trie_insert s new (length path)) t = Some t'"
    using assms(3) k t'(1) by (simp add: exact_result_def)
  moreover have "item_records new = [r]"
    using assms(6) by (simp add: item_records_def elem_record_def rec_elem_def)
  then have "mset (trie_records t') = add_mset r (mset (trie_records t))"
    using t'(2) by (simp add: mset_trie_records)
  moreover have "set (trie_items t') = insert new (set (trie_items t))"
    using arg_cong [OF t'(2), of set_mset] by simp
  then have "pfx_trie_inv v t'" using t'(3) assms(1,6) by (auto simp: pfx_trie_inv_def)
  ultimately show ?thesis by blast
qed

lemma pfx_trie_del_elem:
  assumes "pfx_trie_inv v t" "subtree_at path t = Node it s1 s2" "item_key it = rec_key r"
    "mset (tn_data it) = add_mset (rec_elem r) (mset d)" "d \<noteq> []"
  shows "\<exists>t'. update_at path (\<lambda>s. Some (set_node_data d s)) t = Some t' \<and>
           pfx_trie_inv v t' \<and> mset (trie_records t) = add_mset r (mset (trie_records t'))"
proof -
  have inv: "trie_inv v 0 t" using assms(1) by (simp add: pfx_trie_inv_def)
  from set_data_at [OF this assms(2), of d] obtain t' where
    t': "update_at path (\<lambda>s. Some (set_node_data d s)) t = Some t'" "trie_inv v 0 t'"
    "add_mset it (mset (trie_items t')) = add_mset (it\<lparr>tn_data := d\<rparr>) (mset (trie_items t))" by blast
  have "mset (item_records it) = add_mset r (mset (item_records (it\<lparr>tn_data := d\<rparr>)))"
    using assms(4) elem_record_rec_elem [OF assms(3)] by (simp add: item_records_def)
  then have "mset (trie_records t) = add_mset r (mset (trie_records t'))"
    using records_replace_item [OF t'(3)] by simp
  moreover have "it \<in> set (trie_items t)" using subtree_at_items [of path t] assms(2) by auto
  then have "distinct (tn_data it)" using assms(1) by (auto simp: pfx_trie_inv_def)
  then have "distinct d" using assms(4)
    by (metis distinct_count_atmost_1 mset_eq_imp_distinct_iff mset.simps(2) distinct.simps(2))
  then have "pfx_trie_inv v t'"
    using items_replace_item [OF t'(3)] t'(2) assms(1,5) by (auto simp: pfx_trie_inv_def)
  ultimately show ?thesis using t'(1) by blast
qed

lemma pfx_trie_drop_node:
  assumes "pfx_trie_inv v t" "subtree_at path t = Node it s1 s2" "item_key it = rec_key r" "tn_data it = [rec_elem r]"
  shows "\<exists>t1 t'. update_at path (\<lambda>s. Some (set_node_data [] s)) t = Some t1 \<and>
           update_at path (\<lambda>s. do { (rm, s') \<leftarrow> trie_remove s (pr_prefix r) (pr_min_len r) (length path); rm_node \<leftarrow> rm;
                                   if tn_data rm_node = [] then Some s' else None }) t1 = Some t' \<and>
           pfx_trie_inv v t' \<and> mset (trie_records t) = add_mset r (mset (trie_records t'))"
proof -
  have inv: "trie_inv v 0 t" using assms(1) by (simp add: pfx_trie_inv_def)
  from set_data_at [OF this assms(2), of "[]"] obtain t1 where
    t1: "update_at path (\<lambda>s. Some (set_node_data [] s)) t = Some t1" "trie_inv v 0 t1"
    "subtree_at path t1 = Node (it\<lparr>tn_data := []\<rparr>) s1 s2"
    "add_mset it (mset (trie_items t1)) = add_mset (it\<lparr>tn_data := []\<rparr>) (mset (trie_items t))" by blast
  have "item_key (it\<lparr>tn_data := []\<rparr>) = (pr_prefix r, pr_min_len r)" using assms(3) by (simp add: rec_key_def)
  from drop_node_at [OF t1(2,3) _ this] obtain t' where
    t': "update_at path (\<lambda>s. do { (rm, s') \<leftarrow> trie_remove s (pr_prefix r) (pr_min_len r) (length path); rm_node \<leftarrow> rm;
                                   if tn_data rm_node = [] then Some s' else None }) t1 = Some t'"
    "trie_inv v 0 t'" "add_mset (it\<lparr>tn_data := []\<rparr>) (mset (trie_items t')) = mset (trie_items t1)" by auto
  have eq: "mset (trie_items t) = add_mset it (mset (trie_items t'))"
    using t1(4) t'(3) [symmetric] by (simp add: add_mset_commute [of it])
  have "item_records it = [r]" using assms(4) elem_record_rec_elem [OF assms(3)] by (simp add: item_records_def)
  then have "mset (trie_records t) = add_mset r (mset (trie_records t'))" using eq by (simp add: mset_trie_records)
  moreover have "set (trie_items t') \<subseteq> set (trie_items t)" using arg_cong [OF eq, of set_mset] by auto
  then have "pfx_trie_inv v t'" using t'(2) assms(1) by (auto simp: pfx_trie_inv_def)
  ultimately show ?thesis using t1(1) t'(1) by blast
qed

section \<open>Allocation outcomes\<close>

lemma pfx_table_append_elem_cases:
  assumes "pfx_table_append_elem data r mem = (rv, data', mem')"
  shows "rv = RTR_PFX_SUCCESS \<and> data' = data @ [rec_elem r] \<or> rv = RTR_PFX_ERROR \<and> data' = data \<and> False \<in> set mem"
    "set mem' \<subseteq> set mem"
  using assms
  by (auto simp: pfx_table_append_elem_def split: prod.splits if_splits dest!: rtr_realloc_set)

lemma pfx_table_create_node_cases:
  assumes "pfx_table_create_node r mem = (err, no, mem')"
  shows "no = Some \<lparr>tn_prefix = pr_prefix r, tn_len = pr_min_len r, tn_data = [rec_elem r]\<rparr> \<or>
         no = None \<and> False \<in> set mem" "set mem' \<subseteq> set mem"
  using assms
  by (auto simp: pfx_table_create_node_def pfx_table_append_elem_def Let_def split: prod.splits if_splits
      dest!: rtr_malloc_set rtr_realloc_set)

lemma pfx_table_del_elem_cases:
  assumes "pfx_table_del_elem data i mem = (rv, data', mem')" "i < length data"
  shows "rv = RTR_PFX_SUCCESS \<and> data' = remove_nth i data \<or>
         rv = RTR_PFX_ERROR \<and> mset data' = mset data \<and> data' \<noteq> [] \<and> False \<in> set mem"
    "set mem' \<subseteq> set mem"
  using assms mset_remove_nth [OF assms(2)]
  by (auto simp: pfx_table_del_elem_def Let_def split: prod.splits if_splits dest!: rtr_realloc_set)

section \<open>Adding a record\<close>

lemma set_root_same [simp]: "set_root tbl v (pfx_table_get_root tbl v) = tbl"
  by (cases v) (auto simp: set_root_def pfx_table_get_root_def)

definition add_outcome ::
  "rtr_pfx_table \<Rightarrow> rtr_pfx_record \<Rightarrow> mem \<Rightarrow> rtr_pfx_rtvals \<Rightarrow> rtr_pfx_table \<Rightarrow> bool" where
  "add_outcome tbl r mem rv tbl' =
     (if r \<in> set (pfx_records tbl) then rv = RTR_PFX_DUPLICATE_RECORD \<and> tbl' = tbl
      else rv = RTR_PFX_ERROR \<and> tbl' = tbl \<and> False \<in> set mem \<or>
           rv = RTR_PFX_SUCCESS \<and> pfx_inv tbl' \<and> update_fp tbl' = update_fp tbl \<and>
           mset (pfx_records tbl') = add_mset r (mset (pfx_records tbl)) \<and>
           pfx_log tbl' = pfx_log tbl @ (if update_fp tbl then [(r, RTR_PFX_ADD)] else []))"

lemma add_outcome_success:
  assumes "pfx_inv tbl" "r \<notin> set (pfx_records tbl)" "pfx_trie_inv (ip_ver (pr_prefix r)) t'"
    "mset (trie_records t') = add_mset r (mset (trie_records (pfx_table_get_root tbl (ip_ver (pr_prefix r)))))"
  shows "add_outcome tbl r mem RTR_PFX_SUCCESS
           (pfx_table_notify_clients (set_root tbl (ip_ver (pr_prefix r)) t') r RTR_PFX_ADD)"
  using assms pfx_inv_set_root [OF assms(1,3)] mset_pfx_records_set_root [of tbl "ip_ver (pr_prefix r)" t']
  by (simp add: add_outcome_def pfx_log_notify)

lemma rtr_pfx_table_add_outcome:
  assumes inv: "pfx_inv tbl" and ok: "rec_ok r"
  shows "\<exists>rv tbl' mem'. rtr_pfx_table_add (Some tbl) (Some r) mem = Some (rv, Some tbl', mem') \<and>
           add_outcome tbl r mem rv tbl' \<and> set mem' \<subseteq> set mem"
proof -
  define v root where "v = ip_ver (pr_prefix r)" and "root = pfx_table_get_root tbl v"
  have rt: "pfx_trie_inv v root" using pfx_inv_root [OF inv] by (simp add: root_def)
  have mem_iff: "r \<in> set (pfx_records tbl) \<longleftrightarrow> r \<in> set (trie_records root)"
    using pfx_records_root_iff [OF inv] by (simp add: root_def v_def)
  obtain err no mem' where cn: "pfx_table_create_node r mem = (err, no, mem')" by (cases "pfx_table_create_node r mem")
  note cn' = pfx_table_create_node_cases [OF cn]
  show ?thesis
  proof (cases "root = Null")
    case True
    have "pfx_trie_inv v (Node \<lparr>tn_prefix = pr_prefix r, tn_len = pr_min_len r, tn_data = [rec_elem r]\<rparr> Null Null)"
      using ok by (simp add: pfx_trie_inv_def item_ok_def rec_ok_def v_def)
    moreover have "trie_records (Node \<lparr>tn_prefix = pr_prefix r, tn_len = pr_min_len r, tn_data = [rec_elem r]\<rparr> Null Null) = [r]"
      by (simp add: trie_records_def item_records_def elem_record_def rec_elem_def)
    moreover have "r \<notin> set (pfx_records tbl)" using True mem_iff by (simp add: trie_records_def)
    ultimately show ?thesis using True cn cn' add_outcome_success [OF inv] root_def v_def
      by (auto simp: add_outcome_def trie_records_def)
  next
    case False
    obtain path f where look: "trie_lookup_exact root (pr_prefix r) (pr_min_len r) 0 [] = Some (Some path, length path, f)"
      and ex: "exact_result root (pr_prefix r) (pr_min_len r) 0 path f"
      using root_lookup_exact [OF rt False, of "pr_prefix r" "pr_min_len r"] ok by (auto simp: v_def rec_ok_def)
    have ti: "trie_inv v 0 root" using rt by (simp add: pfx_trie_inv_def)
    note here = exact_result_records [OF ti ex, of r]
    show ?thesis
    proof (cases f)
      case True
      with ex obtain it s1 s2 where it: "subtree_at path root = Node it s1 s2"
        "item_key it = (pr_prefix r, pr_min_len r)" "it \<in> set (trie_items root)"
        by (auto elim: exact_result_found)
      obtain rv data mem1 where ap: "pfx_table_append_elem (tn_data it) r mem = (rv, data, mem1)"
        by (cases "pfx_table_append_elem (tn_data it) r mem")
      note ap' = pfx_table_append_elem_cases [OF ap]
      have k: "item_key it = rec_key r" using it(2) by (simp add: rec_key_def)
      have m: "r \<in> set (pfx_records tbl) \<longleftrightarrow> rec_elem r \<in> set (tn_data it)"
        using mem_iff here True it by (simp add: rec_key_def)
      show ?thesis
      proof (cases "rec_elem r \<in> set (tn_data it)")
        case True
        then show ?thesis using look it \<open>f\<close> False m by (auto simp: root_def v_def add_outcome_def)
      next
        case new: False
        from pfx_trie_add_elem [OF rt it(1) k new] obtain t' where
          t': "update_at path (\<lambda>s. Some (set_node_data (tn_data it @ [rec_elem r]) s)) root = Some t'"
          "pfx_trie_inv v t'" "mset (trie_records t') = add_mset r (mset (trie_records root))" by blast
        note succ = add_outcome_success [OF inv _ t'(2) [unfolded v_def] t'(3) [unfolded root_def v_def]]
        show ?thesis using look it \<open>f\<close> False m new ap ap' t'(1) succ set_data_same [OF it(1)]
          by (auto simp: root_def v_def add_outcome_def)
      qed
    next
      case nf: False
      define new where "new = \<lparr>tn_prefix = pr_prefix r, tn_len = pr_min_len r, tn_data = [rec_elem r]\<rparr>"
      from nf ex have ex': "exact_result root (pr_prefix r) (pr_min_len r) 0 path False" by simp
      from pfx_trie_add_node [OF rt False ex' v_def [symmetric] ok new_def] obtain t' where
        t': "update_at path (\<lambda>s. trie_insert s new (length path)) root = Some t'"
        "pfx_trie_inv v t'" "mset (trie_records t') = add_mset r (mset (trie_records root))" by blast
      have nm: "r \<notin> set (pfx_records tbl)" using mem_iff here nf by (simp add: rec_key_def)
      note succ = add_outcome_success [OF inv nm t'(2) [unfolded v_def] t'(3) [unfolded root_def v_def]]
      show ?thesis using look nf False nm cn cn' t'(1) succ
        by (auto simp: root_def v_def add_outcome_def new_def)
    qed
  qed
qed

section \<open>Removing a record\<close>

lemma pfx_trie_permute_elems:
  assumes "pfx_trie_inv v t" "subtree_at path t = Node it s1 s2" "mset d = mset (tn_data it)"
  shows "\<exists>t'. update_at path (\<lambda>s. Some (set_node_data d s)) t = Some t' \<and>
           pfx_trie_inv v t' \<and> mset (trie_records t') = mset (trie_records t)"
proof -
  have inv: "trie_inv v 0 t" using assms(1) by (simp add: pfx_trie_inv_def)
  from set_data_at [OF this assms(2), of d] obtain t' where
    t': "update_at path (\<lambda>s. Some (set_node_data d s)) t = Some t'" "trie_inv v 0 t'"
    "add_mset it (mset (trie_items t')) = add_mset (it\<lparr>tn_data := d\<rparr>) (mset (trie_items t))" by blast
  have "mset (item_records (it\<lparr>tn_data := d\<rparr>)) = mset (item_records it)"
    using assms(3) by (simp add: item_records_def)
  then have "mset (trie_records t') = mset (trie_records t)"
    using records_replace_item [OF t'(3)] by simp
  moreover have "it \<in> set (trie_items t)" using subtree_at_items [of path t] assms(2) by auto
  then have "d \<noteq> [] \<and> distinct d"
    using assms(1,3) mset_eq_imp_distinct_iff [OF assms(3)] by (auto simp: pfx_trie_inv_def)
  then have "pfx_trie_inv v t'"
    using items_replace_item [OF t'(3)] t'(2) assms(1) by (auto simp: pfx_trie_inv_def)
  ultimately show ?thesis using t'(1) by blast
qed

definition remove_outcome ::
  "rtr_pfx_table \<Rightarrow> rtr_pfx_record \<Rightarrow> mem \<Rightarrow> rtr_pfx_rtvals \<Rightarrow> rtr_pfx_table \<Rightarrow> bool" where
  "remove_outcome tbl r mem rv tbl' =
     (if r \<notin> set (pfx_records tbl) then rv = RTR_PFX_RECORD_NOT_FOUND \<and> tbl' = tbl
      else pfx_inv tbl' \<and> update_fp tbl' = update_fp tbl \<and>
           (rv = RTR_PFX_ERROR \<and> False \<in> set mem \<and> pfx_log tbl' = pfx_log tbl \<and>
              mset (pfx_records tbl') = mset (pfx_records tbl) \<or>
            rv = RTR_PFX_SUCCESS \<and> mset (pfx_records tbl) = add_mset r (mset (pfx_records tbl')) \<and>
              pfx_log tbl' = pfx_log tbl @ (if update_fp tbl then [(r, RTR_PFX_REMOVE)] else [])))"

lemma remove_outcome_success:
  assumes "pfx_inv tbl" "r \<in> set (pfx_records tbl)" "pfx_trie_inv (ip_ver (pr_prefix r)) t'"
    "mset (trie_records (pfx_table_get_root tbl (ip_ver (pr_prefix r)))) = add_mset r (mset (trie_records t'))"
  shows "remove_outcome tbl r mem RTR_PFX_SUCCESS
           (pfx_table_notify_clients (set_root tbl (ip_ver (pr_prefix r)) t') r RTR_PFX_REMOVE)"
  using assms pfx_inv_set_root [OF assms(1,3)] mset_pfx_records_set_root [of tbl "ip_ver (pr_prefix r)" t']
  by (simp add: remove_outcome_def pfx_log_notify)

lemma remove_outcome_error:
  assumes "pfx_inv tbl" "r \<in> set (pfx_records tbl)" "pfx_trie_inv v t'" "False \<in> set mem"
    "mset (trie_records t') = mset (trie_records (pfx_table_get_root tbl v))"
  shows "remove_outcome tbl r mem RTR_PFX_ERROR (set_root tbl v t')"
  using assms pfx_inv_set_root [OF assms(1,3)] mset_pfx_records_set_root [of tbl v t']
  by (simp add: remove_outcome_def)

text \<open>Deleting an element through the pointer that the search returned.\<close>

lemma rtr_pfx_table_remove_elem:
  assumes inv: "pfx_inv tbl" and root: "root = pfx_table_get_root tbl (ip_ver (pr_prefix r))"
    and it: "subtree_at path root = Node it s1 s2" "item_key it = rec_key r" "rec_elem r \<in> set (tn_data it)"
    and look: "trie_lookup_exact root (pr_prefix r) (pr_min_len r) 0 [] = Some (Some path, length path, True)"
    and rin: "r \<in> set (pfx_records tbl)"
  shows "\<exists>rv tbl' mem'. rtr_pfx_table_remove (Some tbl) r mem = Some (rv, Some tbl', mem') \<and>
           remove_outcome tbl r mem rv tbl' \<and> set mem' \<subseteq> set mem"
proof -
  define v where "v = ip_ver (pr_prefix r)"
  have rt: "pfx_trie_inv v root" using pfx_inv_root [OF inv] by (simp add: root v_def)
  obtain i where i: "pfx_table_find_elem (tn_data it) r = Some i"
    using it(3) by (cases "pfx_table_find_elem (tn_data it) r") auto
  then have ni: "i < length (tn_data it)" "tn_data it ! i = rec_elem r"
    by (auto dest: pfx_table_find_elem_Some)
  obtain rv d mem' where de: "pfx_table_del_elem (tn_data it) i mem = (rv, d, mem')"
    by (cases "pfx_table_del_elem (tn_data it) i mem")
  note de' = pfx_table_del_elem_cases [OF de ni(1)]
  have ms: "mset (tn_data it) = add_mset (rec_elem r) (mset (remove_nth i (tn_data it)))"
    using mset_remove_nth [OF ni(1)] ni(2) by simp
  from de'(1) consider (err) "rv = RTR_PFX_ERROR" "mset d = mset (tn_data it)" "False \<in> set mem"
    | (more) "rv = RTR_PFX_SUCCESS" "d = remove_nth i (tn_data it)" "d \<noteq> []"
    | (last) "rv = RTR_PFX_SUCCESS" "d = remove_nth i (tn_data it)" "d = []" by blast
  then show ?thesis
  proof cases
    case err
    from pfx_trie_permute_elems [OF rt it(1) err(2)] obtain t' where t':
      "update_at path (\<lambda>s. Some (set_node_data d s)) root = Some t'" "pfx_trie_inv v t'"
      "mset (trie_records t') = mset (trie_records root)" by blast
    show ?thesis using look it(1) i de de'(2) err t'(1)
        remove_outcome_error [OF inv rin t'(2) err(3)] t'(3)
      by (simp add: root v_def)
  next
    case more
    have ms': "mset (tn_data it) = add_mset (rec_elem r) (mset d)" using ms more(2) by simp
    from pfx_trie_del_elem [OF rt it(1,2) ms' more(3)] obtain t' where t':
      "update_at path (\<lambda>s. Some (set_node_data d s)) root = Some t'" "pfx_trie_inv v t'"
      "mset (trie_records root) = add_mset r (mset (trie_records t'))" by blast
    show ?thesis using look it(1) i de de'(2) more(1,3) t'(1)
        remove_outcome_success [OF inv rin t'(2) [unfolded v_def]] t'(3)
      by (simp add: root v_def)
  next
    case last
    have "tn_data it = [rec_elem r]" using ms last by simp
    from pfx_trie_drop_node [OF rt it(1,2) this] obtain t1 t' where t':
      "update_at path (\<lambda>s. Some (set_node_data [] s)) root = Some t1"
      "update_at path (\<lambda>s. do { (rm, s') \<leftarrow> trie_remove s (pr_prefix r) (pr_min_len r) (length path); rm_node \<leftarrow> rm;
                              if tn_data rm_node = [] then Some s' else None }) t1 = Some t'"
      "pfx_trie_inv v t'" "mset (trie_records root) = add_mset r (mset (trie_records t'))" by blast
    show ?thesis using look it(1) i de de'(2) last(1,3) t'(1,2)
        remove_outcome_success [OF inv rin t'(3) [unfolded v_def]] t'(4)
      by (simp add: root v_def)
  qed
qed

lemma rtr_pfx_table_remove_outcome:
  assumes inv: "pfx_inv tbl" and ok: "rec_ok r"
  shows "\<exists>rv tbl' mem'. rtr_pfx_table_remove (Some tbl) r mem = Some (rv, Some tbl', mem') \<and>
           remove_outcome tbl r mem rv tbl' \<and> set mem' \<subseteq> set mem"
proof -
  define v root where "v = ip_ver (pr_prefix r)" and "root = pfx_table_get_root tbl v"
  have rt: "pfx_trie_inv v root" using pfx_inv_root [OF inv] by (simp add: root_def)
  have mem_iff: "r \<in> set (pfx_records tbl) \<longleftrightarrow> r \<in> set (trie_records root)"
    using pfx_records_root_iff [OF inv] by (simp add: root_def v_def)
  show ?thesis
  proof (cases "root = Null")
    case True
    then show ?thesis using mem_iff by (simp add: root_def v_def remove_outcome_def trie_records_def)
  next
    case False
    obtain path f where look: "trie_lookup_exact root (pr_prefix r) (pr_min_len r) 0 [] = Some (Some path, length path, f)"
      and ex: "exact_result root (pr_prefix r) (pr_min_len r) 0 path f"
      using root_lookup_exact [OF rt False, of "pr_prefix r" "pr_min_len r"] ok by (auto simp: v_def rec_ok_def)
    have "trie_inv v 0 root" using rt by (simp add: pfx_trie_inv_def)
    note here = exact_result_records [OF this ex, of r]
    show ?thesis
    proof (cases f)
      case True
      with ex obtain it s1 s2 where it: "subtree_at path root = Node it s1 s2"
        "item_key it = (pr_prefix r, pr_min_len r)" by (auto elim: exact_result_found)
      have m: "r \<in> set (pfx_records tbl) \<longleftrightarrow> rec_elem r \<in> set (tn_data it)"
        using mem_iff here True it by (simp add: rec_key_def)
      show ?thesis
      proof (cases "rec_elem r \<in> set (tn_data it)")
        case True
        then show ?thesis
          using rtr_pfx_table_remove_elem [OF inv, of root r path it s1 s2] it look \<open>f\<close> m
          by (simp add: root_def v_def rec_key_def)
      next
        case False
        then have "pfx_table_find_elem (tn_data it) r = None" by simp
        then show ?thesis using look it \<open>f\<close> m False
          by (simp add: root_def v_def remove_outcome_def del: pfx_table_find_elem_None)
      qed
    next
      case False
      then show ?thesis using look mem_iff here by (simp add: root_def v_def remove_outcome_def rec_key_def)
    qed
  qed
qed

section \<open>Origin validation\<close>

text \<open>RFC 6811, section 2, over a collection of records.\<close>

definition rov_covers :: "rtr_pfx_record \<Rightarrow> rtr_ip_addr \<Rightarrow> nat \<Rightarrow> bool" where
  "rov_covers r p m = (pr_min_len r \<le> m \<and> same_bits (pr_min_len r) (pr_prefix r) p)"

definition rov_matches :: "rtr_pfx_record \<Rightarrow> u32 \<Rightarrow> rtr_ip_addr \<Rightarrow> nat \<Rightarrow> bool" where
  "rov_matches r asn p m = (rov_covers r p m \<and> m \<le> pr_max_len r \<and> pr_asn r = asn \<and> asn \<noteq> 0)"

definition rov_state :: "rtr_pfx_record set \<Rightarrow> u32 \<Rightarrow> rtr_ip_addr \<Rightarrow> nat \<Rightarrow> rtr_pfxv_state" where
  "rov_state R asn p m =
     (if \<exists>r\<in>R. rov_matches r asn p m then RTR_BGP_PFXV_STATE_VALID
      else if \<exists>r\<in>R. rov_covers r p m then RTR_BGP_PFXV_STATE_INVALID
      else RTR_BGP_PFXV_STATE_NOT_FOUND)"

definition covering :: "rtr_ip_addr \<Rightarrow> nat \<Rightarrow> pfx_trie \<Rightarrow> rtr_pfx_record multiset" where
  "covering p m t = (\<Sum>x\<in>#filter_mset (covers p m) (mset (trie_items t)). mset (item_records x))"

lemma rov_covers_item: "r \<in> set (item_records x) \<Longrightarrow> rov_covers r p m \<longleftrightarrow> covers p m x"
  by (auto simp: in_item_records rov_covers_def covers_def rec_key_def item_key_def)

lemma covering_records: "covering p m t = filter_mset (\<lambda>r. rov_covers r p m) (mset (trie_records t))"
proof -
  have "filter_mset (\<lambda>r. rov_covers r p m) (mset (item_records x)) =
      (if covers p m x then mset (item_records x) else {#})" for x
    using rov_covers_item by (auto simp: filter_mset_eq_conv)
  then have "(\<Sum>x\<in>#filter_mset (covers p m) (mset xs). mset (item_records x)) =
      filter_mset (\<lambda>r. rov_covers r p m) (mset (concat (map item_records xs)))" for xs
    by (induction xs) auto
  then show ?thesis by (simp add: covering_def trie_records_def)
qed

lemma elem_matches_records:
  assumes "covers p m x"
  shows "pfx_table_elem_matches (tn_data x) asn m \<longleftrightarrow> (\<exists>r\<in>set (item_records x). rov_matches r asn p m)"
  using assms
  by (auto simp: pfx_table_elem_matches_iff item_records_def elem_record_def rov_matches_def rov_covers_def covers_def)

lemma validate_extend_cases:
  assumes "validate_extend want it reason mem = (res, mem')"
  shows "res = Some (reason @ (if want then item_records it else [])) \<or> res = None \<and> want \<and> False \<in> set mem"
    "set mem' \<subseteq> set mem"
  using assms
  by (auto simp: validate_extend_def pfx_table_node2pfx_record_def split: if_splits prod.splits dest!: rtr_realloc_set)

text \<open>What a run of the validation loop that starts at a covering node computes. Its reasons are,
  for an invalid route, all covering records of the subtree; for a valid one a part of them
  that contains a matching record.\<close>

definition loop_outcome where
  "loop_outcome want asn p m reason (rest :: rtr_pfx_record multiset) mem rv st rs =
     (if rv = RTR_PFX_ERROR then st = None \<and> rs = [] \<and> want \<and> False \<in> set mem
      else rv = RTR_PFX_SUCCESS \<and>
        (if \<exists>r\<in>#rest. rov_matches r asn p m
         then st = Some RTR_BGP_PFXV_STATE_VALID \<and>
           (want \<longrightarrow> mset rs \<subseteq># mset reason + rest \<and> (\<exists>r\<in>set rs. rov_matches r asn p m))
         else st = Some RTR_BGP_PFXV_STATE_INVALID \<and> (want \<longrightarrow> mset rs = mset reason + rest)))"

lemma covering_step:
  assumes "searchable p lvl (Node it l r)" "covers p m it"
  shows "covering p m (Node it l r) = mset (item_records it) + covering p m (if addr_bit p lvl then r else l)"
proof -
  have "filter (covers p m) (trie_items (if addr_bit p lvl then l else r)) = []"
    using searchable_other [OF assms(1)] by (simp add: filter_empty_conv)
  then have "covering p m (if addr_bit p lvl then l else r) = {#}"
    by (simp add: covering_def flip: mset_filter)
  then show ?thesis using assms(2) by (auto simp: covering_def split: if_splits)
qed

lemma lookup_result_covering: "lookup_result t p m s n \<Longrightarrow> covering p m s = covering p m t"
  by (simp add: lookup_result_def covering_def flip: mset_filter)

declare validate_loop.simps [simp del]

lemma validate_loop_outcome:
  assumes "searchable p lvl (Node it l r)" "covers p m it" "m \<le> addr_width p"
    "covering p m (Node it l r) = mset (item_records it) + rest"
    "want \<longrightarrow> set (item_records it) \<subseteq> set reason"
  shows "\<exists>rv st rs mem'. validate_loop want asn p m (Node it l r) lvl reason mem = Some (rv, st, rs, mem') \<and>
           (if pfx_table_elem_matches (tn_data it) asn m
            then rv = RTR_PFX_SUCCESS \<and> st = Some RTR_BGP_PFXV_STATE_VALID \<and> rs = reason
            else loop_outcome want asn p m reason rest mem rv st rs)"
  using assms
proof (induction "node_count (Node it l r)" arbitrary: it l r lvl reason rest mem rule: less_induct)
  case less
  show ?case
  proof (cases "pfx_table_elem_matches (tn_data it) asn m")
    case False
    define c where "c = (if addr_bit p lvl then r else l)"
    have lvl: "lvl mod 256 = lvl" "lvl < addr_width p"
      using less.prems(1) by (cases p; auto simp: searchable_def)+
    obtain bits where bits: "rtr_ip_addr_get_bits p lvl 1 = Some bits" "rtr_ip_addr_is_zero bits = (\<not> addr_bit p lvl)"
      using rtr_ip_addr_get_bits_single [OF lvl(2)] by auto
    have "searchable p (Suc lvl) c" by (rule searchable_child [OF less.prems(1)]) (simp add: c_def)
    from trie_lookup_correct [OF this less.prems(3)] obtain s lvl' where
      s: "trie_lookup c p m (Suc lvl) = Some (s, lvl')" "lookup_result c p m s lvl'" by blast
    have rest: "rest = covering p m s"
      using less.prems(4) covering_step [OF less.prems(1,2)] lookup_result_covering [OF s(2)]
      by (simp add: c_def)
    have run: "validate_loop want asn p m (Node it l r) lvl reason mem =
      (case node_item s of
          None \<Rightarrow> Some (RTR_PFX_SUCCESS, Some RTR_BGP_PFXV_STATE_INVALID, reason, mem)
        | Some nit \<Rightarrow>
            (case validate_extend want nit reason mem of
              (None, mem) \<Rightarrow> Some (RTR_PFX_ERROR, None, [], mem)
            | (Some reason, mem) \<Rightarrow> validate_loop want asn p m s lvl' reason mem))"
      using False lvl(1) bits s(1) by (simp add: validate_loop.simps(2) c_def split: if_splits)
    show ?thesis
    proof (cases s)
      case Null
      then show ?thesis using run rest False by (simp add: loop_outcome_def covering_def)
    next
      case (Node sit sl sr)
      obtain res mem' where ve: "validate_extend want sit reason mem = (res, mem')" by force
      note ve' = validate_extend_cases [OF ve]
      show ?thesis
      proof (cases res)
        case None
        then show ?thesis using run ve ve' Node False by (simp add: loop_outcome_def)
      next
        case (Some reason')
        have reason': "reason' = reason @ (if want then item_records sit else [])" using Some ve' by auto
        have sr: "searchable p lvl' (Node sit sl sr)" "covers p m sit"
          using s(2) Node by (auto simp: lookup_result_def)
        have cnt: "node_count (Node sit sl sr) < node_count (Node it l r)"
          using s(2) Node by (auto simp: lookup_result_def c_def split: if_splits)
        define rest' where "rest' = covering p m (if addr_bit p lvl' then sr else sl)"
        have rest': "covering p m (Node sit sl sr) = mset (item_records sit) + rest'"
          using covering_step [OF sr] by (simp add: rest'_def)
        from less.hyps [OF cnt sr less.prems(3) rest', of reason' mem'] reason' obtain rv st rs mem'' where
          IH: "validate_loop want asn p m (Node sit sl sr) lvl' reason' mem' = Some (rv, st, rs, mem'')"
            "if pfx_table_elem_matches (tn_data sit) asn m
             then rv = RTR_PFX_SUCCESS \<and> st = Some RTR_BGP_PFXV_STATE_VALID \<and> rs = reason'
             else loop_outcome want asn p m reason' rest' mem' rv st rs" by auto
        have em: "pfx_table_elem_matches (tn_data sit) asn m \<longleftrightarrow> (\<exists>r\<in>set (item_records sit). rov_matches r asn p m)"
          by (rule elem_matches_records [OF sr(2)])
        have "loop_outcome want asn p m reason rest mem rv st rs"
          using IH(2) em reason' ve'(2) unfolding rest Node rest' loop_outcome_def
          by (cases "pfx_table_elem_matches (tn_data sit) asn m") (auto simp: add.assoc split: if_splits)
        then show ?thesis using run ve Some IH(1) Node False by simp
      qed
    qed
  qed (simp add: validate_loop.simps(2))
qed

text \<open>A table in which every search ends at a valid bit: no zero-length prefix is stored and no trie is deeper than
  its addresses are wide. Neither is ensured by the operations on the table; what happens otherwise is shown with
  the properties of the table.\<close>

definition pfx_searchable :: "rtr_pfx_table \<Rightarrow> bool" where
  "pfx_searchable tbl = (trie_height (ipv4 tbl) \<le> 32 \<and> trie_height (ipv6 tbl) \<le> 128 \<and>
     (\<forall>r\<in>set (pfx_records tbl). 0 < pr_min_len r))"

lemma addr_width_cases: "addr_width p = (case ip_ver p of RTR_IPV4 \<Rightarrow> 32 | RTR_IPV6 \<Rightarrow> 128)"
  by (cases p) auto

lemma pfx_searchable_root:
  assumes "pfx_inv tbl" "pfx_searchable tbl"
  shows "searchable p 0 (pfx_table_get_root tbl (ip_ver p))"
proof -
  let ?t = "pfx_table_get_root tbl (ip_ver p)"
  have inv: "pfx_trie_inv (ip_ver p) ?t" using pfx_inv_root [OF assms(1)] .
  have "0 < tn_len x" if x: "x \<in> set (trie_items ?t)" for x
  proof -
    from inv x have "tn_data x \<noteq> []" by (auto simp: pfx_trie_inv_def)
    then obtain e where "e \<in> set (tn_data x)" by fastforce
    then have "elem_record x e \<in> set (trie_records ?t)"
      using x by (auto simp: trie_records_def item_records_def)
    then have "elem_record x e \<in> set (pfx_records tbl)"
      by (cases "ip_ver p") (auto simp: pfx_records_def pfx_table_get_root_def)
    then show ?thesis using assms(2) by (auto simp: pfx_searchable_def elem_record_def)
  qed
  moreover have "trie_height ?t \<le> addr_width p"
    using assms(2) by (cases "ip_ver p") (auto simp: pfx_searchable_def addr_width_cases pfx_table_get_root_def)
  ultimately show ?thesis using inv by (auto simp: searchable_def pfx_trie_inv_def)
qed

lemma covering_root:
  assumes "pfx_inv tbl"
  shows "covering p m (pfx_table_get_root tbl (ip_ver p)) = filter_mset (\<lambda>r. rov_covers r p m) (mset (pfx_records tbl))"
proof -
  have "filter_mset (\<lambda>r. rov_covers r p m) (mset (trie_records t)) = {#}"
    if "pfx_trie_inv v t" "v \<noteq> ip_ver p" for v t
    using trie_records_ver [OF that(1)] that(2) by (auto simp: filter_mset_eq_conv rov_covers_def same_bits_def)
  then show ?thesis using assms unfolding covering_records pfx_inv_def
    by (cases "ip_ver p") (auto simp: pfx_records_def pfx_table_get_root_def)
qed

definition reasons_ok :: "rtr_pfx_record set \<Rightarrow> u32 \<Rightarrow> rtr_ip_addr \<Rightarrow> nat \<Rightarrow> rtr_pfx_record list \<Rightarrow> bool" where
  "reasons_ok R asn p m rs =
     (distinct rs \<and> set rs \<subseteq> {r \<in> R. rov_covers r p m} \<and>
      (case rov_state R asn p m of
        RTR_BGP_PFXV_STATE_VALID \<Rightarrow> (\<exists>r\<in>set rs. rov_matches r asn p m)
      | RTR_BGP_PFXV_STATE_NOT_FOUND \<Rightarrow> rs = []
      | RTR_BGP_PFXV_STATE_INVALID \<Rightarrow> set rs = {r \<in> R. rov_covers r p m}))"

lemma loop_outcome_reasons:
  assumes "loop_outcome want asn p m [] C mem RTR_PFX_SUCCESS st rs" "want"
    "C = filter_mset (\<lambda>r. rov_covers r p m) (mset R)" "distinct R" "C \<noteq> {#}"
  shows "reasons_ok (set R) asn p m rs"
proof -
  have sub: "mset rs \<subseteq># mset R" using assms(1-3)
    by (auto simp: loop_outcome_def split: if_splits intro: subset_mset.order_trans)
  have "distinct rs" by (rule distinct_submset [OF sub assms(4)])
  moreover have ms: "mset rs \<subseteq># C" using assms(1,2) by (auto simp: loop_outcome_def split: if_splits)
  then have "set rs \<subseteq> {r \<in> set R. rov_covers r p m}" using assms(3) by (auto dest: mset_subset_eqD)
  moreover have "\<exists>r\<in>set R. rov_covers r p m" using assms(3,5) by (auto simp: filter_mset_eq_conv)
  moreover have "set rs = {r \<in> set R. rov_covers r p m}" if none: "\<not> (\<exists>r\<in>#C. rov_matches r asn p m)"
  proof -
    have "mset rs = C" using assms(1,2) none by (auto simp: loop_outcome_def split: if_splits)
    from arg_cong [OF this, of set_mset] show ?thesis using assms(3) by auto
  qed
  moreover have "(\<exists>r\<in>#C. rov_matches r asn p m) \<longleftrightarrow> (\<exists>r\<in>set R. rov_matches r asn p m)"
    using assms(3) by (auto simp: rov_matches_def)
  ultimately show ?thesis using assms(1,2)
    by (auto simp: reasons_ok_def rov_state_def loop_outcome_def split: if_splits)
qed

lemma loop_outcome_state:
  assumes "loop_outcome want asn p m reason C mem RTR_PFX_SUCCESS st rs"
    "C = filter_mset (\<lambda>r. rov_covers r p m) (mset R)" "C \<noteq> {#}"
  shows "st = Some (rov_state (set R) asn p m)"
proof -
  have "\<exists>r\<in>set R. rov_covers r p m" using assms(2,3) by (auto simp: filter_mset_eq_conv)
  moreover have "(\<exists>r\<in>#C. rov_matches r asn p m) \<longleftrightarrow> (\<exists>r\<in>set R. rov_matches r asn p m)"
    using assms(2) by (auto simp: rov_matches_def)
  ultimately show ?thesis using assms(1) by (auto simp: loop_outcome_def rov_state_def split: if_splits)
qed

lemma no_covering_state:
  assumes "filter_mset (\<lambda>r. rov_covers r p m) (mset R) = {#}"
  shows "rov_state (set R) asn p m = RTR_BGP_PFXV_STATE_NOT_FOUND" "reasons_ok (set R) asn p m []"
  using assms by (auto simp: rov_state_def reasons_ok_def rov_matches_def filter_mset_eq_conv)

text \<open>The first node and the loop together, as one run over everything that covers the route.\<close>

lemma validate_from_node:
  assumes "searchable p lvl (Node it l r)" "covers p m it" "m \<le> addr_width p" "tn_data it \<noteq> []"
  shows "\<exists>rv st rs mem'.
    (case validate_extend want it [] mem of
       (None, mem) \<Rightarrow> Some (RTR_PFX_ERROR, None, [], mem)
     | (Some reason, mem) \<Rightarrow> validate_loop want asn p m (Node it l r) lvl reason mem) = Some (rv, st, rs, mem') \<and>
    loop_outcome want asn p m [] (covering p m (Node it l r)) mem rv st rs"
proof -
  obtain res mem1 where ve: "validate_extend want it [] mem = (res, mem1)" by force
  note ve' = validate_extend_cases [OF ve]
  define rest where "rest = covering p m (if addr_bit p lvl then r else l)"
  have rest: "covering p m (Node it l r) = mset (item_records it) + rest"
    using covering_step [OF assms(1,2)] by (simp add: rest_def)
  have em: "pfx_table_elem_matches (tn_data it) asn m \<longleftrightarrow> (\<exists>r\<in>set (item_records it). rov_matches r asn p m)"
    by (rule elem_matches_records [OF assms(2)])
  show ?thesis
  proof (cases res)
    case None
    then show ?thesis using ve ve' by (simp add: loop_outcome_def)
  next
    case (Some reason)
    then have reason: "reason = (if want then item_records it else [])" using ve' by auto
    then have "want \<longrightarrow> set (item_records it) \<subseteq> set reason" by simp
    from validate_loop_outcome [OF assms(1-3) rest this, of asn mem1] obtain rv st rs mem' where
      run: "validate_loop want asn p m (Node it l r) lvl reason mem1 = Some (rv, st, rs, mem')"
      and out: "if pfx_table_elem_matches (tn_data it) asn m
            then rv = RTR_PFX_SUCCESS \<and> st = Some RTR_BGP_PFXV_STATE_VALID \<and> rs = reason
            else loop_outcome want asn p m reason rest mem1 rv st rs" by blast
    have "loop_outcome want asn p m [] (covering p m (Node it l r)) mem rv st rs"
      using out em reason ve'(2) unfolding rest loop_outcome_def
      by (cases "pfx_table_elem_matches (tn_data it) asn m") (auto split: if_splits)
    then show ?thesis using ve Some run by simp
  qed
qed

declare rtr_pfx_table_validate_r.simps [simp del]

lemma rtr_pfx_table_validate_r_outcome:
  assumes "pfx_inv tbl" "pfx_searchable tbl" "m \<le> addr_width p"
  shows "\<exists>rv st rs mem'. rtr_pfx_table_validate_r (Some tbl) want asn p m mem = Some (rv, st, rs, mem') \<and>
    (if rv = RTR_PFX_ERROR then want \<and> False \<in> set mem \<and> st = None \<and> rs = []
     else rv = RTR_PFX_SUCCESS \<and> st = Some (rov_state (set (pfx_records tbl)) asn p m) \<and>
       (want \<longrightarrow> reasons_ok (set (pfx_records tbl)) asn p m rs))"
proof -
  define root where "root = pfx_table_get_root tbl (ip_ver p)"
  have C: "covering p m root = filter_mset (\<lambda>r. rov_covers r p m) (mset (pfx_records tbl))"
    using covering_root [OF assms(1)] by (simp add: root_def)
  have "searchable p 0 root" using pfx_searchable_root [OF assms(1,2)] by (simp add: root_def)
  from trie_lookup_correct [OF this assms(3)] obtain s lvl where
    s: "trie_lookup root p m 0 = Some (s, lvl)" "lookup_result root p m s lvl" by blast
  have cs: "covering p m s = covering p m root" by (rule lookup_result_covering [OF s(2)])
  show ?thesis
  proof (cases s)
    case Null
    then have "covering p m s = {#}" by (simp add: covering_def)
    with cs C have none: "filter_mset (\<lambda>r. rov_covers r p m) (mset (pfx_records tbl)) = {#}" by metis
    have "rtr_pfx_table_validate_r (Some tbl) want asn p m mem =
        Some (RTR_PFX_SUCCESS, Some RTR_BGP_PFXV_STATE_NOT_FOUND, [], mem)"
      using s(1) Null by (simp add: rtr_pfx_table_validate_r.simps root_def Let_def)
    then show ?thesis using no_covering_state [OF none] by (intro exI conjI) auto
  next
    case (Node it l r)
    have it: "searchable p lvl (Node it l r)" "covers p m it" "it \<in> set (trie_items root)"
      using s(2) Node by (auto simp: lookup_result_def)
    have "tn_data it \<noteq> []"
      using it(3) pfx_inv_root [OF assms(1), of "ip_ver p"] by (auto simp: pfx_trie_inv_def root_def)
    with validate_from_node [OF it(1,2) assms(3), of want asn mem] obtain rv st rs mem' where
      run: "(case validate_extend want it [] mem of
         (None, mem) \<Rightarrow> Some (RTR_PFX_ERROR, None, [], mem)
       | (Some reason, mem) \<Rightarrow> validate_loop want asn p m (Node it l r) lvl reason mem) = Some (rv, st, rs, mem')"
      and out: "loop_outcome want asn p m [] (covering p m (Node it l r)) mem rv st rs" by blast
    have "covering p m root = mset (item_records it) + covering p m (if addr_bit p lvl then r else l)"
      using cs Node covering_step [OF it(1,2)] by simp
    then have ne: "covering p m root \<noteq> {#}" using \<open>tn_data it \<noteq> []\<close> by (simp add: item_records_def)
    have "root \<noteq> Null" using it(3) by auto
    then have "rtr_pfx_table_validate_r (Some tbl) want asn p m mem = Some (rv, st, rs, mem')"
      using s(1) Node run by (simp add: rtr_pfx_table_validate_r.simps root_def Let_def)
    moreover have rv: "rv = RTR_PFX_ERROR \<and> want \<and> False \<in> set mem \<and> st = None \<and> rs = [] \<or> rv = RTR_PFX_SUCCESS"
      using out by (auto simp: loop_outcome_def split: if_splits)
    moreover have out': "loop_outcome want asn p m [] (covering p m root) mem rv st rs"
      using out cs Node by simp
    ultimately show ?thesis
      using loop_outcome_state [OF _ C ne] loop_outcome_reasons [OF _ _ C pfx_records_distinct [OF assms(1)] ne]
      by (cases "rv = RTR_PFX_ERROR") auto
  qed
qed

end
