(* ===== verification/Pfx_Bulk.thy ===== *)
theory Pfx_Bulk
  imports Pfx_Proofs
begin

text \<open>
  Correctness of the operations on whole prefix tables: removing everything a socket contributed,
  iterating, copying all but one socket's records, reporting the difference of two tables and
  freeing a table. Each comes with the exact list of callbacks it makes.
\<close>

section \<open>Sequences of notifications\<close>

definition notify_all :: "rtr_pfx_operation_type \<Rightarrow> rtr_pfx_record list \<Rightarrow> rtr_pfx_table \<Rightarrow> rtr_pfx_table" where
  "notify_all op rs tbl = fold (\<lambda>rec t. pfx_table_notify_clients t rec op) rs tbl"

lemma notify_all_Nil [simp]: "notify_all op [] tbl = tbl"
  by (simp add: notify_all_def)

lemma notify_all_Cons: "notify_all op (r # rs) tbl = notify_all op rs (pfx_table_notify_clients tbl r op)"
  by (simp add: notify_all_def)

lemma notify_all_append: "notify_all op (rs @ qs) tbl = notify_all op qs (notify_all op rs tbl)"
  by (simp add: notify_all_def)

lemma notify_all_fields [simp]:
  "ipv4 (notify_all op rs tbl) = ipv4 tbl" "ipv6 (notify_all op rs tbl) = ipv6 tbl"
  "update_fp (notify_all op rs tbl) = update_fp tbl"
  by (induction rs arbitrary: tbl) (simp_all add: notify_all_Cons)

lemma notify_all_log:
  "pfx_log (notify_all op rs tbl) = pfx_log tbl @ (if update_fp tbl then map (\<lambda>r. (r, op)) rs else [])"
  by (induction rs arbitrary: tbl) (simp_all add: notify_all_Cons pfx_log_notify)

section \<open>Removing the records of a socket\<close>

lemma remove_id_elems_outcome:
  assumes "remove_id_elems tbl it data socket i mem = (rv, tbl', data', mem')"
    "\<forall>j<i. j < length data \<longrightarrow> de_socket (data ! j) \<noteq> socket"
  shows "\<exists>gone. tbl' = notify_all RTR_PFX_REMOVE (map (elem_record it) gone) tbl \<and>
    mset data = mset gone + mset data' \<and> (\<forall>e\<in>set gone. de_socket e = socket) \<and> set mem' \<subseteq> set mem \<and>
    (rv = RTR_PFX_SUCCESS \<and> (\<forall>e\<in>set data'. de_socket e \<noteq> socket) \<or>
     rv = RTR_PFX_ERROR \<and> False \<in> set mem \<and> data' \<noteq> [])"
  using assms
proof (induction tbl it data socket i mem rule: remove_id_elems.induct)
  case (1 tbl it data socket i mem)
  note prem = "1.prems"(1) [unfolded remove_id_elems.simps [of tbl it data socket i mem]]
  consider (over) "\<not> i < length data" | (del) "i < length data" "de_socket (data ! i) = socket"
    | (skip) "i < length data" "de_socket (data ! i) \<noteq> socket" by blast
  then show ?case
  proof cases
    case over
    then have "de_socket e \<noteq> socket" if "e \<in> set data" for e
      using that "1.prems"(2) by (metis in_set_conv_nth less_le_trans not_less)
    then show ?thesis using over prem by (intro exI [of _ "[]"]) auto
  next
    case skip
    have "\<forall>j<i + 1. j < length data \<longrightarrow> de_socket (data ! j) \<noteq> socket"
      using "1.prems"(2) skip by (auto simp: less_Suc_eq)
    then show ?thesis using "1.IH"(2) skip prem by simp
  next
    case del
    obtain rv1 d1 mem1 where de: "pfx_table_del_elem data i mem = (rv1, d1, mem1)"
      by (cases "pfx_table_del_elem data i mem")
    note de' = pfx_table_del_elem_cases [OF de del(1)]
    have ms: "mset data = add_mset (data ! i) (mset (remove_nth i data))"
      using mset_remove_nth [OF del(1)] by simp
    show ?thesis
    proof (cases "rv1 = RTR_PFX_ERROR")
      case True
      then show ?thesis using prem del de de' by (intro exI [of _ "[]"]) auto
    next
      case False
      then have d1: "rv1 = RTR_PFX_SUCCESS" "d1 = remove_nth i data" using de' by auto
      have "\<forall>j<i. j < length d1 \<longrightarrow> de_socket (d1 ! j) \<noteq> socket"
        using "1.prems"(2) d1 del by (auto simp: remove_nth_def nth_append)
      moreover have "remove_id_elems (pfx_table_notify_clients tbl (elem_record it (data ! i)) RTR_PFX_REMOVE)
          it d1 socket i mem1 = (rv, tbl', data', mem')"
        using prem del de d1(1) by simp
      ultimately obtain gone where
        "tbl' = notify_all RTR_PFX_REMOVE (map (elem_record it) gone)
           (pfx_table_notify_clients tbl (elem_record it (data ! i)) RTR_PFX_REMOVE)"
        "mset d1 = mset gone + mset data'" "\<forall>e\<in>set gone. de_socket e = socket" "set mem' \<subseteq> set mem1"
        "rv = RTR_PFX_SUCCESS \<and> (\<forall>e\<in>set data'. de_socket e \<noteq> socket) \<or>
         rv = RTR_PFX_ERROR \<and> False \<in> set mem1 \<and> data' \<noteq> []"
        using "1.IH"(1) [of "elem_record it (data ! i)" "(rv1, d1, mem1)" rv1 "(d1, mem1)" d1 mem1] del de False
        by auto
      then show ?thesis using ms d1(2) del(2) de'(2)
        by (intro exI [of _ "data ! i # gone"]) (auto simp: notify_all_Cons)
    qed
  qed
qed

definition data_ok :: "pfx_trie \<Rightarrow> bool" where
  "data_ok t = (\<forall>x\<in>set (trie_items t). tn_data x \<noteq> [] \<and> distinct (tn_data x))"

definition purged where
  "purged socket v lvl mem tbl t rv tbl' t' mem' =
     (\<exists>gone. tbl' = notify_all RTR_PFX_REMOVE gone tbl \<and> trie_inv v lvl t' \<and> data_ok t' \<and>
       item_key ` set (trie_items t') \<subseteq> item_key ` set (trie_items t) \<and>
       mset (trie_records t) = mset gone + mset (trie_records t') \<and>
       (\<forall>r\<in>set gone. pr_socket r = socket) \<and> set mem' \<subseteq> set mem \<and>
       (rv = RTR_PFX_SUCCESS \<and> (\<forall>r\<in>set (trie_records t'). pr_socket r \<noteq> socket) \<or>
        rv = RTR_PFX_ERROR \<and> False \<in> set mem))"

lemma trie_records_Null [simp]: "trie_records Null = []"
  by (simp add: trie_records_def)

lemma trie_records_Node: "trie_records (Node it l r) = trie_records l @ item_records it @ trie_records r"
  by (simp add: trie_records_def)

lemma purged_Null: "purged socket v lvl mem tbl Null RTR_PFX_SUCCESS tbl Null mem"
  by (auto simp: purged_def data_ok_def intro!: exI [of _ "[]"])

lemma item_records_data: "item_records (it\<lparr>tn_data := d\<rparr>) = map (elem_record it) d"
  by (simp add: item_records_def)

lemma purged_node:
  assumes "remove_id_elems tbl it (tn_data it) socket 0 mem = (RTR_PFX_SUCCESS, tbl1, d, mem1)" "d \<noteq> []"
    and inv: "trie_inv v lvl (Node it l r)" "data_ok (Node it l r)"
    and l: "purged socket v (Suc lvl) mem1 tbl1 l rv2 tbl2 l' mem2"
    and r: "rv2 = RTR_PFX_SUCCESS \<Longrightarrow> purged socket v (Suc lvl) mem2 tbl2 r rv3 tbl3 r' mem3"
    and e: "rv2 \<noteq> RTR_PFX_SUCCESS \<Longrightarrow> rv3 = rv2 \<and> tbl3 = tbl2 \<and> r' = r \<and> mem3 = mem2"
  shows "purged socket v lvl mem tbl (Node it l r) rv3 tbl3 (Node (it\<lparr>tn_data := d\<rparr>) l' r') mem3"
proof -
  from remove_id_elems_outcome [OF assms(1)] obtain g1 where
    g1: "tbl1 = notify_all RTR_PFX_REMOVE (map (elem_record it) g1) tbl" "mset (tn_data it) = mset g1 + mset d"
      "\<forall>e\<in>set g1. de_socket e = socket" "set mem1 \<subseteq> set mem" "\<forall>e\<in>set d. de_socket e \<noteq> socket" by auto
  from l obtain g2 where g2: "tbl2 = notify_all RTR_PFX_REMOVE g2 tbl1" "trie_inv v (Suc lvl) l'" "data_ok l'"
    "item_key ` set (trie_items l') \<subseteq> item_key ` set (trie_items l)"
    "mset (trie_records l) = mset g2 + mset (trie_records l')" "\<forall>r\<in>set g2. pr_socket r = socket" "set mem2 \<subseteq> set mem1"
    "rv2 = RTR_PFX_SUCCESS \<and> (\<forall>r\<in>set (trie_records l'). pr_socket r \<noteq> socket) \<or> rv2 = RTR_PFX_ERROR \<and> False \<in> set mem1"
    unfolding purged_def by blast
  obtain g3 where g3: "tbl3 = notify_all RTR_PFX_REMOVE g3 tbl2" "trie_inv v (Suc lvl) r'" "data_ok r'"
    "item_key ` set (trie_items r') \<subseteq> item_key ` set (trie_items r)"
    "mset (trie_records r) = mset g3 + mset (trie_records r')" "\<forall>r\<in>set g3. pr_socket r = socket" "set mem3 \<subseteq> set mem2"
    "rv3 = RTR_PFX_SUCCESS \<and> rv2 = RTR_PFX_SUCCESS \<and> (\<forall>r\<in>set (trie_records r'). pr_socket r \<noteq> socket) \<or>
     rv3 = RTR_PFX_ERROR \<and> False \<in> set mem1"
  proof (cases "rv2 = RTR_PFX_SUCCESS")
    case True
    then show thesis using r [OF True] that g2(7) unfolding purged_def by blast
  next
    case False
    then show thesis using that [of "[]"] e [OF False] inv g2(8) by (auto simp: data_ok_def)
  qed
  have "distinct d" using inv(2) distinct_submset [of d "tn_data it"] g1(2) by (simp add: data_ok_def)
  then have ok: "data_ok (Node (it\<lparr>tn_data := d\<rparr>) l' r')" using g2(3) g3(3) assms(2) by (auto simp: data_ok_def)
  have bl: "\<forall>x\<in>set (trie_items l'). below it lvl False x" by (rule below_keys [OF g2(4)]) (use inv(1) in simp)
  have br: "\<forall>x\<in>set (trie_items r'). below it lvl True x" by (rule below_keys [OF g3(4)]) (use inv(1) in simp)
  have ti: "trie_inv v lvl (Node (it\<lparr>tn_data := d\<rparr>) l' r')"
    using inv(1) g2(2) g3(2) bl br by simp
  have ms: "mset (item_records it) = mset (map (elem_record it) g1) + mset (map (elem_record it) d)"
    using g1(2) by (simp add: item_records_def)
  let ?g = "map (elem_record it) g1 @ g2 @ g3"
  have "tbl3 = notify_all RTR_PFX_REMOVE ?g tbl" using g1(1) g2(1) g3(1) by (simp add: notify_all_append)
  moreover have "item_key ` set (trie_items (Node (it\<lparr>tn_data := d\<rparr>) l' r')) \<subseteq> item_key ` set (trie_items (Node it l r))"
    using g2(4) g3(4) by auto
  moreover have "mset (trie_records (Node it l r)) = mset ?g + mset (trie_records (Node (it\<lparr>tn_data := d\<rparr>) l' r'))"
    using g2(5) g3(5) ms by (simp add: trie_records_Node item_records_data)
  moreover have "\<forall>r\<in>set ?g. pr_socket r = socket" using g1(3) g2(6) g3(6) by (auto simp: elem_record_def)
  moreover have "set mem3 \<subseteq> set mem" using g1(4) g2(7) g3(7) by blast
  moreover have "rv3 = RTR_PFX_SUCCESS \<and> (\<forall>r\<in>set (trie_records (Node (it\<lparr>tn_data := d\<rparr>) l' r')). pr_socket r \<noteq> socket) \<or>
      rv3 = RTR_PFX_ERROR \<and> False \<in> set mem"
    using g1(4,5) g2(8) g3(8) by (auto simp: trie_records_Node item_records_data elem_record_def)
  ultimately show ?thesis unfolding purged_def using ok ti by blast
qed

lemma purged_trans:
  assumes "purged socket v lvl mem1 tbl1 t1 rv tbl2 t2 mem2" "set mem1 \<subseteq> set mem"
    "tbl1 = notify_all RTR_PFX_REMOVE g tbl" "mset (trie_records t) = mset g + mset (trie_records t1)"
    "\<forall>r\<in>set g. pr_socket r = socket" "item_key ` set (trie_items t1) \<subseteq> item_key ` set (trie_items t)"
  shows "purged socket v lvl mem tbl t rv tbl2 t2 mem2"
proof -
  from assms(1) obtain g2 where g2: "tbl2 = notify_all RTR_PFX_REMOVE g2 tbl1" "trie_inv v lvl t2" "data_ok t2"
    "item_key ` set (trie_items t2) \<subseteq> item_key ` set (trie_items t1)"
    "mset (trie_records t1) = mset g2 + mset (trie_records t2)" "\<forall>r\<in>set g2. pr_socket r = socket" "set mem2 \<subseteq> set mem1"
    "rv = RTR_PFX_SUCCESS \<and> (\<forall>r\<in>set (trie_records t2). pr_socket r \<noteq> socket) \<or> rv = RTR_PFX_ERROR \<and> False \<in> set mem1"
    unfolding purged_def by blast
  have "tbl2 = notify_all RTR_PFX_REMOVE (g @ g2) tbl" using g2(1) assms(3) by (simp add: notify_all_append)
  moreover have "mset (trie_records t) = mset (g @ g2) + mset (trie_records t2)" using g2(5) assms(4) by simp
  moreover have "\<forall>r\<in>set (g @ g2). pr_socket r = socket" using g2(6) assms(5) by auto
  moreover have "item_key ` set (trie_items t2) \<subseteq> item_key ` set (trie_items t)" using g2(4) assms(6) by blast
  ultimately show ?thesis unfolding purged_def using g2(2,3,7,8) assms(2) by (intro exI [of _ "g @ g2"]) blast
qed

lemma purged_emptied:
  assumes "remove_id_elems tbl it (tn_data it) socket 0 mem = (RTR_PFX_SUCCESS, tbl1, [], mem1)"
    and inv: "trie_inv v lvl (Node it l r)" "data_ok (Node it l r)"
  obtains x t1 g where
    "trie_remove (Node (it\<lparr>tn_data := []\<rparr>) l r) (tn_prefix it) (tn_len it) lvl = Some (Some x, t1)" "tn_data x = []"
    "trie_inv v lvl t1" "data_ok t1" "node_count t1 < node_count (Node it l r)" "set mem1 \<subseteq> set mem"
    "tbl1 = notify_all RTR_PFX_REMOVE g tbl" "mset (trie_records (Node it l r)) = mset g + mset (trie_records t1)"
    "\<forall>r\<in>set g. pr_socket r = socket" "item_key ` set (trie_items t1) \<subseteq> item_key ` set (trie_items (Node it l r))"
proof -
  let ?n = "Node (it\<lparr>tn_data := []\<rparr>) l r"
  from remove_id_elems_outcome [OF assms(1)] obtain g1 where
    g1: "tbl1 = notify_all RTR_PFX_REMOVE (map (elem_record it) g1) tbl" "mset (tn_data it) = mset g1"
      "\<forall>e\<in>set g1. de_socket e = socket" "set mem1 \<subseteq> set mem" by auto
  have "trie_inv v lvl ?n" using inv(1) by simp
  from trie_remove_root [OF this] obtain x t1 where t1:
    "trie_remove ?n (tn_prefix it) (tn_len it) lvl = Some (Some x, t1)" "tn_data x = []"
    "mset (trie_items t1) = mset (trie_items l) + mset (trie_items r)" "trie_inv v lvl t1" by auto
  have set1: "set (trie_items t1) = set (trie_items l) \<union> set (trie_items r)"
    using arg_cong [OF t1(3), of set_mset] by simp
  have "mset (item_records it) = mset (map (elem_record it) g1)" using g1(2) by (simp add: item_records_def)
  then have "mset (trie_records (Node it l r)) = mset (map (elem_record it) g1) + mset (trie_records t1)"
    using t1(3) by (simp add: mset_trie_records trie_records_Node)
  moreover have "data_ok t1" using inv(2) set1 by (auto simp: data_ok_def)
  moreover have "node_count t1 < node_count (Node it l r)" using trie_remove_count [OF t1(1)] by simp
  moreover have "item_key ` set (trie_items t1) \<subseteq> item_key ` set (trie_items (Node it l r))" using set1 by auto
  moreover have "\<forall>r\<in>set (map (elem_record it) g1). pr_socket r = socket" using g1(3) by (auto simp: elem_record_def)
  ultimately show thesis using that t1(1,2,4) g1(1,4) by blast
qed

lemma pfx_table_remove_id_outcome:
  assumes "t \<noteq> Null" "trie_inv v lvl t" "data_ok t"
  shows "\<exists>rv tbl' t' mem'. pfx_table_remove_id tbl t socket lvl mem = Some (rv, tbl', t', mem') \<and>
           purged socket v lvl mem tbl t rv tbl' t' mem'"
  using assms
proof (induction "node_count t" arbitrary: t lvl tbl mem rule: less_induct)
  case less
  obtain it l r where t: "t = Node it l r" using less.prems(1) by (cases t) auto
  note inv = less.prems(2) [unfolded t] and ok = less.prems(3) [unfolded t]
  obtain rv1 tbl1 d mem1 where el: "remove_id_elems tbl it (tn_data it) socket 0 mem = (rv1, tbl1, d, mem1)"
    by (cases "remove_id_elems tbl it (tn_data it) socket 0 mem")
  have child: "\<exists>rv tbl' t' mem'. (if c \<noteq> Null then pfx_table_remove_id tb c socket (lvl + 1) m
      else Some (RTR_PFX_SUCCESS, tb, c, m)) = Some (rv, tbl', t', mem') \<and>
      purged socket v (Suc lvl) m tb c rv tbl' t' mem'" if "c = l \<or> c = r" for c tb m
    using less.hyps [of c "Suc lvl"] inv ok purged_Null that t by (auto simp: data_ok_def)
  from remove_id_elems_outcome [OF el] consider (err) "rv1 = RTR_PFX_ERROR"
    | (empty) "rv1 = RTR_PFX_SUCCESS" "d = []" | (some) "rv1 = RTR_PFX_SUCCESS" "d \<noteq> []" by auto
  then show ?case
  proof cases
    case err
    from remove_id_elems_outcome [OF el] err obtain g where
      g: "tbl1 = notify_all RTR_PFX_REMOVE (map (elem_record it) g) tbl" "mset (tn_data it) = mset g + mset d"
        "\<forall>e\<in>set g. de_socket e = socket" "set mem1 \<subseteq> set mem" "d \<noteq> []" "False \<in> set mem" by auto
    have "distinct d" using ok distinct_submset [of d "tn_data it"] g(2) by (simp add: data_ok_def)
    moreover have "mset (item_records it) = mset (map (elem_record it) g) + mset (map (elem_record it) d)"
      using g(2) by (simp add: item_records_def)
    ultimately have "purged socket v lvl mem tbl t RTR_PFX_ERROR tbl1 (Node (it\<lparr>tn_data := d\<rparr>) l r) mem1"
      unfolding purged_def t using g inv ok
      by (intro exI [of _ "map (elem_record it) g"])
        (auto simp: data_ok_def trie_records_Node item_records_data elem_record_def)
    then show ?thesis using el err t by (simp add: pfx_table_remove_id.simps)
  next
    case empty
    from purged_emptied [OF el [unfolded empty] inv ok] obtain x t1 g where t1:
      "trie_remove (Node (it\<lparr>tn_data := []\<rparr>) l r) (tn_prefix it) (tn_len it) lvl = Some (Some x, t1)" "tn_data x = []"
      "trie_inv v lvl t1" "data_ok t1" "node_count t1 < node_count (Node it l r)"
      and tr: "set mem1 \<subseteq> set mem" "tbl1 = notify_all RTR_PFX_REMOVE g tbl"
      "mset (trie_records (Node it l r)) = mset g + mset (trie_records t1)"
      "\<forall>r\<in>set g. pr_socket r = socket" "item_key ` set (trie_items t1) \<subseteq> item_key ` set (trie_items (Node it l r))"
      by blast
    show ?thesis
    proof (cases "t1 = Null")
      case True
      then show ?thesis using el empty t t1(1,2) purged_trans [OF purged_Null tr [unfolded True]]
        by (simp add: pfx_table_remove_id.simps)
    next
      case False
      from less.hyps [OF t1(5) [folded t] False t1(3,4), of tbl1 mem1] obtain rv tbl' t' mem' where
        "pfx_table_remove_id tbl1 t1 socket lvl mem1 = Some (rv, tbl', t', mem')"
        "purged socket v lvl mem1 tbl1 t1 rv tbl' t' mem'" by blast
      then show ?thesis using el empty t t1(1,2) False purged_trans [OF _ tr]
        by (auto simp: pfx_table_remove_id.simps(2))
    qed
  next
    case some
    from child [of l tbl1 mem1] obtain rv2 tbl2 l' mem2 where
      l': "(if l \<noteq> Null then pfx_table_remove_id tbl1 l socket (lvl + 1) mem1
      else Some (RTR_PFX_SUCCESS, tbl1, l, mem1)) = Some (rv2, tbl2, l', mem2)"
      "purged socket v (Suc lvl) mem1 tbl1 l rv2 tbl2 l' mem2" by blast
    from child [of r tbl2 mem2] obtain rv3 tbl3 r' mem3 where
      r': "(if r \<noteq> Null then pfx_table_remove_id tbl2 r socket (lvl + 1) mem2
      else Some (RTR_PFX_SUCCESS, tbl2, r, mem2)) = Some (rv3, tbl3, r', mem3)"
      "purged socket v (Suc lvl) mem2 tbl2 r rv3 tbl3 r' mem3" by blast
    have rv2: "rv2 = RTR_PFX_SUCCESS \<or> rv2 = RTR_PFX_ERROR" using l'(2) by (auto simp: purged_def)
    note pn = purged_node [OF el [unfolded some(1)] some(2) inv ok l'(2)]
    show ?thesis
    proof (cases "rv2 = RTR_PFX_ERROR")
      case True
      then show ?thesis using el some t l'(1) pn [of RTR_PFX_ERROR tbl2 r mem2]
        by (simp add: pfx_table_remove_id.simps(2))
    next
      case False
      with rv2 have "rv2 = RTR_PFX_SUCCESS" by simp
      then show ?thesis using el some t l'(1) r' pn [of rv3 tbl3 r' mem3]
        by (cases "r = Null") (simp_all add: pfx_table_remove_id.simps(2))
    qed
  qed
qed

lemma pfx_trie_inv_iff: "pfx_trie_inv v t \<longleftrightarrow> trie_inv v 0 t \<and> data_ok t"
  by (simp add: pfx_trie_inv_def data_ok_def)

definition src_removed where
  "src_removed socket mem tbl rv tbl' mem' =
     (pfx_inv tbl' \<and> update_fp tbl' = update_fp tbl \<and> set mem' \<subseteq> set mem \<and>
      (\<exists>gone. mset (pfx_records tbl) = mset gone + mset (pfx_records tbl') \<and>
         (\<forall>r\<in>set gone. pr_socket r = socket) \<and>
         pfx_log tbl' = pfx_log tbl @ (if update_fp tbl then map (\<lambda>r. (r, RTR_PFX_REMOVE)) gone else [])) \<and>
      (rv = RTR_PFX_SUCCESS \<and> (\<forall>r\<in>set (pfx_records tbl'). pr_socket r \<noteq> socket) \<or>
       rv = RTR_PFX_ERROR \<and> False \<in> set mem))"

lemma src_remove_trie:
  assumes "pfx_trie_inv v t"
  shows "\<exists>rv tbl' t' mem'. (if t \<noteq> Null then pfx_table_remove_id tbl t socket 0 mem
           else Some (RTR_PFX_SUCCESS, tbl, t, mem)) = Some (rv, tbl', t', mem') \<and>
           purged socket v 0 mem tbl t rv tbl' t' mem'"
  using pfx_table_remove_id_outcome [of t v 0 tbl socket mem] assms purged_Null
  by (auto simp: pfx_trie_inv_iff)

lemma rtr_pfx_table_src_remove_outcome:
  assumes inv: "pfx_inv tbl"
  shows "\<exists>rv tbl' mem'. rtr_pfx_table_src_remove (Some tbl) socket mem = Some (rv, Some tbl', mem') \<and>
           src_removed socket mem tbl rv tbl' mem'"
proof -
  have i4: "pfx_trie_inv RTR_IPV4 (ipv4 tbl)" and i6: "pfx_trie_inv RTR_IPV6 (ipv6 tbl)"
    using inv by (auto simp: pfx_inv_def)
  from src_remove_trie [OF i4] obtain rv1 tbl1 t4 mem1 where
    r1: "(if ipv4 tbl \<noteq> Null then pfx_table_remove_id tbl (ipv4 tbl) socket 0 mem
           else Some (RTR_PFX_SUCCESS, tbl, ipv4 tbl, mem)) = Some (rv1, tbl1, t4, mem1)"
    and p1: "purged socket RTR_IPV4 0 mem tbl (ipv4 tbl) rv1 tbl1 t4 mem1" by blast
  from p1 obtain g1 where g1: "tbl1 = notify_all RTR_PFX_REMOVE g1 tbl" "pfx_trie_inv RTR_IPV4 t4"
    "mset (trie_records (ipv4 tbl)) = mset g1 + mset (trie_records t4)" "\<forall>r\<in>set g1. pr_socket r = socket"
    "set mem1 \<subseteq> set mem"
    "rv1 = RTR_PFX_SUCCESS \<and> (\<forall>r\<in>set (trie_records t4). pr_socket r \<noteq> socket) \<or> rv1 = RTR_PFX_ERROR \<and> False \<in> set mem"
    unfolding purged_def pfx_trie_inv_iff by blast
  have s1: "(if ipv4 tbl \<noteq> Null then
            do { (rtval, tbl, root, mem) \<leftarrow> pfx_table_remove_id tbl (ipv4 tbl) socket 0 mem;
                 Some (rtval, tbl\<lparr>ipv4 := root\<rparr>, mem) }
          else Some (RTR_PFX_SUCCESS, tbl, mem)) = Some (rv1, tbl1\<lparr>ipv4 := t4\<rparr>, mem1)"
    using r1 by (auto split: if_splits)
  show ?thesis
  proof (cases "rv1 = RTR_PFX_ERROR")
    case True
    have "src_removed socket mem tbl RTR_PFX_ERROR (tbl1\<lparr>ipv4 := t4\<rparr>) mem1"
      unfolding src_removed_def using True g1 i6
      by (auto simp: pfx_inv_def pfx_records_def notify_all_log intro!: exI [of _ g1])
    then show ?thesis using True s1 by simp
  next
    case False
    define tbl2 where "tbl2 = tbl1\<lparr>ipv4 := t4\<rparr>"
    have i6': "pfx_trie_inv RTR_IPV6 (ipv6 tbl2)" "ipv6 tbl2 = ipv6 tbl" using i6 g1(1) by (simp_all add: tbl2_def)
    from src_remove_trie [OF i6'(1)] obtain rv3 tbl3 t6 mem3 where
      r2: "(if ipv6 tbl2 \<noteq> Null then pfx_table_remove_id tbl2 (ipv6 tbl2) socket 0 mem1
           else Some (RTR_PFX_SUCCESS, tbl2, ipv6 tbl2, mem1)) = Some (rv3, tbl3, t6, mem3)"
      and p2: "purged socket RTR_IPV6 0 mem1 tbl2 (ipv6 tbl2) rv3 tbl3 t6 mem3" by blast
    from p2 obtain g2 where g2: "tbl3 = notify_all RTR_PFX_REMOVE g2 tbl2" "pfx_trie_inv RTR_IPV6 t6"
      "mset (trie_records (ipv6 tbl)) = mset g2 + mset (trie_records t6)" "\<forall>r\<in>set g2. pr_socket r = socket"
      "set mem3 \<subseteq> set mem1"
      "rv3 = RTR_PFX_SUCCESS \<and> (\<forall>r\<in>set (trie_records t6). pr_socket r \<noteq> socket) \<or> rv3 = RTR_PFX_ERROR \<and> False \<in> set mem1"
      unfolding purged_def pfx_trie_inv_iff i6'(2) by blast
    have s2: "(if ipv6 tbl2 \<noteq> Null then
            do { (rtval, tbl, root, mem) \<leftarrow> pfx_table_remove_id tbl2 (ipv6 tbl2) socket 0 mem1;
                 Some (rtval, tbl\<lparr>ipv6 := root\<rparr>, mem) }
          else Some (RTR_PFX_SUCCESS, tbl2, mem1)) = Some (rv3, tbl3\<lparr>ipv6 := t6\<rparr>, mem3)"
      using r2 by (auto split: if_splits)
    have "src_removed socket mem tbl rv3 (tbl3\<lparr>ipv6 := t6\<rparr>) mem3"
      unfolding src_removed_def using False g1 g2
      by (auto simp: tbl2_def pfx_inv_def pfx_records_def notify_all_log intro!: exI [of _ "g1 @ g2"])
    moreover have "rtr_pfx_table_src_remove (Some tbl) socket mem = Some (rv3, Some (tbl3\<lparr>ipv6 := t6\<rparr>), mem3)"
      unfolding rtr_pfx_table_src_remove.simps(2) s1 bind.bind_lunit prod.case tbl2_def [symmetric] s2
      using False g2(6) by (auto split: if_splits)
    ultimately show ?thesis by blast
  qed
qed

section \<open>Iteration\<close>

lemma pfx_table_for_each_rec_fold:
  "t \<noteq> Null \<Longrightarrow> pfx_table_for_each_rec t fp s = fold_opt fp (trie_records t) s"
proof (induction t arbitrary: s)
  case (Node it l r)
  have l: "(if l \<noteq> Null then pfx_table_for_each_rec l fp s else Some s) = fold_opt fp (trie_records l) s" for s
    using Node.IH(1) by simp
  have r: "(if r \<noteq> Null then pfx_table_for_each_rec r fp s else Some s) = fold_opt fp (trie_records r) s" for s
    using Node.IH(2) by simp
  show ?case unfolding pfx_table_for_each_rec.simps l r trie_records_Node
    by (cases "fold_opt fp (trie_records l) s") simp_all
qed simp

lemma rtr_pfx_table_for_each_ipv4_fold:
  "rtr_pfx_table_for_each_ipv4_record (Some tbl) fp s =
     map_option (Pair RTR_PFX_SUCCESS) (fold_opt fp (trie_records (ipv4 tbl)) s)"
  by (auto simp: pfx_table_for_each_rec_fold map_conv_bind_option comp_def)

lemma rtr_pfx_table_for_each_ipv6_fold:
  "rtr_pfx_table_for_each_ipv6_record (Some tbl) fp s =
     map_option (Pair RTR_PFX_SUCCESS) (fold_opt fp (trie_records (ipv6 tbl)) s)"
  by (auto simp: pfx_table_for_each_rec_fold map_conv_bind_option comp_def)

section \<open>Copying a table\<close>

lemma pfx_records_ok: "pfx_inv tbl \<Longrightarrow> r \<in> set (pfx_records tbl) \<Longrightarrow> rec_ok r"
  using trie_records_ver by (auto simp: pfx_inv_def pfx_records_def)

lemma rtr_pfx_table_add_fresh:
  assumes "pfx_inv tbl" "rec_ok r" "r \<notin> set (pfx_records tbl)" "False \<notin> set mem"
  shows "\<exists>tbl' mem'. rtr_pfx_table_add (Some tbl) (Some r) mem = Some (RTR_PFX_SUCCESS, Some tbl', mem') \<and>
           pfx_inv tbl' \<and> mset (pfx_records tbl') = add_mset r (mset (pfx_records tbl)) \<and> False \<notin> set mem'"
  using rtr_pfx_table_add_outcome [OF assms(1,2), of mem] assms(3,4) by (auto simp: add_outcome_def)

lemma pfx_table_copy_fold:
  assumes "pfx_inv dst" "distinct rs" "\<forall>r\<in>set rs. rec_ok r" "False \<notin> set mem"
    "\<forall>r\<in>set rs. pr_socket r \<noteq> socket \<longrightarrow> r \<notin> set (pfx_records dst)"
  shows "\<exists>dst' mem'. fold_opt (pfx_table_copy_cb socket) rs (Some dst, False, mem) = Some (Some dst', False, mem') \<and>
    pfx_inv dst' \<and> False \<notin> set mem' \<and>
    mset (pfx_records dst') = mset (pfx_records dst) + mset (filter (\<lambda>r. pr_socket r \<noteq> socket) rs)"
  using assms
proof (induction rs arbitrary: dst mem)
  case (Cons r rs)
  show ?case
  proof (cases "pr_socket r = socket")
    case True
    then show ?thesis using Cons by simp
  next
    case False
    obtain dst1 mem1 where d1: "rtr_pfx_table_add (Some dst) (Some r) mem = Some (RTR_PFX_SUCCESS, Some dst1, mem1)"
      "pfx_inv dst1" "mset (pfx_records dst1) = add_mset r (mset (pfx_records dst))" "False \<notin> set mem1"
      using rtr_pfx_table_add_fresh [of dst r mem] Cons.prems False by auto
    have s: "set (pfx_records dst1) = insert r (set (pfx_records dst))"
      using arg_cong [OF d1(3), of set_mset] by simp
    have "\<exists>dst' mem'. fold_opt (pfx_table_copy_cb socket) rs (Some dst1, False, mem1) = Some (Some dst', False, mem') \<and>
      pfx_inv dst' \<and> False \<notin> set mem' \<and>
      mset (pfx_records dst') = mset (pfx_records dst1) + mset (filter (\<lambda>r. pr_socket r \<noteq> socket) rs)"
      by (rule Cons.IH) (use Cons.prems d1 s in auto)
    then show ?thesis using False d1(1,3) by (auto simp del: rtr_pfx_table_add.simps)
  qed
qed simp

lemma pfx_table_copy_outcome:
  assumes "pfx_inv src" "pfx_inv dst" "False \<notin> set mem"
    "\<forall>r\<in>set (pfx_records src). pr_socket r \<noteq> socket \<longrightarrow> r \<notin> set (pfx_records dst)"
  shows "\<exists>dst' mem'. pfx_table_copy_except_socket (Some src) (Some dst) socket mem = Some (RTR_PFX_SUCCESS, Some dst', mem') \<and>
    pfx_inv dst' \<and> False \<notin> set mem' \<and>
    mset (pfx_records dst') = mset (pfx_records dst) + mset (filter (\<lambda>r. pr_socket r \<noteq> socket) (pfx_records src))"
proof -
  have d: "distinct (pfx_records src)" "\<forall>r\<in>set (pfx_records src). rec_ok r"
    using pfx_records_distinct [OF assms(1)] pfx_records_ok [OF assms(1)] by auto
  from pfx_table_copy_fold [OF assms(2) d assms(3,4)] obtain dst' mem' where
    run: "fold_opt (pfx_table_copy_cb socket) (pfx_records src) (Some dst, False, mem) = Some (Some dst', False, mem')"
    and post: "pfx_inv dst'" "False \<notin> set mem'"
    "mset (pfx_records dst') = mset (pfx_records dst) + mset (filter (\<lambda>r. pr_socket r \<noteq> socket) (pfx_records src))" by blast
  from run obtain st where st: "fold_opt (pfx_table_copy_cb socket) (trie_records (ipv4 src)) (Some dst, False, mem) = Some st"
    "fold_opt (pfx_table_copy_cb socket) (trie_records (ipv6 src)) st = Some (Some dst', False, mem')"
    by (auto simp: pfx_records_def bind_Some_iff)
  have keep: "fold_opt (pfx_table_copy_cb socket) rs (a, e, m) = Some (b, e', m') \<Longrightarrow> e \<Longrightarrow> e'" for rs a e m b e' m'
    by (induction rs arbitrary: a e m) (auto simp: bind_Some_iff simp del: rtr_pfx_table_add.simps split: if_splits prod.splits)
  obtain d1 e1 m1 where "st = (d1, e1, m1)" by (cases st)
  moreover from this have "\<not> e1" using st(2) keep by blast
  ultimately have "pfx_table_copy_except_socket (Some src) (Some dst) socket mem = Some (RTR_PFX_SUCCESS, Some dst', mem')"
    using st by (simp add: pfx_table_copy_except_socket_def rtr_pfx_table_for_each_ipv4_fold rtr_pfx_table_for_each_ipv6_fold
        del: rtr_pfx_table_for_each_ipv4_record.simps rtr_pfx_table_for_each_ipv6_record.simps)
  then show ?thesis using post by blast
qed

section \<open>Reporting the difference of two tables\<close>

lemma rtr_pfx_table_remove_quiet:
  assumes "pfx_inv tbl" "rec_ok r" "False \<notin> set mem" "\<not> update_fp tbl"
  shows "\<exists>tbl' mem'. rtr_pfx_table_remove (Some tbl) r mem =
      Some (if r \<in> set (pfx_records tbl) then RTR_PFX_SUCCESS else RTR_PFX_RECORD_NOT_FOUND, Some tbl', mem') \<and>
    pfx_inv tbl' \<and> \<not> update_fp tbl' \<and> pfx_log tbl' = pfx_log tbl \<and> False \<notin> set mem' \<and>
    mset (pfx_records tbl) = mset (if r \<in> set (pfx_records tbl) then [r] else []) + mset (pfx_records tbl')"
proof -
  from rtr_pfx_table_remove_outcome [OF assms(1,2), of mem] obtain rv tbl' mem' where
    run: "rtr_pfx_table_remove (Some tbl) r mem = Some (rv, Some tbl', mem')"
    and out: "remove_outcome tbl r mem rv tbl'" "set mem' \<subseteq> set mem" by blast
  show ?thesis
  proof (cases "r \<in> set (pfx_records tbl)")
    case True
    then show ?thesis using run out assms(3,4) by (auto simp: remove_outcome_def simp del: rtr_pfx_table_remove.simps)
  next
    case False
    then show ?thesis using run out assms by (auto simp: remove_outcome_def simp del: rtr_pfx_table_remove.simps)
  qed
qed

lemma notify_diff_add_phase:
  assumes "pfx_inv old" "\<not> update_fp old" "distinct rs" "\<forall>r\<in>set rs. rec_ok r" "False \<notin> set mem"
  shows "\<exists>old' mem'. fold_opt (pfx_table_notify_diff_cb socket RTR_PFX_ADD) rs (new, old, mem) =
      Some (notify_all RTR_PFX_ADD (filter (\<lambda>r. pr_socket r = socket \<and> r \<notin> set (pfx_records old)) rs) new, old', mem') \<and>
    pfx_inv old' \<and> \<not> update_fp old' \<and> pfx_log old' = pfx_log old \<and> False \<notin> set mem' \<and>
    mset (pfx_records old) =
      mset (filter (\<lambda>r. pr_socket r = socket \<and> r \<in> set (pfx_records old)) rs) + mset (pfx_records old')"
  using assms
proof (induction rs arbitrary: old mem new)
  case (Cons r rs)
  show ?case
  proof (cases "pr_socket r = socket")
    case False
    then show ?thesis using Cons by simp
  next
    case True
    define i where "i = (r \<in> set (pfx_records old))"
    obtain old1 mem1 where o1: "rtr_pfx_table_remove (Some old) r mem =
        Some (if i then RTR_PFX_SUCCESS else RTR_PFX_RECORD_NOT_FOUND, Some old1, mem1)"
      "pfx_inv old1" "\<not> update_fp old1" "pfx_log old1 = pfx_log old" "False \<notin> set mem1"
      "mset (pfx_records old) = mset (if i then [r] else []) + mset (pfx_records old1)"
      using rtr_pfx_table_remove_quiet [of old r mem] Cons.prems unfolding i_def by auto
    define new1 where "new1 = (if i then new else pfx_table_notify_clients new r RTR_PFX_ADD)"
    have s: "x \<in> set (pfx_records old1) \<longleftrightarrow> x \<in> set (pfx_records old)" if "x \<in> set rs" for x
    proof -
      have "x \<noteq> r" using that Cons.prems(3) by auto
      then show ?thesis using arg_cong [OF o1(6), of set_mset] by (auto split: if_splits)
    qed
    have f: "filter (\<lambda>x. pr_socket x = socket \<and> x \<notin> set (pfx_records old1)) rs =
        filter (\<lambda>x. pr_socket x = socket \<and> x \<notin> set (pfx_records old)) rs"
      "filter (\<lambda>x. pr_socket x = socket \<and> x \<in> set (pfx_records old1)) rs =
        filter (\<lambda>x. pr_socket x = socket \<and> x \<in> set (pfx_records old)) rs"
      using s by (auto intro!: filter_cong)
    have cb: "pfx_table_notify_diff_cb socket RTR_PFX_ADD r (new, old, mem) = Some (new1, old1, mem1)"
      using True o1(1) by (auto simp: new1_def simp del: rtr_pfx_table_remove.simps)
    have "\<exists>old' mem'. fold_opt (pfx_table_notify_diff_cb socket RTR_PFX_ADD) rs (new1, old1, mem1) =
      Some (notify_all RTR_PFX_ADD (filter (\<lambda>r. pr_socket r = socket \<and> r \<notin> set (pfx_records old1)) rs) new1, old', mem') \<and>
      pfx_inv old' \<and> \<not> update_fp old' \<and> pfx_log old' = pfx_log old1 \<and> False \<notin> set mem' \<and>
      mset (pfx_records old1) =
        mset (filter (\<lambda>r. pr_socket r = socket \<and> r \<in> set (pfx_records old1)) rs) + mset (pfx_records old')"
      by (rule Cons.IH) (use Cons.prems o1 in auto)
    then obtain old' mem' where IH: "fold_opt (pfx_table_notify_diff_cb socket RTR_PFX_ADD) rs (new1, old1, mem1) =
        Some (notify_all RTR_PFX_ADD (filter (\<lambda>r. pr_socket r = socket \<and> r \<notin> set (pfx_records old)) rs) new1, old', mem')"
      "pfx_inv old'" "\<not> update_fp old'" "pfx_log old' = pfx_log old1" "False \<notin> set mem'"
      "mset (pfx_records old1) =
        mset (filter (\<lambda>r. pr_socket r = socket \<and> r \<in> set (pfx_records old)) rs) + mset (pfx_records old')"
      unfolding f by blast
    show ?thesis using True IH o1(4,6) cb
      by (cases i) (auto simp: i_def new1_def notify_all_Cons simp del: pfx_table_notify_diff_cb.simps)
  qed
qed simp

lemma notify_diff_remove_phase:
  "fold_opt (pfx_table_notify_diff_cb socket RTR_PFX_REMOVE) rs (new, old, mem) =
     Some (notify_all RTR_PFX_REMOVE (filter (\<lambda>r. pr_socket r = socket) rs) new, old, mem)"
  by (induction rs arbitrary: new) (auto simp: notify_all_Cons)

lemma pfx_inv_update_fp [simp]: "pfx_inv (tbl\<lparr>update_fp := b\<rparr>) = pfx_inv tbl"
  by (simp add: pfx_inv_def)

lemma pfx_records_update_fp [simp]: "pfx_records (tbl\<lparr>update_fp := b\<rparr>) = pfx_records tbl"
  by (simp add: pfx_records_def)

text \<open>The records that only the new table has are announced, those that only the old table has are
  withdrawn, in the order of the iterator, and nothing else is reported.\<close>

lemma pfx_table_notify_diff_outcome:
  assumes "pfx_inv new" "pfx_inv old" "False \<notin> set mem"
  shows "\<exists>old' mem' withdrawn.
    pfx_table_notify_diff new old socket mem =
      Some (notify_all RTR_PFX_REMOVE withdrawn
              (notify_all RTR_PFX_ADD (filter (\<lambda>r. pr_socket r = socket \<and> r \<notin> set (pfx_records old)) (pfx_records new)) new),
            old', mem') \<and>
    pfx_inv old' \<and> distinct withdrawn \<and>
    set withdrawn = {r \<in> set (pfx_records old). pr_socket r = socket \<and> r \<notin> set (pfx_records new)}"
proof -
  define q where "q = old\<lparr>update_fp := False\<rparr>"
  have q: "pfx_inv q" "\<not> update_fp q" "pfx_records q = pfx_records old" using assms(2) by (simp_all add: q_def)
  have d: "distinct (pfx_records new)" "\<forall>r\<in>set (pfx_records new). rec_ok r"
    using pfx_records_distinct [OF assms(1)] pfx_records_ok [OF assms(1)] by auto
  from notify_diff_add_phase [OF q(1,2) d assms(3), of socket new] obtain old1 mem1 where
    ph1: "fold_opt (pfx_table_notify_diff_cb socket RTR_PFX_ADD) (pfx_records new) (new, q, mem) =
      Some (notify_all RTR_PFX_ADD (filter (\<lambda>r. pr_socket r = socket \<and> r \<notin> set (pfx_records old)) (pfx_records new)) new, old1, mem1)"
    and o1: "pfx_inv old1"
      "mset (pfx_records old) = mset (filter (\<lambda>r. pr_socket r = socket \<and> r \<in> set (pfx_records old)) (pfx_records new)) + mset (pfx_records old1)"
    unfolding q(3) by blast
  define new1 where "new1 = notify_all RTR_PFX_ADD (filter (\<lambda>r. pr_socket r = socket \<and> r \<notin> set (pfx_records old)) (pfx_records new)) new"
  have d4: "distinct (trie_records (ipv4 new))" "\<forall>r\<in>set (trie_records (ipv4 new)). rec_ok r"
    using d by (auto simp: pfx_records_def)
  from notify_diff_add_phase [OF q(1,2) d4 assms(3), of socket new] obtain gs old0 mem0 where
    ph0: "fold_opt (pfx_table_notify_diff_cb socket RTR_PFX_ADD) (trie_records (ipv4 new)) (new, q, mem) =
      Some (notify_all RTR_PFX_ADD gs new, old0, mem0)" by blast
  have ph6: "fold_opt (pfx_table_notify_diff_cb socket RTR_PFX_ADD) (trie_records (ipv6 new)) (notify_all RTR_PFX_ADD gs new, old0, mem0) =
      Some (new1, old1, mem1)"
    using ph1 ph0 by (simp add: pfx_records_def new1_def)
  define w where "w = filter (\<lambda>r. pr_socket r = socket) (pfx_records old1)"
  have "pfx_table_notify_diff new old socket mem =
      Some (notify_all RTR_PFX_REMOVE w new1, old1\<lparr>update_fp := update_fp old\<rparr>, mem1)"
    using ph0 ph6
    by (simp add: pfx_table_notify_diff_def Let_def q_def [symmetric] w_def pfx_records_def notify_all_append
        rtr_pfx_table_for_each_ipv4_fold rtr_pfx_table_for_each_ipv6_fold notify_diff_remove_phase
        del: rtr_pfx_table_for_each_ipv4_record.simps rtr_pfx_table_for_each_ipv6_record.simps)
  moreover have "pfx_inv (old1\<lparr>update_fp := update_fp old\<rparr>)" using o1(1) by simp
  moreover have "distinct w" using pfx_records_distinct [OF o1(1)] by (simp add: w_def)
  moreover have "set w = {r \<in> set (pfx_records old). pr_socket r = socket \<and> r \<notin> set (pfx_records new)}"
  proof -
    have dist: "distinct (filter (\<lambda>r. pr_socket r = socket \<and> r \<in> set (pfx_records old)) (pfx_records new) @ pfx_records old1)"
      using o1(2) pfx_records_distinct [OF assms(2)] by (metis mset_append mset_eq_imp_distinct_iff)
    have "set (pfx_records old) = {r \<in> set (pfx_records new). pr_socket r = socket \<and> r \<in> set (pfx_records old)} \<union> set (pfx_records old1)"
      using arg_cong [OF o1(2), of set_mset] by auto
    with dist show ?thesis by (auto simp: w_def)
  qed
  ultimately show ?thesis unfolding new1_def by blast
qed

section \<open>Freeing a table\<close>

lemma free_trie_outcome:
  assumes "trie_inv v 0 t"
  shows "\<exists>gone. free_trie tbl t = Some (notify_all RTR_PFX_REMOVE gone tbl) \<and> mset gone = mset (trie_records t)"
  using assms
proof (induction "node_count t" arbitrary: t tbl rule: less_induct)
  case less
  show ?case
  proof (cases t)
    case Null
    then show ?thesis by (intro exI [of _ "[]"]) simp
  next
    case (Node it l r)
    from trie_remove_root [OF less.prems [unfolded Node]] obtain x t1 where t1:
      "trie_remove (Node it l r) (tn_prefix it) (tn_len it) 0 = Some (Some x, t1)"
      "mset (trie_items t1) = mset (trie_items l) + mset (trie_items r)" "trie_inv v 0 t1" by auto
    have "node_count t1 < node_count t" using trie_remove_count [OF t1(1)] Node by simp
    from less.hyps [OF this t1(3), of "notify_all RTR_PFX_REMOVE (item_records it) tbl"] obtain g where
      g: "free_trie (notify_all RTR_PFX_REMOVE (item_records it) tbl) t1 =
          Some (notify_all RTR_PFX_REMOVE g (notify_all RTR_PFX_REMOVE (item_records it) tbl))"
        "mset g = mset (trie_records t1)" by blast
    have "mset (item_records it @ g) = mset (trie_records t)"
      using g(2) t1(2) Node by (simp add: mset_trie_records)
    moreover have "free_trie tbl t = Some (notify_all RTR_PFX_REMOVE (item_records it @ g) tbl)"
      using g(1) t1(1) Node by (simp add: notify_all_def)
    ultimately show ?thesis by blast
  qed
qed

lemma rtr_pfx_table_free_outcome:
  assumes "pfx_inv tbl"
  shows "\<exists>gone. rtr_pfx_table_free (Some tbl) =
      Some (Some ((notify_all RTR_PFX_REMOVE gone tbl)\<lparr>ipv4 := Null, ipv6 := Null\<rparr>)) \<and>
    mset gone = mset (pfx_records tbl)"
proof -
  have i: "trie_inv RTR_IPV4 0 (ipv4 tbl)" "trie_inv RTR_IPV6 0 (ipv6 tbl)"
    using assms by (auto simp: pfx_inv_def pfx_trie_inv_def)
  from free_trie_outcome [OF i(1)] obtain g4 where
    g4: "free_trie tbl (ipv4 tbl) = Some (notify_all RTR_PFX_REMOVE g4 tbl)" "mset g4 = mset (trie_records (ipv4 tbl))" by blast
  define t1 where "t1 = (notify_all RTR_PFX_REMOVE g4 tbl)\<lparr>ipv4 := Null\<rparr>"
  from free_trie_outcome [OF i(2)] obtain g6 where
    g6: "free_trie t1 (ipv6 tbl) = Some (notify_all RTR_PFX_REMOVE g6 t1)" "mset g6 = mset (trie_records (ipv6 tbl))" by blast
  have s1: "(if ipv4 tbl \<noteq> Null then map_option (\<lambda>t. t\<lparr>ipv4 := Null\<rparr>) (free_trie tbl (ipv4 tbl)) else Some tbl) = Some t1"
    using g4 by (auto simp: t1_def)
  have "ipv6 t1 = ipv6 tbl" by (simp add: t1_def)
  then have s2: "(if ipv6 t1 \<noteq> Null then map_option (\<lambda>t. t\<lparr>ipv6 := Null\<rparr>) (free_trie t1 (ipv6 t1)) else Some t1) =
      Some ((notify_all RTR_PFX_REMOVE g6 t1)\<lparr>ipv6 := Null\<rparr>)"
    using g6 by auto
  have "pfx_table_notify_clients (tb\<lparr>ipv4 := u\<rparr>) r op = (pfx_table_notify_clients tb r op)\<lparr>ipv4 := u\<rparr>" for tb u r op
    by (simp add: pfx_table_notify_clients_def)
  then have upd: "notify_all op g (tb\<lparr>ipv4 := u\<rparr>) = (notify_all op g tb)\<lparr>ipv4 := u\<rparr>" for op g tb u
    by (induction g arbitrary: tb) (simp_all add: notify_all_Cons)
  have "rtr_pfx_table_free (Some tbl) =
      Some (Some ((notify_all RTR_PFX_REMOVE (g4 @ g6) tbl)\<lparr>ipv4 := Null, ipv6 := Null\<rparr>))"
    unfolding rtr_pfx_table_free.simps s1 bind.bind_lunit s2 by (simp add: t1_def upd notify_all_append)
  then show ?thesis using g4(2) g6(2) by (intro exI [of _ "g4 @ g6"]) (simp add: pfx_records_def)
qed

end
