(* ===== verification/Pfx_Props.thy ===== *)
theory Pfx_Props
  imports Pfx_Bulk
begin

text \<open>
  The properties of the prefix table, each with an instance on a small concrete table; the last section is about
  tries that are deeper than their addresses are wide.
\<close>

lemma rtr_ip_addr_get_bits_zero: "rtr_ip_addr_get_bits a 0 0 = None"
proof (cases a)
  case (Ip6 b)
  then show ?thesis by (cases b) (simp add: rtr_ip_addr_get_bits.simps rtr_ipv6_get_bits.simps rtr_get_bits_zero_aborts)
qed (simp add: rtr_ip_addr_get_bits.simps rtr_ipv4_get_bits_def rtr_get_bits_zero_aborts)

text \<open>A small table for concrete instances: 10.0.0.0/8 for AS 64500 up to /16, and 10.128.0.0/9
  for AS 64501 and AS 64502, from sockets 1 and 2.\<close>

definition sample_rec :: "nat \<Rightarrow> rtr_pfx_record" where
  "sample_rec n =
     (if n = 0 then \<lparr>pr_asn = 64500, pr_prefix = Ip4 0x0A000000, pr_min_len = 8, pr_max_len = 16, pr_socket = 1\<rparr>
      else if n = 1 then \<lparr>pr_asn = 64501, pr_prefix = Ip4 0x0A800000, pr_min_len = 9, pr_max_len = 24, pr_socket = 1\<rparr>
      else \<lparr>pr_asn = 64502, pr_prefix = Ip4 0x0A800000, pr_min_len = 9, pr_max_len = 9, pr_socket = 2\<rparr>)"

definition sample_table :: rtr_pfx_table where
  "sample_table = \<lparr>
     ipv4 = Node \<lparr>tn_prefix = Ip4 0x0A000000, tn_len = 8, tn_data = [rec_elem (sample_rec 0)]\<rparr>
              (Node \<lparr>tn_prefix = Ip4 0x0A800000, tn_len = 9, tn_data = [rec_elem (sample_rec 1), rec_elem (sample_rec 2)]\<rparr> Null Null)
              Null,
     ipv6 = Null, update_fp = True, pfx_log = []\<rparr>"

lemma sample_table_inv: "pfx_inv sample_table"
  by (simp add: pfx_inv_def pfx_trie_inv_def sample_table_def sample_rec_def rec_elem_def item_ok_def
      below_def canonical_Ip4 same_bits_Ip4 item_key_def)

lemma sample_table_searchable: "pfx_searchable sample_table"
  by (simp add: pfx_searchable_def sample_table_def pfx_records_def trie_records_def item_records_def elem_record_def)

lemma sample_table_adds:
  "(do { (_, t, _) \<leftarrow> rtr_pfx_table_add (Some (rtr_pfx_table_init True)) (Some (sample_rec 1)) [];
         (_, t, _) \<leftarrow> rtr_pfx_table_add t (Some (sample_rec 0)) [];
         (_, t, _) \<leftarrow> rtr_pfx_table_add t (Some (sample_rec 2)) [];
         t' \<leftarrow> t; Some (ipv4 t') }) = Some (ipv4 sample_table)"
  by code_simp

section \<open>Properties\<close>

text \<open>C1: Route origin validation is RFC 6811. On every well-formed table that holds no zero-length
  prefix and whose tries are no deeper than an address is wide (at most 32 and 128 nodes on a path, which
  the operations on the table do not ensure), \<open>rtr_pfx_table_validate_r\<close> runs to completion
  for every route; unless an allocation for the reasons fails it reports exactly the state that
  RFC 6811 assigns to the route from the set of stored records, and the reasons are, without
  repetition, all covering records of an invalid route, covering records including a matching
  one for a valid route, and none when nothing covers the route.\<close>

theorem validate_r_rfc6811:
  assumes "pfx_inv tbl" "pfx_searchable tbl" "m \<le> addr_width p"
  shows "\<exists>rv st rs mem'. rtr_pfx_table_validate_r (Some tbl) want asn p m mem = Some (rv, st, rs, mem') \<and>
    (if rv = RTR_PFX_ERROR then want \<and> False \<in> set mem \<and> st = None \<and> rs = []
     else rv = RTR_PFX_SUCCESS \<and> st = Some (rov_state (set (pfx_records tbl)) asn p m) \<and>
       (want \<longrightarrow> reasons_ok (set (pfx_records tbl)) asn p m rs))"
  by (rule rtr_pfx_table_validate_r_outcome [OF assms])

theorem validate_r_rfc6811_witness:
  "\<exists>rv st rs mem'. rtr_pfx_table_validate_r (Some sample_table) True 64502 (Ip4 0x0A800000) 10 [True, True] = Some (rv, st, rs, mem') \<and>
    (if rv = RTR_PFX_ERROR then True \<and> False \<in> set [True, True] \<and> st = None \<and> rs = []
     else rv = RTR_PFX_SUCCESS \<and> st = Some (rov_state (set (pfx_records sample_table)) 64502 (Ip4 0x0A800000) 10) \<and>
       (True \<longrightarrow> reasons_ok (set (pfx_records sample_table)) 64502 (Ip4 0x0A800000) 10 rs))"
  by (rule validate_r_rfc6811 [OF sample_table_inv sample_table_searchable]) simp

text \<open>C10: Adding a record with a canonical prefix refines insertion into the set of records. The
  call always returns; it answers DUPLICATE exactly when the record is stored and leaves the table
  alone; otherwise it adds just that record and notifies once, or, only when an allocation fails,
  reports an error and leaves the table as it was. The table invariant is kept.\<close>

theorem table_add_refines_insert:
  assumes "pfx_inv tbl" "rec_ok r"
  shows "\<exists>rv tbl' mem'. rtr_pfx_table_add (Some tbl) (Some r) mem = Some (rv, Some tbl', mem') \<and> pfx_inv tbl' \<and>
    (if r \<in> set (pfx_records tbl) then rv = RTR_PFX_DUPLICATE_RECORD \<and> tbl' = tbl
     else rv = RTR_PFX_ERROR \<and> tbl' = tbl \<and> False \<in> set mem \<or>
          rv = RTR_PFX_SUCCESS \<and> mset (pfx_records tbl') = add_mset r (mset (pfx_records tbl)) \<and>
          pfx_log tbl' = pfx_log tbl @ (if update_fp tbl then [(r, RTR_PFX_ADD)] else []))"
proof -
  from rtr_pfx_table_add_outcome [OF assms, of mem] obtain rv tbl' mem' where
    run: "rtr_pfx_table_add (Some tbl) (Some r) mem = Some (rv, Some tbl', mem')"
    and out: "add_outcome tbl r mem rv tbl'" by blast
  have "pfx_inv tbl'" using out assms(1) by (auto simp: add_outcome_def split: if_splits)
  then show ?thesis using run out unfolding add_outcome_def by (intro exI conjI) auto
qed

theorem table_add_refines_insert_witness:
  "\<exists>rv tbl' mem'. rtr_pfx_table_add (Some sample_table) (Some (sample_rec 1)) [False] = Some (rv, Some tbl', mem') \<and> pfx_inv tbl' \<and>
    (if sample_rec 1 \<in> set (pfx_records sample_table) then rv = RTR_PFX_DUPLICATE_RECORD \<and> tbl' = sample_table
     else rv = RTR_PFX_ERROR \<and> tbl' = sample_table \<and> False \<in> set [False] \<or>
          rv = RTR_PFX_SUCCESS \<and> mset (pfx_records tbl') = add_mset (sample_rec 1) (mset (pfx_records sample_table)) \<and>
          pfx_log tbl' = pfx_log sample_table @ (if update_fp sample_table then [(sample_rec 1, RTR_PFX_ADD)] else []))"
  by (rule table_add_refines_insert [OF sample_table_inv]) (simp add: rec_ok_def sample_rec_def canonical_Ip4)

text \<open>C11: Removing a record with a canonical prefix refines deletion from the set of records. The
  call always returns; it answers NOT FOUND exactly when the record is not stored and leaves the
  table alone; otherwise it takes away just that record and notifies once, or, only when an
  allocation fails, reports an error and keeps all records. The table invariant is kept.\<close>

theorem table_remove_refines_delete:
  assumes "pfx_inv tbl" "rec_ok r"
  shows "\<exists>rv tbl' mem'. rtr_pfx_table_remove (Some tbl) r mem = Some (rv, Some tbl', mem') \<and> pfx_inv tbl' \<and>
    (if r \<notin> set (pfx_records tbl) then rv = RTR_PFX_RECORD_NOT_FOUND \<and> tbl' = tbl
     else rv = RTR_PFX_ERROR \<and> False \<in> set mem \<and> mset (pfx_records tbl') = mset (pfx_records tbl) \<and>
            pfx_log tbl' = pfx_log tbl \<or>
          rv = RTR_PFX_SUCCESS \<and> mset (pfx_records tbl) = add_mset r (mset (pfx_records tbl')) \<and>
            pfx_log tbl' = pfx_log tbl @ (if update_fp tbl then [(r, RTR_PFX_REMOVE)] else []))"
proof -
  from rtr_pfx_table_remove_outcome [OF assms, of mem] obtain rv tbl' mem' where
    run: "rtr_pfx_table_remove (Some tbl) r mem = Some (rv, Some tbl', mem')"
    and out: "remove_outcome tbl r mem rv tbl'" by blast
  have "pfx_inv tbl'" using out assms(1) by (auto simp: remove_outcome_def split: if_splits)
  then show ?thesis using run out unfolding remove_outcome_def by (intro exI conjI) auto
qed

theorem table_remove_refines_delete_witness:
  "\<exists>rv tbl' mem'. rtr_pfx_table_remove (Some sample_table) (sample_rec 0) [] = Some (rv, Some tbl', mem') \<and> pfx_inv tbl' \<and>
    (if sample_rec 0 \<notin> set (pfx_records sample_table) then rv = RTR_PFX_RECORD_NOT_FOUND \<and> tbl' = sample_table
     else rv = RTR_PFX_ERROR \<and> False \<in> set [] \<and> mset (pfx_records tbl') = mset (pfx_records sample_table) \<and>
            pfx_log tbl' = pfx_log sample_table \<or>
          rv = RTR_PFX_SUCCESS \<and> mset (pfx_records sample_table) = add_mset (sample_rec 0) (mset (pfx_records tbl')) \<and>
            pfx_log tbl' = pfx_log sample_table @ (if update_fp sample_table then [(sample_rec 0, RTR_PFX_REMOVE)] else []))"
  by (rule table_remove_refines_delete [OF sample_table_inv]) (simp add: rec_ok_def sample_rec_def canonical_Ip4)

text \<open>C31: A stored record of prefix length zero makes origin validation abort for every route of its
  address family: the bit extraction at the root of the trie asserts a positive length.\<close>

theorem zero_length_record_aborts_validation:
  assumes "pfx_inv tbl" "r \<in> set (pfx_records tbl)" "pr_min_len r = 0" "ip_ver p = ip_ver (pr_prefix r)"
  shows "rtr_pfx_table_validate_r (Some tbl) want asn p m mem = None"
proof -
  let ?root = "pfx_table_get_root tbl (ip_ver p)"
  have "r \<in> set (trie_records ?root)" using pfx_records_root_iff [OF assms(1)] assms(2,4) by simp
  then obtain x where x: "x \<in> set (trie_items ?root)" "tn_len x = 0"
    using assms(3) by (auto simp: in_trie_records rec_key_def item_key_def)
  moreover have inv: "trie_inv (ip_ver p) 0 ?root" using pfx_inv_root [OF assms(1)] by (simp add: pfx_trie_inv_def)
  ultimately obtain it l r' where root: "?root = Node it l r'" "tn_len it = 0"
    using trie_inv_root_le [of "ip_ver p" 0 _ _ _ x] by (cases ?root) fastforce+
  have "trie_lookup ?root p m 0 = None"
    using root rtr_ip_addr_get_bits_zero by simp
  then show ?thesis using root by (simp add: rtr_pfx_table_validate_r.simps Let_def)
qed

theorem zero_length_record_aborts_validation_witness:
  "rtr_pfx_table_validate_r
     (Some \<lparr>ipv4 = Node \<lparr>tn_prefix = Ip4 0, tn_len = 0, tn_data = [rec_elem (sample_rec 0)]\<rparr> Null Null,
            ipv6 = Null, update_fp = False, pfx_log = []\<rparr>) False 64500 (Ip4 0x0A000000) 8 [] = None"
  by (rule zero_length_record_aborts_validation [of _ "elem_record \<lparr>tn_prefix = Ip4 0, tn_len = 0, tn_data = []\<rparr> (rec_elem (sample_rec 0))"])
    (simp_all add: pfx_inv_def pfx_trie_inv_def item_ok_def canonical_Ip4 pfx_records_def trie_records_def
      item_records_def elem_record_def)

text \<open>C25: Withdrawing a socket. \<open>rtr_pfx_table_src_remove\<close> always returns and keeps the invariant;
  it only takes away records of that socket, reports each of them exactly once, and after success,
  which only a failing allocation prevents, no record of the socket is left.\<close>

theorem src_remove_withdraws_socket:
  assumes "pfx_inv tbl"
  shows "\<exists>rv tbl' mem' gone. rtr_pfx_table_src_remove (Some tbl) socket mem = Some (rv, Some tbl', mem') \<and>
    pfx_inv tbl' \<and> mset (pfx_records tbl) = mset gone + mset (pfx_records tbl') \<and>
    (\<forall>r\<in>set gone. pr_socket r = socket) \<and>
    pfx_log tbl' = pfx_log tbl @ (if update_fp tbl then map (\<lambda>r. (r, RTR_PFX_REMOVE)) gone else []) \<and>
    (rv = RTR_PFX_SUCCESS \<and> (\<forall>r\<in>set (pfx_records tbl'). pr_socket r \<noteq> socket) \<or>
     rv = RTR_PFX_ERROR \<and> False \<in> set mem)"
  using rtr_pfx_table_src_remove_outcome [OF assms, of socket mem] unfolding src_removed_def by blast

theorem src_remove_withdraws_socket_witness:
  "\<exists>rv tbl' mem' gone. rtr_pfx_table_src_remove (Some sample_table) 1 [] = Some (rv, Some tbl', mem') \<and>
    pfx_inv tbl' \<and> mset (pfx_records sample_table) = mset gone + mset (pfx_records tbl') \<and>
    (\<forall>r\<in>set gone. pr_socket r = 1) \<and>
    pfx_log tbl' = pfx_log sample_table @ (if update_fp sample_table then map (\<lambda>r. (r, RTR_PFX_REMOVE)) gone else []) \<and>
    (rv = RTR_PFX_SUCCESS \<and> (\<forall>r\<in>set (pfx_records tbl'). pr_socket r \<noteq> 1) \<or>
     rv = RTR_PFX_ERROR \<and> False \<in> set [])"
  by (rule src_remove_withdraws_socket [OF sample_table_inv])

text \<open>C26: The difference report. With no failing allocation \<open>pfx_table_notify_diff\<close> announces exactly
  the records of the socket that only the new table has and withdraws exactly those that only the
  old table has, each once, announcements first; the new table itself keeps its records.\<close>

theorem notify_diff_reports_difference:
  assumes "pfx_inv new" "pfx_inv old" "False \<notin> set mem"
  shows "\<exists>new' old' mem' added withdrawn. pfx_table_notify_diff new old socket mem = Some (new', old', mem') \<and>
    pfx_records new' = pfx_records new \<and>
    pfx_log new' = pfx_log new @
      (if update_fp new then map (\<lambda>r. (r, RTR_PFX_ADD)) added @ map (\<lambda>r. (r, RTR_PFX_REMOVE)) withdrawn else []) \<and>
    distinct added \<and> set added = {r \<in> set (pfx_records new). pr_socket r = socket \<and> r \<notin> set (pfx_records old)} \<and>
    distinct withdrawn \<and> set withdrawn = {r \<in> set (pfx_records old). pr_socket r = socket \<and> r \<notin> set (pfx_records new)}"
proof -
  let ?a = "filter (\<lambda>r. pr_socket r = socket \<and> r \<notin> set (pfx_records old)) (pfx_records new)"
  from pfx_table_notify_diff_outcome [OF assms, of socket] obtain old' mem' w where
    run: "pfx_table_notify_diff new old socket mem =
      Some (notify_all RTR_PFX_REMOVE w (notify_all RTR_PFX_ADD ?a new), old', mem')" and w: "distinct w"
    "set w = {r \<in> set (pfx_records old). pr_socket r = socket \<and> r \<notin> set (pfx_records new)}" by blast
  let ?n = "notify_all RTR_PFX_REMOVE w (notify_all RTR_PFX_ADD ?a new)"
  have rec: "pfx_records ?n = pfx_records new" by (simp add: pfx_records_def)
  have log: "pfx_log ?n = pfx_log new @
      (if update_fp new then map (\<lambda>r. (r, RTR_PFX_ADD)) ?a @ map (\<lambda>r. (r, RTR_PFX_REMOVE)) w else [])"
    by (simp add: notify_all_log)
  have d: "distinct ?a" using pfx_records_distinct [OF assms(1)] by simp
  have set: "set ?a = {r \<in> set (pfx_records new). pr_socket r = socket \<and> r \<notin> set (pfx_records old)}" by auto
  show ?thesis by (intro exI conjI) (rule run rec log d set w)+
qed

theorem notify_diff_reports_difference_witness:
  "\<exists>new' old' mem' added withdrawn. pfx_table_notify_diff sample_table (rtr_pfx_table_init True) 1 [] = Some (new', old', mem') \<and>
    pfx_records new' = pfx_records sample_table \<and>
    pfx_log new' = pfx_log sample_table @
      (if update_fp sample_table then map (\<lambda>r. (r, RTR_PFX_ADD)) added @ map (\<lambda>r. (r, RTR_PFX_REMOVE)) withdrawn else []) \<and>
    distinct added \<and> set added = {r \<in> set (pfx_records sample_table). pr_socket r = 1 \<and> r \<notin> set (pfx_records (rtr_pfx_table_init True))} \<and>
    distinct withdrawn \<and> set withdrawn = {r \<in> set (pfx_records (rtr_pfx_table_init True)). pr_socket r = 1 \<and> r \<notin> set (pfx_records sample_table)}"
  by (rule notify_diff_reports_difference [OF sample_table_inv])
    (simp_all add: rtr_pfx_table_init_def pfx_inv_def pfx_trie_inv_def)

text \<open>Copying. With no failing allocation, and when the destination holds none of the records to
  be copied, \<open>pfx_table_copy_except_socket\<close> succeeds and adds to the destination exactly the
  records of the source that come from other sockets.\<close>

theorem copy_except_socket_exact:
  assumes "pfx_inv src" "pfx_inv dst" "False \<notin> set mem"
    "\<forall>r\<in>set (pfx_records src). pr_socket r \<noteq> socket \<longrightarrow> r \<notin> set (pfx_records dst)"
  shows "\<exists>dst' mem'. pfx_table_copy_except_socket (Some src) (Some dst) socket mem = Some (RTR_PFX_SUCCESS, Some dst', mem') \<and>
    pfx_inv dst' \<and>
    mset (pfx_records dst') = mset (pfx_records dst) + mset (filter (\<lambda>r. pr_socket r \<noteq> socket) (pfx_records src))"
  using pfx_table_copy_outcome [OF assms] by blast

theorem copy_except_socket_exact_witness:
  "\<exists>dst' mem'. pfx_table_copy_except_socket (Some sample_table) (Some (rtr_pfx_table_init False)) 1 [] = Some (RTR_PFX_SUCCESS, Some dst', mem') \<and>
    pfx_inv dst' \<and>
    mset (pfx_records dst') = mset (pfx_records (rtr_pfx_table_init False)) + mset (filter (\<lambda>r. pr_socket r \<noteq> 1) (pfx_records sample_table))"
  by (rule copy_except_socket_exact [OF sample_table_inv])
    (simp_all add: rtr_pfx_table_init_def pfx_inv_def pfx_trie_inv_def pfx_records_def)

text \<open>Freeing a well-formed table runs to completion, empties both tries and reports the removal
  of every record exactly once.\<close>

theorem free_withdraws_everything:
  assumes "pfx_inv tbl"
  shows "\<exists>tbl' gone. rtr_pfx_table_free (Some tbl) = Some (Some tbl') \<and> ipv4 tbl' = Null \<and> ipv6 tbl' = Null \<and>
    mset gone = mset (pfx_records tbl) \<and>
    pfx_log tbl' = pfx_log tbl @ (if update_fp tbl then map (\<lambda>r. (r, RTR_PFX_REMOVE)) gone else [])"
proof -
  from rtr_pfx_table_free_outcome [OF assms] obtain gone where
    "rtr_pfx_table_free (Some tbl) =
      Some (Some ((notify_all RTR_PFX_REMOVE gone tbl)\<lparr>ipv4 := Null, ipv6 := Null\<rparr>))" "mset gone = mset (pfx_records tbl)" by blast
  then show ?thesis
    by (intro exI [of _ "(notify_all RTR_PFX_REMOVE gone tbl)\<lparr>ipv4 := Null, ipv6 := Null\<rparr>"] exI [of _ gone])
      (simp add: notify_all_log)
qed

theorem free_withdraws_everything_witness:
  "\<exists>tbl' gone. rtr_pfx_table_free (Some sample_table) = Some (Some tbl') \<and> ipv4 tbl' = Null \<and> ipv6 tbl' = Null \<and>
    mset gone = mset (pfx_records sample_table) \<and>
    pfx_log tbl' = pfx_log sample_table @ (if update_fp sample_table then map (\<lambda>r. (r, RTR_PFX_REMOVE)) gone else [])"
  by (rule free_withdraws_everything [OF sample_table_inv])

section \<open>Tries that are too deep\<close>

text \<open>The nodes that a search for an address visits from a level on, when it runs to the end.\<close>

fun path_length :: "rtr_ip_addr \<Rightarrow> nat \<Rightarrow> 'd trie_node \<Rightarrow> nat" where
  "path_length p lvl Null = 0"
| "path_length p lvl (Node it l r) = Suc (path_length p (lvl + 1) (if is_left_child p lvl = Some True then l else r))"

lemma get_bits_past_end: "rtr_ip_addr_get_bits p (addr_width p mod 256) 1 = None"
proof (cases p)
  case (Ip6 a)
  then show ?thesis by (cases a) (simp add: rtr_ip_addr_get_bits.simps rtr_ipv6_get_bits.simps)
qed (simp add: rtr_ip_addr_get_bits.simps rtr_ipv4_get_bits_def rtr_get_bits_def)

lemma trie_lookup_deep:
  assumes "addr_width p < lvl + path_length p lvl t" "lvl \<le> addr_width p" "trie_lookup t p m lvl = Some (n, lvl')"
  shows "n \<noteq> Null \<and> lvl' \<le> addr_width p \<and> addr_width p < lvl' + path_length p lvl' n \<and> set (trie_items n) \<subseteq> set (trie_items t)"
  using assms
proof (induction t arbitrary: lvl)
  case (Node it l r)
  let ?c = "if is_left_child p lvl = Some True then l else r"
  have "n = Node it l r \<and> lvl' = lvl \<or> (\<exists>left. is_left_child p lvl = Some left \<and> trie_lookup (if left then l else r) p m (lvl + 1) = Some (n, lvl'))"
  proof -
    obtain hit where "(if hit then Some (Node it l r, lvl) else
        do { left \<leftarrow> is_left_child p lvl; if left then trie_lookup l p m (lvl + 1) else trie_lookup r p m (lvl + 1) }) = Some (n, lvl')"
      using Node.prems(3) unfolding trie_lookup.simps by (elim bind_SomeE)
    then show ?thesis by (cases hit; cases "is_left_child p lvl") (simp_all split: if_splits)
  qed
  then show ?case
  proof (elim disjE exE)
    fix left assume left: "is_left_child p lvl = Some left \<and> trie_lookup (if left then l else r) p m (lvl + 1) = Some (n, lvl')"
    then have "lvl \<noteq> addr_width p" using get_bits_past_end [of p] by (auto simp: is_left_child_def)
    then have lvl: "lvl + 1 \<le> addr_width p" using Node.prems(2) by simp
    show ?thesis
    proof (cases left)
      case True
      have "addr_width p < lvl + 1 + path_length p (lvl + 1) l" using Node.prems(1) left True by simp
      from Node.IH(1) [OF this lvl] show ?thesis using left True by auto
    next
      case False
      have "addr_width p < lvl + 1 + path_length p (lvl + 1) r" using Node.prems(1) left False by simp
      from Node.IH(2) [OF this lvl] show ?thesis using left False by auto
    qed
  next
    assume "n = Node it l r \<and> lvl' = lvl"
    then show ?thesis using Node.prems(1,2) by simp
  qed
qed simp

lemma no_match: "\<forall>e\<in>set es. de_asn e \<noteq> asn \<Longrightarrow> \<not> pfx_table_elem_matches es asn m"
  by (induction es) auto

lemma validate_loop_deep:
  assumes "addr_width p < lvl + path_length p lvl t" "lvl \<le> addr_width p" "\<forall>it\<in>set (trie_items t). \<forall>e\<in>set (tn_data it). de_asn e \<noteq> asn"
  shows "validate_loop False asn p m t lvl rs mem = None"
  using assms
proof (induction "node_count t" arbitrary: t lvl rs mem rule: less_induct)
  case less
  obtain it l r where t: "t = Node it l r" using less.prems(1,2) by (cases t) auto
  let ?c = "if is_left_child p lvl = Some True then l else r"
  have nm: "\<not> pfx_table_elem_matches (tn_data it) asn m" using less.prems(3) t by (intro no_match) auto
  show ?case
  proof (cases "rtr_ip_addr_get_bits p (lvl mod 256) 1")
    case None
    then show ?thesis using nm t by (simp add: validate_loop.simps(2))
  next
    case (Some bits)
    then have "lvl \<noteq> addr_width p" using get_bits_past_end [of p] by auto
    then have lvl: "lvl + 1 \<le> addr_width p" using less.prems(2) by simp
    have c: "(if rtr_ip_addr_is_zero bits then l else r) = ?c" using Some by (simp add: is_left_child_def)
    show ?thesis
    proof (cases "trie_lookup ?c p m (lvl + 1)")
      case None
      then show ?thesis using nm t Some c by (simp add: validate_loop.simps(2))
    next
      case look: (Some x)
      obtain n lvl' where x: "x = (n, lvl')" by (cases x)
      have "addr_width p < lvl + 1 + path_length p (lvl + 1) ?c" using less.prems(1) t by simp
      note d = trie_lookup_deep [OF this lvl look [unfolded x]]
      obtain it2 l2 r2 where n: "n = Node it2 l2 r2" using d by (cases n) auto
      have "node_count n \<le> node_count ?c" using trie_lookup_count [OF look [unfolded x]] .
      then have "node_count n < node_count t" using t by (auto split: if_splits)
      moreover have "set (trie_items n) \<subseteq> set (trie_items t)" using d t by (auto split: if_splits)
      then have "\<forall>it\<in>set (trie_items n). \<forall>e\<in>set (tn_data it). de_asn e \<noteq> asn" using less.prems(3) by blast
      ultimately have "validate_loop False asn p m n lvl' rs mem = None" for rs mem using less.hyps d by blast
      then show ?thesis using nm t Some c look x n by (simp add: validate_loop.simps(2) validate_extend_def)
    qed
  qed
qed

text \<open>C30: A trie that is deeper than the addresses are wide breaks origin validation. When the path of the searched
  address has more nodes than the address has bits, which records added in the ordinary way can bring about (the
  prefixes 0.0.0.0/1 and 128.0.0.0/1 to 128.0.0.0/32 do), then validating any route of any length along this path for
  an AS without records does not return a result: the search asks for the bit behind the last one, which fails an
  assertion for IPv6 and shifts a 32-bit word by 32 for IPv4.\<close>

theorem deep_trie_aborts_validation:
  assumes "\<forall>r\<in>set (pfx_records tbl). pr_asn r \<noteq> asn"
    and "addr_width p < path_length p 0 (pfx_table_get_root tbl (ip_ver p))"
  shows "rtr_pfx_table_validate (Some tbl) asn p m = None"
proof -
  let ?root = "pfx_table_get_root tbl (ip_ver p)"
  have "elem_record it e \<in> set (pfx_records tbl)" if "it \<in> set (trie_items ?root)" "e \<in> set (tn_data it)" for it e
    using that by (cases "ip_ver p") (auto simp: pfx_records_def pfx_table_get_root_def trie_records_def item_records_def)
  then have na: "\<forall>it\<in>set (trie_items ?root). \<forall>e\<in>set (tn_data it). de_asn e \<noteq> asn" using assms(1) by (force simp: elem_record_def)
  have root: "?root \<noteq> Null" using assms(2) by auto
  show ?thesis
  proof (cases "trie_lookup ?root p m 0")
    case None
    then show ?thesis using root by (simp add: rtr_pfx_table_validate_def rtr_pfx_table_validate_r.simps Let_def)
  next
    case (Some x)
    obtain n lvl where x: "x = (n, lvl)" by (cases x)
    note d = trie_lookup_deep [of p 0 ?root m, OF _ _ Some [unfolded x]]
    then have "validate_loop False asn p m n lvl [] []  = None" using assms(2) na by (intro validate_loop_deep) auto
    moreover obtain it l r where "n = Node it l r" using d assms(2) by (cases n) auto
    ultimately show ?thesis using Some x root by (simp add: rtr_pfx_table_validate_def rtr_pfx_table_validate_r.simps Let_def validate_extend_def)
  qed
qed

fun add_all :: "rtr_pfx_table \<Rightarrow> rtr_pfx_record list \<Rightarrow> rtr_pfx_table option" where
  "add_all tbl [] = Some tbl"
| "add_all tbl (r # rs) = do { (_, t, _) \<leftarrow> rtr_pfx_table_add (Some tbl) (Some r) []; t \<leftarrow> t; add_all t rs }"

definition deep_recs :: "rtr_pfx_record list" where
  "deep_recs = \<lparr>pr_asn = 1, pr_prefix = Ip4 0, pr_min_len = 1, pr_max_len = 32, pr_socket = 1\<rparr> #
     map (\<lambda>n. \<lparr>pr_asn = 1, pr_prefix = Ip4 0x80000000, pr_min_len = n, pr_max_len = 32, pr_socket = 1\<rparr>) [1..<33]"

lemma add_all_inv:
  assumes "pfx_inv tbl" "\<forall>r\<in>set rs. rec_ok r"
  obtains t where "add_all tbl rs = Some t" "pfx_inv t" "set (pfx_records t) = set (pfx_records tbl) \<union> set rs"
  using assms
proof (induction rs arbitrary: tbl thesis)
  case (Cons r rs)
  obtain rv t mem where a: "rtr_pfx_table_add (Some tbl) (Some r) [] = Some (rv, Some t, mem)" "add_outcome tbl r [] rv t"
    using rtr_pfx_table_add_outcome [of tbl r "[]"] Cons.prems by auto
  have t: "pfx_inv t" "set (pfx_records t) = insert r (set (pfx_records tbl))"
    using a(2) Cons.prems(2) by (auto simp: add_outcome_def dest!: arg_cong [of _ _ set_mset] split: if_splits)
  obtain t' where "add_all t rs = Some t'" "pfx_inv t'" "set (pfx_records t') = set (pfx_records t) \<union> set rs"
    by (rule Cons.IH [OF _ t(1)]) (use Cons.prems(3) in auto)
  then show ?case using Cons.prems(1) [of t'] a(1) t(2) by auto
qed simp

lemma deep_recs_path: "map_option (\<lambda>t. path_length (Ip4 0x80000000) 0 (ipv4 t)) (add_all (rtr_pfx_table_init False) deep_recs) = Some 33"
  by code_simp

theorem deep_trie_aborts_validation_witness:
  "\<exists>tbl. add_all (rtr_pfx_table_init False) deep_recs = Some tbl \<and> pfx_inv tbl \<and> rtr_pfx_table_validate (Some tbl) 2 (Ip4 0x80000000) 24 = None"
proof -
  have ok: "\<forall>r\<in>set deep_recs. rec_ok r" by (simp add: deep_recs_def rec_ok_def canonical_Ip4 upt_rec)
  have init: "pfx_inv (rtr_pfx_table_init False)" "pfx_records (rtr_pfx_table_init False) = []"
    by (simp_all add: rtr_pfx_table_init_def pfx_inv_def pfx_trie_inv_def pfx_records_def trie_records_def)
  obtain t where t: "add_all (rtr_pfx_table_init False) deep_recs = Some t" "pfx_inv t" "set (pfx_records t) = set deep_recs"
    by (rule add_all_inv [OF init(1) ok]) (use init(2) in simp)
  have "\<forall>r\<in>set (pfx_records t). pr_asn r \<noteq> 2" unfolding t(3) by (auto simp: deep_recs_def)
  moreover have "addr_width (Ip4 0x80000000) < path_length (Ip4 0x80000000) 0 (pfx_table_get_root t (ip_ver (Ip4 0x80000000)))"
    using deep_recs_path t(1) by (simp add: pfx_table_get_root_def)
  ultimately show ?thesis using deep_trie_aborts_validation [of t 2] t(1,2) by blast
qed

end
