(* ===== verification/Aspa_Array.thy ===== *)
theory Aspa_Array
  imports Rtr_Prelude
begin

text \<open>
  The growing arrays of ASPA records of \<^verbatim>\<open>rtrlib/aspa/aspa_array/aspa_array.c\<close>, and the binary search in
  them. The counted provider array of a record is a list (an empty one has a NULL pointer). Besides
  the records and the capacity the code believes in, an array carries the number of bytes its block
  really has: a write past the end of the block is \<^const>\<open>None\<close>.
\<close>

section \<open>Data\<close>

record rtr_aspa_record =
  customer_asn :: u32
  provider_asns :: "u32 list"

datatype rtr_aspa_status = RTR_ASPA_SUCCESS | RTR_ASPA_ERROR | RTR_ASPA_DUPLICATE_RECORD
  | RTR_ASPA_RECORD_NOT_FOUND | RTR_ASPA_NOT_INITIALIZED

record aspa_array =
  arr_data :: "rtr_aspa_record list"
  arr_capacity :: nat
  arr_bytes :: nat

abbreviation arr_size :: "aspa_array \<Rightarrow> nat" where
  "arr_size a \<equiv> length (arr_data a)"

text \<open>\<^verbatim>\<open>sizeof(struct rtr_aspa_record)\<close> with 64-bit pointers: a padded \<^verbatim>\<open>uint32_t\<close>, a \<^verbatim>\<open>size_t\<close>, a pointer.\<close>

definition sizeof_aspa_record :: nat where
  "sizeof_aspa_record = 24"

section \<open>Operations\<close>

definition aspa_array_create :: "mem \<Rightarrow> rtr_aspa_status \<times> aspa_array option \<times> mem" where
  "aspa_array_create mem =
     (let default_initial_size = 128; (ok, mem) = rtr_malloc mem in
      if \<not> ok then (RTR_ASPA_ERROR, None, mem)
      else let (ok, mem) = rtr_malloc mem in
      if \<not> ok then (RTR_ASPA_ERROR, None, mem)
      else (RTR_ASPA_SUCCESS,
            Some \<lparr>arr_data = [], arr_capacity = default_initial_size,
                  arr_bytes = sizeof_aspa_record * default_initial_size\<rparr>, mem))"

definition aspa_array_reallocate :: "aspa_array \<Rightarrow> mem \<Rightarrow> rtr_aspa_status \<times> aspa_array \<times> mem" where
  "aspa_array_reallocate a mem =
     (let SIZE_INCREASE_OFFSET = 1000; (ok, mem) = rtr_realloc mem in
      if \<not> ok then (RTR_ASPA_ERROR, a, mem)
      else (RTR_ASPA_SUCCESS,
            a\<lparr>arr_bytes := sizeof_aspa_record * arr_capacity a + SIZE_INCREASE_OFFSET,
              arr_capacity := arr_capacity a + SIZE_INCREASE_OFFSET\<rparr>, mem))"

definition aspa_array_insert_internal ::
  "aspa_array \<Rightarrow> nat \<Rightarrow> rtr_aspa_record \<Rightarrow> bool \<Rightarrow> mem \<Rightarrow> (rtr_aspa_status \<times> aspa_array \<times> mem) option" where
  "aspa_array_insert_internal a index r copy_providers mem =
     (let (st, a, mem) = (if arr_size a \<ge> arr_capacity a then aspa_array_reallocate a mem
                          else (RTR_ASPA_SUCCESS, a, mem)) in
      if st \<noteq> RTR_ASPA_SUCCESS then Some (RTR_ASPA_ERROR, a, mem)
      else
        let (ok, mem) = (if provider_asns r \<noteq> [] \<and> copy_providers then rtr_malloc mem else (True, mem)) in
        if \<not> ok then Some (RTR_ASPA_ERROR, a, mem)
        else if sizeof_aspa_record * (arr_size a + 1) > arr_bytes a then None
        else Some (RTR_ASPA_SUCCESS, a\<lparr>arr_data := take index (arr_data a) @ r # drop index (arr_data a)\<rparr>, mem))"

fun aspa_array_insert ::
  "aspa_array option \<Rightarrow> nat \<Rightarrow> rtr_aspa_record option \<Rightarrow> bool \<Rightarrow> mem
     \<Rightarrow> (rtr_aspa_status \<times> aspa_array option \<times> mem) option" where
  "aspa_array_insert (Some a) index (Some r) copy_providers mem =
     (if index > arr_size a then Some (RTR_ASPA_ERROR, Some a, mem)
      else map_option (\<lambda>(st, a, mem). (st, Some a, mem)) (aspa_array_insert_internal a index r copy_providers mem))"
| "aspa_array_insert a index r copy_providers mem = Some (RTR_ASPA_ERROR, a, mem)"

definition aspa_array_append ::
  "aspa_array \<Rightarrow> rtr_aspa_record \<Rightarrow> bool \<Rightarrow> mem \<Rightarrow> (rtr_aspa_status \<times> aspa_array \<times> mem) option" where
  "aspa_array_append a r copy_providers mem = aspa_array_insert_internal a (arr_size a) r copy_providers mem"

definition aspa_array_remove :: "aspa_array \<Rightarrow> nat \<Rightarrow> mem \<Rightarrow> rtr_aspa_status \<times> aspa_array \<times> mem" where
  "aspa_array_remove a index mem =
     (if index \<ge> arr_size a \<or> arr_size a = 0 then (RTR_ASPA_RECORD_NOT_FOUND, a, mem)
      else
        let a = a\<lparr>arr_data := remove_nth index (arr_data a)\<rparr>; SIZE_DECREASE_OFFSET = 1000 in
        if arr_size a + SIZE_DECREASE_OFFSET < arr_capacity a then
          let (ok, mem) = rtr_realloc mem in
          if \<not> ok then (RTR_ASPA_SUCCESS, a, mem)
          else (RTR_ASPA_SUCCESS,
                a\<lparr>arr_bytes := arr_size a + SIZE_DECREASE_OFFSET,
                  arr_capacity := arr_size a + SIZE_DECREASE_OFFSET\<rparr>, mem)
        else (RTR_ASPA_SUCCESS, a, mem))"

definition aspa_array_get_record :: "aspa_array \<Rightarrow> nat \<Rightarrow> rtr_aspa_record option" where
  "aspa_array_get_record a index = (if index \<ge> arr_size a \<or> arr_size a = 0 then None else Some (arr_data a ! index))"

definition aspa_array_reserve :: "aspa_array option \<Rightarrow> nat \<Rightarrow> mem \<Rightarrow> rtr_aspa_status \<times> aspa_array option \<times> mem" where
  "aspa_array_reserve ao n mem =
     (case ao of
       None \<Rightarrow> (RTR_ASPA_ERROR, None, mem)
     | Some a \<Rightarrow>
         if arr_capacity a \<ge> n then (RTR_ASPA_SUCCESS, Some a, mem)
         else
           let (ok, mem) = rtr_realloc mem in
           if \<not> ok then (RTR_ASPA_ERROR, Some a, mem)
           else (RTR_ASPA_SUCCESS, Some (a\<lparr>arr_capacity := n, arr_bytes := sizeof_aspa_record * n\<rparr>), mem))"

text \<open>The loop of \<open>aspa_array_search\<close>; \<open>array_search_range\<close> below shows that the index read is always
  inside the array.\<close>

function array_search_loop :: "rtr_aspa_record list \<Rightarrow> u32 \<Rightarrow> nat \<Rightarrow> nat \<Rightarrow> nat option" where
  "array_search_loop data cas left right =
     (if left \<le> right then
        let center = (left + right) div 2; center_value = customer_asn (data ! center) in
        if center_value = cas then Some center
        else if center_value < cas then array_search_loop data cas (center + 1) right
        else if center = 0 then None
        else array_search_loop data cas left (center - 1)
      else None)"
  by pat_completeness auto
termination
  by (relation "measure (\<lambda>(data, cas, left, right). Suc right - left)") auto

declare array_search_loop.simps [simp del]

definition aspa_array_search :: "aspa_array \<Rightarrow> u32 \<Rightarrow> rtr_aspa_record option" where
  "aspa_array_search a cas =
     (if arr_size a = 0 \<or> arr_capacity a = 0 then None
      else map_option (\<lambda>i. arr_data a ! i) (array_search_loop (arr_data a) cas 0 (arr_size a - 1)))"

section \<open>Room in the block\<close>

text \<open>The block really has room for as many records as the capacity says.\<close>

definition arr_ok :: "aspa_array \<Rightarrow> bool" where
  "arr_ok a = (sizeof_aspa_record * arr_capacity a \<le> arr_bytes a \<and> arr_size a \<le> arr_capacity a)"

lemma aspa_array_create_cases:
  "aspa_array_create mem = (st, ao, mem') \<Longrightarrow>
     (\<exists>a. st = RTR_ASPA_SUCCESS \<and> ao = Some a \<and> arr_data a = [] \<and> arr_ok a \<and> arr_capacity a = 128) \<or>
     st = RTR_ASPA_ERROR \<and> ao = None \<and> False \<in> set mem"
  by (cases mem rule: rtr_malloc.cases; cases "tl mem" rule: rtr_malloc.cases)
    (auto simp: aspa_array_create_def arr_ok_def Let_def split: if_splits)

lemma aspa_array_append_room:
  assumes "arr_ok a" "arr_size a < arr_capacity a"
  shows "\<exists>st a' mem'. aspa_array_append a r copy mem = Some (st, a', mem') \<and>
    (st = RTR_ASPA_SUCCESS \<and> arr_data a' = arr_data a @ [r] \<and> arr_ok a' \<and> arr_capacity a' = arr_capacity a \<or>
     st = RTR_ASPA_ERROR \<and> a' = a \<and> False \<in> set mem)"
proof -
  have room: "sizeof_aspa_record * (arr_size a + 1) \<le> arr_bytes a"
    using assms by (auto simp: arr_ok_def sizeof_aspa_record_def)
  obtain ok mem' where al: "(if provider_asns r \<noteq> [] \<and> copy then rtr_malloc mem else (True, mem)) = (ok, mem')"
    by (cases "if provider_asns r \<noteq> [] \<and> copy then rtr_malloc mem else (True, mem)")
  then have "\<not> ok \<Longrightarrow> False \<in> set mem" by (cases mem rule: rtr_malloc.cases) (auto split: if_splits)
  with al room assms show ?thesis
    by (auto simp: aspa_array_append_def aspa_array_insert_internal_def arr_ok_def)
qed

section \<open>Searching\<close>

text \<open>The search never reads past the array: what lies behind it has no influence.\<close>

lemma array_search_range:
  "right < length data \<Longrightarrow> array_search_loop (data @ junk) cas left right = array_search_loop data cas left right"
proof (induction data cas left right rule: array_search_loop.induct)
  case (1 data cas left right)
  show ?case
  proof (cases "left \<le> right")
    case True
    define c where "c = (left + right) div 2"
    have c: "c \<le> right" using True by (simp add: c_def)
    then have eq: "(data @ junk) ! c = data ! c" using "1.prems" by (simp add: nth_append)
    show ?thesis
      unfolding array_search_loop.simps [of "data @ junk" cas left right] array_search_loop.simps [of data cas left right]
      using True c eq "1.IH" [OF True c_def refl] "1.prems" by (auto simp: c_def [symmetric] Let_def)
  next
    case False
    then show ?thesis by (simp add: array_search_loop.simps)
  qed
qed

lemma array_search_loop_correct:
  assumes "sorted (map customer_asn data)" "right < length data"
    "\<forall>i<length data. customer_asn (data ! i) = cas \<longrightarrow> left \<le> i \<and> i \<le> right"
  shows "case array_search_loop data cas left right of
      Some i \<Rightarrow> i < length data \<and> customer_asn (data ! i) = cas
    | None \<Rightarrow> \<forall>i<length data. customer_asn (data ! i) \<noteq> cas"
  using assms
proof (induction data cas left right rule: array_search_loop.induct)
  case (1 data cas left right)
  show ?case
  proof (cases "left \<le> right")
    case True
    define c where "c = (left + right) div 2"
    have c: "c \<le> right" "left \<le> c" "c < length data" using True "1.prems"(2) by (auto simp: c_def)
    have mono: "i \<le> j \<Longrightarrow> j < length data \<Longrightarrow> customer_asn (data ! i) \<le> customer_asn (data ! j)" for i j
      using sorted_nth_mono [OF "1.prems"(1), of i j] by simp
    have unfold: "array_search_loop data cas left right =
        (if customer_asn (data ! c) = cas then Some c
         else if customer_asn (data ! c) < cas then array_search_loop data cas (c + 1) right
         else if c = 0 then None else array_search_loop data cas left (c - 1))"
      unfolding array_search_loop.simps [of data cas left right] using True by (simp only: c_def Let_def if_True)
    consider (hit) "customer_asn (data ! c) = cas" | (right) "customer_asn (data ! c) < cas"
      | (left) "cas < customer_asn (data ! c)" by (metis linorder_cases)
    then show ?thesis
    proof cases
      case hit
      then show ?thesis using unfold c by simp
    next
      case right
      have "\<forall>i<length data. customer_asn (data ! i) = cas \<longrightarrow> c + 1 \<le> i \<and> i \<le> right"
        using "1.prems"(3) right mono c by (metis Suc_eq_plus1 Suc_leI leD linorder_not_le)
      moreover have "array_search_loop data cas left right = array_search_loop data cas (c + 1) right"
        using unfold right by auto
      ultimately show ?thesis
        using "1.IH"(1) [OF True c_def refl] right "1.prems"(1,2) by simp
    next
      case left
      have none: "c \<le> i \<Longrightarrow> i < length data \<Longrightarrow> customer_asn (data ! i) \<noteq> cas" for i
        using mono [of c i] left by auto
      show ?thesis
      proof (cases "c = 0")
        case True
        then show ?thesis using unfold left none by auto
      next
        case False
        have "\<forall>i<length data. customer_asn (data ! i) = cas \<longrightarrow> left \<le> i \<and> i \<le> c - 1"
        proof (intro allI impI)
          fix i assume i: "i < length data" "customer_asn (data ! i) = cas"
          then have "\<not> c \<le> i" using none by blast
          then show "left \<le> i \<and> i \<le> c - 1" using i "1.prems"(3) by auto
        qed
        moreover have "array_search_loop data cas left right = array_search_loop data cas left (c - 1)"
          using unfold left False by auto
        ultimately show ?thesis
          using "1.IH"(2) [OF True c_def refl] left False "1.prems"(1) c by auto
      qed
    qed
  next
    case False
    then have "\<forall>i<length data. customer_asn (data ! i) \<noteq> cas" using "1.prems"(3) by fastforce
    then show ?thesis using False by (simp add: array_search_loop.simps)
  qed
qed

lemma aspa_array_search_correct:
  assumes "sorted (map customer_asn (arr_data a))" "arr_capacity a \<noteq> 0"
  shows "aspa_array_search a cas = None \<longleftrightarrow> cas \<notin> customer_asn ` set (arr_data a)"
    and "aspa_array_search a cas = Some r \<Longrightarrow> r \<in> set (arr_data a) \<and> customer_asn r = cas"
proof -
  have ne: "case array_search_loop (arr_data a) cas 0 (arr_size a - 1) of
      Some i \<Rightarrow> i < arr_size a \<and> customer_asn (arr_data a ! i) = cas
    | None \<Rightarrow> \<forall>i<arr_size a. customer_asn (arr_data a ! i) \<noteq> cas" if "arr_size a \<noteq> 0"
    by (rule array_search_loop_correct [OF assms(1)]) (use that in auto)
  show "aspa_array_search a cas = None \<longleftrightarrow> cas \<notin> customer_asn ` set (arr_data a)"
  proof (cases "arr_size a = 0")
    case False
    then show ?thesis using ne assms(2)
      by (cases "array_search_loop (arr_data a) cas 0 (arr_size a - 1)")
        (auto simp: aspa_array_search_def in_set_conv_nth image_iff intro!: bexI [OF _ nth_mem])
  qed (simp add: aspa_array_search_def)
  show "aspa_array_search a cas = Some r \<Longrightarrow> r \<in> set (arr_data a) \<and> customer_asn r = cas"
    using ne assms(2) by (auto simp: aspa_array_search_def split: option.splits if_splits)
qed

end
