(* ===== verification/Aspa_Table.thy ===== *)
theory Aspa_Table
  imports Aspa_Array "HOL-Library.Product_Lexorder"
begin

text \<open>
  The ASPA table of \<^verbatim>\<open>rtrlib/aspa/aspa.c\<close>: a list of nodes, one per socket, each with an array of
  records, and the swap-in update (compute, then apply or discard).

  The table's \<^verbatim>\<open>update_lock\<close> is held from a successful computation to its application, so it is part
  of the state: taking it while it is held is a deadlock and gives \<^const>\<open>None\<close>. A pointer to an
  operation (\<^verbatim>\<open>failed_operation\<close>) is its position in the array of operations, a pointer to a store node
  is the node's socket. Calls of the update callback are logged. Sockets are never NULL here.
\<close>

section \<open>Data\<close>

datatype rtr_aspa_operation_type = RTR_ASPA_REMOVE | RTR_ASPA_ADD

record aspa_store_node =
  node_array :: "aspa_array option"
  node_socket :: socket_id

record rtr_aspa_table =
  aspa_fp :: bool
  aspa_store :: "aspa_store_node list"
  update_lock :: bool
  aspa_log :: "(rtr_aspa_record \<times> socket_id \<times> rtr_aspa_operation_type) list"

record aspa_update_operation =
  op_index :: nat
  op_type :: rtr_aspa_operation_type
  op_record :: rtr_aspa_record
  op_is_no_op :: bool

text \<open>\<open>upd_result\<close> holds \<^verbatim>\<open>node\<close> and \<^verbatim>\<open>new_array\<close>: \<open>None\<close> while these members are uninitialised,
  \<open>Some None\<close> for NULL pointers.\<close>

record aspa_update =
  upd_operations :: "aspa_update_operation list"
  upd_failed_operation :: "nat option"
  upd_result :: "(socket_id \<times> aspa_array) option option"
  upd_replaced_records :: "aspa_array option"

section \<open>Store and notifications\<close>

definition aspa_table_notify_clients ::
  "rtr_aspa_table \<Rightarrow> rtr_aspa_record \<Rightarrow> socket_id \<Rightarrow> rtr_aspa_operation_type \<Rightarrow> mem
     \<Rightarrow> rtr_aspa_status \<times> rtr_aspa_table \<times> mem" where
  "aspa_table_notify_clients tbl r socket ty mem =
     (if aspa_fp tbl then
        let (ok, mem) = (if provider_asns r \<noteq> [] then rtr_malloc mem else (True, mem)) in
        if \<not> ok then (RTR_ASPA_ERROR, tbl, mem)
        else (RTR_ASPA_SUCCESS, tbl\<lparr>aspa_log := aspa_log tbl @ [(r, socket, ty)]\<rparr>, mem)
      else (RTR_ASPA_SUCCESS, tbl, mem))"

text \<open>The loops that notify about every record of an array ignore the returned status.\<close>

fun notify_records ::
  "rtr_aspa_table \<Rightarrow> rtr_aspa_record list \<Rightarrow> socket_id \<Rightarrow> rtr_aspa_operation_type \<Rightarrow> mem \<Rightarrow> rtr_aspa_table \<times> mem" where
  "notify_records tbl [] socket ty mem = (tbl, mem)"
| "notify_records tbl (r # rs) socket ty mem =
     (let (st, tbl, mem) = aspa_table_notify_clients tbl r socket ty mem in notify_records tbl rs socket ty mem)"

definition aspa_store_create_node ::
  "aspa_store_node list \<Rightarrow> socket_id \<Rightarrow> aspa_array \<Rightarrow> mem \<Rightarrow> rtr_aspa_status \<times> aspa_store_node list \<times> mem" where
  "aspa_store_create_node store socket a mem =
     (let (ok, mem) = rtr_malloc mem in
      if \<not> ok then (RTR_ASPA_ERROR, store, mem)
      else (RTR_ASPA_SUCCESS, \<lparr>node_array = Some a, node_socket = socket\<rparr> # store, mem))"

definition aspa_store_remove_node :: "aspa_store_node list \<Rightarrow> nat \<Rightarrow> aspa_store_node list" where
  "aspa_store_remove_node store i = remove_nth i store"

fun aspa_store_get_node :: "aspa_store_node list \<Rightarrow> socket_id \<Rightarrow> nat option" where
  "aspa_store_get_node [] socket = None"
| "aspa_store_get_node (n # ns) socket =
     (if node_socket n = socket then Some 0 else map_option Suc (aspa_store_get_node ns socket))"

definition rtr_aspa_table_init :: "bool \<Rightarrow> rtr_aspa_table" where
  "rtr_aspa_table_init fp = \<lparr>aspa_fp = fp, aspa_store = [], update_lock = False, aspa_log = []\<rparr>"

definition aspa_table_remove_node ::
  "rtr_aspa_table \<Rightarrow> nat \<Rightarrow> bool \<Rightarrow> mem \<Rightarrow> rtr_aspa_status \<times> rtr_aspa_table \<times> mem" where
  "aspa_table_remove_node tbl i notify mem =
     (if i \<ge> length (aspa_store tbl) then (RTR_ASPA_SUCCESS, tbl, mem)
      else
        let n = aspa_store tbl ! i;
            tbl = tbl\<lparr>aspa_store := aspa_store_remove_node (aspa_store tbl) i\<rparr> in
        case node_array n of
          None \<Rightarrow> (RTR_ASPA_SUCCESS, tbl, mem)
        | Some a \<Rightarrow>
            let (tbl, mem) = (if notify then notify_records tbl (arr_data a) (node_socket n) RTR_ASPA_REMOVE mem
                              else (tbl, mem)) in
            (RTR_ASPA_SUCCESS, tbl, mem))"

fun rtr_aspa_table_src_remove ::
  "rtr_aspa_table option \<Rightarrow> socket_id \<Rightarrow> bool \<Rightarrow> mem \<Rightarrow> (rtr_aspa_status \<times> rtr_aspa_table option \<times> mem) option" where
  "rtr_aspa_table_src_remove None socket notify mem = Some (RTR_ASPA_SUCCESS, None, mem)"
| "rtr_aspa_table_src_remove (Some tbl) socket notify mem =
     (if update_lock tbl then None
      else case aspa_store_get_node (aspa_store tbl) socket of
        None \<Rightarrow> Some (RTR_ASPA_SUCCESS, Some tbl, mem)
      | Some i \<Rightarrow>
          let (res, tbl, mem) = aspa_table_remove_node tbl i notify mem in Some (res, Some tbl, mem))"

fun free_store :: "rtr_aspa_table \<Rightarrow> aspa_store_node list \<Rightarrow> bool \<Rightarrow> mem \<Rightarrow> rtr_aspa_table \<times> mem" where
  "free_store tbl [] notify mem = (tbl, mem)"
| "free_store tbl (n # ns) notify mem =
     (let (st, tbl, mem) = aspa_table_remove_node (tbl\<lparr>aspa_store := n # ns\<rparr>) 0 notify mem in
      free_store tbl ns notify mem)"

fun rtr_aspa_table_free :: "rtr_aspa_table option \<Rightarrow> bool \<Rightarrow> mem \<Rightarrow> (rtr_aspa_table option \<times> mem) option" where
  "rtr_aspa_table_free None notify mem = Some (None, mem)"
| "rtr_aspa_table_free (Some tbl) notify mem =
     (if update_lock tbl then None
      else let (tbl, mem) = free_store tbl (aspa_store tbl) notify mem in
      Some (Some (tbl\<lparr>aspa_store := []\<rparr>), mem))"

text \<open>Source and destination are distinct tables.\<close>

fun aspa_table_src_replace ::
  "rtr_aspa_table option \<Rightarrow> rtr_aspa_table option \<Rightarrow> socket_id \<Rightarrow> bool \<Rightarrow> bool \<Rightarrow> mem
     \<Rightarrow> (rtr_aspa_status \<times> rtr_aspa_table option \<times> rtr_aspa_table option \<times> mem) option" where
  "aspa_table_src_replace (Some dst) (Some src) socket notify_dst notify_src mem =
     (if update_lock dst \<or> update_lock src then None
      else case aspa_store_get_node (aspa_store src) socket of
        None \<Rightarrow> Some (RTR_ASPA_ERROR, Some dst, Some src, mem)
      | Some si \<Rightarrow>
          (case node_array (aspa_store src ! si) of
            None \<Rightarrow> Some (RTR_ASPA_ERROR, Some dst, Some src, mem)
          | Some new_array \<Rightarrow>
              let (st, old_array, store, mem) =
                (case aspa_store_get_node (aspa_store dst) socket of
                  Some di \<Rightarrow> (RTR_ASPA_SUCCESS, node_array (aspa_store dst ! di),
                              (aspa_store dst)[di := (aspa_store dst ! di)\<lparr>node_array := Some new_array\<rparr>], mem)
                | None \<Rightarrow>
                    let (st, store, mem) = aspa_store_create_node (aspa_store dst) socket new_array mem in
                    (st, None, store, mem)) in
              if st \<noteq> RTR_ASPA_SUCCESS then Some (RTR_ASPA_ERROR, Some dst, Some src, mem)
              else
                let dst = dst\<lparr>aspa_store := store\<rparr>;
                    src = src\<lparr>aspa_store := aspa_store_remove_node (aspa_store src) si\<rparr>;
                    (src, mem) = (if notify_src then notify_records src (arr_data new_array) socket RTR_ASPA_REMOVE mem
                                  else (src, mem));
                    (dst, mem) = (case old_array of
                        None \<Rightarrow> (dst, mem)
                      | Some old \<Rightarrow> if notify_dst then notify_records dst (arr_data old) socket RTR_ASPA_REMOVE mem
                                   else (dst, mem));
                    (dst, mem) = (if notify_dst then notify_records dst (arr_data new_array) socket RTR_ASPA_ADD mem
                                  else (dst, mem)) in
                Some (RTR_ASPA_SUCCESS, Some dst, Some src, mem)))"
| "aspa_table_src_replace dst src socket notify_dst notify_src mem = Some (RTR_ASPA_ERROR, dst, src, mem)"

section \<open>Computing an update\<close>

text \<open>The comparison of \<open>compare_update_operations\<close>, as the sort key of a stable sort.\<close>

definition update_operation_key :: "aspa_update_operation \<Rightarrow> u32 \<times> nat" where
  "update_operation_key op = (customer_asn (op_record op), op_index op)"

definition compare_asns :: "u32 \<Rightarrow> u32 \<Rightarrow> int" where
  "compare_asns a b = (if a < b then -1 else if a > b then 1 else 0)"

text \<open>The inner loop over the records that the current operation does not touch; \<open>rest\<close> are the
  existing records from \<^verbatim>\<open>existing_i\<close> on.\<close>

fun skip_existing ::
  "u32 \<Rightarrow> rtr_aspa_record list \<Rightarrow> aspa_array \<Rightarrow> mem
     \<Rightarrow> (rtr_aspa_status \<times> rtr_aspa_record list \<times> aspa_array \<times> mem) option" where
  "skip_existing cas [] new_array mem = Some (RTR_ASPA_SUCCESS, [], new_array, mem)"
| "skip_existing cas (e # es) new_array mem =
     (if customer_asn e < cas then
        do {
          (st, new_array, mem) \<leftarrow> aspa_array_append new_array e False mem;
          if st \<noteq> RTR_ASPA_SUCCESS then Some (RTR_ASPA_ERROR, es, new_array, mem)
          else skip_existing cas es new_array mem
        }
      else Some (RTR_ASPA_SUCCESS, e # es, new_array, mem))"

definition next_is :: "rtr_aspa_operation_type \<Rightarrow> u32 \<Rightarrow> aspa_update_operation list \<Rightarrow> bool" where
  "next_is ty cas ops = (case ops of [] \<Rightarrow> False | n # _ \<Rightarrow> customer_asn (op_record n) = cas \<and> op_type n = ty)"

definition existing_matches :: "u32 \<Rightarrow> rtr_aspa_record list \<Rightarrow> bool" where
  "existing_matches cas rest = (case rest of [] \<Rightarrow> False | e # _ \<Rightarrow> customer_asn e = cas)"

definition set_providers :: "u32 list \<Rightarrow> aspa_update_operation \<Rightarrow> aspa_update_operation" where
  "set_providers ps op = op\<lparr>op_record := (op_record op)\<lparr>provider_asns := ps\<rparr>\<rparr>"

definition mark_no_op :: "aspa_update_operation \<Rightarrow> aspa_update_operation" where
  "mark_no_op op = op\<lparr>op_is_no_op := True\<rparr>"

text \<open>The loop over the operations. \<open>processed\<close> are the operations already handled, as they are left behind
  for the notifications. The result is the status, the position of the failed operation, the
  existing records not yet consumed, both arrays, all operations and the script.\<close>

type_synonym compute_result =
  "rtr_aspa_status \<times> nat option \<times> rtr_aspa_record list \<times> aspa_array \<times> aspa_array \<times>
   aspa_update_operation list \<times> mem"

fun compute_ops ::
  "aspa_update_operation list \<Rightarrow> rtr_aspa_record list \<Rightarrow> aspa_array \<Rightarrow> aspa_array
     \<Rightarrow> aspa_update_operation list \<Rightarrow> mem \<Rightarrow> compute_result option" where
  "compute_ops [] rest new_array replaced processed mem =
     Some (RTR_ASPA_SUCCESS, None, rest, new_array, replaced, processed, mem)"
| "compute_ops (current # ops) rest new_array replaced processed mem =
     (if op_type current = RTR_ASPA_REMOVE \<and> provider_asns (op_record current) \<noteq> [] then None
      else
        let current = set_providers (sort (provider_asns (op_record current))) current;
            cas = customer_asn (op_record current);
            i = length processed in
        do {
          (st, rest, new_array, mem) \<leftarrow> skip_existing cas rest new_array mem;
          if st \<noteq> RTR_ASPA_SUCCESS then
            Some (RTR_ASPA_ERROR, Some i, rest, new_array, replaced, processed @ current # ops, mem)
          else if op_type current = RTR_ASPA_ADD then
            if next_is RTR_ASPA_ADD cas ops then
              Some (RTR_ASPA_DUPLICATE_RECORD, Some (i + 1), rest, new_array, replaced,
                    processed @ set_providers [] current # ops, mem)
            else if next_is RTR_ASPA_REMOVE cas ops then
              if existing_matches cas rest then
                compute_ops (tl ops) (tl rest) new_array replaced
                  (processed @ [mark_no_op current, set_providers (provider_asns (hd rest)) (hd ops)]) mem
              else
                compute_ops (tl ops) rest new_array replaced (processed @ [mark_no_op current, mark_no_op (hd ops)]) mem
            else
              do {
                (st, new_array, mem) \<leftarrow> aspa_array_append new_array (op_record current) True mem;
                if st \<noteq> RTR_ASPA_SUCCESS then
                  Some (RTR_ASPA_ERROR, Some i, rest, new_array, replaced, processed @ current # ops, mem)
                else if existing_matches cas rest then
                  do {
                    (st, replaced, mem) \<leftarrow> aspa_array_append replaced (hd rest) False mem;
                    if st \<noteq> RTR_ASPA_SUCCESS then
                      Some (RTR_ASPA_ERROR, Some i, rest, new_array, replaced, processed @ current # ops, mem)
                    else compute_ops ops rest new_array replaced (processed @ [current]) mem
                  }
                else compute_ops ops rest new_array replaced (processed @ [current]) mem
              }
          else
            if \<not> existing_matches cas rest then
              Some (RTR_ASPA_RECORD_NOT_FOUND, Some i, rest, new_array, replaced, processed @ current # ops, mem)
            else if next_is RTR_ASPA_REMOVE cas ops then
              Some (RTR_ASPA_RECORD_NOT_FOUND, Some (i + 1), rest, new_array, replaced, processed @ current # ops, mem)
            else
              compute_ops ops (tl rest) new_array replaced
                (processed @ [set_providers (provider_asns (hd rest)) current]) mem
        })"

declare compute_ops.simps [simp del]

text \<open>The final loop ignores failing insertions.\<close>

fun append_rest :: "rtr_aspa_record list \<Rightarrow> aspa_array \<Rightarrow> mem \<Rightarrow> (aspa_array \<times> mem) option" where
  "append_rest [] new_array mem = Some (new_array, mem)"
| "append_rest (e # es) new_array mem =
     do { (st, new_array, mem) \<leftarrow> aspa_array_append new_array e False mem; append_rest es new_array mem }"

definition aspa_table_update_compute_internal ::
  "aspa_array \<Rightarrow> aspa_array \<Rightarrow> aspa_update_operation list \<Rightarrow> aspa_array \<Rightarrow> mem
     \<Rightarrow> (rtr_aspa_status \<times> nat option \<times> aspa_array \<times> aspa_array \<times> aspa_update_operation list \<times> mem) option" where
  "aspa_table_update_compute_internal a new_array operations replaced mem =
     (if operations = [] then None
      else
        let (st, new', mem) = aspa_array_reserve (Some new_array) (arr_size a + length operations) mem in
        do {
          new_array \<leftarrow> new';
          (st, failed, rest, new_array, replaced, ops, mem) \<leftarrow>
            compute_ops operations (arr_data a) new_array replaced [] mem;
          if st \<noteq> RTR_ASPA_SUCCESS then Some (st, failed, new_array, replaced, ops, mem)
          else
            let rest = (case (aspa_array_get_record new_array (arr_size new_array - 1), rest) of
                         (Some last_rec, e # es) \<Rightarrow> if customer_asn last_rec = customer_asn e then es else e # es
                       | _ \<Rightarrow> rest) in
            do { (new_array, mem) \<leftarrow> append_rest rest new_array mem;
                 Some (RTR_ASPA_SUCCESS, None, new_array, replaced, ops, mem) }
        })"

text \<open>The part of the computation that makes sure that the socket has a node.\<close>

definition ensure_node :: "rtr_aspa_table \<Rightarrow> socket_id \<Rightarrow> mem \<Rightarrow> rtr_aspa_status \<times> rtr_aspa_table \<times> mem" where
  "ensure_node tbl socket mem =
     (case aspa_store_get_node (aspa_store tbl) socket of
       Some i \<Rightarrow> (RTR_ASPA_SUCCESS, tbl, mem)
     | None \<Rightarrow>
         (case aspa_array_create mem of
           (st, None, mem) \<Rightarrow> (RTR_ASPA_ERROR, tbl, mem)
         | (st, Some a, mem) \<Rightarrow>
             let (st, store, mem) = aspa_store_create_node (aspa_store tbl) socket a mem in
             (st, tbl\<lparr>aspa_store := store\<rparr>, mem)))"

text \<open>The structure behind the update pointer is allocated when the pointer is NULL. On the early
  error returns it keeps \<^verbatim>\<open>node\<close> and \<^verbatim>\<open>new_array\<close> uninitialised and the update lock stays taken.\<close>

definition aspa_table_update_swap_in_compute ::
  "rtr_aspa_table \<Rightarrow> socket_id \<Rightarrow> aspa_update_operation list \<Rightarrow> mem
     \<Rightarrow> (rtr_aspa_status \<times> rtr_aspa_table \<times> aspa_update option \<times> mem) option" where
  "aspa_table_update_swap_in_compute tbl socket operations mem =
     (if operations = [] then Some (RTR_ASPA_SUCCESS, tbl, None, mem)
      else
        let (ok, mem) = rtr_malloc mem in
        if \<not> ok then Some (RTR_ASPA_ERROR, tbl, None, mem)
        else if update_lock tbl then None
        else
          let tbl = tbl\<lparr>update_lock := True\<rparr>;
              operations = sort_key update_operation_key operations;
              update = \<lparr>upd_operations = operations, upd_failed_operation = None, upd_result = None,
                        upd_replaced_records = None\<rparr>;
              (st, tbl, mem) = ensure_node tbl socket mem in
          if st \<noteq> RTR_ASPA_SUCCESS then Some (RTR_ASPA_ERROR, tbl, Some update, mem)
          else do {
            i \<leftarrow> aspa_store_get_node (aspa_store tbl) socket;
            a \<leftarrow> node_array (aspa_store tbl ! i);
            case aspa_array_create mem of
              (st, None, mem) \<Rightarrow> Some (RTR_ASPA_ERROR, tbl, Some update, mem)
            | (st, Some new_array, mem) \<Rightarrow>
                (case aspa_array_create mem of
                  (st, None, mem) \<Rightarrow> Some (RTR_ASPA_ERROR, tbl, Some update, mem)
                | (st, Some replaced, mem) \<Rightarrow>
                    do {
                      (res, failed, new_array, replaced, ops, mem) \<leftarrow>
                        aspa_table_update_compute_internal a new_array operations replaced mem;
                      let update = update\<lparr>upd_operations := ops, upd_failed_operation := failed\<rparr>;
                      if res = RTR_ASPA_SUCCESS then
                        Some (res, tbl,
                              Some (update\<lparr>upd_result := Some (Some (socket, new_array)),
                                           upd_replaced_records := Some replaced\<rparr>), mem)
                      else Some (res, tbl, Some (update\<lparr>upd_result := Some None\<rparr>), mem)
                    })
          })"

section \<open>Applying or discarding an update\<close>

fun notify_operations ::
  "rtr_aspa_table \<Rightarrow> aspa_update_operation list \<Rightarrow> socket_id \<Rightarrow> mem \<Rightarrow> rtr_aspa_table \<times> mem" where
  "notify_operations tbl [] socket mem = (tbl, mem)"
| "notify_operations tbl (op # ops) socket mem =
     (let (tbl, mem) =
        (if \<not> op_is_no_op op then
           let (st, tbl, mem) = aspa_table_notify_clients tbl (op_record op) socket (op_type op) mem in (tbl, mem)
         else (tbl, mem)) in
      notify_operations tbl ops socket mem)"

fun aspa_table_update_swap_in_consume ::
  "rtr_aspa_table \<Rightarrow> aspa_update option \<Rightarrow> bool \<Rightarrow> mem \<Rightarrow> (rtr_aspa_table \<times> mem) option" where
  "aspa_table_update_swap_in_consume tbl None apply_it mem = Some (tbl, mem)"
| "aspa_table_update_swap_in_consume tbl (Some update) apply_it mem =
     (case upd_result update of
       None \<Rightarrow> None
     | Some res \<Rightarrow>
         if apply_it then
           (case res of
             None \<Rightarrow> Some (tbl, mem)
           | Some (socket, new_array) \<Rightarrow>
               if upd_failed_operation update \<noteq> None then Some (tbl, mem)
               else do {
                 i \<leftarrow> aspa_store_get_node (aspa_store tbl) socket;
                 let tbl = tbl\<lparr>aspa_store := (aspa_store tbl)[i := (aspa_store tbl ! i)\<lparr>node_array := Some new_array\<rparr>],
                               update_lock := False\<rparr>;
                 Some (notify_operations tbl (upd_operations update) socket mem)
               })
         else Some (tbl\<lparr>update_lock := False\<rparr>, mem))"

definition aspa_table_update_swap_in_apply ::
  "rtr_aspa_table \<Rightarrow> aspa_update option \<Rightarrow> mem \<Rightarrow> (rtr_aspa_table \<times> mem) option" where
  "aspa_table_update_swap_in_apply tbl update mem = aspa_table_update_swap_in_consume tbl update True mem"

definition aspa_table_update_swap_in_discard ::
  "rtr_aspa_table \<Rightarrow> aspa_update option \<Rightarrow> mem \<Rightarrow> (rtr_aspa_table \<times> mem) option" where
  "aspa_table_update_swap_in_discard tbl update mem = aspa_table_update_swap_in_consume tbl update False mem"

end
