(* ===== verification/Aspa_Verify.thy ===== *)
theory Aspa_Verify
  imports Aspa_Table
begin

text \<open>
  AS path verification, \<^verbatim>\<open>rtrlib/aspa/aspa_verification.c\<close>: the hop check against all sockets' arrays and
  the upstream and downstream verification. The loops run over positions of the path as in the code
  (position 0 is the most recent AS, the last one the origin).

  The specification is the procedure of the ASPA verification draft the code refers to: minimum and
  maximum lengths of the up- and down-ramp. The equivalence is shown in the locale \<open>hop_check\<close>, for
  any check that accepts an AS as its own provider, and interpreted for the table look-up.
\<close>

section \<open>Checking a hop\<close>

datatype aspa_hop_result = ASPA_NO_ATTESTATION | ASPA_NOT_PROVIDER_PLUS | ASPA_PROVIDER_PLUS

text \<open>The loop of \<open>binary_search_asns\<close>; \<open>base\<close> is the offset of the pointer into the array. The
  difference of two ASNs is converted to \<^verbatim>\<open>int\<close>.\<close>

function search_asns_loop :: "u32 \<Rightarrow> u32 list \<Rightarrow> nat \<Rightarrow> nat \<Rightarrow> nat option" where
  "search_asns_loop cas array base len =
     (let mid = len div 2; pivot = base + mid; val = sint (cas - array ! pivot) in
      if val = 0 then Some pivot
      else
        let base = (if val \<ge> 0 then pivot else base); len = len - mid in
        if mid \<noteq> 0 then search_asns_loop cas array base len else None)"
  by pat_completeness auto
termination
  by (relation "measure (\<lambda>(cas, array, base, len). len)") auto

declare search_asns_loop.simps [simp del]

definition binary_search_asns :: "u32 \<Rightarrow> u32 list \<Rightarrow> nat option" where
  "binary_search_asns cas array = (if length array \<noteq> 0 then search_asns_loop cas array 0 (length array) else None)"

text \<open>Every store node has an array (\<open>store_ok\<close> below); a missing one would hold no records.\<close>

fun check_hop_nodes :: "aspa_store_node list \<Rightarrow> u32 \<Rightarrow> u32 \<Rightarrow> bool \<Rightarrow> aspa_hop_result" where
  "check_hop_nodes [] customer provider customer_found =
     (if customer_found then ASPA_NOT_PROVIDER_PLUS else ASPA_NO_ATTESTATION)"
| "check_hop_nodes (n # ns) customer provider customer_found =
     (case Option.bind (node_array n) (\<lambda>a. aspa_array_search a customer) of
       None \<Rightarrow> check_hop_nodes ns customer provider customer_found
     | Some r \<Rightarrow>
         if binary_search_asns provider (provider_asns r) \<noteq> None then ASPA_PROVIDER_PLUS
         else check_hop_nodes ns customer provider True)"

definition aspa_check_hop :: "rtr_aspa_table \<Rightarrow> u32 \<Rightarrow> u32 \<Rightarrow> aspa_hop_result" where
  "aspa_check_hop tbl customer provider =
     (if customer = provider then ASPA_PROVIDER_PLUS
      else check_hop_nodes (aspa_store tbl) customer provider False)"

section \<open>Verifying a path\<close>

datatype rtr_aspa_verification_result = RTR_ASPA_AS_PATH_UNKNOWN | RTR_ASPA_AS_PATH_INVALID | RTR_ASPA_AS_PATH_VALID

datatype rtr_aspa_direction = RTR_ASPA_UPSTREAM | RTR_ASPA_DOWNSTREAM

type_synonym hop_fun = "u32 \<Rightarrow> u32 \<Rightarrow> aspa_hop_result"

text \<open>The loops; \<open>hop\<close> is \<open>aspa_check_hop aspa_table\<close>.\<close>

fun up_ramp_loop :: "hop_fun \<Rightarrow> u32 list \<Rightarrow> nat \<Rightarrow> nat" where
  "up_ramp_loop hop path 0 = 0"
| "up_ramp_loop hop path (Suc r) =
     (if hop (path ! Suc r) (path ! r) = ASPA_PROVIDER_PLUS then up_ramp_loop hop path r else Suc r)"

function down_ramp_loop :: "hop_fun \<Rightarrow> u32 list \<Rightarrow> nat \<Rightarrow> nat \<Rightarrow> nat" where
  "down_ramp_loop hop path r l =
     (if l < r \<and> hop (path ! l) (path ! (l + 1)) = ASPA_PROVIDER_PLUS then down_ramp_loop hop path r (l + 1) else l)"
  by pat_completeness auto
termination
  by (relation "measure (\<lambda>(hop, path, r, l). r - l)") auto

declare down_ramp_loop.simps [simp del]

text \<open>The search for a hop that is not provider, from \<open>rr\<close> down to \<open>low\<close>; it stops at the hop found.\<close>

function np_from_right :: "hop_fun \<Rightarrow> u32 list \<Rightarrow> nat \<Rightarrow> nat \<Rightarrow> bool \<times> nat" where
  "np_from_right hop path low rr =
     (if rr > low then
        if hop (path ! rr) (path ! (rr - 1)) = ASPA_NOT_PROVIDER_PLUS then (True, rr)
        else np_from_right hop path low (rr - 1)
      else (False, rr))"
  by pat_completeness auto
termination
  by (relation "measure (\<lambda>(hop, path, low, rr). rr)") auto

declare np_from_right.simps [simp del]

function np_from_left :: "hop_fun \<Rightarrow> u32 list \<Rightarrow> nat \<Rightarrow> nat \<Rightarrow> bool" where
  "np_from_left hop path rr ll =
     (if ll + 1 < rr then
        if hop (path ! ll) (path ! (ll + 1)) = ASPA_NOT_PROVIDER_PLUS then True
        else np_from_left hop path rr (ll + 1)
      else False)"
  by pat_completeness auto
termination
  by (relation "measure (\<lambda>(hop, path, rr, ll). rr - ll)") auto

declare np_from_left.simps [simp del]

definition verify_upstream :: "hop_fun \<Rightarrow> u32 list \<Rightarrow> rtr_aspa_verification_result" where
  "verify_upstream hop path =
     (if length path \<le> 1 then RTR_ASPA_AS_PATH_VALID
      else
        let r = up_ramp_loop hop path (length path - 1) in
        if r = 0 then RTR_ASPA_AS_PATH_VALID
        else
          let last_hop_right = hop (path ! r) (path ! (r - 1));
              found_nP_from_right =
                (if last_hop_right = ASPA_NOT_PROVIDER_PLUS then True else fst (np_from_right hop path 0 r)) in
          if found_nP_from_right then RTR_ASPA_AS_PATH_INVALID else RTR_ASPA_AS_PATH_UNKNOWN)"

definition verify_downstream :: "hop_fun \<Rightarrow> u32 list \<Rightarrow> rtr_aspa_verification_result" where
  "verify_downstream hop path =
     (if length path \<le> 2 then RTR_ASPA_AS_PATH_VALID
      else
        let r = up_ramp_loop hop path (length path - 1);
            l = down_ramp_loop hop path r 0 in
        if r - l \<le> 1 then RTR_ASPA_AS_PATH_VALID
        else
          let last_hop_right = hop (path ! r) (path ! (r - 1));
              (found_nP_from_right, rr) =
                (if last_hop_right = ASPA_NOT_PROVIDER_PLUS then (True, r) else np_from_right hop path (l + 1) r);
              last_hop_left = hop (path ! l) (path ! (l + 1));
              found_nP_from_left =
                (if found_nP_from_right then
                   (if last_hop_left = ASPA_NOT_PROVIDER_PLUS then True else np_from_left hop path rr (l + 1))
                 else False) in
          if found_nP_from_right \<and> found_nP_from_left then RTR_ASPA_AS_PATH_INVALID
          else RTR_ASPA_AS_PATH_UNKNOWN)"

fun aspa_verify_as_path_upstream :: "rtr_aspa_table option \<Rightarrow> u32 list \<Rightarrow> rtr_aspa_verification_result" where
  "aspa_verify_as_path_upstream None path = RTR_ASPA_AS_PATH_INVALID"
| "aspa_verify_as_path_upstream (Some tbl) path = verify_upstream (aspa_check_hop tbl) path"

fun aspa_verify_as_path_downstream :: "rtr_aspa_table option \<Rightarrow> u32 list \<Rightarrow> rtr_aspa_verification_result" where
  "aspa_verify_as_path_downstream None path = RTR_ASPA_AS_PATH_INVALID"
| "aspa_verify_as_path_downstream (Some tbl) path = verify_downstream (aspa_check_hop tbl) path"

definition rtr_aspa_verify_as_path ::
  "rtr_aspa_table option \<Rightarrow> u32 list \<Rightarrow> rtr_aspa_direction \<Rightarrow> rtr_aspa_verification_result" where
  "rtr_aspa_verify_as_path tbl path direction =
     (case direction of
       RTR_ASPA_UPSTREAM \<Rightarrow> aspa_verify_as_path_upstream tbl path
     | RTR_ASPA_DOWNSTREAM \<Rightarrow> aspa_verify_as_path_downstream tbl path)"

section \<open>The verification procedure of the draft\<close>

text \<open>The length of a ramp from the head of the list on: the number of ASes up to the first hop that
  is not acceptable.\<close>

fun ramp :: "(u32 \<Rightarrow> u32 \<Rightarrow> bool) \<Rightarrow> u32 list \<Rightarrow> nat" where
  "ramp ok [] = 0"
| "ramp ok [a] = 1"
| "ramp ok (a # b # as) = (if ok a b then Suc (ramp ok (b # as)) else 1)"

definition min_ramp :: "hop_fun \<Rightarrow> u32 list \<Rightarrow> nat" where
  "min_ramp hop = ramp (\<lambda>a b. hop a b = ASPA_PROVIDER_PLUS)"

definition max_ramp :: "hop_fun \<Rightarrow> u32 list \<Rightarrow> nat" where
  "max_ramp hop = ramp (\<lambda>a b. hop a b \<noteq> ASPA_NOT_PROVIDER_PLUS)"

definition draft_upstream :: "hop_fun \<Rightarrow> u32 list \<Rightarrow> rtr_aspa_verification_result" where
  "draft_upstream hop path =
     (if max_ramp hop (rev path) < length path then RTR_ASPA_AS_PATH_INVALID
      else if min_ramp hop (rev path) < length path then RTR_ASPA_AS_PATH_UNKNOWN
      else RTR_ASPA_AS_PATH_VALID)"

definition draft_downstream :: "hop_fun \<Rightarrow> u32 list \<Rightarrow> rtr_aspa_verification_result" where
  "draft_downstream hop path =
     (if max_ramp hop (rev path) + max_ramp hop path < length path then RTR_ASPA_AS_PATH_INVALID
      else if min_ramp hop (rev path) + min_ramp hop path < length path then RTR_ASPA_AS_PATH_UNKNOWN
      else RTR_ASPA_AS_PATH_VALID)"

section \<open>Ramps\<close>

lemma ramp_less_iff:
  "k \<le> length xs \<Longrightarrow> ramp ok xs < k \<longleftrightarrow> (\<exists>i. Suc i < k \<and> \<not> ok (xs ! i) (xs ! Suc i))"
proof (induction ok xs arbitrary: k rule: ramp.induct)
  case (3 ok a b as)
  show ?case
  proof (cases k)
    case (Suc m)
    show ?thesis
    proof (cases "ok a b")
      case True
      have "(\<exists>i. Suc i < k \<and> \<not> ok ((a # b # as) ! i) ((a # b # as) ! Suc i)) \<longleftrightarrow>
          (\<exists>i. Suc i < m \<and> \<not> ok ((b # as) ! i) ((b # as) ! Suc i))" (is "?L \<longleftrightarrow> ?R")
      proof
        assume ?L
        then obtain i where i: "Suc i < k" "\<not> ok ((a # b # as) ! i) ((a # b # as) ! Suc i)" by blast
        then show ?R using True Suc by (cases i) auto
      next
        assume ?R
        then obtain i where "Suc i < m" "\<not> ok ((b # as) ! i) ((b # as) ! Suc i)" by blast
        then show ?L using Suc by (intro exI [of _ "Suc i"]) simp
      qed
      then show ?thesis using 3 True Suc by simp
    next
      case False
      then show ?thesis using Suc by auto
    qed
  qed simp
qed auto

text \<open>The positions of unacceptable hops in the two directions, and what it means that the ramps do
  not meet.\<close>

lemma ramp_rev_less_iff:
  assumes "k \<le> length xs"
  shows "ramp ok (rev xs) < k \<longleftrightarrow> (\<exists>j<length xs. length xs < j + k \<and> 0 < j \<and> \<not> ok (xs ! j) (xs ! (j - 1)))"
proof -
  have "(\<exists>i. Suc i < k \<and> \<not> ok (rev xs ! i) (rev xs ! Suc i)) \<longleftrightarrow>
      (\<exists>j<length xs. length xs < j + k \<and> 0 < j \<and> \<not> ok (xs ! j) (xs ! (j - 1)))" (is "?L \<longleftrightarrow> ?R")
  proof
    assume ?L
    then obtain i where i: "Suc i < k" "\<not> ok (rev xs ! i) (rev xs ! Suc i)" by blast
    then have "\<not> ok (xs ! (length xs - Suc i)) (xs ! (length xs - Suc i - 1))"
      using assms by (simp add: rev_nth)
    then show ?R using i assms by (intro exI [of _ "length xs - Suc i"]) auto
  next
    assume ?R
    then obtain j where j: "j < length xs" "length xs < j + k" "0 < j" "\<not> ok (xs ! j) (xs ! (j - 1))" by blast
    define i where "i = length xs - Suc j"
    have "length xs - Suc i = j" "length xs - Suc (Suc i) = j - 1" "Suc i < length xs" "Suc i < k"
      using j(1-3) by (auto simp: i_def)
    then have "rev xs ! i = xs ! j" "rev xs ! Suc i = xs ! (j - 1)" "Suc i < k" by (simp_all add: rev_nth)
    then show ?L using j(4) by metis
  qed
  then show ?thesis using ramp_less_iff [of k "rev xs" ok] assms by simp
qed

lemma ramps_apart_iff:
  "ramp ok (rev xs) + ramp ok xs < length xs \<longleftrightarrow>
     (\<exists>i j. i + 1 < j \<and> j < length xs \<and> \<not> ok (xs ! i) (xs ! (i + 1)) \<and> \<not> ok (xs ! j) (xs ! (j - 1)))"
  (is "?L \<longleftrightarrow> ?R")
proof
  assume ?L
  then have k: "Suc (ramp ok xs) \<le> length xs" "Suc (ramp ok (rev xs)) \<le> length xs" by auto
  obtain i where i: "Suc i < Suc (ramp ok xs)" "\<not> ok (xs ! i) (xs ! Suc i)"
    using ramp_less_iff [OF k(1), of ok] by auto
  obtain j where "j < length xs" "length xs < j + Suc (ramp ok (rev xs))" "\<not> ok (xs ! j) (xs ! (j - 1))"
    using ramp_rev_less_iff [OF k(2), of ok] by auto
  then show ?R using i \<open>?L\<close> by (intro exI [of _ i] exI [of _ j]) auto
next
  assume ?R
  then obtain i j where ij: "i + 1 < j" "j < length xs" "\<not> ok (xs ! i) (xs ! (i + 1))" "\<not> ok (xs ! j) (xs ! (j - 1))"
    by blast
  have "ramp ok xs < i + 2" using ij by (subst ramp_less_iff) auto
  moreover have "ramp ok (rev xs) < length xs - j + 1" using ij by (subst ramp_rev_less_iff) auto
  ultimately show ?L using ij(1,2) by linarith
qed

section \<open>The loops\<close>

lemma up_ramp_loop_spec:
  "up_ramp_loop hop path n \<le> n \<and>
   (\<forall>j. up_ramp_loop hop path n < j \<and> j \<le> n \<longrightarrow> hop (path ! j) (path ! (j - 1)) = ASPA_PROVIDER_PLUS) \<and>
   (0 < up_ramp_loop hop path n \<longrightarrow>
      hop (path ! up_ramp_loop hop path n) (path ! (up_ramp_loop hop path n - 1)) \<noteq> ASPA_PROVIDER_PLUS)"
  by (induction n) (auto simp: le_Suc_eq)

lemma down_ramp_loop_spec:
  assumes "l \<le> r"
  shows "l \<le> down_ramp_loop hop path r l \<and> down_ramp_loop hop path r l \<le> r \<and>
   (\<forall>i. l \<le> i \<and> i < down_ramp_loop hop path r l \<longrightarrow> hop (path ! i) (path ! (i + 1)) = ASPA_PROVIDER_PLUS) \<and>
   (down_ramp_loop hop path r l < r \<longrightarrow>
      hop (path ! down_ramp_loop hop path r l) (path ! (down_ramp_loop hop path r l + 1)) \<noteq> ASPA_PROVIDER_PLUS)"
  using assms
proof (induction hop path r l rule: down_ramp_loop.induct)
  case (1 hop path r l)
  show ?case
  proof (cases "l < r \<and> hop (path ! l) (path ! (l + 1)) = ASPA_PROVIDER_PLUS")
    case True
    then have eq: "down_ramp_loop hop path r l = down_ramp_loop hop path r (l + 1)"
      unfolding down_ramp_loop.simps [of hop path r l] by (rule if_P)
    have "hop (path ! i) (path ! (i + 1)) = ASPA_PROVIDER_PLUS"
      if "l \<le> i" "i < down_ramp_loop hop path r (l + 1)" for i
      using "1.IH" [OF True] True that by (cases "i = l") auto
    then show ?thesis using "1.IH" [OF True] True unfolding eq by auto
  next
    case False
    then have eq: "down_ramp_loop hop path r l = l" unfolding down_ramp_loop.simps [of hop path r l] by (rule if_not_P)
    show ?thesis unfolding eq using False "1.prems" by auto
  qed
qed

lemma np_from_right_spec:
  assumes "np_from_right hop path low rr = (f, k)"
  shows "f \<longleftrightarrow> (\<exists>j. low < j \<and> j \<le> rr \<and> hop (path ! j) (path ! (j - 1)) = ASPA_NOT_PROVIDER_PLUS)"
    and "f \<Longrightarrow> low < k \<and> k \<le> rr \<and> hop (path ! k) (path ! (k - 1)) = ASPA_NOT_PROVIDER_PLUS \<and>
      (\<forall>j. k < j \<and> j \<le> rr \<longrightarrow> hop (path ! j) (path ! (j - 1)) \<noteq> ASPA_NOT_PROVIDER_PLUS)"
  using assms
proof (induction hop path low rr rule: np_from_right.induct)
  case (1 hop path low rr)
  note unfold = np_from_right.simps [of hop path low rr]
  {
    case 1
    show ?case
    proof (cases "rr > low \<and> hop (path ! rr) (path ! (rr - 1)) \<noteq> ASPA_NOT_PROVIDER_PLUS")
      case True
      have "(\<exists>j. low < j \<and> j \<le> rr \<and> hop (path ! j) (path ! (j - 1)) = ASPA_NOT_PROVIDER_PLUS) \<longleftrightarrow>
          (\<exists>j. low < j \<and> j \<le> rr - 1 \<and> hop (path ! j) (path ! (j - 1)) = ASPA_NOT_PROVIDER_PLUS)"
        using True by (metis Suc_pred' le_SucE le_SucI less_nat_zero_code not_gr_zero order_less_le_trans)
      then show ?thesis using "1.IH"(1) True "1.prems" unfold by auto
    next
      case False
      then show ?thesis using "1.prems" unfold by (auto split: if_splits)
    qed
  next
    case 2
    show ?case
    proof (cases "rr > low \<and> hop (path ! rr) (path ! (rr - 1)) \<noteq> ASPA_NOT_PROVIDER_PLUS")
      case True
      then have "low < k \<and> k \<le> rr - 1 \<and> hop (path ! k) (path ! (k - 1)) = ASPA_NOT_PROVIDER_PLUS \<and>
          (\<forall>j. k < j \<and> j \<le> rr - 1 \<longrightarrow> hop (path ! j) (path ! (j - 1)) \<noteq> ASPA_NOT_PROVIDER_PLUS)"
        using "1.IH"(2) 2 unfold by auto
      then show ?thesis using True by (metis Suc_pred' diff_le_self le_SucE le_trans less_nat_zero_code not_gr_zero)
    next
      case False
      then show ?thesis using 2 unfold by (auto split: if_splits)
    qed
  }
qed

lemma np_from_left_iff:
  "np_from_left hop path rr ll \<longleftrightarrow> (\<exists>i. ll \<le> i \<and> i + 1 < rr \<and> hop (path ! i) (path ! (i + 1)) = ASPA_NOT_PROVIDER_PLUS)"
proof (induction hop path rr ll rule: np_from_left.induct)
  case (1 hop path rr ll)
  note unfold = np_from_left.simps [of hop path rr ll]
  show ?case
  proof (cases "ll + 1 < rr \<and> hop (path ! ll) (path ! (ll + 1)) \<noteq> ASPA_NOT_PROVIDER_PLUS")
    case True
    then have "(\<exists>i. ll \<le> i \<and> i + 1 < rr \<and> hop (path ! i) (path ! (i + 1)) = ASPA_NOT_PROVIDER_PLUS) \<longleftrightarrow>
        (\<exists>i. ll + 1 \<le> i \<and> i + 1 < rr \<and> hop (path ! i) (path ! (i + 1)) = ASPA_NOT_PROVIDER_PLUS)"
      by (metis Suc_eq_plus1 Suc_leD le_antisym not_less_eq_eq)
    then show ?thesis using 1 True unfold by auto
  next
    case False
    then show ?thesis using unfold by auto
  qed
qed

section \<open>The code follows the draft\<close>

definition npp :: "hop_fun \<Rightarrow> u32 list \<Rightarrow> nat \<Rightarrow> bool" where
  "npp hop path j = (hop (path ! j) (path ! (j - 1)) = ASPA_NOT_PROVIDER_PLUS)"

definition npn :: "hop_fun \<Rightarrow> u32 list \<Rightarrow> nat \<Rightarrow> bool" where
  "npn hop path i = (hop (path ! i) (path ! (i + 1)) = ASPA_NOT_PROVIDER_PLUS)"

lemma min_ramp_up:
  assumes "path \<noteq> []" "r = up_ramp_loop hop path (length path - 1)"
  shows "min_ramp hop (rev path) < length path \<longleftrightarrow> 0 < r"
proof -
  have "min_ramp hop (rev path) < length path \<longleftrightarrow>
      (\<exists>j<length path. 0 < j \<and> hop (path ! j) (path ! (j - 1)) \<noteq> ASPA_PROVIDER_PLUS)"
    unfolding min_ramp_def using ramp_rev_less_iff [of "length path" path] by auto
  also have "\<dots> \<longleftrightarrow> 0 < r"
  proof
    assume "\<exists>j<length path. 0 < j \<and> hop (path ! j) (path ! (j - 1)) \<noteq> ASPA_PROVIDER_PLUS"
    then obtain j where j: "j < length path" "0 < j" "hop (path ! j) (path ! (j - 1)) \<noteq> ASPA_PROVIDER_PLUS" by blast
    then have "\<not> (r < j \<and> j \<le> length path - 1)"
      using up_ramp_loop_spec [of hop path "length path - 1"] assms(2) by blast
    then show "0 < r" using j(1,2) by auto
  next
    assume "0 < r"
    then show "\<exists>j<length path. 0 < j \<and> hop (path ! j) (path ! (j - 1)) \<noteq> ASPA_PROVIDER_PLUS"
      using up_ramp_loop_spec [of hop path "length path - 1"] assms
      by (intro exI [of _ r]) (auto simp: less_le_trans)
  qed
  finally show ?thesis .
qed

theorem verify_upstream_draft: "verify_upstream hop path = draft_upstream hop path"
proof (cases "length path \<le> 1")
  case True
  then have "path = [] \<or> (\<exists>a. path = [a])" by (cases path) auto
  then show ?thesis by (auto simp: verify_upstream_def draft_upstream_def max_ramp_def min_ramp_def)
next
  case False
  define r where "r = up_ramp_loop hop path (length path - 1)"
  note spec = up_ramp_loop_spec [of hop path "length path - 1", folded r_def]
  have mx: "max_ramp hop (rev path) < length path \<longleftrightarrow> (\<exists>j<length path. 0 < j \<and> npp hop path j)"
    unfolding max_ramp_def npp_def using ramp_rev_less_iff [of "length path" path] by auto
  have mn: "min_ramp hop (rev path) < length path \<longleftrightarrow> 0 < r"
    by (rule min_ramp_up [OF _ r_def]) (use False in auto)
  have beyond: "\<not> npp hop path j" if "r < j" "j < length path" for j
    using spec that by (auto simp: npp_def)
  obtain f k where np: "np_from_right hop path 0 r = (f, k)" by force
  have f: "f \<longleftrightarrow> (\<exists>j. 0 < j \<and> j \<le> r \<and> npp hop path j)"
    unfolding npp_def by (rule np_from_right_spec(1) [OF np])
  show ?thesis
  proof (cases "r = 0")
    case True
    then have "verify_upstream hop path = RTR_ASPA_AS_PATH_VALID"
      unfolding verify_upstream_def r_def [symmetric] using False by simp
    moreover have "\<not> (\<exists>j<length path. 0 < j \<and> npp hop path j)" using beyond True by auto
    ultimately show ?thesis using mx mn True by (simp add: draft_upstream_def)
  next
    case r: False
    have "r < length path" using spec False by (auto simp: less_le_trans)
    have last: "npp hop path r \<Longrightarrow> f" using f r by blast
    have "(\<exists>j<length path. 0 < j \<and> npp hop path j) \<longleftrightarrow> f"
      using f beyond \<open>r < length path\<close> by (metis le_less_trans not_le)
    moreover have "verify_upstream hop path = (if f then RTR_ASPA_AS_PATH_INVALID else RTR_ASPA_AS_PATH_UNKNOWN)"
      unfolding verify_upstream_def r_def [symmetric] using False r np last by (auto simp: npp_def)
    ultimately show ?thesis using mx mn r by (simp add: draft_upstream_def)
  qed
qed

lemma min_ramps_apart:
  assumes "path \<noteq> []" "r = up_ramp_loop hop path (length path - 1)" "l = down_ramp_loop hop path r 0"
  shows "min_ramp hop (rev path) + min_ramp hop path < length path \<longleftrightarrow> 1 < r - l"
proof -
  note up = up_ramp_loop_spec [of hop path "length path - 1", folded assms(2)]
  note down = down_ramp_loop_spec [of 0 r hop path, simplified, folded assms(3)]
  have "min_ramp hop (rev path) + min_ramp hop path < length path \<longleftrightarrow>
     (\<exists>i j. i + 1 < j \<and> j < length path \<and> hop (path ! i) (path ! (i + 1)) \<noteq> ASPA_PROVIDER_PLUS \<and>
        hop (path ! j) (path ! (j - 1)) \<noteq> ASPA_PROVIDER_PLUS)" (is "_ \<longleftrightarrow> ?R")
    unfolding min_ramp_def by (rule ramps_apart_iff)
  also have "?R \<longleftrightarrow> 1 < r - l"
  proof
    assume ?R
    then obtain i j where ij: "i + 1 < j" "j < length path" "hop (path ! i) (path ! (i + 1)) \<noteq> ASPA_PROVIDER_PLUS"
      "hop (path ! j) (path ! (j - 1)) \<noteq> ASPA_PROVIDER_PLUS" by blast
    have "\<not> (r < j \<and> j \<le> length path - 1)" using up ij(4) by blast
    then have "j \<le> r" using ij(2) by auto
    moreover have "\<not> i < l" using down ij(3) by auto
    ultimately show "1 < r - l" using ij(1) by linarith
  next
    assume "1 < r - l"
    moreover have "r < length path" using up assms(1) by (auto simp: le_less_trans)
    ultimately show ?R using up down by (intro exI [of _ l] exI [of _ r]) auto
  qed
  finally show ?thesis .
qed

lemma max_ramps_apart:
  "max_ramp hop (rev path) + max_ramp hop path < length path \<longleftrightarrow>
     (\<exists>i j. i + 1 < j \<and> j < length path \<and> npn hop path i \<and> npp hop path j)"
  unfolding max_ramp_def npn_def npp_def ramps_apart_iff by blast

text \<open>In the gap between the ramps the code looks for the rightmost hop that is not provider and then
  for one to its left.\<close>

lemma gap_search:
  assumes "r < length path" "1 < r - l" "\<forall>i<l. \<not> npn hop path i" "\<forall>j. r < j \<and> j < length path \<longrightarrow> \<not> npp hop path j"
    and right: "(if npp hop path r then (True, r) else np_from_right hop path (l + 1) r) = (fr, rr)"
    and left: "fl \<longleftrightarrow> fr \<and> (if npn hop path l then True else np_from_left hop path rr (l + 1))"
  shows "fr \<and> fl \<longleftrightarrow> (\<exists>i j. i + 1 < j \<and> j < length path \<and> npn hop path i \<and> npp hop path j)"
proof -
  have rr: "(fr \<longleftrightarrow> (\<exists>j. l + 1 < j \<and> j \<le> r \<and> npp hop path j)) \<and>
    (fr \<longrightarrow> l + 1 < rr \<and> rr \<le> r \<and> npp hop path rr \<and> (\<forall>j. rr < j \<and> j \<le> r \<longrightarrow> \<not> npp hop path j))"
  proof (cases "npp hop path r")
    case True
    then have "fr" "rr = r" "l + 1 < r" using right assms(2) by auto
    then show ?thesis using True by auto
  next
    case False
    then have "np_from_right hop path (l + 1) r = (fr, rr)" using right by simp
    from np_from_right_spec [OF this] show ?thesis unfolding npp_def by blast
  qed
  have ll: "fl \<longleftrightarrow> fr \<and> (\<exists>i. l \<le> i \<and> i + 1 < rr \<and> npn hop path i)"
  proof (cases "npn hop path l")
    case True
    then show ?thesis using left rr by auto
  next
    case False
    then have "(\<exists>i. l \<le> i \<and> i + 1 < rr \<and> npn hop path i) \<longleftrightarrow> (\<exists>i. l + 1 \<le> i \<and> i + 1 < rr \<and> npn hop path i)"
      by (metis Suc_eq_plus1 Suc_leD le_antisym not_less_eq_eq)
    then show ?thesis using left False np_from_left_iff [of hop path rr "l + 1"] by (simp add: npn_def)
  qed
  show ?thesis
  proof
    assume "fr \<and> fl"
    then show "\<exists>i j. i + 1 < j \<and> j < length path \<and> npn hop path i \<and> npp hop path j"
      using rr ll assms(1) by (meson le_less_trans)
  next
    assume "\<exists>i j. i + 1 < j \<and> j < length path \<and> npn hop path i \<and> npp hop path j"
    then obtain i j where ij: "i + 1 < j" "j < length path" "npn hop path i" "npp hop path j" by blast
    have "j \<le> r" using assms(4) ij by (meson not_le)
    moreover have "l \<le> i" using assms(3) ij(3) by (meson not_le)
    ultimately have fr: "fr" using rr ij by (metis add_le_mono1 le_less_trans)
    then have "j \<le> rr" using rr ij(4) \<open>j \<le> r\<close> by (meson not_le)
    then show "fr \<and> fl" using fr ll ij(1,3) \<open>l \<le> i\<close> by (meson less_le_trans)
  qed
qed

theorem verify_downstream_draft: "verify_downstream hop path = draft_downstream hop path"
proof (cases "length path \<le> 2")
  case True
  then have "path = [] \<or> (\<exists>a. path = [a]) \<or> (\<exists>a b. path = [a, b])"
    by (cases path; cases "tl path") auto
  then show ?thesis by (auto simp: verify_downstream_def draft_downstream_def max_ramp_def min_ramp_def split: if_splits)
next
  case False
  define r where "r = up_ramp_loop hop path (length path - 1)"
  define l where "l = down_ramp_loop hop path r 0"
  note up = up_ramp_loop_spec [of hop path "length path - 1", folded r_def]
  note down = down_ramp_loop_spec [of 0 r hop path, simplified, folded l_def]
  have ne: "path \<noteq> []" using False by auto
  have apart: "min_ramp hop (rev path) + min_ramp hop path < length path \<longleftrightarrow> 1 < r - l"
    by (rule min_ramps_apart [OF ne r_def l_def])
  have r: "r < length path" using up ne by (auto simp: le_less_trans)
  obtain fr rr where right: "(if npp hop path r then (True, r) else np_from_right hop path (l + 1) r) = (fr, rr)" by force
  define fl where "fl = (fr \<and> (if npn hop path l then True else np_from_left hop path rr (l + 1)))"
  have code: "verify_downstream hop path =
      (if r - l \<le> 1 then RTR_ASPA_AS_PATH_VALID
       else if fr \<and> fl then RTR_ASPA_AS_PATH_INVALID else RTR_ASPA_AS_PATH_UNKNOWN)"
    unfolding verify_downstream_def Let_def r_def [symmetric] l_def [symmetric] right [unfolded npp_def] fl_def npn_def
    using False by simp
  have nn: "\<forall>i<l. \<not> npn hop path i" using down by (auto simp: npn_def)
  have pp: "\<forall>j. r < j \<and> j < length path \<longrightarrow> \<not> npp hop path j"
    using up by (auto simp: npp_def)
  show ?thesis
  proof (cases "1 < r - l")
    case True
    then show ?thesis using code apart gap_search [OF r True nn pp right fl_def]
      by (auto simp: draft_downstream_def max_ramps_apart)
  next
    case False
    have "\<not> (\<exists>i j. i + 1 < j \<and> j < length path \<and> npn hop path i \<and> npp hop path j)"
    proof
      assume "\<exists>i j. i + 1 < j \<and> j < length path \<and> npn hop path i \<and> npp hop path j"
      then obtain i j where ij: "i + 1 < j" "j < length path" "npn hop path i" "npp hop path j" by blast
      have "j \<le> r" "l \<le> i" using nn pp ij by (meson not_le)+
      then show False using False ij(1) by linarith
    qed
    then show ?thesis using code apart False by (auto simp: draft_downstream_def max_ramps_apart)
  qed
qed

section \<open>Repeated ASes\<close>

text \<open>A hop between equal ASes is acceptable in both directions, so prepending does not change the
  verdict. The argument is about pairs of hops in the list of hops.\<close>

fun has_pair :: "('a \<Rightarrow> bool) \<Rightarrow> ('a \<Rightarrow> bool) \<Rightarrow> 'a list \<Rightarrow> bool" where
  "has_pair P Q [] = False"
| "has_pair P Q (x # xs) = ((P x \<and> (\<exists>y\<in>set xs. Q y)) \<or> has_pair P Q xs)"

lemma has_pair_iff: "has_pair P Q xs \<longleftrightarrow> (\<exists>i j. i < j \<and> j < length xs \<and> P (xs ! i) \<and> Q (xs ! j))"
proof (induction xs)
  case (Cons x xs)
  show ?case
  proof
    assume "has_pair P Q (x # xs)"
    then consider y where "P x" "y \<in> set xs" "Q y" | "has_pair P Q xs" by auto
    then show "\<exists>i j. i < j \<and> j < length (x # xs) \<and> P ((x # xs) ! i) \<and> Q ((x # xs) ! j)"
    proof cases
      case 1
      then obtain k where "k < length xs" "xs ! k = y" by (auto simp: in_set_conv_nth)
      with 1 show ?thesis by (intro exI [of _ 0] exI [of _ "Suc k"]) simp
    next
      case 2
      then obtain i j where "i < j" "j < length xs" "P (xs ! i)" "Q (xs ! j)" using Cons.IH by blast
      then show ?thesis by (intro exI [of _ "Suc i"] exI [of _ "Suc j"]) simp
    qed
  next
    assume "\<exists>i j. i < j \<and> j < length (x # xs) \<and> P ((x # xs) ! i) \<and> Q ((x # xs) ! j)"
    then obtain i j where ij: "i < j" "j < length (x # xs)" "P ((x # xs) ! i)" "Q ((x # xs) ! j)" by blast
    then obtain m where m: "j = Suc m" by (cases j) auto
    show "has_pair P Q (x # xs)"
    proof (cases i)
      case 0
      then show ?thesis using ij m by auto
    next
      case (Suc n)
      then have "n < m" "m < length xs" "P (xs ! n)" "Q (xs ! m)" using ij m by auto
      then show ?thesis using Cons.IH by auto
    qed
  qed
qed simp

lemma has_pair_filter:
  "(\<And>x. P x \<Longrightarrow> R x) \<Longrightarrow> (\<And>x. Q x \<Longrightarrow> R x) \<Longrightarrow> has_pair P Q (filter R xs) = has_pair P Q xs"
  by (induction xs) auto

definition hops :: "u32 list \<Rightarrow> (u32 \<times> u32) list" where
  "hops path = zip path (tl path)"

lemma hops_nth: "i < length path - 1 \<Longrightarrow> hops path ! i = (path ! i, path ! (i + 1))"
  by (simp add: hops_def nth_tl)

lemma hops_length: "length (hops path) = length path - 1"
  by (simp add: hops_def)

lemma hops_remdups: "hops (remdups_adj path) = filter (\<lambda>(a, b). a \<noteq> b) (hops path)"
proof (induction path rule: remdups_adj.induct)
  case (3 x y xs)
  show ?case
  proof (cases "x = y")
    case True
    then show ?thesis using 3 by (simp add: hops_def)
  next
    case False
    obtain zs where "remdups_adj (y # xs) = y # zs" by (cases "remdups_adj (y # xs)") (auto dest: arg_cong [of _ _ hd])
    then show ?thesis using 3 False by (simp add: hops_def)
  qed
qed (auto simp: hops_def)

lemma ramps_apart_hops:
  "ramp ok (rev path) + ramp ok path < length path \<longleftrightarrow>
     has_pair (\<lambda>(a, b). \<not> ok a b) (\<lambda>(a, b). \<not> ok b a) (hops path)"
proof -
  have "(\<exists>i j. i + 1 < j \<and> j < length path \<and> \<not> ok (path ! i) (path ! (i + 1)) \<and> \<not> ok (path ! j) (path ! (j - 1))) \<longleftrightarrow>
    (\<exists>i k. i < k \<and> k < length path - 1 \<and> \<not> ok (path ! i) (path ! (i + 1)) \<and> \<not> ok (path ! (k + 1)) (path ! k))"
    (is "?L \<longleftrightarrow> ?R")
  proof
    assume ?L
    then obtain i j where "i + 1 < j" "j < length path" "\<not> ok (path ! i) (path ! (i + 1))" "\<not> ok (path ! j) (path ! (j - 1))" by blast
    then show ?R by (intro exI [of _ i] exI [of _ "j - 1"]) auto
  next
    assume ?R
    then obtain i k where "i < k" "k < length path - 1" "\<not> ok (path ! i) (path ! (i + 1))" "\<not> ok (path ! (k + 1)) (path ! k)" by blast
    then show ?L by (intro exI [of _ i] exI [of _ "k + 1"]) auto
  qed
  also have "\<dots> \<longleftrightarrow> has_pair (\<lambda>(a, b). \<not> ok a b) (\<lambda>(a, b). \<not> ok b a) (hops path)"
    unfolding has_pair_iff by (intro iff_exI) (auto simp: hops_nth hops_length)
  finally show ?thesis unfolding ramps_apart_iff .
qed

lemma ramp_short_hops:
  "ramp ok (rev path) < length path \<longleftrightarrow> (\<exists>(a, b)\<in>set (hops path). \<not> ok b a)"
proof -
  have "(\<exists>j<length path. 0 < j \<and> \<not> ok (path ! j) (path ! (j - 1))) \<longleftrightarrow>
      (\<exists>k<length path - 1. \<not> ok (path ! (k + 1)) (path ! k))" (is "?L \<longleftrightarrow> ?R")
  proof
    assume ?L
    then obtain j where "j < length path" "0 < j" "\<not> ok (path ! j) (path ! (j - 1))" by blast
    then show ?R by (intro exI [of _ "j - 1"]) auto
  next
    assume ?R
    then obtain k where "k < length path - 1" "\<not> ok (path ! (k + 1)) (path ! k)" by blast
    then show ?L by (intro exI [of _ "k + 1"]) auto
  qed
  also have "\<dots> \<longleftrightarrow> (\<exists>(a, b)\<in>set (hops path). \<not> ok b a)"
    unfolding hops_length [symmetric]
  proof
    assume "\<exists>k<length (hops path). \<not> ok (path ! (k + 1)) (path ! k)"
    then obtain k where "k < length (hops path)" "\<not> ok (path ! (k + 1)) (path ! k)" by blast
    then show "\<exists>(a, b)\<in>set (hops path). \<not> ok b a"
      using nth_mem [of k "hops path"] hops_nth [of k path] by (auto simp: hops_length)
  next
    assume "\<exists>(a, b)\<in>set (hops path). \<not> ok b a"
    then show "\<exists>k<length (hops path). \<not> ok (path ! (k + 1)) (path ! k)"
      by (auto simp: in_set_conv_nth hops_length hops_nth) blast
  qed
  finally show ?thesis using ramp_rev_less_iff [of "length path" path ok] by auto
qed

locale hop_check =
  fixes hop :: hop_fun
  assumes own_provider: "hop a a = ASPA_PROVIDER_PLUS"
begin

lemma ramps_apart_remdups:
  assumes "ok = (\<lambda>a b. hop a b = ASPA_PROVIDER_PLUS) \<or> ok = (\<lambda>a b. hop a b \<noteq> ASPA_NOT_PROVIDER_PLUS)"
  shows "ramp ok (rev (remdups_adj path)) + ramp ok (remdups_adj path) < length (remdups_adj path) \<longleftrightarrow>
    ramp ok (rev path) + ramp ok path < length path"
proof -
  have "ok a a" for a using assms own_provider by auto
  then show ?thesis unfolding ramps_apart_hops hops_remdups
    by (intro has_pair_filter) auto
qed

lemma ramp_short_remdups:
  assumes "ok = (\<lambda>a b. hop a b = ASPA_PROVIDER_PLUS) \<or> ok = (\<lambda>a b. hop a b \<noteq> ASPA_NOT_PROVIDER_PLUS)"
  shows "ramp ok (rev (remdups_adj path)) < length (remdups_adj path) \<longleftrightarrow> ramp ok (rev path) < length path"
proof -
  have "ok a a" for a using assms own_provider by auto
  then show ?thesis unfolding ramp_short_hops hops_remdups by fastforce
qed

lemma verify_downstream_compressed: "verify_downstream hop (remdups_adj path) = verify_downstream hop path"
  unfolding verify_downstream_draft draft_downstream_def max_ramp_def min_ramp_def
  by (simp add: ramps_apart_remdups)

lemma verify_upstream_compressed: "verify_upstream hop (remdups_adj path) = verify_upstream hop path"
  unfolding verify_upstream_draft draft_upstream_def max_ramp_def min_ramp_def
  by (simp add: ramp_short_remdups)

end

interpretation table_hop: hop_check "aspa_check_hop tbl" for tbl
  by unfold_locales (simp add: aspa_check_hop_def)

section \<open>Searching the providers\<close>

definition asn_near :: "u32 \<Rightarrow> u32 \<Rightarrow> bool" where
  "asn_near a b = (\<bar>uint a - uint b\<bar> < 2 ^ 31)"

lemma sint_diff_near:
  assumes "asn_near a b"
  shows "sint (a - b) = uint a - uint b"
proof -
  have "sint (a - b) = signed_take_bit 31 (uint (a - b))" by (simp add: sint_uint)
  also have "uint (a - b) = take_bit 32 (uint a - uint b)" by (simp add: uint_word_ariths take_bit_eq_mod)
  also have "signed_take_bit 31 (take_bit 32 (uint a - uint b)) = signed_take_bit 31 (uint a - uint b)"
    by (simp add: signed_take_bit_take_bit)
  also have "\<dots> = uint a - uint b"
    using assms by (intro signed_take_bit_int_eq_self) (auto simp: asn_near_def)
  finally show ?thesis .
qed

text \<open>The pointer stays inside the array: what lies behind it has no influence.\<close>

lemma search_asns_range:
  "base + len \<le> length xs \<Longrightarrow> 0 < len \<Longrightarrow> search_asns_loop cas (xs @ junk) base len = search_asns_loop cas xs base len"
proof (induction cas xs base len rule: search_asns_loop.induct)
  case (1 cas xs base len)
  define mid where "mid = len div 2"
  have i: "base + mid < length xs" using "1.prems" by (simp add: mid_def)
  then have eq: "(xs @ junk) ! (base + mid) = xs ! (base + mid)" by (simp add: nth_append)
  define base' where "base' = (if 0 \<le> sint (cas - xs ! (base + mid)) then base + mid else base)"
  have "search_asns_loop cas (xs @ junk) base' (len - mid) = search_asns_loop cas xs base' (len - mid)"
    if "mid \<noteq> 0" "sint (cas - xs ! (base + mid)) \<noteq> 0"
    using "1.IH" [OF mid_def refl refl that(2) base'_def refl that(1)] "1.prems"
    by (auto simp: base'_def mid_def)
  then show ?case
    unfolding search_asns_loop.simps [of cas "xs @ junk" base len] search_asns_loop.simps [of cas xs base len]
      Let_def mid_def [symmetric] eq base'_def [symmetric] by auto
qed

lemma search_asns_loop_correct:
  assumes "sorted xs" "\<forall>x\<in>set xs. asn_near cas x" "base + len \<le> length xs" "0 < len"
    "\<forall>i<length xs. xs ! i = cas \<longrightarrow> base \<le> i \<and> i < base + len"
  shows "search_asns_loop cas xs base len \<noteq> None \<longleftrightarrow> cas \<in> set xs"
  using assms
proof (induction cas xs base len rule: search_asns_loop.induct)
  case (1 cas xs base len)
  define mid where "mid = len div 2"
  define p where "p = base + mid"
  have p: "p < length xs" using "1.prems" by (simp add: p_def mid_def)
  have val: "sint (cas - xs ! p) = uint cas - uint (xs ! p)"
    using "1.prems"(2) p by (intro sint_diff_near) auto
  have mono: "i \<le> j \<Longrightarrow> j < length xs \<Longrightarrow> xs ! i \<le> xs ! j" for i j
    using sorted_nth_mono [OF "1.prems"(1)] by auto
  show ?case
  proof (cases "xs ! p = cas")
    case True
    then have "search_asns_loop cas xs base len = Some p"
      unfolding search_asns_loop.simps [of cas xs base len] Let_def mid_def [symmetric] p_def [symmetric] by simp
    then show ?thesis using True p by auto
  next
    case False
    then have nz: "sint (cas - xs ! p) \<noteq> 0" using val by (metis diff_eq_diff_eq diff_self word_uint_eqI)
    define base' where "base' = (if 0 \<le> sint (cas - xs ! p) then p else base)"
    have step: "search_asns_loop cas xs base len = (if mid \<noteq> 0 then search_asns_loop cas xs base' (len - mid) else None)"
      unfolding search_asns_loop.simps [of cas xs base len] Let_def mid_def [symmetric] p_def [symmetric] base'_def [symmetric]
      using nz by simp
    have keep: "base' \<le> i \<and> i < base' + (len - mid)" if i: "i < length xs" "xs ! i = cas" for i
    proof (cases "xs ! p < cas")
      case True
      then have "base' = p" using val by (simp add: base'_def word_less_alt)
      moreover have "p < i" using mono [of i p] p i(2) True by (metis leD not_le)
      moreover have "i < base + len" using "1.prems"(5) i by blast
      ultimately show ?thesis by (auto simp: p_def mid_def)
    next
      case False
      then have "cas < xs ! p" using \<open>xs ! p \<noteq> cas\<close> by auto
      then have "base' = base" using val by (simp add: base'_def word_less_alt)
      moreover have "i < p" using mono [of p i] i \<open>cas < xs ! p\<close> by (metis leD not_le)
      moreover have "base \<le> i" using "1.prems"(5) i by blast
      ultimately show ?thesis by (auto simp: p_def mid_def)
    qed
    show ?thesis
    proof (cases "mid = 0")
      case True
      then have "len = 1" using "1.prems"(4) by (simp add: mid_def)
      have "cas \<notin> set xs"
      proof
        assume "cas \<in> set xs"
        then obtain i where i: "i < length xs" "xs ! i = cas" by (auto simp: in_set_conv_nth)
        then have "i = p" using "1.prems"(5) \<open>len = 1\<close> True by (auto simp: p_def)
        then show False using False i by simp
      qed
      then show ?thesis using step True by simp
    next
      case m: False
      have "search_asns_loop cas xs base' (len - mid) \<noteq> None \<longleftrightarrow> cas \<in> set xs"
        using "1.IH" [OF mid_def refl refl nz [unfolded p_def] base'_def [unfolded p_def] refl m]
          "1.prems" keep p m by (auto simp: base'_def p_def mid_def)
      then show ?thesis using step m by simp
    qed
  qed
qed

lemma binary_search_asns_correct:
  assumes "sorted xs" "\<forall>x\<in>set xs. asn_near cas x"
  shows "binary_search_asns cas xs \<noteq> None \<longleftrightarrow> cas \<in> set xs"
  using search_asns_loop_correct [OF assms, of 0 "length xs"] by (auto simp: binary_search_asns_def)

section \<open>Checking a hop\<close>

definition array_wf :: "aspa_array \<Rightarrow> bool" where
  "array_wf a = (arr_capacity a \<noteq> 0 \<and> sorted_wrt (<) (map customer_asn (arr_data a)) \<and>
     (\<forall>r\<in>set (arr_data a). sorted (provider_asns r)))"

definition store_ok :: "rtr_aspa_table \<Rightarrow> bool" where
  "store_ok tbl = (\<forall>n\<in>set (aspa_store tbl). case node_array n of None \<Rightarrow> False | Some a \<Rightarrow> array_wf a)"

definition store_records :: "aspa_store_node list \<Rightarrow> rtr_aspa_record list" where
  "store_records ns = concat (map (\<lambda>n. case node_array n of None \<Rightarrow> [] | Some a \<Rightarrow> arr_data a) ns)"

text \<open>What the attestations of all sockets together say about a customer and a possible provider.\<close>

definition attested :: "rtr_aspa_record list \<Rightarrow> u32 \<Rightarrow> u32 \<Rightarrow> aspa_hop_result" where
  "attested rs customer provider =
     (if \<exists>r\<in>set rs. customer_asn r = customer \<and> provider \<in> set (provider_asns r) then ASPA_PROVIDER_PLUS
      else if \<exists>r\<in>set rs. customer_asn r = customer then ASPA_NOT_PROVIDER_PLUS
      else ASPA_NO_ATTESTATION)"

lemma array_wf_search:
  assumes "array_wf a"
  shows "aspa_array_search a c = None \<Longrightarrow> \<forall>r\<in>set (arr_data a). customer_asn r \<noteq> c"
    and "aspa_array_search a c = Some r \<Longrightarrow>
      r \<in> set (arr_data a) \<and> customer_asn r = c \<and> (\<forall>q\<in>set (arr_data a). customer_asn q = c \<longrightarrow> q = r)"
proof -
  have s: "sorted (map customer_asn (arr_data a))" "distinct (map customer_asn (arr_data a))" "arr_capacity a \<noteq> 0"
    using assms by (auto simp: array_wf_def strict_sorted_iff)
  show "aspa_array_search a c = None \<Longrightarrow> \<forall>r\<in>set (arr_data a). customer_asn r \<noteq> c"
    using aspa_array_search_correct(1) [OF s(1,3)] by auto
  show "aspa_array_search a c = Some r \<Longrightarrow>
      r \<in> set (arr_data a) \<and> customer_asn r = c \<and> (\<forall>q\<in>set (arr_data a). customer_asn q = c \<longrightarrow> q = r)"
    using aspa_array_search_correct(2) [OF s(1,3)] s(2) by (auto simp: distinct_map inj_on_def)
qed

lemma check_hop_nodes_attested:
  assumes "\<forall>n\<in>set ns. case node_array n of None \<Rightarrow> False | Some a \<Rightarrow> array_wf a"
    "\<forall>r\<in>set (store_records ns). \<forall>x\<in>set (provider_asns r). asn_near p x"
  shows "check_hop_nodes ns c p found =
    (if found \<and> attested (store_records ns) c p = ASPA_NO_ATTESTATION then ASPA_NOT_PROVIDER_PLUS
     else attested (store_records ns) c p)"
  using assms
proof (induction ns arbitrary: found)
  case Nil
  then show ?case by (simp add: attested_def store_records_def)
next
  case (Cons n ns)
  obtain a where a: "node_array n = Some a" "array_wf a" using Cons.prems(1) by (auto split: option.splits)
  have rs: "store_records (n # ns) = arr_data a @ store_records ns" using a by (simp add: store_records_def)
  have IH: "check_hop_nodes ns c p f =
      (if f \<and> attested (store_records ns) c p = ASPA_NO_ATTESTATION then ASPA_NOT_PROVIDER_PLUS
       else attested (store_records ns) c p)" for f
    by (rule Cons.IH) (use Cons.prems rs in auto)
  show ?case
  proof (cases "aspa_array_search a c")
    case None
    then have "attested (store_records (n # ns)) c p = attested (store_records ns) c p"
      using array_wf_search(1) [OF a(2) None] unfolding attested_def rs by auto
    then show ?thesis using None a(1) IH by simp
  next
    case (Some r)
    note r = array_wf_search(2) [OF a(2) Some]
    have "binary_search_asns p (provider_asns r) \<noteq> None \<longleftrightarrow> p \<in> set (provider_asns r)"
      using r a(2) Cons.prems(2) rs by (intro binary_search_asns_correct) (auto simp: array_wf_def)
    moreover have "attested (store_records (n # ns)) c p =
        (if p \<in> set (provider_asns r) then ASPA_PROVIDER_PLUS
         else if attested (store_records ns) c p = ASPA_PROVIDER_PLUS then ASPA_PROVIDER_PLUS
         else ASPA_NOT_PROVIDER_PLUS)"
      using r unfolding attested_def rs by auto
    moreover have "check_hop_nodes ns c p True =
        (if attested (store_records ns) c p = ASPA_PROVIDER_PLUS then ASPA_PROVIDER_PLUS else ASPA_NOT_PROVIDER_PLUS)"
      by (auto simp: IH attested_def)
    ultimately show ?thesis using Some a(1) by auto
  qed
qed

section \<open>Properties\<close>

definition sample_aspa :: rtr_aspa_table where
  "sample_aspa = \<lparr>aspa_fp = True,
     aspa_store = [\<lparr>node_array = Some \<lparr>arr_data = [\<lparr>customer_asn = 10, provider_asns = [20, 30]\<rparr>, \<lparr>customer_asn = 20, provider_asns = [40]\<rparr>],
                                 arr_capacity = 128, arr_bytes = 3072\<rparr>, node_socket = 1\<rparr>],
     update_lock = False, aspa_log = []\<rparr>"

text \<open>C4: AS path verification follows the draft. For every table and every path the verdict of
  \<open>rtr_aspa_verify_as_path\<close> is the one the ASPA verification draft computes from the minimum and
  maximum lengths of the up-ramp and the down-ramp, in both directions.\<close>

theorem verify_as_path_follows_draft:
  "rtr_aspa_verify_as_path (Some tbl) path direction =
     (case direction of
       RTR_ASPA_UPSTREAM \<Rightarrow> draft_upstream (aspa_check_hop tbl) path
     | RTR_ASPA_DOWNSTREAM \<Rightarrow> draft_downstream (aspa_check_hop tbl) path)"
  by (cases direction) (simp_all add: rtr_aspa_verify_as_path_def verify_upstream_draft verify_downstream_draft)

text \<open>Prepending is invisible to path verification: a path and the path with repeated
  neighbouring ASes merged get the same verdict, for every table (also a missing one) and both
  directions.\<close>

theorem verify_as_path_ignores_prepending:
  "rtr_aspa_verify_as_path tbl (remdups_adj path) direction = rtr_aspa_verify_as_path tbl path direction"
  by (cases tbl; cases direction)
    (simp_all add: rtr_aspa_verify_as_path_def table_hop.verify_upstream_compressed table_hop.verify_downstream_compressed)

text \<open>C27: The hop check is exact. On a well-formed store whose provider ASNs are all closer than 2^31
  to the ASN looked up, \<open>aspa_check_hop\<close> answers from the attestations of all sockets together:
  provider if some record of the customer lists the ASN, not provider if the customer has records
  but none lists it, no attestation otherwise.\<close>

theorem check_hop_exact:
  assumes "store_ok tbl" "\<forall>r\<in>set (store_records (aspa_store tbl)). \<forall>x\<in>set (provider_asns r). asn_near provider x"
    "customer \<noteq> provider"
  shows "aspa_check_hop tbl customer provider = attested (store_records (aspa_store tbl)) customer provider"
  using check_hop_nodes_attested [of "aspa_store tbl" provider customer False] assms
  by (simp add: aspa_check_hop_def store_ok_def)

theorem check_hop_exact_witness:
  "aspa_check_hop sample_aspa 10 30 = attested (store_records (aspa_store sample_aspa)) 10 30"
  by (rule check_hop_exact)
    (simp_all add: sample_aspa_def store_ok_def array_wf_def store_records_def asn_near_def)

text \<open>Beyond that distance the sign of the difference is wrong, and a search leaves the half that holds the ASN.\<close>

definition sign_wrong :: "u32 \<Rightarrow> u32 \<Rightarrow> bool" where
  "sign_wrong a b = (2 ^ 31 \<le> uint a - uint b \<or> 2 ^ 31 < uint b - uint a)"

lemma sint_diff_wrong:
  assumes "sign_wrong a b"
  shows "sint (a - b) < 0 \<longleftrightarrow> b < a" "sint (a - b) \<noteq> 0"
proof -
  define d where "d = uint a - uint b - (if uint b < uint a then 4294967296 else - 4294967296)"
  have r: "0 \<le> uint a" "uint a < 4294967296" "0 \<le> uint b" "uint b < 4294967296"
    using uint_lt2p [of a] uint_lt2p [of b] by simp_all
  have w: "2147483648 \<le> uint a - uint b \<or> 2147483648 < uint b - uint a" using assms by (simp add: sign_wrong_def)
  have range: "- 2147483648 \<le> d" "d < 2147483648" "d < 0 \<longleftrightarrow> uint b < uint a" "d \<noteq> 0" unfolding d_def using r w by arith+
  have "sint (a - b) = signed_take_bit 31 (uint (a - b))" by (simp add: sint_uint)
  also have "uint (a - b) = take_bit 32 (uint a - uint b)" by (simp add: uint_word_ariths take_bit_eq_mod)
  also have "\<dots> = take_bit 32 d" by (simp add: d_def take_bit_eq_mod)
  also have "signed_take_bit 31 (take_bit 32 d) = signed_take_bit 31 d" by (simp add: signed_take_bit_take_bit)
  also have "\<dots> = d" using range(1,2) by (intro signed_take_bit_int_eq_self) simp_all
  finally show "sint (a - b) < 0 \<longleftrightarrow> b < a" "sint (a - b) \<noteq> 0" using range(3,4) by (simp_all add: word_less_def)
qed

lemma search_asns_loop_absent:
  "base + len \<le> length xs \<Longrightarrow> 0 < len \<Longrightarrow> \<forall>i. base \<le> i \<and> i < base + len \<longrightarrow> xs ! i \<noteq> cas \<Longrightarrow> search_asns_loop cas xs base len = None"
proof (induction cas xs base len rule: search_asns_loop.induct)
  case (1 cas xs base len)
  define mid where "mid = len div 2"
  have "xs ! (base + mid) \<noteq> cas" using "1.prems" by (simp add: mid_def)
  then have ne: "sint (cas - xs ! (base + mid)) \<noteq> 0" by (metis right_minus_eq signed_eq_0_iff)
  define base' where "base' = (if 0 \<le> sint (cas - xs ! (base + mid)) then base + mid else base)"
  have "search_asns_loop cas xs base' (len - mid) = None" if "mid \<noteq> 0"
    by (rule "1.IH" [OF mid_def refl refl ne base'_def refl that]) (use "1.prems" in \<open>auto simp: base'_def mid_def\<close>)
  then show ?case using ne unfolding search_asns_loop.simps [of cas xs base len] Let_def mid_def [symmetric] base'_def [symmetric] by simp
qed

lemma binary_search_misses:
  assumes "sorted xs" "xs \<noteq> []" "sign_wrong cas (xs ! (length xs div 2))"
  shows "binary_search_asns cas xs = None"
proof -
  define mid where "mid = length xs div 2"
  have mid: "mid < length xs" using assms(2) by (cases xs) (auto simp: mid_def)
  note w = sint_diff_wrong [OF assms(3), folded mid_def]
  define base where "base = (if 0 \<le> sint (cas - xs ! mid) then mid else 0)"
  have ne: "xs ! i \<noteq> cas" if "base \<le> i" "i < base + (length xs - mid)" "mid \<noteq> 0" for i
  proof (cases "cas < xs ! mid")
    case True
    then have "base = mid" using w(1) by (auto simp: base_def)
    then have "xs ! mid \<le> xs ! i" using that assms(1) mid by (intro sorted_nth_mono) auto
    then show ?thesis using True by auto
  next
    case False
    then have less: "xs ! mid < cas" using w by (metis linorder_neqE_linordered_idom order_less_irrefl right_minus_eq signed_0 not_less_iff_gr_or_eq)
    then have "base = 0" using w(1) by (auto simp: base_def)
    then have "i \<le> mid" using that(2) by (simp add: mid_def)
    then have "xs ! i \<le> xs ! mid" using assms(1) mid by (intro sorted_nth_mono) auto
    then show ?thesis using less by auto
  qed
  have "search_asns_loop cas xs base (length xs - mid) = None" if "mid \<noteq> 0"
    using ne that mid by (intro search_asns_loop_absent) (auto simp: base_def)
  then have "search_asns_loop cas xs 0 (length xs) = None"
    using w(2) by (subst search_asns_loop.simps) (simp add: Let_def mid_def [symmetric] base_def [symmetric])
  then show ?thesis by (simp add: binary_search_asns_def)
qed

lemma check_hop_nodes_misses:
  assumes "\<forall>n\<in>set ns. case node_array n of None \<Rightarrow> False | Some a \<Rightarrow> array_wf a"
    "\<forall>r\<in>set (store_records ns). customer_asn r = c \<longrightarrow> provider_asns r \<noteq> [] \<and> sign_wrong p (provider_asns r ! (length (provider_asns r) div 2))"
  shows "check_hop_nodes ns c p found = (if found \<or> c \<in> customer_asn ` set (store_records ns) then ASPA_NOT_PROVIDER_PLUS else ASPA_NO_ATTESTATION)"
  using assms
proof (induction ns arbitrary: found)
  case Nil
  then show ?case by (simp add: store_records_def)
next
  case (Cons n ns)
  obtain a where a: "node_array n = Some a" "array_wf a" using Cons.prems(1) by (auto split: option.splits)
  have rs: "store_records (n # ns) = arr_data a @ store_records ns" using a by (simp add: store_records_def)
  have IH: "check_hop_nodes ns c p f = (if f \<or> c \<in> customer_asn ` set (store_records ns) then ASPA_NOT_PROVIDER_PLUS else ASPA_NO_ATTESTATION)" for f
    by (rule Cons.IH) (use Cons.prems rs in auto)
  show ?case
  proof (cases "aspa_array_search a c")
    case None
    then have "c \<notin> customer_asn ` set (arr_data a)" using array_wf_search(1) [OF a(2)] by auto
    then show ?thesis using None a(1) IH rs by (simp add: image_Un)
  next
    case (Some r)
    note r = array_wf_search(2) [OF a(2) Some]
    have "binary_search_asns p (provider_asns r) = None"
      using r a(2) Cons.prems(2) rs by (intro binary_search_misses) (auto simp: array_wf_def)
    moreover have "c \<in> customer_asn ` set (arr_data a)" using r by force
    ultimately show ?thesis using Some a(1) IH rs by (simp add: image_Un)
  qed
qed

text \<open>C32: the hop check misses attested providers that are too far from the middle of the list. Whenever the
  middle entry of every provider list that the customer has lies at least 2^31 below the provider looked up, or more
  than 2^31 above it, the hop is reported as not authorised, although the provider is attested: the
  difference of the two ASNs is compared as a signed 32-bit integer and the search goes to the wrong half.\<close>

theorem check_hop_misses_distant_provider:
  assumes "store_ok tbl" "customer \<noteq> provider"
    and "attested (store_records (aspa_store tbl)) customer provider = ASPA_PROVIDER_PLUS"
    and "\<forall>r\<in>set (store_records (aspa_store tbl)). customer_asn r = customer \<longrightarrow>
      provider_asns r \<noteq> [] \<and> sign_wrong provider (provider_asns r ! (length (provider_asns r) div 2))"
  shows "aspa_check_hop tbl customer provider = ASPA_NOT_PROVIDER_PLUS"
proof -
  have "customer \<in> customer_asn ` set (store_records (aspa_store tbl))"
    using assms(3) by (auto simp: attested_def split: if_splits)
  then show ?thesis using check_hop_nodes_misses [of "aspa_store tbl" customer provider False] assms(1,2,4)
    by (simp add: aspa_check_hop_def store_ok_def)
qed

abbreviation distant_aspa :: rtr_aspa_table where
  "distant_aspa \<equiv> \<lparr>aspa_fp = False,
     aspa_store = [\<lparr>node_array = Some \<lparr>arr_data = [\<lparr>customer_asn = 10, provider_asns = [1, 2, 3000000000]\<rparr>],
                                 arr_capacity = 128, arr_bytes = 3072\<rparr>, node_socket = 1\<rparr>],
     update_lock = False, aspa_log = []\<rparr>"

theorem check_hop_misses_distant_provider_witness:
  "attested (store_records (aspa_store distant_aspa)) 10 3000000000 = ASPA_PROVIDER_PLUS \<and>
   aspa_check_hop distant_aspa 10 3000000000 = ASPA_NOT_PROVIDER_PLUS"
proof
  show a: "attested (store_records (aspa_store distant_aspa)) 10 3000000000 = ASPA_PROVIDER_PLUS"
    by (simp add: attested_def store_records_def)
  show "aspa_check_hop distant_aspa 10 3000000000 = ASPA_NOT_PROVIDER_PLUS"
    by (rule check_hop_misses_distant_provider [OF _ _ a])
      (simp_all add: store_ok_def array_wf_def store_records_def sign_wrong_def)
qed

end
