(* ===== verification/Aspa_Update.thy ===== *)
theory Aspa_Update
  imports Aspa_Verify
begin

text \<open>
  Correctness of the ASPA swap-in update. \<open>plan\<close> states what the loop over the sorted operations does
  to lists of records, \<open>compute_ops_plan\<close> shows that the loop does just that while the blocks have room
  and allocations succeed. The result is then compared with carrying out the operations one after the
  other on the set of records; an announcement that replaces a record while operations on larger
  customer ASNs follow is the one case in which they differ.
\<close>

section \<open>The loop on lists\<close>

definition sorted_op :: "aspa_update_operation \<Rightarrow> aspa_update_operation" where
  "sorted_op op = set_providers (sort (provider_asns (op_record op))) op"

abbreviation op_cas :: "aspa_update_operation \<Rightarrow> u32" where
  "op_cas op \<equiv> customer_asn (op_record op)"

type_synonym plan_result = "rtr_aspa_status + rtr_aspa_record list \<times> rtr_aspa_record list \<times> rtr_aspa_record list"

fun extend_plan :: "rtr_aspa_record list \<Rightarrow> rtr_aspa_record list \<Rightarrow> plan_result \<Rightarrow> plan_result" where
  "extend_plan app repl (Inl st) = Inl st"
| "extend_plan app repl (Inr (app', repl', rest)) = Inr (app @ app', repl @ repl', rest)"

text \<open>The records appended to the new array, the replaced ones, and those still to be appended.\<close>

fun plan :: "aspa_update_operation list \<Rightarrow> rtr_aspa_record list \<Rightarrow> plan_result" where
  "plan [] rest = Inr ([], [], rest)"
| "plan (op # ops) rest =
     (let cas = op_cas op;
          pre = takeWhile (\<lambda>e. customer_asn e < cas) rest;
          rest = dropWhile (\<lambda>e. customer_asn e < cas) rest in
      if op_type op = RTR_ASPA_ADD then
        if next_is RTR_ASPA_ADD cas ops then Inl RTR_ASPA_DUPLICATE_RECORD
        else if next_is RTR_ASPA_REMOVE cas ops then
          extend_plan pre [] (plan (tl ops) (if existing_matches cas rest then tl rest else rest))
        else
          extend_plan (pre @ [op_record (sorted_op op)]) (if existing_matches cas rest then [hd rest] else [])
            (plan ops rest)
      else
        if \<not> existing_matches cas rest \<or> next_is RTR_ASPA_REMOVE cas ops then Inl RTR_ASPA_RECORD_NOT_FOUND
        else extend_plan pre [] (plan ops (tl rest)))"

declare plan.simps(2) [simp del]

definition removes_empty :: "aspa_update_operation list \<Rightarrow> bool" where
  "removes_empty ops = (\<forall>op\<in>set ops. op_type op = RTR_ASPA_REMOVE \<longrightarrow> provider_asns (op_record op) = [])"

definition room :: "nat \<Rightarrow> aspa_array \<Rightarrow> bool" where
  "room n a = (arr_ok a \<and> 0 < arr_capacity a \<and> arr_size a + n \<le> arr_capacity a)"

lemma aspa_array_append_fine:
  assumes "room (Suc n) a" "False \<notin> set mem"
  shows "\<exists>a' mem'. aspa_array_append a r copy mem = Some (RTR_ASPA_SUCCESS, a', mem') \<and>
    arr_data a' = arr_data a @ [r] \<and> room n a' \<and> arr_capacity a' = arr_capacity a \<and> False \<notin> set mem'"
proof -
  have space: "sizeof_aspa_record * (arr_size a + 1) \<le> arr_bytes a"
    using assms(1) by (auto simp: room_def arr_ok_def sizeof_aspa_record_def)
  obtain mem' where "(if provider_asns r \<noteq> [] \<and> copy then rtr_malloc mem else (True, mem)) = (True, mem')" "False \<notin> set mem'"
    using rtr_malloc_fine [OF assms(2)] assms(2) by (cases "provider_asns r \<noteq> [] \<and> copy") auto
  then show ?thesis using space assms(1)
    by (auto simp: aspa_array_append_def aspa_array_insert_internal_def room_def arr_ok_def)
qed

lemma skip_existing_fine:
  assumes "room (length rest + n) a" "False \<notin> set mem"
  shows "\<exists>a' mem'. skip_existing cas rest a mem =
      Some (RTR_ASPA_SUCCESS, dropWhile (\<lambda>e. customer_asn e < cas) rest, a', mem') \<and>
    arr_data a' = arr_data a @ takeWhile (\<lambda>e. customer_asn e < cas) rest \<and>
    room (length (dropWhile (\<lambda>e. customer_asn e < cas) rest) + n) a' \<and> arr_capacity a' = arr_capacity a \<and> False \<notin> set mem'"
  using assms
proof (induction rest arbitrary: a mem)
  case (Cons e es)
  show ?case
  proof (cases "customer_asn e < cas")
    case True
    from aspa_array_append_fine [of "length es + n" a mem e False] Cons.prems obtain a1 mem1 where
      a1: "aspa_array_append a e False mem = Some (RTR_ASPA_SUCCESS, a1, mem1)" "arr_data a1 = arr_data a @ [e]"
        "room (length es + n) a1" "arr_capacity a1 = arr_capacity a" "False \<notin> set mem1" by auto
    from Cons.IH [OF a1(3,5)] show ?thesis using True a1 by auto
  next
    case False
    then show ?thesis using Cons.prems by simp
  qed
qed auto

definition replacing :: "rtr_aspa_record list \<Rightarrow> aspa_update_operation list \<Rightarrow> aspa_update_operation list" where
  "replacing rs ops = filter (\<lambda>op. op_type op = RTR_ASPA_ADD \<and> op_cas op \<in> customer_asn ` set rs) ops"

lemma replacing_mono: "set rs \<subseteq> set rs' \<Longrightarrow> length (replacing rs ops) \<le> length (replacing rs' ops)"
  by (induction ops) (auto simp: replacing_def)

lemma replacing_tl: "length (replacing rs (tl ops)) \<le> length (replacing rs ops)"
  by (cases ops) (auto simp: replacing_def)

lemma room_mono: "room n a \<Longrightarrow> m \<le> n \<Longrightarrow> room m a"
  by (auto simp: room_def)

text \<open>What the loop delivers, in terms of the plan.\<close>

definition planned :: "plan_result \<Rightarrow> aspa_array \<Rightarrow> aspa_array \<Rightarrow> compute_result option \<Rightarrow> bool" where
  "planned pl new_array replaced res =
     (\<exists>st failed rest' new' rep' ops' mem'. res = Some (st, failed, rest', new', rep', ops', mem') \<and> False \<notin> set mem' \<and>
        (case pl of
          Inl s \<Rightarrow> st = s \<and> failed \<noteq> None \<and> st \<noteq> RTR_ASPA_SUCCESS
        | Inr (app, repl, r) \<Rightarrow> st = RTR_ASPA_SUCCESS \<and> failed = None \<and> rest' = r \<and>
            arr_data new' = arr_data new_array @ app \<and> arr_data rep' = arr_data replaced @ repl \<and> room (length r) new'))"

lemma planned_extend:
  assumes "planned pl new1 rep1 res" "arr_data new1 = arr_data new_array @ app" "arr_data rep1 = arr_data replaced @ repl"
  shows "planned (extend_plan app repl pl) new_array replaced res"
  using assms by (cases pl) (auto simp: planned_def)

lemma planned_same_extend:
  assumes "planned pl new1 replaced res" "arr_data new1 = arr_data new_array @ app"
  shows "planned (extend_plan app [] pl) new_array replaced res"
  by (rule planned_extend [OF assms(1,2)]) simp

lemma removes_empty_Cons:
  "removes_empty (op # ops) \<longleftrightarrow> (op_type op = RTR_ASPA_REMOVE \<longrightarrow> provider_asns (op_record op) = []) \<and> removes_empty ops"
  by (auto simp: removes_empty_def)

lemma removes_empty_tl: "removes_empty ops \<Longrightarrow> removes_empty (tl ops)"
  by (cases ops) (auto simp: removes_empty_def)

lemma sorted_op_simps [simp]:
  "customer_asn (op_record (sorted_op op)) = op_cas op" "op_type (sorted_op op) = op_type op"
  by (simp_all add: sorted_op_def set_providers_def)

lemma compute_ops_Cons:
  assumes "op_type op = RTR_ASPA_REMOVE \<longrightarrow> provider_asns (op_record op) = []"
    "skip_existing (op_cas op) rest na mem = Some (RTR_ASPA_SUCCESS, rest', na', mem')"
  shows "compute_ops (op # ops) rest na rep processed mem =
   (let cas = op_cas op; current = sorted_op op; i = length processed in
    if op_type op = RTR_ASPA_ADD then
            if next_is RTR_ASPA_ADD cas ops then
              Some (RTR_ASPA_DUPLICATE_RECORD, Some (i + 1), rest', na', rep,
                    processed @ set_providers [] current # ops, mem')
            else if next_is RTR_ASPA_REMOVE cas ops then
              if existing_matches cas rest' then
                compute_ops (tl ops) (tl rest') na' rep
                  (processed @ [mark_no_op current, set_providers (provider_asns (hd rest')) (hd ops)]) mem'
              else
                compute_ops (tl ops) rest' na' rep (processed @ [mark_no_op current, mark_no_op (hd ops)]) mem'
            else
              do {
                (st, na', mem') \<leftarrow> aspa_array_append na' (op_record current) True mem';
                if st \<noteq> RTR_ASPA_SUCCESS then
                  Some (RTR_ASPA_ERROR, Some i, rest', na', rep, processed @ current # ops, mem')
                else if existing_matches cas rest' then
                  do {
                    (st, rep, mem') \<leftarrow> aspa_array_append rep (hd rest') False mem';
                    if st \<noteq> RTR_ASPA_SUCCESS then
                      Some (RTR_ASPA_ERROR, Some i, rest', na', rep, processed @ current # ops, mem')
                    else compute_ops ops rest' na' rep (processed @ [current]) mem'
                  }
                else compute_ops ops rest' na' rep (processed @ [current]) mem'
              }
          else
            if \<not> existing_matches cas rest' then
              Some (RTR_ASPA_RECORD_NOT_FOUND, Some i, rest', na', rep, processed @ current # ops, mem')
            else if next_is RTR_ASPA_REMOVE cas ops then
              Some (RTR_ASPA_RECORD_NOT_FOUND, Some (i + 1), rest', na', rep, processed @ current # ops, mem')
            else
              compute_ops ops (tl rest') na' rep
                (processed @ [set_providers (provider_asns (hd rest')) current]) mem')"
proof -
  have c: "customer_asn (op_record (set_providers ps op)) = op_cas op" "op_type (set_providers ps op) = op_type op" for ps
    by (simp_all add: set_providers_def)
  show ?thesis
    using assms unfolding compute_ops.simps(2) [of op] Let_def sorted_op_def c
    by (auto cong: if_cong)
qed

lemma existing_matches_Cons: "existing_matches cas rest \<Longrightarrow> \<exists>e es. rest = e # es \<and> customer_asn e = cas"
  by (cases rest) (auto simp: existing_matches_def)

lemma append_planned:
  assumes "room (Suc n) na" "False \<notin> set mem"
    and "\<And>na' mem'. \<lbrakk>arr_data na' = arr_data na @ [r]; room n na'; False \<notin> set mem'\<rbrakk> \<Longrightarrow> planned pl na' rep (f na' mem')"
  shows "planned (extend_plan [r] [] pl) na rep
    (do { (st, na', mem') \<leftarrow> aspa_array_append na r copy mem;
          if st \<noteq> RTR_ASPA_SUCCESS then g st na' mem' else f na' mem' })"
proof -
  obtain na' mem' where a: "aspa_array_append na r copy mem = Some (RTR_ASPA_SUCCESS, na', mem')"
    "arr_data na' = arr_data na @ [r]" "room n na'" "False \<notin> set mem'"
    using aspa_array_append_fine [OF assms(1,2)] by blast
  show ?thesis using planned_same_extend [OF assms(3) [OF a(2-4)] a(2)] a(1) by simp
qed

lemma append_replaced_planned:
  assumes "room (Suc n) rep" "False \<notin> set mem"
    and "\<And>rep' mem'. \<lbrakk>arr_data rep' = arr_data rep @ [r]; room n rep'; False \<notin> set mem'\<rbrakk> \<Longrightarrow> planned pl na rep' (f rep' mem')"
  shows "planned (extend_plan [] [r] pl) na rep
    (do { (st, rep', mem') \<leftarrow> aspa_array_append rep r copy mem;
          if st \<noteq> RTR_ASPA_SUCCESS then g st rep' mem' else f rep' mem' })"
proof -
  obtain rep' mem' where a: "aspa_array_append rep r copy mem = Some (RTR_ASPA_SUCCESS, rep', mem')"
    "arr_data rep' = arr_data rep @ [r]" "room n rep'" "False \<notin> set mem'"
    using aspa_array_append_fine [OF assms(1,2)] by blast
  have "planned (extend_plan [] [r] pl) na rep (f rep' mem')"
    by (rule planned_extend [OF assms(3) [OF a(2-4)] _ a(2)]) simp
  then show ?thesis using a(1) by simp
qed

lemma planned_Inl:
  "False \<notin> set mem \<Longrightarrow> st \<noteq> RTR_ASPA_SUCCESS \<Longrightarrow> planned (Inl st) na rep (Some (st, Some i, r, na', rep', ops, mem))"
  by (simp add: planned_def)

lemma extend_plan_extend: "extend_plan a b (extend_plan c d pl) = extend_plan (a @ c) (b @ d) pl"
  by (cases pl) auto

text \<open>The branch of the loop that appends a new record, the replaced one being remembered.\<close>

definition add_record where
  "add_record current ops rest na rep processed mem =
     do { (st, na', mem') \<leftarrow> aspa_array_append na (op_record current) True mem;
          if st \<noteq> RTR_ASPA_SUCCESS then
            Some (RTR_ASPA_ERROR, Some (length processed), rest, na', rep, processed @ current # ops, mem')
          else if existing_matches (op_cas current) rest then
            do { (st, rep, mem') \<leftarrow> aspa_array_append rep (hd rest) False mem';
                 if st \<noteq> RTR_ASPA_SUCCESS then
                   Some (RTR_ASPA_ERROR, Some (length processed), rest, na', rep, processed @ current # ops, mem')
                 else compute_ops ops rest na' rep (processed @ [current]) mem' }
          else compute_ops ops rest na' rep (processed @ [current]) mem' }"

lemma add_record_planned:
  assumes "room (Suc n) na" "False \<notin> set mem"
    and "\<not> existing_matches (op_cas current) rest \<Longrightarrow> room k rep"
    and "existing_matches (op_cas current) rest \<Longrightarrow> room (Suc k) rep"
    and "\<And>na' rep' m. \<lbrakk>room n na'; room k rep'; False \<notin> set m\<rbrakk> \<Longrightarrow>
      planned pl na' rep' (compute_ops ops rest na' rep' (processed @ [current]) m)"
  shows "planned (extend_plan [op_record current] (if existing_matches (op_cas current) rest then [hd rest] else []) pl) na rep
    (add_record current ops rest na rep processed mem)"
proof (cases "existing_matches (op_cas current) rest")
  case True
  have "planned (extend_plan [op_record current] [] (extend_plan [] [hd rest] pl)) na rep
      (add_record current ops rest na rep processed mem)"
    unfolding add_record_def if_P [OF True]
    by (rule append_planned [OF assms(1,2)], rule append_replaced_planned [OF assms(4) [OF True]], assumption, rule assms(5))
  then show ?thesis using True by (simp add: extend_plan_extend)
next
  case False
  have "planned (extend_plan [op_record current] [] pl) na rep (add_record current ops rest na rep processed mem)"
    unfolding add_record_def if_not_P [OF False]
    by (rule append_planned [OF assms(1,2)], rule assms(5)) (use assms(3) [OF False] in auto)
  then show ?thesis using False by simp
qed

lemma compute_ops_plan:
  assumes "removes_empty ops" "room (length rest + length ops) na" "room (length (replacing rest ops)) rep" "False \<notin> set mem"
  shows "planned (plan ops rest) na rep (compute_ops ops rest na rep processed mem)"
  using assms
proof (induction ops arbitrary: rest na rep processed mem rule: length_induct)
  case (1 ops)
  show ?case
  proof (cases ops)
    case Nil
    then show ?thesis using "1.prems" by (auto simp: planned_def compute_ops.simps room_def)
  next
    case (Cons op ops')
    let ?cas = "op_cas op"
    define pre where "pre = takeWhile (\<lambda>e. customer_asn e < ?cas) rest"
    define r where "r = dropWhile (\<lambda>e. customer_asn e < ?cas) rest"
    have IH: "\<And>os rest na rep processed mem. \<lbrakk>length os \<le> length ops'; removes_empty os; room (length rest + length os) na;
        room (length (replacing rest os)) rep; False \<notin> set mem\<rbrakk> \<Longrightarrow>
        planned (plan os rest) na rep (compute_ops os rest na rep processed mem)"
      using "1.IH" Cons by (simp add: less_Suc_eq_le)
    have re: "op_type op = RTR_ASPA_REMOVE \<longrightarrow> provider_asns (op_record op) = []" "removes_empty ops'"
      using "1.prems"(1) Cons by (simp_all add: removes_empty_Cons)
    have "room (length rest + Suc (length ops')) na" using "1.prems"(2) Cons by simp
    from skip_existing_fine [OF this "1.prems"(4), of ?cas] obtain na1 mem1 where
      sk: "skip_existing ?cas rest na mem = Some (RTR_ASPA_SUCCESS, r, na1, mem1)" "arr_data na1 = arr_data na @ pre"
        "room (Suc (length r + length ops')) na1" "False \<notin> set mem1"
      unfolding pre_def r_def by auto
    have "set (tl r) \<subseteq> set r" by (rule set_tl_subset)
    moreover have "set r \<subseteq> set rest" unfolding r_def by (meson set_dropWhileD subsetI)
    ultimately have sub: "set r \<subseteq> set rest" "set (tl r) \<subseteq> set rest" by auto
    have less: "length (replacing rs os) \<le> length (replacing rest ops)"
      if "rs = r \<or> rs = tl r" "os = ops' \<or> os = tl ops'" for rs os
    proof -
      have "length (replacing rs os) \<le> length (replacing rest os)" using that(1) sub by (auto intro: replacing_mono)
      also have "\<dots> \<le> length (replacing rest ops')" using that(2) replacing_tl by auto
      also have "\<dots> \<le> length (replacing rest ops)" by (simp add: Cons replacing_def)
      finally show ?thesis .
    qed
    have step: "planned (plan os rs) na' rep' (compute_ops os rs na' rep' pr m)"
      if "rs = r \<or> rs = tl r" "os = ops' \<or> os = tl ops'" "room (length r + length ops') na'"
        "room (length (replacing rs os)) rep'" "False \<notin> set m" for rs os na' rep' pr m
      using that re(2) by (intro IH) (auto intro: removes_empty_tl room_mono)
    have room1: "room (length r + length ops') na1" using sk(3) by (rule room_mono) simp
    have rep1: "room (length (replacing rs os)) rep" if "rs = r \<or> rs = tl r" "os = ops' \<or> os = tl ops'" for rs os
      using "1.prems"(3) less [OF that] by (rule room_mono)
    have rep2: "room (Suc (length (replacing r ops'))) rep" if "op_type op = RTR_ASPA_ADD" "existing_matches ?cas r"
    proof -
      have "?cas \<in> customer_asn ` set rest"
        using existing_matches_Cons [OF that(2)] sub(1) by (metis image_eqI list.set_intros(1) subsetD)
      then have "Suc (length (replacing r ops')) \<le> length (replacing rest ops)"
        using that(1) replacing_mono [OF sub(1), of ops'] by (simp add: Cons replacing_def)
      with "1.prems"(3) show ?thesis by (rule room_mono)
    qed
    have new: "planned (extend_plan [op_record (sorted_op op)] (if existing_matches ?cas r then [hd r] else []) (plan ops' r)) na1 rep
        (add_record (sorted_op op) ops' r na1 rep processed mem1)"
      if "op_type op = RTR_ASPA_ADD"
      by (rule add_record_planned [where current = "sorted_op op", unfolded sorted_op_simps, OF sk(3,4)]) (use rep1 rep2 that step in auto)
    have "planned (extend_plan pre [] (if op_type op = RTR_ASPA_ADD then
        if next_is RTR_ASPA_ADD ?cas ops' then Inl RTR_ASPA_DUPLICATE_RECORD
        else if next_is RTR_ASPA_REMOVE ?cas ops' then plan (tl ops') (if existing_matches ?cas r then tl r else r)
        else extend_plan [op_record (sorted_op op)] (if existing_matches ?cas r then [hd r] else []) (plan ops' r)
      else
        if \<not> existing_matches ?cas r \<or> next_is RTR_ASPA_REMOVE ?cas ops' then Inl RTR_ASPA_RECORD_NOT_FOUND
        else plan ops' (tl r))) na rep (compute_ops (op # ops') rest na rep processed mem)"
      unfolding compute_ops_Cons [OF re(1) sk(1)] Let_def add_record_def [of "sorted_op op", unfolded sorted_op_simps, symmetric]
      by (rule planned_same_extend [OF _ sk(2)])
        (use sk(4) new in \<open>auto intro!: step room1 rep1 planned_Inl\<close>)
    moreover have "plan (op # ops') rest = extend_plan pre [] (if op_type op = RTR_ASPA_ADD then
        if next_is RTR_ASPA_ADD ?cas ops' then Inl RTR_ASPA_DUPLICATE_RECORD
        else if next_is RTR_ASPA_REMOVE ?cas ops' then plan (tl ops') (if existing_matches ?cas r then tl r else r)
        else extend_plan [op_record (sorted_op op)] (if existing_matches ?cas r then [hd r] else []) (plan ops' r)
      else
        if \<not> existing_matches ?cas r \<or> next_is RTR_ASPA_REMOVE ?cas ops' then Inl RTR_ASPA_RECORD_NOT_FOUND
        else plan ops' (tl r))"
      by (simp add: plan.simps(2) [of op ops'] Let_def pre_def r_def extend_plan_extend)
    ultimately show ?thesis by (simp add: Cons)
  qed
qed

section \<open>The operations of one customer\<close>

definition record_of :: "rtr_aspa_record list \<Rightarrow> u32 \<Rightarrow> u32 list option" where
  "record_of rs = map_of (map (\<lambda>r. (customer_asn r, provider_asns r)) rs)"

text \<open>Carrying out the operations of one customer in their order of arrival: an announcement sets the
  record, a withdrawal needs one; two announcements without a withdrawal between them are refused.\<close>

fun customer_run :: "u32 list option \<Rightarrow> aspa_update_operation list \<Rightarrow> rtr_aspa_status + u32 list option" where
  "customer_run cur [] = Inr cur"
| "customer_run cur (op # ops) =
     (if op_type op = RTR_ASPA_ADD then
        if ops \<noteq> [] \<and> op_type (hd ops) = RTR_ASPA_ADD then Inl RTR_ASPA_DUPLICATE_RECORD
        else customer_run (Some (sort (provider_asns (op_record op)))) ops
      else if cur = None then Inl RTR_ASPA_RECORD_NOT_FOUND
      else customer_run None ops)"

definition customer_rec :: "u32 \<Rightarrow> u32 list option \<Rightarrow> rtr_aspa_record list" where
  "customer_rec c x = (case x of None \<Rightarrow> [] | Some ps \<Rightarrow> [\<lparr>customer_asn = c, provider_asns = ps\<rparr>])"

abbreviation above :: "u32 \<Rightarrow> rtr_aspa_record list \<Rightarrow> bool" where
  "above c rs \<equiv> \<forall>r\<in>set rs. c < customer_asn r"

abbreviation ops_above :: "u32 \<Rightarrow> aspa_update_operation list \<Rightarrow> bool" where
  "ops_above c ops \<equiv> \<forall>op\<in>set ops. c < op_cas op"

lemma next_is_group:
  assumes "\<forall>op\<in>set grp. op_cas op = c" "ops_above c ops"
  shows "next_is ty c (grp @ ops) \<longleftrightarrow> grp \<noteq> [] \<and> op_type (hd grp) = ty"
  using assms by (cases grp; cases ops) (auto simp: next_is_def)

lemma above_takeWhile: "above c rs \<Longrightarrow> takeWhile (\<lambda>e. customer_asn e < c) rs = []"
  by (cases rs) auto

lemma above_dropWhile: "above c rs \<Longrightarrow> dropWhile (\<lambda>e. customer_asn e < c) rs = rs"
  by (cases rs) auto

lemma above_existing: "above c rs \<Longrightarrow> \<not> existing_matches c rs"
  by (cases rs) (auto simp: existing_matches_def)

lemma op_record_sorted_op: "op_cas op = c \<Longrightarrow>
    op_record (sorted_op op) = \<lparr>customer_asn = c, provider_asns = sort (provider_asns (op_record op))\<rparr>"
  by (cases "op_record op") (simp add: sorted_op_def set_providers_def)

fun then_plan :: "u32 \<Rightarrow> rtr_aspa_status + u32 list option \<Rightarrow> plan_result \<Rightarrow> plan_result" where
  "then_plan c (Inl st) pl = Inl st"
| "then_plan c (Inr x) pl = extend_plan (customer_rec c x) [] pl"

lemma op_type_cases: "op_type op = RTR_ASPA_ADD \<or> op_type op = RTR_ASPA_REMOVE"
  by (cases "op_type op") auto

lemma plan_group_absent:
  assumes "\<forall>op\<in>set grp. op_cas op = c" "ops_above c ops" "above c rs"
  shows "plan (grp @ ops) rs = then_plan c (customer_run None grp) (plan ops rs)"
  using assms(1)
proof (induction grp rule: length_induct)
  case (1 grp)
  note ab = above_takeWhile [OF assms(3)] above_dropWhile [OF assms(3)] above_existing [OF assms(3)]
  have e: "extend_plan [] [] pl = pl" for pl by (cases pl) auto
  show ?case
  proof (cases grp)
    case Nil
    then show ?thesis by (simp add: customer_rec_def e)
  next
    case (Cons op g)
    have c: "op_cas op = c" "\<forall>op\<in>set g. op_cas op = c" using "1.prems" Cons by auto
    note n = next_is_group [OF c(2) assms(2)]
    show ?thesis
    proof (cases g)
      case Nil
      then show ?thesis using Cons n [of RTR_ASPA_ADD] n [of RTR_ASPA_REMOVE] c ab
        by (simp add: plan.simps(2) Let_def op_record_sorted_op [OF c(1)] customer_rec_def)
    next
      case g: (Cons op2 g2)
      have "plan (g2 @ ops) rs = then_plan c (customer_run None g2) (plan ops rs)"
        using "1.IH" "1.prems" Cons g by simp
      then show ?thesis using Cons g n [of RTR_ASPA_ADD] n [of RTR_ASPA_REMOVE] c ab op_type_cases [of op2]
        by (auto simp: plan.simps(2) [of op] Let_def e)
    qed
  qed
qed

lemma plan_group_present:
  assumes "\<forall>op\<in>set grp. op_cas op = c" "ops_above c ops" "above c rs" "customer_asn e = c" "grp \<noteq> []"
    "\<not> (length grp = 1 \<and> op_type (hd grp) = RTR_ASPA_ADD)"
  shows "plan (grp @ ops) (e # rs) = then_plan c (customer_run (Some (provider_asns e)) grp) (plan ops rs)"
proof -
  have em: "existing_matches c (e # rs)" using assms(4) by (simp add: existing_matches_def)
  have ex: "extend_plan [] [] pl = pl" for pl by (cases pl) auto
  obtain op g where g: "grp = op # g" using assms(5) by (cases grp) auto
  have c: "op_cas op = c" "\<forall>op\<in>set g. op_cas op = c" using assms(1) g by auto
  note n = next_is_group [OF c(2) assms(2)]
  note absent = plan_group_absent [OF _ assms(2,3)]
  show ?thesis
  proof (cases "op_type op = RTR_ASPA_ADD")
    case True
    then obtain op2 g2 where g2: "g = op2 # g2" using assms(6) g by (cases g) auto
    then show ?thesis
      using True g n [of RTR_ASPA_ADD] n [of RTR_ASPA_REMOVE] c em assms(4) op_type_cases [of op2] absent [of g2]
      by (auto simp: plan.simps(2) [of op] Let_def ex)
  next
    case False
    then show ?thesis
      using g n [of RTR_ASPA_REMOVE] c em assms(4) absent [OF c(2)] op_type_cases [of "hd g"]
      by (cases g) (auto simp: plan.simps(2) [of op] Let_def ex)
  qed
qed

lemma plan_prefix:
  assumes "ops \<noteq> []" "\<forall>e\<in>set pre. \<forall>op\<in>set ops. customer_asn e < op_cas op"
  shows "plan ops (pre @ rs) = extend_plan pre [] (plan ops rs)"
proof (cases ops)
  case (Cons op ops')
  then have "\<forall>e\<in>set pre. customer_asn e < op_cas op" using assms(2) by auto
  then have "takeWhile (\<lambda>e. customer_asn e < op_cas op) (pre @ rs) = pre @ takeWhile (\<lambda>e. customer_asn e < op_cas op) rs"
    "dropWhile (\<lambda>e. customer_asn e < op_cas op) (pre @ rs) = dropWhile (\<lambda>e. customer_asn e < op_cas op) rs"
    by simp_all
  then show ?thesis by (simp add: Cons plan.simps(2) Let_def extend_plan_extend)
qed (use assms(1) in simp)

lemma extend_plan_Inr: "extend_plan a b pl = Inr (app, repl, r) \<longleftrightarrow>
    (\<exists>app' repl'. pl = Inr (app', repl', r) \<and> app = a @ app' \<and> repl = b @ repl')"
  by (cases pl) auto

lemma above_mono: "above c rs \<Longrightarrow> set rs' \<subseteq> set rs \<Longrightarrow> above c rs'"
  by blast

lemma plan_above:
  "plan ops rs = Inr (app, repl, r) \<Longrightarrow> ops_above c ops \<Longrightarrow> above c rs \<Longrightarrow> above c app \<and> above c r"
proof (induction ops arbitrary: rs app repl r rule: length_induct)
  case (1 ops)
  show ?case
  proof (cases ops)
    case Nil
    then show ?thesis using "1.prems" by simp
  next
    case (Cons op ops')
    let ?P = "\<lambda>e. customer_asn e < op_cas op"
    have sub: "set (takeWhile ?P rs) \<subseteq> set rs" "set (dropWhile ?P rs) \<subseteq> set rs"
      by (meson set_takeWhileD subsetI, meson set_dropWhileD subsetI)
    have pre: "above c (takeWhile ?P rs)" "above c (dropWhile ?P rs)" "above c (tl (dropWhile ?P rs))"
      by (rule above_mono [OF "1.prems"(3) sub(1)], rule above_mono [OF "1.prems"(3) sub(2)],
        rule above_mono [OF "1.prems"(3) subset_trans [OF set_tl_subset sub(2)]])
    have IH: "above c app' \<and> above c r"
      if "plan os rs' = Inr (app', repl', r)" "os = ops' \<or> os = tl ops'" "above c rs'" for os rs' app' repl'
    proof -
      have "length os < length ops" "set os \<subseteq> set ops" using that(2) Cons set_tl_subset [of ops'] by auto
      then show ?thesis using "1.IH" "1.prems"(2) that(1,3) by blast
    qed
    have new: "c < customer_asn (op_record (sorted_op op))" using "1.prems"(2) Cons by simp
    define a0 where "a0 = takeWhile ?P rs"
    define r0 where "r0 = dropWhile ?P rs"
    note abs = pre [folded a0_def r0_def]
    note pl = "1.prems"(1) [unfolded Cons plan.simps(2) Let_def, folded a0_def r0_def]
    have r0: "above c app' \<and> above c r" if "plan os r0 = Inr (app', repl', r) \<or> plan os (tl r0) = Inr (app', repl', r)"
      "os = ops' \<or> os = tl ops'" for os app' repl' using that IH [of os r0] IH [of os "tl r0"] abs by blast
    show ?thesis
    proof (cases "op_type op = RTR_ASPA_ADD")
      case True
      then show ?thesis using pl r0 [of "tl ops'"] r0 [of ops'] abs(1) new
        by (simp add: extend_plan_Inr split: if_splits) fastforce+
    next
      case False
      then show ?thesis using pl r0 [of ops'] abs(1)
        by (simp add: extend_plan_Inr split: if_splits) fastforce
    qed
  qed
qed

section \<open>The whole update\<close>

text \<open>The remaining records, without the first one when the last one appended replaces it.\<close>

definition trim_rest :: "rtr_aspa_record list \<Rightarrow> rtr_aspa_record list \<Rightarrow> rtr_aspa_record list" where
  "trim_rest app r = (if app \<noteq> [] \<and> r \<noteq> [] \<and> customer_asn (last app) = customer_asn (hd r) then tl r else r)"

definition merge_ops :: "aspa_update_operation list \<Rightarrow> rtr_aspa_record list \<Rightarrow> rtr_aspa_status + rtr_aspa_record list" where
  "merge_ops ops rs = (case plan ops rs of Inl st \<Rightarrow> Inl st | Inr (app, repl, r) \<Rightarrow> Inr (app @ trim_rest app r))"

definition cons_merge :: "rtr_aspa_record list \<Rightarrow> rtr_aspa_status + rtr_aspa_record list \<Rightarrow> rtr_aspa_status + rtr_aspa_record list" where
  "cons_merge xs m = (case m of Inl st \<Rightarrow> Inl st | Inr ys \<Rightarrow> Inr (xs @ ys))"

abbreviation strict :: "rtr_aspa_record list \<Rightarrow> bool" where
  "strict rs \<equiv> sorted_wrt (<) (map customer_asn rs)"

lemma trim_rest_append:
  assumes "\<forall>x\<in>set xs. \<forall>r\<in>set rs. customer_asn x < customer_asn r"
  shows "trim_rest (xs @ app) rs = (if app = [] then rs else trim_rest app rs)"
  using assms by (cases rs) (auto simp: trim_rest_def, metis last_in_set less_irrefl)

lemma merge_extend:
  assumes "\<forall>x\<in>set xs. customer_asn x \<le> c" "ops_above c ops" "above c rs"
  shows "(case extend_plan xs [] (plan ops rs) of Inl st \<Rightarrow> Inl st | Inr (app, repl, r) \<Rightarrow> Inr (app @ trim_rest app r)) =
    cons_merge xs (merge_ops ops rs)"
proof (cases "plan ops rs")
  case (Inr q)
  obtain app repl r where q: "q = (app, repl, r)" by (cases q)
  have "above c r" using plan_above [OF _ assms(2,3)] Inr q by blast
  then have "trim_rest (xs @ app) r = (if app = [] then r else trim_rest app r)"
    using assms(1) by (intro trim_rest_append) force
  then show ?thesis using Inr q by (simp add: merge_ops_def cons_merge_def trim_rest_def)
qed (simp add: merge_ops_def cons_merge_def)

lemma strict_split:
  assumes "strict rs"
  obtains pre r where "rs = pre @ r" "\<forall>x\<in>set pre. customer_asn x < c" "above c r" "record_of rs c = None"
  | pre e r where "rs = pre @ e # r" "\<forall>x\<in>set pre. customer_asn x < c" "customer_asn e = c" "above c r"
      "record_of rs c = Some (provider_asns e)"
proof -
  obtain pre r where rs: "rs = pre @ r" and pre: "\<forall>x\<in>set pre. customer_asn x < c"
    and hd: "r \<noteq> [] \<Longrightarrow> \<not> customer_asn (hd r) < c"
    using hd_dropWhile [of "\<lambda>e. customer_asn e < c" rs] set_takeWhileD [of _ "\<lambda>e. customer_asn e < c" rs]
      takeWhile_dropWhile_id [of "\<lambda>e. customer_asn e < c" rs] by metis
  have "map_of (map (\<lambda>r. (customer_asn r, provider_asns r)) pre) c = None"
    using pre by (auto simp: map_of_eq_None_iff)
  then have ro: "record_of rs c = record_of r c"
    by (simp add: rs record_of_def map_add_def split: option.splits)
  show thesis
  proof (cases r)
    case Nil
    show thesis by (rule that(1) [OF rs pre]) (use Nil ro in \<open>auto simp: record_of_def\<close>)
  next
    case (Cons e es)
    then have e: "\<not> customer_asn e < c" and es: "\<forall>x\<in>set es. customer_asn e < customer_asn x"
      using hd assms rs by (auto simp: sorted_wrt_append)
    show thesis
    proof (cases "customer_asn e = c")
      case True
      show thesis by (rule that(2) [of pre e es]) (use rs pre Cons True es ro in \<open>auto simp: record_of_def\<close>)
    next
      case False
      have "above c r" using False e es Cons by fastforce
      moreover from this have "record_of r c = None" by (force simp: record_of_def map_of_eq_None_iff)
      ultimately show thesis using that(1) [OF rs pre] ro by simp
    qed
  qed
qed

lemma merge_group:
  assumes "strict rs" "\<forall>op\<in>set grp. op_cas op = c" "grp \<noteq> []" "ops_above c ops"
    "record_of rs c \<noteq> None \<Longrightarrow> length grp = 1 \<Longrightarrow> op_type (hd grp) = RTR_ASPA_ADD \<Longrightarrow> ops = []"
  shows "\<exists>pre r. (\<forall>x\<in>set pre. customer_asn x < c) \<and> above c r \<and> strict (pre @ r) \<and> (\<forall>c'. c' \<noteq> c \<longrightarrow> record_of rs c' = record_of (pre @ r) c') \<and>
    merge_ops (grp @ ops) rs = (case customer_run (record_of rs c) grp of Inl st \<Rightarrow> Inl st
      | Inr x \<Rightarrow> cons_merge (pre @ customer_rec c x) (merge_ops ops r))"
  using assms(1)
proof (cases rule: strict_split [where c = c])
  case (1 pre r)
  have p: "plan (grp @ ops) rs = extend_plan pre [] (then_plan c (customer_run None grp) (plan ops r))"
    using plan_prefix [of "grp @ ops" pre r] plan_group_absent [OF assms(2,4) 1(3)] assms(2-4) 1(2)
    by (fastforce simp: 1(1))
  show ?thesis
  proof (intro exI conjI)
    show "merge_ops (grp @ ops) rs = (case customer_run (record_of rs c) grp of Inl st \<Rightarrow> Inl st
      | Inr x \<Rightarrow> cons_merge (pre @ customer_rec c x) (merge_ops ops r))"
    proof (cases "customer_run None grp")
      case (Inr x)
      have "\<forall>y\<in>set (pre @ customer_rec c x). customer_asn y \<le> c"
        using 1(2) by (auto simp: customer_rec_def less_imp_le split: option.splits)
      from merge_extend [OF this assms(4) 1(3)] show ?thesis
        using p Inr 1(4) by (simp add: merge_ops_def [of "grp @ ops"] extend_plan_extend)
    qed (use p 1(4) in \<open>simp add: merge_ops_def [of "grp @ ops"]\<close>)
  qed (use 1 assms(1) in auto)
next
  case (2 pre e r)
  have rest: "strict (pre @ r)" "\<forall>c'. c' \<noteq> c \<longrightarrow> record_of rs c' = record_of (pre @ r) c'"
    using assms(1) 2(1,3) by (auto simp: sorted_wrt_append record_of_def map_add_def split: option.splits)
  have p: "plan (grp @ ops) rs = extend_plan pre [] (plan (grp @ ops) (e # r))"
    using plan_prefix [of "grp @ ops" pre "e # r"] assms(2-4) 2(2) by (fastforce simp: 2(1))
  have "merge_ops (grp @ ops) rs = (case customer_run (record_of rs c) grp of Inl st \<Rightarrow> Inl st
      | Inr x \<Rightarrow> cons_merge (pre @ customer_rec c x) (merge_ops ops r))"
  proof (cases "length grp = 1 \<and> op_type (hd grp) = RTR_ASPA_ADD")
    case True
    then obtain op where op: "grp = [op]" "op_type op = RTR_ASPA_ADD" by (cases grp) auto
    have "ops = []" using assms(5) 2(5) True by simp
    then show ?thesis using op p 2 assms(2)
      by (simp add: merge_ops_def plan.simps(2) Let_def next_is_def existing_matches_def op_record_sorted_op [of op c]
          trim_rest_def cons_merge_def customer_rec_def)
  next
    case False
    note p2 = p [unfolded plan_group_present [OF assms(2,4) 2(4,3) assms(3) False]]
    show ?thesis
    proof (cases "customer_run (Some (provider_asns e)) grp")
      case (Inr x)
      have "\<forall>y\<in>set (pre @ customer_rec c x). customer_asn y \<le> c"
        using 2(2) by (auto simp: customer_rec_def less_imp_le split: option.splits)
      from merge_extend [OF this assms(4) 2(4)] show ?thesis
        using p2 Inr 2(5) by (simp add: merge_ops_def [of "grp @ ops"] extend_plan_extend)
    qed (use p2 2(5) in \<open>simp add: merge_ops_def [of "grp @ ops"]\<close>)
  qed
  then show ?thesis using 2(2,4) rest by blast
qed

abbreviation ops_of :: "u32 \<Rightarrow> aspa_update_operation list \<Rightarrow> aspa_update_operation list" where
  "ops_of c ops \<equiv> filter (\<lambda>op. op_cas op = c) ops"

text \<open>An announcement may replace an existing record only if no operation has a larger customer ASN.\<close>

definition replaces_last :: "rtr_aspa_record list \<Rightarrow> aspa_update_operation list \<Rightarrow> bool" where
  "replaces_last rs ops = (\<forall>op\<in>set ops. record_of rs (op_cas op) \<noteq> None \<and> ops_of (op_cas op) ops = [op] \<and> op_type op = RTR_ASPA_ADD
     \<longrightarrow> (\<forall>op'\<in>set ops. op_cas op' \<le> op_cas op))"

lemma merge_above:
  assumes "merge_ops ops rs = Inr F" "ops_above c ops" "above c rs"
  shows "above c F"
proof -
  obtain app repl r where "plan ops rs = Inr (app, repl, r)" "F = app @ trim_rest app r"
    using assms(1) by (auto simp: merge_ops_def split: sum.splits)
  then show ?thesis
    using plan_above [OF _ assms(2,3)] set_tl_subset [of r] by (auto simp: trim_rest_def split: if_splits)
qed

lemma record_of_append: "record_of (xs @ ys) c = (case record_of xs c of None \<Rightarrow> record_of ys c | Some p \<Rightarrow> Some p)"
  by (simp add: record_of_def map_add_def split: option.splits)

lemma record_of_None_iff: "record_of rs c = None \<longleftrightarrow> (\<forall>r\<in>set rs. customer_asn r \<noteq> c)"
  by (force simp: record_of_def map_of_eq_None_iff image_image)

lemma record_of_customer_rec [simp]: "record_of (customer_rec c x) c' = (if c' = c then x else None)"
  by (simp add: customer_rec_def record_of_def split: option.splits)

lemma first_group:
  assumes "ops \<noteq> []" "sorted (map op_cas ops)"
  obtains grp ops' c where "ops = grp @ ops'" "grp \<noteq> []" "\<forall>op\<in>set grp. op_cas op = c" "ops_above c ops'"
    "ops_of c ops = grp" "\<And>c'. c' \<noteq> c \<Longrightarrow> ops_of c' ops = ops_of c' ops'"
proof -
  obtain op os where ops: "ops = op # os" using assms(1) by (cases ops) auto
  let ?c = "op_cas op"
  obtain g ops' where g: "os = g @ ops'" "\<forall>op\<in>set g. op_cas op = ?c" "ops' \<noteq> [] \<Longrightarrow> op_cas (hd ops') \<noteq> ?c"
    using hd_dropWhile [of "\<lambda>q. op_cas q = ?c" os] set_takeWhileD [of _ "\<lambda>q. op_cas q = ?c" os]
      takeWhile_dropWhile_id [of "\<lambda>q. op_cas q = ?c" os] by metis
  have "?c < op_cas q" if "q \<in> set ops'" for q
    using that assms(2) g ops by (cases ops') (fastforce simp: sorted_append)+
  then have ab: "ops_above ?c ops'" by blast
  then have "ops_of ?c ops' = []" by (auto simp: filter_empty_conv)
  then show thesis
    by (intro that [of "op # g" ops' ?c] ab) (use ops g in \<open>auto simp: filter_empty_conv\<close>)
qed

lemma merged_group_correct:
  assumes pre: "\<forall>x\<in>set pre. customer_asn x < c" and r: "above c r" and st: "strict (pre @ r)"
    and same: "\<forall>c'. c' \<noteq> c \<longrightarrow> record_of rs c' = record_of (pre @ r) c'"
    and ops: "ops_above c ops'" "ops_of c ops = grp" "\<And>c'. c' \<noteq> c \<Longrightarrow> ops_of c' ops = ops_of c' ops'"
    and run: "customer_run (record_of rs c) grp = Inr x"
    and F: "above c F" "strict F" "\<forall>c. customer_run (record_of r c) (ops_of c ops') = Inr (record_of F c)"
  shows "strict (pre @ customer_rec c x @ F) \<and>
    (\<forall>c'. customer_run (record_of rs c') (ops_of c' ops) = Inr (record_of (pre @ customer_rec c x @ F) c'))"
proof
  have "\<forall>y\<in>set (customer_rec c x). customer_asn y = c" "strict (customer_rec c x)"
    by (cases x; simp add: customer_rec_def)+
  then show "strict (pre @ customer_rec c x @ F)"
    using pre st F(1,2) by (fastforce simp: sorted_wrt_append)
  have none: "record_of pre c' = None" if "c \<le> c'" for c' using that pre by (auto simp: record_of_None_iff)
  have noneF: "record_of F c' = None" "record_of r c' = None" if "c' \<le> c" for c'
    using that F(1) r by (auto simp: record_of_None_iff)
  show "\<forall>c'. customer_run (record_of rs c') (ops_of c' ops) = Inr (record_of (pre @ customer_rec c x @ F) c')"
  proof
    fix c'
    consider "c' = c" | "c' < c" | "c < c'" by fastforce
    then show "customer_run (record_of rs c') (ops_of c' ops) = Inr (record_of (pre @ customer_rec c x @ F) c')"
    proof cases
      case 1
      then show ?thesis using run ops(2) none noneF by (cases x) (auto simp: record_of_append)
    next
      case 2
      then have "ops_of c' ops' = []" using ops(1) by (auto simp: filter_empty_conv)
      then show ?thesis using 2 ops(3) same noneF by (auto simp: record_of_append split: option.splits)
    next
      case 3
      then show ?thesis using F(3) ops(3) same none by (auto simp: record_of_append)
    qed
  qed
qed

lemma merge_ops_correct:
  assumes "sorted (map op_cas ops)" "strict rs" "replaces_last rs ops"
  shows "case merge_ops ops rs of
      Inl st \<Rightarrow> \<exists>c. customer_run (record_of rs c) (ops_of c ops) = Inl st
    | Inr F \<Rightarrow> strict F \<and> (\<forall>c. customer_run (record_of rs c) (ops_of c ops) = Inr (record_of F c))"
  using assms
proof (induction ops arbitrary: rs rule: length_induct)
  case (1 ops)
  show ?case
  proof (cases "ops = []")
    case True
    then show ?thesis using "1.prems" by (simp add: merge_ops_def trim_rest_def)
  next
    case False
    obtain grp ops' c where g: "ops = grp @ ops'" "grp \<noteq> []" "\<forall>op\<in>set grp. op_cas op = c" "ops_above c ops'"
      "ops_of c ops = grp" "\<And>c'. c' \<noteq> c \<Longrightarrow> ops_of c' ops = ops_of c' ops'"
      by (rule first_group [OF False "1.prems"(1)]) (rule that)
    have "ops' = []" if r: "record_of rs c \<noteq> None" and l: "length grp = 1" "op_type (hd grp) = RTR_ASPA_ADD"
    proof -
      obtain op where op: "grp = [op]" "op_cas op = c" using l g(3) by (cases grp) auto
      then have "\<forall>op'\<in>set ops. op_cas op' \<le> c"
        using "1.prems"(3) r l g(1,5) by (auto simp: replaces_last_def)
      then show ?thesis using g(1,4) by (cases ops') fastforce+
    qed
    from merge_group [OF "1.prems"(2) g(3,2,4) this] obtain pre r where
      pre: "\<forall>x\<in>set pre. customer_asn x < c" and r: "above c r" and st: "strict (pre @ r)"
      and same: "\<forall>c'. c' \<noteq> c \<longrightarrow> record_of rs c' = record_of (pre @ r) c'"
      and m: "merge_ops ops rs = (case customer_run (record_of rs c) grp of Inl st \<Rightarrow> Inl st
        | Inr x \<Rightarrow> cons_merge (pre @ customer_rec c x) (merge_ops ops' r))"
      unfolding g(1) by blast
    have above_rec: "c' > c \<Longrightarrow> record_of rs c' = record_of r c'" for c'
      using same pre by (force simp: record_of_append record_of_None_iff split: option.splits)
    have "replaces_last r ops'"
      using "1.prems"(3) g(1,3,4,6) above_rec unfolding replaces_last_def by (metis Un_iff less_irrefl set_append)
    then have IH: "case merge_ops ops' r of
        Inl st \<Rightarrow> \<exists>c. customer_run (record_of r c) (ops_of c ops') = Inl st
      | Inr F \<Rightarrow> strict F \<and> (\<forall>c. customer_run (record_of r c) (ops_of c ops') = Inr (record_of F c))"
      using "1.IH" "1.prems"(1) st g(1,2) by (auto simp: sorted_append sorted_wrt_append)
    show ?thesis
    proof (cases "customer_run (record_of rs c) grp")
      case (Inl st)
      then show ?thesis using m g(5) by auto
    next
      case run: (Inr x)
      show ?thesis
      proof (cases "merge_ops ops' r")
        case (Inl st)
        then obtain c' where c': "customer_run (record_of r c') (ops_of c' ops') = Inl st" using IH by auto
        then have "ops_of c' ops' \<noteq> []" by auto
        then have "c < c'" using g(4) by (auto simp: filter_empty_conv)
        then have "customer_run (record_of rs c') (ops_of c' ops) = Inl st" using c' above_rec g(6) by simp
        then show ?thesis using m run Inl by (auto simp: cons_merge_def)
      next
        case (Inr F)
        then have "above c F" using merge_above [OF _ g(4) r] by blast
        then show ?thesis
          using merged_group_correct [OF pre r st same g(4-6) run] m run Inr IH by (simp add: cons_merge_def)
      qed
    qed
  qed
qed

lemma append_rest_fine:
  "room (length rs) a \<Longrightarrow> False \<notin> set mem \<Longrightarrow>
     \<exists>a' mem'. append_rest rs a mem = Some (a', mem') \<and> arr_data a' = arr_data a @ rs \<and> room 0 a' \<and> False \<notin> set mem'"
proof (induction rs arbitrary: a mem)
  case (Cons e es)
  obtain a1 mem1 where a1: "aspa_array_append a e False mem = Some (RTR_ASPA_SUCCESS, a1, mem1)"
      "arr_data a1 = arr_data a @ [e]" "room (length es) a1" "False \<notin> set mem1"
    using aspa_array_append_fine [of "length es" a mem e False] Cons.prems by auto
  then show ?case using Cons.IH [OF a1(3,4)] by auto
qed auto

lemma aspa_array_reserve_fine:
  assumes "room 0 a" "arr_data a = []" "False \<notin> set mem"
  shows "\<exists>a' mem'. aspa_array_reserve (Some a) n mem = (RTR_ASPA_SUCCESS, Some a', mem') \<and> room n a' \<and> arr_data a' = [] \<and> False \<notin> set mem'"
proof -
  obtain mem' where "rtr_realloc mem = (True, mem')" "False \<notin> set mem'"
    using rtr_malloc_fine [OF assms(3)] by (auto simp: rtr_realloc_def)
  then show ?thesis using assms by (auto simp: aspa_array_reserve_def room_def arr_ok_def Let_def)
qed

lemma aspa_array_create_fine:
  assumes "False \<notin> set mem"
  shows "\<exists>a mem'. aspa_array_create mem = (RTR_ASPA_SUCCESS, Some a, mem') \<and> room 128 a \<and> arr_data a = [] \<and> False \<notin> set mem'"
proof -
  obtain m1 where m1: "rtr_malloc mem = (True, m1)" "False \<notin> set m1" using rtr_malloc_fine [OF assms] by blast
  obtain m2 where "rtr_malloc m1 = (True, m2)" "False \<notin> set m2" using rtr_malloc_fine [OF m1(2)] by blast
  then show ?thesis using m1 by (simp add: aspa_array_create_def room_def arr_ok_def)
qed

lemma compute_internal_merge:
  assumes "ops \<noteq> []" "removes_empty ops" "length (replacing (arr_data a) ops) \<le> 128" "False \<notin> set mem"
    "room 128 new_array" "arr_data new_array = []" "room 128 replaced" "arr_data replaced = []"
  shows "\<exists>st failed new' rep' ops' mem'.
    aspa_table_update_compute_internal a new_array ops replaced mem = Some (st, failed, new', rep', ops', mem') \<and> False \<notin> set mem' \<and>
    (case merge_ops ops (arr_data a) of
      Inl s \<Rightarrow> st = s \<and> st \<noteq> RTR_ASPA_SUCCESS \<and> failed \<noteq> None
    | Inr F \<Rightarrow> st = RTR_ASPA_SUCCESS \<and> failed = None \<and> arr_data new' = F \<and> room 0 new')"
proof -
  have "room 0 new_array" using assms(5) by (rule room_mono) simp
  from aspa_array_reserve_fine [OF this assms(6,4)] obtain n1 m1 where
    n1: "aspa_array_reserve (Some new_array) (arr_size a + length ops) mem = (RTR_ASPA_SUCCESS, Some n1, m1)"
      "room (arr_size a + length ops) n1" "arr_data n1 = []" "False \<notin> set m1" by blast
  have "room (length (replacing (arr_data a) ops)) replaced" using assms(7,3) by (rule room_mono)
  from compute_ops_plan [OF assms(2) n1(2) this n1(4)]
  have "planned (plan ops (arr_data a)) n1 replaced (compute_ops ops (arr_data a) n1 replaced [] m1)" .
  then obtain st failed rest' n2 rep' ops' m2 where
    c: "compute_ops ops (arr_data a) n1 replaced [] m1 = Some (st, failed, rest', n2, rep', ops', m2)" "False \<notin> set m2"
      "case plan ops (arr_data a) of
          Inl s \<Rightarrow> st = s \<and> failed \<noteq> None \<and> st \<noteq> RTR_ASPA_SUCCESS
        | Inr (app, repl, r) \<Rightarrow> st = RTR_ASPA_SUCCESS \<and> failed = None \<and> rest' = r \<and>
            arr_data n2 = arr_data n1 @ app \<and> arr_data rep' = arr_data replaced @ repl \<and> room (length r) n2"
    unfolding planned_def by blast
  show ?thesis
  proof (cases "plan ops (arr_data a)")
    case (Inl s)
    then show ?thesis using c n1(1) assms(1)
      by (auto simp: aspa_table_update_compute_internal_def merge_ops_def)
  next
    case (Inr q)
    obtain app repl r where q: "q = (app, repl, r)" by (cases q)
    then have d: "st = RTR_ASPA_SUCCESS" "failed = None" "rest' = r" "arr_data n2 = app" "room (length r) n2"
      using c(3) Inr n1(3) by auto
    have trim: "(case (aspa_array_get_record n2 (arr_size n2 - 1), r) of
                         (Some last_rec, e # es) \<Rightarrow> if customer_asn last_rec = customer_asn e then es else e # es
                       | _ \<Rightarrow> r) = trim_rest app r"
      using d(4) by (cases app rule: rev_cases; cases r) (auto simp: aspa_array_get_record_def trim_rest_def nth_append)
    have "length (trim_rest app r) \<le> length r" by (simp add: trim_rest_def)
    then have "room (length (trim_rest app r)) n2" using d(5) by (auto intro: room_mono)
    from append_rest_fine [OF this c(2)] obtain n3 m3 where
      n3: "append_rest (trim_rest app r) n2 m2 = Some (n3, m3)" "arr_data n3 = app @ trim_rest app r" "room 0 n3" "False \<notin> set m3"
      using d(4) by auto
    have "aspa_table_update_compute_internal a new_array ops replaced mem = Some (RTR_ASPA_SUCCESS, None, n3, rep', ops', m3)"
      using assms(1) n1(1) c(1) d(1-3) n3(1)
      by (simp add: aspa_table_update_compute_internal_def trim [simplified] Let_def)
    then show ?thesis using Inr q n3 by (simp add: merge_ops_def)
  qed
qed

section \<open>Computing and applying\<close>

definition socket_records :: "rtr_aspa_table \<Rightarrow> socket_id \<Rightarrow> rtr_aspa_record list" where
  "socket_records tbl s =
     (case aspa_store_get_node (aspa_store tbl) s of
       None \<Rightarrow> []
     | Some i \<Rightarrow> (case node_array (aspa_store tbl ! i) of None \<Rightarrow> [] | Some a \<Rightarrow> arr_data a))"

lemma get_node_Some:
  "aspa_store_get_node ns s = Some i \<Longrightarrow> i < length ns \<and> node_socket (ns ! i) = s"
  by (induction ns arbitrary: i) (auto split: if_splits)

lemma get_node_update:
  "node_socket n = node_socket (ns ! i) \<Longrightarrow> aspa_store_get_node (ns[i := n]) s = aspa_store_get_node ns s"
proof (induction ns arbitrary: i)
  case (Cons m ns)
  then show ?case by (cases i) auto
qed simp

lemma socket_records_update:
  assumes "aspa_store_get_node (aspa_store tbl) s = Some i"
    "aspa_store tbl' = (aspa_store tbl)[i := (aspa_store tbl ! i)\<lparr>node_array := Some a\<rparr>]"
  shows "socket_records tbl' t = (if t = s then arr_data a else socket_records tbl t)"
proof -
  have i: "i < length (aspa_store tbl)" "node_socket (aspa_store tbl ! i) = s" using get_node_Some [OF assms(1)] by auto
  have g: "aspa_store_get_node ((aspa_store tbl)[i := (aspa_store tbl ! i)\<lparr>node_array := Some a\<rparr>]) t = aspa_store_get_node (aspa_store tbl) t"
    by (rule get_node_update) simp
  show ?thesis
  proof (cases "t = s")
    case True
    then show ?thesis using assms i(1) g by (simp add: socket_records_def)
  next
    case False
    have "j \<noteq> i" if "aspa_store_get_node (aspa_store tbl) t = Some j" for j
      using get_node_Some [OF that] i(2) False by blast
    then show ?thesis using False by (cases "aspa_store_get_node (aspa_store tbl) t") (simp_all add: socket_records_def g assms(2))
  qed
qed

lemma store_ok_update:
  assumes "store_ok tbl" "array_wf a" "aspa_store tbl' = (aspa_store tbl)[i := n\<lparr>node_array := Some a\<rparr>]"
  shows "store_ok tbl'"
  using assms set_update_subset_insert [of "aspa_store tbl" i "n\<lparr>node_array := Some a\<rparr>"]
  by (fastforce simp: store_ok_def)

lemma ensure_node_fine:
  assumes "store_ok tbl" "False \<notin> set mem"
  shows "\<exists>tbl1 mem1 i a. ensure_node tbl s mem = (RTR_ASPA_SUCCESS, tbl1, mem1) \<and> False \<notin> set mem1 \<and>
    aspa_store_get_node (aspa_store tbl1) s = Some i \<and> node_array (aspa_store tbl1 ! i) = Some a \<and> arr_data a = socket_records tbl s \<and>
    strict (arr_data a) \<and> store_ok tbl1 \<and> (\<forall>t. socket_records tbl1 t = socket_records tbl t) \<and>
    tbl1 = tbl\<lparr>aspa_store := aspa_store tbl1\<rparr>"
proof (cases "aspa_store_get_node (aspa_store tbl) s")
  case (Some i)
  then obtain a where a: "node_array (aspa_store tbl ! i) = Some a" "array_wf a"
    using assms(1) get_node_Some [OF Some] by (fastforce simp: store_ok_def split: option.splits)
  then show ?thesis using Some assms by (auto simp: ensure_node_def socket_records_def array_wf_def)
next
  case None
  obtain a m1 where a: "aspa_array_create mem = (RTR_ASPA_SUCCESS, Some a, m1)" "room 128 a" "arr_data a = []" "False \<notin> set m1"
    using aspa_array_create_fine [OF assms(2)] by blast
  obtain m2 where m2: "rtr_malloc m1 = (True, m2)" "False \<notin> set m2" using rtr_malloc_fine [OF a(4)] by blast
  have "array_wf a" using a(2,3) by (simp add: array_wf_def room_def)
  then show ?thesis using None a m2 assms
    by (auto simp: ensure_node_def aspa_store_create_node_def socket_records_def store_ok_def split: option.splits)
qed

lemma swap_in_compute_ensure:
  assumes "operations \<noteq> []" "\<not> update_lock tbl" "rtr_malloc mem = (True, m0)"
    "ensure_node (tbl\<lparr>update_lock := True\<rparr>) socket m0 = (RTR_ASPA_SUCCESS, tbl1, m1)"
    "aspa_store_get_node (aspa_store tbl1) socket = Some i" "node_array (aspa_store tbl1 ! i) = Some a"
    "aspa_array_create m1 = (RTR_ASPA_SUCCESS, Some new_array, m2)"
    "aspa_array_create m2 = (RTR_ASPA_SUCCESS, Some replaced, m3)"
    "aspa_table_update_compute_internal a new_array (sort_key update_operation_key operations) replaced m3 =
       Some (res, failed, new', rep', ops, m4)"
  shows "aspa_table_update_swap_in_compute tbl socket operations mem =
    Some (res, tbl1, Some \<lparr>upd_operations = ops, upd_failed_operation = failed,
      upd_result = Some (if res = RTR_ASPA_SUCCESS then Some (socket, new') else None),
      upd_replaced_records = (if res = RTR_ASPA_SUCCESS then Some rep' else None)\<rparr>, m4)"
  using assms by (simp add: aspa_table_update_swap_in_compute_def Let_def)

section \<open>Arrival order\<close>

abbreviation arranged :: "aspa_update_operation list \<Rightarrow> aspa_update_operation list" where
  "arranged ops \<equiv> sort_key update_operation_key ops"

lemma arranged_sorted: "sorted (map op_cas (arranged ops))"
proof -
  have "sorted_wrt (\<lambda>a b. update_operation_key a \<le> update_operation_key b) (arranged ops)"
    using sorted_sort_key [of update_operation_key ops] by (simp add: sorted_wrt_map)
  then have "sorted_wrt (\<lambda>a b. op_cas a \<le> op_cas b) (arranged ops)"
    by (rule sorted_wrt_mono_rel [rotated]) (auto simp: update_operation_key_def less_eq_prod_def less_imp_le)
  then show ?thesis by (simp add: sorted_wrt_map)
qed

lemma arranged_ops_of:
  assumes "sorted (map op_index ops)"
  shows "ops_of c (arranged ops) = ops_of c ops"
proof -
  have "sorted (map update_operation_key (ops_of c ops))"
    using assms
    by (induction ops) (auto simp: update_operation_key_def)
  then show ?thesis by (simp add: filter_sort sort_key_id_if_sorted)
qed

lemma arranged_hyps:
  assumes "sorted (map op_index ops)"
  shows "removes_empty (arranged ops) = removes_empty ops"
    "length (replacing rs (arranged ops)) = length (replacing rs ops)"
    "replaces_last rs (arranged ops) = replaces_last rs ops"
    "arranged ops = [] \<longleftrightarrow> ops = []"
proof -
  show "arranged ops = [] \<longleftrightarrow> ops = []" by (metis length_0_conv length_sort)
  show "replaces_last rs (arranged ops) = replaces_last rs ops"
    by (simp add: replaces_last_def arranged_ops_of [OF assms])
qed (simp_all add: removes_empty_def replacing_def filter_sort)

lemma swap_in_compute_merge:
  assumes "store_ok tbl" "\<not> update_lock tbl" "False \<notin> set mem" "ops \<noteq> []" "removes_empty ops" "sorted (map op_index ops)"
    "length (replacing (socket_records tbl s) ops) \<le> 128"
  shows "\<exists>st tbl1 upd mem1. aspa_table_update_swap_in_compute tbl s ops mem = Some (st, tbl1, Some upd, mem1) \<and> False \<notin> set mem1 \<and>
    (\<exists>i. aspa_store_get_node (aspa_store tbl1) s = Some i) \<and> store_ok tbl1 \<and> (\<forall>t. socket_records tbl1 t = socket_records tbl t) \<and>
    (case merge_ops (arranged ops) (socket_records tbl s) of
      Inl e \<Rightarrow> st = e \<and> e \<noteq> RTR_ASPA_SUCCESS \<and> upd_result upd = Some None
    | Inr F \<Rightarrow> st = RTR_ASPA_SUCCESS \<and> upd_failed_operation upd = None \<and>
        (\<exists>new'. upd_result upd = Some (Some (s, new')) \<and> arr_data new' = F \<and> arr_capacity new' \<noteq> 0))"
proof -
  obtain m0 where m0: "rtr_malloc mem = (True, m0)" "False \<notin> set m0" using rtr_malloc_fine [OF assms(3)] by blast
  let ?t = "tbl\<lparr>update_lock := True\<rparr>"
  have t: "store_ok ?t" "socket_records ?t u = socket_records tbl u" for u
    using assms(1) by (simp_all add: store_ok_def socket_records_def cong: option.case_cong)
  obtain tbl1 m1 i a where n: "ensure_node ?t s m0 = (RTR_ASPA_SUCCESS, tbl1, m1)" "False \<notin> set m1"
    "aspa_store_get_node (aspa_store tbl1) s = Some i" "node_array (aspa_store tbl1 ! i) = Some a"
    "arr_data a = socket_records tbl s" "store_ok tbl1" "\<forall>u. socket_records tbl1 u = socket_records tbl u"
    using ensure_node_fine [OF t(1) m0(2), of s] unfolding t(2) by blast
  obtain new_array m2 where new: "aspa_array_create m1 = (RTR_ASPA_SUCCESS, Some new_array, m2)" "room 128 new_array"
    "arr_data new_array = []" "False \<notin> set m2" using aspa_array_create_fine [OF n(2)] by blast
  obtain rep m3 where rep: "aspa_array_create m2 = (RTR_ASPA_SUCCESS, Some rep, m3)" "room 128 rep"
    "arr_data rep = []" "False \<notin> set m3" using aspa_array_create_fine [OF new(4)] by blast
  note h = arranged_hyps [OF assms(6)]
  obtain st failed new' rep' ops' m4 where
    c: "aspa_table_update_compute_internal a new_array (arranged ops) rep m3 = Some (st, failed, new', rep', ops', m4)" "False \<notin> set m4"
      "case merge_ops (arranged ops) (arr_data a) of
        Inl e \<Rightarrow> st = e \<and> st \<noteq> RTR_ASPA_SUCCESS \<and> failed \<noteq> None
      | Inr F \<Rightarrow> st = RTR_ASPA_SUCCESS \<and> failed = None \<and> arr_data new' = F \<and> room 0 new'"
    using compute_internal_merge [of "arranged ops" a m3 new_array rep] assms(4,5,7) rep new(2,3) n(5) unfolding h by metis
  note comp = swap_in_compute_ensure [OF assms(4,2) m0(1) n(1,3,4) new(1) rep(1) c(1)]
  show ?thesis unfolding comp
    using n(3,5-7) c(2,3) by (auto simp: room_def split: sum.splits)
qed

section \<open>Properties\<close>

lemma customer_run_sorted:
  "customer_run cur ops = Inr (Some p) \<Longrightarrow> (\<And>q. cur = Some q \<Longrightarrow> sorted q) \<Longrightarrow> sorted p"
proof (induction cur ops rule: customer_run.induct)
  case (2 cur op ops)
  then show ?case by (auto split: if_splits)
qed simp

lemma record_of_strict: "strict rs \<Longrightarrow> r \<in> set rs \<Longrightarrow> record_of rs (customer_asn r) = Some (provider_asns r)"
  by (induction rs) (auto simp: record_of_def)

lemma notify_clients_keeps:
  assumes "aspa_table_notify_clients tbl r s ty mem = (st, tbl', mem')"
  shows "aspa_store tbl' = aspa_store tbl \<and> update_lock tbl' = update_lock tbl \<and> aspa_fp tbl' = aspa_fp tbl \<and> set mem' \<subseteq> set mem"
  using assms by (auto simp: aspa_table_notify_clients_def Let_def split: if_splits prod.splits dest!: rtr_malloc_set)

lemma notify_operations_keeps:
  "aspa_store (fst (notify_operations tbl ops s mem)) = aspa_store tbl \<and>
   update_lock (fst (notify_operations tbl ops s mem)) = update_lock tbl \<and>
   set (snd (notify_operations tbl ops s mem)) \<subseteq> set mem"
proof (induction ops arbitrary: tbl mem)
  case (Cons op ops)
  obtain st tbl1 mem1 where n: "aspa_table_notify_clients tbl (op_record op) s (op_type op) mem = (st, tbl1, mem1)" by (metis prod_cases3)
  then show ?case using Cons.IH [of tbl1 mem1] Cons.IH [of tbl mem] notify_clients_keeps [OF n] by (cases "op_is_no_op op") auto
qed simp

lemma store_ok_socket_records:
  assumes "store_ok tbl"
  shows "strict (socket_records tbl s)" "r \<in> set (socket_records tbl s) \<Longrightarrow> sorted (provider_asns r)"
proof -
  have "array_wf a" if "aspa_store_get_node (aspa_store tbl) s = Some i" "node_array (aspa_store tbl ! i) = Some a" for i a
    using assms get_node_Some [OF that(1)] that(2) by (fastforce simp: store_ok_def split: option.splits)
  then show "strict (socket_records tbl s)" "r \<in> set (socket_records tbl s) \<Longrightarrow> sorted (provider_asns r)"
    by (auto simp: socket_records_def array_wf_def split: option.splits, metis)
qed

lemma swap_in_apply_fine:
  assumes "upd_result upd = Some (Some (s, a))" "upd_failed_operation upd = None"
    "aspa_store_get_node (aspa_store tbl) s = Some i" "store_ok tbl" "array_wf a"
  shows "\<exists>tbl' mem'. aspa_table_update_swap_in_apply tbl (Some upd) mem = Some (tbl', mem') \<and> \<not> update_lock tbl' \<and>
    store_ok tbl' \<and> (\<forall>t. socket_records tbl' t = (if t = s then arr_data a else socket_records tbl t)) \<and>
    aspa_store_get_node (aspa_store tbl') s \<noteq> None \<and> set mem' \<subseteq> set mem"
proof -
  let ?t = "tbl\<lparr>aspa_store := (aspa_store tbl)[i := (aspa_store tbl ! i)\<lparr>node_array := Some a\<rparr>], update_lock := False\<rparr>"
  let ?r = "notify_operations ?t (upd_operations upd) s mem"
  have st: "aspa_store (fst ?r) = (aspa_store tbl)[i := (aspa_store tbl ! i)\<lparr>node_array := Some a\<rparr>]" "\<not> update_lock (fst ?r)"
      "set (snd ?r) \<subseteq> set mem"
    using notify_operations_keeps [of ?t "upd_operations upd" s mem] by simp_all
  have "aspa_store_get_node (aspa_store (fst ?r)) s = Some i" unfolding st(1) using assms(3) by (simp add: get_node_update)
  then have "aspa_store_get_node (aspa_store (fst ?r)) s \<noteq> None" by simp
  moreover have "aspa_table_update_swap_in_apply tbl (Some upd) mem = Some (fst ?r, snd ?r)"
    using assms(1-3) by (simp add: aspa_table_update_swap_in_apply_def)
  ultimately show ?thesis
    using st store_ok_update [OF assms(4,5) st(1)] socket_records_update [OF assms(3) st(1)] by blast
qed

lemma swap_in_discard_fine:
  assumes "upd_result upd = Some r"
  shows "aspa_table_update_swap_in_discard tbl (Some upd) mem = Some (tbl\<lparr>update_lock := False\<rparr>, mem)"
  using assms by (simp add: aspa_table_update_swap_in_discard_def)

lemma merged_array_wf:
  assumes "strict F" "\<And>c. customer_run (record_of rs c) (f c) = Inr (record_of F c)"
    "strict rs" "\<And>r. r \<in> set rs \<Longrightarrow> sorted (provider_asns r)" "arr_data a = F" "arr_capacity a \<noteq> 0"
  shows "array_wf a"
proof -
  have old: "sorted q" if "record_of rs c = Some q" for c q
    using that assms(4) unfolding record_of_def by (auto dest!: map_of_SomeD)
  have "sorted (provider_asns r)" if "r \<in> set F" for r
    using customer_run_sorted [of "record_of rs (customer_asn r)" "f (customer_asn r)" "provider_asns r"] assms(2)
      record_of_strict [OF assms(1) that] old by auto
  then show ?thesis using assms(1,5,6) by (simp add: array_wf_def)
qed

text \<open>The operation that an update reports as failed is one of those it was given.\<close>

lemma op_index_set_providers [simp]: "op_index (set_providers ps op) = op_index op" "op_index (mark_no_op op) = op_index op"
  by (simp_all add: set_providers_def mark_no_op_def)

definition reports_given :: "aspa_update_operation list \<Rightarrow> compute_result option \<Rightarrow> bool" where
  "reports_given ops res =
     (\<forall>st failed rest' new' rep' ops' mem'. res = Some (st, failed, rest', new', rep', ops', mem') \<longrightarrow>
        map op_index ops' = map op_index ops \<and> (\<forall>pos. failed = Some pos \<longrightarrow> pos < length ops'))"

lemma reports_given_bind: "(\<And>x. m = Some x \<Longrightarrow> reports_given ops (f x)) \<Longrightarrow> reports_given ops (m \<bind> f)"
  by (cases m) (simp_all add: reports_given_def)

lemma reports_given_None: "reports_given ops None"
  by (simp add: reports_given_def)

lemma reports_given_Some:
  "map op_index ops' = map op_index ops \<Longrightarrow> (\<And>pos. failed = Some pos \<Longrightarrow> pos < length ops) \<Longrightarrow>
   reports_given ops (Some (st, failed, rest', new', rep', ops', mem'))"
  using map_eq_imp_length_eq by (fastforce simp: reports_given_def)

lemma reports_given_cong: "map op_index ops' = map op_index ops \<Longrightarrow> reports_given ops' res \<Longrightarrow> reports_given ops res"
  by (simp add: reports_given_def)

lemma compute_ops_failed: "reports_given (processed @ ops) (compute_ops ops rest new_array replaced processed mem)"
proof (induction "length ops" arbitrary: ops rest new_array replaced processed mem rule: less_induct)
  case less
  show ?case
  proof (cases ops)
    case Nil
    then show ?thesis by (simp add: compute_ops.simps reports_given_def)
  next
    case (Cons current ops1)
    have IH: "reports_given (processed @ current # ops1) (compute_ops ops2 rest new_array replaced processed2 mem)"
      if "length ops2 \<le> length ops1" "map op_index (processed2 @ ops2) = map op_index (processed @ current # ops1)"
      for ops2 processed2 rest new_array replaced mem
      by (rule reports_given_cong [OF that(2) less.hyps]) (use that(1) Cons in simp)
    have n: "map op_index ops1 = op_index (hd ops1) # map op_index (tl ops1)" "ops1 \<noteq> []" if "next_is ty cas ops1" for ty cas
      using that by (cases ops1; auto simp: next_is_def)+
    show ?thesis unfolding Cons compute_ops.simps
      by (auto simp: Let_def n split: prod.splits intro!: reports_given_None reports_given_bind reports_given_Some IH)
  qed
qed

lemma swap_in_compute_failed:
  assumes "aspa_table_update_swap_in_compute tbl s ops mem = Some (st, tbl1, Some upd, mem1)" "upd_failed_operation upd = Some pos"
  shows "op_index (upd_operations upd ! pos) \<in> op_index ` set ops"
proof -
  have given: "op_index (ops' ! pos) \<in> op_index ` set ops"
    if "compute_ops (sort_key update_operation_key ops) rest new_array replaced [] m = Some (st, Some pos, rest', new', rep', ops', mem')"
    for rest new_array replaced m st rest' new' rep' ops' mem'
  proof -
    have r: "map op_index ops' = map op_index (sort_key update_operation_key ops)" "pos < length ops'"
      using compute_ops_failed [of "[]" "sort_key update_operation_key ops" rest new_array replaced m] that by (simp_all add: reports_given_def)
    then have "op_index (ops' ! pos) \<in> set (map op_index ops')" by (metis length_map nth_map nth_mem)
    then show ?thesis unfolding r(1) by simp
  qed
  show ?thesis using assms
    by (auto simp: aspa_table_update_swap_in_compute_def aspa_table_update_compute_internal_def Let_def
        split: if_splits prod.splits option.splits elim!: bind_SomeE dest!: given)
qed

lemma aspa_update_outcome:
  assumes "store_ok tbl" "\<not> update_lock tbl" "False \<notin> set mem" "ops \<noteq> []" "removes_empty ops" "sorted (map op_index ops)"
    "length (replacing (socket_records tbl s) ops) \<le> 128" "replaces_last (socket_records tbl s) ops"
  shows "\<exists>st tbl1 upd mem1. aspa_table_update_swap_in_compute tbl s ops mem = Some (st, tbl1, Some upd, mem1) \<and> False \<notin> set mem1 \<and>
    (if st = RTR_ASPA_SUCCESS then
       \<exists>tbl2 mem2. aspa_table_update_swap_in_apply tbl1 (Some upd) mem1 = Some (tbl2, mem2) \<and>
         \<not> update_lock tbl2 \<and> store_ok tbl2 \<and> (\<forall>t. t \<noteq> s \<longrightarrow> socket_records tbl2 t = socket_records tbl t) \<and>
         (\<forall>c. customer_run (record_of (socket_records tbl s) c) (ops_of c ops) = Inr (record_of (socket_records tbl2 s) c)) \<and>
         aspa_store_get_node (aspa_store tbl2) s \<noteq> None \<and> False \<notin> set mem2
     else
       (\<exists>c. customer_run (record_of (socket_records tbl s) c) (ops_of c ops) = Inl st) \<and>
       (\<exists>tbl2 mem2. aspa_table_update_swap_in_discard tbl1 (Some upd) mem1 = Some (tbl2, mem2) \<and>
         \<not> update_lock tbl2 \<and> store_ok tbl2 \<and> (\<forall>t. socket_records tbl2 t = socket_records tbl t)))"
proof -
  let ?rs = "socket_records tbl s"
  note rs = store_ok_socket_records [OF assms(1), where s = s]
  obtain st tbl1 upd mem1 i where
    c: "aspa_table_update_swap_in_compute tbl s ops mem = Some (st, tbl1, Some upd, mem1)" "False \<notin> set mem1"
      "aspa_store_get_node (aspa_store tbl1) s = Some i" "store_ok tbl1" "\<forall>t. socket_records tbl1 t = socket_records tbl t"
      "case merge_ops (arranged ops) ?rs of
        Inl e \<Rightarrow> st = e \<and> e \<noteq> RTR_ASPA_SUCCESS \<and> upd_result upd = Some None
      | Inr F \<Rightarrow> st = RTR_ASPA_SUCCESS \<and> upd_failed_operation upd = None \<and>
          (\<exists>new'. upd_result upd = Some (Some (s, new')) \<and> arr_data new' = F \<and> arr_capacity new' \<noteq> 0)"
    using swap_in_compute_merge [OF assms(1-7)] by blast
  have m: "case merge_ops (arranged ops) ?rs of
      Inl st \<Rightarrow> \<exists>c. customer_run (record_of ?rs c) (ops_of c ops) = Inl st
    | Inr F \<Rightarrow> strict F \<and> (\<forall>c. customer_run (record_of ?rs c) (ops_of c ops) = Inr (record_of F c))"
    using merge_ops_correct [OF arranged_sorted [of ops] rs(1)] assms(8)
    unfolding arranged_hyps(3) [OF assms(6)] arranged_ops_of [OF assms(6)] by blast
  show ?thesis
  proof (cases "merge_ops (arranged ops) ?rs")
    case (Inl e)
    have "store_ok (tbl1\<lparr>update_lock := False\<rparr>)" "socket_records (tbl1\<lparr>update_lock := False\<rparr>) t = socket_records tbl1 t" for t
      using c(4) by (simp_all add: store_ok_def socket_records_def cong: option.case_cong)
    then show ?thesis using Inl c m by (auto simp: swap_in_discard_fine)
  next
    case (Inr F)
    then obtain new' where n: "st = RTR_ASPA_SUCCESS" "upd_failed_operation upd = None"
      "upd_result upd = Some (Some (s, new'))" "arr_data new' = F" "arr_capacity new' \<noteq> 0" using c(6) by auto
    have "array_wf new'" using m Inr rs n(4,5) by (intro merged_array_wf [of F ?rs "\<lambda>c. ops_of c ops"]) auto
    from swap_in_apply_fine [OF n(3,2) c(3,4) this, of mem1] show ?thesis
      using c(1,2,5) n(1,4) m Inr by auto
  qed
qed

text \<open>C13: An ASPA update does what its operations say. For a batch in which an announcement replaces an
  existing record only at the largest customer ASN, with at most 128 replacing announcements and no
  failing allocation, the computation succeeds exactly when the operations of every customer can be
  carried out in their order of arrival; applying the update then leaves, for every customer, the
  record its operations lead to, all other sockets' records and the store's invariant intact. Else
  the status is that of a customer whose operations fail, and discarding the update leaves the
  records of all sockets as they were. The update lock is free again in both cases.\<close>

theorem update_applies_operations:
  assumes "store_ok tbl" "\<not> update_lock tbl" "False \<notin> set mem" "ops \<noteq> []" "removes_empty ops" "sorted (map op_index ops)"
    "length (replacing (socket_records tbl s) ops) \<le> 128" "replaces_last (socket_records tbl s) ops"
  shows "\<exists>st tbl1 upd mem1. aspa_table_update_swap_in_compute tbl s ops mem = Some (st, tbl1, Some upd, mem1) \<and>
    (if st = RTR_ASPA_SUCCESS then
       \<exists>tbl2 mem2. aspa_table_update_swap_in_apply tbl1 (Some upd) mem1 = Some (tbl2, mem2) \<and>
         \<not> update_lock tbl2 \<and> store_ok tbl2 \<and> (\<forall>t. t \<noteq> s \<longrightarrow> socket_records tbl2 t = socket_records tbl t) \<and>
         (\<forall>c. customer_run (record_of (socket_records tbl s) c) (ops_of c ops) = Inr (record_of (socket_records tbl2 s) c))
     else
       (\<exists>c. customer_run (record_of (socket_records tbl s) c) (ops_of c ops) = Inl st) \<and>
       (\<exists>tbl2 mem2. aspa_table_update_swap_in_discard tbl1 (Some upd) mem1 = Some (tbl2, mem2) \<and>
         \<not> update_lock tbl2 \<and> store_ok tbl2 \<and> (\<forall>t. socket_records tbl2 t = socket_records tbl t)))"
proof -
  obtain st tbl1 upd mem1 where "aspa_table_update_swap_in_compute tbl s ops mem = Some (st, tbl1, Some upd, mem1)"
    "if st = RTR_ASPA_SUCCESS then
       \<exists>tbl2 mem2. aspa_table_update_swap_in_apply tbl1 (Some upd) mem1 = Some (tbl2, mem2) \<and>
         \<not> update_lock tbl2 \<and> store_ok tbl2 \<and> (\<forall>t. t \<noteq> s \<longrightarrow> socket_records tbl2 t = socket_records tbl t) \<and>
         (\<forall>c. customer_run (record_of (socket_records tbl s) c) (ops_of c ops) = Inr (record_of (socket_records tbl2 s) c)) \<and>
         aspa_store_get_node (aspa_store tbl2) s \<noteq> None \<and> False \<notin> set mem2
     else
       (\<exists>c. customer_run (record_of (socket_records tbl s) c) (ops_of c ops) = Inl st) \<and>
       (\<exists>tbl2 mem2. aspa_table_update_swap_in_discard tbl1 (Some upd) mem1 = Some (tbl2, mem2) \<and>
         \<not> update_lock tbl2 \<and> store_ok tbl2 \<and> (\<forall>t. socket_records tbl2 t = socket_records tbl t))"
    using aspa_update_outcome [OF assms] by blast
  then show ?thesis by (cases "st = RTR_ASPA_SUCCESS") (simp_all, blast+)
qed

definition sample_ops :: "aspa_update_operation list" where
  "sample_ops = [\<lparr>op_index = 0, op_type = RTR_ASPA_REMOVE, op_record = \<lparr>customer_asn = 10, provider_asns = []\<rparr>, op_is_no_op = False\<rparr>,
     \<lparr>op_index = 1, op_type = RTR_ASPA_ADD, op_record = \<lparr>customer_asn = 20, provider_asns = [50, 40]\<rparr>, op_is_no_op = False\<rparr>,
     \<lparr>op_index = 2, op_type = RTR_ASPA_ADD, op_record = \<lparr>customer_asn = 15, provider_asns = [7]\<rparr>, op_is_no_op = False\<rparr>]"

theorem update_applies_operations_witness:
  "\<exists>st tbl1 upd mem1. aspa_table_update_swap_in_compute sample_aspa 1 sample_ops [] = Some (st, tbl1, Some upd, mem1) \<and>
    st = RTR_ASPA_SUCCESS"
proof -
  have h: "socket_records sample_aspa 1 = [\<lparr>customer_asn = 10, provider_asns = [20, 30]\<rparr>, \<lparr>customer_asn = 20, provider_asns = [40]\<rparr>]"
    by (simp add: socket_records_def sample_aspa_def)
  have run: "customer_run (record_of (socket_records sample_aspa 1) c) (ops_of c sample_ops) \<noteq> Inl st" for c st
    unfolding h by (auto simp: record_of_def sample_ops_def)
  have "store_ok sample_aspa" "\<not> update_lock sample_aspa" "sample_ops \<noteq> []" "removes_empty sample_ops"
    "sorted (map op_index sample_ops)" "length (replacing (socket_records sample_aspa 1) sample_ops) \<le> 128"
    "replaces_last (socket_records sample_aspa 1) sample_ops"
    unfolding h by (simp_all add: sample_aspa_def sample_ops_def store_ok_def array_wf_def removes_empty_def replacing_def
        replaces_last_def record_of_def)
  from update_applies_operations [OF this(1,2) _ this(3-7), of "[]"] show ?thesis
    using run by (auto split: if_splits)
qed

text \<open>What becomes of an existing record that an announcement replaces while operations on larger customers follow.\<close>

lemma plan_keeps_head:
  assumes "plan ops (e # r) = Inr (app, repl, r')" "ops \<noteq> []" "ops_above (customer_asn e) ops"
  shows "e \<in> set app"
proof -
  obtain o1 os where "ops = o1 # os" "customer_asn e < op_cas o1" using assms(2,3) by (cases ops) auto
  then show ?thesis using assms(1) by (auto simp: plan.simps(2) Let_def extend_plan_Inr split: if_splits)
qed

lemma strict_tl: "strict xs \<Longrightarrow> strict (tl xs)"
  by (cases xs) simp_all

lemma plan_Cons_elim:
  assumes "plan (op # ops) rs = Inr (app, repl, r)"
  obtains os' rs' app' repl' where "plan os' rs' = Inr (app', repl', r)" "set app' \<subseteq> set app"
    "os' = ops \<or> os' = tl ops \<and> next_is RTR_ASPA_REMOVE (op_cas op) ops"
    "rs' = dropWhile (\<lambda>e. customer_asn e < op_cas op) rs \<or>
     rs' = tl (dropWhile (\<lambda>e. customer_asn e < op_cas op) rs) \<and> existing_matches (op_cas op) (dropWhile (\<lambda>e. customer_asn e < op_cas op) rs)"
proof -
  define d where "d = dropWhile (\<lambda>e. customer_asn e < op_cas op) rs"
  note pl = assms [unfolded plan.simps(2) Let_def, folded d_def]
  note that' = that [folded d_def]
  show thesis
  proof (cases "op_type op = RTR_ASPA_ADD")
    case True
    then show ?thesis using pl that' [of "tl ops" "tl d"] that' [of "tl ops" d] that' [of ops d]
      by (simp add: extend_plan_Inr split: if_splits) fastforce+
  next
    case False
    then show ?thesis using pl that' [of ops "tl d"] by (simp add: extend_plan_Inr split: if_splits) fastforce
  qed
qed

lemma plan_keeps_replaced:
  assumes "plan ops rs = Inr (app, repl, r)" "sorted (map op_cas ops)" "strict rs"
    and "ops_of (customer_asn e) ops = [op]" "op_type op = RTR_ASPA_ADD" "e \<in> set rs" "\<exists>op'\<in>set ops. customer_asn e < op_cas op'"
  shows "e \<in> set app \<and> op_record (sorted_op op) \<in> set app"
  using assms(1-4,6,7)
proof (induction ops arbitrary: rs app repl r rule: length_induct)
  case (1 ops)
  let ?c = "customer_asn e"
  obtain o1 os where ops: "ops = o1 # os" using "1.prems"(4) by (cases ops) auto
  let ?P = "\<lambda>x. customer_asn x < op_cas o1"
  have "op \<in> set (ops_of ?c ops)" using "1.prems"(4) by simp
  then have le: "op_cas o1 \<le> ?c" using "1.prems"(2) ops by (auto split: if_splits)
  have sd: "e \<in> set (dropWhile ?P rs)" using "1.prems"(5) le takeWhile_dropWhile_id [of ?P rs]
    by (metis Un_iff leD set_append set_takeWhileD)
  have st: "strict (dropWhile ?P rs)"
    using "1.prems"(3) sorted_wrt_dropWhile [of "(\<lambda>x y. customer_asn x < customer_asn y)" rs ?P] by (simp add: sorted_wrt_map)
  then have st2: "strict (tl (dropWhile ?P rs))" by (rule strict_tl)
  show ?case
  proof (cases "op_cas o1 = ?c")
    case True
    then have o1: "o1 = op" "ops_of ?c os = []" using "1.prems"(4) ops by auto
    have ab: "ops_above ?c os" using "1.prems"(2) ops True o1(2) by (fastforce simp: filter_empty_conv)
    have ne: "os \<noteq> []" using "1.prems"(6) ops True by auto
    have n: "\<not> next_is ty ?c os" for ty using ab by (cases os) (auto simp: next_is_def)
    obtain e0 r0 where d: "dropWhile ?P rs = e0 # r0" using sd by (cases "dropWhile ?P rs") auto
    have "\<not> ?P e0" using hd_dropWhile [of ?P rs] d by simp
    then have "e0 = e" using sd st d True by auto
    then show ?thesis using "1.prems"(1) d o1(1) True n assms(5) plan_keeps_head [OF _ ne ab] ops
      by (auto simp: plan.simps(2) Let_def extend_plan_Inr split: if_splits)
  next
    case False
    then have lt: "op_cas o1 < ?c" using le by simp
    have os: "ops_of ?c os = [op]" "\<exists>op'\<in>set os. ?c < op_cas op'" using "1.prems"(4,6) ops False lt by auto
    obtain os' rs' app' repl' where n: "plan os' rs' = Inr (app', repl', r)" "set app' \<subseteq> set app"
      "os' = os \<or> os' = tl os \<and> next_is RTR_ASPA_REMOVE (op_cas o1) os"
      "rs' = dropWhile ?P rs \<or> rs' = tl (dropWhile ?P rs) \<and> existing_matches (op_cas o1) (dropWhile ?P rs)"
      using "1.prems"(1) unfolding ops by (rule plan_Cons_elim)
    have "length os' < length ops" "sorted (map op_cas os')" using n(3) ops "1.prems"(2) by (auto simp: map_tl sorted_tl)
    moreover have "ops_of ?c os' = [op]" "\<exists>op'\<in>set os'. ?c < op_cas op'"
      using n(3) os False lt by (cases os; auto simp: next_is_def)+
    moreover have "e \<in> set rs'" "strict rs'"
      using n(4) sd st st2 lt by (auto simp: existing_matches_def split: list.splits)
    ultimately show ?thesis using "1.IH" n(1,2) by blast
  qed
qed

text \<open>C33: An announcement that replaces a record leaves the old one in the table as well when the batch also has
  an operation on a larger customer ASN. Whatever the table and the rest of the batch, if the computation
  succeeds, then applying the update leaves both the old and the new record of the customer in the array of
  the socket. (The provider array of the old one has been freed by then.)\<close>

theorem update_keeps_replaced_record:
  assumes "store_ok tbl" "\<not> update_lock tbl" "False \<notin> set mem" "removes_empty ops" "sorted (map op_index ops)"
    "length (replacing (socket_records tbl s) ops) \<le> 128"
    and "old \<in> set (socket_records tbl s)" "ops_of (customer_asn old) ops = [op]" "op_type op = RTR_ASPA_ADD"
      "\<exists>op'\<in>set ops. customer_asn old < op_cas op'"
    and "aspa_table_update_swap_in_compute tbl s ops mem = Some (RTR_ASPA_SUCCESS, tbl1, Some upd, mem1)"
  shows "\<exists>tbl2 mem2. aspa_table_update_swap_in_apply tbl1 (Some upd) mem1 = Some (tbl2, mem2) \<and>
    old \<in> set (socket_records tbl2 s) \<and>
    \<lparr>customer_asn = customer_asn old, provider_asns = sort (provider_asns (op_record op))\<rparr> \<in> set (socket_records tbl2 s)"
proof -
  let ?rs = "socket_records tbl s"
  have ne: "ops \<noteq> []" using assms(10) by auto
  obtain i F new' where c: "aspa_store_get_node (aspa_store tbl1) s = Some i" "merge_ops (arranged ops) ?rs = Inr F"
    "upd_failed_operation upd = None" "upd_result upd = Some (Some (s, new'))" "arr_data new' = F"
    using swap_in_compute_merge [OF assms(1-3) ne assms(4-6)] assms(11) by (auto split: sum.splits)
  obtain app repl r where pl: "plan (arranged ops) ?rs = Inr (app, repl, r)" "F = app @ trim_rest app r"
    using c(2) by (auto simp: merge_ops_def split: sum.splits)
  have "\<exists>op'\<in>set (arranged ops). customer_asn old < op_cas op'" "ops_of (customer_asn old) (arranged ops) = [op]"
    using assms(8,10) arranged_ops_of [OF assms(5)] by auto
  then have kept: "old \<in> set F" "op_record (sorted_op op) \<in> set F"
    using plan_keeps_replaced [OF pl(1) arranged_sorted store_ok_socket_records(1) [OF assms(1)] _ assms(9,7)] pl(2) by auto
  have "op_cas op = customer_asn old" using assms(8) by (auto simp: filter_eq_Cons_iff)
  then have new: "op_record (sorted_op op) = \<lparr>customer_asn = customer_asn old, provider_asns = sort (provider_asns (op_record op))\<rparr>"
    by (simp add: op_record_sorted_op)
  let ?t = "tbl1\<lparr>aspa_store := (aspa_store tbl1)[i := (aspa_store tbl1 ! i)\<lparr>node_array := Some new'\<rparr>], update_lock := False\<rparr>"
  let ?r = "notify_operations ?t (upd_operations upd) s mem1"
  have "aspa_store (fst ?r) = (aspa_store tbl1)[i := (aspa_store tbl1 ! i)\<lparr>node_array := Some new'\<rparr>]"
    using notify_operations_keeps [of ?t "upd_operations upd" s mem1] by simp
  from socket_records_update [OF c(1) this] have "socket_records (fst ?r) s = F" using c(5) by simp
  moreover have "aspa_table_update_swap_in_apply tbl1 (Some upd) mem1 = Some (fst ?r, snd ?r)"
    using c(1,3,4) by (simp add: aspa_table_update_swap_in_apply_def)
  ultimately show ?thesis using kept new by (intro exI [of _ "fst ?r"] exI [of _ "snd ?r"]) simp
qed

definition replacing_ops :: "aspa_update_operation list" where
  "replacing_ops = [\<lparr>op_index = 0, op_type = RTR_ASPA_ADD, op_record = \<lparr>customer_asn = 10, provider_asns = [99]\<rparr>, op_is_no_op = False\<rparr>,
     \<lparr>op_index = 1, op_type = RTR_ASPA_ADD, op_record = \<lparr>customer_asn = 15, provider_asns = [7]\<rparr>, op_is_no_op = False\<rparr>]"

theorem update_keeps_replaced_record_witness:
  "\<exists>tbl1 upd mem1 tbl2 mem2. aspa_table_update_swap_in_compute sample_aspa 1 replacing_ops [] = Some (RTR_ASPA_SUCCESS, tbl1, Some upd, mem1) \<and>
     aspa_table_update_swap_in_apply tbl1 (Some upd) mem1 = Some (tbl2, mem2) \<and>
     \<lparr>customer_asn = 10, provider_asns = [20, 30]\<rparr> \<in> set (socket_records tbl2 1) \<and>
     \<lparr>customer_asn = 10, provider_asns = [99]\<rparr> \<in> set (socket_records tbl2 1)"
proof -
  let ?old = "\<lparr>customer_asn = 10, provider_asns = [20, 30]\<rparr>"
  have h: "socket_records sample_aspa 1 = [?old, \<lparr>customer_asn = 20, provider_asns = [40]\<rparr>]"
    by (simp add: socket_records_def sample_aspa_def)
  have "\<exists>tbl1 upd mem1. aspa_table_update_swap_in_compute sample_aspa 1 replacing_ops [] = Some (RTR_ASPA_SUCCESS, tbl1, Some upd, mem1)"
    by (simp add: sample_aspa_def replacing_ops_def aspa_table_update_swap_in_compute_def ensure_node_def aspa_array_create_def
      update_operation_key_def aspa_table_update_compute_internal_def aspa_array_reserve_def compute_ops.simps
      aspa_array_append_def aspa_array_insert_internal_def sizeof_aspa_record_def next_is_def existing_matches_def
      set_providers_def aspa_array_get_record_def Let_def)
  then obtain tbl1 upd mem1 where c: "aspa_table_update_swap_in_compute sample_aspa 1 replacing_ops [] = Some (RTR_ASPA_SUCCESS, tbl1, Some upd, mem1)"
    by blast
  have "store_ok sample_aspa" "\<not> update_lock sample_aspa" "False \<notin> set []" "removes_empty replacing_ops" "sorted (map op_index replacing_ops)"
    "length (replacing (socket_records sample_aspa 1) replacing_ops) \<le> 128" "?old \<in> set (socket_records sample_aspa 1)"
    "ops_of (customer_asn ?old) replacing_ops = [hd replacing_ops]" "op_type (hd replacing_ops) = RTR_ASPA_ADD"
    "\<exists>op'\<in>set replacing_ops. customer_asn ?old < op_cas op'"
    unfolding h by (simp_all add: sample_aspa_def store_ok_def array_wf_def removes_empty_def replacing_def replacing_ops_def)
  from update_keeps_replaced_record [OF this c] show ?thesis using c by (simp add: replacing_ops_def)
qed

lemma append_rest_grown:
  "arr_capacity a = 1128 \<Longrightarrow> arr_bytes a = 4072 \<Longrightarrow> arr_size a \<le> 169 \<Longrightarrow>
     append_rest rs a [] = None \<longleftrightarrow> 169 < arr_size a + length rs"
proof (induction rs arbitrary: a)
  case (Cons r rs)
  show ?case
  proof (cases "arr_size a < 169")
    case True
    let ?a = "a\<lparr>arr_data := arr_data a @ [r]\<rparr>"
    have "aspa_array_append a r False [] = Some (RTR_ASPA_SUCCESS, ?a, [])"
      using Cons.prems True by (simp add: aspa_array_append_def aspa_array_insert_internal_def sizeof_aspa_record_def)
    then show ?thesis using Cons.IH [of ?a] Cons.prems True by simp
  next
    case False
    then have "aspa_array_append a r False [] = None"
      using Cons.prems by (simp add: aspa_array_append_def aspa_array_insert_internal_def sizeof_aspa_record_def)
    then show ?thesis using False Cons.prems by simp
  qed
qed simp

lemma append_rest_fresh:
  "arr_capacity a = 128 \<Longrightarrow> arr_bytes a = 3072 \<Longrightarrow> arr_size a \<le> 128 \<Longrightarrow>
     append_rest rs a [] = None \<longleftrightarrow> 169 < arr_size a + length rs"
proof (induction rs arbitrary: a)
  case (Cons r rs)
  let ?a = "if arr_size a < 128 then a\<lparr>arr_data := arr_data a @ [r]\<rparr>
    else a\<lparr>arr_data := arr_data a @ [r], arr_capacity := 1128, arr_bytes := 4072\<rparr>"
  have "aspa_array_append a r False [] = Some (RTR_ASPA_SUCCESS, ?a, [])"
    using Cons.prems by (simp add: aspa_array_append_def aspa_array_insert_internal_def aspa_array_reallocate_def sizeof_aspa_record_def)
  then show ?case using Cons.IH [of ?a] append_rest_grown [of ?a rs] Cons.prems by (auto split: if_splits)
qed simp
text \<open>C34: Growing by appending overruns the block. With an allocator that never fails, appending a list of
  records to a fresh array works exactly up to 169 records: the 170th one is written past the end of the
  block, because the code enlarges the block by 1000 bytes and the capacity by 1000 records.\<close>

theorem append_overruns_block:
  "aspa_array_create [] = (RTR_ASPA_SUCCESS, Some a, mem) \<Longrightarrow> append_rest rs a mem = None \<longleftrightarrow> 169 < length rs"
  using append_rest_fresh [of a rs] by (auto simp: aspa_array_create_def sizeof_aspa_record_def)

theorem append_overruns_block_witness:
  "\<exists>a. aspa_array_create [] = (RTR_ASPA_SUCCESS, Some a, []) \<and>
     append_rest (replicate 170 \<lparr>customer_asn = 1, provider_asns = []\<rparr>) a [] = None"
proof -
  have c: "aspa_array_create [] = (RTR_ASPA_SUCCESS, Some \<lparr>arr_data = [], arr_capacity = 128, arr_bytes = 3072\<rparr>, [])"
    by (simp add: aspa_array_create_def sizeof_aspa_record_def)
  show ?thesis
    by (intro exI conjI, rule c)
      (use append_overruns_block [OF c, of "replicate 170 \<lparr>customer_asn = 1, provider_asns = []\<rparr>"] in simp)
qed

text \<open>An allocation failure wedges the table. When the socket has a node and the allocation of the new
  array fails, the computation returns an error with the update lock still held; neither discarding
  nor applying the update is defined (they read members that were never set), and removing the
  socket's records waits for the lock forever.\<close>

theorem failed_allocation_wedges_table:
  assumes "ops \<noteq> []" "\<not> update_lock tbl" "aspa_store_get_node (aspa_store tbl) s = Some i"
    "node_array (aspa_store tbl ! i) = Some a"
  shows "\<exists>tbl1 upd. aspa_table_update_swap_in_compute tbl s ops (True # False # mem) = Some (RTR_ASPA_ERROR, tbl1, Some upd, mem) \<and>
    aspa_table_update_swap_in_discard tbl1 (Some upd) mem = None \<and>
    aspa_table_update_swap_in_apply tbl1 (Some upd) mem = None \<and>
    rtr_aspa_table_src_remove (Some tbl1) s notify mem = None"
  using assms
  by (simp add: aspa_table_update_swap_in_compute_def ensure_node_def aspa_array_create_def
      aspa_table_update_swap_in_discard_def aspa_table_update_swap_in_apply_def Let_def)

theorem failed_allocation_wedges_table_witness:
  "\<exists>tbl1 upd. aspa_table_update_swap_in_compute sample_aspa 1 sample_ops [True, False] = Some (RTR_ASPA_ERROR, tbl1, Some upd, []) \<and>
    aspa_table_update_swap_in_discard tbl1 (Some upd) [] = None"
  using failed_allocation_wedges_table [of sample_ops sample_aspa 1 0
      "\<lparr>arr_data = [\<lparr>customer_asn = 10, provider_asns = [20, 30]\<rparr>, \<lparr>customer_asn = 20, provider_asns = [40]\<rparr>],
        arr_capacity = 128, arr_bytes = 3072\<rparr>" "[]" True]
  by (auto simp: sample_ops_def sample_aspa_def)

section \<open>Dropping and replacing the records of a socket\<close>

lemma notify_records_keeps:
  "case notify_records tbl rs s ty mem of (tbl', mem') \<Rightarrow>
     aspa_store tbl' = aspa_store tbl \<and> update_lock tbl' = update_lock tbl \<and> aspa_fp tbl' = aspa_fp tbl \<and> set mem' \<subseteq> set mem"
proof (induction rs arbitrary: tbl mem)
  case (Cons r rs)
  obtain st tbl1 mem1 where n: "aspa_table_notify_clients tbl r s ty mem = (st, tbl1, mem1)" by (metis prod_cases3)
  then show ?case using Cons.IH [of tbl1 mem1] notify_clients_keeps [OF n] by (auto split: prod.splits)
qed simp

lemma notify_records_frame [simp]:
  "aspa_store (fst (notify_records tbl rs s ty mem)) = aspa_store tbl" "update_lock (fst (notify_records tbl rs s ty mem)) = update_lock tbl"
  "aspa_fp (fst (notify_records tbl rs s ty mem)) = aspa_fp tbl" "set (snd (notify_records tbl rs s ty mem)) \<subseteq> set mem"
  using notify_records_keeps [where tbl = tbl and rs = rs and s = s and ty = ty and mem = mem] by (simp_all add: split_def)

lemma notify_records_fine: "False \<notin> set mem \<Longrightarrow> False \<notin> set (snd (notify_records tbl rs s ty mem))"
  using notify_records_frame(4) [of tbl rs s ty mem] by blast

lemma notify_records_log:
  "False \<notin> set mem \<Longrightarrow> aspa_log (fst (notify_records tbl rs s ty mem)) = aspa_log tbl @ (if aspa_fp tbl then map (\<lambda>r. (r, s, ty)) rs else [])"
proof (induction rs arbitrary: tbl mem)
  case (Cons r rs)
  obtain st tbl1 mem1 where n: "aspa_table_notify_clients tbl r s ty mem = (st, tbl1, mem1)" by (metis prod_cases3)
  have "aspa_log tbl1 = aspa_log tbl @ (if aspa_fp tbl then [(r, s, ty)] else [])"
    using n rtr_malloc_fine [OF Cons.prems] by (auto simp: aspa_table_notify_clients_def Let_def split: if_splits prod.splits)
  moreover have "False \<notin> set mem1" using notify_clients_keeps [OF n] Cons.prems by blast
  ultimately show ?case using n Cons.IH [of mem1 tbl1] notify_clients_keeps [OF n] by simp
qed simp

abbreviation one_node_each :: "rtr_aspa_table \<Rightarrow> bool" where
  "one_node_each tbl \<equiv> distinct (map node_socket (aspa_store tbl))"

lemma get_node_None: "aspa_store_get_node ns s = None \<longleftrightarrow> s \<notin> node_socket ` set ns"
  by (induction ns) auto

lemma get_node_remove:
  assumes "aspa_store_get_node ns s = Some i" "distinct (map node_socket ns)"
  shows "case aspa_store_get_node (remove_nth i ns) t of None \<Rightarrow> t = s \<or> aspa_store_get_node ns t = None
    | Some j \<Rightarrow> t \<noteq> s \<and> (\<exists>k. aspa_store_get_node ns t = Some k \<and> ns ! k = remove_nth i ns ! j)"
  using assms
proof (induction ns arbitrary: i)
  case (Cons n ns)
  show ?case
  proof (cases "node_socket n = s")
    case True
    then show ?thesis using Cons.prems get_node_None [of ns s]
      by (auto simp: remove_nth_def split: option.splits)
  next
    case False
    then obtain j where "i = Suc j" "aspa_store_get_node ns s = Some j" using Cons.prems(1) by auto
    then show ?thesis using Cons.IH [of j] Cons.prems False
      by (auto simp: remove_nth_def split: option.splits)
  qed
qed simp


lemma socket_records_remove:
  assumes "aspa_store_get_node (aspa_store tbl) s = Some i" "one_node_each tbl" "aspa_store tbl' = remove_nth i (aspa_store tbl)"
  shows "socket_records tbl' t = (if t = s then [] else socket_records tbl t)"
  using get_node_remove [OF assms(1,2), of t] assms(3) by (auto simp: socket_records_def split: option.splits)

lemma aspa_src_remove_outcome:
  assumes "one_node_each tbl" "\<not> update_lock tbl"
  shows "\<exists>tbl' mem'. rtr_aspa_table_src_remove (Some tbl) s notify mem = Some (RTR_ASPA_SUCCESS, Some tbl', mem') \<and>
    (\<forall>t. socket_records tbl' t = (if t = s then [] else socket_records tbl t)) \<and> one_node_each tbl' \<and> (store_ok tbl \<longrightarrow> store_ok tbl') \<and>
    \<not> update_lock tbl' \<and> set mem' \<subseteq> set mem"
proof (cases "aspa_store_get_node (aspa_store tbl) s")
  case None
  then show ?thesis using assms by (auto simp: socket_records_def)
next
  case (Some i)
  define t1 where "t1 = tbl\<lparr>aspa_store := remove_nth i (aspa_store tbl)\<rparr>"
  define res where "res = (case node_array (aspa_store tbl ! i) of None \<Rightarrow> (t1, mem)
    | Some a \<Rightarrow> if notify then notify_records t1 (arr_data a) (node_socket (aspa_store tbl ! i)) RTR_ASPA_REMOVE mem else (t1, mem))"
  have i: "i < length (aspa_store tbl)" using get_node_Some [OF Some] by simp
  have eq: "rtr_aspa_table_src_remove (Some tbl) s notify mem = Some (RTR_ASPA_SUCCESS, Some (fst res), snd res)"
    using Some i assms(2) by (auto simp: aspa_table_remove_node_def aspa_store_remove_node_def t1_def res_def Let_def split: option.splits prod.splits)
  have f: "aspa_store (fst res) = remove_nth i (aspa_store tbl)" "update_lock (fst res) = update_lock tbl" "set (snd res) \<subseteq> set mem"
    using notify_records_frame(4) by (auto simp: res_def t1_def split: option.splits)
  have "set (remove_nth i (aspa_store tbl)) \<subseteq> set (aspa_store tbl)" "distinct (map node_socket (remove_nth i (aspa_store tbl)))"
    using distinct_remove_nth [OF assms(1), of i] by (auto simp: remove_nth_def take_map drop_map dest: in_set_takeD in_set_dropD)
  then show ?thesis using eq f socket_records_remove [OF Some assms(1) f(1)] assms(2) by (auto simp: store_ok_def)
qed


lemma socket_records_create:
  assumes "aspa_store_get_node (aspa_store tbl) s = None" "aspa_store tbl' = \<lparr>node_array = Some a, node_socket = s\<rparr> # aspa_store tbl"
  shows "socket_records tbl' t = (if t = s then arr_data a else socket_records tbl t)"
  using assms by (auto simp: socket_records_def split: option.splits)

lemma one_node_each_update:
  assumes "one_node_each tbl" "i < length (aspa_store tbl)" "aspa_store tbl' = (aspa_store tbl)[i := (aspa_store tbl ! i)\<lparr>node_array := a\<rparr>]"
  shows "one_node_each tbl'"
proof -
  have "map node_socket (aspa_store tbl') = map node_socket (aspa_store tbl)"
    using assms(2,3) by (simp add: map_update list_update_same_conv)
  then show ?thesis using assms(1) by simp
qed

lemma aspa_src_replace_outcome:
  assumes "one_node_each dst" "\<not> update_lock dst" "\<not> update_lock src" "store_ok dst" "store_ok src"
    and "aspa_store_get_node (aspa_store src) s = Some si" "False \<notin> set mem"
  shows "\<exists>dst' src' mem'. aspa_table_src_replace (Some dst) (Some src) s nd ns mem = Some (RTR_ASPA_SUCCESS, Some dst', Some src', mem') \<and>
    (\<forall>t. socket_records dst' t = (if t = s then socket_records src s else socket_records dst t)) \<and>
    one_node_each dst' \<and> store_ok dst' \<and> \<not> update_lock dst' \<and> \<not> update_lock src' \<and> False \<notin> set mem' \<and>
    aspa_log dst' = aspa_log dst @ (if nd \<and> aspa_fp dst then map (\<lambda>r. (r, s, RTR_ASPA_REMOVE)) (socket_records dst s) @
      map (\<lambda>r. (r, s, RTR_ASPA_ADD)) (socket_records src s) else [])"
proof -
  have "aspa_store src ! si \<in> set (aspa_store src)" using get_node_Some [OF assms(6)] by simp
  then obtain a where a: "node_array (aspa_store src ! si) = Some a" "array_wf a" using assms(5) by (auto simp: store_ok_def split: option.splits)
  have rec: "socket_records src s = arr_data a" using assms(6) a by (simp add: socket_records_def)
  define res where "res = (case aspa_store_get_node (aspa_store dst) s of
      Some di \<Rightarrow> (node_array (aspa_store dst ! di), (aspa_store dst)[di := (aspa_store dst ! di)\<lparr>node_array := Some a\<rparr>], mem)
    | None \<Rightarrow> (None, \<lparr>node_array = Some a, node_socket = s\<rparr> # aspa_store dst, snd (rtr_malloc mem)))"
  obtain old store mem1 where r: "res = (old, store, mem1)" by (cases res)
  define d1 where "d1 = dst\<lparr>aspa_store := store\<rparr>"
  have d1: "\<forall>t. socket_records d1 t = (if t = s then arr_data a else socket_records dst t)" "one_node_each d1" "store_ok d1" "\<not> update_lock d1"
      "False \<notin> set mem1"
    using r socket_records_update [of dst s _ d1 a] socket_records_create [of dst s d1 a] one_node_each_update [of dst _ d1] assms(1,2,4,7) a(2)
      get_node_None [of "aspa_store dst" s] rtr_malloc_fine [OF assms(7)] get_node_Some [of "aspa_store dst" s]
    by (auto simp: res_def d1_def store_ok_def split: option.splits dest!: set_update_subset_insert [THEN subsetD])
  define s1 where "s1 = src\<lparr>aspa_store := aspa_store_remove_node (aspa_store src) si\<rparr>"
  define r1 where "r1 = (if ns then notify_records s1 (arr_data a) s RTR_ASPA_REMOVE mem1 else (s1, mem1))"
  define r2 where "r2 = (case old of None \<Rightarrow> (d1, snd r1) | Some oa \<Rightarrow> if nd then notify_records d1 (arr_data oa) s RTR_ASPA_REMOVE (snd r1) else (d1, snd r1))"
  define r3 where "r3 = (if nd then notify_records (fst r2) (arr_data a) s RTR_ASPA_ADD (snd r2) else r2)"
  have eq: "aspa_table_src_replace (Some dst) (Some src) s nd ns mem = Some (RTR_ASPA_SUCCESS, Some (fst r3), Some (fst r1), snd r3)"
    using r assms(2,3,6) a(1) rtr_malloc_fine [OF assms(7)]
    by (auto simp: res_def d1_def s1_def r1_def r2_def r3_def aspa_store_create_node_def split_def Let_def split: option.splits)
  have f: "aspa_store (fst r3) = aspa_store d1" "update_lock (fst r3) = update_lock d1" "update_lock (fst r1) = update_lock src"
      "set (snd r3) \<subseteq> set mem1"
    using notify_records_frame(4) [THEN subset_trans] by (auto simp: r1_def r2_def r3_def s1_def split: option.splits)
  have "socket_records (fst r3) = socket_records d1" "store_ok (fst r3) = store_ok d1" unfolding fun_eq_iff socket_records_def store_ok_def f(1) by simp_all
  moreover have "aspa_log (fst r3) = aspa_log dst @ (if nd \<and> aspa_fp dst then map (\<lambda>r. (r, s, RTR_ASPA_REMOVE)) (socket_records dst s) @
      map (\<lambda>r. (r, s, RTR_ASPA_ADD)) (socket_records src s) else [])"
  proof -
    have m1: "False \<notin> set (snd r1)" using d1(5) by (simp add: r1_def notify_records_fine)
    then have m2: "False \<notin> set (snd r2)" by (simp add: r2_def notify_records_fine split: option.splits)
    have fp: "aspa_fp (fst r2) = aspa_fp dst" by (auto simp: r2_def d1_def split: option.splits)
    have "socket_records dst s = (case old of None \<Rightarrow> [] | Some oa \<Rightarrow> arr_data oa)"
      using r by (auto simp: res_def socket_records_def split: option.splits)
    then have "aspa_log (fst r2) = aspa_log dst @ (if nd \<and> aspa_fp dst then map (\<lambda>r. (r, s, RTR_ASPA_REMOVE)) (socket_records dst s) else [])"
      using notify_records_log [OF m1] by (auto simp: r2_def d1_def split: option.splits)
    then show ?thesis using notify_records_log [OF m2, of "fst r2"] fp rec by (auto simp: r3_def)
  qed
  ultimately show ?thesis unfolding eq using d1 f rec assms(3) by auto
qed

lemma aspa_src_replace_missing:
  assumes "\<not> update_lock dst" "\<not> update_lock src" "aspa_store_get_node (aspa_store src) s = None"
  shows "aspa_table_src_replace (Some dst) (Some src) s nd ns mem = Some (RTR_ASPA_ERROR, Some dst, Some src, mem)"
  using assms by simp

end
