(* ===== verification/Tommy_Hashlin.thy ===== *)
theory Tommy_Hashlin
  imports Rtr_Prelude
begin

text \<open>
  The linear hash table of \<^verbatim>\<open>third-party/tommyds/tommyhashlin.c\<close>, which the SPKI table is built on. Buckets are
  split (or joined) one at a time while elements come and go, so that between two operations the
  table may be half-way between two sizes.

  The segments of the bucket vector are one list of positions; a position is \<^const>\<open>None\<close> while its
  memory has been allocated but not yet written. Reading such a position, or one outside of the
  vector, is undefined and gives \<^const>\<open>None\<close>, and so does growing to \<open>2^31\<close> buckets. A bucket is the
  list of its nodes, a node its key and the datum it is embedded in. The intrusive doubly linked lists of
  \<^verbatim>\<open>tommylist.h\<close> are lists. The table's own allocations, whose result the code does not check, succeed.

  The laws that a client needs are the locale \<open>node_store\<close>; the table is an instance of it.
\<close>

section \<open>State\<close>

datatype hashlin_state = TOMMY_HASHLIN_STATE_STABLE | TOMMY_HASHLIN_STATE_GROW | TOMMY_HASHLIN_STATE_SHRINK

type_synonym 'a node = "u32 \<times> 'a"

record 'a tommy_hashlin =
  hl_bucket :: "'a node list option list"
  bucket_bit :: nat
  bucket_max :: nat
  bucket_mask :: u32
  low_max :: nat
  low_mask :: u32
  hl_split :: nat
  hl_count :: nat
  hl_state :: hashlin_state

definition TOMMY_HASHLIN_BIT :: nat where
  "TOMMY_HASHLIN_BIT = 6"

section \<open>The integer hash\<close>

definition tommy_inthash_u32 :: "u32 \<Rightarrow> u32" where
  "tommy_inthash_u32 key =
     (let key = key - push_bit 6 key;
          key = key XOR drop_bit 17 key;
          key = key - push_bit 9 key;
          key = key XOR push_bit 4 key;
          key = key - push_bit 3 key;
          key = key XOR push_bit 10 key;
          key = key XOR drop_bit 15 key in
      key)"

section \<open>Lists\<close>

definition tommy_list_insert_tail :: "'a list \<Rightarrow> 'a \<Rightarrow> 'a list" where
  "tommy_list_insert_tail xs x = xs @ [x]"

text \<open>Removing a node that is in the list; nodes of one list are distinct.\<close>

definition tommy_list_remove_existing :: "'a list \<Rightarrow> 'a \<Rightarrow> 'a list" where
  "tommy_list_remove_existing xs x = remove1 x xs"

definition tommy_list_concat :: "'a list \<Rightarrow> 'a list \<Rightarrow> 'a list" where
  "tommy_list_concat xs ys = xs @ ys"

section \<open>Operations\<close>

definition tommy_hashlin_stable :: "'a tommy_hashlin \<Rightarrow> 'a tommy_hashlin" where
  "tommy_hashlin_stable h =
     h\<lparr>hl_state := TOMMY_HASHLIN_STATE_STABLE, low_max := bucket_max h, low_mask := bucket_mask h, hl_split := 0\<rparr>"

definition tommy_hashlin_init :: "'a tommy_hashlin" where
  "tommy_hashlin_init =
     tommy_hashlin_stable
       \<lparr>hl_bucket = replicate (2 ^ TOMMY_HASHLIN_BIT) (Some []), bucket_bit = TOMMY_HASHLIN_BIT,
        bucket_max = 2 ^ TOMMY_HASHLIN_BIT, bucket_mask = of_nat (2 ^ TOMMY_HASHLIN_BIT - 1), low_max = 0, low_mask = 0,
        hl_split = 0, hl_count = 0, hl_state = TOMMY_HASHLIN_STATE_STABLE\<rparr>"

text \<open>Contents of a position.\<close>

definition tommy_hashlin_pos :: "'a tommy_hashlin \<Rightarrow> nat \<Rightarrow> 'a node list option" where
  "tommy_hashlin_pos h pos = (if pos < length (hl_bucket h) then hl_bucket h ! pos else None)"

definition tommy_hashlin_bucket_ref :: "'a tommy_hashlin \<Rightarrow> u32 \<Rightarrow> nat" where
  "tommy_hashlin_bucket_ref h hash =
     (let pos = unat (hash AND low_mask h); high_pos = unat (hash AND bucket_mask h) in
      if pos < hl_split h then high_pos else pos)"

definition tommy_hashlin_bucket :: "'a tommy_hashlin \<Rightarrow> u32 \<Rightarrow> 'a node list option" where
  "tommy_hashlin_bucket h hash = tommy_hashlin_pos h (tommy_hashlin_bucket_ref h hash)"

fun search_nodes :: "('a \<Rightarrow> bool) \<Rightarrow> u32 \<Rightarrow> 'a node list \<Rightarrow> 'a option" where
  "search_nodes cmp hash [] = None"
| "search_nodes cmp hash (n # ns) = (if fst n = hash \<and> cmp (snd n) then Some (snd n) else search_nodes cmp hash ns)"

definition tommy_hashlin_search :: "'a tommy_hashlin \<Rightarrow> ('a \<Rightarrow> bool) \<Rightarrow> u32 \<Rightarrow> 'a option option" where
  "tommy_hashlin_search h cmp hash = map_option (search_nodes cmp hash) (tommy_hashlin_bucket h hash)"

text \<open>Splitting the bucket at the split position into its low and its high half.\<close>

definition split_bucket :: "'a tommy_hashlin \<Rightarrow> 'a tommy_hashlin option" where
  "split_bucket h =
     do {
       j \<leftarrow> tommy_hashlin_pos h (hl_split h);
       let high = hl_split h + low_max h;
       if high < length (hl_bucket h) then
         Some (h\<lparr>hl_bucket := (hl_bucket h)[hl_split h := Some (filter (\<lambda>n. fst n AND of_nat (low_max h) = 0) j),
                                          high := Some (filter (\<lambda>n. fst n AND of_nat (low_max h) \<noteq> 0) j)],
                 hl_split := hl_split h + 1\<rparr>)
       else None
     }"

lemma split_bucket_Some:
  "split_bucket h = Some h' \<Longrightarrow> hl_split h' = hl_split h + 1 \<and> low_max h' = low_max h"
  by (auto simp: split_bucket_def bind_Some_iff Let_def split: if_splits)

function grow_loop :: "nat \<Rightarrow> 'a tommy_hashlin \<Rightarrow> 'a tommy_hashlin option" where
  "grow_loop split_target h =
     (if hl_split h + low_max h < split_target then
        do {
          h' \<leftarrow> split_bucket h;
          if hl_split h' = low_max h' then Some (tommy_hashlin_stable h') else grow_loop split_target h'
        }
      else Some h)"
  by pat_completeness auto
termination
  by (relation "measure (\<lambda>(t, h). t - (hl_split h + low_max h))") (auto dest: split_bucket_Some)

declare grow_loop.simps [simp del]

definition grow_setup :: "'a tommy_hashlin \<Rightarrow> 'a tommy_hashlin option" where
  "grow_setup h =
     (if bucket_bit h \<ge> 30 then None
      else Some (h\<lparr>low_max := bucket_max h, low_mask := bucket_mask h,
                   hl_bucket := hl_bucket h @ replicate (bucket_max h) None,
                   bucket_bit := bucket_bit h + 1, bucket_max := 2 ^ (bucket_bit h + 1),
                   bucket_mask := of_nat (2 ^ (bucket_bit h + 1) - 1), hl_split := 0\<rparr>))"

definition hashlin_grow_step :: "'a tommy_hashlin \<Rightarrow> 'a tommy_hashlin option" where
  "hashlin_grow_step h =
     do {
       h \<leftarrow> (if hl_state h \<noteq> TOMMY_HASHLIN_STATE_GROW \<and> hl_count h > bucket_max h div 2 then
               do {
                 h \<leftarrow> (if hl_state h = TOMMY_HASHLIN_STATE_STABLE then grow_setup h else Some h);
                 Some (h\<lparr>hl_state := TOMMY_HASHLIN_STATE_GROW\<rparr>)
               }
             else Some h);
       if hl_state h = TOMMY_HASHLIN_STATE_GROW then
         grow_loop (2 * hl_count h mod 2 ^ 32) h
       else Some h
     }"

text \<open>Joining the high half of the bucket before the split position to the low half.\<close>

definition join_bucket :: "'a tommy_hashlin \<Rightarrow> 'a tommy_hashlin option" where
  "join_bucket h =
     (if hl_split h = 0 then None
      else
        let s = hl_split h - 1 in
        do {
          lo \<leftarrow> tommy_hashlin_pos h s;
          hi \<leftarrow> tommy_hashlin_pos h (s + low_max h);
          Some (h\<lparr>hl_bucket := (hl_bucket h)[s := Some (tommy_list_concat lo hi)], hl_split := s\<rparr>)
        })"

definition shrink_finish :: "'a tommy_hashlin \<Rightarrow> 'a tommy_hashlin" where
  "shrink_finish h =
     tommy_hashlin_stable
       (h\<lparr>bucket_bit := bucket_bit h - 1, bucket_max := 2 ^ (bucket_bit h - 1),
          bucket_mask := of_nat (2 ^ (bucket_bit h - 1) - 1), hl_bucket := take (2 ^ (bucket_bit h - 1)) (hl_bucket h)\<rparr>)"

lemma join_bucket_Some:
  "join_bucket h = Some h' \<Longrightarrow> hl_split h = hl_split h' + 1 \<and> low_max h' = low_max h"
  by (auto simp: join_bucket_def bind_Some_iff Let_def split: if_splits)

function shrink_loop :: "nat \<Rightarrow> 'a tommy_hashlin \<Rightarrow> 'a tommy_hashlin option" where
  "shrink_loop split_target h =
     (if hl_split h + low_max h > split_target then
        do {
          h' \<leftarrow> join_bucket h;
          if hl_split h' = 0 then Some (shrink_finish h') else shrink_loop split_target h'
        }
      else Some h)"
  by pat_completeness auto
termination
  by (relation "measure (\<lambda>(t, h). hl_split h)") (auto dest: join_bucket_Some)

declare shrink_loop.simps [simp del]

definition hashlin_shrink_step :: "'a tommy_hashlin \<Rightarrow> 'a tommy_hashlin option" where
  "hashlin_shrink_step h =
     (let h = (if hl_state h \<noteq> TOMMY_HASHLIN_STATE_SHRINK \<and> hl_count h < bucket_max h div 8 \<and> bucket_bit h > TOMMY_HASHLIN_BIT then
                 (if hl_state h = TOMMY_HASHLIN_STATE_STABLE then
                    h\<lparr>low_max := bucket_max h div 2, low_mask := drop_bit 1 (bucket_mask h), hl_split := bucket_max h div 2\<rparr>
                  else h)\<lparr>hl_state := TOMMY_HASHLIN_STATE_SHRINK\<rparr>
               else h) in
      if hl_state h = TOMMY_HASHLIN_STATE_SHRINK then
        shrink_loop (8 * hl_count h mod 2 ^ 32) h
      else Some h)"

definition tommy_hashlin_insert :: "'a tommy_hashlin \<Rightarrow> 'a \<Rightarrow> u32 \<Rightarrow> 'a tommy_hashlin option" where
  "tommy_hashlin_insert h data hash =
     do {
       let pos = tommy_hashlin_bucket_ref h hash;
       b \<leftarrow> tommy_hashlin_pos h pos;
       hashlin_grow_step
         (h\<lparr>hl_bucket := (hl_bucket h)[pos := Some (tommy_list_insert_tail b (hash, data))], hl_count := hl_count h + 1\<rparr>)
     }"

text \<open>Unlinking a node from the bucket its key belongs to.\<close>

definition unlink_node :: "'a tommy_hashlin \<Rightarrow> 'a node \<Rightarrow> 'a tommy_hashlin option" where
  "unlink_node h n =
     do {
       let pos = tommy_hashlin_bucket_ref h (fst n);
       b \<leftarrow> tommy_hashlin_pos h pos;
       hashlin_shrink_step
         (h\<lparr>hl_bucket := (hl_bucket h)[pos := Some (tommy_list_remove_existing b n)], hl_count := hl_count h - 1\<rparr>)
     }"

definition tommy_hashlin_remove_existing :: "'a tommy_hashlin \<Rightarrow> 'a node \<Rightarrow> ('a \<times> 'a tommy_hashlin) option" where
  "tommy_hashlin_remove_existing h n = map_option (Pair (snd n)) (unlink_node h n)"

definition tommy_hashlin_remove :: "'a tommy_hashlin \<Rightarrow> ('a \<Rightarrow> bool) \<Rightarrow> u32 \<Rightarrow> ('a option \<times> 'a tommy_hashlin) option" where
  "tommy_hashlin_remove h cmp hash =
     do {
       b \<leftarrow> tommy_hashlin_pos h (tommy_hashlin_bucket_ref h hash);
       case search_nodes cmp hash b of
         None \<Rightarrow> Some (None, h)
       | Some d \<Rightarrow> map_option (Pair (Some d)) (unlink_node h (hash, d))
     }"

definition tommy_hashlin_done :: "'a tommy_hashlin \<Rightarrow> 'a tommy_hashlin" where
  "tommy_hashlin_done h = h\<lparr>hl_bucket := []\<rparr>"

section \<open>Positions\<close>

text \<open>The position of a key when buckets below \<open>s\<close> of \<open>2^k\<close> buckets have been split.\<close>

definition lin_pos :: "nat \<Rightarrow> nat \<Rightarrow> u32 \<Rightarrow> nat" where
  "lin_pos k s key = (if unat key mod 2 ^ k < s then unat key mod 2 ^ (k + 1) else unat key mod 2 ^ k)"

lemma unat_and_mask: "unat (w AND mask k) = unat w mod 2 ^ k" for w :: u32
  by (metis take_bit_eq_mask take_bit_eq_mod unsigned_take_bit_eq)

lemma of_nat_mask: "of_nat (2 ^ k - 1) = (mask k :: u32)"
  by (metis mask_nat_def of_nat_mask_eq)

lemma and_pow_iff: "(w AND of_nat (2 ^ k) = 0) = even (unat w div 2 ^ k)" for w :: u32
proof -
  have "bit w k = bit (unat w) k" by (simp add: bit_unsigned_iff)
  then show ?thesis by (simp add: and_exp_eq_0_iff_not_bit bit_iff_odd [of "unat w"])
qed

lemma mod_pow_Suc: "(n :: nat) mod 2 ^ (k + 1) = (if even (n div 2 ^ k) then n mod 2 ^ k else n mod 2 ^ k + 2 ^ k)"
  by (simp add: mod2_eq_if mod_mult2_eq mult.commute [of 2])

lemma lin_pos_less: "s \<le> 2 ^ k \<Longrightarrow> lin_pos k s key < 2 ^ k + s"
  unfolding lin_pos_def mod_pow_Suc by (auto simp: less_le_trans [OF mod_less_divisor])

lemma lin_pos_full: "lin_pos k (2 ^ k) key = lin_pos (k + 1) 0 key"
  by (simp add: lin_pos_def)

lemma lin_pos_at_split:
  "s < 2 ^ k \<Longrightarrow> lin_pos k s key = s \<longleftrightarrow> unat key mod 2 ^ k = s"
  unfolding lin_pos_def mod_pow_Suc by auto

lemma lin_pos_Suc:
  "s < 2 ^ k \<Longrightarrow> lin_pos k (Suc s) key = (if unat key mod 2 ^ k = s
     then (if even (unat key div 2 ^ k) then s else s + 2 ^ k) else lin_pos k s key)"
  unfolding lin_pos_def mod_pow_Suc by auto

section \<open>Invariant\<close>

definition buckets_ok :: "nat \<Rightarrow> nat \<Rightarrow> 'a node list option list \<Rightarrow> bool" where
  "buckets_ok k s bs = (2 ^ k + s \<le> length bs \<and> s \<le> 2 ^ k \<and>
     (\<forall>p<2 ^ k + s. \<exists>b. bs ! p = Some b \<and> (\<forall>n\<in>set b. lin_pos k s (fst n) = p)))"

definition pos_nodes :: "'a node list option list \<Rightarrow> nat \<Rightarrow> 'a node multiset" where
  "pos_nodes bs p = (case bs ! p of None \<Rightarrow> {#} | Some b \<Rightarrow> mset b)"

definition nodes_upto :: "'a node list option list \<Rightarrow> nat \<Rightarrow> 'a node multiset" where
  "nodes_upto bs m = (\<Sum>p<m. pos_nodes bs p)"

lemma buckets_okD: "buckets_ok k s bs \<Longrightarrow> p < 2 ^ k + s \<Longrightarrow> \<exists>b. bs ! p = Some b \<and> (\<forall>n\<in>set b. lin_pos k s (fst n) = p)"
  by (simp add: buckets_ok_def)

lemma nodes_upto_update:
  assumes "p < m" "m \<le> length bs"
  shows "nodes_upto (bs[p := Some b]) m + pos_nodes bs p = nodes_upto bs m + mset b"
proof -
  have split: "nodes_upto cs m = pos_nodes cs p + (\<Sum>q\<in>{..<m} - {p}. pos_nodes cs q)" for cs :: "'a node list option list"
    using assms(1) by (simp add: nodes_upto_def sum.remove)
  have "(\<Sum>q\<in>{..<m} - {p}. pos_nodes (bs[p := Some b]) q) = (\<Sum>q\<in>{..<m} - {p}. pos_nodes bs q)"
    by (rule sum.cong) (auto simp: pos_nodes_def)
  then show ?thesis using assms by (simp add: split pos_nodes_def)
qed

lemma nodes_upto_update_beyond: "m \<le> p \<Longrightarrow> nodes_upto (bs[p := x]) m = nodes_upto bs m"
  unfolding nodes_upto_def by (rule sum.cong) (auto simp: pos_nodes_def)

lemma nodes_upto_Suc: "nodes_upto bs (Suc m) = nodes_upto bs m + pos_nodes bs m"
  by (simp add: nodes_upto_def)

lemma buckets_ok_full: "buckets_ok k (2 ^ k) bs = buckets_ok (k + 1) 0 bs"
  unfolding buckets_ok_def lin_pos_full by (simp add: mult_2)

lemma split_ok:
  assumes ok: "buckets_ok k s bs" and s: "s < 2 ^ k" and len: "2 ^ (k + 1) \<le> length bs" and j: "bs ! s = Some j"
  defines "lo \<equiv> filter (\<lambda>n. even (unat (fst n) div 2 ^ k)) j" and "hi \<equiv> filter (\<lambda>n. \<not> even (unat (fst n) div 2 ^ k)) j"
  defines "bs' \<equiv> bs[s := Some lo, s + 2 ^ k := Some hi]"
  shows "buckets_ok k (Suc s) bs' \<and> nodes_upto bs' (2 ^ k + (Suc s)) = nodes_upto bs (2 ^ k + s)"
proof
  have len': "s + 2 ^ k < length bs" using s len by simp
  have jn: "unat (fst n) mod 2 ^ k = s" if "n \<in> set j" for n
    using buckets_okD [OF ok, of s] j that s lin_pos_at_split [OF s] by auto
  show "buckets_ok k (Suc s) bs'"
    unfolding buckets_ok_def
  proof (intro conjI allI impI)
    fix p assume p: "p < 2 ^ k + (Suc s)"
    consider "p = s" | "p = s + 2 ^ k" | "p \<noteq> s" "p < 2 ^ k + s" using p by linarith
    then show "\<exists>b. bs' ! p = Some b \<and> (\<forall>n\<in>set b. lin_pos k (Suc s) (fst n) = p)"
    proof cases
      case 1
      then show ?thesis using len' jn by (auto simp: bs'_def lo_def lin_pos_Suc [OF s])
    next
      case 2
      then show ?thesis using len' jn by (auto simp: bs'_def hi_def lin_pos_Suc [OF s])
    next
      case 3
      then obtain b where b: "bs ! p = Some b" "\<forall>n\<in>set b. lin_pos k s (fst n) = p" using buckets_okD [OF ok] by blast
      have "lin_pos k (Suc s) (fst n) = p" if "n \<in> set b" for n
        using b(2) that 3(1) lin_pos_at_split [OF s] lin_pos_Suc [OF s] by auto
      then show ?thesis using b(1) 3 by (auto simp: bs'_def)
    qed
  qed (use s len' in \<open>auto simp: bs'_def\<close>)
  have "nodes_upto bs' (2 ^ k + (Suc s)) = nodes_upto (bs[s := Some lo]) (2 ^ k + s) + mset hi"
    using len' by (simp add: bs'_def nodes_upto_Suc nodes_upto_update_beyond pos_nodes_def add.commute)
  moreover have "nodes_upto (bs[s := Some lo]) (2 ^ k + s) + mset j = nodes_upto bs (2 ^ k + s) + mset lo"
    using nodes_upto_update [of s "2 ^ k + s" bs lo] len' j by (simp add: pos_nodes_def)
  moreover have "mset j = mset lo + mset hi" by (simp add: lo_def hi_def multiset_partition)
  ultimately show "nodes_upto bs' (2 ^ k + (Suc s)) = nodes_upto bs (2 ^ k + s)" by simp
qed

lemma join_ok:
  assumes ok: "buckets_ok k (Suc s) bs"
  shows "\<exists>lo hi. bs ! s = Some lo \<and> bs ! (s + 2 ^ k) = Some hi \<and>
    buckets_ok k s (bs[s := Some (lo @ hi)]) \<and> nodes_upto (bs[s := Some (lo @ hi)]) (2 ^ k + s) = nodes_upto bs (2 ^ k + (Suc s))"
proof -
  have s: "s < 2 ^ k" and len: "2 ^ k + s < length bs" using ok by (auto simp: buckets_ok_def)
  obtain lo where lo: "bs ! s = Some lo" "\<forall>n\<in>set lo. lin_pos k (Suc s) (fst n) = s"
    using buckets_okD [OF ok, of s] by auto
  obtain hi where hi: "bs ! (s + 2 ^ k) = Some hi" "\<forall>n\<in>set hi. lin_pos k (Suc s) (fst n) = s + 2 ^ k"
    using buckets_okD [OF ok, of "s + 2 ^ k"] by auto
  have joined: "lin_pos k s key = s" if "lin_pos k (Suc s) key = s \<or> lin_pos k (Suc s) key = s + 2 ^ k" for key
    using that s lin_pos_less [of s k key] by (auto simp: lin_pos_Suc [OF s] lin_pos_at_split [OF s] split: if_splits)
  have "\<exists>b. bs[s := Some (lo @ hi)] ! p = Some b \<and> (\<forall>n\<in>set b. lin_pos k s (fst n) = p)" if p: "p < 2 ^ k + s" for p
  proof (cases "p = s")
    case True
    then show ?thesis using lo(2) hi(2) joined len by auto
  next
    case False
    obtain b where b: "bs ! p = Some b" "\<forall>n\<in>set b. lin_pos k (Suc s) (fst n) = p" using buckets_okD [OF ok, of p] p by auto
    have "lin_pos k s (fst n) = p" if "n \<in> set b" for n
      using b(2) that False p lin_pos_Suc [OF s, of "fst n"] by (auto split: if_splits)
    then show ?thesis using b(1) False by auto
  qed
  moreover have "nodes_upto (bs[s := Some (lo @ hi)]) (2 ^ k + s) = nodes_upto bs (2 ^ k + (Suc s))"
    using nodes_upto_update [of s "2 ^ k + s" bs "lo @ hi"] len lo(1) hi(1)
    by (simp add: nodes_upto_Suc pos_nodes_def add.commute)
  ultimately show ?thesis using lo(1) hi(1) s len by (auto simp: buckets_ok_def)
qed

definition hl_nodes :: "'a tommy_hashlin \<Rightarrow> 'a node multiset" where
  "hl_nodes h = nodes_upto (hl_bucket h) (low_max h + hl_split h)"

text \<open>\<open>2^k\<close> is the lower of the two sizes.\<close>

definition hl_core :: "nat \<Rightarrow> 'a tommy_hashlin \<Rightarrow> bool" where
  "hl_core k h = (low_max h = 2 ^ k \<and> low_mask h = mask k \<and> buckets_ok k (hl_split h) (hl_bucket h) \<and>
     hl_count h = size (hl_nodes h) \<and> 6 \<le> k)"

definition hl_sized :: "nat \<Rightarrow> 'a tommy_hashlin \<Rightarrow> bool" where
  "hl_sized b h = (bucket_bit h = b \<and> bucket_max h = 2 ^ b \<and> bucket_mask h = mask b \<and> length (hl_bucket h) = 2 ^ b \<and> b \<le> 30)"

definition hl_stable :: "nat \<Rightarrow> 'a tommy_hashlin \<Rightarrow> bool" where
  "hl_stable k h = (hl_core k h \<and> hl_sized k h \<and> hl_split h = 0 \<and> hl_state h = TOMMY_HASHLIN_STATE_STABLE)"

definition hl_moving :: "nat \<Rightarrow> 'a tommy_hashlin \<Rightarrow> bool" where
  "hl_moving k h = (hl_core k h \<and> hl_sized (k + 1) h \<and> hl_split h < 2 ^ k \<and> hl_state h \<noteq> TOMMY_HASHLIN_STATE_STABLE)"

definition hl_inv :: "'a tommy_hashlin \<Rightarrow> bool" where
  "hl_inv h = (\<exists>k. hl_stable k h \<or> hl_moving k h \<and> 0 < hl_split h)"

lemmas hl_defs = hl_core_def hl_sized_def hl_stable_def hl_moving_def

lemma bucket_ref_lin_pos:
  assumes "hl_core k h" "hl_split h = 0 \<or> hl_sized (k + 1) h"
  shows "tommy_hashlin_bucket_ref h key = lin_pos k (hl_split h) key"
  using assms by (auto simp: tommy_hashlin_bucket_ref_def lin_pos_def hl_defs unat_and_mask)

lemma split_bucket_ok:
  assumes "hl_core k h" "hl_sized (k + 1) h" "hl_split h < 2 ^ k"
  shows "\<exists>h'. split_bucket h = Some h' \<and> hl_core k h' \<and> hl_sized (k + 1) h' \<and> hl_split h' = Suc (hl_split h) \<and>
    hl_nodes h' = hl_nodes h \<and> hl_count h' = hl_count h \<and> hl_state h' = hl_state h"
proof -
  let ?s = "hl_split h"
  have ok: "buckets_ok k ?s (hl_bucket h)" "low_max h = 2 ^ k" "length (hl_bucket h) = 2 ^ (k + 1)"
    using assms by (auto simp: hl_defs)
  obtain j where j: "hl_bucket h ! ?s = Some j" using buckets_okD [OF ok(1), of ?s] assms(3) by auto
  note sp = split_ok [OF ok(1) assms(3) eq_imp_le [OF ok(3) [symmetric]] j]
  show ?thesis
    using assms ok j sp
    by (auto simp: split_bucket_def tommy_hashlin_pos_def hl_defs hl_nodes_def and_pow_iff [simplified])
qed

lemma grow_loop_ok:
  assumes "hl_moving k h" "k + 1 \<le> 30"
  shows "\<exists>h'. grow_loop t h = Some h' \<and> hl_nodes h' = hl_nodes h \<and> hl_count h' = hl_count h \<and>
    (hl_stable (k + 1) h' \<or> hl_moving k h' \<and> hl_state h' = hl_state h \<and> hl_split h \<le> hl_split h' \<and> (hl_split h + low_max h < t \<longrightarrow> 0 < hl_split h'))"
  using assms
proof (induction t h rule: grow_loop.induct)
  case (1 t h)
  show ?case
  proof (cases "hl_split h + low_max h < t")
    case True
    have m: "hl_core k h" "hl_sized (k + 1) h" "hl_split h < 2 ^ k" using "1.prems" by (auto simp: hl_moving_def)
    from split_bucket_ok [OF m] obtain h1 where h1: "split_bucket h = Some h1" "hl_core k h1" "hl_sized (k + 1) h1"
      "hl_split h1 = Suc (hl_split h)" "hl_nodes h1 = hl_nodes h" "hl_count h1 = hl_count h" "hl_state h1 = hl_state h" by blast
    show ?thesis
    proof (cases "hl_split h1 = low_max h1")
      case stable: True
      have "hl_stable (k + 1) (tommy_hashlin_stable h1) \<and> hl_nodes (tommy_hashlin_stable h1) = hl_nodes h1"
        using h1(2,3) stable buckets_ok_full [of k "hl_bucket h1"]
        by (auto simp: hl_defs tommy_hashlin_stable_def hl_nodes_def mult_2)
      then show ?thesis using True stable h1 by (simp add: grow_loop.simps [of t h] tommy_hashlin_stable_def)
    next
      case False
      then have "hl_split h1 < 2 ^ k" using h1(4) m(1,3) h1(2) by (auto simp: hl_core_def)
      then have "hl_moving k h1" using h1 "1.prems" by (auto simp: hl_moving_def)
      from "1.IH" [OF True h1(1) False this "1.prems"(2)] show ?thesis
        using True False h1 by (auto simp: grow_loop.simps [of t h])
    qed
  next
    case False
    then show ?thesis using "1.prems" by (simp add: grow_loop.simps [of t h])
  qed
qed

lemma grow_step_ok:
  assumes "hl_inv h" "hl_count h < 2 ^ 29"
  shows "\<exists>h'. hashlin_grow_step h = Some h' \<and> hl_inv h' \<and> hl_nodes h' = hl_nodes h \<and> hl_count h' = hl_count h"
proof -
  have finish: "\<exists>h'. grow_loop t g = Some h' \<and> hl_inv h' \<and> hl_nodes h' = hl_nodes g \<and> hl_count h' = hl_count g"
    if "hl_moving k g" "0 < hl_split g \<or> hl_split g + low_max g < t" for k g t
  proof -
    have "k + 1 \<le> 30" using that(1) by (simp add: hl_moving_def hl_sized_def)
    from grow_loop_ok [OF that(1) this, of t] show ?thesis using that(2) unfolding hl_inv_def by force
  qed
  have t: "2 * hl_count h mod 2 ^ 32 = 2 * hl_count h" using assms(2) by simp
  from assms(1) consider (stable) k where "hl_stable k h" | (moving) k where "hl_moving k h" "0 < hl_split h"
    unfolding hl_inv_def by blast
  then show ?thesis
  proof cases
    case stable
    show ?thesis
    proof (cases "hl_count h > bucket_max h div 2")
      case True
      then have "2 ^ k div 2 < (2 ^ 29 :: nat)" using stable assms(2) by (auto simp: hl_defs)
      then have "k < 30"
        by (rule_tac ccontr) (use power_increasing [of 30 k "2 :: nat"] in simp)
      let ?g = "h\<lparr>low_max := bucket_max h, low_mask := bucket_mask h, hl_bucket := hl_bucket h @ replicate (bucket_max h) None,
                   bucket_bit := bucket_bit h + 1, bucket_max := 2 ^ (bucket_bit h + 1),
                   bucket_mask := of_nat (2 ^ (bucket_bit h + 1) - 1), hl_split := 0, hl_state := TOMMY_HASHLIN_STATE_GROW\<rparr>"
      have nodes: "hl_nodes ?g = hl_nodes h"
        using stable unfolding hl_nodes_def nodes_upto_def
        by (intro sum.cong) (auto simp: hl_defs pos_nodes_def nth_append)
      moreover have "buckets_ok k 0 (hl_bucket h @ replicate (2 ^ k) None)"
        using stable by (auto simp: hl_defs buckets_ok_def nth_append)
      ultimately have "hl_moving k ?g"
        using stable \<open>k < 30\<close> of_nat_mask [of "k + 1"] by (simp add: hl_defs)
      moreover have "hl_split ?g + low_max ?g < 2 * hl_count h" using stable True by (auto simp: hl_defs)
      ultimately show ?thesis
        using finish [of k ?g "2 * hl_count h"] True stable nodes \<open>k < 30\<close> t
        by (auto simp: hashlin_grow_step_def hl_stable_def hl_sized_def grow_setup_def)
    qed (use stable in \<open>auto simp: hashlin_grow_step_def hl_stable_def hl_inv_def\<close>)
  next
    case moving
    let ?g = "h\<lparr>hl_state := TOMMY_HASHLIN_STATE_GROW\<rparr>"
    have g: "hl_moving k ?g" "0 < hl_split ?g" "hl_nodes ?g = hl_nodes h" using moving by (auto simp: hl_defs hl_nodes_def)
    show ?thesis
    proof (cases "hl_state h = TOMMY_HASHLIN_STATE_GROW")
      case True
      then show ?thesis using finish [OF moving(1), of "2 * hl_count h"] moving(2) t by (auto simp: hashlin_grow_step_def)
    next
      case False
      then show ?thesis using finish [OF g(1), of "2 * hl_count h"] g(2,3) moving t assms(1)
        by (auto simp: hashlin_grow_step_def hl_moving_def)
    qed
  qed
qed

lemma join_bucket_ok:
  assumes "hl_core k h" "hl_sized (k + 1) h" "0 < hl_split h"
  shows "\<exists>h'. join_bucket h = Some h' \<and> hl_core k h' \<and> hl_sized (k + 1) h' \<and> hl_split h = Suc (hl_split h') \<and>
    hl_nodes h' = hl_nodes h \<and> hl_count h' = hl_count h \<and> hl_state h' = hl_state h"
proof -
  obtain s where s: "hl_split h = Suc s" using assms(3) by (cases "hl_split h") auto
  have ok: "buckets_ok k (Suc s) (hl_bucket h)" "low_max h = 2 ^ k" "length (hl_bucket h) = 2 ^ (k + 1)"
    using assms s by (auto simp: hl_defs)
  then have "s < 2 ^ k" by (simp add: buckets_ok_def)
  from join_ok [OF ok(1)] show ?thesis
    using assms ok s \<open>s < 2 ^ k\<close>
    by (auto simp: join_bucket_def tommy_hashlin_pos_def tommy_list_concat_def hl_defs hl_nodes_def)
qed

lemma shrink_finish_ok:
  assumes "hl_core k h" "hl_sized (k + 1) h" "hl_split h = 0"
  shows "hl_stable k (shrink_finish h) \<and> hl_nodes (shrink_finish h) = hl_nodes h \<and> hl_count (shrink_finish h) = hl_count h"
proof -
  have "hl_nodes (shrink_finish h) = hl_nodes h"
    using assms unfolding hl_nodes_def nodes_upto_def
    by (intro sum.cong) (auto simp: hl_defs shrink_finish_def tommy_hashlin_stable_def pos_nodes_def)
  moreover have "buckets_ok k 0 (take (2 ^ k) (hl_bucket h))"
    using assms by (auto simp: hl_defs buckets_ok_def)
  ultimately show ?thesis
    using assms of_nat_mask [of k] by (simp add: hl_defs shrink_finish_def tommy_hashlin_stable_def)
qed

lemma shrink_loop_ok:
  assumes "hl_core k h" "hl_sized (k + 1) h" "0 < hl_split h" "hl_state h = TOMMY_HASHLIN_STATE_SHRINK"
    "hl_split h = 2 ^ k \<Longrightarrow> t < hl_split h + low_max h"
  shows "\<exists>h'. shrink_loop t h = Some h' \<and> hl_inv h' \<and> hl_nodes h' = hl_nodes h \<and> hl_count h' = hl_count h"
  using assms
proof (induction t h rule: shrink_loop.induct)
  case (1 t h)
  show ?case
  proof (cases "hl_split h + low_max h > t")
    case True
    from join_bucket_ok [OF "1.prems"(1-3)] obtain h1 where h1: "join_bucket h = Some h1" "hl_core k h1" "hl_sized (k + 1) h1"
      "hl_split h = Suc (hl_split h1)" "hl_nodes h1 = hl_nodes h" "hl_count h1 = hl_count h" "hl_state h1 = hl_state h" by blast
    show ?thesis
    proof (cases "hl_split h1 = 0")
      case z: True
      then show ?thesis using True h1 shrink_finish_ok [OF h1(2,3) z] by (auto simp: shrink_loop.simps [of t h] hl_inv_def)
    next
      case False
      have "hl_split h1 < 2 ^ k" using "1.prems"(1) h1(4) by (auto simp: hl_core_def buckets_ok_def)
      then show ?thesis using "1.IH" [OF True h1(1) False h1(2,3)] True False h1 "1.prems"(4)
        by (auto simp: shrink_loop.simps [of t h])
    qed
  next
    case False
    then have "hl_split h < 2 ^ k" using "1.prems"(1,5) by (fastforce simp: hl_core_def buckets_ok_def)
    then have "hl_inv h" using "1.prems" by (auto simp: hl_inv_def hl_moving_def)
    then show ?thesis using False by (simp add: shrink_loop.simps [of t h])
  qed
qed

lemma shrink_step_ok:
  assumes "hl_inv h"
  shows "\<exists>h'. hashlin_shrink_step h = Some h' \<and> hl_inv h' \<and> hl_nodes h' = hl_nodes h \<and> hl_count h' = hl_count h"
proof -
  from assms consider (stable) k where "hl_stable k h" | (moving) k where "hl_moving k h" "0 < hl_split h"
    unfolding hl_inv_def by blast
  then show ?thesis
  proof cases
    case stable
    show ?thesis
    proof (cases "hl_count h < bucket_max h div 8 \<and> bucket_bit h > TOMMY_HASHLIN_BIT")
      case True
      then obtain j where j: "k = Suc j" "6 \<le> j" using stable by (cases k) (auto simp: hl_defs TOMMY_HASHLIN_BIT_def)
      let ?g = "h\<lparr>low_max := bucket_max h div 2, low_mask := drop_bit 1 (bucket_mask h), hl_split := bucket_max h div 2,
                  hl_state := TOMMY_HASHLIN_STATE_SHRINK\<rparr>"
      have nodes: "hl_nodes ?g = hl_nodes h" using stable j by (simp add: hl_nodes_def hl_defs mult_2)
      have "drop_bit 1 (mask (Suc j)) = (mask j :: u32)"
        using stable j by (intro bit_eqI) (auto simp: bit_drop_bit_eq bit_mask_iff hl_defs)
      then have core: "hl_core j ?g" "hl_sized (j + 1) ?g"
        using stable j nodes buckets_ok_full [of j "hl_bucket h"] by (auto simp: hl_defs)
      have "8 * hl_count h < bucket_max h" using True by linarith
      moreover have "hl_split ?g + low_max ?g = bucket_max h" using stable j by (simp add: hl_defs)
      ultimately have "8 * hl_count h mod 2 ^ 32 < hl_split ?g + low_max ?g"
        using mod_less_eq_dividend [of "8 * hl_count h" "2 ^ 32"] by linarith
      then have "\<exists>h'. shrink_loop (8 * hl_count h mod 2 ^ 32) ?g = Some h' \<and> hl_inv h' \<and> hl_nodes h' = hl_nodes ?g \<and> hl_count h' = hl_count ?g"
        using stable j by (intro shrink_loop_ok [OF core]) (auto simp: hl_defs)
      then show ?thesis using True stable nodes by (auto simp: hashlin_shrink_step_def hl_stable_def)
    qed (use stable assms in \<open>auto simp: hashlin_shrink_step_def hl_stable_def\<close>)
  next
    case moving
    let ?g = "h\<lparr>hl_state := TOMMY_HASHLIN_STATE_SHRINK\<rparr>"
    have g: "hl_core k ?g" "hl_sized (k + 1) ?g" "0 < hl_split ?g" "hl_nodes ?g = hl_nodes h"
      using moving by (auto simp: hl_defs hl_nodes_def)
    have "\<exists>h'. shrink_loop (8 * hl_count h mod 2 ^ 32) ?g = Some h' \<and> hl_inv h' \<and> hl_nodes h' = hl_nodes ?g \<and> hl_count h' = hl_count ?g"
      using moving by (intro shrink_loop_ok [OF g(1-3)]) (auto simp: hl_moving_def)
    then obtain h' where h': "shrink_loop (8 * hl_count h mod 2 ^ 32) ?g = Some h'" "hl_inv h'" "hl_nodes h' = hl_nodes h" "hl_count h' = hl_count h"
      using g(4) by auto
    have "hashlin_shrink_step h = Some h' \<or> hashlin_shrink_step h = Some h"
    proof (cases "hl_state h = TOMMY_HASHLIN_STATE_SHRINK")
      case True
      then have "?g = h" by (cases h) simp
      then show ?thesis using h'(1) True by (simp only: hashlin_shrink_step_def) simp
    next
      case False
      then show ?thesis using moving h'(1) by (auto simp: hashlin_shrink_step_def hl_moving_def)
    qed
    then show ?thesis using h' assms by auto
  qed
qed

text \<open>Changing one bucket and the count.\<close>

lemma hl_inv_bucket:
  assumes "hl_inv h"
  shows "\<exists>b. tommy_hashlin_bucket h key = Some b \<and> {#n \<in># hl_nodes h. fst n = key#} = mset (filter (\<lambda>n. fst n = key) b) \<and>
    mset b \<subseteq># hl_nodes h \<and>
    (\<forall>b'. (\<forall>n\<in>set b'. n \<in> set b \<or> fst n = key) \<longrightarrow> size (hl_nodes h) - length b + length b' = c \<longrightarrow>
      (let h' = h\<lparr>hl_bucket := (hl_bucket h)[tommy_hashlin_bucket_ref h key := Some b'], hl_count := c\<rparr> in
        hl_inv h' \<and> hl_nodes h' + mset b = hl_nodes h + mset b'))"
proof -
  from assms obtain k where core: "hl_core k h" and mv: "hl_split h = 0 \<or> hl_sized (k + 1) h" and st: "hl_stable k h \<or> hl_moving k h \<and> 0 < hl_split h"
    unfolding hl_inv_def hl_stable_def hl_moving_def by blast
  let ?m = "low_max h + hl_split h" and ?p = "lin_pos k (hl_split h) key"
  have ref: "tommy_hashlin_bucket_ref h key' = lin_pos k (hl_split h) key'" for key' by (rule bucket_ref_lin_pos [OF core mv])
  have ok: "buckets_ok k (hl_split h) (hl_bucket h)" "low_max h = 2 ^ k" "?m \<le> length (hl_bucket h)"
    using core by (auto simp: hl_core_def buckets_ok_def)
  have p: "?p < ?m" using lin_pos_less [of "hl_split h" k key] ok by (simp add: buckets_ok_def)
  obtain b where b: "hl_bucket h ! ?p = Some b" "\<forall>n\<in>set b. lin_pos k (hl_split h) (fst n) = ?p"
    using buckets_okD [OF ok(1)] p ok(2) by metis
  have rest: "hl_nodes h = mset b + (\<Sum>q\<in>{..<?m} - {?p}. pos_nodes (hl_bucket h) q)"
    using p b(1) by (simp add: hl_nodes_def nodes_upto_def sum.remove pos_nodes_def)
  have "n \<notin># pos_nodes (hl_bucket h) q" if "q \<in> {..<?m} - {?p}" "fst n = key" for q n
    using buckets_okD [OF ok(1), of q] that ok(2) by (auto simp: pos_nodes_def)
  then have "{#n \<in># (\<Sum>q\<in>{..<?m} - {?p}. pos_nodes (hl_bucket h) q). fst n = key#} = {#}"
    by (auto simp: set_mset_sum)
  then have filt: "{#n \<in># hl_nodes h. fst n = key#} = mset (filter (\<lambda>n. fst n = key) b)" by (simp add: rest)
  have upd: "hl_inv h' \<and> hl_nodes h' + mset b = hl_nodes h + mset b'"
    if b': "\<forall>n\<in>set b'. n \<in> set b \<or> fst n = key" and c: "size (hl_nodes h) - length b + length b' = c"
      and h': "h' = h\<lparr>hl_bucket := (hl_bucket h)[?p := Some b'], hl_count := c\<rparr>" for b' c h'
  proof -
    have eq: "hl_nodes h' + mset b = hl_nodes h + mset b'"
      using nodes_upto_update [OF p ok(3), of b'] b(1) by (simp add: h' hl_nodes_def pos_nodes_def)
    then have "size (hl_nodes h') + length b = size (hl_nodes h) + length b'" by (metis size_mset size_union)
    then have sz: "size (hl_nodes h') = c" using c size_mset_mono [of "mset b" "hl_nodes h"] rest by auto
    have "\<exists>d. (hl_bucket h)[?p := Some b'] ! q = Some d \<and> (\<forall>n\<in>set d. lin_pos k (hl_split h) (fst n) = q)" if "q < ?m" for q
      using buckets_okD [OF ok(1), of q] that ok(2,3) b(2) b' by (cases "q = ?p") auto
    then have "buckets_ok k (hl_split h) ((hl_bucket h)[?p := Some b'])" using ok by (simp add: buckets_ok_def)
    then have "hl_inv h'" using st sz unfolding hl_inv_def by (auto simp: h' hl_defs)
    then show ?thesis using eq by blast
  qed
  have "tommy_hashlin_bucket h key = Some b" using b(1) p ok(3) by (simp add: tommy_hashlin_bucket_def ref tommy_hashlin_pos_def)
  then show ?thesis using filt rest upd unfolding ref Let_def by auto
qed

section \<open>The interface\<close>

locale node_store =
  fixes inv :: "'h \<Rightarrow> bool"
    and nodes :: "'h \<Rightarrow> 'a node multiset"
    and bucket :: "'h \<Rightarrow> u32 \<Rightarrow> 'a node list option"
    and ins :: "'h \<Rightarrow> 'a \<Rightarrow> u32 \<Rightarrow> 'h option"
    and unlink :: "'h \<Rightarrow> 'a node \<Rightarrow> 'h option"
  assumes bucket_law: "inv h \<Longrightarrow> \<exists>b. bucket h key = Some b \<and> {#n \<in># nodes h. fst n = key#} = mset (filter (\<lambda>n. fst n = key) b)"
    and ins_law: "inv h \<Longrightarrow> size (nodes h) + 1 < 2 ^ 29 \<Longrightarrow>
      \<exists>h'. ins h d key = Some h' \<and> inv h' \<and> nodes h' = add_mset (key, d) (nodes h)"
    and unlink_law: "inv h \<Longrightarrow> n \<in># nodes h \<Longrightarrow> \<exists>h'. unlink h n = Some h' \<and> inv h' \<and> nodes h' = nodes h - {#n#}"
begin

lemma bucket_member:
  assumes "inv h" "bucket h key = Some b"
  shows "(key, d) \<in> set b \<longleftrightarrow> (key, d) \<in># nodes h"
proof -
  have "{#n \<in># nodes h. fst n = key#} = mset (filter (\<lambda>n. fst n = key) b)" using bucket_law [OF assms(1), of key] assms(2) by auto
  then have "(key, d) \<in># {#n \<in># nodes h. fst n = key#} \<longleftrightarrow> (key, d) \<in># mset (filter (\<lambda>n. fst n = key) b)" by simp
  then show ?thesis by simp
qed

lemma search_law:
  assumes "inv h"
  shows "\<exists>r. map_option (search_nodes cmp key) (bucket h key) = Some r \<and>
    (case r of None \<Rightarrow> \<forall>d. (key, d) \<in># nodes h \<longrightarrow> \<not> cmp d | Some d \<Rightarrow> (key, d) \<in># nodes h \<and> cmp d)"
proof -
  obtain b where b: "bucket h key = Some b" using bucket_law [OF assms] by blast
  have "case search_nodes cmp key ns of None \<Rightarrow> \<forall>d. (key, d) \<in> set ns \<longrightarrow> \<not> cmp d | Some d \<Rightarrow> (key, d) \<in> set ns \<and> cmp d" for ns
    by (induction ns) (auto split: option.splits)
  from this [of b] show ?thesis using b bucket_member [OF assms b] by (auto split: option.splits)
qed

end

lemma hashlin_insert_ok:
  assumes "hl_inv h" "size (hl_nodes h) + 1 < 2 ^ 29"
  shows "\<exists>h'. tommy_hashlin_insert h d key = Some h' \<and> hl_inv h' \<and> hl_nodes h' = add_mset (key, d) (hl_nodes h)"
proof -
  have cnt: "hl_count h = size (hl_nodes h)" using assms(1) by (auto simp: hl_inv_def hl_defs)
  obtain b where b: "tommy_hashlin_bucket h key = Some b" "mset b \<subseteq># hl_nodes h"
    and upd: "\<And>b'. \<lbrakk>\<forall>n\<in>set b'. n \<in> set b \<or> fst n = key; size (hl_nodes h) - length b + length b' = hl_count h + 1\<rbrakk> \<Longrightarrow>
      let h' = h\<lparr>hl_bucket := (hl_bucket h)[tommy_hashlin_bucket_ref h key := Some b'], hl_count := hl_count h + 1\<rparr> in
        hl_inv h' \<and> hl_nodes h' + mset b = hl_nodes h + mset b'"
    using hl_inv_bucket [OF assms(1), of key "hl_count h + 1"] by blast
  let ?h = "h\<lparr>hl_bucket := (hl_bucket h)[tommy_hashlin_bucket_ref h key := Some (tommy_list_insert_tail b (key, d))],
    hl_count := hl_count h + 1\<rparr>"
  have "length b \<le> size (hl_nodes h)" using size_mset_mono [OF b(2)] by simp
  then have h: "hl_inv ?h" "hl_nodes ?h = add_mset (key, d) (hl_nodes h)"
    using upd [of "tommy_list_insert_tail b (key, d)"] cnt by (auto simp: tommy_list_insert_tail_def Let_def)
  from grow_step_ok [OF h(1)] show ?thesis
    using h(2) assms(2) cnt b(1) by (auto simp: tommy_hashlin_insert_def tommy_hashlin_bucket_def)
qed

lemma unlink_node_ok:
  assumes "hl_inv h" "n \<in># hl_nodes h"
  shows "\<exists>h'. unlink_node h n = Some h' \<and> hl_inv h' \<and> hl_nodes h' = hl_nodes h - {#n#}"
proof -
  let ?key = "fst n"
  have cnt: "hl_count h = size (hl_nodes h)" using assms(1) by (auto simp: hl_inv_def hl_defs)
  obtain b where b: "tommy_hashlin_bucket h ?key = Some b" "mset b \<subseteq># hl_nodes h"
      "{#m \<in># hl_nodes h. fst m = ?key#} = mset (filter (\<lambda>m. fst m = ?key) b)"
    and upd: "\<And>b'. \<lbrakk>\<forall>m\<in>set b'. m \<in> set b \<or> fst m = ?key; size (hl_nodes h) - length b + length b' = hl_count h - 1\<rbrakk> \<Longrightarrow>
      let h' = h\<lparr>hl_bucket := (hl_bucket h)[tommy_hashlin_bucket_ref h ?key := Some b'], hl_count := hl_count h - 1\<rparr> in
        hl_inv h' \<and> hl_nodes h' + mset b = hl_nodes h + mset b'"
    using hl_inv_bucket [OF assms(1), of ?key "hl_count h - 1"] by blast
  have "n \<in># {#m \<in># hl_nodes h. fst m = ?key#}" using assms(2) by simp
  then have n: "n \<in> set b" unfolding b(3) by simp
  let ?h = "h\<lparr>hl_bucket := (hl_bucket h)[tommy_hashlin_bucket_ref h ?key := Some (tommy_list_remove_existing b n)],
    hl_count := hl_count h - 1\<rparr>"
  have "length b \<le> size (hl_nodes h)" using size_mset_mono [OF b(2)] by simp
  moreover have "0 < length b" using n by auto
  ultimately have "size (hl_nodes h) - length b + length (tommy_list_remove_existing b n) = hl_count h - 1"
    unfolding cnt using n length_remove1 [of n b] by (simp only: tommy_list_remove_existing_def if_True)
  moreover have "\<forall>m\<in>set (tommy_list_remove_existing b n). m \<in> set b \<or> fst m = ?key"
    using set_remove1_subset [of n b] by (auto simp: tommy_list_remove_existing_def)
  ultimately have h: "hl_inv ?h" "hl_nodes ?h + mset b = hl_nodes h + mset (tommy_list_remove_existing b n)"
    using upd unfolding Let_def by blast+
  have "hl_nodes ?h = hl_nodes h - {#n#}"
  proof -
    obtain A where A: "mset b = add_mset n A" using n by (metis insert_DiffM set_mset_mset)
    obtain B where B: "hl_nodes h = add_mset n B" using assms(2) by (metis insert_DiffM)
    show ?thesis using h(2) unfolding tommy_list_remove_existing_def mset_remove1 A B by simp
  qed
  with shrink_step_ok [OF h(1)] show ?thesis
    using b(1) by (auto simp: unlink_node_def tommy_hashlin_bucket_def)
qed

interpretation hashlin: node_store hl_inv hl_nodes tommy_hashlin_bucket tommy_hashlin_insert unlink_node
proof unfold_locales
  fix h :: "'a tommy_hashlin" and key
  assume "hl_inv h"
  from hl_inv_bucket [OF this, of key 0]
  show "\<exists>b. tommy_hashlin_bucket h key = Some b \<and> {#n \<in># hl_nodes h. fst n = key#} = mset (filter (\<lambda>n. fst n = key) b)" by blast
qed (fact hashlin_insert_ok, fact unlink_node_ok)

lemma hashlin_init_ok: "hl_inv tommy_hashlin_init" "hl_nodes tommy_hashlin_init = {#}"
proof -
  have "nodes_upto (replicate 64 (Some [])) 64 = {#}" by (auto simp: nodes_upto_def pos_nodes_def)
  then show "hl_nodes tommy_hashlin_init = {#}"
    by (simp add: hl_nodes_def tommy_hashlin_init_def tommy_hashlin_stable_def TOMMY_HASHLIN_BIT_def)
  then show "hl_inv tommy_hashlin_init"
    unfolding hl_inv_def using of_nat_mask [of 6]
    by (intro exI [of _ 6] disjI1)
      (auto simp: hl_defs buckets_ok_def tommy_hashlin_init_def tommy_hashlin_stable_def TOMMY_HASHLIN_BIT_def)
qed

end
