(* ===== verification/Spki_Table.thy ===== *)
theory Spki_Table
  imports Tommy_Hashlin
begin

text \<open>
  The router key table of \<^verbatim>\<open>rtrlib/spki/hashtable/ht-spkitable.c\<close>: every entry is a node of a linear hash table
  keyed by its ASN and of a list in order of insertion. As no two entries are equal, a pointer to an
  entry is the entry itself. Calls of the update callback are logged in \<open>spki_log\<close>. The table lock
  is taken and released on every path of every operation and is not part of the state.
\<close>

section \<open>Data\<close>

record rtr_spki_record =
  sr_ski :: "u8 list"
  sr_asn :: u32
  sr_spki :: "u8 list"
  sr_socket :: socket_id

record key_entry =
  ke_ski :: "u8 list"
  ke_asn :: u32
  ke_spki :: "u8 list"
  ke_socket :: socket_id

datatype rtr_spki_rtvals = RTR_SPKI_SUCCESS | RTR_SPKI_ERROR | RTR_SPKI_DUPLICATE_RECORD | RTR_SPKI_RECORD_NOT_FOUND

datatype rtr_spki_operation_type = RTR_SPKI_REMOVE | RTR_SPKI_ADD

record rtr_spki_table =
  spki_hashtable :: "key_entry tommy_hashlin"
  spki_list :: "key_entry list"
  spki_fp :: bool
  spki_log :: "(rtr_spki_record \<times> rtr_spki_operation_type) list"

section \<open>Operations\<close>

text \<open>Zero means equal.\<close>

definition key_entry_cmp :: "key_entry \<Rightarrow> key_entry \<Rightarrow> nat" where
  "key_entry_cmp param entry =
     (if ke_asn param \<noteq> ke_asn entry then 1
      else if ke_ski param \<noteq> ke_ski entry then 1
      else if ke_spki param \<noteq> ke_spki entry then 1
      else if ke_socket param \<noteq> ke_socket entry then 1
      else 0)"

definition key_entry_to_spki_record :: "key_entry \<Rightarrow> rtr_spki_record" where
  "key_entry_to_spki_record e = \<lparr>sr_ski = ke_ski e, sr_asn = ke_asn e, sr_spki = ke_spki e, sr_socket = ke_socket e\<rparr>"

definition spki_record_to_key_entry :: "rtr_spki_record \<Rightarrow> key_entry" where
  "spki_record_to_key_entry r = \<lparr>ke_ski = sr_ski r, ke_asn = sr_asn r, ke_spki = sr_spki r, ke_socket = sr_socket r\<rparr>"

definition spki_table_notify_clients :: "rtr_spki_table \<Rightarrow> rtr_spki_record \<Rightarrow> rtr_spki_operation_type \<Rightarrow> rtr_spki_table" where
  "spki_table_notify_clients tbl r ty = (if spki_fp tbl then tbl\<lparr>spki_log := spki_log tbl @ [(r, ty)]\<rparr> else tbl)"

definition spki_table_init :: "bool \<Rightarrow> rtr_spki_table" where
  "spki_table_init fp = \<lparr>spki_hashtable = tommy_hashlin_init, spki_list = [], spki_fp = fp, spki_log = []\<rparr>"

text \<open>Freeing releases the entries without any notification.\<close>

definition spki_table_free :: "rtr_spki_table option \<Rightarrow> rtr_spki_table option" where
  "spki_table_free t = map_option (\<lambda>tbl. tbl\<lparr>spki_list := [], spki_hashtable := tommy_hashlin_done (spki_hashtable tbl)\<rparr>) t"

definition spki_table_free_without_notify :: "rtr_spki_table \<Rightarrow> rtr_spki_table" where
  "spki_table_free_without_notify tbl =
     tbl\<lparr>spki_fp := False, spki_list := [], spki_hashtable := tommy_hashlin_done (spki_hashtable tbl)\<rparr>"

definition spki_table_add_entry :: "rtr_spki_table \<Rightarrow> rtr_spki_record \<Rightarrow> mem \<Rightarrow> (rtr_spki_rtvals \<times> rtr_spki_table \<times> mem) option" where
  "spki_table_add_entry tbl r mem =
     (let (ok, mem) = rtr_malloc mem in
      if \<not> ok then Some (RTR_SPKI_ERROR, tbl, mem)
      else
        let entry = spki_record_to_key_entry r; hash = tommy_inthash_u32 (sr_asn r) in
        do {
          found \<leftarrow> tommy_hashlin_search (spki_hashtable tbl) (\<lambda>e. key_entry_cmp entry e = 0) hash;
          if found \<noteq> None then Some (RTR_SPKI_DUPLICATE_RECORD, tbl, mem)
          else do {
            ht \<leftarrow> tommy_hashlin_insert (spki_hashtable tbl) entry hash;
            let tbl = tbl\<lparr>spki_hashtable := ht, spki_list := tommy_list_insert_tail (spki_list tbl) entry\<rparr>;
            Some (RTR_SPKI_SUCCESS, spki_table_notify_clients tbl r RTR_SPKI_ADD, mem)
          }
        })"

text \<open>The loops that collect results: each match enlarges the result array. When that fails the array has
  been freed and the caller's pointer dangles: the result is \<^const>\<open>None\<close>.\<close>

fun collect_entries :: "(key_entry \<Rightarrow> bool) \<Rightarrow> key_entry list \<Rightarrow> rtr_spki_record list \<Rightarrow> mem
    \<Rightarrow> rtr_spki_rtvals \<times> rtr_spki_record list option \<times> mem" where
  "collect_entries match [] res mem = (RTR_SPKI_SUCCESS, Some res, mem)"
| "collect_entries match (e # es) res mem =
     (if match e then
        let (ok, mem) = rtr_realloc mem in
        if \<not> ok then (RTR_SPKI_ERROR, None, mem)
        else collect_entries match es (res @ [key_entry_to_spki_record e]) mem
      else collect_entries match es res mem)"

definition spki_table_get_all ::
  "rtr_spki_table \<Rightarrow> u32 \<Rightarrow> u8 list \<Rightarrow> mem \<Rightarrow> (rtr_spki_rtvals \<times> rtr_spki_record list option \<times> mem) option" where
  "spki_table_get_all tbl asn ski mem =
     do {
       result_bucket \<leftarrow> tommy_hashlin_bucket (spki_hashtable tbl) (tommy_inthash_u32 asn);
       Some (collect_entries (\<lambda>e. ke_asn e = asn \<and> ke_ski e = ski) (map snd result_bucket) [] mem)
     }"

definition spki_table_search_by_ski ::
  "rtr_spki_table \<Rightarrow> u8 list \<Rightarrow> mem \<Rightarrow> rtr_spki_rtvals \<times> rtr_spki_record list option \<times> mem" where
  "spki_table_search_by_ski tbl ski mem = collect_entries (\<lambda>e. ke_ski e = ski) (spki_list tbl) [] mem"

definition spki_table_remove_entry :: "rtr_spki_table \<Rightarrow> rtr_spki_record \<Rightarrow> (rtr_spki_rtvals \<times> rtr_spki_table) option" where
  "spki_table_remove_entry tbl r =
     (let entry = spki_record_to_key_entry r; hash = tommy_inthash_u32 (sr_asn r); cmp = (\<lambda>e. key_entry_cmp entry e = 0) in
      do {
        found \<leftarrow> tommy_hashlin_search (spki_hashtable tbl) cmp hash;
        if found = None then Some (RTR_SPKI_RECORD_NOT_FOUND, tbl)
        else do {
          (rmv_elem, ht) \<leftarrow> tommy_hashlin_remove (spki_hashtable tbl) cmp hash;
          case rmv_elem of
            None \<Rightarrow> Some (RTR_SPKI_ERROR, tbl\<lparr>spki_hashtable := ht\<rparr>)
          | Some e \<Rightarrow>
              let tbl = tbl\<lparr>spki_hashtable := ht, spki_list := tommy_list_remove_existing (spki_list tbl) e\<rparr> in
              Some (RTR_SPKI_SUCCESS, spki_table_notify_clients tbl r RTR_SPKI_REMOVE)
        }
      })"

text \<open>The loop visits every entry of the list it starts with.\<close>

fun src_remove_loop :: "socket_id \<Rightarrow> key_entry list \<Rightarrow> rtr_spki_table \<Rightarrow> rtr_spki_table option" where
  "src_remove_loop socket [] tbl = Some tbl"
| "src_remove_loop socket (e # es) tbl =
     (if ke_socket e = socket then
        do {
          (_, ht) \<leftarrow> tommy_hashlin_remove_existing (spki_hashtable tbl) (tommy_inthash_u32 (ke_asn e), e);
          src_remove_loop socket es
            (tbl\<lparr>spki_list := tommy_list_remove_existing (spki_list tbl) e, spki_hashtable := ht\<rparr>)
        }
      else src_remove_loop socket es tbl)"

fun spki_table_src_remove :: "rtr_spki_table option \<Rightarrow> socket_id \<Rightarrow> (rtr_spki_rtvals \<times> rtr_spki_table option) option" where
  "spki_table_src_remove None socket = Some (RTR_SPKI_SUCCESS, None)"
| "spki_table_src_remove (Some tbl) socket =
     map_option (\<lambda>t. (RTR_SPKI_SUCCESS, Some t)) (src_remove_loop socket (spki_list tbl) tbl)"

fun copy_entries :: "socket_id \<Rightarrow> key_entry list \<Rightarrow> rtr_spki_table \<Rightarrow> mem \<Rightarrow> (rtr_spki_rtvals \<times> rtr_spki_table \<times> mem) option" where
  "copy_entries socket [] dst mem = Some (RTR_SPKI_SUCCESS, dst, mem)"
| "copy_entries socket (e # es) dst mem =
     (if ke_socket e \<noteq> socket then
        do {
          (rv, dst, mem) \<leftarrow> spki_table_add_entry dst (key_entry_to_spki_record e) mem;
          if rv \<noteq> RTR_SPKI_SUCCESS then Some (RTR_SPKI_ERROR, dst, mem) else copy_entries socket es dst mem
        }
      else copy_entries socket es dst mem)"

definition spki_table_copy_except_socket ::
  "rtr_spki_table \<Rightarrow> rtr_spki_table \<Rightarrow> socket_id \<Rightarrow> mem \<Rightarrow> (rtr_spki_rtvals \<times> rtr_spki_table \<times> mem) option" where
  "spki_table_copy_except_socket src dst socket mem = copy_entries socket (spki_list src) dst mem"

fun diff_added :: "socket_id \<Rightarrow> key_entry list \<Rightarrow> rtr_spki_table \<Rightarrow> rtr_spki_table \<Rightarrow> (rtr_spki_table \<times> rtr_spki_table) option" where
  "diff_added socket [] new_table old_table = Some (new_table, old_table)"
| "diff_added socket (e # es) new_table old_table =
     (if ke_socket e = socket then
        do {
          (rv, old_table) \<leftarrow> spki_table_remove_entry old_table (key_entry_to_spki_record e);
          diff_added socket es
            (if rv = RTR_SPKI_RECORD_NOT_FOUND
             then spki_table_notify_clients new_table (key_entry_to_spki_record e) RTR_SPKI_ADD else new_table) old_table
        }
      else diff_added socket es new_table old_table)"

fun diff_removed :: "socket_id \<Rightarrow> key_entry list \<Rightarrow> rtr_spki_table \<Rightarrow> rtr_spki_table" where
  "diff_removed socket [] new_table = new_table"
| "diff_removed socket (e # es) new_table =
     diff_removed socket es
       (if ke_socket e = socket
        then spki_table_notify_clients new_table (key_entry_to_spki_record e) RTR_SPKI_REMOVE else new_table)"

definition spki_table_notify_diff ::
  "rtr_spki_table \<Rightarrow> rtr_spki_table \<Rightarrow> socket_id \<Rightarrow> (rtr_spki_table \<times> rtr_spki_table) option" where
  "spki_table_notify_diff new_table old_table socket =
     do {
       let old_fp = spki_fp old_table;
       (new_table, old_table) \<leftarrow> diff_added socket (spki_list new_table) new_table (old_table\<lparr>spki_fp := False\<rparr>);
       let new_table = diff_removed socket (spki_list old_table) new_table;
       Some (new_table, old_table\<lparr>spki_fp := old_fp\<rparr>)
     }"

text \<open>The callbacks stay with their tables.\<close>

definition spki_table_swap :: "rtr_spki_table \<Rightarrow> rtr_spki_table \<Rightarrow> rtr_spki_table \<times> rtr_spki_table" where
  "spki_table_swap a b =
     (a\<lparr>spki_hashtable := spki_hashtable b, spki_list := spki_list b\<rparr>,
      b\<lparr>spki_hashtable := spki_hashtable a, spki_list := spki_list a\<rparr>)"

section \<open>Invariant\<close>

definition spki_inv :: "rtr_spki_table \<Rightarrow> bool" where
  "spki_inv tbl = (hl_inv (spki_hashtable tbl) \<and> distinct (spki_list tbl) \<and>
     hl_nodes (spki_hashtable tbl) = image_mset (\<lambda>e. (tommy_inthash_u32 (ke_asn e), e)) (mset (spki_list tbl)))"

definition spki_records :: "rtr_spki_table \<Rightarrow> rtr_spki_record list" where
  "spki_records tbl = map key_entry_to_spki_record (spki_list tbl)"

lemma entry_record_inverse [simp]:
  "spki_record_to_key_entry (key_entry_to_spki_record e) = e" "key_entry_to_spki_record (spki_record_to_key_entry r) = r"
  by (simp_all add: spki_record_to_key_entry_def key_entry_to_spki_record_def)

lemma key_entry_cmp_0 [simp]: "key_entry_cmp a b = 0 \<longleftrightarrow> a = b"
  by (cases a; cases b) (simp add: key_entry_cmp_def)

lemma spki_inv_init: "spki_inv (spki_table_init fp)"
  by (simp add: spki_inv_def spki_table_init_def hashlin_init_ok)

lemma spki_nodes_member:
  assumes "spki_inv tbl"
  shows "(key, e) \<in># hl_nodes (spki_hashtable tbl) \<longleftrightarrow> e \<in> set (spki_list tbl) \<and> key = tommy_inthash_u32 (ke_asn e)"
  using assms by (auto simp: spki_inv_def)

lemma search_entry:
  assumes "spki_inv tbl"
  shows "tommy_hashlin_search (spki_hashtable tbl) (\<lambda>e. key_entry_cmp entry e = 0) (tommy_inthash_u32 (ke_asn entry)) =
    Some (if entry \<in> set (spki_list tbl) then Some entry else None)"
proof -
  have inv: "hl_inv (spki_hashtable tbl)" using assms by (simp add: spki_inv_def)
  obtain r where r: "tommy_hashlin_search (spki_hashtable tbl) (\<lambda>e. key_entry_cmp entry e = 0) (tommy_inthash_u32 (ke_asn entry)) = Some r"
    "case r of None \<Rightarrow> entry \<notin> set (spki_list tbl) | Some d \<Rightarrow> d \<in> set (spki_list tbl) \<and> entry = d"
    using hashlin.search_law [OF inv, of "\<lambda>e. key_entry_cmp entry e = 0" "tommy_inthash_u32 (ke_asn entry)"]
    unfolding tommy_hashlin_search_def spki_nodes_member [OF assms] by (auto split: option.splits)
  then show ?thesis by (cases r) auto
qed

abbreviation small :: "rtr_spki_table \<Rightarrow> bool" where
  "small tbl \<equiv> length (spki_list tbl) + 1 < 2 ^ 29"

lemma record_in_records: "r \<in> set (spki_records tbl) \<longleftrightarrow> spki_record_to_key_entry r \<in> set (spki_list tbl)"
  by (force simp: spki_records_def image_iff)

lemma distinct_spki_records: "spki_inv tbl \<Longrightarrow> distinct (spki_records tbl)"
  by (auto simp: spki_inv_def spki_records_def distinct_map inj_on_def) (metis entry_record_inverse(1))

lemma insert_entry:
  assumes "spki_inv tbl" "small tbl" "e \<notin> set (spki_list tbl)"
  shows "\<exists>ht. tommy_hashlin_insert (spki_hashtable tbl) e (tommy_inthash_u32 (ke_asn e)) = Some ht \<and>
    spki_inv (tbl\<lparr>spki_hashtable := ht, spki_list := tommy_list_insert_tail (spki_list tbl) e\<rparr>)"
proof -
  have "hl_inv (spki_hashtable tbl)" "size (hl_nodes (spki_hashtable tbl)) + 1 < 2 ^ 29"
    using assms by (auto simp: spki_inv_def)
  from hashlin.ins_law [OF this] show ?thesis
    using assms by (fastforce simp: spki_inv_def tommy_list_insert_tail_def)
qed

lemma unlink_entry:
  assumes "spki_inv tbl" "e \<in> set (spki_list tbl)"
  shows "\<exists>ht. unlink_node (spki_hashtable tbl) (tommy_inthash_u32 (ke_asn e), e) = Some ht \<and>
    spki_inv (tbl\<lparr>spki_hashtable := ht, spki_list := tommy_list_remove_existing (spki_list tbl) e\<rparr>)"
proof -
  let ?n = "(tommy_inthash_u32 (ke_asn e), e)"
  have "hl_inv (spki_hashtable tbl)" "?n \<in># hl_nodes (spki_hashtable tbl)"
    using assms spki_nodes_member [OF assms(1)] by (auto simp: spki_inv_def)
  from hashlin.unlink_law [OF this] obtain ht where ht: "unlink_node (spki_hashtable tbl) ?n = Some ht" "hl_inv ht"
    "hl_nodes ht = hl_nodes (spki_hashtable tbl) - {#?n#}" by blast
  have "hl_nodes ht = image_mset (\<lambda>e. (tommy_inthash_u32 (ke_asn e), e)) (mset (remove1 e (spki_list tbl)))"
    using assms ht(3) by (simp add: spki_inv_def image_mset_Diff)
  then show ?thesis using ht assms by (auto simp: spki_inv_def tommy_list_remove_existing_def)
qed

definition spki_add_outcome :: "rtr_spki_table \<Rightarrow> rtr_spki_record \<Rightarrow> bool \<Rightarrow> rtr_spki_rtvals \<Rightarrow> rtr_spki_table \<Rightarrow> bool" where
  "spki_add_outcome tbl r failing rv tbl' =
     (if rv = RTR_SPKI_SUCCESS then
        r \<notin> set (spki_records tbl) \<and> spki_records tbl' = spki_records tbl @ [r] \<and> spki_fp tbl' = spki_fp tbl \<and>
        spki_log tbl' = spki_log tbl @ (if spki_fp tbl then [(r, RTR_SPKI_ADD)] else [])
      else tbl' = tbl \<and> (rv = RTR_SPKI_DUPLICATE_RECORD \<and> r \<in> set (spki_records tbl) \<or> rv = RTR_SPKI_ERROR \<and> failing))"

lemma spki_add_entry_outcome:
  assumes "spki_inv tbl" "small tbl"
  shows "\<exists>rv tbl' mem'. spki_table_add_entry tbl r mem = Some (rv, tbl', mem') \<and> spki_inv tbl' \<and> set mem' \<subseteq> set mem \<and>
    spki_add_outcome tbl r (False \<in> set mem) rv tbl'"
proof (cases "fst (rtr_malloc mem)")
  case False
  then show ?thesis using assms(1)
    by (cases mem rule: rtr_malloc.cases) (auto simp: spki_table_add_entry_def spki_add_outcome_def)
next
  case True
  then obtain m1 where m1: "rtr_malloc mem = (True, m1)" "set m1 \<subseteq> set mem"
    by (cases mem rule: rtr_malloc.cases) auto
  let ?e = "spki_record_to_key_entry r"
  have asn: "sr_asn r = ke_asn ?e" by (simp add: spki_record_to_key_entry_def)
  show ?thesis
  proof (cases "?e \<in> set (spki_list tbl)")
    case dup: True
    then show ?thesis using m1 assms(1) search_entry [OF assms(1), of ?e]
      by (auto simp: spki_table_add_entry_def asn spki_add_outcome_def record_in_records)
  next
    case new: False
    from insert_entry [OF assms new] obtain ht where
      ht: "tommy_hashlin_insert (spki_hashtable tbl) ?e (tommy_inthash_u32 (ke_asn ?e)) = Some ht"
        "spki_inv (tbl\<lparr>spki_hashtable := ht, spki_list := tommy_list_insert_tail (spki_list tbl) ?e\<rparr>)" by blast
    then show ?thesis using m1 new search_entry [OF assms(1), of ?e]
      by (auto simp: spki_table_add_entry_def asn spki_add_outcome_def record_in_records spki_table_notify_clients_def
          spki_records_def tommy_list_insert_tail_def spki_inv_def)
  qed
qed

definition spki_remove_outcome :: "rtr_spki_table \<Rightarrow> rtr_spki_record \<Rightarrow> rtr_spki_rtvals \<Rightarrow> rtr_spki_table \<Rightarrow> bool" where
  "spki_remove_outcome tbl r rv tbl' =
     (if r \<in> set (spki_records tbl) then
        rv = RTR_SPKI_SUCCESS \<and> spki_records tbl' = remove1 r (spki_records tbl) \<and> spki_fp tbl' = spki_fp tbl \<and>
        spki_log tbl' = spki_log tbl @ (if spki_fp tbl then [(r, RTR_SPKI_REMOVE)] else [])
      else rv = RTR_SPKI_RECORD_NOT_FOUND \<and> tbl' = tbl)"

lemma map_remove1_entry:
  "map key_entry_to_spki_record (remove1 e es) = remove1 (key_entry_to_spki_record e) (map key_entry_to_spki_record es)"
  by (induction es) (auto, (metis entry_record_inverse(1))+)

lemma spki_remove_entry_outcome:
  assumes "spki_inv tbl"
  shows "\<exists>rv tbl'. spki_table_remove_entry tbl r = Some (rv, tbl') \<and> spki_inv tbl' \<and> spki_remove_outcome tbl r rv tbl'"
proof -
  let ?e = "spki_record_to_key_entry r"
  have asn: "sr_asn r = ke_asn ?e" by (simp add: spki_record_to_key_entry_def)
  show ?thesis
  proof (cases "?e \<in> set (spki_list tbl)")
    case False
    then show ?thesis using assms search_entry [OF assms, of ?e]
      by (auto simp: spki_table_remove_entry_def asn spki_remove_outcome_def record_in_records)
  next
    case True
    note se = search_entry [OF assms, of ?e]
    from unlink_entry [OF assms True] obtain ht where
      ht: "unlink_node (spki_hashtable tbl) (tommy_inthash_u32 (ke_asn ?e), ?e) = Some ht"
        "spki_inv (tbl\<lparr>spki_hashtable := ht, spki_list := tommy_list_remove_existing (spki_list tbl) ?e\<rparr>)" by blast
    have "tommy_hashlin_remove (spki_hashtable tbl) (\<lambda>e. key_entry_cmp ?e e = 0) (tommy_inthash_u32 (ke_asn ?e)) = Some (Some ?e, ht)"
      using se True ht(1) by (auto simp: tommy_hashlin_remove_def tommy_hashlin_search_def tommy_hashlin_bucket_def)
    moreover have "r \<in> key_entry_to_spki_record ` set (spki_list tbl)" using True by (metis entry_record_inverse(2) imageI)
    ultimately show ?thesis using se True ht(2)
      by (auto simp: spki_table_remove_entry_def asn spki_remove_outcome_def spki_table_notify_clients_def
          spki_records_def tommy_list_remove_existing_def spki_inv_def map_remove1_entry)
  qed
qed

lemma src_remove_loop_outcome:
  assumes "spki_inv tbl" "set es \<subseteq> set (spki_list tbl)" "distinct es"
  shows "\<exists>tbl'. src_remove_loop s es tbl = Some tbl' \<and> spki_inv tbl' \<and> spki_fp tbl' = spki_fp tbl \<and> spki_log tbl' = spki_log tbl \<and>
    spki_list tbl' = filter (\<lambda>e. e \<notin> set es \<or> ke_socket e \<noteq> s) (spki_list tbl)"
  using assms
proof (induction es arbitrary: tbl)
  case (Cons e es)
  show ?case
  proof (cases "ke_socket e = s")
    case True
    from unlink_entry [OF Cons.prems(1), of e] Cons.prems(2) obtain ht where
      ht: "unlink_node (spki_hashtable tbl) (tommy_inthash_u32 (ke_asn e), e) = Some ht"
        "spki_inv (tbl\<lparr>spki_hashtable := ht, spki_list := tommy_list_remove_existing (spki_list tbl) e\<rparr>)" by auto
    let ?t = "tbl\<lparr>spki_list := tommy_list_remove_existing (spki_list tbl) e, spki_hashtable := ht\<rparr>"
    have d: "distinct (spki_list tbl)" using Cons.prems(1) by (simp add: spki_inv_def)
    then have l: "spki_list ?t = filter (\<lambda>x. x \<noteq> e) (spki_list tbl)"
      by (simp add: tommy_list_remove_existing_def distinct_remove1_removeAll removeAll_filter_not_eq eq_commute)
    have "spki_inv ?t" using ht(2) by (simp add: spki_inv_def)
    moreover have "set es \<subseteq> set (spki_list ?t)" unfolding l using Cons.prems(2,3) by auto
    moreover have "distinct es" using Cons.prems(3) by simp
    ultimately obtain tbl' where t': "src_remove_loop s es ?t = Some tbl'" "spki_inv tbl'" "spki_fp tbl' = spki_fp ?t"
      "spki_log tbl' = spki_log ?t" "spki_list tbl' = filter (\<lambda>e. e \<notin> set es \<or> ke_socket e \<noteq> s) (spki_list ?t)"
      using Cons.IH [of ?t] by blast
    have "src_remove_loop s (e # es) tbl = Some tbl'"
      using True ht(1) t'(1) by (simp add: tommy_hashlin_remove_existing_def)
    moreover have "spki_list tbl' = filter (\<lambda>x. x \<notin> set (e # es) \<or> ke_socket x \<noteq> s) (spki_list tbl)"
      unfolding t'(5) l using True by (auto intro!: filter_cong)
    ultimately show ?thesis using t' by auto
  next
    case False
    have "filter (\<lambda>x. x \<notin> set (e # es) \<or> ke_socket x \<noteq> s) (spki_list tbl) = filter (\<lambda>x. x \<notin> set es \<or> ke_socket x \<noteq> s) (spki_list tbl)"
      using False by (auto intro!: filter_cong)
    then show ?thesis using Cons.IH [OF Cons.prems(1)] Cons.prems(2,3) False by auto
  qed
qed simp

lemma src_remove_outcome:
  assumes "spki_inv tbl"
  shows "\<exists>tbl'. spki_table_src_remove (Some tbl) s = Some (RTR_SPKI_SUCCESS, Some tbl') \<and> spki_inv tbl' \<and>
    spki_fp tbl' = spki_fp tbl \<and> spki_log tbl' = spki_log tbl \<and> spki_records tbl' = filter (\<lambda>r. sr_socket r \<noteq> s) (spki_records tbl)"
proof -
  have d: "distinct (spki_list tbl)" using assms by (simp add: spki_inv_def)
  from src_remove_loop_outcome [OF assms subset_refl d, of s] obtain tbl' where
    t: "src_remove_loop s (spki_list tbl) tbl = Some tbl'" "spki_inv tbl'" "spki_fp tbl' = spki_fp tbl" "spki_log tbl' = spki_log tbl"
      "spki_list tbl' = filter (\<lambda>e. e \<notin> set (spki_list tbl) \<or> ke_socket e \<noteq> s) (spki_list tbl)" by blast
  have "spki_records tbl' = filter (\<lambda>r. sr_socket r \<noteq> s) (spki_records tbl)"
    unfolding spki_records_def t(5) filter_map
    by (intro arg_cong [of _ _ "map key_entry_to_spki_record"] filter_cong) (auto simp: key_entry_to_spki_record_def)
  then show ?thesis using t by simp
qed

lemma collect_entries_outcome:
  "\<exists>rv rs mem'. collect_entries match es res mem = (rv, rs, mem') \<and>
     (if rv = RTR_SPKI_SUCCESS then rs = Some (res @ map key_entry_to_spki_record (filter match es))
      else rv = RTR_SPKI_ERROR \<and> rs = None \<and> False \<in> set mem)"
proof (induction match es res mem rule: collect_entries.induct)
  case (2 match e es res mem)
  show ?case
  proof (cases "match e")
    case m: True
    obtain ok m1 where m1: "rtr_realloc mem = (ok, m1)" by (cases "rtr_realloc mem")
    note sub = rtr_realloc_set [OF m1]
    show ?thesis
    proof (cases ok)
      case True
      then obtain rv rs mem' where "collect_entries match es (res @ [key_entry_to_spki_record e]) m1 = (rv, rs, mem')"
        "if rv = RTR_SPKI_SUCCESS then rs = Some ((res @ [key_entry_to_spki_record e]) @ map key_entry_to_spki_record (filter match es))
         else rv = RTR_SPKI_ERROR \<and> rs = None \<and> False \<in> set m1"
        using 2 m m1 by fastforce
      then show ?thesis using m m1 True sub by (auto split: if_splits)
    qed (use m m1 sub in auto)
  next
    case False
    then have "filter match (e # es) = filter match es" "collect_entries match (e # es) res mem = collect_entries match es res mem"
      by simp_all
    then show ?thesis using "2.IH"(2) [OF False] by (simp only:)
  qed
qed simp

lemma spki_get_all_outcome:
  assumes "spki_inv tbl"
  shows "\<exists>rv rs mem'. spki_table_get_all tbl asn ski mem = Some (rv, rs, mem') \<and>
    (if rv = RTR_SPKI_SUCCESS then \<exists>res. rs = Some res \<and> distinct res \<and> set res = {r \<in> set (spki_records tbl). sr_asn r = asn \<and> sr_ski r = ski}
     else rv = RTR_SPKI_ERROR \<and> rs = None \<and> False \<in> set mem)"
proof -
  let ?key = "tommy_inthash_u32 asn" and ?match = "\<lambda>e. ke_asn e = asn \<and> ke_ski e = ski"
  have inv: "hl_inv (spki_hashtable tbl)" using assms by (simp add: spki_inv_def)
  obtain b where b: "tommy_hashlin_bucket (spki_hashtable tbl) ?key = Some b"
    "{#n \<in># hl_nodes (spki_hashtable tbl). fst n = ?key#} = mset (filter (\<lambda>n. fst n = ?key) b)" "mset b \<subseteq># hl_nodes (spki_hashtable tbl)"
    using hl_inv_bucket [OF inv, of ?key 0] by blast
  have keyed: "n \<in> set b \<Longrightarrow> snd n \<in> set (spki_list tbl)" for n
    using mset_subset_eqD [OF b(3)] spki_nodes_member [OF assms, of "fst n" "snd n"] by (auto simp: prod_eq_iff)
  have mem: "e \<in> set (map snd b) \<longleftrightarrow> e \<in> set (spki_list tbl)" if "ke_asn e = asn" for e
  proof
    show "e \<in> set (map snd b) \<Longrightarrow> e \<in> set (spki_list tbl)" using keyed by auto
    assume "e \<in> set (spki_list tbl)"
    then have "(?key, e) \<in> set b" using hashlin.bucket_member [OF inv b(1), of e] spki_nodes_member [OF assms, of ?key e] that by simp
    then show "e \<in> set (map snd b)" by force
  qed
  have "mset b \<subseteq># image_mset (\<lambda>e. (tommy_inthash_u32 (ke_asn e), e)) (mset (spki_list tbl))" using b(3) assms by (simp add: spki_inv_def)
  from image_mset_subseteq_mono [OF this, of snd] have "mset (map snd b) \<subseteq># mset (spki_list tbl)" by (simp add: image_mset.compositionality o_def)
  then have d: "distinct (map snd b)" using assms by (meson distinct_submset spki_inv_def)
  let ?res = "map key_entry_to_spki_record (filter ?match (map snd b))"
  have "distinct ?res" using d by (auto simp: distinct_map inj_on_def) (metis entry_record_inverse(1))
  moreover have "set ?res = {r \<in> set (spki_records tbl). sr_asn r = asn \<and> sr_ski r = ski}"
    using mem by (auto simp: spki_records_def key_entry_to_spki_record_def)
  ultimately show ?thesis
    using collect_entries_outcome [of ?match "map snd b" "[]" mem] b(1) by (auto simp: spki_table_get_all_def split: if_splits)
qed

definition copied :: "key_entry list \<Rightarrow> rtr_spki_table \<Rightarrow> bool \<Rightarrow> rtr_spki_rtvals \<Rightarrow> rtr_spki_table \<Rightarrow> bool" where
  "copied es dst failing rv dst' =
     (spki_inv dst' \<and> spki_fp dst' = spki_fp dst \<and>
      (if rv = RTR_SPKI_SUCCESS then spki_list dst' = spki_list dst @ es \<and>
         spki_log dst' = spki_log dst @ (if spki_fp dst then map (\<lambda>e. (key_entry_to_spki_record e, RTR_SPKI_ADD)) es else [])
       else rv = RTR_SPKI_ERROR \<and> failing))"

lemma add_outcome_list:
  assumes "spki_add_outcome dst (key_entry_to_spki_record e) failing RTR_SPKI_SUCCESS d1"
  shows "spki_list d1 = spki_list dst @ [e]"
proof -
  have "map key_entry_to_spki_record (spki_list d1) = map key_entry_to_spki_record (spki_list dst @ [e])"
    using assms by (simp add: spki_add_outcome_def spki_records_def)
  then show ?thesis by (rule map_injective) (metis entry_record_inverse(1) injI)
qed

lemma copied_Cons:
  assumes "spki_add_outcome dst (key_entry_to_spki_record e) failing RTR_SPKI_SUCCESS d1" "copied es d1 failing' rv dst'" "failing' \<longrightarrow> failing"
  shows "copied (e # es) dst failing rv dst'"
  using assms add_outcome_list [OF assms(1)] by (auto simp: copied_def spki_add_outcome_def split: if_splits)

lemma copy_entries_outcome:
  assumes "spki_inv dst" "distinct es" "set es \<inter> set (spki_list dst) = {}" "length (spki_list dst) + length es < 2 ^ 29"
  shows "\<exists>rv dst' mem'. copy_entries s es dst mem = Some (rv, dst', mem') \<and>
    copied (filter (\<lambda>e. ke_socket e \<noteq> s) es) dst (False \<in> set mem) rv dst'"
  using assms
proof (induction es arbitrary: dst mem)
  case Nil
  then show ?case by (simp add: copied_def)
next
  case (Cons e es)
  show ?case
  proof (cases "ke_socket e = s")
    case True
    then show ?thesis using Cons.IH [of dst mem] Cons.prems by auto
  next
    case False
    let ?r = "key_entry_to_spki_record e"
    have new: "?r \<notin> set (spki_records dst)" using Cons.prems(3) by (auto simp: record_in_records)
    have "small dst" using Cons.prems(4) by simp
    from spki_add_entry_outcome [OF Cons.prems(1) this, of ?r mem] obtain rv d1 m1 where
      a: "spki_table_add_entry dst ?r mem = Some (rv, d1, m1)" "spki_inv d1" "set m1 \<subseteq> set mem"
        "spki_add_outcome dst ?r (False \<in> set mem) rv d1" by blast
    show ?thesis
    proof (cases "rv = RTR_SPKI_SUCCESS")
      case ok: True
      note l = add_outcome_list [OF a(4) [unfolded ok]]
      obtain rv dst' mem' where "copy_entries s es d1 m1 = Some (rv, dst', mem')"
        "copied (filter (\<lambda>e. ke_socket e \<noteq> s) es) d1 (False \<in> set m1) rv dst'"
        using Cons.IH [of d1 m1] a(2) l Cons.prems by auto
      moreover from this(2) have "copied (e # filter (\<lambda>e. ke_socket e \<noteq> s) es) dst (False \<in> set mem) rv dst'"
        by (rule copied_Cons [OF a(4) [unfolded ok]]) (use a(3) in blast)
      ultimately show ?thesis using False ok a(1) by auto
    qed (use a new False in \<open>auto simp: spki_add_outcome_def copied_def\<close>)
  qed
qed

lemma remove_outcome_list:
  assumes "spki_inv old" "spki_remove_outcome old (key_entry_to_spki_record e) rv old'"
  shows "spki_list old' = filter (\<lambda>x. x \<noteq> e) (spki_list old)" "rv = RTR_SPKI_RECORD_NOT_FOUND \<longleftrightarrow> e \<notin> set (spki_list old)"
proof -
  have d: "distinct (spki_list old)" using assms(1) by (simp add: spki_inv_def)
  show "rv = RTR_SPKI_RECORD_NOT_FOUND \<longleftrightarrow> e \<notin> set (spki_list old)"
    using assms(2) by (auto simp: spki_remove_outcome_def record_in_records split: if_splits)
  show "spki_list old' = filter (\<lambda>x. x \<noteq> e) (spki_list old)"
  proof (cases "e \<in> set (spki_list old)")
    case True
    then have "map key_entry_to_spki_record (spki_list old') = map key_entry_to_spki_record (remove1 e (spki_list old))"
      using assms(2) by (simp add: spki_remove_outcome_def record_in_records) (simp add: spki_records_def map_remove1_entry)
    then have "spki_list old' = remove1 e (spki_list old)" by (rule map_injective) (metis entry_record_inverse(1) injI)
    then show ?thesis using d by (simp add: distinct_remove1_removeAll removeAll_filter_not_eq eq_commute)
  next
    case False
    then have "old' = old" using assms(2) by (simp add: spki_remove_outcome_def record_in_records)
    moreover have "filter (\<lambda>x. x \<noteq> e) (spki_list old) = spki_list old" using False by (auto simp: filter_id_conv)
    ultimately show ?thesis by simp
  qed
qed

lemma diff_added_outcome:
  assumes "spki_inv old" "\<not> spki_fp old" "distinct es"
  shows "\<exists>old'. diff_added s es new old =
      Some (new\<lparr>spki_log := spki_log new @ (if spki_fp new then map (\<lambda>e. (key_entry_to_spki_record e, RTR_SPKI_ADD))
        (filter (\<lambda>e. ke_socket e = s \<and> e \<notin> set (spki_list old)) es) else [])\<rparr>, old') \<and>
    spki_inv old' \<and> \<not> spki_fp old' \<and> spki_list old' = filter (\<lambda>e. \<not> (e \<in> set es \<and> ke_socket e = s)) (spki_list old)"
  using assms
proof (induction es arbitrary: new old)
  case (Cons e es)
  show ?case
  proof (cases "ke_socket e = s")
    case True
    from spki_remove_entry_outcome [OF Cons.prems(1), of "key_entry_to_spki_record e"] obtain rv old1 where
      r: "spki_table_remove_entry old (key_entry_to_spki_record e) = Some (rv, old1)" "spki_inv old1"
        "spki_remove_outcome old (key_entry_to_spki_record e) rv old1" by blast
    note l = remove_outcome_list [OF Cons.prems(1) r(3)]
    have fp: "\<not> spki_fp old1" using r(3) Cons.prems(2) by (auto simp: spki_remove_outcome_def split: if_splits)
    let ?new = "if rv = RTR_SPKI_RECORD_NOT_FOUND then spki_table_notify_clients new (key_entry_to_spki_record e) RTR_SPKI_ADD else new"
    have later: "filter (\<lambda>x. ke_socket x = s \<and> x \<notin> set (spki_list old1)) es = filter (\<lambda>x. ke_socket x = s \<and> x \<notin> set (spki_list old)) es"
      using Cons.prems(3) by (auto simp: l(1) intro!: filter_cong)
    have rest: "filter (\<lambda>x. \<not> (x \<in> set es \<and> ke_socket x = s)) (spki_list old1) = filter (\<lambda>x. \<not> (x \<in> set (e # es) \<and> ke_socket x = s)) (spki_list old)"
      using True by (auto simp: l(1) intro!: filter_cong)
    from Cons.IH [OF r(2) fp, of ?new] Cons.prems(3) show ?thesis
      using True r(1) l(2) unfolding later rest by (auto simp: spki_table_notify_clients_def)
  next
    case False
    then have "filter (\<lambda>x. \<not> (x \<in> set (e # es) \<and> ke_socket x = s)) (spki_list old) = filter (\<lambda>x. \<not> (x \<in> set es \<and> ke_socket x = s)) (spki_list old)"
      by (auto intro!: filter_cong)
    then show ?thesis using False Cons.IH [OF Cons.prems(1,2), of new] Cons.prems(3) by auto
  qed
qed simp

lemma diff_removed_log:
  "diff_removed s es new = new\<lparr>spki_log := spki_log new @ (if spki_fp new then map (\<lambda>e. (key_entry_to_spki_record e, RTR_SPKI_REMOVE))
     (filter (\<lambda>e. ke_socket e = s) es) else [])\<rparr>"
  by (induction es arbitrary: new) (auto simp: spki_table_notify_clients_def)

definition spki_diff_log :: "rtr_spki_record list \<Rightarrow> rtr_spki_record list \<Rightarrow> socket_id \<Rightarrow> (rtr_spki_record \<times> rtr_spki_operation_type) list" where
  "spki_diff_log new old s =
     map (\<lambda>r. (r, RTR_SPKI_ADD)) (filter (\<lambda>r. sr_socket r = s \<and> r \<notin> set old) new) @
     map (\<lambda>r. (r, RTR_SPKI_REMOVE)) (filter (\<lambda>r. sr_socket r = s \<and> r \<notin> set new) old)"

lemma notify_diff_outcome:
  assumes "spki_inv new" "spki_inv old"
  shows "\<exists>old'. spki_table_notify_diff new old s =
    Some (new\<lparr>spki_log := spki_log new @ (if spki_fp new then spki_diff_log (spki_records new) (spki_records old) s else [])\<rparr>, old')"
proof -
  let ?o = "old\<lparr>spki_fp := False\<rparr>"
  have o: "spki_inv ?o" "\<not> spki_fp ?o" "distinct (spki_list new)" using assms by (auto simp: spki_inv_def)
  have f: "filter P (map key_entry_to_spki_record es) = map key_entry_to_spki_record (filter (\<lambda>e. P (key_entry_to_spki_record e)) es)" for P es
    by (simp add: filter_map o_def)
  have m: "key_entry_to_spki_record e \<in> key_entry_to_spki_record ` X \<longleftrightarrow> e \<in> X" for e X
    by (metis entry_record_inverse(1) image_iff)
  have s: "sr_socket (key_entry_to_spki_record e) = ke_socket e" for e by (simp add: key_entry_to_spki_record_def)
  have "filter (\<lambda>e. ke_socket e = s) (filter (\<lambda>e. e \<in> set (spki_list new) \<longrightarrow> ke_socket e \<noteq> s) (spki_list old)) =
      filter (\<lambda>e. ke_socket e = s \<and> e \<notin> set (spki_list new)) (spki_list old)" by (auto intro: filter_cong)
  then show ?thesis
    using diff_added_outcome [OF o, of s new]
    by (auto simp: spki_table_notify_diff_def diff_removed_log spki_diff_log_def spki_records_def f m s o_def)
qed

section \<open>Properties\<close>

datatype spki_op = Add_key rtr_spki_record | Remove_key rtr_spki_record

fun spki_step :: "spki_op \<Rightarrow> rtr_spki_table \<Rightarrow> rtr_spki_table option" where
  "spki_step (Add_key r) tbl = map_option (\<lambda>(rv, t, mem). t) (spki_table_add_entry tbl r [])"
| "spki_step (Remove_key r) tbl = map_option snd (spki_table_remove_entry tbl r)"

text \<open>The specification: a list of distinct keys in order of insertion, and the changes to report.\<close>

fun key_step :: "spki_op \<Rightarrow> rtr_spki_record list \<times> (rtr_spki_record \<times> rtr_spki_operation_type) list
    \<Rightarrow> rtr_spki_record list \<times> (rtr_spki_record \<times> rtr_spki_operation_type) list" where
  "key_step (Add_key r) (rs, log) = (if r \<in> set rs then (rs, log) else (rs @ [r], log @ [(r, RTR_SPKI_ADD)]))"
| "key_step (Remove_key r) (rs, log) = (if r \<in> set rs then (remove1 r rs, log @ [(r, RTR_SPKI_REMOVE)]) else (rs, log))"

lemma spki_step_refines:
  assumes "spki_inv tbl" "small tbl" "spki_fp tbl"
  shows "\<exists>tbl'. spki_step op tbl = Some tbl' \<and> spki_inv tbl' \<and> spki_fp tbl' \<and> length (spki_list tbl') \<le> length (spki_list tbl) + 1 \<and>
    (spki_records tbl', spki_log tbl') = key_step op (spki_records tbl, spki_log tbl)"
proof (cases op)
  case (Add_key r)
  obtain rv tbl' mem' where a: "spki_table_add_entry tbl r [] = Some (rv, tbl', mem')" "spki_inv tbl'"
    "spki_add_outcome tbl r False rv tbl'" using spki_add_entry_outcome [OF assms(1,2), of r "[]"] by auto
  have "length (spki_list t) = length (spki_records t)" for t by (simp add: spki_records_def)
  then show ?thesis using a assms(3) Add_key by (auto simp: spki_add_outcome_def split: if_splits)
next
  case (Remove_key r)
  obtain rv tbl' where a: "spki_table_remove_entry tbl r = Some (rv, tbl')" "spki_inv tbl'" "spki_remove_outcome tbl r rv tbl'"
    using spki_remove_entry_outcome [OF assms(1), of r] by auto
  have "length (spki_list t) = length (spki_records t)" for t by (simp add: spki_records_def)
  then show ?thesis using a assms(3) Remove_key length_remove1 [of r "spki_records tbl"]
    by (auto simp: spki_remove_outcome_def split: if_splits)
qed

lemma spki_run_refines:
  assumes "spki_inv tbl" "spki_fp tbl" "length (spki_list tbl) + length ops < 2 ^ 29"
  shows "\<exists>tbl'. fold_opt spki_step ops tbl = Some tbl' \<and> spki_inv tbl' \<and>
    (spki_records tbl', spki_log tbl') = fold key_step ops (spki_records tbl, spki_log tbl)"
  using assms
proof (induction ops arbitrary: tbl)
  case (Cons op ops)
  have "small tbl" using Cons.prems(3) by simp
  from spki_step_refines [OF Cons.prems(1) this Cons.prems(2), of op] obtain t1 where
    t1: "spki_step op tbl = Some t1" "spki_inv t1" "spki_fp t1" "length (spki_list t1) \<le> length (spki_list tbl) + 1"
      "(spki_records t1, spki_log t1) = key_step op (spki_records tbl, spki_log tbl)" by blast
  have "length (spki_list t1) + length ops < 2 ^ 29" using t1(4) Cons.prems(3) by simp
  from Cons.IH [OF t1(2,3) this] show ?case using t1(1,5) by auto
qed simp

text \<open>C12: The router key table is a set of keys. Starting from an initialised table, every sequence of
  fewer than 2^29 additions and removals runs to completion (no undefined bucket is ever read while
  the hash table grows and shrinks) and leaves the keys, in order of insertion, and the reported
  changes that the sequence has on a plain list of distinct keys.\<close>

theorem spki_table_is_set_of_keys:
  assumes "length ops < 2 ^ 29"
  shows "\<exists>tbl. fold_opt spki_step ops (spki_table_init True) = Some tbl \<and> spki_inv tbl \<and>
    (spki_records tbl, spki_log tbl) = fold key_step ops ([], [])"
  using spki_run_refines [OF spki_inv_init, of True ops] assms by (simp add: spki_table_init_def spki_records_def)

definition sample_key :: "u32 \<Rightarrow> rtr_spki_record" where
  "sample_key n = \<lparr>sr_ski = replicate 20 1, sr_asn = n, sr_spki = replicate 91 2, sr_socket = 1\<rparr>"

theorem spki_table_is_set_of_keys_witness:
  "\<exists>tbl. fold_opt spki_step [Add_key (sample_key 1), Add_key (sample_key 2), Remove_key (sample_key 1)] (spki_table_init True) = Some tbl \<and>
     spki_records tbl = [sample_key 2]"
  using spki_table_is_set_of_keys [of "[Add_key (sample_key 1), Add_key (sample_key 2), Remove_key (sample_key 1)]"]
  by (auto simp: sample_key_def)

text \<open>C28: Looking up keys is exact: on a well-formed table \<open>spki_table_get_all\<close> returns, without repetition,
  the stored keys with the given ASN and subject key identifier, although the bucket it walks also
  holds entries of other ASNs; it fails only when enlarging the result fails.\<close>

theorem spki_get_all_exact:
  assumes "spki_inv tbl"
  shows "\<exists>rv rs mem'. spki_table_get_all tbl asn ski mem = Some (rv, rs, mem') \<and>
    (if rv = RTR_SPKI_SUCCESS then \<exists>res. rs = Some res \<and> distinct res \<and> set res = {r \<in> set (spki_records tbl). sr_asn r = asn \<and> sr_ski r = ski}
     else rv = RTR_SPKI_ERROR \<and> rs = None \<and> False \<in> set mem)"
  by (rule spki_get_all_outcome [OF assms])

theorem spki_get_all_exact_witness:
  "spki_table_get_all (spki_table_init True) 7 (replicate 20 1) [] \<noteq> None"
  using spki_get_all_exact [OF spki_inv_init, of True 7 "replicate 20 1" "[]"] by auto

text \<open>C35: Dropping a source removes exactly the keys of that socket, keeps the order of the others and
  reports nothing: the update callback is not called.\<close>

theorem spki_src_remove_silent:
  assumes "spki_inv tbl"
  shows "\<exists>tbl'. spki_table_src_remove (Some tbl) s = Some (RTR_SPKI_SUCCESS, Some tbl') \<and> spki_inv tbl' \<and>
    spki_records tbl' = filter (\<lambda>r. sr_socket r \<noteq> s) (spki_records tbl) \<and> spki_log tbl' = spki_log tbl"
  using src_remove_outcome [OF assms, of s] by auto

theorem spki_src_remove_silent_witness:
  "\<exists>tbl. fold_opt spki_step [Add_key (sample_key 1)] (spki_table_init True) = Some tbl \<and>
     (\<exists>tbl'. spki_table_src_remove (Some tbl) 1 = Some (RTR_SPKI_SUCCESS, Some tbl') \<and> spki_records tbl' = [] \<and>
        spki_log tbl' = [(sample_key 1, RTR_SPKI_ADD)])"
proof -
  obtain tbl where t: "fold_opt spki_step [Add_key (sample_key 1)] (spki_table_init True) = Some tbl" "spki_inv tbl"
    "(spki_records tbl, spki_log tbl) = ([sample_key 1], [(sample_key 1, RTR_SPKI_ADD)])"
    using spki_run_refines [OF spki_inv_init, of True "[Add_key (sample_key 1)]"]
    by (auto simp: spki_table_init_def spki_records_def)
  then show ?thesis using spki_src_remove_silent [OF t(2), of 1] by (auto simp: sample_key_def)
qed

text \<open>C29: After a reset the reported key changes are the difference: comparing the table before and after,
  \<open>spki_table_notify_diff\<close> reports as added the socket's keys that only the new table has and as removed those
  that only the old one has, each once, and nothing else.\<close>

theorem spki_notify_diff_exact:
  assumes "spki_inv new" "spki_inv old" "spki_fp new"
  shows "\<exists>new' old'. spki_table_notify_diff new old s = Some (new', old') \<and> spki_records new' = spki_records new \<and>
    spki_log new' = spki_log new @
      map (\<lambda>r. (r, RTR_SPKI_ADD)) (filter (\<lambda>r. sr_socket r = s \<and> r \<notin> set (spki_records old)) (spki_records new)) @
      map (\<lambda>r. (r, RTR_SPKI_REMOVE)) (filter (\<lambda>r. sr_socket r = s \<and> r \<notin> set (spki_records new)) (spki_records old))"
  using notify_diff_outcome [OF assms(1,2), of s] assms(3) by (auto simp: spki_diff_log_def spki_records_def)

theorem spki_notify_diff_exact_witness:
  "\<exists>new old new' old'. fold_opt spki_step [Add_key (sample_key 2)] (spki_table_init True) = Some new \<and>
     fold_opt spki_step [Add_key (sample_key 1)] (spki_table_init True) = Some old \<and>
     spki_table_notify_diff new old 1 = Some (new', old') \<and>
     spki_log new' = [(sample_key 2, RTR_SPKI_ADD), (sample_key 2, RTR_SPKI_ADD), (sample_key 1, RTR_SPKI_REMOVE)]"
proof -
  have run: "\<exists>t. fold_opt spki_step [Add_key k] (spki_table_init True) = Some t \<and> spki_inv t \<and> spki_records t = [k] \<and> spki_log t = [(k, RTR_SPKI_ADD)] \<and> spki_fp t" for k
    using spki_step_refines [OF spki_inv_init, of True "Add_key k"] by (auto simp: spki_table_init_def spki_records_def)
  obtain new where new: "fold_opt spki_step [Add_key (sample_key 2)] (spki_table_init True) = Some new" "spki_inv new"
    "spki_records new = [sample_key 2]" "spki_log new = [(sample_key 2, RTR_SPKI_ADD)]" "spki_fp new" using run by blast
  obtain old where old: "fold_opt spki_step [Add_key (sample_key 1)] (spki_table_init True) = Some old" "spki_inv old"
    "spki_records old = [sample_key 1]" using run by blast
  from spki_notify_diff_exact [OF new(2) old(2) new(5), of 1] show ?thesis
    using new(1) old(1) unfolding new(3,4) old(3) by (auto simp: sample_key_def)
qed

end
