(* ===== verification/Transport.thy ===== *)
theory Transport
  imports Rtr_Prelude
begin

text \<open>
  The transport layer of \<^verbatim>\<open>rtrlib/transport/transport.c\<close> and the clock of \<^verbatim>\<open>rtrlib/lib/utils.c\<close>.
  The technology below it (TCP, SSH) is reached through function pointers and is a script of the
  answers it will give: which bytes arrive in which portions, when a call fails and how, how many
  bytes a call to send takes. Nothing is assumed about the script. What the code does to its
  surroundings is logged: the bytes sent in \<open>wire\<close>, opening, closing, sleeping and waiting in
  \<open>acts\<close>. A time-out is one of the failures of the script; the deadlines \<^verbatim>\<open>tr_send_all\<close> and
  \<^verbatim>\<open>tr_recv_all\<close> compute only reach the function pointers and are left out.
\<close>

section \<open>Answers and return values\<close>

abbreviation (input) RTR_TR_SUCCESS :: int where "RTR_TR_SUCCESS \<equiv> 0"
abbreviation (input) RTR_TR_ERROR :: int where "RTR_TR_ERROR \<equiv> -1"
abbreviation (input) RTR_TR_WOULDBLOCK :: int where "RTR_TR_WOULDBLOCK \<equiv> -2"
abbreviation (input) RTR_TR_INTR :: int where "RTR_TR_INTR \<equiv> -3"
abbreviation (input) RTR_TR_CLOSED :: int where "RTR_TR_CLOSED \<equiv> -4"

datatype tr_failure = Tr_Error | Tr_Wouldblock | Tr_Intr | Tr_Closed

fun tr_code :: "tr_failure \<Rightarrow> int" where
  "tr_code Tr_Error = RTR_TR_ERROR"
| "tr_code Tr_Wouldblock = RTR_TR_WOULDBLOCK"
| "tr_code Tr_Intr = RTR_TR_INTR"
| "tr_code Tr_Closed = RTR_TR_CLOSED"

datatype rx_event = Rx_Bytes "u8 list" | Rx_Fail tr_failure
datatype tx_event = Tx_Accept nat | Tx_Fail tr_failure
datatype io_act = Act_Open bool | Act_Close | Act_Sleep u32 | Act_Wait int

record rtr_tr_socket =
  rx :: "rx_event list"
  tx :: "tx_event list"
  wire :: "u8 list"
  opens :: "bool list"
  acts :: "io_act list"
  clock :: "nat \<Rightarrow> (int \<times> int) option"
  ticks :: nat

section \<open>The clock\<close>

definition rtr_get_monotonic_time :: "rtr_tr_socket \<Rightarrow> int option \<times> rtr_tr_socket" where
  "rtr_get_monotonic_time io =
     (map_option (\<lambda>(tv_sec, tv_nsec). if tv_nsec * 1000000000 \<ge> 5 then tv_sec + 1 else tv_sec)
        (clock io (ticks io)),
      io\<lparr>ticks := ticks io + 1\<rparr>)"

section \<open>Single calls\<close>

fun tr_open :: "rtr_tr_socket \<Rightarrow> int \<times> rtr_tr_socket" where
  "tr_open io =
     (case opens io of
       [] \<Rightarrow> (RTR_TR_SUCCESS, io\<lparr>acts := acts io @ [Act_Open True]\<rparr>)
     | b # bs \<Rightarrow> (if b then RTR_TR_SUCCESS else RTR_TR_ERROR, io\<lparr>acts := acts io @ [Act_Open b], opens := bs\<rparr>))"

definition tr_close :: "rtr_tr_socket \<Rightarrow> rtr_tr_socket" where
  "tr_close io = io\<lparr>acts := acts io @ [Act_Close]\<rparr>"

text \<open>A call that finds the script used up would block until its time-out.\<close>

definition tr_recv :: "rtr_tr_socket \<Rightarrow> nat \<Rightarrow> int \<times> u8 list \<times> rtr_tr_socket" where
  "tr_recv io len =
     (case rx io of
       [] \<Rightarrow> (RTR_TR_WOULDBLOCK, [], io)
     | Rx_Fail e # evs \<Rightarrow> (tr_code e, [], io\<lparr>rx := evs\<rparr>)
     | Rx_Bytes bs # evs \<Rightarrow>
         if length bs \<le> len then (int (length bs), bs, io\<lparr>rx := evs\<rparr>)
         else (int len, take len bs, io\<lparr>rx := Rx_Bytes (drop len bs) # evs\<rparr>))"

text \<open>A call that finds the script used up takes all bytes.\<close>

definition tr_send :: "rtr_tr_socket \<Rightarrow> u8 list \<Rightarrow> int \<times> rtr_tr_socket" where
  "tr_send io pdu =
     (case tx io of
       [] \<Rightarrow> (int (length pdu), io\<lparr>wire := wire io @ pdu\<rparr>)
     | Tx_Fail e # evs \<Rightarrow> (tr_code e, io\<lparr>tx := evs\<rparr>)
     | Tx_Accept k # evs \<Rightarrow>
         (int (min k (length pdu)), io\<lparr>tx := evs, wire := wire io @ take k pdu\<rparr>))"

section \<open>Complete messages\<close>

definition rx_size :: "rx_event list \<Rightarrow> nat" where
  "rx_size evs = sum_list (map (\<lambda>e. case e of Rx_Bytes bs \<Rightarrow> Suc (length bs) | Rx_Fail f \<Rightarrow> 1) evs)"

lemma tr_recv_decreases:
  assumes "tr_recv io len = (rv, bs, io')" "0 < len" "\<not> rv < 0"
  shows "rx_size (rx io') < rx_size (rx io)"
  using assms unfolding tr_recv_def rx_size_def
  by (auto split: list.splits rx_event.splits if_splits elim: tr_code.elims)

text \<open>\<open>got\<close> are the bytes that have been written to the buffer, those of a failing call included.\<close>

function recv_loop :: "rtr_tr_socket \<Rightarrow> nat \<Rightarrow> u8 list \<Rightarrow> int \<times> u8 list \<times> rtr_tr_socket" where
  "recv_loop io len got =
     (if length got < len then
        let (rtval, bs, io) = tr_recv io (len - length got) in
        if rtval < 0 then (rtval, got, io) else recv_loop io len (got @ bs)
      else (int (length got), got, io))"
  by auto
termination
  by (relation "measure (\<lambda>(io, len, got). rx_size (rx io))") (auto intro: tr_recv_decreases [OF sym])

declare recv_loop.simps [simp del]

definition tr_recv_all :: "rtr_tr_socket \<Rightarrow> nat \<Rightarrow> int \<times> u8 list \<times> rtr_tr_socket" where
  "tr_recv_all io len = recv_loop io len []"

function send_loop :: "rtr_tr_socket \<Rightarrow> u8 list \<Rightarrow> nat \<Rightarrow> int \<times> rtr_tr_socket" where
  "send_loop io pdu total_send =
     (if total_send < length pdu then
        let (rtval, io) = tr_send io (drop total_send pdu) in
        if rtval < 0 then (rtval, io) else send_loop io pdu (total_send + nat rtval)
      else (int total_send, io))"
  by auto
termination
  by (relation "measures [\<lambda>(io, pdu, sent). length (tx io), \<lambda>(io, pdu, sent). length pdu - sent]")
    (auto simp: tr_send_def split: list.splits tx_event.splits)

declare send_loop.simps [simp del]

definition tr_send_all :: "rtr_tr_socket \<Rightarrow> u8 list \<Rightarrow> int \<times> rtr_tr_socket" where
  "tr_send_all io pdu = send_loop io pdu 0"

section \<open>The byte stream\<close>

text \<open>The bytes that arrive before the first failure, and the failure that ends them.\<close>

fun avail :: "rx_event list \<Rightarrow> u8 list" where
  "avail [] = []"
| "avail (Rx_Bytes bs # evs) = bs @ avail evs"
| "avail (Rx_Fail e # evs) = []"

fun ending :: "rx_event list \<Rightarrow> tr_failure \<times> rx_event list" where
  "ending [] = (Tr_Wouldblock, [])"
| "ending (Rx_Bytes bs # evs) = ending evs"
| "ending (Rx_Fail e # evs) = (e, evs)"

lemma recv_loop_stream:
  "length got \<le> len \<Longrightarrow>
   (if len - length got \<le> length (avail (rx io))
    then \<exists>evs. recv_loop io len got = (int len, got @ take (len - length got) (avail (rx io)), io\<lparr>rx := evs\<rparr>) \<and>
           avail evs = drop (len - length got) (avail (rx io)) \<and> ending evs = ending (rx io)
    else recv_loop io len got = (tr_code (fst (ending (rx io))), got @ avail (rx io), io\<lparr>rx := snd (ending (rx io))\<rparr>))"
proof (induction io len got rule: recv_loop.induct)
  case (1 io len got)
  show ?case
  proof (cases "length got < len")
    case False
    then have "length got = len" using 1(2) by simp
    then show ?thesis by (simp add: recv_loop.simps [of io len got]) (rule exI [of _ "rx io"], simp)
  next
    case less: True
    show ?thesis
    proof (cases "rx io")
      case Nil
      then have "io\<lparr>rx := []\<rparr> = io" by simp
      with Nil less show ?thesis by (simp add: recv_loop.simps [of io len got] tr_recv_def)
    next
      case (Cons ev evs)
      show ?thesis
      proof (cases ev)
        case (Rx_Fail e)
        have "tr_code e < 0" by (cases e) simp_all
        with Cons Rx_Fail less show ?thesis by (simp add: recv_loop.simps [of io len got] tr_recv_def)
      next
        case (Rx_Bytes bs)
        show ?thesis
        proof (cases "length bs \<le> len - length got")
          case True
          have step: "tr_recv io (len - length got) = (int (length bs), bs, io\<lparr>rx := evs\<rparr>)"
            using Cons Rx_Bytes True by (simp add: tr_recv_def)
          have loop: "recv_loop io len got = recv_loop (io\<lparr>rx := evs\<rparr>) len (got @ bs)"
            using less step by (simp add: recv_loop.simps [of io len got])
          have "len - length got \<le> length (bs @ avail evs) \<longleftrightarrow> len - length (got @ bs) \<le> length (avail evs)"
            using True by auto
          moreover have "take (len - length got) (bs @ avail evs) = bs @ take (len - length (got @ bs)) (avail evs)"
            "drop (len - length got) (bs @ avail evs) = drop (len - length (got @ bs)) (avail evs)"
            using True by simp_all
          moreover have "length (got @ bs) \<le> len" using True less by simp
          ultimately show ?thesis
            using 1(1) [OF less, of "(int (length bs), bs, io\<lparr>rx := evs\<rparr>)" "int (length bs)"
                "(bs, io\<lparr>rx := evs\<rparr>)" bs "io\<lparr>rx := evs\<rparr>"] step loop Cons Rx_Bytes
            by (auto split: if_splits)
        next
          case False
          let ?n = "len - length got" and ?rest = "Rx_Bytes (drop (len - length got) bs) # evs"
          have "tr_recv io ?n = (int ?n, take ?n bs, io\<lparr>rx := ?rest\<rparr>)"
            using Cons Rx_Bytes False by (simp add: tr_recv_def)
          then have "recv_loop io len got = recv_loop (io\<lparr>rx := ?rest\<rparr>) len (got @ take ?n bs)"
            using less by (simp add: recv_loop.simps [of io len got])
          also have "\<dots> = (int len, got @ take ?n bs, io\<lparr>rx := ?rest\<rparr>)"
            using False less by (simp add: recv_loop.simps [of _ len "got @ take ?n bs"])
          finally show ?thesis using Cons Rx_Bytes False less by (auto intro!: exI [of _ ?rest])
        qed
      qed
    qed
  qed
qed

lemma tr_recv_all_ok:
  assumes "len \<le> length (avail (rx io))"
  obtains evs where "tr_recv_all io len = (int len, take len (avail (rx io)), io\<lparr>rx := evs\<rparr>)"
    "avail evs = drop len (avail (rx io))" "ending evs = ending (rx io)"
  using recv_loop_stream [of "[]" len io] assms that unfolding tr_recv_all_def by auto

lemma tr_recv_all_fails:
  assumes "length (avail (rx io)) < len"
  shows "tr_recv_all io len = (tr_code (fst (ending (rx io))), avail (rx io), io\<lparr>rx := snd (ending (rx io))\<rparr>)"
  using recv_loop_stream [of "[]" len io] assms unfolding tr_recv_all_def by (simp split: if_splits)

lemma tr_code_neg [simp]: "tr_code e < 0"
  by (cases e) simp_all

text \<open>Whatever the outcome, what reaches the wire is a prefix of the message.\<close>

lemma send_loop_stream:
  assumes "send_loop io pdu sent = (rv, io')" "sent \<le> length pdu"
  shows "\<exists>k evs. sent \<le> k \<and> k \<le> length pdu \<and> io' = io\<lparr>tx := evs, wire := wire io @ take (k - sent) (drop sent pdu)\<rparr> \<and>
    (rv < 0 \<or> k = length pdu \<and> rv = int k) \<and> (Tx_Fail ` UNIV \<inter> set (tx io) = {} \<longrightarrow> 0 \<le> rv) \<and> set evs \<subseteq> set (tx io)"
  using assms
proof (induction io pdu sent arbitrary: rv io' rule: send_loop.induct)
  case (1 io pdu sent)
  show ?case
  proof (cases "sent < length pdu")
    case False
    with 1(2,3) show ?thesis
      by (intro exI [of _ sent] exI [of _ "tx io"]) (simp add: send_loop.simps [of io pdu sent])
  next
    case less: True
    obtain r io1 where send: "tr_send io (drop sent pdu) = (r, io1)" by fastforce
    show ?thesis
    proof (cases "r < 0")
      case True
      then have "(rv, io') = (r, io1)" using 1(2) less send by (simp add: send_loop.simps [of io pdu sent])
      moreover obtain e evs where "tx io = Tx_Fail e # evs" "io1 = io\<lparr>tx := evs\<rparr>"
        using True send by (auto simp: tr_send_def split: list.splits tx_event.splits)
      ultimately show ?thesis using True less
        by (intro exI [of _ sent] exI [of _ evs]) (cases io, auto)
    next
      case False
      obtain evs where evs: "evs = tx io1" by simp
      have r: "r \<le> int (length pdu - sent)" "set evs \<subseteq> set (tx io)"
        "io1 = io\<lparr>tx := evs, wire := wire io @ take (nat r) (drop sent pdu)\<rparr>"
        using False send unfolding evs
        by (cases io; auto simp: tr_send_def min_def split: list.splits tx_event.splits if_splits elim: tr_code.elims)+
      have "send_loop io1 pdu (sent + nat r) = (rv, io')"
        using 1(2) less send False by (simp add: send_loop.simps [of io pdu sent])
      moreover have "sent + nat r \<le> length pdu" using r(1) False less by (simp add: nat_le_iff)
      ultimately have "\<exists>k evs. sent + nat r \<le> k \<and> k \<le> length pdu \<and>
        io' = io1\<lparr>tx := evs, wire := wire io1 @ take (k - (sent + nat r)) (drop (sent + nat r) pdu)\<rparr> \<and>
        (rv < 0 \<or> k = length pdu \<and> rv = int k) \<and> (Tx_Fail ` UNIV \<inter> set (tx io1) = {} \<longrightarrow> 0 \<le> rv) \<and>
        set evs \<subseteq> set (tx io1)"
        by (rule 1(1) [OF less send [symmetric] refl False])
      then
      obtain k evs' where k: "sent + nat r \<le> k" "k \<le> length pdu" "rv < 0 \<or> k = length pdu \<and> rv = int k"
        "io' = io1\<lparr>tx := evs', wire := wire io1 @ take (k - (sent + nat r)) (drop (sent + nat r) pdu)\<rparr>"
        "Tx_Fail ` UNIV \<inter> set (tx io1) = {} \<longrightarrow> 0 \<le> rv" "set evs' \<subseteq> set (tx io1)" by blast
      have "take (nat r) (drop sent pdu) @ take (k - (sent + nat r)) (drop (sent + nat r) pdu)
          = take (k - sent) (drop sent pdu)"
        using k(1) take_add [of "nat r" "k - (sent + nat r)" "drop sent pdu"] by (simp add: add.commute)
      then show ?thesis using k r by (intro exI [of _ k] exI [of _ evs']) auto
    qed
  qed
qed

lemma tr_send_all_stream:
  assumes "tr_send_all io pdu = (rv, io')"
  shows "\<exists>k evs. k \<le> length pdu \<and> io' = io\<lparr>tx := evs, wire := wire io @ take k pdu\<rparr> \<and>
    (rv < 0 \<or> k = length pdu \<and> rv = int k) \<and> (Tx_Fail ` UNIV \<inter> set (tx io) = {} \<longrightarrow> 0 \<le> rv) \<and> set evs \<subseteq> set (tx io)"
  using send_loop_stream [of io pdu 0 rv io'] assms unfolding tr_send_all_def by simp

lemma tr_recv_bounds:
  assumes "tr_recv io len = (rv, bs, io')"
  shows "length bs \<le> len \<and> (0 \<le> rv \<longrightarrow> rv = int (length bs)) \<and>
    (\<exists>evs. io' = io\<lparr>rx := evs\<rparr> \<and> rx_size evs \<le> rx_size (rx io))"
  using assms
  by (cases io) (auto simp: tr_recv_def rx_size_def tr_code_neg [THEN less_le_not_le [THEN iffD1]]
      split: list.splits rx_event.splits if_splits)

lemma recv_loop_bounds:
  assumes "recv_loop io len got = (rv, bs, io')" "length got \<le> len"
  shows "length bs \<le> len \<and> (0 \<le> rv \<longrightarrow> rv = int len \<and> length bs = len) \<and>
    (\<exists>evs. io' = io\<lparr>rx := evs\<rparr> \<and> rx_size evs \<le> rx_size (rx io) \<and>
      (0 \<le> rv \<and> length got < len \<longrightarrow> rx_size evs < rx_size (rx io)))"
  using assms
proof (induction io len got rule: recv_loop.induct)
  case (1 io len got)
  show ?case
  proof (cases "length got < len")
    case False
    then have "len = length got" "rv = int (length got)" "bs = got" "io' = io"
      using 1(2,3) by (simp_all add: recv_loop.simps [of io len got])
    then show ?thesis by (auto intro!: exI [of _ "rx io"])
  next
    case less: True
    obtain r cs io1 where step: "tr_recv io (len - length got) = (r, cs, io1)" by (cases "tr_recv io (len - length got)") auto
    note bounds = tr_recv_bounds [OF step]
    show ?thesis
    proof (cases "r < 0")
      case True
      with 1(2,3) less step bounds show ?thesis by (auto simp: recv_loop.simps [of io len got])
    next
      case False
      then have rec: "recv_loop io1 len (got @ cs) = (rv, bs, io')"
        using 1(2) less step by (simp add: recv_loop.simps [of io len got])
      have "length (got @ cs) \<le> len" using bounds less by auto
      note IH = 1(1) [OF less step [symmetric] refl refl False rec this]
      have "rx_size (rx io1) < rx_size (rx io)"
        by (rule tr_recv_decreases [OF step]) (use less False in auto)
      with IH bounds show ?thesis by auto
    qed
  qed
qed

lemma tr_recv_all_bounds:
  assumes "tr_recv_all io len = (rv, bs, io')"
  obtains evs where "io' = io\<lparr>rx := evs\<rparr>" "rx_size evs \<le> rx_size (rx io)" "length bs \<le> len"
    "0 \<le> rv \<Longrightarrow> rv = int len \<and> length bs = len" "0 \<le> rv \<Longrightarrow> 0 < len \<Longrightarrow> rx_size evs < rx_size (rx io)"
  using recv_loop_bounds [of io len "[]" rv bs io'] assms that unfolding tr_recv_all_def by auto

end
