(* ===== verification/Rtr_Pdu.thy ===== *)
theory Rtr_Pdu
  imports Rtr_Prelude
begin

text \<open>
  The protocol data units of RPKI-RTR as \<^verbatim>\<open>rtrlib/rtr/packets.c\<close> handles them: a PDU is a buffer of
  bytes that the code reads and writes through the structs of \<^verbatim>\<open>rtrlib/rtr/rtr_pdus.h\<close>, converts
  between network and host byte order in place, and whose length fields it checks against its type.
  The model keeps the buffers: a field access is an access at the field's offset, in the byte order
  of the machine, and an access that is not inside the buffer is \<^const>\<open>None\<close>. The byte order of the
  machine is a parameter, so every theorem holds for both.
\<close>

section \<open>Words in memory\<close>

datatype host_order = Little_Endian | Big_Endian

definition be_bytes16 :: "u16 \<Rightarrow> u8 list" where
  "be_bytes16 w = [ucast (drop_bit 8 w), ucast w]"

definition be_bytes32 :: "u32 \<Rightarrow> u8 list" where
  "be_bytes32 w = [ucast (drop_bit 24 w), ucast (drop_bit 16 w), ucast (drop_bit 8 w), ucast w]"

fun be_word16 :: "u8 list \<Rightarrow> u16" where
  "be_word16 [a, b] = push_bit 8 (ucast a) OR ucast b"
| "be_word16 bs = 0"

fun be_word32 :: "u8 list \<Rightarrow> u32" where
  "be_word32 [a, b, c, d] = push_bit 24 (ucast a) OR push_bit 16 (ucast b) OR push_bit 8 (ucast c) OR ucast d"
| "be_word32 bs = 0"

fun in_order :: "host_order \<Rightarrow> u8 list \<Rightarrow> u8 list" where
  "in_order Little_Endian bs = rev bs"
| "in_order Big_Endian bs = bs"

definition enc16 :: "host_order \<Rightarrow> u16 \<Rightarrow> u8 list" where "enc16 h w = in_order h (be_bytes16 w)"
definition enc32 :: "host_order \<Rightarrow> u32 \<Rightarrow> u8 list" where "enc32 h w = in_order h (be_bytes32 w)"
definition dec16 :: "host_order \<Rightarrow> u8 list \<Rightarrow> u16" where "dec16 h bs = be_word16 (in_order h bs)"
definition dec32 :: "host_order \<Rightarrow> u8 list \<Rightarrow> u32" where "dec32 h bs = be_word32 (in_order h bs)"

text \<open>What \<^verbatim>\<open>htons\<close> and \<^verbatim>\<open>htonl\<close>, their own inverses, do on the machine.\<close>

definition htons :: "host_order \<Rightarrow> u16 \<Rightarrow> u16" where "htons h w = dec16 h (be_bytes16 w)"
definition htonl :: "host_order \<Rightarrow> u32 \<Rightarrow> u32" where "htonl h w = dec32 h (be_bytes32 w)"
definition ntohs :: "host_order \<Rightarrow> u16 \<Rightarrow> u16" where "ntohs h w = be_word16 (enc16 h w)"
definition ntohl :: "host_order \<Rightarrow> u32 \<Rightarrow> u32" where "ntohl h w = be_word32 (enc32 h w)"

datatype target_byte_order = TO_NETWORK_BYTE_ORDER | TO_HOST_HOST_BYTE_ORDER

fun rtr_convert_short :: "host_order \<Rightarrow> target_byte_order \<Rightarrow> u16 \<Rightarrow> u16" where
  "rtr_convert_short h TO_NETWORK_BYTE_ORDER v = htons h v"
| "rtr_convert_short h TO_HOST_HOST_BYTE_ORDER v = ntohs h v"

fun rtr_convert_long :: "host_order \<Rightarrow> target_byte_order \<Rightarrow> u32 \<Rightarrow> u32" where
  "rtr_convert_long h TO_NETWORK_BYTE_ORDER v = htonl h v"
| "rtr_convert_long h TO_HOST_HOST_BYTE_ORDER v = ntohl h v"

definition get8 :: "nat \<Rightarrow> u8 list \<Rightarrow> u8 option" where
  "get8 off pdu = (if off < length pdu then Some (pdu ! off) else None)"

definition get16 :: "host_order \<Rightarrow> nat \<Rightarrow> u8 list \<Rightarrow> u16 option" where
  "get16 h off pdu = (if off + 2 \<le> length pdu then Some (dec16 h (take 2 (drop off pdu))) else None)"

definition get32 :: "host_order \<Rightarrow> nat \<Rightarrow> u8 list \<Rightarrow> u32 option" where
  "get32 h off pdu = (if off + 4 \<le> length pdu then Some (dec32 h (take 4 (drop off pdu))) else None)"

definition write_at :: "nat \<Rightarrow> u8 list \<Rightarrow> u8 list \<Rightarrow> u8 list option" where
  "write_at off bs pdu =
     (if off + length bs \<le> length pdu then Some (take off pdu @ bs @ drop (off + length bs) pdu) else None)"

definition set16 :: "host_order \<Rightarrow> nat \<Rightarrow> u16 \<Rightarrow> u8 list \<Rightarrow> u8 list option" where
  "set16 h off w pdu = write_at off (enc16 h w) pdu"

definition set32 :: "host_order \<Rightarrow> nat \<Rightarrow> u32 \<Rightarrow> u8 list \<Rightarrow> u8 list option" where
  "set32 h off w pdu = write_at off (enc32 h w) pdu"

definition get_bytes :: "nat \<Rightarrow> nat \<Rightarrow> u8 list \<Rightarrow> u8 list option" where
  "get_bytes off n pdu = (if off + n \<le> length pdu then Some (take n (drop off pdu)) else None)"

lemma length_enc [simp]: "length (enc16 h v) = 2" "length (enc32 h w) = 4"
  by (cases h; simp add: enc16_def enc32_def be_bytes16_def be_bytes32_def)+

lemma in_order_in_order [simp]: "in_order h (in_order h bs) = bs"
  by (cases h) simp_all

lemma length_in_order [simp]: "length (in_order h bs) = length bs"
  by (cases h) simp_all

lemma be_word16_bytes [simp]: "be_word16 (be_bytes16 w) = w"
  unfolding be_bytes16_def be_word16.simps
  by (rule bit_word_eqI) (auto simp: bit_simps)

lemma be_word32_bytes [simp]: "be_word32 (be_bytes32 w) = w"
proof (rule bit_word_eqI)
  fix n :: nat
  assume "n < LENGTH(32)"
  then consider "n < 8" | "8 \<le> n" "n < 16" | "16 \<le> n" "n < 24" | "24 \<le> n" "n < 32" by fastforce
  then show "bit (be_word32 (be_bytes32 w)) n = bit w n"
    by cases (auto simp: be_bytes32_def bit_simps)
qed

lemma be_bytes16_word [simp]:
  assumes "length bs = 2"
  shows "be_bytes16 (be_word16 bs) = bs"
proof -
  obtain a b where "bs = [a, b]" using assms by (auto simp: length_Suc_conv eval_nat_numeral)
  moreover have "(ucast (drop_bit 8 (push_bit 8 (ucast a) OR ucast b :: u16)) :: u8) = a"
    "(ucast (push_bit 8 (ucast a) OR ucast b :: u16) :: u8) = b" for a b :: u8
    by (rule bit_word_eqI; auto simp: bit_simps dest: bit_imp_le_length)+
  ultimately show ?thesis by (simp add: be_bytes16_def)
qed

lemma be_bytes32_word [simp]:
  assumes "length bs = 4"
  shows "be_bytes32 (be_word32 bs) = bs"
proof -
  obtain a b c d where bs: "bs = [a, b, c, d]" using assms by (auto simp: length_Suc_conv eval_nat_numeral)
  let ?w = "push_bit 24 (ucast a) OR push_bit 16 (ucast b) OR push_bit 8 (ucast c) OR ucast d :: u32"
  have "(ucast (drop_bit 24 ?w) :: u8) = a" "(ucast (drop_bit 16 ?w) :: u8) = b"
    "(ucast (drop_bit 8 ?w) :: u8) = c" "(ucast ?w :: u8) = d"
    by (rule bit_word_eqI; auto simp: bit_simps dest: bit_imp_le_length)+
  then show ?thesis using bs by (simp add: be_bytes32_def)
qed

lemma length_be_bytes [simp]: "length (be_bytes16 v) = 2" "length (be_bytes32 w) = 4"
  by (simp_all add: be_bytes16_def be_bytes32_def)

lemma dec_enc [simp]: "dec16 h (enc16 h v) = v" "dec32 h (enc32 h w) = w"
  by (simp_all add: dec16_def enc16_def dec32_def enc32_def)

lemma enc_dec [simp]:
  "length bs = 2 \<Longrightarrow> enc16 h (dec16 h bs) = bs" "length bs = 4 \<Longrightarrow> enc32 h (dec32 h bs) = bs"
  by (simp_all add: dec16_def enc16_def dec32_def enc32_def)

text \<open>The byte order a word is left in: network order is the big-endian one.\<close>

lemma enc_hton: "enc16 h (htons h v) = be_bytes16 v" "enc32 h (htonl h w) = be_bytes32 w"
  by (simp_all add: htons_def htonl_def)

lemma convert_swaps:
  assumes "length bs = 2"
  shows "enc16 h (rtr_convert_short h tbo (dec16 h bs)) = in_order h bs"
  using assms by (cases tbo; cases h) (simp_all add: htons_def ntohs_def enc16_def dec16_def)

lemma convert_swaps32:
  assumes "length bs = 4"
  shows "enc32 h (rtr_convert_long h tbo (dec32 h bs)) = in_order h bs"
  using assms by (cases tbo; cases h) (simp_all add: htonl_def ntohl_def enc32_def dec32_def)

section \<open>PDU types and sizes\<close>

datatype pdu_type = SERIAL_NOTIFY | SERIAL_QUERY | RESET_QUERY | CACHE_RESPONSE | IPV4_PREFIX | RESERVED
  | IPV6_PREFIX | EOD | CACHE_RESET | ROUTER_KEY | ERROR | ASPA | UNKNOWN_TYPE

definition pdu_type_of :: "u8 \<Rightarrow> pdu_type" where
  "pdu_type_of b =
     (if b = 0 then SERIAL_NOTIFY else if b = 1 then SERIAL_QUERY else if b = 2 then RESET_QUERY
      else if b = 3 then CACHE_RESPONSE else if b = 4 then IPV4_PREFIX else if b = 5 then RESERVED
      else if b = 6 then IPV6_PREFIX else if b = 7 then EOD else if b = 8 then CACHE_RESET
      else if b = 9 then ROUTER_KEY else if b = 10 then ERROR else if b = 11 then ASPA else UNKNOWN_TYPE)"

datatype pdu_error_type = CORRUPT_DATA | INTERNAL_ERROR | NO_DATA_AVAIL | INVALID_REQUEST
  | UNSUPPORTED_PROTOCOL_VER | UNSUPPORTED_PDU_TYPE | WITHDRAWAL_OF_UNKNOWN_RECORD
  | DUPLICATE_ANNOUNCEMENT | UNEXPECTED_PROTOCOL_VERSION | INCORRECT_ASPA_PROVIDER_LIST | PDU_TOO_BIG

fun pdu_error_code :: "pdu_error_type \<Rightarrow> u16" where
  "pdu_error_code CORRUPT_DATA = 0"
| "pdu_error_code INTERNAL_ERROR = 1"
| "pdu_error_code NO_DATA_AVAIL = 2"
| "pdu_error_code INVALID_REQUEST = 3"
| "pdu_error_code UNSUPPORTED_PROTOCOL_VER = 4"
| "pdu_error_code UNSUPPORTED_PDU_TYPE = 5"
| "pdu_error_code WITHDRAWAL_OF_UNKNOWN_RECORD = 6"
| "pdu_error_code DUPLICATE_ANNOUNCEMENT = 7"
| "pdu_error_code UNEXPECTED_PROTOCOL_VERSION = 8"
| "pdu_error_code INCORRECT_ASPA_PROVIDER_LIST = 9"
| "pdu_error_code PDU_TOO_BIG = 32"

abbreviation (input) SKI_SIZE :: nat where "SKI_SIZE \<equiv> 20"
abbreviation (input) SPKI_SIZE :: nat where "SPKI_SIZE \<equiv> 91"

abbreviation (input) sizeof_pdu_header :: nat where "sizeof_pdu_header \<equiv> 8"
abbreviation (input) sizeof_pdu_cache_response :: nat where "sizeof_pdu_cache_response \<equiv> 8"
abbreviation (input) sizeof_pdu_serial_notify :: nat where "sizeof_pdu_serial_notify \<equiv> 12"
abbreviation (input) sizeof_pdu_serial_query :: nat where "sizeof_pdu_serial_query \<equiv> 12"
abbreviation (input) sizeof_pdu_ipv4 :: nat where "sizeof_pdu_ipv4 \<equiv> 20"
abbreviation (input) sizeof_pdu_ipv6 :: nat where "sizeof_pdu_ipv6 \<equiv> 32"
abbreviation (input) sizeof_pdu_error :: nat where "sizeof_pdu_error \<equiv> 12"
abbreviation (input) sizeof_pdu_router_key :: nat where "sizeof_pdu_router_key \<equiv> 123"
abbreviation (input) sizeof_pdu_reset_query :: nat where "sizeof_pdu_reset_query \<equiv> 8"
abbreviation (input) sizeof_pdu_aspa :: nat where "sizeof_pdu_aspa \<equiv> 12"
abbreviation (input) sizeof_pdu_end_of_data_v0 :: nat where "sizeof_pdu_end_of_data_v0 \<equiv> 12"
abbreviation (input) sizeof_pdu_end_of_data_v1_v2 :: nat where "sizeof_pdu_end_of_data_v1_v2 \<equiv> 24"

abbreviation (input) RTR_PROTOCOL_VERSION_0 :: u8 where "RTR_PROTOCOL_VERSION_0 \<equiv> 0"
abbreviation (input) RTR_PROTOCOL_VERSION_1 :: u8 where "RTR_PROTOCOL_VERSION_1 \<equiv> 1"
abbreviation (input) RTR_PROTOCOL_VERSION_2 :: u8 where "RTR_PROTOCOL_VERSION_2 \<equiv> 2"

definition RTR_MAX_PDU_LEN :: nat where "RTR_MAX_PDU_LEN = 65535"

definition rtr_get_pdu_type :: "u8 list \<Rightarrow> pdu_type option" where
  "rtr_get_pdu_type pdu = map_option pdu_type_of (get8 1 pdu)"

section \<open>Conversion of the byte order\<close>

definition conv16 :: "host_order \<Rightarrow> target_byte_order \<Rightarrow> nat \<Rightarrow> u8 list \<Rightarrow> u8 list option" where
  "conv16 h tbo off pdu = do { v \<leftarrow> get16 h off pdu; set16 h off (rtr_convert_short h tbo v) pdu }"

definition conv32 :: "host_order \<Rightarrow> target_byte_order \<Rightarrow> nat \<Rightarrow> u8 list \<Rightarrow> u8 list option" where
  "conv32 h tbo off pdu = do { v \<leftarrow> get32 h off pdu; set32 h off (rtr_convert_long h tbo v) pdu }"

definition rtr_ipv4_addr_convert_byte_order :: "host_order \<Rightarrow> u32 \<Rightarrow> target_byte_order \<Rightarrow> u32" where
  "rtr_ipv4_addr_convert_byte_order h src tbo = rtr_convert_long h tbo src"

definition rtr_ipv6_addr_convert_byte_order :: "host_order \<Rightarrow> u32 list \<Rightarrow> target_byte_order \<Rightarrow> u32 list" where
  "rtr_ipv6_addr_convert_byte_order h src tbo = map (rtr_convert_long h tbo) src"

text \<open>The difference is taken in \<^verbatim>\<open>size_t\<close>, so it wraps for a length below 12.\<close>

definition rtr_aspa_provider_count :: "host_order \<Rightarrow> u8 list \<Rightarrow> nat option" where
  "rtr_aspa_provider_count h pdu =
     do { len \<leftarrow> get32 h 4 pdu; Some (unat ((ucast len :: u64) - of_nat sizeof_pdu_aspa) div 4) }"

definition rtr_pdu_convert_header_byte_order :: "host_order \<Rightarrow> u8 list \<Rightarrow> target_byte_order \<Rightarrow> u8 list option" where
  "rtr_pdu_convert_header_byte_order h pdu tbo =
     do { type \<leftarrow> rtr_get_pdu_type pdu;
          pdu \<leftarrow> (if type \<noteq> ROUTER_KEY \<and> type \<noteq> ASPA then conv16 h tbo 2 pdu else Some pdu);
          conv32 h tbo 4 pdu }"

fun conv_providers :: "host_order \<Rightarrow> target_byte_order \<Rightarrow> nat \<Rightarrow> nat \<Rightarrow> u8 list \<Rightarrow> u8 list option" where
  "conv_providers h tbo off 0 pdu = Some pdu"
| "conv_providers h tbo off (Suc n) pdu =
     do { pdu \<leftarrow> conv32 h tbo off pdu; conv_providers h tbo (off + 4) n pdu }"

definition conv_ipv6 :: "host_order \<Rightarrow> target_byte_order \<Rightarrow> nat \<Rightarrow> u8 list \<Rightarrow> u8 list option" where
  "conv_ipv6 h tbo off pdu =
     do { a0 \<leftarrow> get32 h off pdu; a1 \<leftarrow> get32 h (off + 4) pdu;
          a2 \<leftarrow> get32 h (off + 8) pdu; a3 \<leftarrow> get32 h (off + 12) pdu;
          let addr6 = rtr_ipv6_addr_convert_byte_order h [a0, a1, a2, a3] tbo;
          write_at off (concat (map (enc32 h) addr6)) pdu }"

definition rtr_pdu_convert_footer_byte_order :: "host_order \<Rightarrow> u8 list \<Rightarrow> target_byte_order \<Rightarrow> u8 list option" where
  "rtr_pdu_convert_footer_byte_order h pdu tbo =
     do { type \<leftarrow> rtr_get_pdu_type pdu;
          case type of
            SERIAL_QUERY \<Rightarrow> conv32 h tbo 8 pdu
          | ERROR \<Rightarrow>
              (if tbo = TO_NETWORK_BYTE_ORDER then
                 do { enc \<leftarrow> get32 h 8 pdu; pdu \<leftarrow> conv32 h tbo (12 + unat enc) pdu; conv32 h tbo 8 pdu }
               else
                 do { pdu \<leftarrow> conv32 h tbo 8 pdu; enc \<leftarrow> get32 h 8 pdu; conv32 h tbo (12 + unat enc) pdu })
          | SERIAL_NOTIFY \<Rightarrow> conv32 h tbo 8 pdu
          | EOD \<Rightarrow>
              do { ver \<leftarrow> get8 0 pdu;
                   if ver = RTR_PROTOCOL_VERSION_1 \<or> ver = RTR_PROTOCOL_VERSION_2 then
                     do { pdu \<leftarrow> conv32 h tbo 20 pdu; pdu \<leftarrow> conv32 h tbo 12 pdu;
                          pdu \<leftarrow> conv32 h tbo 16 pdu; conv32 h tbo 8 pdu }
                   else conv32 h tbo 8 pdu }
          | IPV4_PREFIX \<Rightarrow>
              do { prefix \<leftarrow> get32 h 12 pdu;
                   pdu \<leftarrow> set32 h 12 (rtr_ipv4_addr_convert_byte_order h prefix tbo) pdu;
                   conv32 h tbo 16 pdu }
          | IPV6_PREFIX \<Rightarrow> do { pdu \<leftarrow> conv_ipv6 h tbo 12 pdu; conv32 h tbo 28 pdu }
          | ROUTER_KEY \<Rightarrow> conv32 h tbo 28 pdu
          | ASPA \<Rightarrow>
              do { pdu \<leftarrow> conv32 h tbo 8 pdu;
                   n \<leftarrow> rtr_aspa_provider_count h pdu;
                   conv_providers h tbo 12 (unat (of_nat n :: u16)) pdu }
          | _ \<Rightarrow> Some pdu }"

definition rtr_pdu_header_to_network_byte_order :: "host_order \<Rightarrow> u8 list \<Rightarrow> u8 list option" where
  "rtr_pdu_header_to_network_byte_order h pdu = rtr_pdu_convert_header_byte_order h pdu TO_NETWORK_BYTE_ORDER"

definition rtr_pdu_footer_to_network_byte_order :: "host_order \<Rightarrow> u8 list \<Rightarrow> u8 list option" where
  "rtr_pdu_footer_to_network_byte_order h pdu = rtr_pdu_convert_footer_byte_order h pdu TO_NETWORK_BYTE_ORDER"

definition rtr_pdu_to_network_byte_order :: "host_order \<Rightarrow> u8 list \<Rightarrow> u8 list option" where
  "rtr_pdu_to_network_byte_order h pdu =
     do { pdu \<leftarrow> rtr_pdu_footer_to_network_byte_order h pdu; rtr_pdu_header_to_network_byte_order h pdu }"

definition rtr_pdu_footer_to_host_byte_order :: "host_order \<Rightarrow> u8 list \<Rightarrow> u8 list option" where
  "rtr_pdu_footer_to_host_byte_order h pdu = rtr_pdu_convert_footer_byte_order h pdu TO_HOST_HOST_BYTE_ORDER"

definition rtr_pdu_header_to_host_byte_order :: "host_order \<Rightarrow> u8 list \<Rightarrow> u8 list option" where
  "rtr_pdu_header_to_host_byte_order h pdu = rtr_pdu_convert_header_byte_order h pdu TO_HOST_HOST_BYTE_ORDER"

section \<open>The size check\<close>

text \<open>Run on a PDU whose header is in host byte order and whose other fields still are in network byte
  order. Sums are taken in \<^verbatim>\<open>size_t\<close>, where those of two 32-bit numbers and 16 do not wrap.\<close>

definition check_error_size :: "host_order \<Rightarrow> u8 list \<Rightarrow> nat \<Rightarrow> bool option" where
  "check_error_size h pdu len =
     (let expected_size = 4 + sizeof_pdu_error in
      if len < expected_size then Some False
      else do {
        e \<leftarrow> get32 h 8 pdu;
        let enc_pdu_len = unat (ntohl h e);
        let expected_size = expected_size + enc_pdu_len;
        if len < expected_size then Some False
        else do {
          m \<leftarrow> get32 h (12 + enc_pdu_len) pdu;
          let err_msg_len = unat (ntohl h m);
          Some (len = expected_size + err_msg_len) } })"

definition rtr_pdu_check_size :: "host_order \<Rightarrow> u8 list \<Rightarrow> bool option" where
  "rtr_pdu_check_size h pdu =
     do { type \<leftarrow> rtr_get_pdu_type pdu;
          l \<leftarrow> get32 h 4 pdu;
          let len = unat l;
          ver \<leftarrow> get8 0 pdu;
          case type of
            SERIAL_NOTIFY \<Rightarrow> Some (sizeof_pdu_serial_notify = len)
          | CACHE_RESPONSE \<Rightarrow> Some (sizeof_pdu_cache_response = len)
          | IPV4_PREFIX \<Rightarrow> Some (sizeof_pdu_ipv4 = len)
          | IPV6_PREFIX \<Rightarrow> Some (sizeof_pdu_ipv6 = len)
          | EOD \<Rightarrow>
              Some (ver = RTR_PROTOCOL_VERSION_0 \<and> sizeof_pdu_end_of_data_v0 = len \<or>
                    (ver = RTR_PROTOCOL_VERSION_1 \<or> ver = RTR_PROTOCOL_VERSION_2) \<and> sizeof_pdu_end_of_data_v1_v2 = len)
          | CACHE_RESET \<Rightarrow> Some (sizeof_pdu_header = len)
          | ROUTER_KEY \<Rightarrow> Some (sizeof_pdu_router_key = len)
          | ERROR \<Rightarrow> check_error_size h pdu len
          | SERIAL_QUERY \<Rightarrow> Some (sizeof_pdu_serial_query = len)
          | RESET_QUERY \<Rightarrow> Some (sizeof_pdu_reset_query = len)
          | ASPA \<Rightarrow>
              (if len < sizeof_pdu_aspa then Some False
               else do { flags \<leftarrow> get8 2 pdu;
                         let is_withdrawal = (flags AND 1 = 0);
                         Some (\<not> (is_withdrawal \<and> len \<noteq> sizeof_pdu_aspa)) })
          | RESERVED \<Rightarrow> Some False
          | UNKNOWN_TYPE \<Rightarrow> Some False }"

section \<open>Conversion as reversal of fields\<close>

text \<open>Every conversion of a field, in either direction, reverses its bytes on a little-endian machine
  and leaves them alone on a big-endian one.\<close>

definition swap_at :: "host_order \<Rightarrow> nat \<Rightarrow> nat \<Rightarrow> u8 list \<Rightarrow> u8 list" where
  "swap_at h n off pdu = take off pdu @ in_order h (take n (drop off pdu)) @ drop (off + n) pdu"

lemma take_slice_drop [simp]: "take i xs @ take n (drop i xs) @ drop (i + n) xs = xs"
  by (metis append_take_drop_id drop_drop add.commute)

lemma length_swap_at [simp]: "off + n \<le> length pdu \<Longrightarrow> length (swap_at h n off pdu) = length pdu"
  by (simp add: swap_at_def)

lemma nth_swap_at:
  assumes "off + n \<le> length pdu" "i < length pdu"
  shows "swap_at h n off pdu ! i =
    pdu ! (if h = Little_Endian \<and> off \<le> i \<and> i < off + n then 2 * off + n - 1 - i else i)"
proof (cases h)
  case Little_Endian
  have "off \<le> i \<Longrightarrow> i < off + n \<Longrightarrow> off + (n - Suc (i - off)) = 2 * off + n - Suc i" by arith
  moreover have "min (length pdu - off) n = n" using assms by simp
  ultimately show ?thesis using assms Little_Endian
    by (auto simp: swap_at_def nth_append rev_nth not_less)
qed (use assms in \<open>auto simp: swap_at_def\<close>)

lemma swap_at_twice [simp]: "off + n \<le> length pdu \<Longrightarrow> swap_at h n off (swap_at h n off pdu) = pdu"
  by (cases h) (simp_all add: swap_at_def)

lemma swap_at_commute:
  assumes "off + n \<le> length pdu" "off' + n' \<le> length pdu" "off + n \<le> off' \<or> off' + n' \<le> off"
  shows "swap_at h n off (swap_at h n' off' pdu) = swap_at h n' off' (swap_at h n off pdu)"
  using assms by (intro nth_equalityI) (auto simp: nth_swap_at)

lemma conv16_swap: "conv16 h tbo off pdu = (if off + 2 \<le> length pdu then Some (swap_at h 2 off pdu) else None)"
  by (simp add: conv16_def get16_def set16_def write_at_def swap_at_def convert_swaps)

lemma conv32_swap: "conv32 h tbo off pdu = (if off + 4 \<le> length pdu then Some (swap_at h 4 off pdu) else None)"
  by (simp add: conv32_def get32_def set32_def write_at_def swap_at_def convert_swaps32)

definition swap_all :: "host_order \<Rightarrow> nat list \<Rightarrow> u8 list \<Rightarrow> u8 list" where
  "swap_all h offs pdu = fold (swap_at h 4) offs pdu"

lemma swap_all_simps [simp]:
  "swap_all h [] pdu = pdu" "swap_all h (off # offs) pdu = swap_all h offs (swap_at h 4 off pdu)"
  by (simp_all add: swap_all_def)

lemma length_swap_all [simp]: "\<forall>off\<in>set offs. off + 4 \<le> length pdu \<Longrightarrow> length (swap_all h offs pdu) = length pdu"
  by (induction offs arbitrary: pdu) simp_all

definition apart :: "nat list \<Rightarrow> bool" where
  "apart offs = sorted_wrt (\<lambda>a b. a + 4 \<le> b \<or> b + 4 \<le> a) offs"

lemma apart_simps [simp]:
  "apart []" "apart (off # offs) \<longleftrightarrow> (\<forall>o'\<in>set offs. off + 4 \<le> o' \<or> o' + 4 \<le> off) \<and> apart offs"
  by (simp_all add: apart_def)

lemma swap_all_swap_at:
  assumes "off + n \<le> length pdu" "\<forall>o'\<in>set offs. o' + 4 \<le> length pdu" "\<forall>o'\<in>set offs. off + n \<le> o' \<or> o' + 4 \<le> off"
  shows "swap_all h offs (swap_at h n off pdu) = swap_at h n off (swap_all h offs pdu)"
  using assms
proof (induction offs arbitrary: pdu)
  case (Cons a offs)
  then have "swap_at h 4 a (swap_at h n off pdu) = swap_at h n off (swap_at h 4 a pdu)"
    by (intro swap_at_commute) auto
  with Cons show ?case by simp
qed simp

lemma swap_all_twice:
  assumes "apart offs" "\<forall>off\<in>set offs. off + 4 \<le> length pdu"
  shows "swap_all h offs (swap_all h offs pdu) = pdu"
  using assms by (induction offs arbitrary: pdu) (auto simp: swap_all_swap_at)

lemma nth_swap_all:
  assumes "\<forall>off\<in>set offs. off + 4 \<le> length pdu" "\<forall>off\<in>set offs. i < off" "i < length pdu"
  shows "swap_all h offs pdu ! i = pdu ! i"
  using assms by (induction offs arbitrary: pdu) (simp_all add: nth_swap_at)

lemma take_swap_all:
  assumes "\<forall>off\<in>set offs. k \<le> off \<and> off + 4 \<le> length pdu"
  shows "take k (swap_all h offs pdu) = take k pdu"
  using assms by (intro nth_equalityI) (auto intro!: nth_swap_all)

section \<open>Well-formed PDUs\<close>

definition field32 :: "host_order \<Rightarrow> nat \<Rightarrow> u8 list \<Rightarrow> nat" where
  "field32 h off pdu = unat (dec32 h (take 4 (drop off pdu)))"

text \<open>A PDU in host byte order whose length field is its length and whose length is right for its type.\<close>

definition pdu_wf :: "host_order \<Rightarrow> u8 list \<Rightarrow> bool" where
  "pdu_wf h p =
     (8 \<le> length p \<and> length p \<le> RTR_MAX_PDU_LEN \<and> field32 h 4 p = length p \<and>
      (case pdu_type_of (p ! 1) of
         SERIAL_NOTIFY \<Rightarrow> length p = 12
       | SERIAL_QUERY \<Rightarrow> length p = 12
       | RESET_QUERY \<Rightarrow> length p = 8
       | CACHE_RESPONSE \<Rightarrow> length p = 8
       | CACHE_RESET \<Rightarrow> length p = 8
       | IPV4_PREFIX \<Rightarrow> length p = 20
       | IPV6_PREFIX \<Rightarrow> length p = 32
       | EOD \<Rightarrow> p ! 0 = 0 \<and> length p = 12 \<or> (p ! 0 = 1 \<or> p ! 0 = 2) \<and> length p = 24
       | ROUTER_KEY \<Rightarrow> length p = 123
       | ERROR \<Rightarrow> 16 + field32 h 8 p \<le> length p \<and>
           length p = 16 + field32 h 8 p + field32 h (12 + field32 h 8 p) p
       | ASPA \<Rightarrow> 12 \<le> length p \<and> (p ! 2 AND 1 = 0 \<longrightarrow> length p = 12)
       | RESERVED \<Rightarrow> False
       | UNKNOWN_TYPE \<Rightarrow> False))"

text \<open>The offsets of the fields after the header that a conversion reverses.\<close>

definition footer_fields :: "host_order \<Rightarrow> u8 list \<Rightarrow> nat list" where
  "footer_fields h p =
     (case pdu_type_of (p ! 1) of
        SERIAL_NOTIFY \<Rightarrow> [8]
      | SERIAL_QUERY \<Rightarrow> [8]
      | ERROR \<Rightarrow> [12 + field32 h 8 p, 8]
      | EOD \<Rightarrow> (if p ! 0 = 1 \<or> p ! 0 = 2 then [20, 12, 16, 8] else [8])
      | IPV4_PREFIX \<Rightarrow> [12, 16]
      | IPV6_PREFIX \<Rightarrow> [12, 16, 20, 24, 28]
      | ROUTER_KEY \<Rightarrow> [28]
      | ASPA \<Rightarrow> 8 # map (\<lambda>i. 12 + 4 * i) [0..<(length p - 12) div 4]
      | _ \<Rightarrow> [])"

lemma get8_Some [simp]: "off < length p \<Longrightarrow> get8 off p = Some (p ! off)"
  by (simp add: get8_def)

lemma get32_Some: "off + 4 \<le> length p \<Longrightarrow> get32 h off p = Some (of_nat (field32 h off p))"
  by (simp add: get32_def field32_def)

lemma field32_lt: "field32 h off p < 2 ^ 32"
  using unsigned_less [of "dec32 h (take 4 (drop off p))"] by (simp add: field32_def)

lemma unat_field32 [simp]: "unat (of_nat (field32 h off p) :: u32) = field32 h off p"
  by (simp add: field32_def)

lemma ntohl_dec32: "length bs = 4 \<Longrightarrow> ntohl h (dec32 h bs) = dec32 h (in_order h bs)"
  by (cases h) (simp_all add: ntohl_def enc32_def dec32_def)

lemma slice_swap_same: "off + 4 \<le> length p \<Longrightarrow> take 4 (drop off (swap_at h 4 off p)) = in_order h (take 4 (drop off p))"
  by (simp add: swap_at_def)

lemma slice_swap_other:
  assumes "off + 4 \<le> length p" "off' + 4 \<le> length p" "off + 4 \<le> off' \<or> off' + 4 \<le> off"
  shows "take 4 (drop off' (swap_at h 4 off p)) = take 4 (drop off' p)"
  using assms by (intro nth_equalityI) (auto simp: nth_swap_at)

lemma field32_swap_other:
  assumes "off + 4 \<le> length p" "off' + 4 \<le> length p" "off + 4 \<le> off' \<or> off' + 4 \<le> off"
  shows "field32 h off' (swap_at h 4 off p) = field32 h off' p"
  using assms by (simp add: field32_def slice_swap_other)

lemma ntohl_field32:
  assumes "off + 4 \<le> length p"
  shows "unat (ntohl h (of_nat (field32 h off p))) = field32 h off (swap_at h 4 off p)"
  using assms by (simp add: field32_def slice_swap_same ntohl_dec32)

lemma conv_providers_swap:
  "off + 4 * n \<le> length pdu \<Longrightarrow>
   conv_providers h tbo off n pdu = Some (swap_all h (map (\<lambda>i. off + 4 * i) [0..<n]) pdu)"
proof (induction n arbitrary: off pdu)
  case (Suc n)
  have "map (\<lambda>i. off + 4 * i) [0..<Suc n] = off # map (\<lambda>i. off + 4 + 4 * i) [0..<n]"
    unfolding upt_conv_Cons [OF zero_less_Suc] list.map map_Suc_upt [symmetric] by simp
  with Suc show ?case by (simp add: conv32_swap del: upt_Suc)
qed simp

lemma conv_ipv6_swap:
  assumes "off + 16 \<le> length pdu"
  shows "conv_ipv6 h tbo off pdu = Some (swap_all h [off, off + 4, off + 8, off + 12] pdu)"
proof -
  let ?s = "\<lambda>i. take 4 (drop (off + i) pdu)"
  define pre post where "pre = take off pdu" "post = drop (off + 16) pdu"
  define a b c d where "a = ?s 0" "b = ?s 4" "c = ?s 8" "d = ?s 12"
  have slice: "m = k + 4 \<Longrightarrow> drop k xs = take 4 (drop k xs) @ drop m xs" for k m and xs :: "u8 list"
    by (metis append_take_drop_id drop_drop add.commute)
  have "drop (off + 12) pdu = d @ post" unfolding pre_post_def a_b_c_d_def by (rule slice) simp
  moreover have "drop (off + 8) pdu = c @ drop (off + 12) pdu" unfolding a_b_c_d_def by (rule slice) simp
  moreover have "drop (off + 4) pdu = b @ drop (off + 8) pdu" unfolding a_b_c_d_def by (rule slice) simp
  moreover have "drop off pdu = a @ drop (off + 4) pdu" unfolding a_b_c_d_def add_0_right by (rule slice) simp
  ultimately have "drop off pdu = a @ b @ c @ d @ post" by (simp only:)
  then have "pdu = pre @ a @ b @ c @ d @ post" unfolding pre_post_def by (metis append_take_drop_id)
  moreover have "length pre = off" "length a = 4" "length b = 4" "length c = 4" "length d = 4"
    unfolding pre_post_def a_b_c_d_def using assms by simp_all
  ultimately show ?thesis
    by (simp add: conv_ipv6_def get32_def write_at_def rtr_ipv6_addr_convert_byte_order_def
        convert_swaps32 swap_at_def)
qed

lemma provider_count:
  assumes "pdu_wf h p" "pdu_type_of (p ! 1) = ASPA"
  shows "rtr_aspa_provider_count h p = Some ((length p - 12) div 4)"
proof -
  have "12 \<le> length p" "length p \<le> 65535" "8 \<le> length p" "field32 h 4 p = length p"
    using assms by (auto simp: pdu_wf_def RTR_MAX_PDU_LEN_def)
  then have "get32 h 4 p = Some (of_nat (length p))" using get32_Some [of 4 p h] by simp
  moreover have "unat ((ucast (of_nat (length p) :: u32) :: u64) - 12) = length p - 12"
    using \<open>12 \<le> length p\<close> \<open>length p \<le> 65535\<close>
    by (simp add: unsigned_of_nat unat_sub_if' take_bit_nat_eq_self)
  ultimately show ?thesis by (simp add: rtr_aspa_provider_count_def)
qed

lemma providers_apart: "apart (8 # map (\<lambda>i. 12 + 4 * i) [0..<n])"
proof -
  have "sorted_wrt (\<lambda>a b. a + 4 \<le> b \<or> b + 4 \<le> a) (map (\<lambda>i. 12 + 4 * i) [0..<n])"
    unfolding sorted_wrt_map by (rule sorted_wrt_mono_rel [OF _ sorted_wrt_upt]) auto
  then show ?thesis by (auto simp: apart_def)
qed

lemma footer_fields_ok:
  assumes "pdu_wf h p"
  shows "apart (footer_fields h p)" "off \<in> set (footer_fields h p) \<Longrightarrow> 8 \<le> off \<and> off + 4 \<le> length p"
proof -
  show "apart (footer_fields h p)"
    using providers_apart by (auto simp: footer_fields_def split: pdu_type.split)
  show "8 \<le> off \<and> off + 4 \<le> length p" if "off \<in> set (footer_fields h p)"
    using assms that by (auto simp: footer_fields_def pdu_wf_def split: pdu_type.splits if_splits)
qed

lemma half_header:
  assumes "pdu_wf h p"
  shows "take 8 (swap_all h (footer_fields h p) p) = take 8 p"
    "length (swap_all h (footer_fields h p) p) = length p"
    "i < 8 \<Longrightarrow> swap_all h (footer_fields h p) p ! i = p ! i"
    "field32 h 4 (swap_all h (footer_fields h p) p) = length p"
proof -
  note ok = footer_fields_ok [OF assms]
  show t: "take 8 (swap_all h (footer_fields h p) p) = take 8 p" by (rule take_swap_all) (use ok in blast)
  show l: "length (swap_all h (footer_fields h p) p) = length p" by (rule length_swap_all) (use ok in blast)
  show "i < 8 \<Longrightarrow> swap_all h (footer_fields h p) p ! i = p ! i" by (metis t nth_take)
  have slice: "take 4 (drop 4 xs) = drop 4 (take 8 xs)" for xs :: "u8 list" by (simp add: drop_take)
  have "field32 h 4 p = length p" using assms by (simp add: pdu_wf_def)
  then show "field32 h 4 (swap_all h (footer_fields h p) p) = length p" by (simp add: field32_def slice t)
qed

lemma wf_type: "pdu_wf h p \<Longrightarrow> rtr_get_pdu_type p = Some (pdu_type_of (p ! 1))"
  by (simp add: rtr_get_pdu_type_def pdu_wf_def)

lemma conv_ipv4_conv32:
  "do { a \<leftarrow> get32 h off p; q \<leftarrow> set32 h off (rtr_ipv4_addr_convert_byte_order h a tbo) p; f q } =
   conv32 h tbo off p \<bind> f"
  by (cases "get32 h off p") (simp_all add: conv32_def rtr_ipv4_addr_convert_byte_order_def)

lemma footer_to_network_swap:
  assumes wf: "pdu_wf h p"
  shows "rtr_pdu_footer_to_network_byte_order h p = Some (swap_all h (footer_fields h p) p)"
proof (cases "pdu_type_of (p ! 1)")
  case ASPA
  have len: "12 \<le> length p" "length p \<le> 65535" using wf ASPA by (auto simp: pdu_wf_def RTR_MAX_PDU_LEN_def)
  let ?q = "swap_at h 4 8 p" and ?n = "(length p - 12) div 4"
  have "get32 h 4 ?q = get32 h 4 p" using len by (simp add: get32_def slice_swap_other)
  then have "rtr_aspa_provider_count h ?q = Some ?n"
    using provider_count [OF wf ASPA] by (simp add: rtr_aspa_provider_count_def)
  moreover have "unat (of_nat ?n :: u16) = ?n" using len by (simp add: unsigned_of_nat take_bit_nat_eq_self)
  moreover have "conv_providers h tbo 12 ?n ?q = Some (swap_all h (map (\<lambda>i. 12 + 4 * i) [0..<?n]) ?q)" for tbo
    using len by (intro conv_providers_swap) auto
  ultimately show ?thesis using len ASPA
    by (simp add: rtr_pdu_footer_to_network_byte_order_def rtr_pdu_convert_footer_byte_order_def wf_type [OF wf]
        footer_fields_def conv32_swap)
next
  case ERROR
  then have "16 + field32 h 8 p \<le> length p" using wf by (simp add: pdu_wf_def)
  with ERROR show ?thesis
    by (simp add: rtr_pdu_footer_to_network_byte_order_def rtr_pdu_convert_footer_byte_order_def wf_type [OF wf]
        footer_fields_def conv32_swap get32_Some)
qed (use wf in \<open>auto simp: rtr_pdu_footer_to_network_byte_order_def rtr_pdu_convert_footer_byte_order_def wf_type
    footer_fields_def conv32_swap conv_ipv6_swap conv_ipv4_conv32 pdu_wf_def\<close>)

lemma convert_long_direction: "rtr_convert_long h tbo = rtr_convert_long h TO_NETWORK_BYTE_ORDER"
  by (rule ext, cases tbo; cases h) (simp_all add: htonl_def ntohl_def enc32_def dec32_def)

lemma conv_direction:
  "conv32 h tbo = conv32 h TO_NETWORK_BYTE_ORDER"
  "conv_ipv6 h tbo = conv_ipv6 h TO_NETWORK_BYTE_ORDER"
  "rtr_ipv4_addr_convert_byte_order h w tbo = rtr_ipv4_addr_convert_byte_order h w TO_NETWORK_BYTE_ORDER"
  by (rule ext | simp add: conv32_def conv_ipv6_def rtr_ipv6_addr_convert_byte_order_def
      rtr_ipv4_addr_convert_byte_order_def convert_long_direction [of h tbo])+

lemma conv_providers_direction: "conv_providers h tbo off n = conv_providers h TO_NETWORK_BYTE_ORDER off n"
  by (induction n arbitrary: off) (rule ext, simp add: conv_direction(1) [of h tbo])+

lemma footer_direction:
  assumes "rtr_get_pdu_type q \<noteq> Some ERROR"
  shows "rtr_pdu_footer_to_host_byte_order h q = rtr_pdu_footer_to_network_byte_order h q"
  unfolding rtr_pdu_footer_to_host_byte_order_def rtr_pdu_footer_to_network_byte_order_def
    rtr_pdu_convert_footer_byte_order_def
    conv_direction [where tbo = TO_HOST_HOST_BYTE_ORDER] conv_providers_direction [of h TO_HOST_HOST_BYTE_ORDER]
  using assms by (cases "rtr_get_pdu_type q") (auto split: pdu_type.splits)

text \<open>Except for Error Reports, whether a PDU is well-formed and which fields are converted only depends on
  its header and length.\<close>

lemma wf_same_header:
  assumes wf: "pdu_wf h q" and ty: "pdu_type_of (q ! 1) \<noteq> ERROR" and eq: "take 8 p = take 8 q" "length p = length q"
  shows "pdu_wf h p" "footer_fields h p = footer_fields h q"
proof -
  have nth: "i < 8 \<Longrightarrow> p ! i = q ! i" for i by (metis eq(1) nth_take)
  have "field32 h 4 p = field32 h 4 q"
    using arg_cong [OF eq(1), of "drop 4"] by (simp add: field32_def drop_take)
  with wf ty eq(2) nth [of 0] nth [of 1] nth [of 2] show "pdu_wf h p" "footer_fields h p = footer_fields h q"
    by (auto simp: pdu_wf_def footer_fields_def split: pdu_type.splits)
qed

lemma half_to_host:
  assumes wf: "pdu_wf h q" and ty: "pdu_type_of (q ! 1) \<noteq> ERROR"
  shows "\<exists>p. rtr_pdu_footer_to_host_byte_order h q = Some p \<and> pdu_wf h p \<and> q = swap_all h (footer_fields h p) p"
proof -
  let ?p = "swap_all h (footer_fields h q) q"
  note half = half_header [OF wf]
  have "rtr_pdu_footer_to_host_byte_order h q = Some ?p"
    using footer_direction [of q h] footer_to_network_swap [OF wf] ty wf_type [OF wf] by simp
  moreover have "pdu_wf h ?p" "footer_fields h ?p = footer_fields h q"
    using wf_same_header [OF wf ty half(1,2)] by blast+
  moreover have "swap_all h (footer_fields h q) ?p = q"
    by (rule swap_all_twice) (use footer_fields_ok [OF wf] in blast)+
  ultimately show ?thesis by auto
qed

lemma check_error_size_sound:
  assumes len: "8 \<le> length q" "length q \<le> RTR_MAX_PDU_LEN" "field32 h 4 q = length q" and ty: "pdu_type_of (q ! 1) = ERROR"
  shows "\<exists>b. check_error_size h q (length q) = Some b \<and>
    (b \<longrightarrow> (\<exists>p. rtr_pdu_footer_to_host_byte_order h q = Some p \<and> pdu_wf h p \<and> q = swap_all h (footer_fields h p) p))"
proof (cases "length q < 16")
  case True
  then show ?thesis by (intro exI [of _ False]) (simp add: check_error_size_def)
next
  case long: False
  let ?q1 = "swap_at h 4 8 q"
  define e where "e = field32 h 8 ?q1"
  have enc: "get32 h 8 q = Some (of_nat (field32 h 8 q))" "unat (ntohl h (of_nat (field32 h 8 q))) = e"
    using long by (simp_all add: get32_Some ntohl_field32 e_def)
  show ?thesis
  proof (cases "length q < 16 + e")
    case True
    with long enc show ?thesis by (intro exI [of _ False]) (simp add: check_error_size_def Let_def)
  next
    case False
    let ?p = "swap_at h 4 (12 + e) ?q1"
    define m where "m = field32 h (12 + e) (swap_at h 4 (12 + e) q)"
    have m: "get32 h (12 + e) q = Some (of_nat (field32 h (12 + e) q))"
      "unat (ntohl h (of_nat (field32 h (12 + e) q))) = m"
      using False by (simp_all add: get32_Some ntohl_field32 m_def)
    have check: "check_error_size h q (length q) = Some (length q = 16 + e + m)"
      using long False enc m by (simp add: check_error_size_def Let_def add.commute add.left_commute)
    have head: "take 8 ?p = take 8 q" "length ?p = length q"
      using False by (auto intro!: nth_equalityI simp: nth_swap_at)
    have "field32 h 8 ?p = e" using False by (simp add: field32_swap_other e_def)
    moreover have "field32 h (12 + e) ?p = m"
      using False by (simp add: m_def field32_def slice_swap_same slice_swap_other)
    moreover have "field32 h 4 ?p = length q" "?p ! 1 = q ! 1" using False len by (simp_all add: field32_swap_other nth_swap_at)
    ultimately have "length q = 16 + e + m \<Longrightarrow> pdu_wf h ?p" "footer_fields h ?p = [12 + e, 8]"
      using False len ty head(2) by (simp_all add: pdu_wf_def footer_fields_def)
    moreover have "rtr_pdu_footer_to_host_byte_order h q = Some ?p"
      using False len ty enc
      by (simp add: rtr_pdu_footer_to_host_byte_order_def rtr_pdu_convert_footer_byte_order_def
          rtr_get_pdu_type_def conv32_swap get32_Some e_def)
    moreover have "swap_all h [12 + e, 8] ?p = q" using False by simp
    ultimately show ?thesis using check by auto
  qed
qed

lemma wf_passes_check:
  assumes "pdu_wf h q" "pdu_type_of (q ! 1) \<noteq> ERROR"
  shows "rtr_pdu_check_size h q = Some True"
proof -
  have "get32 h 4 q = Some (of_nat (length q))" "unat (of_nat (length q) :: u32) = length q"
    using assms get32_Some [of 4 q h] unat_field32 [of h 4 q] by (simp_all add: pdu_wf_def)
  moreover have "get8 0 q = Some (q ! 0)" using assms by (auto simp: get8_def pdu_wf_def)
  ultimately show ?thesis using assms
    by (auto simp: rtr_pdu_check_size_def pdu_wf_def rtr_get_pdu_type_def Let_def split: pdu_type.splits)
qed

lemma check_size_wf:
  assumes len: "8 \<le> length q" "length q \<le> RTR_MAX_PDU_LEN" "field32 h 4 q = length q" and ty: "pdu_type_of (q ! 1) \<noteq> ERROR"
  shows "\<exists>b. rtr_pdu_check_size h q = Some b \<and> (b \<longrightarrow> pdu_wf h q)"
proof -
  have "get32 h 4 q = Some (of_nat (length q))" "unat (of_nat (length q) :: u32) = length q"
    using len get32_Some [of 4 q h] unat_field32 [of h 4 q] by simp_all
  moreover have "get8 0 q = Some (q ! 0)" using len by (auto simp: get8_def)
  ultimately show ?thesis using assms
    by (cases "pdu_type_of (q ! 1)") (auto simp: rtr_pdu_check_size_def pdu_wf_def rtr_get_pdu_type_def Let_def)
qed

lemma check_size_error:
  assumes "8 \<le> length q" "field32 h 4 q = length q" "pdu_type_of (q ! 1) = ERROR"
  shows "rtr_pdu_check_size h q = check_error_size h q (length q)"
proof -
  have "get8 0 q = Some (q ! 0)" using assms(1) by (auto simp: get8_def)
  then show ?thesis using assms get32_Some [of 4 q h] unat_field32 [of h 4 q]
    by (simp add: rtr_pdu_check_size_def rtr_get_pdu_type_def)
qed

text \<open>The check only reads inside the PDU, and a PDU that passes it can be converted and is well-formed then.\<close>

lemma check_size_sound:
  assumes "8 \<le> length q" "length q \<le> RTR_MAX_PDU_LEN" "field32 h 4 q = length q"
  shows "\<exists>b. rtr_pdu_check_size h q = Some b \<and>
    (b \<longrightarrow> (\<exists>p. rtr_pdu_footer_to_host_byte_order h q = Some p \<and> pdu_wf h p \<and> q = swap_all h (footer_fields h p) p))"
proof (cases "pdu_type_of (q ! 1) = ERROR")
  case True
  then show ?thesis using check_error_size_sound [OF assms] check_size_error [OF assms(1,3)] by simp
next
  case False
  then show ?thesis using check_size_wf [OF assms] half_to_host by blast
qed

lemma half_of_error:
  assumes wf: "pdu_wf h p" and ty: "pdu_type_of (p ! 1) = ERROR" and q: "q = swap_all h (footer_fields h p) p"
  shows "rtr_pdu_check_size h q = Some True" "rtr_pdu_footer_to_host_byte_order h q = Some p"
proof -
  define e where "e = field32 h 8 p"
  have len: "16 + e \<le> length p" "length p = 16 + e + field32 h (12 + e) p"
    using wf ty by (simp_all add: pdu_wf_def e_def)
  have q': "q = swap_at h 4 8 (swap_at h 4 (12 + e) p)" using q ty by (simp add: footer_fields_def e_def)
  have one: "swap_at h 4 8 q = swap_at h 4 (12 + e) p" using len q' by simp
  have swapped: "swap_at h 4 (12 + e) q = swap_at h 4 8 p"
    unfolding q' using len by (subst swap_at_commute) simp_all
  have e: "field32 h 8 (swap_at h 4 8 q) = e" using len by (simp add: one field32_swap_other e_def)
  have m: "field32 h (12 + e) (swap_at h 4 (12 + e) q) = field32 h (12 + e) p"
    unfolding swapped using len by (simp add: field32_swap_other)
  have lenq: "length q = length p" using len q' by simp
  then have enc: "get32 h 8 q = Some (of_nat (field32 h 8 q))" "unat (ntohl h (of_nat (field32 h 8 q))) = e"
    "get32 h (12 + e) q = Some (of_nat (field32 h (12 + e) q))"
    "unat (ntohl h (of_nat (field32 h (12 + e) q))) = field32 h (12 + e) p"
    using len e m by (simp_all add: get32_Some ntohl_field32)
  have "check_error_size h q (length q) = Some (length p = 16 + e + field32 h (12 + e) p)"
    using len enc lenq by (simp add: check_error_size_def Let_def add.commute add.left_commute)
  moreover have half: "8 \<le> length q" "field32 h 4 q = length q" "q ! 1 = p ! 1"
    using half_header [OF wf] len lenq q by simp_all
  ultimately show "rtr_pdu_check_size h q = Some True" using check_size_error [of q h] len ty by simp
  have "get32 h 8 (swap_at h 4 8 q) = Some (of_nat e)" using len lenq get32_Some [of 8 "swap_at h 4 8 q" h] e by simp
  moreover have "unat (of_nat e :: u32) = e" using unat_field32 [of h 8 p] by (simp add: e_def)
  moreover have "swap_at h 4 (12 + e) (swap_at h 4 8 q) = p" using one len by simp
  ultimately show "rtr_pdu_footer_to_host_byte_order h q = Some p"
    using len lenq half ty
    by (simp add: rtr_pdu_footer_to_host_byte_order_def rtr_pdu_convert_footer_byte_order_def
        rtr_get_pdu_type_def conv32_swap)
qed

lemma half_of_wf:
  assumes wf: "pdu_wf h p" and q: "q = swap_all h (footer_fields h p) p"
  shows "rtr_pdu_check_size h q = Some True" "rtr_pdu_footer_to_host_byte_order h q = Some p"
proof -
  note half = half_header [OF wf, folded q]
  have ok: "apart (footer_fields h p)" "\<forall>off\<in>set (footer_fields h p). off + 4 \<le> length p"
    using footer_fields_ok [OF wf] by blast+
  have "rtr_pdu_check_size h q = Some True \<and> rtr_pdu_footer_to_host_byte_order h q = Some p"
    if ty: "pdu_type_of (p ! 1) \<noteq> ERROR"
  proof -
    have wfq: "pdu_wf h q" "footer_fields h q = footer_fields h p"
      using wf_same_header [OF wf ty half(1,2)] by blast+
    have "q ! 1 = p ! 1" using half(3) [of 1] by simp
    then have "rtr_pdu_footer_to_host_byte_order h q = Some (swap_all h (footer_fields h p) q)"
      using footer_to_network_swap [OF wfq(1)] footer_direction [of q h] wfq(2) wf_type [OF wfq(1)] ty by simp
    moreover have "rtr_pdu_check_size h q = Some True"
      using wf_passes_check [OF wfq(1)] ty \<open>q ! 1 = p ! 1\<close> by simp
    ultimately show ?thesis using swap_all_twice [OF ok] q by simp
  qed
  then show "rtr_pdu_check_size h q = Some True" "rtr_pdu_footer_to_host_byte_order h q = Some p"
    using half_of_error [OF wf _ q] by blast+
qed

section \<open>The header\<close>

definition swap_header :: "host_order \<Rightarrow> u8 list \<Rightarrow> u8 list" where
  "swap_header h p =
     swap_at h 4 4 (if pdu_type_of (p ! 1) \<noteq> ROUTER_KEY \<and> pdu_type_of (p ! 1) \<noteq> ASPA then swap_at h 2 2 p else p)"

lemma convert_header_swap:
  "8 \<le> length p \<Longrightarrow> rtr_pdu_convert_header_byte_order h p tbo = Some (swap_header h p)"
  by (simp add: rtr_pdu_convert_header_byte_order_def rtr_get_pdu_type_def conv16_swap conv32_swap swap_header_def)

lemma nth_swap_before: "off + n \<le> length p \<Longrightarrow> i < off \<Longrightarrow> swap_at h n off p ! i = p ! i"
  by (simp add: swap_at_def nth_append)

lemma swap_at_prefix:
  assumes "off + n \<le> k" "k \<le> length p"
  shows "swap_at h n off p = swap_at h n off (take k p) @ drop k p"
proof -
  have "take n (drop off (take k p)) = take n (drop off p)" using assms by (simp add: drop_take)
  moreover have "drop (off + n) (take k p) @ drop k p = drop (off + n) p"
    using assms by (metis append_take_drop_id drop_append le_trans length_take min.absorb2 drop_0 diff_is_0_eq)
  ultimately show ?thesis using assms by (simp add: swap_at_def)
qed

lemma swap_header_simps:
  assumes "8 \<le> length p"
  shows "length (swap_header h p) = length p" "swap_header h p ! 0 = p ! 0" "swap_header h p ! 1 = p ! 1"
    "drop 8 (swap_header h p) = drop 8 p" "swap_header h p = swap_header h (take 8 p) @ drop 8 p"
    "swap_header h (swap_header h p) = p"
proof -
  show "length (swap_header h p) = length p" "swap_header h p ! 0 = p ! 0" and 1: "swap_header h p ! 1 = p ! 1"
    using assms by (simp_all add: swap_header_def nth_swap_before del: length_greater_0_conv)
  have "swap_at h 2 2 p = swap_at h 2 2 (take 8 p) @ drop 8 p" "swap_at h 4 4 p = swap_at h 4 4 (take 8 p) @ drop 8 p"
    using assms by (auto intro!: swap_at_prefix)
  moreover have "swap_at h 4 4 (swap_at h 2 2 p) = swap_at h 4 4 (take 8 (swap_at h 2 2 p)) @ drop 8 (swap_at h 2 2 p)"
    using assms by (intro swap_at_prefix) simp_all
  ultimately show eq: "swap_header h p = swap_header h (take 8 p) @ drop 8 p"
    using assms by (simp add: swap_header_def)
  have "length (swap_header h (take 8 p)) = 8" using assms by (auto simp: swap_header_def)
  then show "drop 8 (swap_header h p) = drop 8 p" by (simp add: eq)
  have "swap_at h 2 2 (swap_at h 4 4 (swap_at h 2 2 p)) = swap_at h 4 4 p"
    using assms by (subst swap_at_commute) simp_all
  then show "swap_header h (swap_header h p) = p"
    using 1 assms by (simp add: swap_header_def)
qed

lemma to_network_swap:
  assumes "pdu_wf h p"
  shows "rtr_pdu_to_network_byte_order h p = Some (swap_header h (swap_all h (footer_fields h p) p))"
proof -
  have "8 \<le> length (swap_all h (footer_fields h p) p)" using assms half_header(2) [OF assms] by (simp add: pdu_wf_def)
  then show ?thesis
    by (simp add: rtr_pdu_to_network_byte_order_def footer_to_network_swap [OF assms]
        rtr_pdu_header_to_network_byte_order_def convert_header_swap)
qed

section \<open>Properties\<close>

text \<open>C22: converting a well-formed PDU to network byte order and, as a receiver does, first its header and
  then the rest back to host byte order gives the PDU again, for every type of PDU and on little- and
  big-endian machines; in between it passes the receiver's size check.\<close>

theorem pdu_byte_order_roundtrip:
  assumes "pdu_wf h p"
  shows "\<exists>q r. rtr_pdu_to_network_byte_order h p = Some q \<and> length q = length p \<and>
    rtr_pdu_header_to_host_byte_order h (take 8 q) = Some r \<and>
    rtr_pdu_check_size h (r @ drop 8 q) = Some True \<and>
    rtr_pdu_footer_to_host_byte_order h (r @ drop 8 q) = Some p"
proof -
  let ?half = "swap_all h (footer_fields h p) p"
  have len: "8 \<le> length ?half" "length ?half = length p" using assms half_header(2) [OF assms] by (simp_all add: pdu_wf_def)
  note hd = swap_header_simps [OF len(1), of h]
  have "8 \<le> length (swap_header h ?half)" using len hd(1) by simp
  note hd2 = swap_header_simps [OF this, of h]
  have "swap_header h (take 8 (swap_header h ?half)) @ drop 8 (swap_header h ?half) = ?half"
    using hd2(5) hd(6) by simp
  moreover have "rtr_pdu_header_to_host_byte_order h (take 8 (swap_header h ?half)) =
      Some (swap_header h (take 8 (swap_header h ?half)))"
    using len hd(1) by (simp add: rtr_pdu_header_to_host_byte_order_def convert_header_swap)
  ultimately show ?thesis
    using to_network_swap [OF assms] half_of_wf [OF assms refl] hd(1) len by auto
qed

theorem pdu_byte_order_roundtrip_witness:
  "\<exists>q r. rtr_pdu_to_network_byte_order Little_Endian
      [1, 4, 0, 0, 20, 0, 0, 0, 1, 24, 24, 0, 0, 2, 0, 192, 44, 1, 0, 0] = Some q \<and>
    length q = length [1, 4, 0, 0, 20, 0, 0, 0, 1, 24, 24, 0, 0, 2, 0, 192, 44, 1, 0, 0 :: u8] \<and>
    rtr_pdu_header_to_host_byte_order Little_Endian (take 8 q) = Some r \<and>
    rtr_pdu_check_size Little_Endian (r @ drop 8 q) = Some True \<and>
    rtr_pdu_footer_to_host_byte_order Little_Endian (r @ drop 8 q) =
      Some [1, 4, 0, 0, 20, 0, 0, 0, 1, 24, 24, 0, 0, 2, 0, 192, 44, 1, 0, 0]"
  by (rule pdu_byte_order_roundtrip)
    (simp add: pdu_wf_def pdu_type_of_def field32_def dec32_def RTR_MAX_PDU_LEN_def)

text \<open>C21: the size check only reads bytes of the PDU, whatever lengths the PDU claims in it; and a PDU that
  passes it can be converted to host byte order without leaving its bounds and is well-formed then:
  its length is right for its type, and the lengths of an Error Report add up.\<close>

theorem check_size_safe:
  assumes "8 \<le> length q" "length q \<le> RTR_MAX_PDU_LEN" "get32 h 4 q = Some (of_nat (length q))"
  shows "\<exists>b. rtr_pdu_check_size h q = Some b \<and>
    (b \<longrightarrow> (\<exists>p. rtr_pdu_footer_to_host_byte_order h q = Some p \<and> pdu_wf h p))"
proof -
  have "(of_nat (field32 h 4 q) :: u32) = of_nat (length q)" using assms by (simp add: get32_Some)
  then have "field32 h 4 q = unat (of_nat (length q) :: u32)" using unat_field32 [of h 4 q] by simp
  also have "\<dots> = length q"
    using assms(2) by (simp add: RTR_MAX_PDU_LEN_def unsigned_of_nat take_bit_nat_eq_self)
  finally show ?thesis using check_size_sound [OF assms(1,2)] by blast
qed

theorem check_size_safe_witness:
  "\<exists>b. rtr_pdu_check_size Little_Endian [2, 10, 0, 0, 18, 0, 0, 0, 0, 0, 0, 0, 0, 0, 0, 2, 104, 105] = Some b \<and>
    (b \<longrightarrow> (\<exists>p. rtr_pdu_footer_to_host_byte_order Little_Endian
        [2, 10, 0, 0, 18, 0, 0, 0, 0, 0, 0, 0, 0, 0, 0, 2, 104, 105] = Some p \<and> pdu_wf Little_Endian p))"
  by (rule check_size_safe) (simp_all add: RTR_MAX_PDU_LEN_def get32_def dec32_def)

end
