(* ===== verification/Rtr_Socket.thy ===== *)
theory Rtr_Socket
  imports Transport Rtr_Pdu
begin

text \<open>
  The RTR socket of \<^verbatim>\<open>rtrlib/rtr/rtr.h\<close> with the operations on its state and its timers from
  \<^verbatim>\<open>rtrlib/rtr/packets.c\<close> and \<^verbatim>\<open>rtrlib/rtr/rtr.c\<close>. \<open>self\<close> is the address of the socket, by which
  the tables know it, \<open>byte_order\<close> the byte order of the machine, and \<open>state_log\<close> the calls of the
  connection state callback, if one is installed. The record is extended with the tables where a
  function uses them.
\<close>

section \<open>Data\<close>

abbreviation (input) RTR_SUCCESS :: int where "RTR_SUCCESS \<equiv> 0"
abbreviation (input) RTR_ERROR :: int where "RTR_ERROR \<equiv> -1"
abbreviation (input) RTR_INVALID_PARAM :: int where "RTR_INVALID_PARAM \<equiv> -2"

datatype rtr_interval_mode = RTR_INTERVAL_MODE_IGNORE_ANY | RTR_INTERVAL_MODE_ACCEPT_ANY
  | RTR_INTERVAL_MODE_DEFAULT_MIN_MAX | RTR_INTERVAL_MODE_IGNORE_ON_FAILURE

datatype rtr_interval_range = RTR_BELOW_INTERVAL_RANGE | RTR_INSIDE_INTERVAL_RANGE | RTR_ABOVE_INTERVAL_RANGE

datatype rtr_interval_type = RTR_INTERVAL_TYPE_EXPIRATION | RTR_INTERVAL_TYPE_REFRESH | RTR_INTERVAL_TYPE_RETRY

datatype rtr_socket_state = RTR_CONNECTING | RTR_ESTABLISHED | RTR_RESET | RTR_SYNC | RTR_FAST_RECONNECT
  | RTR_ERROR_NO_DATA_AVAIL | RTR_ERROR_NO_INCR_UPDATE_AVAIL | RTR_ERROR_FATAL | RTR_ERROR_TRANSPORT
  | RTR_SHUTDOWN | RTR_CLOSED

abbreviation (input) RTR_EXPIRATION_MIN :: u32 where "RTR_EXPIRATION_MIN \<equiv> 600"
abbreviation (input) RTR_EXPIRATION_MAX :: u32 where "RTR_EXPIRATION_MAX \<equiv> 172800"
abbreviation (input) RTR_REFRESH_MIN :: u32 where "RTR_REFRESH_MIN \<equiv> 1"
abbreviation (input) RTR_REFRESH_MAX :: u32 where "RTR_REFRESH_MAX \<equiv> 86400"
abbreviation (input) RTR_RETRY_MIN :: u32 where "RTR_RETRY_MIN \<equiv> 1"
abbreviation (input) RTR_RETRY_MAX :: u32 where "RTR_RETRY_MAX \<equiv> 7200"

abbreviation (input) RTR_PROTOCOL_MIN_SUPPORTED_VERSION :: u8 where "RTR_PROTOCOL_MIN_SUPPORTED_VERSION \<equiv> 0"
abbreviation (input) RTR_PROTOCOL_MAX_SUPPORTED_VERSION :: u8 where "RTR_PROTOCOL_MAX_SUPPORTED_VERSION \<equiv> 2"

record rtr_socket =
  self :: socket_id
  byte_order :: host_order
  tr_socket :: rtr_tr_socket
  refresh_interval :: u32
  last_update :: int
  expire_interval :: u32
  retry_interval :: u32
  iv_mode :: rtr_interval_mode
  state :: rtr_socket_state
  session_id :: u32
  request_session_id :: bool
  serial_number :: u32
  thread_id :: nat
  connection_state_fp :: bool
  version :: u32
  has_received_pdus :: bool
  is_resetting :: bool
  state_log :: "rtr_socket_state list"

section \<open>Operations\<close>

definition rtr_version_supported :: "u8 \<Rightarrow> bool" where
  "rtr_version_supported ver =
     (RTR_PROTOCOL_MIN_SUPPORTED_VERSION \<le> ver \<and> RTR_PROTOCOL_MAX_SUPPORTED_VERSION \<ge> ver)"

definition rtr_change_socket_state :: "'a rtr_socket_scheme \<Rightarrow> rtr_socket_state \<Rightarrow> 'a rtr_socket_scheme" where
  "rtr_change_socket_state s new_state =
     (if state s = new_state then s
      else if state s = RTR_SHUTDOWN then s
      else let s = s\<lparr>state := new_state\<rparr> in
        if connection_state_fp s then s\<lparr>state_log := state_log s @ [new_state]\<rparr> else s)"

definition rtr_set_last_update :: "'a rtr_socket_scheme \<Rightarrow> int \<times> 'a rtr_socket_scheme" where
  "rtr_set_last_update s =
     (let (t, io) = rtr_get_monotonic_time (tr_socket s); s = s\<lparr>tr_socket := io\<rparr> in
      case t of
        None \<Rightarrow> (RTR_ERROR, rtr_change_socket_state s RTR_ERROR_FATAL)
      | Some now \<Rightarrow> (RTR_SUCCESS, s\<lparr>last_update := now\<rparr>))"

definition rtr_check_interval_range :: "u32 \<Rightarrow> u32 \<Rightarrow> u32 \<Rightarrow> rtr_interval_range" where
  "rtr_check_interval_range interval minimum maximum =
     (if interval < minimum then RTR_BELOW_INTERVAL_RANGE
      else if interval > maximum then RTR_ABOVE_INTERVAL_RANGE
      else RTR_INSIDE_INTERVAL_RANGE)"

fun apply_interval_value :: "'a rtr_socket_scheme \<Rightarrow> u32 \<Rightarrow> rtr_interval_type \<Rightarrow> 'a rtr_socket_scheme" where
  "apply_interval_value s interval RTR_INTERVAL_TYPE_EXPIRATION = s\<lparr>expire_interval := interval\<rparr>"
| "apply_interval_value s interval RTR_INTERVAL_TYPE_REFRESH = s\<lparr>refresh_interval := interval\<rparr>"
| "apply_interval_value s interval RTR_INTERVAL_TYPE_RETRY = s\<lparr>retry_interval := interval\<rparr>"

fun interval_bounds :: "rtr_interval_type \<Rightarrow> u32 \<times> u32" where
  "interval_bounds RTR_INTERVAL_TYPE_EXPIRATION = (RTR_EXPIRATION_MIN, RTR_EXPIRATION_MAX)"
| "interval_bounds RTR_INTERVAL_TYPE_REFRESH = (RTR_REFRESH_MIN, RTR_REFRESH_MAX)"
| "interval_bounds RTR_INTERVAL_TYPE_RETRY = (RTR_RETRY_MIN, RTR_RETRY_MAX)"

text \<open>The enumeration has no value for the error return of an invalid type.\<close>

definition rtr_check_interval_option ::
  "'a rtr_socket_scheme \<Rightarrow> rtr_interval_mode \<Rightarrow> u32 \<Rightarrow> rtr_interval_type \<Rightarrow> int \<times> 'a rtr_socket_scheme" where
  "rtr_check_interval_option s interval_mode interval type =
     (let (minimum, maximum) = interval_bounds type;
          interv_retval = rtr_check_interval_range interval minimum maximum in
      (RTR_SUCCESS,
       if interv_retval = RTR_INSIDE_INTERVAL_RANGE \<or> interval_mode = RTR_INTERVAL_MODE_ACCEPT_ANY
       then apply_interval_value s interval type
       else if interval_mode = RTR_INTERVAL_MODE_DEFAULT_MIN_MAX
       then (if interv_retval = RTR_BELOW_INTERVAL_RANGE then apply_interval_value s minimum type
             else apply_interval_value s maximum type)
       else s))"

definition rtr_get_interval_mode :: "'a rtr_socket_scheme \<Rightarrow> rtr_interval_mode" where
  "rtr_get_interval_mode s = iv_mode s"

definition rtr_set_interval_mode :: "'a rtr_socket_scheme \<Rightarrow> rtr_interval_mode \<Rightarrow> 'a rtr_socket_scheme" where
  "rtr_set_interval_mode s option = s\<lparr>iv_mode := option\<rparr>"

section \<open>Lemmas\<close>

lemma change_state_simps [simp]:
  "self (rtr_change_socket_state s st) = self s"
  "byte_order (rtr_change_socket_state s st) = byte_order s"
  "tr_socket (rtr_change_socket_state s st) = tr_socket s"
  "refresh_interval (rtr_change_socket_state s st) = refresh_interval s"
  "last_update (rtr_change_socket_state s st) = last_update s"
  "expire_interval (rtr_change_socket_state s st) = expire_interval s"
  "retry_interval (rtr_change_socket_state s st) = retry_interval s"
  "iv_mode (rtr_change_socket_state s st) = iv_mode s"
  "session_id (rtr_change_socket_state s st) = session_id s"
  "request_session_id (rtr_change_socket_state s st) = request_session_id s"
  "serial_number (rtr_change_socket_state s st) = serial_number s"
  "thread_id (rtr_change_socket_state s st) = thread_id s"
  "connection_state_fp (rtr_change_socket_state s st) = connection_state_fp s"
  "version (rtr_change_socket_state s st) = version s"
  "has_received_pdus (rtr_change_socket_state s st) = has_received_pdus s"
  "is_resetting (rtr_change_socket_state s st) = is_resetting s"
  "rtr_socket.more (rtr_change_socket_state s st) = rtr_socket.more s"
  by (simp_all add: rtr_change_socket_state_def Let_def)

lemma change_state_state: "state (rtr_change_socket_state s st) = (if state s = RTR_SHUTDOWN then RTR_SHUTDOWN else st)"
  by (simp add: rtr_change_socket_state_def Let_def)

lemma change_state_shutdown [simp]: "state s = RTR_SHUTDOWN \<Longrightarrow> rtr_change_socket_state s st = s"
  by (simp add: rtr_change_socket_state_def)

text \<open>The three timers are inside their ranges.\<close>

definition intervals_ok :: "'a rtr_socket_scheme \<Rightarrow> bool" where
  "intervals_ok s =
     (rtr_check_interval_range (refresh_interval s) RTR_REFRESH_MIN RTR_REFRESH_MAX = RTR_INSIDE_INTERVAL_RANGE \<and>
      rtr_check_interval_range (expire_interval s) RTR_EXPIRATION_MIN RTR_EXPIRATION_MAX = RTR_INSIDE_INTERVAL_RANGE \<and>
      rtr_check_interval_range (retry_interval s) RTR_RETRY_MIN RTR_RETRY_MAX = RTR_INSIDE_INTERVAL_RANGE)"

lemma check_interval_option_ok:
  assumes "intervals_ok s" "mode \<noteq> RTR_INTERVAL_MODE_ACCEPT_ANY"
  shows "intervals_ok (snd (rtr_check_interval_option s mode interval type))"
  using assms
  by (cases type) (auto simp: rtr_check_interval_option_def intervals_ok_def rtr_check_interval_range_def Let_def
      split: if_splits)

end
