(* ===== verification/Rtr_Packets.thy ===== *)
theory Rtr_Packets
  imports Rtr_Socket
begin

text \<open>
  Sending and receiving of single PDUs, from \<^verbatim>\<open>rtrlib/rtr/packets.c\<close>: the queries, the Error Reports,
  the receiver with its version negotiation and its error exits, and the handlers of Error Report
  and Cache Response PDUs. The local buffers of the C code are lists of bytes; what they hold before
  anything is written to them is an argument of the functions.
\<close>

section \<open>Sending\<close>

definition rtr_send_pdu :: "'a rtr_socket_scheme \<Rightarrow> u8 list \<Rightarrow> (int \<times> 'a rtr_socket_scheme) option" where
  "rtr_send_pdu s pdu =
     do { pdu_converted \<leftarrow> rtr_pdu_to_network_byte_order (byte_order s) pdu;
          if state s = RTR_SHUTDOWN then Some (RTR_ERROR, s)
          else let (rtval, io) = tr_send_all (tr_socket s) pdu_converted in
            Some (if rtval > 0 then RTR_SUCCESS else RTR_ERROR, s\<lparr>tr_socket := io\<rparr>) }"

definition c_string :: "string \<Rightarrow> u8 list" where
  "c_string txt = map of_char txt @ [0]"

definition pdu_error :: "host_order \<Rightarrow> u8 \<Rightarrow> pdu_error_type \<Rightarrow> u8 list \<Rightarrow> u8 list \<Rightarrow> u8 list" where
  "pdu_error h ver error enc txt =
     [ver, 10] @ enc16 h (pdu_error_code error) @ enc32 h (of_nat (sizeof_pdu_error + 4 + length enc + length txt)) @
     enc32 h (of_nat (length enc)) @ enc @ enc32 h (of_nat (length txt)) @ txt"

text \<open>All callers pass at most \<^const>\<open>RTR_MAX_PDU_LEN\<close> bytes, so the 32-bit sums do not wrap.\<close>

definition rtr_send_error_pdu ::
  "'a rtr_socket_scheme \<Rightarrow> u8 list \<Rightarrow> pdu_error_type \<Rightarrow> u8 list \<Rightarrow> (int \<times> 'a rtr_socket_scheme) option" where
  "rtr_send_error_pdu s erroneous_pdu error err_text =
     (if length err_text > RTR_MAX_PDU_LEN - (sizeof_pdu_error + 4 + 4) then None
      else
        let msg_size = sizeof_pdu_error + 4 + length erroneous_pdu + length err_text;
            erroneous_pdu_len =
              (if msg_size > RTR_MAX_PDU_LEN then length erroneous_pdu - (msg_size - RTR_MAX_PDU_LEN)
               else length erroneous_pdu) in
        if erroneous_pdu_len \<ge> 2 \<and> rtr_get_pdu_type erroneous_pdu = Some ERROR then Some (RTR_SUCCESS, s)
        else rtr_send_pdu s
          (pdu_error (byte_order s) (ucast (version s)) error (take erroneous_pdu_len erroneous_pdu) err_text))"

definition interval_send_error_pdu :: "'a rtr_socket_scheme \<Rightarrow> u8 list \<Rightarrow> (int \<times> 'a rtr_socket_scheme) option" where
  "interval_send_error_pdu s pdu =
     do { bytes \<leftarrow> get_bytes 0 RTR_MAX_PDU_LEN pdu;
          rtr_send_error_pdu s bytes CORRUPT_DATA (c_string ''Interval value out of range'') }"

definition rtr_send_error_pdu_from_network ::
  "'a rtr_socket_scheme \<Rightarrow> u8 list \<Rightarrow> pdu_error_type \<Rightarrow> u8 list \<Rightarrow> (int \<times> 'a rtr_socket_scheme) option" where
  "rtr_send_error_pdu_from_network s erroneous_pdu error err_text = rtr_send_error_pdu s erroneous_pdu error err_text"

definition rtr_send_error_pdu_from_host ::
  "'a rtr_socket_scheme \<Rightarrow> u8 list \<Rightarrow> pdu_error_type \<Rightarrow> u8 list \<Rightarrow> (int \<times> 'a rtr_socket_scheme) option" where
  "rtr_send_error_pdu_from_host s erroneous_pdu error err_text =
     (if length erroneous_pdu = sizeof_pdu_header then
        do { pdu \<leftarrow> rtr_pdu_header_to_network_byte_order (byte_order s) erroneous_pdu;
             rtr_send_error_pdu s pdu error err_text }
      else if length erroneous_pdu > sizeof_pdu_header then
        do { pdu \<leftarrow> rtr_pdu_to_network_byte_order (byte_order s) erroneous_pdu;
             rtr_send_error_pdu s pdu error err_text }
      else Some (RTR_ERROR, s))"

definition pdu_serial_query :: "host_order \<Rightarrow> u8 \<Rightarrow> u16 \<Rightarrow> u32 \<Rightarrow> u8 list" where
  "pdu_serial_query h ver sid sn = [ver, 1] @ enc16 h sid @ enc32 h (of_nat sizeof_pdu_serial_query) @ enc32 h sn"

definition pdu_reset_query :: "host_order \<Rightarrow> u8 \<Rightarrow> u8 list" where
  "pdu_reset_query h ver = [ver, 2] @ enc16 h 0 @ enc32 h 8"

definition rtr_send_serial_query :: "'a rtr_socket_scheme \<Rightarrow> (int \<times> 'a rtr_socket_scheme) option" where
  "rtr_send_serial_query s =
     do { (rtval, s) \<leftarrow> rtr_send_pdu s
            (pdu_serial_query (byte_order s) (ucast (version s)) (ucast (session_id s)) (serial_number s));
          if rtval \<noteq> RTR_SUCCESS then Some (RTR_ERROR, rtr_change_socket_state s RTR_ERROR_TRANSPORT)
          else Some (RTR_SUCCESS, s) }"

definition rtr_send_reset_query :: "'a rtr_socket_scheme \<Rightarrow> (int \<times> 'a rtr_socket_scheme) option" where
  "rtr_send_reset_query s =
     do { (rtval, s) \<leftarrow> rtr_send_pdu s (pdu_reset_query (byte_order s) (ucast (version s)));
          if rtval \<noteq> RTR_SUCCESS then Some (RTR_ERROR, rtr_change_socket_state s RTR_ERROR_TRANSPORT)
          else Some (RTR_SUCCESS, s) }"

section \<open>Receiving\<close>

text \<open>The error exit of the receiver; \<^const>\<open>Inl\<close> is a return value of the transport.\<close>

definition receive_failed ::
  "'a rtr_socket_scheme \<Rightarrow> u8 list \<Rightarrow> int + pdu_error_type \<Rightarrow> (int \<times> u8 list \<times> 'a rtr_socket_scheme) option" where
  "receive_failed s pdu error =
     (case error of
        Inl e \<Rightarrow>
          if e = -1 then Some (RTR_ERROR, pdu, rtr_change_socket_state s RTR_ERROR_TRANSPORT)
          else if e = RTR_TR_WOULDBLOCK then Some (RTR_TR_WOULDBLOCK, pdu, s)
          else if e = RTR_TR_INTR then Some (RTR_TR_INTR, pdu, s)
          else Some (RTR_ERROR, pdu, rtr_change_socket_state s RTR_ERROR_FATAL)
      | Inr CORRUPT_DATA \<Rightarrow>
          do { (r, s) \<leftarrow> rtr_send_error_pdu_from_network s (take sizeof_pdu_header pdu) CORRUPT_DATA
                 (c_string ''corrupt data received, length value in PDU is too small'');
               Some (RTR_ERROR, pdu, rtr_change_socket_state s RTR_ERROR_FATAL) }
      | Inr PDU_TOO_BIG \<Rightarrow>
          do { (r, s) \<leftarrow> rtr_send_error_pdu_from_network s (take sizeof_pdu_header pdu) CORRUPT_DATA
                 (take 42 (map of_char ''PDU too big, max. PDU size is: 65535 bytes'') @ [0]);
               Some (RTR_ERROR, pdu, rtr_change_socket_state s RTR_ERROR_FATAL) }
      | Inr UNSUPPORTED_PDU_TYPE \<Rightarrow>
          do { (r, s) \<leftarrow> rtr_send_error_pdu_from_network s (take sizeof_pdu_header pdu) UNSUPPORTED_PDU_TYPE [];
               Some (RTR_ERROR, pdu, rtr_change_socket_state s RTR_ERROR_FATAL) }
      | Inr UNSUPPORTED_PROTOCOL_VER \<Rightarrow>
          do { (r, s) \<leftarrow> rtr_send_error_pdu_from_network s (take sizeof_pdu_header pdu) UNSUPPORTED_PROTOCOL_VER [];
               Some (RTR_ERROR, pdu, s) }
      | Inr UNEXPECTED_PROTOCOL_VERSION \<Rightarrow>
          do { (r, s) \<leftarrow> rtr_send_error_pdu_from_network s (take sizeof_pdu_header pdu) UNEXPECTED_PROTOCOL_VERSION [];
               Some (RTR_ERROR, pdu, s) }
      | Inr _ \<Rightarrow> Some (RTR_ERROR, pdu, rtr_change_socket_state s RTR_ERROR_FATAL))"

text \<open>The first PDU of a connection may lower the protocol version.\<close>

definition live_downgrade :: "'a rtr_socket_scheme \<Rightarrow> pdu_type \<Rightarrow> u8 \<Rightarrow> 'a rtr_socket_scheme" where
  "live_downgrade s type ver =
     (if has_received_pdus s then s
      else (if type \<noteq> ERROR \<and> version s > ucast ver \<and> rtr_version_supported ver then s\<lparr>version := ucast ver\<rparr> else s)
        \<lparr>has_received_pdus := True\<rparr>)"

definition receive_payload ::
  "'a rtr_socket_scheme \<Rightarrow> u8 list \<Rightarrow> u8 list \<Rightarrow> nat \<Rightarrow> pdu_type \<Rightarrow> u8 \<Rightarrow> (int \<times> u8 list \<times> 'a rtr_socket_scheme) option" where
  "receive_payload s pdu header len type ver =
     (let remaining_len = len - sizeof_pdu_header in
      if remaining_len > 0 \<and> state s = RTR_SHUTDOWN then Some (RTR_ERROR, pdu, s)
      else
        let (error, got, io) = (if remaining_len > 0 then tr_recv_all (tr_socket s) remaining_len else (0, [], tr_socket s));
            s = s\<lparr>tr_socket := io\<rparr> in
        do { pdu \<leftarrow> write_at sizeof_pdu_header got pdu;
             if error < 0 then receive_failed s pdu (Inl error)
             else do {
               pdu \<leftarrow> write_at 0 header pdu;
               ok \<leftarrow> rtr_pdu_check_size (byte_order s) pdu;
               if \<not> ok then receive_failed s pdu (Inr CORRUPT_DATA)
               else do {
                 pdu \<leftarrow> rtr_pdu_footer_to_host_byte_order (byte_order s) pdu;
                 if type = ASPA \<and> ver \<noteq> RTR_PROTOCOL_VERSION_2 then receive_failed s pdu (Inr UNSUPPORTED_PROTOCOL_VER)
                 else if type = ASPA \<and> len mod 4 \<noteq> 0 then receive_failed s pdu (Inr CORRUPT_DATA)
                 else Some (RTR_SUCCESS, pdu, s) } } })"

definition rtr_receive_pdu ::
  "'a rtr_socket_scheme \<Rightarrow> u8 list \<Rightarrow> (int \<times> u8 list \<times> 'a rtr_socket_scheme) option" where
  "rtr_receive_pdu s pdu =
     (if \<not> length pdu \<ge> RTR_MAX_PDU_LEN then None
      else if state s = RTR_SHUTDOWN then Some (RTR_ERROR, pdu, s)
      else
        let (error, got, io) = tr_recv_all (tr_socket s) sizeof_pdu_header; s = s\<lparr>tr_socket := io\<rparr> in
        do { pdu \<leftarrow> write_at 0 got pdu;
             if error < 0 then receive_failed s pdu (Inl error)
             else do {
               header \<leftarrow> rtr_pdu_header_to_host_byte_order (byte_order s) (take sizeof_pdu_header pdu);
               len \<leftarrow> get32 (byte_order s) 4 header;
               type \<leftarrow> rtr_get_pdu_type header;
               ver \<leftarrow> get8 0 header;
               if unat len < sizeof_pdu_header then receive_failed s pdu (Inr CORRUPT_DATA)
               else if unat len > RTR_MAX_PDU_LEN then receive_failed s pdu (Inr PDU_TOO_BIG)
               else let s = live_downgrade s type ver in
                 if ucast ver \<noteq> version s \<and> type \<noteq> ERROR then receive_failed s pdu (Inr UNEXPECTED_PROTOCOL_VERSION)
                 else receive_payload s pdu header (unat len) type ver } })"

section \<open>Handlers\<close>

text \<open>The text of the report is only logged; its length is read in any case.\<close>

definition rtr_handle_error_pdu :: "'a rtr_socket_scheme \<Rightarrow> u8 list \<Rightarrow> (int \<times> 'a rtr_socket_scheme) option" where
  "rtr_handle_error_pdu s buf =
     do { code \<leftarrow> get16 (byte_order s) 2 buf;
          ver \<leftarrow> get8 0 buf;
          let s' =
            (if code = pdu_error_code NO_DATA_AVAIL then rtr_change_socket_state s RTR_ERROR_NO_DATA_AVAIL
             else if code = pdu_error_code UNSUPPORTED_PROTOCOL_VER then
               (if ver \<le> RTR_PROTOCOL_MAX_SUPPORTED_VERSION \<and> ver \<ge> RTR_PROTOCOL_MIN_SUPPORTED_VERSION \<and>
                   ucast ver < version s
                then rtr_change_socket_state (s\<lparr>version := ucast ver\<rparr>) RTR_FAST_RECONNECT
                else rtr_change_socket_state s RTR_ERROR_FATAL)
             else rtr_change_socket_state s RTR_ERROR_FATAL);
          len_enc_pdu \<leftarrow> get32 (byte_order s) 8 buf;
          len_err_txt \<leftarrow> get32 (byte_order s) (12 + unat len_enc_pdu) buf;
          Some (RTR_SUCCESS, s') }"

definition rtr_handle_cache_response_pdu :: "'a rtr_socket_scheme \<Rightarrow> u8 list \<Rightarrow> (int \<times> 'a rtr_socket_scheme) option" where
  "rtr_handle_cache_response_pdu s pdu =
     do { sid \<leftarrow> get16 (byte_order s) 2 pdu;
          if request_session_id s then
            let s = (if last_update s \<noteq> 0 then s\<lparr>last_update := 0, is_resetting := True\<rparr> else s) in
            Some (RTR_SUCCESS, s\<lparr>session_id := ucast sid\<rparr>)
          else if session_id s \<noteq> ucast sid then
            do { (r, s) \<leftarrow> rtr_send_error_pdu_from_host s [] CORRUPT_DATA
                   (c_string ''Wrong session_id in Cache Response PDU'');
                 Some (RTR_ERROR, rtr_change_socket_state s RTR_ERROR_FATAL) }
          else Some (RTR_SUCCESS, s) }"

text \<open>The time to wait reaches the transport as the time-out of the call; it is logged.\<close>

definition rtr_wait_for_sync :: "'a rtr_socket_scheme \<Rightarrow> u8 list \<Rightarrow> (int \<times> 'a rtr_socket_scheme) option" where
  "rtr_wait_for_sync s stack =
     (let (t, io) = rtr_get_monotonic_time (tr_socket s) in
      do { cur_time \<leftarrow> t;
           let wait = (last_update s + uint (refresh_interval s)) - cur_time;
           let wait = (if wait < 0 then 0 else wait);
           (rtval, pdu, s) \<leftarrow> rtr_receive_pdu (s\<lparr>tr_socket := io\<lparr>acts := acts io @ [Act_Wait wait]\<rparr>\<rparr>) stack;
           if rtval \<ge> 0 then
             do { type \<leftarrow> rtr_get_pdu_type pdu;
                  Some (if type = SERIAL_NOTIFY then RTR_SUCCESS else RTR_ERROR, s) }
           else if rtval = RTR_TR_WOULDBLOCK then Some (RTR_SUCCESS, s)
           else Some (RTR_ERROR, s) })"

section \<open>Buffers longer than the PDU\<close>

lemma get_append:
  "get8 off q = Some b \<Longrightarrow> get8 off (q @ r) = Some b"
  "get16 h off q = Some v \<Longrightarrow> get16 h off (q @ r) = Some v"
  "get32 h off q = Some w \<Longrightarrow> get32 h off (q @ r) = Some w"
  by (auto simp: get8_def get16_def get32_def nth_append split: if_splits)

lemma swap_at_append: "off + n \<le> length q \<Longrightarrow> swap_at h n off (q @ r) = swap_at h n off q @ r"
  by (simp add: swap_at_def)

lemma conv_append: "conv32 h tbo off q = Some p \<Longrightarrow> conv32 h tbo off (q @ r) = Some (p @ r)"
  by (auto simp: conv32_swap swap_at_append split: if_splits)

lemma conv_ipv6_append:
  assumes "conv_ipv6 h tbo off q = Some p"
  shows "conv_ipv6 h tbo off (q @ r) = Some (p @ r)"
proof -
  have "off + 16 \<le> length q"
    using assms by (auto simp: conv_ipv6_def bind_eq_Some_conv get32_def split: if_splits)
  then show ?thesis using assms by (simp add: conv_ipv6_swap swap_at_append)
qed

lemma conv_providers_append:
  "conv_providers h tbo off n q = Some p \<Longrightarrow> conv_providers h tbo off n (q @ r) = Some (p @ r)"
proof (induction n arbitrary: off q)
  case (Suc n)
  then obtain q1 where q1: "conv32 h tbo off q = Some q1" "conv_providers h tbo (off + 4) n q1 = Some p"
    by (auto simp: bind_eq_Some_conv)
  then show ?case using Suc.IH [OF q1(2)] conv_append [OF q1(1)] by simp
qed simp

lemma type_append: "rtr_get_pdu_type q = Some ty \<Longrightarrow> rtr_get_pdu_type (q @ r) = Some ty"
  by (auto simp: rtr_get_pdu_type_def dest: get_append(1) [where r = r])

lemma provider_count_append: "rtr_aspa_provider_count h q = Some n \<Longrightarrow> rtr_aspa_provider_count h (q @ r) = Some n"
  by (auto simp: rtr_aspa_provider_count_def bind_eq_Some_conv dest: get_append(3) [where r = r])

lemma convert_footer_append:
  assumes "rtr_pdu_convert_footer_byte_order h q tbo = Some p"
  shows "rtr_pdu_convert_footer_byte_order h (q @ r) tbo = Some (p @ r)"
proof (cases "rtr_get_pdu_type q")
  case None
  then show ?thesis using assms by (simp add: rtr_pdu_convert_footer_byte_order_def)
next
  case (Some ty)
  note append = get_append conv_append conv_ipv6_append conv_providers_append provider_count_append
  note defs = rtr_pdu_convert_footer_byte_order_def conv_ipv4_conv32
    type_append [OF Some, of r] Some Option.bind_lunit
  show ?thesis
    using assms unfolding defs
    by (cases ty) (auto elim!: bind_SomeE simp: append split: if_splits)
qed

lemmas footer_append = convert_footer_append [where tbo = TO_HOST_HOST_BYTE_ORDER,
  folded rtr_pdu_footer_to_host_byte_order_def]

lemma check_size_append:
  assumes "rtr_pdu_check_size h q = Some b"
  shows "rtr_pdu_check_size h (q @ r) = Some b"
proof -
  obtain ty where ty: "rtr_get_pdu_type q = Some ty"
    using assms by (cases "rtr_get_pdu_type q") (simp_all add: rtr_pdu_check_size_def)
  have err: "check_error_size h q len = Some b' \<Longrightarrow> check_error_size h (q @ r) len = Some b'" for len b'
    by (auto simp: check_error_size_def Let_def get_append split: if_splits elim!: bind_SomeE)
  show ?thesis
    using assms unfolding rtr_pdu_check_size_def type_append [OF ty, of r] ty Option.bind_lunit Let_def
    by (cases ty) (auto elim!: bind_SomeE simp: get_append err split: if_splits)
qed

section \<open>What an exchange with the cache leaves alone\<close>

text \<open>Sending and receiving only touch the transport, the state with its callbacks, the protocol version
  and the flag for received PDUs; the input script never grows.\<close>

abbreviation failure_states :: "rtr_socket_state set" where
  "failure_states \<equiv> {RTR_FAST_RECONNECT, RTR_ERROR_NO_DATA_AVAIL, RTR_ERROR_NO_INCR_UPDATE_AVAIL, RTR_ERROR_FATAL, RTR_ERROR_TRANSPORT}"

definition may_fail :: "rtr_socket_state \<Rightarrow> rtr_socket_state \<Rightarrow> bool" where
  "may_fail st st' = (st' = st \<or> st \<noteq> RTR_SHUTDOWN \<and> st' \<in> failure_states)"

lemma may_fail_trans: "may_fail st st' \<Longrightarrow> may_fail st' st'' \<Longrightarrow> may_fail st st''"
  unfolding may_fail_def by (elim disjE) simp_all

lemma may_fail_refl [simp]: "may_fail st st"
  by (simp add: may_fail_def)

lemma may_fail_shutdown: "may_fail RTR_SHUTDOWN st \<longleftrightarrow> st = RTR_SHUTDOWN"
  by (simp add: may_fail_def)

definition conn_frame :: "'a rtr_socket_scheme \<Rightarrow> 'a rtr_socket_scheme \<Rightarrow> bool" where
  "conn_frame s s' =
     (self s' = self s \<and> byte_order s' = byte_order s \<and> refresh_interval s' = refresh_interval s \<and>
      last_update s' = last_update s \<and> expire_interval s' = expire_interval s \<and>
      retry_interval s' = retry_interval s \<and> iv_mode s' = iv_mode s \<and> session_id s' = session_id s \<and>
      request_session_id s' = request_session_id s \<and> serial_number s' = serial_number s \<and>
      thread_id s' = thread_id s \<and> connection_state_fp s' = connection_state_fp s \<and>
      is_resetting s' = is_resetting s \<and> rtr_socket.more s' = rtr_socket.more s \<and>
      opens (tr_socket s') = opens (tr_socket s) \<and> acts (tr_socket s') = acts (tr_socket s) \<and>
      clock (tr_socket s') = clock (tr_socket s) \<and> ticks (tr_socket s') = ticks (tr_socket s) \<and>
      rx_size (rx (tr_socket s')) \<le> rx_size (rx (tr_socket s)) \<and>
      may_fail (state s) (state s') \<and>
      version s' \<le> version s)"

lemma conn_frame_refl [simp]: "conn_frame s s"
  by (simp add: conn_frame_def)

lemma conn_frame_trans: "conn_frame s s' \<Longrightarrow> conn_frame s' s'' \<Longrightarrow> conn_frame s s''"
  by (auto simp: conn_frame_def intro: may_fail_trans)

lemma conn_frame_state [simp]: "st \<in> failure_states \<Longrightarrow> conn_frame s (rtr_change_socket_state s st)"
  by (simp add: conn_frame_def change_state_state may_fail_def)

lemma conn_frame_state_trans: "conn_frame s s' \<Longrightarrow> st \<in> failure_states \<Longrightarrow> conn_frame s (rtr_change_socket_state s' st)"
  by (rule conn_frame_trans [OF _ conn_frame_state])

section \<open>Sending always works out\<close>

lemma enc_dec_slices [simp]:
  "field32 h 0 (enc32 h w @ r) = unat w"
  by (simp add: field32_def)

lemma field32_skip: "off \<le> off' \<Longrightarrow> length xs = off \<Longrightarrow> field32 h off' (xs @ ys) = field32 h (off' - off) ys"
  by (simp add: field32_def)

lemma unat_small: "n \<le> RTR_MAX_PDU_LEN \<Longrightarrow> unat (of_nat n :: u32) = n"
  by (simp add: RTR_MAX_PDU_LEN_def unsigned_of_nat take_bit_nat_eq_self)

lemma pdu_error_wf:
  assumes "16 + length enc + length txt \<le> RTR_MAX_PDU_LEN"
  shows "pdu_wf h (pdu_error h ver error enc txt)" "length (pdu_error h ver error enc txt) = 16 + length enc + length txt"
proof -
  let ?p = "pdu_error h ver error enc txt"
  show len: "length ?p = 16 + length enc + length txt" by (simp add: pdu_error_def)
  have "field32 h 4 ?p = 16 + length enc + length txt"
    using assms field32_skip [of 4 4 "[ver, 10] @ enc16 h (pdu_error_code error)" h]
    by (simp add: pdu_error_def unat_small flip: of_nat_add)
  moreover have 8: "field32 h 8 ?p = length enc"
    using assms field32_skip [of 8 8 "[ver, 10] @ enc16 h (pdu_error_code error) @ enc32 h (of_nat (16 + length enc + length txt))" h]
    by (simp add: pdu_error_def unat_small flip: of_nat_add)
  moreover have "field32 h (12 + length enc) ?p = length txt"
    using assms field32_skip [of "12 + length enc" "12 + length enc"
        "[ver, 10] @ enc16 h (pdu_error_code error) @ enc32 h (of_nat (16 + length enc + length txt)) @ enc32 h (of_nat (length enc)) @ enc" h]
    by (simp add: pdu_error_def unat_small flip: of_nat_add)
  moreover have "?p ! 1 = 10" by (simp add: pdu_error_def)
  ultimately show "pdu_wf h ?p" using assms len by (simp add: pdu_wf_def pdu_type_of_def)
qed

text \<open>Sending only uses the outgoing side of the transport.\<close>

definition send_frame :: "'a rtr_socket_scheme \<Rightarrow> 'a rtr_socket_scheme \<Rightarrow> bool" where
  "send_frame s s' = (\<exists>t w. s' = s\<lparr>tr_socket := (tr_socket s)\<lparr>tx := t, wire := wire (tr_socket s) @ w\<rparr>\<rparr>)"

lemma send_frame_refl [simp]: "send_frame s s"
  unfolding send_frame_def
  by (rule exI [of _ "tx (tr_socket s)"], rule exI [of _ "[]"]) simp

lemma send_frame_conn: "send_frame s s' \<Longrightarrow> conn_frame s s'"
  by (auto simp: send_frame_def conn_frame_def)

lemma send_frame_simps:
  assumes "send_frame s s'"
  shows "state s' = state s" "version s' = version s" "rx (tr_socket s') = rx (tr_socket s)"
    "state_log s' = state_log s" "has_received_pdus s' = has_received_pdus s"
  using assms by (auto simp: send_frame_def)

lemma send_pdu_ok:
  assumes wf: "pdu_wf (byte_order s) p"
  obtains rv s' where "rtr_send_pdu s p = Some (rv, s')" "send_frame s s'" "rv = RTR_SUCCESS \<or> rv = RTR_ERROR"
    "state s \<noteq> RTR_SHUTDOWN \<Longrightarrow> Tx_Fail ` UNIV \<inter> set (tx (tr_socket s)) = {} \<Longrightarrow>
     rv = RTR_SUCCESS \<and>
     wire (tr_socket s') = wire (tr_socket s) @ swap_header (byte_order s) (swap_all (byte_order s) (footer_fields (byte_order s) p) p)"
proof (cases "state s = RTR_SHUTDOWN")
  case True
  then have "rtr_send_pdu s p = Some (RTR_ERROR, s)" by (simp add: rtr_send_pdu_def to_network_swap [OF wf])
  with True show ?thesis by (intro that) auto
next
  case False
  let ?q = "swap_header (byte_order s) (swap_all (byte_order s) (footer_fields (byte_order s) p) p)"
  obtain rv io where send: "tr_send_all (tr_socket s) ?q = (rv, io)" by fastforce
  obtain k evs where k: "k \<le> length ?q" "io = (tr_socket s)\<lparr>tx := evs, wire := wire (tr_socket s) @ take k ?q\<rparr>"
    "rv < 0 \<or> k = length ?q \<and> rv = int k" "Tx_Fail ` UNIV \<inter> set (tx (tr_socket s)) = {} \<longrightarrow> 0 \<le> rv"
    using tr_send_all_stream [OF send] by blast
  have len: "0 < length ?q"
    using wf half_header(2) [OF wf] by (auto simp: pdu_wf_def swap_header_simps(1))
  show ?thesis
  proof (rule that)
    show "rtr_send_pdu s p = Some (if rv > 0 then RTR_SUCCESS else RTR_ERROR, s\<lparr>tr_socket := io\<rparr>)"
      using False by (simp add: rtr_send_pdu_def to_network_swap [OF wf] send)
    show "send_frame s (s\<lparr>tr_socket := io\<rparr>)" using k(2) by (auto simp: send_frame_def)
  qed (use k len in auto)
qed

lemma send_error_pdu_ok:
  assumes short: "length txt + 20 \<le> RTR_MAX_PDU_LEN"
  obtains rv s' where "rtr_send_error_pdu s enc err txt = Some (rv, s')" "send_frame s s'"
proof -
  let ?size = "16 + length enc + length txt"
  let ?n = "if ?size > RTR_MAX_PDU_LEN then length enc - (?size - RTR_MAX_PDU_LEN) else length enc"
  have "16 + length (take ?n enc) + length txt \<le> RTR_MAX_PDU_LEN" using short by auto
  note wf = pdu_error_wf(1) [OF this]
  have "\<not> length txt > RTR_MAX_PDU_LEN - 20" using short by simp
  then have eq: "rtr_send_error_pdu s enc err txt =
    (if ?n \<ge> 2 \<and> rtr_get_pdu_type enc = Some ERROR then Some (RTR_SUCCESS, s)
     else rtr_send_pdu s (pdu_error (byte_order s) (ucast (version s)) err (take ?n enc) txt))"
    by (simp add: rtr_send_error_pdu_def Let_def)
  show ?thesis
  proof (cases "?n \<ge> 2 \<and> rtr_get_pdu_type enc = Some ERROR")
    case True
    show ?thesis by (rule that [OF _ send_frame_refl]) (simp only: eq True if_P simp_thms)
  next
    case False
    then have "rtr_send_error_pdu s enc err txt =
      rtr_send_pdu s (pdu_error (byte_order s) (ucast (version s)) err (take ?n enc) txt)"
      unfolding eq by (rule if_not_P)
    then show ?thesis using send_pdu_ok [of s, OF wf] that by metis
  qed
qed

lemma to_network_append:
  assumes "pdu_wf h p"
  obtains q where "rtr_pdu_to_network_byte_order h (p @ r) = Some q" "length q = length p + length r"
proof -
  let ?half = "swap_all h (footer_fields h p) p"
  have len: "8 \<le> length ?half" "length ?half = length p" using assms half_header(2) [OF assms] by (simp_all add: pdu_wf_def)
  have "rtr_pdu_footer_to_network_byte_order h (p @ r) = Some (?half @ r)"
    using footer_to_network_swap [OF assms] convert_footer_append
    unfolding rtr_pdu_footer_to_network_byte_order_def by blast
  with len show ?thesis
    by (intro that [of "swap_header h (?half @ r)"])
      (simp_all add: rtr_pdu_to_network_byte_order_def rtr_pdu_header_to_network_byte_order_def
        convert_header_swap swap_header_simps(1))
qed

lemma send_error_from_host_ok:
  assumes short: "length txt + 20 \<le> RTR_MAX_PDU_LEN"
    and enc: "8 < length enc \<Longrightarrow> rtr_pdu_to_network_byte_order (byte_order s) enc \<noteq> None"
  obtains rv s' where "rtr_send_error_pdu_from_host s enc err txt = Some (rv, s')" "send_frame s s'"
proof -
  consider "length enc < 8" | "length enc = 8" | q where "8 < length enc" "rtr_pdu_to_network_byte_order (byte_order s) enc = Some q"
    using enc by fastforce
  then show ?thesis
  proof cases
    case 1
    then show ?thesis by (intro that [OF _ send_frame_refl]) (simp add: rtr_send_error_pdu_from_host_def)
  next
    case 2
    show ?thesis
      by (rule send_error_pdu_ok [OF short, of s "swap_header (byte_order s) enc" err], rule that)
        (use 2 in \<open>simp_all add: rtr_send_error_pdu_from_host_def rtr_pdu_header_to_network_byte_order_def convert_header_swap\<close>)
  next
    case (3 q)
    show ?thesis
      by (rule send_error_pdu_ok [OF short, of s q err], rule that)
        (use 3 in \<open>simp_all add: rtr_send_error_pdu_from_host_def\<close>)
  qed
qed

section \<open>The receiver\<close>

definition received :: "'a rtr_socket_scheme \<Rightarrow> u8 list \<Rightarrow> int \<Rightarrow> u8 list \<Rightarrow> 'a rtr_socket_scheme \<Rightarrow> bool" where
  "received s buf rv buf' s' =
     (conn_frame s s' \<and> length buf' = length buf \<and>
      (rv = RTR_SUCCESS \<or> rv = RTR_ERROR \<or> rv = RTR_TR_WOULDBLOCK \<or> rv = RTR_TR_INTR) \<and>
      (rv = RTR_SUCCESS \<longrightarrow>
         rx_size (rx (tr_socket s')) < rx_size (rx (tr_socket s)) \<and>
         state s' = state s \<and> has_received_pdus s' \<and>
         (\<exists>p. buf' = p @ drop (length p) buf \<and> pdu_wf (byte_order s) p \<and>
            (pdu_type_of (p ! 1) \<noteq> ERROR \<longrightarrow> ucast (p ! 0) = version s') \<and>
            (pdu_type_of (p ! 1) = ASPA \<longrightarrow> p ! 0 = 2 \<and> length p mod 4 = 0))))"

lemma receive_failed_ok:
  assumes "conn_frame s0 s" "length buf = length buf0" "8 \<le> length buf"
  obtains rv buf' s' where "receive_failed s buf e = Some (rv, buf', s')" "received s0 buf0 rv buf' s'"
proof -
  have err: "\<exists>rv s'. rtr_send_error_pdu s (take 8 buf) er msg = Some (rv, s') \<and> conn_frame s0 s'"
    if "length msg \<le> 200" for er msg
  proof -
    have "length msg + 20 \<le> RTR_MAX_PDU_LEN" using that by (simp add: RTR_MAX_PDU_LEN_def)
    then show ?thesis
      by (rule send_error_pdu_ok [where s = s]) (blast intro: conn_frame_trans [OF assms(1)] send_frame_conn)
  qed
  have "\<exists>rv buf' s'. receive_failed s buf e = Some (rv, buf', s') \<and> received s0 buf0 rv buf' s'"
    using assms err [of "c_string ''corrupt data received, length value in PDU is too small''" CORRUPT_DATA]
      err [of "take 42 (map of_char ''PDU too big, max. PDU size is: 65535 bytes'') @ [0]" CORRUPT_DATA]
      err [of "[]" UNSUPPORTED_PDU_TYPE] err [of "[]" UNSUPPORTED_PROTOCOL_VER] err [of "[]" UNEXPECTED_PROTOCOL_VERSION]
    by (cases e)
      (auto simp: receive_failed_def received_def rtr_send_error_pdu_from_network_def c_string_def
        split: pdu_error_type.split intro: conn_frame_state_trans)
  then show ?thesis using that by blast
qed

lemma receive_checked:
  assumes q: "length q \<le> RTR_MAX_PDU_LEN" "8 \<le> length q" "field32 (byte_order s) 4 q = length q"
    and buf: "buf = q @ drop (length q) buf0" "length buf = length buf0"
    and s: "conn_frame s0 s" "state s = state s0" "has_received_pdus s" "rx_size (rx (tr_socket s)) < rx_size (rx (tr_socket s0))"
    and ver: "pdu_type_of (q ! 1) \<noteq> ERROR \<longrightarrow> ucast (q ! 0) = version s"
  obtains rv buf' s' where
    "do { ok \<leftarrow> rtr_pdu_check_size (byte_order s) buf;
          if \<not> ok then receive_failed s buf (Inr CORRUPT_DATA)
          else do {
            pdu \<leftarrow> rtr_pdu_footer_to_host_byte_order (byte_order s) buf;
            if pdu_type_of (q ! 1) = ASPA \<and> q ! 0 \<noteq> RTR_PROTOCOL_VERSION_2 then receive_failed s pdu (Inr UNSUPPORTED_PROTOCOL_VER)
            else if pdu_type_of (q ! 1) = ASPA \<and> length q mod 4 \<noteq> 0 then receive_failed s pdu (Inr CORRUPT_DATA)
            else Some (RTR_SUCCESS, pdu, s) } } = Some (rv, buf', s')"
    "received s0 buf0 rv buf' s'"
proof -
  let ?h = "byte_order s" and ?r = "drop (length q) buf0"
  have len: "8 \<le> length buf" using buf q by simp
  obtain b where check: "rtr_pdu_check_size ?h q = Some b"
    and sound: "b \<Longrightarrow> \<exists>p. rtr_pdu_footer_to_host_byte_order ?h q = Some p \<and> pdu_wf ?h p \<and> q = swap_all ?h (footer_fields ?h p) p"
    using check_size_sound [OF q(2,1,3)] by blast
  have check': "rtr_pdu_check_size ?h buf = Some b" using check_size_append [OF check] buf(1) by simp
  show ?thesis
  proof (cases b)
    case False
    show ?thesis
      by (rule receive_failed_ok [OF s(1) buf(2) len, of "Inr CORRUPT_DATA"], rule that) (use check' False in simp_all)
  next
    case True
    then obtain p where p: "rtr_pdu_footer_to_host_byte_order ?h q = Some p" "pdu_wf ?h p"
      "q = swap_all ?h (footer_fields ?h p) p" using sound by blast
    have "rtr_pdu_footer_to_host_byte_order ?h buf = Some (p @ ?r)" using footer_append [OF p(1)] buf(1) by simp
    note conv = check' True this
    have eqs: "length p = length q" "p ! 0 = q ! 0" "p ! 1 = q ! 1" using half_header [OF p(2)] p(3) by auto
    have len': "length (p @ ?r) = length buf0" "8 \<le> length (p @ ?r)" using buf eqs len by simp_all
    consider "pdu_type_of (q ! 1) = ASPA" "q ! 0 \<noteq> 2"
      | "pdu_type_of (q ! 1) = ASPA" "q ! 0 = 2" "length q mod 4 \<noteq> 0"
      | "pdu_type_of (q ! 1) = ASPA \<longrightarrow> q ! 0 = 2 \<and> length q mod 4 = 0"
      by (cases "pdu_type_of (q ! 1) = ASPA"; cases "q ! 0 = 2"; cases "length q mod 4 = 0") auto
    then show ?thesis
    proof cases
      case 1
      show ?thesis
        by (rule receive_failed_ok [OF s(1) len', of "Inr UNSUPPORTED_PROTOCOL_VER"], rule that) (use conv 1 in simp_all)
    next
      case 2
      show ?thesis
        by (rule receive_failed_ok [OF s(1) len', of "Inr CORRUPT_DATA"], rule that) (use conv 2 in simp_all)
    next
      case 3
      have "byte_order s0 = ?h" using s(1) by (simp add: conn_frame_def)
      then have "received s0 buf0 RTR_SUCCESS (p @ ?r) s"
        unfolding received_def using s ver p(2) eqs len' 3 by (auto intro!: exI [of _ p])
      then show ?thesis by (intro that) (use conv 3 in auto)
    qed
  qed
qed

lemma conn_frame_rx:
  assumes "conn_frame s0 s" "io = (tr_socket s)\<lparr>rx := evs\<rparr>" "rx_size evs \<le> rx_size (rx (tr_socket s))"
  shows "conn_frame s0 (s\<lparr>tr_socket := io\<rparr>)"
  using assms by (auto simp: conn_frame_def)

lemma receive_payload_ok:
  assumes buf: "RTR_MAX_PDU_LEN \<le> length buf" "length buf = length buf0" "drop 8 buf = drop 8 buf0"
    and hd: "length header = 8" "len = field32 (byte_order s) 4 header" "8 \<le> len" "len \<le> RTR_MAX_PDU_LEN"
    and s: "conn_frame s0 s" "state s = state s0" "has_received_pdus s" "rx_size (rx (tr_socket s)) < rx_size (rx (tr_socket s0))"
    and ver: "pdu_type_of (header ! 1) \<noteq> ERROR \<longrightarrow> ucast (header ! 0) = version s"
  obtains rv buf' s' where
    "receive_payload s buf header len (pdu_type_of (header ! 1)) (header ! 0) = Some (rv, buf', s')"
    "received s0 buf0 rv buf' s'"
proof (cases "len - 8 > 0 \<and> state s = RTR_SHUTDOWN")
  case True
  then have "receive_payload s buf header len (pdu_type_of (header ! 1)) (header ! 0) = Some (RTR_ERROR, buf, s)"
    by (simp add: receive_payload_def)
  moreover have "received s0 buf0 RTR_ERROR buf s" using s(1) buf by (simp add: received_def)
  ultimately show ?thesis by (rule that)
next
  case False
  obtain err got io where recv: "(if len - 8 > 0 then tr_recv_all (tr_socket s) (len - 8) else (0, [], tr_socket s)) = (err, got, io)"
    by (cases "if len - 8 > 0 then tr_recv_all (tr_socket s) (len - 8) else (0, [], tr_socket s)") auto
  have "\<exists>evs. io = (tr_socket s)\<lparr>rx := evs\<rparr> \<and> rx_size evs \<le> rx_size (rx (tr_socket s)) \<and> length got \<le> len - 8 \<and>
      (0 \<le> err \<longrightarrow> length got = len - 8)"
  proof (cases "len - 8 > 0")
    case True
    then have "tr_recv_all (tr_socket s) (len - 8) = (err, got, io)" using recv by simp
    then show ?thesis by (rule tr_recv_all_bounds) blast
  qed (use recv in \<open>auto intro!: exI [of _ "rx (tr_socket s)"]\<close>)
  then obtain evs where io: "io = (tr_socket s)\<lparr>rx := evs\<rparr>" "rx_size evs \<le> rx_size (rx (tr_socket s))"
    "length got \<le> len - 8" "0 \<le> err \<Longrightarrow> length got = len - 8" by blast
  let ?s = "s\<lparr>tr_socket := io\<rparr>" and ?buf = "take 8 buf @ got @ drop (8 + length got) buf"
  have frame: "conn_frame s0 ?s" by (rule conn_frame_rx [OF s(1) io(1,2)])
  have wr: "write_at 8 got buf = Some ?buf" "length ?buf = length buf0" "8 \<le> length ?buf"
    using io(3) hd buf by (auto simp: write_at_def)
  note payload = receive_payload_def Let_def if_not_P [OF False] recv prod.case wr(1) Option.bind_lunit
  show ?thesis
  proof (cases "err < 0")
    case True
    show ?thesis
      by (rule receive_failed_ok [OF frame wr(2,3), of "Inl err"], rule that)
        (unfold payload, simp_all add: True)
  next
    case ok: False
    then have got: "length got = len - 8" using io(4) by simp
    let ?q = "header @ got"
    have q: "length ?q = len" "field32 (byte_order ?s) 4 ?q = length ?q" "?q ! 0 = header ! 0" "?q ! 1 = header ! 1"
      using got hd by (auto simp: field32_def nth_append)
    have "drop len buf = drop len buf0"
      using arg_cong [OF buf(3), of "drop (len - 8)"] hd(3) by simp
    then have wr2: "write_at 0 header ?buf = Some (?q @ drop (length ?q) buf0)"
      "length (?q @ drop (length ?q) buf0) = length buf0"
      using got hd buf by (simp_all add: write_at_def)
    have bounds: "length ?q \<le> RTR_MAX_PDU_LEN" "8 \<le> length ?q" using q(1) hd by simp_all
    have s': "state ?s = state s0" "has_received_pdus ?s" "rx_size (rx (tr_socket ?s)) < rx_size (rx (tr_socket s0))"
      using s io by auto
    have ver': "pdu_type_of (?q ! 1) \<noteq> ERROR \<longrightarrow> ucast (?q ! 0) = version ?s" using ver q(3,4) by simp
    show ?thesis
      by (rule receive_checked [OF bounds q(2) refl wr2(2) frame s' ver'], rule that)
        (unfold payload if_not_P [OF ok] wr2(1) Option.bind_lunit q(1,3,4), assumption+)
  qed
qed

lemma live_downgrade_frame:
  "conn_frame s (live_downgrade s type ver)" "state (live_downgrade s type ver) = state s"
  "has_received_pdus (live_downgrade s type ver)" "tr_socket (live_downgrade s type ver) = tr_socket s"
  "byte_order (live_downgrade s type ver) = byte_order s"
  by (auto simp: live_downgrade_def conn_frame_def)

text \<open>The receiver behind the header.\<close>

lemma receive_header_ok:
  assumes buf: "RTR_MAX_PDU_LEN \<le> length buf" "length buf = length buf0" "drop 8 buf = drop 8 buf0"
    and s: "conn_frame s0 s" "state s = state s0" "rx_size (rx (tr_socket s)) < rx_size (rx (tr_socket s0))"
    and header: "length header = 8"
  obtains rv buf' s' where
    "(let len = field32 (byte_order s) 4 header; type = pdu_type_of (header ! 1); ver = header ! 0 in
      if len < 8 then receive_failed s buf (Inr CORRUPT_DATA)
      else if len > RTR_MAX_PDU_LEN then receive_failed s buf (Inr PDU_TOO_BIG)
      else let s = live_downgrade s type ver in
        if ucast ver \<noteq> version s \<and> type \<noteq> ERROR then receive_failed s buf (Inr UNEXPECTED_PROTOCOL_VERSION)
        else receive_payload s buf header len type ver) = Some (rv, buf', s')"
    "received s0 buf0 rv buf' s'"
proof -
  define len where "len = field32 (byte_order s) 4 header"
  have buf8: "8 \<le> length buf" using buf(1) by (simp add: RTR_MAX_PDU_LEN_def)
  let ?s = "live_downgrade s (pdu_type_of (header ! 1)) (header ! 0)"
  note live = live_downgrade_frame [of s "pdu_type_of (header ! 1)" "header ! 0"]
  have frame: "conn_frame s0 ?s" by (rule conn_frame_trans [OF s(1) live(1)])
  consider "len < 8" | "\<not> len < 8" "len > RTR_MAX_PDU_LEN"
    | "\<not> len < 8" "\<not> len > RTR_MAX_PDU_LEN" "ucast (header ! 0) \<noteq> version ?s \<and> pdu_type_of (header ! 1) \<noteq> ERROR"
    | "\<not> len < 8" "\<not> len > RTR_MAX_PDU_LEN" "\<not> (ucast (header ! 0) \<noteq> version ?s \<and> pdu_type_of (header ! 1) \<noteq> ERROR)"
    by blast
  then show ?thesis
  proof cases
    case 1
    show ?thesis
      by (rule receive_failed_ok [OF s(1) buf(2) buf8, of "Inr CORRUPT_DATA"], rule that)
        (unfold Let_def, use 1 in \<open>simp_all add: len_def\<close>)
  next
    case 2
    show ?thesis
      by (rule receive_failed_ok [OF s(1) buf(2) buf8, of "Inr PDU_TOO_BIG"], rule that)
        (unfold Let_def, use 2 in \<open>simp_all add: len_def\<close>)
  next
    case 3
    show ?thesis
      by (rule receive_failed_ok [OF frame buf(2) buf8, of "Inr UNEXPECTED_PROTOCOL_VERSION"], rule that)
        (unfold Let_def, use 3 in \<open>simp_all add: len_def\<close>)
  next
    case 4
    then have bounds: "8 \<le> len" "len \<le> RTR_MAX_PDU_LEN" by simp_all
    have s': "state ?s = state s0" "rx_size (rx (tr_socket ?s)) < rx_size (rx (tr_socket s0))" using live s by simp_all
    have len: "len = field32 (byte_order ?s) 4 header" using live by (simp add: len_def)
    have ver: "pdu_type_of (header ! 1) \<noteq> ERROR \<longrightarrow> ucast (header ! 0) = version ?s" using 4(3) by blast
    show ?thesis
      by (rule receive_payload_ok [OF buf header len bounds frame s'(1) live(3) s'(2) ver], rule that)
        (unfold Let_def len_def [symmetric] if_not_P [OF 4(1)] if_not_P [OF 4(2)] if_not_P [OF 4(3)], assumption+)
  qed
qed

lemma rtr_receive_pdu_ok:
  assumes buf: "RTR_MAX_PDU_LEN \<le> length buf"
  obtains rv buf' s' where "rtr_receive_pdu s buf = Some (rv, buf', s')" "received s buf rv buf' s'"
proof (cases "state s = RTR_SHUTDOWN")
  case True
  then have "rtr_receive_pdu s buf = Some (RTR_ERROR, buf, s)" using buf by (simp add: rtr_receive_pdu_def)
  then show ?thesis by (rule that) (simp add: received_def)
next
  case False
  obtain err got io where recv: "tr_recv_all (tr_socket s) 8 = (err, got, io)"
    by (cases "tr_recv_all (tr_socket s) 8") auto
  then obtain evs where io: "io = (tr_socket s)\<lparr>rx := evs\<rparr>" "rx_size evs \<le> rx_size (rx (tr_socket s))" "length got \<le> 8"
    "0 \<le> err \<Longrightarrow> length got = 8" "0 \<le> err \<Longrightarrow> rx_size evs < rx_size (rx (tr_socket s))"
    by (rule tr_recv_all_bounds) simp
  let ?s = "s\<lparr>tr_socket := io\<rparr>" and ?buf = "got @ drop (length got) buf"
  have frame: "conn_frame s ?s" by (rule conn_frame_rx [OF conn_frame_refl io(1,2)])
  have buf8: "8 \<le> length buf" using buf by (simp add: RTR_MAX_PDU_LEN_def)
  have wr: "write_at 0 got buf = Some ?buf" "length ?buf = length buf" "8 \<le> length ?buf"
    using io(3) buf8 by (simp_all add: write_at_def)
  have eq: "rtr_receive_pdu s buf =
    (if err < 0 then receive_failed ?s ?buf (Inl err)
     else do {
       header \<leftarrow> rtr_pdu_header_to_host_byte_order (byte_order ?s) (take 8 ?buf);
       len \<leftarrow> get32 (byte_order ?s) 4 header; type \<leftarrow> rtr_get_pdu_type header; ver \<leftarrow> get8 0 header;
       if unat len < 8 then receive_failed ?s ?buf (Inr CORRUPT_DATA)
       else if unat len > RTR_MAX_PDU_LEN then receive_failed ?s ?buf (Inr PDU_TOO_BIG)
       else let s = live_downgrade ?s type ver in
         if ucast ver \<noteq> version s \<and> type \<noteq> ERROR then receive_failed s ?buf (Inr UNEXPECTED_PROTOCOL_VERSION)
         else receive_payload s ?buf header (unat len) type ver })"
    using buf False by (simp add: rtr_receive_pdu_def recv wr(1) Let_def del: take_append)
  show ?thesis
  proof (cases "err < 0")
    case True
    show ?thesis by (rule receive_failed_ok [OF frame wr(2,3), of "Inl err"], rule that) (use eq True in simp_all)
  next
    case ok: False
    let ?hd = "swap_header (byte_order ?s) (take 8 ?buf)"
    have header: "length ?hd = 8" using wr(3) by (simp add: swap_header_simps(1) del: take_append)
    have conv: "rtr_pdu_header_to_host_byte_order (byte_order ?s) (take 8 ?buf) = Some ?hd"
      using wr(3) by (simp add: rtr_pdu_header_to_host_byte_order_def convert_header_swap del: take_append)
    have fields: "get32 (byte_order ?s) 4 ?hd = Some (of_nat (field32 (byte_order ?s) 4 ?hd))"
      "rtr_get_pdu_type ?hd = Some (pdu_type_of (?hd ! 1))" "get8 0 ?hd = Some (?hd ! 0)"
      using header by (simp_all add: get32_Some rtr_get_pdu_type_def get8_def del: take_append)
    have bufs: "RTR_MAX_PDU_LEN \<le> length ?buf" "drop 8 ?buf = drop 8 buf"
      "state ?s = state s" "rx_size (rx (tr_socket ?s)) < rx_size (rx (tr_socket s))"
      using buf wr(2) io ok by simp_all
    show ?thesis
      by (rule receive_header_ok [OF bufs(1) wr(2) bufs(2) frame bufs(3,4) header], rule that)
        (unfold eq if_not_P [OF ok] conv fields Option.bind_lunit unat_field32 Let_def, assumption+)
  qed
qed

lemma live_downgrade_same: "version s = ucast ver \<Longrightarrow> live_downgrade s type ver = s\<lparr>has_received_pdus := True\<rparr>"
  by (cases s) (auto simp: live_downgrade_def)

lemma receive_payload_wf:
  assumes wf: "pdu_wf (byte_order r) p"
    and half: "half = swap_all (byte_order r) (footer_fields (byte_order r) p) p"
    and r: "state r \<noteq> RTR_SHUTDOWN" "avail (rx (tr_socket r)) = drop 8 half @ rest"
    and aspa: "pdu_type_of (p ! 1) = ASPA \<longrightarrow> p ! 0 = 2 \<and> length p mod 4 = 0"
    and buf: "RTR_MAX_PDU_LEN \<le> length buf" "8 \<le> length buf" "drop 8 buf = drop 8 buf0"
  obtains evs where
    "receive_payload r buf (take 8 half) (length p) (pdu_type_of (p ! 1)) (p ! 0) =
       Some (RTR_SUCCESS, p @ drop (length p) buf0, r\<lparr>tr_socket := (tr_socket r)\<lparr>rx := evs\<rparr>\<rparr>)"
    "avail evs = rest" "ending evs = ending (rx (tr_socket r))"
proof -
  have len: "length half = length p" "8 \<le> length p" "length p \<le> RTR_MAX_PDU_LEN"
    using half_header(2) [OF wf] wf half by (simp_all add: pdu_wf_def)
  have "length p - 8 \<le> length (avail (rx (tr_socket r)))" using r(2) len by simp
  then obtain evs where recv:
    "tr_recv_all (tr_socket r) (length p - 8) = (int (length p - 8), drop 8 half, (tr_socket r)\<lparr>rx := evs\<rparr>)"
    and evs: "avail evs = rest" "ending evs = ending (rx (tr_socket r))"
    by (rule tr_recv_all_ok) (use r(2) len in simp)
  have recv': "(if length p - 8 > 0 then tr_recv_all (tr_socket r) (length p - 8) else (0, [], tr_socket r)) =
     (int (length p - 8), drop 8 half, (tr_socket r)\<lparr>rx := evs\<rparr>)" if "length p - 8 > 0"
    using recv that by simp
  show ?thesis
  proof (cases "length p - 8 > 0")
    case True
    let ?r = "r\<lparr>tr_socket := (tr_socket r)\<lparr>rx := evs\<rparr>\<rparr>"
    have n: "\<not> (length p - 8 > 0 \<and> state r = RTR_SHUTDOWN)" using r(1) by simp
    have d: "drop (length p) buf = drop (length p) buf0"
      using arg_cong [OF buf(3), of "drop (length p - 8)"] len(2) by simp
    have w1: "write_at 8 (drop 8 half) buf = Some (take 8 buf @ drop 8 half @ drop (length p) buf)"
      using buf len by (simp add: write_at_def)
    have w2: "write_at 0 (take 8 half) (take 8 buf @ drop 8 half @ drop (length p) buf) = Some (half @ drop (length p) buf0)"
      using buf(2) len d by (simp add: write_at_def append_assoc [symmetric] del: append_assoc)
    note ok = half_of_wf [OF wf half]
    have "receive_payload r buf (take 8 half) (length p) (pdu_type_of (p ! 1)) (p ! 0) =
      Some (RTR_SUCCESS, p @ drop (length p) buf0, ?r)"
      unfolding receive_payload_def Let_def if_not_P [OF n] recv' [OF True] prod.case w1 w2 Option.bind_lunit
      using check_size_append [OF ok(1), of "drop (length p) buf0"] footer_append [OF ok(2), of "drop (length p) buf0"] aspa
      by auto
    then show ?thesis using that evs by blast
  next
    case False
    then have p: "length p = 8" "half = take 8 half" "drop 8 half = []" using len by simp_all
    have w: "write_at 8 [] buf = Some buf" "write_at 0 (take 8 half) buf = Some (half @ drop (length p) buf0)"
      using buf p len append_take_drop_id [of 8 buf] by (simp_all add: write_at_def)
    note ok = half_of_wf [OF wf half]
    have "receive_payload r buf (take 8 half) (length p) (pdu_type_of (p ! 1)) (p ! 0) =
      Some (RTR_SUCCESS, p @ drop (length p) buf0, r)"
      using False w check_size_append [OF ok(1), of "drop (length p) buf0"] footer_append [OF ok(2), of "drop (length p) buf0"] aspa
      by (auto simp: receive_payload_def)
    moreover have "r = r\<lparr>tr_socket := (tr_socket r)\<lparr>rx := rx (tr_socket r)\<rparr>\<rparr>" by simp
    ultimately show ?thesis using that [of "rx (tr_socket r)"] r(2) p by simp
  qed
qed

definition network_bytes :: "host_order \<Rightarrow> u8 list \<Rightarrow> u8 list" where
  "network_bytes h p = swap_header h (swap_all h (footer_fields h p) p)"

lemma receive_header:
  assumes buf: "RTR_MAX_PDU_LEN \<le> length buf" and s: "state s \<noteq> RTR_SHUTDOWN"
    and rx: "avail (rx (tr_socket s)) = q @ rest" "length q = 8"
  obtains evs where
    "rtr_receive_pdu s buf =
      (let s = s\<lparr>tr_socket := (tr_socket s)\<lparr>rx := evs\<rparr>\<rparr>; buf = q @ drop 8 buf; header = swap_header (byte_order s) q;
           len = field32 (byte_order s) 4 header; type = pdu_type_of (q ! 1); ver = q ! 0 in
       if len < 8 then receive_failed s buf (Inr CORRUPT_DATA)
       else if len > RTR_MAX_PDU_LEN then receive_failed s buf (Inr PDU_TOO_BIG)
       else let s = live_downgrade s type ver in
         if ucast ver \<noteq> version s \<and> type \<noteq> ERROR then receive_failed s buf (Inr UNEXPECTED_PROTOCOL_VERSION)
         else receive_payload s buf header len type ver)"
    "avail evs = rest" "ending evs = ending (rx (tr_socket s))"
proof -
  have "8 \<le> length (avail (rx (tr_socket s)))" using rx by simp
  then obtain evs where recv: "tr_recv_all (tr_socket s) 8 = (8, q, (tr_socket s)\<lparr>rx := evs\<rparr>)"
    and evs: "avail evs = rest" "ending evs = ending (rx (tr_socket s))"
    by (rule tr_recv_all_ok) (use rx in simp)
  have buf8: "8 \<le> length buf" using buf by (simp add: RTR_MAX_PDU_LEN_def)
  let ?hd = "swap_header (byte_order s) q"
  have hd: "length ?hd = 8" "?hd ! 0 = q ! 0" "?hd ! 1 = q ! 1" using rx(2) swap_header_simps(1-3) [of q "byte_order s"] by simp_all
  then have fields: "get32 (byte_order s) 4 ?hd = Some (of_nat (field32 (byte_order s) 4 ?hd))"
    "rtr_get_pdu_type ?hd = Some (pdu_type_of (q ! 1))" "get8 0 ?hd = Some (q ! 0)"
    "rtr_pdu_header_to_host_byte_order (byte_order s) q = Some ?hd"
    using rx(2) by (simp_all add: get32_Some rtr_get_pdu_type_def get8_def rtr_pdu_header_to_host_byte_order_def convert_header_swap)
  show ?thesis
    by (rule that [OF _ evs])
      (use buf s rx(2) buf8 fields in \<open>simp add: rtr_receive_pdu_def recv write_at_def Let_def\<close>)
qed

lemma receive_wf:
  assumes wf: "pdu_wf (byte_order r) p"
    and r: "state r \<noteq> RTR_SHUTDOWN" "version r = ucast (p ! 0)" "avail (rx (tr_socket r)) = network_bytes (byte_order r) p @ rest"
    and aspa: "pdu_type_of (p ! 1) = ASPA \<longrightarrow> p ! 0 = 2 \<and> length p mod 4 = 0"
    and buf: "RTR_MAX_PDU_LEN \<le> length buf"
  obtains evs where "rtr_receive_pdu r buf = Some (RTR_SUCCESS, p @ drop (length p) buf,
      r\<lparr>tr_socket := (tr_socket r)\<lparr>rx := evs\<rparr>, has_received_pdus := True\<rparr>)"
    "avail evs = rest" "ending evs = ending (rx (tr_socket r))"
proof -
  let ?h = "byte_order r" let ?half = "swap_all ?h (footer_fields ?h p) p" and ?q = "network_bytes ?h p"
  have len: "length ?half = length p" "8 \<le> length p" "length p \<le> RTR_MAX_PDU_LEN" "8 \<le> length ?half"
    using half_header(2) [OF wf] wf by (simp_all add: pdu_wf_def)
  note sh = swap_header_simps [OF len(4), of ?h]
  have "8 \<le> length ?q" using sh len by (simp add: network_bytes_def)
  note sh2 = swap_header_simps [OF this, of ?h]
  have hd: "swap_header ?h (take 8 ?q) = take 8 ?half"
  proof -
    have "swap_header ?h (take 8 ?q) @ drop 8 ?q = ?half" using sh2(5) sh(6) by (simp add: network_bytes_def)
    moreover have "length (swap_header ?h (take 8 ?q)) = 8"
      using \<open>8 \<le> length ?q\<close> swap_header_simps(1) [of "take 8 ?q" ?h] by simp
    ultimately show ?thesis by (metis append_eq_conv_conj)
  qed
  have nth: "take 8 ?q ! 0 = p ! 0" "take 8 ?q ! 1 = p ! 1"
    using sh(2,3) half_header(3) [OF wf] by (simp_all add: network_bytes_def)
  have flen: "field32 ?h 4 (take 8 ?half) = length p"
    using half_header(4) [OF wf] by (simp add: field32_def drop_take)
  have "avail (rx (tr_socket r)) = take 8 ?q @ (drop 8 ?half @ rest)"
    using r(3) sh(4) by (simp add: network_bytes_def append_assoc [symmetric] del: append_assoc) (metis append_take_drop_id)
  then obtain evs where recv: "rtr_receive_pdu r buf =
      (let s = r\<lparr>tr_socket := (tr_socket r)\<lparr>rx := evs\<rparr>\<rparr>; buf = take 8 ?q @ drop 8 buf; header = swap_header (byte_order s) (take 8 ?q);
           len = field32 (byte_order s) 4 header; type = pdu_type_of (take 8 ?q ! 1); ver = take 8 ?q ! 0 in
       if len < 8 then receive_failed s buf (Inr CORRUPT_DATA)
       else if len > RTR_MAX_PDU_LEN then receive_failed s buf (Inr PDU_TOO_BIG)
       else let s = live_downgrade s type ver in
         if ucast ver \<noteq> version s \<and> type \<noteq> ERROR then receive_failed s buf (Inr UNEXPECTED_PROTOCOL_VERSION)
         else receive_payload s buf header len type ver)"
    and evs: "avail evs = drop 8 ?half @ rest" "ending evs = ending (rx (tr_socket r))"
    by (rule receive_header [OF buf r(1)]) (use \<open>8 \<le> length ?q\<close> in simp)
  let ?r = "r\<lparr>tr_socket := (tr_socket r)\<lparr>rx := evs\<rparr>, has_received_pdus := True\<rparr>" and ?buf = "take 8 ?q @ drop 8 buf"
  have wf': "pdu_wf (byte_order ?r) p" using wf by simp
  have half': "?half = swap_all (byte_order ?r) (footer_fields (byte_order ?r) p) p" by simp
  have r': "state ?r \<noteq> RTR_SHUTDOWN" "avail (rx (tr_socket ?r)) = drop 8 ?half @ rest" using r(1) evs by simp_all
  have buf8: "8 \<le> length buf" using buf by (simp add: RTR_MAX_PDU_LEN_def)
  have buf': "RTR_MAX_PDU_LEN \<le> length ?buf" "8 \<le> length ?buf" "drop 8 ?buf = drop 8 buf"
    using buf buf8 \<open>8 \<le> length ?q\<close> by simp_all
  obtain evs' where pay: "receive_payload ?r ?buf (take 8 ?half) (length p) (pdu_type_of (p ! 1)) (p ! 0) =
       Some (RTR_SUCCESS, p @ drop (length p) buf, ?r\<lparr>tr_socket := (tr_socket ?r)\<lparr>rx := evs'\<rparr>\<rparr>)"
    and evs': "avail evs' = rest" "ending evs' = ending (rx (tr_socket ?r))"
    by (rule receive_payload_wf [OF wf' half' r' aspa buf'])
  have "rtr_receive_pdu r buf = receive_payload ?r ?buf (take 8 ?half) (length p) (pdu_type_of (p ! 1)) (p ! 0)"
    using recv hd nth flen len r(2)
    by (simp add: Let_def live_downgrade_same del: nth_take)
  then show ?thesis using pay evs evs' by (intro that [of evs']) simp_all
qed

text \<open>Whatever is sent, only the outgoing side of the transport is used.\<close>

lemma send_pdu_frame:
  assumes "rtr_send_pdu s pdu = Some (rv, s')"
  shows "send_frame s s'"
proof -
  obtain q where q: "rtr_pdu_to_network_byte_order (byte_order s) pdu = Some q"
    using assms by (auto simp: rtr_send_pdu_def elim: bind_SomeE)
  show ?thesis
  proof (cases "state s = RTR_SHUTDOWN")
    case True
    then show ?thesis using assms q by (simp add: rtr_send_pdu_def)
  next
    case False
    obtain r io where io: "tr_send_all (tr_socket s) q = (r, io)" by fastforce
    obtain k evs where "io = (tr_socket s)\<lparr>tx := evs, wire := wire (tr_socket s) @ take k q\<rparr>"
      using tr_send_all_stream [OF io] by blast
    moreover have "s' = s\<lparr>tr_socket := io\<rparr>" using assms q False io by (simp add: rtr_send_pdu_def)
    ultimately show ?thesis unfolding send_frame_def by blast
  qed
qed

lemma send_error_pdu_frame: "rtr_send_error_pdu s enc err msg = Some (rv, s') \<Longrightarrow> send_frame s s'"
  by (auto simp: rtr_send_error_pdu_def Let_def split: if_splits dest: send_pdu_frame)

lemma send_error_from_host_frame: "rtr_send_error_pdu_from_host s enc err msg = Some (rv, s') \<Longrightarrow> send_frame s s'"
  by (auto simp: rtr_send_error_pdu_from_host_def split: if_splits dest: send_error_pdu_frame elim!: bind_SomeE)

lemma conn_frame_version: "v \<le> version s \<Longrightarrow> st \<in> failure_states \<Longrightarrow> conn_frame s (rtr_change_socket_state (s\<lparr>version := v\<rparr>) st)"
  by (auto simp: conn_frame_def change_state_state may_fail_def)

lemma handle_error_frame: "rtr_handle_error_pdu s buf = Some (rv, s') \<Longrightarrow> conn_frame s s'"
  by (auto simp: rtr_handle_error_pdu_def Let_def conn_frame_version split: if_splits elim!: bind_SomeE)

lemma receive_pdu_received:
  assumes "rtr_receive_pdu s buf = Some (rv, buf', s')"
  shows "received s buf rv buf' s'"
proof -
  have "RTR_MAX_PDU_LEN \<le> length buf" using assms by (auto simp: rtr_receive_pdu_def split: if_splits)
  then show ?thesis using rtr_receive_pdu_ok [of buf s] assms by auto
qed

section \<open>Properties\<close>

text \<open>A socket for the examples: version 1, connected, with the given input.\<close>

definition sample_socket :: "rx_event list \<Rightarrow> rtr_socket" where
  "sample_socket evs =
     \<lparr>self = 1, byte_order = Little_Endian,
      tr_socket = \<lparr>rx = evs, tx = [Tx_Accept 3, Tx_Accept 0], wire = [], opens = [], acts = [], clock = (\<lambda>n. Some (0, 0)), ticks = 0\<rparr>,
      refresh_interval = 3600, last_update = 0, expire_interval = 7200, retry_interval = 600,
      iv_mode = RTR_INTERVAL_MODE_DEFAULT_MIN_MAX, state = RTR_SYNC, session_id = 0, request_session_id = True,
      serial_number = 0, thread_id = 1, connection_state_fp = True, version = 1, has_received_pdus = True,
      is_resetting = False, state_log = []\<rparr>"

text \<open>C8: whatever bytes arrive, in whatever portions and with whatever failures of the transport in
  between, receiving a PDU stays inside the buffer, raises no assertion and ends; its result is never that
  the connection was closed. When it reports success the buffer starts with a well-formed PDU in host byte
  order, of the negotiated version unless it is an Error Report, and the rest of the buffer is untouched;
  the protocol version is never raised.\<close>

theorem receive_pdu_safe:
  assumes "length buf = RTR_MAX_PDU_LEN"
  shows "\<exists>rv buf' s'. rtr_receive_pdu s buf = Some (rv, buf', s') \<and> length buf' = length buf \<and>
    rv \<in> {RTR_SUCCESS, RTR_ERROR, RTR_TR_WOULDBLOCK, RTR_TR_INTR} \<and> version s' \<le> version s \<and>
    (rv = RTR_SUCCESS \<longrightarrow>
       (\<exists>p. buf' = p @ drop (length p) buf \<and> pdu_wf (byte_order s) p \<and>
          (pdu_type_of (p ! 1) \<noteq> ERROR \<longrightarrow> ucast (p ! 0) = version s') \<and>
          (pdu_type_of (p ! 1) = ASPA \<longrightarrow> p ! 0 = 2 \<and> length p mod 4 = 0)))"
proof -
  obtain rv buf' s' where "rtr_receive_pdu s buf = Some (rv, buf', s')" "received s buf rv buf' s'"
    using rtr_receive_pdu_ok [of buf s] assms by auto
  then show ?thesis by (auto simp: received_def conn_frame_def)
qed

theorem receive_pdu_safe_witness:
  "\<exists>rv buf' s'. rtr_receive_pdu (sample_socket [Rx_Bytes [1, 10], Rx_Fail Tr_Closed]) (replicate RTR_MAX_PDU_LEN 0) = Some (rv, buf', s') \<and>
    length buf' = RTR_MAX_PDU_LEN"
  using receive_pdu_safe [of "replicate RTR_MAX_PDU_LEN 0" "sample_socket [Rx_Bytes [1, 10], Rx_Fail Tr_Closed]"]
  by auto

text \<open>C16: a well-formed PDU that one socket sends is what another one receives: however the sending
  transport splits it and in whatever portions it arrives, the receiver of the same version finds exactly
  the sender's PDU at the start of its buffer, and the bytes that follow it stay in the stream.\<close>

theorem send_receive_roundtrip:
  assumes "pdu_wf (byte_order s) p" "state s \<noteq> RTR_SHUTDOWN" "Tx_Fail ` UNIV \<inter> set (tx (tr_socket s)) = {}"
    and "pdu_type_of (p ! 1) = ASPA \<longrightarrow> p ! 0 = 2 \<and> length p mod 4 = 0"
    and "byte_order r = byte_order s" "state r \<noteq> RTR_SHUTDOWN" "version r = ucast (p ! 0)" "length buf = RTR_MAX_PDU_LEN"
  shows "\<exists>q s'. rtr_send_pdu s p = Some (RTR_SUCCESS, s') \<and> wire (tr_socket s') = wire (tr_socket s) @ q \<and>
    (avail (rx (tr_socket r)) = q @ rest \<longrightarrow>
      (\<exists>r'. rtr_receive_pdu r buf = Some (RTR_SUCCESS, p @ drop (length p) buf, r') \<and> avail (rx (tr_socket r')) = rest))"
proof -
  obtain rv s' where send: "rtr_send_pdu s p = Some (rv, s')" "rv = RTR_SUCCESS"
    "wire (tr_socket s') = wire (tr_socket s) @ network_bytes (byte_order s) p"
    by (rule send_pdu_ok [OF assms(1)]) (use assms(2,3) in \<open>auto simp: network_bytes_def\<close>)
  moreover have "\<exists>r'. rtr_receive_pdu r buf = Some (RTR_SUCCESS, p @ drop (length p) buf, r') \<and> avail (rx (tr_socket r')) = rest"
    if "avail (rx (tr_socket r)) = network_bytes (byte_order s) p @ rest"
    by (rule receive_wf [of r p rest buf]) (use assms that in auto)
  ultimately show ?thesis by auto
qed

theorem send_receive_roundtrip_witness:
  "\<exists>q s'. rtr_send_pdu (sample_socket []) (pdu_serial_query Little_Endian 1 7 42) = Some (RTR_SUCCESS, s') \<and>
    wire (tr_socket s') = wire (tr_socket (sample_socket [])) @ q \<and>
    (avail (rx (tr_socket (sample_socket [Rx_Bytes [1, 1, 0, 7, 0], Rx_Bytes [], Rx_Bytes [0, 0, 12, 0, 0, 0, 42, 1]]))) = q @ [1] \<longrightarrow>
      (\<exists>r'. rtr_receive_pdu (sample_socket [Rx_Bytes [1, 1, 0, 7, 0], Rx_Bytes [], Rx_Bytes [0, 0, 12, 0, 0, 0, 42, 1]])
          (replicate RTR_MAX_PDU_LEN 0) =
          Some (RTR_SUCCESS, pdu_serial_query Little_Endian 1 7 42 @
            drop (length (pdu_serial_query Little_Endian 1 7 42)) (replicate RTR_MAX_PDU_LEN 0), r') \<and> avail (rx (tr_socket r')) = [1]))"
  by (rule send_receive_roundtrip)
    (auto simp: sample_socket_def pdu_serial_query_def pdu_wf_def pdu_type_of_def field32_def dec32_def enc32_def enc16_def
      be_bytes16_def be_bytes32_def RTR_MAX_PDU_LEN_def)

text \<open>C24: an Error Report never exceeds the maximum PDU size, however long the PDU it reports: as much of
  that PDU as fits is enclosed, and what goes out is a well-formed Error Report whose two inner lengths are
  those of what it encloses.\<close>

theorem error_report_fits:
  assumes "length msg + 20 \<le> RTR_MAX_PDU_LEN" "state s \<noteq> RTR_SHUTDOWN" "Tx_Fail ` UNIV \<inter> set (tx (tr_socket s)) = {}"
    and "rtr_get_pdu_type enc \<noteq> Some ERROR"
  shows "\<exists>n q s'. rtr_send_error_pdu s enc err msg = Some (RTR_SUCCESS, s') \<and>
    pdu_wf (byte_order s) (pdu_error (byte_order s) (ucast (version s)) err (take n enc) msg) \<and>
    length (pdu_error (byte_order s) (ucast (version s)) err (take n enc) msg) =
      min RTR_MAX_PDU_LEN (16 + length enc + length msg) \<and>
    rtr_pdu_to_network_byte_order (byte_order s) (pdu_error (byte_order s) (ucast (version s)) err (take n enc) msg) = Some q \<and>
    wire (tr_socket s') = wire (tr_socket s) @ q"
proof -
  let ?size = "16 + length enc + length msg"
  define n where "n = (if ?size > RTR_MAX_PDU_LEN then length enc - (?size - RTR_MAX_PDU_LEN) else length enc)"
  let ?p = "pdu_error (byte_order s) (ucast (version s)) err (take n enc) msg"
  have small: "16 + length (take n enc) + length msg \<le> RTR_MAX_PDU_LEN" using assms(1) by (auto simp: n_def)
  note wf = pdu_error_wf [OF small, of "byte_order s" "ucast (version s)" err]
  have "rtr_send_error_pdu s enc err msg = rtr_send_pdu s ?p"
    using assms(1,4) by (auto simp: rtr_send_error_pdu_def Let_def n_def)
  moreover obtain rv s' where "rtr_send_pdu s ?p = Some (rv, s')" "rv = RTR_SUCCESS"
    "wire (tr_socket s') = wire (tr_socket s) @ swap_header (byte_order s) (swap_all (byte_order s) (footer_fields (byte_order s) ?p) ?p)"
    by (rule send_pdu_ok [OF wf(1)]) (use assms(2,3) in blast)
  moreover have "length ?p = min RTR_MAX_PDU_LEN ?size" using wf(2) assms(1) by (auto simp: n_def)
  ultimately show ?thesis using wf(1) to_network_swap [OF wf(1)] by (intro exI [of _ n]) auto
qed

theorem error_report_fits_witness:
  "\<exists>n q s'. rtr_send_error_pdu (sample_socket []) (replicate RTR_MAX_PDU_LEN 4) DUPLICATE_ANNOUNCEMENT [104, 105, 0] = Some (RTR_SUCCESS, s') \<and>
    pdu_wf (byte_order (sample_socket [])) (pdu_error (byte_order (sample_socket [])) (ucast (version (sample_socket [])))
      DUPLICATE_ANNOUNCEMENT (take n (replicate RTR_MAX_PDU_LEN 4)) [104, 105, 0]) \<and>
    length (pdu_error (byte_order (sample_socket [])) (ucast (version (sample_socket [])))
      DUPLICATE_ANNOUNCEMENT (take n (replicate RTR_MAX_PDU_LEN 4)) [104, 105, 0]) =
      min RTR_MAX_PDU_LEN (16 + length (replicate RTR_MAX_PDU_LEN (4 :: u8)) + length [104, 105, 0 :: u8]) \<and>
    rtr_pdu_to_network_byte_order (byte_order (sample_socket [])) (pdu_error (byte_order (sample_socket []))
      (ucast (version (sample_socket []))) DUPLICATE_ANNOUNCEMENT (take n (replicate RTR_MAX_PDU_LEN 4)) [104, 105, 0]) = Some q \<and>
    wire (tr_socket s') = wire (tr_socket (sample_socket [])) @ q"
proof -
  have "rtr_get_pdu_type (replicate RTR_MAX_PDU_LEN 4) \<noteq> Some ERROR"
    by (simp add: rtr_get_pdu_type_def get8_def pdu_type_of_def RTR_MAX_PDU_LEN_def)
  then show ?thesis
    by (intro error_report_fits) (auto simp: sample_socket_def, simp add: RTR_MAX_PDU_LEN_def)
qed

text \<open>A PDU of another version than the negotiated one (and not an Error Report) is answered with an
  Error Report, but the state of the socket does not change and only the header of the PDU is taken from the
  stream: the next PDU is read from the middle of this one.\<close>

theorem wrong_version_keeps_state:
  assumes "state s \<noteq> RTR_SHUTDOWN" "has_received_pdus s" "length buf = RTR_MAX_PDU_LEN"
    and "avail (rx (tr_socket s)) = [ver, ty, a, b] @ be_bytes32 (of_nat len) @ rest" "8 \<le> len" "len \<le> RTR_MAX_PDU_LEN"
    and "ucast ver \<noteq> version s" "pdu_type_of ty \<noteq> ERROR"
  shows "\<exists>buf' s'. rtr_receive_pdu s buf = Some (RTR_ERROR, buf', s') \<and> state s' = state s \<and> avail (rx (tr_socket s')) = rest"
proof -
  let ?q = "[ver, ty, a, b] @ be_bytes32 (of_nat len)" and ?h = "byte_order s"
  have buf: "RTR_MAX_PDU_LEN \<le> length buf" using assms(3) by simp
  have "take 4 (drop 4 (swap_header ?h ?q)) = in_order ?h (be_bytes32 (of_nat len))"
    by (auto simp: swap_header_def swap_at_def)
  then have len: "field32 ?h 4 (swap_header ?h ?q) = len"
    using assms(6) by (simp add: field32_def dec32_def unat_small)
  have avail: "avail (rx (tr_socket s)) = ?q @ rest" using assms(4) by simp
  obtain evs where recv: "rtr_receive_pdu s buf = receive_failed (s\<lparr>tr_socket := (tr_socket s)\<lparr>rx := evs\<rparr>\<rparr>)
      (?q @ drop 8 buf) (Inr UNEXPECTED_PROTOCOL_VERSION)" "avail evs = rest"
  proof (rule receive_header [OF buf assms(1) avail], simp)
    fix evs
    assume "rtr_receive_pdu s buf =
      (let s = s\<lparr>tr_socket := (tr_socket s)\<lparr>rx := evs\<rparr>\<rparr>; buf = ?q @ drop 8 buf; header = swap_header (byte_order s) ?q;
           len = field32 (byte_order s) 4 header; type = pdu_type_of (?q ! 1); ver = ?q ! 0 in
       if len < 8 then receive_failed s buf (Inr CORRUPT_DATA)
       else if len > RTR_MAX_PDU_LEN then receive_failed s buf (Inr PDU_TOO_BIG)
       else let s = live_downgrade s type ver in
         if ucast ver \<noteq> version s \<and> type \<noteq> ERROR then receive_failed s buf (Inr UNEXPECTED_PROTOCOL_VERSION)
         else receive_payload s buf header len type ver)" "avail evs = rest"
    then show thesis using assms(2,5-8) len by (intro that [of evs]) (simp_all add: Let_def live_downgrade_def)
  qed
  have "length [] + 20 \<le> RTR_MAX_PDU_LEN" by (simp add: RTR_MAX_PDU_LEN_def)
  then obtain rv s' where "rtr_send_error_pdu (s\<lparr>tr_socket := (tr_socket s)\<lparr>rx := evs\<rparr>\<rparr>) (take 8 (?q @ drop 8 buf))
      UNEXPECTED_PROTOCOL_VERSION [] = Some (rv, s')" "send_frame (s\<lparr>tr_socket := (tr_socket s)\<lparr>rx := evs\<rparr>\<rparr>) s'"
    by (rule send_error_pdu_ok)
  then show ?thesis using recv
    by (auto simp: receive_failed_def rtr_send_error_pdu_from_network_def send_frame_def)
qed

theorem wrong_version_keeps_state_witness:
  "\<exists>buf' s'. rtr_receive_pdu (sample_socket [Rx_Bytes [0, 3, 0, 9, 0, 0, 0, 20, 5, 5]]) (replicate RTR_MAX_PDU_LEN 0) =
      Some (RTR_ERROR, buf', s') \<and> state s' = state (sample_socket [Rx_Bytes [0, 3, 0, 9, 0, 0, 0, 20, 5, 5]]) \<and>
      avail (rx (tr_socket s')) = [5, 5]"
  by (rule wrong_version_keeps_state [where ver = 0 and ty = 3 and a = 0 and b = 9 and len = 20])
    (auto simp: sample_socket_def pdu_type_of_def be_bytes32_def RTR_MAX_PDU_LEN_def)

end
