(* ===== verification/Rtr_Records.thy ===== *)
theory Rtr_Records
  imports Rtr_Packets Pfx_Props Spki_Table Aspa_Update
begin

text \<open>
  From PDUs to table records, after \<^verbatim>\<open>rtrlib/rtr/packets.c\<close>: the records that prefix, router key and
  ASPA PDUs stand for, the arrays that collect the PDUs of a synchronisation until End of Data, and
  the application of one PDU, or of a batch of them, to a table and its reversal. The PDUs in an
  array have the size of their struct. A table pointer that may be NULL is an option.
\<close>

section \<open>Records of PDUs\<close>

fun pfx_code :: "rtr_pfx_rtvals \<Rightarrow> int" where
  "pfx_code RTR_PFX_SUCCESS = 0"
| "pfx_code RTR_PFX_ERROR = -1"
| "pfx_code RTR_PFX_DUPLICATE_RECORD = -2"
| "pfx_code RTR_PFX_RECORD_NOT_FOUND = -3"
| "pfx_code RTR_PFX_NOT_INITIALIZED = -4"

fun spki_code :: "rtr_spki_rtvals \<Rightarrow> int" where
  "spki_code RTR_SPKI_SUCCESS = 0"
| "spki_code RTR_SPKI_ERROR = -1"
| "spki_code RTR_SPKI_DUPLICATE_RECORD = -2"
| "spki_code RTR_SPKI_RECORD_NOT_FOUND = -3"

definition rtr_key_pdu_2_spki_record :: "'a rtr_socket_scheme \<Rightarrow> u8 list \<Rightarrow> pdu_type \<Rightarrow> rtr_spki_record option" where
  "rtr_key_pdu_2_spki_record s pdu type =
     (if type \<noteq> ROUTER_KEY then None
      else do {
        asn \<leftarrow> get32 (byte_order s) 28 pdu;
        ski \<leftarrow> get_bytes 8 SKI_SIZE pdu;
        spki \<leftarrow> get_bytes 32 SPKI_SIZE pdu;
        Some \<lparr>sr_ski = ski, sr_asn = asn, sr_spki = spki, sr_socket = self s\<rparr> })"

definition rtr_prefix_pdu_2_pfx_record :: "'a rtr_socket_scheme \<Rightarrow> u8 list \<Rightarrow> pdu_type \<Rightarrow> rtr_pfx_record option" where
  "rtr_prefix_pdu_2_pfx_record s pdu type =
     (let h = byte_order s in
      if type = IPV4_PREFIX then
        do { prefix \<leftarrow> get32 h 12 pdu; asn \<leftarrow> get32 h 16 pdu;
             prefix_len \<leftarrow> get8 9 pdu; max_prefix_len \<leftarrow> get8 10 pdu;
             Some \<lparr>pr_asn = asn, pr_prefix = Ip4 prefix, pr_min_len = unat prefix_len,
                   pr_max_len = unat max_prefix_len, pr_socket = self s\<rparr> }
      else if type = IPV6_PREFIX then
        do { asn \<leftarrow> get32 h 28 pdu;
             a0 \<leftarrow> get32 h 12 pdu; a1 \<leftarrow> get32 h 16 pdu; a2 \<leftarrow> get32 h 20 pdu; a3 \<leftarrow> get32 h 24 pdu;
             prefix_len \<leftarrow> get8 9 pdu; max_prefix_len \<leftarrow> get8 10 pdu;
             Some \<lparr>pr_asn = asn, pr_prefix = Ip6 (Addr6 a0 a1 a2 a3), pr_min_len = unat prefix_len,
                   pr_max_len = unat max_prefix_len, pr_socket = self s\<rparr> }
      else None)"

fun get_words :: "host_order \<Rightarrow> nat \<Rightarrow> nat \<Rightarrow> u8 list \<Rightarrow> u32 list option" where
  "get_words h off 0 pdu = Some []"
| "get_words h off (Suc n) pdu = do { w \<leftarrow> get32 h off pdu; ws \<leftarrow> get_words h (off + 4) n pdu; Some (w # ws) }"

text \<open>The index of the operation is set by the caller.\<close>

definition rtr_aspa_pdu_2_aspa_operation :: "host_order \<Rightarrow> u8 list \<Rightarrow> nat \<Rightarrow> aspa_update_operation option" where
  "rtr_aspa_pdu_2_aspa_operation h pdu i =
     do { flags \<leftarrow> get8 2 pdu;
          let type = (if flags AND 1 = 1 then RTR_ASPA_ADD else RTR_ASPA_REMOVE);
          customer \<leftarrow> get32 h 8 pdu;
          n \<leftarrow> rtr_aspa_provider_count h pdu;
          providers \<leftarrow> (if type = RTR_ASPA_ADD then get_words h 12 n pdu else Some []);
          Some \<lparr>op_index = i, op_type = type,
                op_record = \<lparr>customer_asn = customer, provider_asns = providers\<rparr>, op_is_no_op = False\<rparr> }"

section \<open>Collecting PDUs\<close>

abbreviation (input) TEMPORARY_PDU_STORE_INCREMENT_VALUE :: nat where
  "TEMPORARY_PDU_STORE_INCREMENT_VALUE \<equiv> 100"

text \<open>An array of PDUs: those stored and the number it has room for.\<close>

type_synonym pdu_array = "u8 list list \<times> nat"

definition out_of_memory :: "'a rtr_socket_scheme \<Rightarrow> string \<Rightarrow> (int \<times> 'a rtr_socket_scheme) option" where
  "out_of_memory s msg =
     do { (r, s) \<leftarrow> rtr_send_error_pdu_from_host s [] INTERNAL_ERROR (c_string msg);
          Some (RTR_ERROR, rtr_change_socket_state s RTR_ERROR_FATAL) }"

definition grow_array ::
  "'a rtr_socket_scheme \<Rightarrow> pdu_array \<Rightarrow> mem \<Rightarrow> (int \<times> 'a rtr_socket_scheme \<times> pdu_array \<times> mem) option" where
  "grow_array s arr mem =
     (case arr of (ary, cap) \<Rightarrow>
        if length ary \<ge> cap then
          let cap = cap + TEMPORARY_PDU_STORE_INCREMENT_VALUE; (ok, mem) = rtr_realloc mem in
          if \<not> ok then do { (r, s) \<leftarrow> out_of_memory s ''Realloc failed''; Some (r, s, (ary, cap), mem) }
          else Some (RTR_SUCCESS, s, (ary, cap), mem)
        else Some (RTR_SUCCESS, s, (ary, cap), mem))"

definition rtr_store_prefix_pdu ::
  "'a rtr_socket_scheme \<Rightarrow> u8 list \<Rightarrow> nat \<Rightarrow> pdu_array \<Rightarrow> mem \<Rightarrow> (int \<times> 'a rtr_socket_scheme \<times> pdu_array \<times> mem) option" where
  "rtr_store_prefix_pdu s pdu pdu_size arr mem =
     do { type \<leftarrow> rtr_get_pdu_type pdu;
          if \<not> (type = IPV4_PREFIX \<or> type = IPV6_PREFIX) then None
          else do {
            (r, s, (ary, cap), mem) \<leftarrow> grow_array s arr mem;
            if r = RTR_ERROR then Some (RTR_ERROR, s, (ary, cap), mem)
            else do { bytes \<leftarrow> get_bytes 0 pdu_size pdu; Some (RTR_SUCCESS, s, (ary @ [bytes], cap), mem) } } }"

definition rtr_store_router_key_pdu ::
  "'a rtr_socket_scheme \<Rightarrow> u8 list \<Rightarrow> nat \<Rightarrow> pdu_array \<Rightarrow> mem \<Rightarrow> (int \<times> 'a rtr_socket_scheme \<times> pdu_array \<times> mem) option" where
  "rtr_store_router_key_pdu s pdu pdu_size arr mem =
     do { type \<leftarrow> rtr_get_pdu_type pdu;
          if type \<noteq> ROUTER_KEY then None
          else do {
            (r, s, (ary, cap), mem) \<leftarrow> grow_array s arr mem;
            if r = RTR_ERROR then Some (RTR_ERROR, s, (ary, cap), mem)
            else do { bytes \<leftarrow> get_bytes 0 pdu_size pdu; Some (RTR_SUCCESS, s, (ary @ [bytes], cap), mem) } } }"

definition rtr_store_aspa_pdu ::
  "'a rtr_socket_scheme \<Rightarrow> u8 list \<Rightarrow> pdu_array \<Rightarrow> mem \<Rightarrow> (int \<times> 'a rtr_socket_scheme \<times> pdu_array \<times> mem) option" where
  "rtr_store_aspa_pdu s pdu arr mem =
     do { (r, s, (ary, cap), mem) \<leftarrow> grow_array s arr mem;
          if r = RTR_ERROR then Some (RTR_ERROR, s, (ary, cap), mem)
          else do {
            len \<leftarrow> get32 (byte_order s) 4 pdu;
            let (ok, mem) = rtr_malloc mem;
            if \<not> ok then do { (r, s) \<leftarrow> out_of_memory s ''Malloc failed''; Some (r, s, (ary, cap), mem) }
            else do { bytes \<leftarrow> get_bytes 0 (unat len) pdu; Some (RTR_SUCCESS, s, (ary @ [bytes], cap), mem) } } }"

section \<open>Prefix PDUs\<close>

definition rtr_update_pfx_table ::
  "'a rtr_socket_scheme \<Rightarrow> rtr_pfx_table option \<Rightarrow> u8 list \<Rightarrow> mem
     \<Rightarrow> (int \<times> 'a rtr_socket_scheme \<times> rtr_pfx_table option \<times> mem) option" where
  "rtr_update_pfx_table s tbl pdu mem =
     (if tbl = None then Some (RTR_SUCCESS, s, tbl, mem)
      else do {
        type \<leftarrow> rtr_get_pdu_type pdu;
        pfxr \<leftarrow> rtr_prefix_pdu_2_pfx_record s pdu type;
        flags \<leftarrow> get8 8 pdu;
        if flags = 1 \<or> flags = 0 then
          do {
            (rtval, tbl, mem) \<leftarrow> (if flags = 1 then rtr_pfx_table_add tbl (Some pfxr) mem
                                  else rtr_pfx_table_remove tbl pfxr mem);
            if rtval = RTR_PFX_DUPLICATE_RECORD then
              do { (r, s) \<leftarrow> rtr_send_error_pdu_from_host s pdu DUPLICATE_ANNOUNCEMENT [];
                   Some (RTR_ERROR, rtr_change_socket_state s RTR_ERROR_FATAL, tbl, mem) }
            else if rtval = RTR_PFX_RECORD_NOT_FOUND then
              do { (r, s) \<leftarrow> rtr_send_error_pdu_from_host s pdu WITHDRAWAL_OF_UNKNOWN_RECORD [];
                   Some (RTR_ERROR, rtr_change_socket_state s RTR_ERROR_FATAL, tbl, mem) }
            else if rtval = RTR_PFX_ERROR then
              do { (r, s) \<leftarrow> rtr_send_error_pdu_from_host s [] INTERNAL_ERROR (c_string ''PFX_TABLE Error'');
                   Some (RTR_ERROR, rtr_change_socket_state s RTR_ERROR_FATAL, tbl, mem) }
            else Some (RTR_SUCCESS, s, tbl, mem) }
        else
          do { (r, s) \<leftarrow> rtr_send_error_pdu_from_host s pdu CORRUPT_DATA
                 (c_string ''Prefix PDU with invalid flags value received'');
               Some (RTR_ERROR, s, tbl, mem) } })"

text \<open>Adds what a withdrawal took away and removes what an announcement added.\<close>

definition rtr_undo_update_pfx_table ::
  "'a rtr_socket_scheme \<Rightarrow> rtr_pfx_table option \<Rightarrow> u8 list \<Rightarrow> mem \<Rightarrow> (int \<times> rtr_pfx_table option \<times> mem) option" where
  "rtr_undo_update_pfx_table s tbl pdu mem =
     do { type \<leftarrow> rtr_get_pdu_type pdu;
          pfxr \<leftarrow> rtr_prefix_pdu_2_pfx_record s pdu type;
          flags \<leftarrow> get8 8 pdu;
          if flags = 1 then
            do { (rtval, tbl, mem) \<leftarrow> rtr_pfx_table_remove tbl pfxr mem; Some (pfx_code rtval, tbl, mem) }
          else if flags = 0 then
            do { (rtval, tbl, mem) \<leftarrow> rtr_pfx_table_add tbl (Some pfxr) mem; Some (pfx_code rtval, tbl, mem) }
          else Some (RTR_ERROR, tbl, mem) }"

fun undo_pfx_pdus ::
  "'a rtr_socket_scheme \<Rightarrow> rtr_pfx_table option \<Rightarrow> u8 list list \<Rightarrow> mem \<Rightarrow> (int \<times> rtr_pfx_table option \<times> mem) option" where
  "undo_pfx_pdus s tbl [] mem = Some (RTR_SUCCESS, tbl, mem)"
| "undo_pfx_pdus s tbl (pdu # pdus) mem =
     do { (res, tbl, mem) \<leftarrow> rtr_undo_update_pfx_table s tbl pdu mem;
          if res = RTR_ERROR \<or> res = pfx_code RTR_PFX_ERROR then
            do { (_, tbl, mem) \<leftarrow> rtr_pfx_table_src_remove tbl (self s) mem; Some (RTR_ERROR, tbl, mem) }
          else undo_pfx_pdus s tbl pdus mem }"

definition rtr_undo_update_pfx_table_batch ::
  "'a rtr_socket_scheme \<Rightarrow> rtr_pfx_table option \<Rightarrow> u8 list list \<Rightarrow> u8 list list \<Rightarrow> mem \<Rightarrow> (int \<times> rtr_pfx_table option \<times> mem) option" where
  "rtr_undo_update_pfx_table_batch s tbl ipv4_pdus ipv6_pdus mem =
     do { (r, tbl, mem) \<leftarrow> undo_pfx_pdus s tbl ipv4_pdus mem;
          if r = RTR_ERROR then Some (RTR_ERROR, tbl, mem) else undo_pfx_pdus s tbl ipv6_pdus mem }"

section \<open>Router key PDUs\<close>

definition spki_table_change ::
  "bool \<Rightarrow> rtr_spki_table option \<Rightarrow> rtr_spki_record \<Rightarrow> mem \<Rightarrow> (rtr_spki_rtvals \<times> rtr_spki_table option \<times> mem) option" where
  "spki_table_change add tbl entry mem =
     do { t \<leftarrow> tbl;
          if add then do { (rtval, t, mem) \<leftarrow> spki_table_add_entry t entry mem; Some (rtval, Some t, mem) }
          else do { (rtval, t) \<leftarrow> spki_table_remove_entry t entry; Some (rtval, Some t, mem) } }"

definition rtr_update_spki_table ::
  "'a rtr_socket_scheme \<Rightarrow> rtr_spki_table option \<Rightarrow> u8 list \<Rightarrow> mem
     \<Rightarrow> (int \<times> 'a rtr_socket_scheme \<times> rtr_spki_table option \<times> mem) option" where
  "rtr_update_spki_table s tbl pdu mem =
     (if tbl = None then Some (RTR_SUCCESS, s, tbl, mem)
      else do {
        type \<leftarrow> rtr_get_pdu_type pdu;
        entry \<leftarrow> rtr_key_pdu_2_spki_record s pdu type;
        flags \<leftarrow> get8 2 pdu;
        if flags = 1 \<or> flags = 0 then
          do {
            (rtval, tbl, mem) \<leftarrow> spki_table_change (flags = 1) tbl entry mem;
            if rtval = RTR_SPKI_DUPLICATE_RECORD then
              do { (r, s) \<leftarrow> rtr_send_error_pdu_from_host s pdu DUPLICATE_ANNOUNCEMENT [];
                   Some (RTR_ERROR, rtr_change_socket_state s RTR_ERROR_FATAL, tbl, mem) }
            else if rtval = RTR_SPKI_RECORD_NOT_FOUND then
              do { (r, s) \<leftarrow> rtr_send_error_pdu_from_host s pdu WITHDRAWAL_OF_UNKNOWN_RECORD [];
                   Some (RTR_ERROR, rtr_change_socket_state s RTR_ERROR_FATAL, tbl, mem) }
            else if rtval = RTR_SPKI_ERROR then
              do { (r, s) \<leftarrow> rtr_send_error_pdu_from_host s [] INTERNAL_ERROR (c_string ''spki_table Error'');
                   Some (RTR_ERROR, rtr_change_socket_state s RTR_ERROR_FATAL, tbl, mem) }
            else Some (RTR_SUCCESS, s, tbl, mem) }
        else
          do { (r, s) \<leftarrow> rtr_send_error_pdu_from_host s pdu CORRUPT_DATA
                 (c_string ''Router Key PDU with invalid flags value received'');
               Some (RTR_ERROR, s, tbl, mem) } })"

definition rtr_undo_update_spki_table ::
  "'a rtr_socket_scheme \<Rightarrow> rtr_spki_table option \<Rightarrow> u8 list \<Rightarrow> mem \<Rightarrow> (int \<times> rtr_spki_table option \<times> mem) option" where
  "rtr_undo_update_spki_table s tbl pdu mem =
     do { type \<leftarrow> rtr_get_pdu_type pdu;
          entry \<leftarrow> rtr_key_pdu_2_spki_record s pdu type;
          flags \<leftarrow> get8 2 pdu;
          if flags = 1 then
            do { (rtval, tbl, mem) \<leftarrow> spki_table_change False tbl entry mem; Some (spki_code rtval, tbl, mem) }
          else if flags = 0 then
            do { (rtval, tbl, mem) \<leftarrow> spki_table_change True tbl entry mem; Some (spki_code rtval, tbl, mem) }
          else Some (RTR_ERROR, tbl, mem) }"

fun rtr_undo_update_spki_table_batch ::
  "'a rtr_socket_scheme \<Rightarrow> rtr_spki_table option \<Rightarrow> u8 list list \<Rightarrow> mem \<Rightarrow> (int \<times> rtr_spki_table option \<times> mem) option" where
  "rtr_undo_update_spki_table_batch s tbl [] mem = Some (RTR_SUCCESS, tbl, mem)"
| "rtr_undo_update_spki_table_batch s tbl (pdu # pdus) mem =
     do { (res, tbl, mem) \<leftarrow> rtr_undo_update_spki_table s tbl pdu mem;
          if res = RTR_ERROR \<or> res = spki_code RTR_SPKI_ERROR then
            do { (_, tbl) \<leftarrow> spki_table_src_remove tbl (self s); Some (RTR_ERROR, tbl, mem) }
          else rtr_undo_update_spki_table_batch s tbl pdus mem }"

section \<open>ASPA PDUs\<close>

text \<open>The loop over the PDUs; it ends early, with the Error Report sent, at an announcement without providers.\<close>

fun aspa_operations ::
  "'a rtr_socket_scheme \<Rightarrow> u8 list list \<Rightarrow> nat \<Rightarrow> ('a rtr_socket_scheme + aspa_update_operation list) option" where
  "aspa_operations s [] i = Some (Inr [])"
| "aspa_operations s (pdu # pdus) i =
     do { flags \<leftarrow> get8 2 pdu;
          n \<leftarrow> rtr_aspa_provider_count (byte_order s) pdu;
          if flags AND 1 \<noteq> 0 \<and> n = 0 then
            do { (r, s) \<leftarrow> rtr_send_error_pdu_from_host s pdu INCORRECT_ASPA_PROVIDER_LIST [];
                 Some (Inl (rtr_change_socket_state s RTR_ERROR_FATAL)) }
          else do {
            op \<leftarrow> rtr_aspa_pdu_2_aspa_operation (byte_order s) pdu i;
            ops \<leftarrow> aspa_operations s pdus (i + 1);
            Some (map_sum id (\<lambda>l. op # l) ops) } }"

text \<open>What follows the computation; an error other than the two for a failed operation falls through.\<close>

definition aspa_computed ::
  "'a rtr_socket_scheme \<Rightarrow> u8 list list \<Rightarrow> rtr_aspa_status \<Rightarrow> aspa_update option \<Rightarrow> (int \<times> 'a rtr_socket_scheme) option" where
  "aspa_computed s aspa_pdus res update =
     (case update \<bind> upd_failed_operation of
        Some pos \<Rightarrow>
          (let pdu = aspa_pdus ! op_index (upd_operations (the update) ! pos) in
           if res = RTR_ASPA_DUPLICATE_RECORD then
             do { (r, s) \<leftarrow> rtr_send_error_pdu_from_host s pdu DUPLICATE_ANNOUNCEMENT [];
                  Some (RTR_ERROR, rtr_change_socket_state s RTR_ERROR_FATAL) }
           else if res = RTR_ASPA_RECORD_NOT_FOUND then
             do { (r, s) \<leftarrow> rtr_send_error_pdu_from_host s pdu WITHDRAWAL_OF_UNKNOWN_RECORD [];
                  Some (RTR_ERROR, rtr_change_socket_state s RTR_ERROR_FATAL) }
           else Some (RTR_SUCCESS, s))
      | None \<Rightarrow>
          if res \<noteq> RTR_ASPA_SUCCESS then
            do { (r, s) \<leftarrow> rtr_send_error_pdu_from_host s [] INTERNAL_ERROR (c_string ''aspa_table Error'');
                 Some (RTR_ERROR, rtr_change_socket_state s RTR_ERROR_FATAL) }
          else Some (RTR_SUCCESS, s))"

definition rtr_compute_update_aspa_table ::
  "'a rtr_socket_scheme \<Rightarrow> rtr_aspa_table option \<Rightarrow> u8 list list \<Rightarrow> mem
     \<Rightarrow> (int \<times> 'a rtr_socket_scheme \<times> rtr_aspa_table option \<times> aspa_update option \<times> mem) option" where
  "rtr_compute_update_aspa_table s tbl aspa_pdus mem =
     (case tbl of
        None \<Rightarrow> Some (RTR_SUCCESS, s, None, None, mem)
      | Some t \<Rightarrow>
          if aspa_pdus = [] then Some (RTR_SUCCESS, s, Some t, None, mem)
          else
            let (ok, mem) = rtr_malloc mem in
            if \<not> ok then
              do { (r, s) \<leftarrow> out_of_memory s ''Malloc failed''; Some (r, s, Some t, None, mem) }
            else do {
              ops \<leftarrow> aspa_operations s aspa_pdus 0;
              case ops of
                Inl s \<Rightarrow> Some (RTR_ERROR, s, Some t, None, mem)
              | Inr operations \<Rightarrow>
                  do {
                    (res, t, update, mem) \<leftarrow> aspa_table_update_swap_in_compute t (self s) operations mem;
                    (r, s) \<leftarrow> aspa_computed s aspa_pdus res update;
                    Some (r, s, Some t, update, mem) } })"

end
