(* ===== verification/Rtr_Sync.thy ===== *)
theory Rtr_Sync
  imports Rtr_Records
begin

text \<open>
  One synchronisation with a cache, after \<^verbatim>\<open>rtrlib/rtr/packets.c\<close>: the PDUs between Cache Response and
  End of Data are collected and then applied to the tables as a batch, with the changes undone when
  one of them fails; after a reset they are applied to shadow tables that replace the socket's
  records. The context of the thread is the socket with the tables it points to, the allocation
  script, and the content of the stack that the uninitialised buffers of the functions start with.
  Thread cancellation is not modelled.
\<close>

section \<open>The context\<close>

record rtr_ctx = rtr_socket +
  pfx_table :: "rtr_pfx_table option"
  spki_table :: "rtr_spki_table option"
  aspa_table :: "rtr_aspa_table option"
  allocs :: mem
  stack :: "u8 list"

section \<open>Applying the collected PDUs\<close>

text \<open>The loops over the PDUs; the result names the index of the PDU that failed.\<close>

fun update_pfx_pdus ::
  "'a rtr_socket_scheme \<Rightarrow> rtr_pfx_table option \<Rightarrow> u8 list list \<Rightarrow> nat \<Rightarrow> mem
     \<Rightarrow> (nat option \<times> 'a rtr_socket_scheme \<times> rtr_pfx_table option \<times> mem) option" where
  "update_pfx_pdus s tbl [] i mem = Some (None, s, tbl, mem)"
| "update_pfx_pdus s tbl (pdu # pdus) i mem =
     do { (r, s, tbl, mem) \<leftarrow> rtr_update_pfx_table s tbl pdu mem;
          if r = RTR_ERROR then Some (Some i, s, tbl, mem) else update_pfx_pdus s tbl pdus (i + 1) mem }"

fun update_spki_pdus ::
  "'a rtr_socket_scheme \<Rightarrow> rtr_spki_table option \<Rightarrow> u8 list list \<Rightarrow> nat \<Rightarrow> mem
     \<Rightarrow> (nat option \<times> 'a rtr_socket_scheme \<times> rtr_spki_table option \<times> mem) option" where
  "update_spki_pdus s tbl [] i mem = Some (None, s, tbl, mem)"
| "update_spki_pdus s tbl (pdu # pdus) i mem =
     do { (r, s, tbl, mem) \<leftarrow> rtr_update_spki_table s tbl pdu mem;
          if r = RTR_ERROR then Some (Some i, s, tbl, mem) else update_spki_pdus s tbl pdus (i + 1) mem }"

definition finish_aspa_update ::
  "rtr_aspa_table option \<Rightarrow> aspa_update option \<Rightarrow> bool \<Rightarrow> mem \<Rightarrow> (rtr_aspa_table option \<times> mem) option" where
  "finish_aspa_update tbl update apply_it mem =
     (case update of
        None \<Rightarrow> Some (tbl, mem)
      | Some u \<Rightarrow>
          do { t \<leftarrow> tbl;
               (t, mem) \<leftarrow> (if apply_it then aspa_table_update_swap_in_apply t (Some u) mem
                            else aspa_table_update_swap_in_discard t (Some u) mem);
               Some (Some t, mem) })"

definition sync_failed :: "'a rtr_socket_scheme \<Rightarrow> bool \<Rightarrow> 'a rtr_socket_scheme" where
  "sync_failed s undo_failed =
     rtr_change_socket_state (if undo_failed then s\<lparr>request_session_id := True\<rparr> else s) RTR_ERROR_FATAL"

type_synonym tables = "rtr_pfx_table option \<times> rtr_spki_table option \<times> rtr_aspa_table option"

record pdu_store =
  ipv4_pdus :: pdu_array
  ipv6_pdus :: pdu_array
  router_key_pdus :: pdu_array
  aspa_pdus :: pdu_array

definition empty_store :: pdu_store where
  "empty_store = \<lparr>ipv4_pdus = ([], 0), ipv6_pdus = ([], 0), router_key_pdus = ([], 0), aspa_pdus = ([], 0)\<rparr>"

text \<open>The ASPA PDUs come last, after the prefixes and the router keys; the update is applied or discarded.\<close>

definition apply_aspas ::
  "'a rtr_socket_scheme \<Rightarrow> tables \<Rightarrow> u8 list list \<Rightarrow> u8 list list \<Rightarrow> u8 list list \<Rightarrow> u8 list list \<Rightarrow> u8 list \<Rightarrow> mem
     \<Rightarrow> (int \<times> 'a rtr_socket_scheme \<times> tables \<times> mem) option" where
  "apply_aspas s tbls v4 v6 keys aspas eod_pdu mem =
     (case tbls of (pfxt, spkit, aspat) \<Rightarrow>
      do { (r, s, aspat, update, mem) \<leftarrow> rtr_compute_update_aspa_table s aspat aspas mem;
           if r = RTR_ERROR then
             do { (r1, spkit, mem) \<leftarrow> rtr_undo_update_spki_table_batch s spkit keys mem;
                  (r2, pfxt, mem) \<leftarrow> rtr_undo_update_pfx_table_batch s pfxt v4 v6 mem;
                  (aspat, mem) \<leftarrow> finish_aspa_update aspat update False mem;
                  Some (RTR_ERROR, sync_failed s (r1 = RTR_ERROR \<or> r2 = RTR_ERROR), (pfxt, spkit, aspat), mem) }
           else
             do { (aspat, mem) \<leftarrow> finish_aspa_update aspat update True mem;
                  sn \<leftarrow> get32 (byte_order s) 8 eod_pdu;
                  Some (RTR_SUCCESS, s\<lparr>serial_number := sn\<rparr>, (pfxt, spkit, aspat), mem) } })"

definition apply_keys ::
  "'a rtr_socket_scheme \<Rightarrow> tables \<Rightarrow> u8 list list \<Rightarrow> u8 list list \<Rightarrow> u8 list list \<Rightarrow> u8 list list \<Rightarrow> u8 list \<Rightarrow> mem
     \<Rightarrow> (int \<times> 'a rtr_socket_scheme \<times> tables \<times> mem) option" where
  "apply_keys s tbls v4 v6 keys aspas eod_pdu mem =
     (case tbls of (pfxt, spkit, aspat) \<Rightarrow>
      do { (failed, s, spkit, mem) \<leftarrow> update_spki_pdus s spkit keys 0 mem;
           case failed of
             Some i \<Rightarrow>
               do { (r1, spkit, mem) \<leftarrow> rtr_undo_update_spki_table_batch s spkit (take i keys) mem;
                    (r2, pfxt, mem) \<leftarrow> rtr_undo_update_pfx_table_batch s pfxt v4 v6 mem;
                    Some (RTR_ERROR, sync_failed s (r1 = RTR_ERROR \<or> r2 = RTR_ERROR), (pfxt, spkit, aspat), mem) }
           | None \<Rightarrow> apply_aspas s (pfxt, spkit, aspat) v4 v6 keys aspas eod_pdu mem })"

definition rtr_sync_update_tables ::
  "'a rtr_socket_scheme \<Rightarrow> tables \<Rightarrow> u8 list list \<Rightarrow> u8 list list \<Rightarrow> u8 list list \<Rightarrow> u8 list list \<Rightarrow> u8 list \<Rightarrow> mem
     \<Rightarrow> (int \<times> 'a rtr_socket_scheme \<times> tables \<times> mem) option" where
  "rtr_sync_update_tables s tbls v4 v6 keys aspas eod_pdu mem =
     (case tbls of (pfxt, spkit, aspat) \<Rightarrow>
      do {
        (failed, s, pfxt, mem) \<leftarrow> update_pfx_pdus s pfxt v4 0 mem;
        case failed of
          Some i \<Rightarrow>
            do { (r, pfxt, mem) \<leftarrow> rtr_undo_update_pfx_table_batch s pfxt (take i v4) [] mem;
                 Some (RTR_ERROR, sync_failed s (r = RTR_ERROR), (pfxt, spkit, aspat), mem) }
        | None \<Rightarrow> do {
            (failed, s, pfxt, mem) \<leftarrow> update_pfx_pdus s pfxt v6 0 mem;
            case failed of
              Some i \<Rightarrow>
                do { (r, pfxt, mem) \<leftarrow> rtr_undo_update_pfx_table_batch s pfxt v4 (take i v6) mem;
                     Some (RTR_ERROR, sync_failed s (r = RTR_ERROR), (pfxt, spkit, aspat), mem) }
            | None \<Rightarrow> apply_keys s (pfxt, spkit, aspat) v4 v6 keys aspas eod_pdu mem } })"

section \<open>End of Data\<close>

fun dec_digits :: "nat \<Rightarrow> string" where
  "dec_digits n = (if n < 10 then [char_of (48 + n)] else dec_digits (n div 10) @ [char_of (48 + n mod 10)])"

declare dec_digits.simps [simp del]

definition wrong_session_text :: "nat \<Rightarrow> nat \<Rightarrow> u8 list" where
  "wrong_session_text expected got =
     map of_char (take 66 (''Expected session_id: '' @ dec_digits expected @ '', received session_id. '' @ dec_digits got @
       '' in EOD PDU'')) @ [0]"

definition eod_interval ::
  "'a rtr_socket_scheme \<Rightarrow> u8 list \<Rightarrow> nat \<Rightarrow> rtr_interval_type \<Rightarrow> (int \<times> 'a rtr_socket_scheme) option" where
  "eod_interval s pdu_data off type =
     do { interval \<leftarrow> get32 (byte_order s) off pdu_data;
          let (interv_retval, s) = rtr_check_interval_option s (iv_mode s) interval type;
          if interv_retval = RTR_ERROR then
            do { (r, s) \<leftarrow> interval_send_error_pdu s pdu_data; Some (RTR_ERROR, s) }
          else Some (RTR_SUCCESS, s) }"

definition rtr_handle_eod_pdu :: "'a rtr_socket_scheme \<Rightarrow> u8 list \<Rightarrow> (int \<times> 'a rtr_socket_scheme) option" where
  "rtr_handle_eod_pdu s pdu_data =
     do { sid \<leftarrow> get16 (byte_order s) 2 pdu_data;
          if ucast sid \<noteq> session_id s then
            do { bytes \<leftarrow> get_bytes 0 RTR_MAX_PDU_LEN pdu_data;
                 (r, s) \<leftarrow> rtr_send_error_pdu_from_host s bytes CORRUPT_DATA
                   (wrong_session_text (unat (session_id s)) (unat sid));
                 Some (RTR_ERROR, rtr_change_socket_state s RTR_ERROR_FATAL) }
          else do {
            ver \<leftarrow> get8 0 pdu_data;
            if (ver = RTR_PROTOCOL_VERSION_1 \<or> ver = RTR_PROTOCOL_VERSION_2) \<and> iv_mode s \<noteq> RTR_INTERVAL_MODE_IGNORE_ANY then
              do { (r, s) \<leftarrow> eod_interval s pdu_data 20 RTR_INTERVAL_TYPE_EXPIRATION;
                   if r = RTR_ERROR then Some (RTR_ERROR, s)
                   else do {
                     (r, s) \<leftarrow> eod_interval s pdu_data 12 RTR_INTERVAL_TYPE_REFRESH;
                     if r = RTR_ERROR then Some (RTR_ERROR, s)
                     else eod_interval s pdu_data 16 RTR_INTERVAL_TYPE_RETRY } }
            else Some (RTR_SUCCESS, s) } }"

text \<open>The reset: shadow tables that start with the records of the other sockets take the PDUs and are
  swapped in. A failure before the ASPA shadow table has been requested jumps to code that reads shadow
  table pointers that were never set.\<close>

definition swap_tables_in ::
  "rtr_ctx \<Rightarrow> rtr_pfx_table \<Rightarrow> rtr_spki_table \<Rightarrow> rtr_aspa_table \<Rightarrow> (rtr_ctx \<times> tables) option" where
  "swap_tables_in s pfx_shadow spki_shadow aspa_shadow =
     do { pfxt \<leftarrow> pfx_table s;
          let (pfxt, pfx_shadow) = pfx_table_swap pfxt pfx_shadow;
          spkit \<leftarrow> spki_table s;
          let (spkit, spki_shadow) = spki_table_swap spkit spki_shadow;
          aspat \<leftarrow> aspa_table s;
          (st, aspat', aspa_shadow, mem) \<leftarrow>
            aspa_table_src_replace (Some aspat) (Some aspa_shadow) (self s) (aspa_fp aspat) False (allocs s);
          (pfxt, pfx_shadow, mem) \<leftarrow>
            (if update_fp pfxt then pfx_table_notify_diff pfxt pfx_shadow (self s) mem else Some (pfxt, pfx_shadow, mem));
          (spkit, spki_shadow) \<leftarrow>
            (if spki_fp spkit then spki_table_notify_diff spkit spki_shadow (self s) else Some (spkit, spki_shadow));
          Some (s\<lparr>pfx_table := Some pfxt, spki_table := Some spkit, aspa_table := aspat', allocs := mem\<rparr>,
                (Some pfx_shadow, Some spki_shadow, aspa_shadow)) }"

definition free_shadow_tables :: "rtr_ctx \<Rightarrow> tables \<Rightarrow> rtr_ctx option" where
  "free_shadow_tables s tbls =
     (case tbls of (pfxt, spkit, aspat) \<Rightarrow>
      do { t \<leftarrow> pfxt; _ \<leftarrow> pfx_table_free_without_notify t;
           (_, mem) \<leftarrow> rtr_aspa_table_free aspat False (allocs s);
           Some (s\<lparr>allocs := mem, is_resetting := False\<rparr>) })"

definition sync_reset :: "rtr_ctx \<Rightarrow> pdu_store \<Rightarrow> u8 list \<Rightarrow> (int \<times> rtr_ctx) option" where
  "sync_reset s store eod_pdu =
     (let (ok, mem) = rtr_malloc (allocs s) in
      if \<not> ok then None
      else do {
        (rv, pfxt, mem) \<leftarrow>
          pfx_table_copy_except_socket (pfx_table s) (Some (rtr_pfx_table_init False)) (self s) mem;
        pfx_shadow \<leftarrow> pfxt;
        if rv \<noteq> RTR_PFX_SUCCESS then None
        else let (ok, mem) = rtr_malloc mem in
        if \<not> ok then None
        else do {
          spkit \<leftarrow> spki_table s;
          (rv, spki_shadow, mem) \<leftarrow> spki_table_copy_except_socket spkit (spki_table_init False) (self s) mem;
          if rv \<noteq> RTR_SPKI_SUCCESS then None
          else let (ok, mem) = rtr_malloc mem in
          if \<not> ok then
            map_option (\<lambda>s. (RTR_ERROR, s)) (free_shadow_tables (s\<lparr>allocs := mem\<rparr>) (Some pfx_shadow, Some spki_shadow, None))
          else do {
            (retval, s, (pfxt, spkit, aspat), mem) \<leftarrow>
              rtr_sync_update_tables s (Some pfx_shadow, Some spki_shadow, Some (rtr_aspa_table_init False))
                (fst (ipv4_pdus store)) (fst (ipv6_pdus store)) (fst (router_key_pdus store)) (fst (aspa_pdus store)) eod_pdu mem;
            let s = s\<lparr>allocs := mem\<rparr>;
            pfx_shadow \<leftarrow> pfxt; spki_shadow \<leftarrow> spkit; aspa_shadow \<leftarrow> aspat;
            (s, shadows) \<leftarrow>
              (if retval = RTR_SUCCESS then swap_tables_in s pfx_shadow spki_shadow aspa_shadow
               else Some (s, (Some pfx_shadow, Some spki_shadow, Some aspa_shadow)));
            s \<leftarrow> free_shadow_tables s shadows;
            Some (retval, s) } } })"

definition sync_eod :: "rtr_ctx \<Rightarrow> pdu_store \<Rightarrow> u8 list \<Rightarrow> (int \<times> rtr_ctx) option" where
  "sync_eod s store pdu_data =
     do { (retval, s) \<leftarrow> rtr_handle_eod_pdu s pdu_data;
          if retval \<noteq> RTR_SUCCESS then Some (retval, s)
          else if is_resetting s then sync_reset s store pdu_data
          else do {
            (retval, s, (pfxt, spkit, aspat), mem) \<leftarrow>
              rtr_sync_update_tables s (pfx_table s, spki_table s, aspa_table s)
                (fst (ipv4_pdus store)) (fst (ipv6_pdus store)) (fst (router_key_pdus store)) (fst (aspa_pdus store))
                pdu_data (allocs s);
            Some (retval, s\<lparr>pfx_table := pfxt, spki_table := spkit, aspa_table := aspat, allocs := mem\<rparr>) } }"

section \<open>Receiving until End of Data\<close>

text \<open>What becomes of a PDU other than End of Data.\<close>

definition sync_pdu :: "rtr_ctx \<Rightarrow> pdu_store \<Rightarrow> u8 list \<Rightarrow> pdu_type \<Rightarrow> (int \<times> rtr_ctx \<times> pdu_store) option" where
  "sync_pdu s store pdu_data type =
     (case type of
        SERIAL_NOTIFY \<Rightarrow> Some (RTR_SUCCESS, s, store)
      | IPV4_PREFIX \<Rightarrow>
          do { (r, s, arr, mem) \<leftarrow> rtr_store_prefix_pdu s pdu_data sizeof_pdu_ipv4 (ipv4_pdus store) (allocs s);
               Some (r, (if r = RTR_ERROR then rtr_change_socket_state s RTR_ERROR_FATAL else s)\<lparr>allocs := mem\<rparr>, store\<lparr>ipv4_pdus := arr\<rparr>) }
      | IPV6_PREFIX \<Rightarrow>
          do { (r, s, arr, mem) \<leftarrow> rtr_store_prefix_pdu s pdu_data sizeof_pdu_ipv6 (ipv6_pdus store) (allocs s);
               Some (r, (if r = RTR_ERROR then rtr_change_socket_state s RTR_ERROR_FATAL else s)\<lparr>allocs := mem\<rparr>, store\<lparr>ipv6_pdus := arr\<rparr>) }
      | ROUTER_KEY \<Rightarrow>
          do { (r, s, arr, mem) \<leftarrow> rtr_store_router_key_pdu s pdu_data sizeof_pdu_router_key (router_key_pdus store) (allocs s);
               Some (r, (if r = RTR_ERROR then rtr_change_socket_state s RTR_ERROR_FATAL else s)\<lparr>allocs := mem\<rparr>, store\<lparr>router_key_pdus := arr\<rparr>) }
      | ASPA \<Rightarrow>
          do { (r, s, arr, mem) \<leftarrow> rtr_store_aspa_pdu s pdu_data (aspa_pdus store) (allocs s);
               Some (r, (if r = RTR_ERROR then rtr_change_socket_state s RTR_ERROR_FATAL else s)\<lparr>allocs := mem\<rparr>, store\<lparr>aspa_pdus := arr\<rparr>) }
      | ERROR \<Rightarrow> do { (_, s) \<leftarrow> rtr_handle_error_pdu s pdu_data; Some (RTR_ERROR, s, store) }
      | _ \<Rightarrow>
          do { bytes \<leftarrow> get_bytes 0 sizeof_pdu_header pdu_data;
               (_, s) \<leftarrow> rtr_send_error_pdu_from_host s bytes CORRUPT_DATA
                 (c_string ''Unexpected PDU received during data synchronisation'');
               Some (RTR_ERROR, s, store) })"

text \<open>Handling and storing a PDU leave the input of the transport alone, like the tables.\<close>

lemma send_error_conn_frame: "rtr_send_error_pdu_from_host s enc err msg = Some (rv, s') \<Longrightarrow> conn_frame s s'"
  by (rule send_frame_conn [OF send_error_from_host_frame])

lemma out_of_memory_frame: "out_of_memory s msg = Some (r, s') \<Longrightarrow> conn_frame s s'"
  by (auto simp: out_of_memory_def elim!: bind_SomeE intro!: conn_frame_state_trans dest: send_error_conn_frame)

lemma grow_array_frame: "grow_array s arr mem = Some (r, s', arr', mem') \<Longrightarrow> conn_frame s s'"
  by (auto simp: grow_array_def Let_def split: prod.splits if_splits elim!: bind_SomeE dest: out_of_memory_frame)

lemma store_frame:
  "rtr_store_prefix_pdu s pdu n arr mem = Some (r, s', arr', mem') \<Longrightarrow> conn_frame s s'"
  "rtr_store_router_key_pdu s pdu n arr mem = Some (r, s', arr', mem') \<Longrightarrow> conn_frame s s'"
  "rtr_store_aspa_pdu s pdu arr mem = Some (r, s', arr', mem') \<Longrightarrow> conn_frame s s'"
  by (auto simp: rtr_store_prefix_pdu_def rtr_store_router_key_pdu_def rtr_store_aspa_pdu_def Let_def
      split: prod.splits if_splits elim!: bind_SomeE dest!: grow_array_frame out_of_memory_frame)
    (rule conn_frame_trans)

lemma sync_pdu_conn_frame:
  assumes "sync_pdu s store pdu_data type = Some (r, s', store')"
  shows "conn_frame s (s'\<lparr>allocs := allocs s\<rparr>)"
proof -
  have a: "conn_frame s (s1\<lparr>allocs := allocs s\<rparr>)" if "conn_frame s s1" for s1
  proof -
    have "s1\<lparr>allocs := allocs s\<rparr> = s1" using that by (cases s; cases s1) (simp add: conn_frame_def)
    then show ?thesis using that by simp
  qed
  show ?thesis using assms
    by (cases type) (auto simp: sync_pdu_def a conn_frame_state_trans split: prod.splits if_splits elim!: bind_SomeE
        dest!: store_frame handle_error_frame send_error_conn_frame)
qed

lemma sync_pdu_rx:
  assumes "sync_pdu s store pdu_data type = Some (r, s', store')"
  shows "rx_size (rx (tr_socket s')) \<le> rx_size (rx (tr_socket s))"
  using sync_pdu_conn_frame [OF assms] by (simp add: conn_frame_def)

lemma receive_pdu_rx:
  assumes "rtr_receive_pdu s buf = Some (rv, buf', s')" "\<not> rv < 0"
  shows "rx_size (rx (tr_socket s')) < rx_size (rx (tr_socket s))"
  using receive_pdu_received [OF assms(1)] assms(2) by (auto simp: received_def)

function recv_store_loop :: "rtr_ctx \<Rightarrow> pdu_store \<Rightarrow> u8 list \<Rightarrow> (int \<times> rtr_ctx) option" where
  "recv_store_loop s store pdu_data =
     do { (retval, pdu_data, s) \<leftarrow> rtr_receive_pdu s pdu_data;
          if retval = RTR_TR_WOULDBLOCK then Some (RTR_ERROR, rtr_change_socket_state s RTR_ERROR_TRANSPORT)
          else if retval < 0 then Some (RTR_ERROR, s)
          else do {
            type \<leftarrow> rtr_get_pdu_type pdu_data;
            if type = EOD then sync_eod s store pdu_data
            else do {
              (retval, s, store) \<leftarrow> sync_pdu s store pdu_data type;
              if retval \<noteq> RTR_ERROR then recv_store_loop s store pdu_data else Some (retval, s) } } }"
  by auto
termination
  by (relation "measure (\<lambda>(s, store, pdu). rx_size (rx (tr_socket s)))")
    (auto dest!: receive_pdu_rx sync_pdu_rx)

declare recv_store_loop.simps [simp del]

text \<open>The arrays are freed at the end, whatever the result.\<close>

definition rtr_sync_receive_and_store_pdus :: "rtr_ctx \<Rightarrow> (int \<times> rtr_ctx) option" where
  "rtr_sync_receive_and_store_pdus s = recv_store_loop s empty_store (stack s)"

section \<open>A synchronisation\<close>

text \<open>The first PDU that is not a Serial Notify, or the return value of the failing call.\<close>

function first_sync_pdu :: "rtr_ctx \<Rightarrow> u8 list \<Rightarrow> (int \<times> u8 list \<times> rtr_ctx) option" where
  "first_sync_pdu s pdu =
     do { (rtval, pdu, s) \<leftarrow> rtr_receive_pdu s pdu;
          if rtval = RTR_TR_CLOSED \<and> request_session_id s \<and> version s > ucast RTR_PROTOCOL_MIN_SUPPORTED_VERSION then
            Some (RTR_ERROR, pdu, rtr_change_socket_state (s\<lparr>version := version s - 1\<rparr>) RTR_FAST_RECONNECT)
          else if rtval = RTR_TR_WOULDBLOCK then Some (RTR_ERROR, pdu, rtr_change_socket_state s RTR_ERROR_TRANSPORT)
          else if rtval < 0 then Some (RTR_ERROR, pdu, s)
          else do {
            type \<leftarrow> rtr_get_pdu_type pdu;
            if type = SERIAL_NOTIFY then first_sync_pdu s pdu else Some (RTR_SUCCESS, pdu, s) } }"
  by auto
termination
  by (relation "measure (\<lambda>(s, pdu). rx_size (rx (tr_socket s)))") (auto dest!: receive_pdu_rx)

declare first_sync_pdu.simps [simp del]

definition rtr_sync :: "rtr_ctx \<Rightarrow> (int \<times> rtr_ctx) option" where
  "rtr_sync s =
     do { (rtval, pdu, s) \<leftarrow> first_sync_pdu s (stack s);
          if rtval \<noteq> RTR_SUCCESS then Some (RTR_ERROR, s)
          else do {
            type \<leftarrow> rtr_get_pdu_type pdu;
            case type of
              ERROR \<Rightarrow> do { (_, s) \<leftarrow> rtr_handle_error_pdu s pdu; Some (RTR_ERROR, s) }
            | CACHE_RESET \<Rightarrow> Some (RTR_ERROR, rtr_change_socket_state s RTR_ERROR_NO_INCR_UPDATE_AVAIL)
            | CACHE_RESPONSE \<Rightarrow>
                do { (_, s) \<leftarrow> rtr_handle_cache_response_pdu s pdu;
                     (r, s) \<leftarrow> rtr_sync_receive_and_store_pdus s;
                     if r = RTR_ERROR then Some (RTR_ERROR, s)
                     else let (r, s) = rtr_set_last_update (s\<lparr>request_session_id := False\<rparr>) in
                       Some (if r = RTR_ERROR then RTR_ERROR else RTR_SUCCESS, s) }
            | _ \<Rightarrow>
                do { bytes \<leftarrow> get_bytes 0 sizeof_pdu_header pdu;
                     (_, s) \<leftarrow> rtr_send_error_pdu_from_host s bytes CORRUPT_DATA
                       (c_string ''Unexpected PDU received in data synchronisation'');
                     Some (RTR_ERROR, s) } } }"

end
