(* ===== verification/Rtr_Batch.thy ===== *)
theory Rtr_Batch
  imports Rtr_Sync
begin

text \<open>
  What applying a batch of PDUs does to a table and what undoing it gives back. A table of records is
  an interface: a set of records that an announcement extends and a withdrawal reduces, each at most by
  the record of the PDU. The two loops over a batch are studied once for the interface, which the prefix
  table and the router key table both implement.
\<close>

section \<open>Changes of a set of records\<close>

fun change :: "bool \<times> 'r \<Rightarrow> 'r set \<Rightarrow> 'r set" where
  "change (announced, r) A = (if announced then insert r A else A - {r})"

text \<open>Only a new record can be announced and only a known one withdrawn.\<close>

fun possible :: "bool \<times> 'r \<Rightarrow> 'r set \<Rightarrow> bool" where
  "possible (announced, r) A = (announced \<longleftrightarrow> r \<notin> A)"

fun possible_all :: "(bool \<times> 'r) list \<Rightarrow> 'r set \<Rightarrow> bool" where
  "possible_all [] A = True"
| "possible_all (c # cs) A = (possible c A \<and> possible_all cs (change c A))"

definition reverse_change :: "bool \<times> 'r \<Rightarrow> bool \<times> 'r" where
  "reverse_change c = (\<not> fst c, snd c)"

lemma possible_all_append: "possible_all (cs @ ds) A \<longleftrightarrow> possible_all cs A \<and> possible_all ds (fold change cs A)"
  by (induction cs arbitrary: A) auto

lemma fold_change_distinct:
  "distinct (map snd cs) \<Longrightarrow> r \<in> fold change cs A \<longleftrightarrow> (if r \<in> snd ` set cs then (True, r) \<in> set cs else r \<in> A)"
proof (induction cs arbitrary: A)
  case (Cons c cs)
  obtain a q where c: "c = (a, q)" by (cases c)
  have "q \<notin> snd ` set cs" using Cons.prems by (simp add: c)
  then have "(True, q) \<notin> set cs" by force
  then show ?case using Cons by (auto simp: c)
qed simp

lemma possible_all_distinct:
  "distinct (map snd cs) \<Longrightarrow> possible_all cs A \<longleftrightarrow> (\<forall>(a, r)\<in>set cs. a \<longleftrightarrow> r \<notin> A)"
proof (induction cs arbitrary: A)
  case (Cons c cs)
  obtain a q where c: "c = (a, q)" by (cases c)
  have "q \<notin> snd ` set cs" using Cons.prems by (simp add: c)
  then have "(b, r) \<in> set cs \<Longrightarrow> r \<in> change c A \<longleftrightarrow> r \<in> A" for b r by (force simp: c)
  then have "(\<forall>(b, r)\<in>set cs. b \<longleftrightarrow> r \<notin> change c A) \<longleftrightarrow> (\<forall>(b, r)\<in>set cs. b \<longleftrightarrow> r \<notin> A)" by blast
  then show ?case using Cons by (simp add: c)
qed simp

text \<open>Undoing the changes in the order in which they were made.\<close>

lemma undo_changes:
  assumes "distinct (map snd cs)" "possible_all cs A"
  shows "fold change (map reverse_change cs) (fold change cs A) = A"
proof -
  have "distinct (map snd (map reverse_change cs))" using assms(1) by (simp add: reverse_change_def o_def)
  note undo = fold_change_distinct [OF this]
  have "(True, r) \<in> set (map reverse_change cs) \<longleftrightarrow> (False, r) \<in> set cs" for r by (force simp: reverse_change_def)
  moreover have "snd ` set (map reverse_change cs) = snd ` set cs" by (force simp: reverse_change_def)
  moreover have "(False, r) \<in> set cs \<longleftrightarrow> r \<in> A" if "r \<in> snd ` set cs" for r
    using assms(2) that unfolding possible_all_distinct [OF assms(1)] by force
  ultimately show ?thesis by (intro set_eqI) (simp add: undo fold_change_distinct [OF assms(1)] del: set_map)
qed

text \<open>The changes that a list of PDUs asks for: whether all of them are possible one after the other, and
  what they make of a set of records. A PDU without a change is invalid.\<close>

definition accepts :: "('p \<Rightarrow> (bool \<times> 'r) option) \<Rightarrow> 'p list \<Rightarrow> 'r set \<Rightarrow> bool" where
  "accepts change_of pdus A = ((\<forall>pdu\<in>set pdus. change_of pdu \<noteq> None) \<and> possible_all (List.map_filter change_of pdus) A)"

definition applied :: "('p \<Rightarrow> (bool \<times> 'r) option) \<Rightarrow> 'p list \<Rightarrow> 'r set \<Rightarrow> 'r set" where
  "applied change_of pdus A = fold change (List.map_filter change_of pdus) A"

definition distinct_changes :: "('p \<Rightarrow> (bool \<times> 'r) option) \<Rightarrow> 'p list \<Rightarrow> bool" where
  "distinct_changes change_of pdus = distinct (map snd (List.map_filter change_of pdus))"

lemma map_filter_append: "List.map_filter f (xs @ ys) = List.map_filter f xs @ List.map_filter f ys"
  by (simp add: List.map_filter_def)

lemma map_filter_Some: "map f xs = map Some cs \<Longrightarrow> List.map_filter f xs = cs"
  by (induction xs arbitrary: cs) (auto simp: List.map_filter_simps)

lemma map_Some_filter: "\<forall>x\<in>set xs. f x \<noteq> None \<Longrightarrow> map f xs = map Some (List.map_filter f xs)"
  by (induction xs) (auto simp: List.map_filter_simps)

lemma accepts_append: "accepts f (xs @ ys) A \<longleftrightarrow> accepts f xs A \<and> accepts f ys (applied f xs A)"
  by (auto simp: accepts_def applied_def map_filter_append possible_all_append)

lemma applied_append: "applied f (xs @ ys) A = applied f ys (applied f xs A)"
  by (simp add: applied_def map_filter_append)

lemma accepts_Nil [simp]: "accepts f [] A" "applied f [] A = A"
  by (simp_all add: accepts_def applied_def List.map_filter_simps)

lemma distinct_changes_append: "distinct_changes f (xs @ ys) \<Longrightarrow> distinct_changes f xs"
  by (simp add: distinct_changes_def map_filter_append)

section \<open>The interface\<close>

locale record_table =
  fixes inv :: "nat \<Rightarrow> 't \<Rightarrow> bool"
    and recs :: "'t \<Rightarrow> 'r set"
    and pdu_ok :: "'s \<Rightarrow> u8 list \<Rightarrow> bool"
    and change_of :: "'s \<Rightarrow> u8 list \<Rightarrow> (bool \<times> 'r) option"
    and frame :: "'s \<Rightarrow> 's \<Rightarrow> bool"
    and upd :: "'s \<Rightarrow> 't option \<Rightarrow> u8 list \<Rightarrow> mem \<Rightarrow> (int \<times> 's \<times> 't option \<times> mem) option"
    and undo :: "'s \<Rightarrow> 't option \<Rightarrow> u8 list \<Rightarrow> mem \<Rightarrow> (int \<times> 't option \<times> mem) option"
    and upd_all :: "'s \<Rightarrow> 't option \<Rightarrow> u8 list list \<Rightarrow> nat \<Rightarrow> mem \<Rightarrow> (nat option \<times> 's \<times> 't option \<times> mem) option"
    and undo_all :: "'s \<Rightarrow> 't option \<Rightarrow> u8 list list \<Rightarrow> mem \<Rightarrow> (int \<times> 't option \<times> mem) option"
  assumes inv_mono: "inv n t \<Longrightarrow> m \<le> n \<Longrightarrow> inv m t"
    and frame_refl: "frame s s"
    and frame_law: "frame s s' \<Longrightarrow> change_of s' = change_of s \<and> pdu_ok s' = pdu_ok s"
    and upd_law: "inv (Suc n) t \<Longrightarrow> pdu_ok s pdu \<Longrightarrow>
      \<exists>rv s' t' mem'. upd s (Some t) pdu mem = Some (rv, s', Some t', mem') \<and> frame s s' \<and> set mem' \<subseteq> set mem \<and> inv n t' \<and>
        (rv = RTR_SUCCESS \<and> s' = s \<and> (\<exists>c. change_of s pdu = Some c \<and> possible c (recs t) \<and> recs t' = change c (recs t)) \<or>
         rv = RTR_ERROR \<and> recs t' = recs t \<and>
           (False \<in> set mem \<or> (\<forall>c. change_of s pdu = Some c \<longrightarrow> \<not> possible c (recs t))))"
    and undo_law: "inv (Suc n) t \<Longrightarrow> pdu_ok s pdu \<Longrightarrow> change_of s pdu = Some c \<Longrightarrow> False \<notin> set mem \<Longrightarrow>
      \<exists>rv t' mem'. undo s (Some t) pdu mem = Some (rv, Some t', mem') \<and> rv \<noteq> RTR_ERROR \<and> set mem' \<subseteq> set mem \<and> inv n t' \<and>
        recs t' = change (reverse_change c) (recs t)"
    and upd_all_Nil: "upd_all s tbl [] i mem = Some (None, s, tbl, mem)"
    and upd_all_Cons: "upd_all s tbl (pdu # pdus) i mem =
      do { (r, s, tbl, mem) \<leftarrow> upd s tbl pdu mem;
           if r = RTR_ERROR then Some (Some i, s, tbl, mem) else upd_all s tbl pdus (i + 1) mem }"
    and undo_all_Nil: "undo_all s tbl [] mem = Some (RTR_SUCCESS, tbl, mem)"
    and undo_all_Cons: "undo s tbl pdu mem = Some (r, tbl', mem') \<Longrightarrow> r \<noteq> RTR_ERROR \<Longrightarrow>
      undo_all s tbl (pdu # pdus) mem = undo_all s tbl' pdus mem'"
begin

lemma upd_all_law:
  assumes "inv (length pdus + k) t" "\<forall>pdu\<in>set pdus. pdu_ok s pdu"
  shows "\<exists>f s' t' mem' n cs. upd_all s (Some t) pdus i mem = Some (f, s', Some t', mem') \<and> frame s s' \<and> set mem' \<subseteq> set mem \<and>
    inv k t' \<and> n \<le> length pdus \<and> map (change_of s) (take n pdus) = map Some cs \<and>
    possible_all cs (recs t) \<and> recs t' = fold change cs (recs t) \<and>
    (f = None \<and> n = length pdus \<and> s' = s \<or>
     f = Some (i + n) \<and> n < length pdus \<and>
       (False \<in> set mem \<or> (\<forall>c. change_of s (pdus ! n) = Some c \<longrightarrow> \<not> possible c (recs t'))))"
  using assms
proof (induction pdus arbitrary: t i mem)
  case Nil
  then show ?case by (auto simp: upd_all_Nil frame_refl)
next
  case (Cons pdu pdus)
  have "inv (Suc (length pdus + k)) t" "pdu_ok s pdu" using Cons.prems by auto
  from upd_law [OF this, of mem] obtain rv s' t' mem' where
    u: "upd s (Some t) pdu mem = Some (rv, s', Some t', mem')" "frame s s'" "set mem' \<subseteq> set mem" "inv (length pdus + k) t'"
      "rv = RTR_SUCCESS \<and> s' = s \<and> (\<exists>c. change_of s pdu = Some c \<and> possible c (recs t) \<and> recs t' = change c (recs t)) \<or>
       rv = RTR_ERROR \<and> recs t' = recs t \<and> (False \<in> set mem \<or> (\<forall>c. change_of s pdu = Some c \<longrightarrow> \<not> possible c (recs t)))"
    by blast
  show ?case
  proof (cases "rv = RTR_SUCCESS")
    case True
    then obtain c where c: "s' = s" "change_of s pdu = Some c" "possible c (recs t)" "recs t' = change c (recs t)" using u(5) by auto
    have "\<forall>pdu\<in>set pdus. pdu_ok s pdu" using Cons.prems by simp
    from Cons.IH [OF u(4) this, of "i + 1" mem'] obtain f s2 t2 mem2 n cs where
      r: "upd_all s (Some t') pdus (i + 1) mem' = Some (f, s2, Some t2, mem2)" "frame s s2" "set mem2 \<subseteq> set mem'" "inv k t2"
        "n \<le> length pdus" "map (change_of s) (take n pdus) = map Some cs" "possible_all cs (recs t')" "recs t2 = fold change cs (recs t')"
        "f = None \<and> n = length pdus \<and> s2 = s \<or> f = Some (i + 1 + n) \<and> n < length pdus \<and>
          (False \<in> set mem' \<or> (\<forall>c. change_of s (pdus ! n) = Some c \<longrightarrow> \<not> possible c (recs t2)))"
      by blast
    show ?thesis
      by (rule exI [of _ f], rule exI [of _ s2], rule exI [of _ t2], rule exI [of _ mem2], rule exI [of _ "Suc n"],
          rule exI [of _ "c # cs"]) (use r c True u(1,3) in \<open>auto simp: upd_all_Cons\<close>)
  next
    case False
    then show ?thesis using u
      by (intro exI [of _ "Some i"] exI [of _ s'] exI [of _ t'] exI [of _ mem'] exI [of _ 0] exI [of _ "[]"])
        (auto simp: upd_all_Cons intro: inv_mono)
  qed
qed

lemma undo_all_law:
  assumes "inv (length pdus + k) t" "\<forall>pdu\<in>set pdus. pdu_ok s pdu" "map (change_of s) pdus = map Some cs" "False \<notin> set mem"
  shows "\<exists>t' mem'. undo_all s (Some t) pdus mem = Some (RTR_SUCCESS, Some t', mem') \<and> set mem' \<subseteq> set mem \<and> inv k t' \<and>
    recs t' = fold change (map reverse_change cs) (recs t)"
  using assms
proof (induction pdus arbitrary: t cs mem)
  case Nil
  then show ?case by (simp add: undo_all_Nil)
next
  case (Cons pdu pdus)
  then obtain c ds where cs: "cs = c # ds" "change_of s pdu = Some c" "map (change_of s) pdus = map Some ds" by auto
  have "inv (Suc (length pdus + k)) t" "pdu_ok s pdu" using Cons.prems by auto
  from undo_law [OF this cs(2) Cons.prems(4)] obtain rv t' mem' where
    u: "undo s (Some t) pdu mem = Some (rv, Some t', mem')" "rv \<noteq> RTR_ERROR" "set mem' \<subseteq> set mem" "inv (length pdus + k) t'"
      "recs t' = change (reverse_change c) (recs t)" by blast
  have "\<forall>pdu\<in>set pdus. pdu_ok s pdu" "False \<notin> set mem'" using Cons.prems u(3) by auto
  from Cons.IH [OF u(4) this(1) cs(3) this(2)] show ?case
    using u cs(1) undo_all_Cons [OF u(1,2)] by auto
qed

text \<open>Without failing allocations a batch is applied exactly when all its changes are possible, and a batch
  that fails is undone completely when its PDUs are about different records.\<close>

lemma upd_all_outcome:
  assumes "inv (length pdus + k) t" "\<forall>pdu\<in>set pdus. pdu_ok s pdu" "False \<notin> set mem"
  shows "\<exists>f s' t' mem' n. upd_all s (Some t) pdus i mem = Some (f, s', Some t', mem') \<and> frame s s' \<and> False \<notin> set mem' \<and>
    inv k t' \<and> accepts (change_of s) (take n pdus) (recs t) \<and> recs t' = applied (change_of s) (take n pdus) (recs t) \<and>
    (if accepts (change_of s) pdus (recs t) then f = None \<and> s' = s \<and> n = length pdus
     else f = Some (i + n) \<and> n < length pdus \<and> \<not> accepts (change_of s) (take (Suc n) pdus) (recs t))"
proof -
  obtain f s' t' mem' n cs where u: "upd_all s (Some t) pdus i mem = Some (f, s', Some t', mem')" "frame s s'" "set mem' \<subseteq> set mem"
    "inv k t'" "n \<le> length pdus" "map (change_of s) (take n pdus) = map Some cs" "possible_all cs (recs t)" "recs t' = fold change cs (recs t)"
    "f = None \<and> n = length pdus \<and> s' = s \<or> f = Some (i + n) \<and> n < length pdus \<and>
       (False \<in> set mem \<or> (\<forall>c. change_of s (pdus ! n) = Some c \<longrightarrow> \<not> possible c (recs t')))"
    using upd_all_law [OF assms(1,2), of i mem] by blast
  note cs = map_filter_Some [OF u(6)]
  have "change_of s pdu \<noteq> None" if "pdu \<in> set (take n pdus)" for pdu
    using that u(6) by (metis image_eqI image_iff list.set_map option.distinct(1))
  then have acc: "accepts (change_of s) (take n pdus) (recs t)" "recs t' = applied (change_of s) (take n pdus) (recs t)"
    using u(7,8) by (auto simp: accepts_def applied_def cs)
  moreover have "\<not> accepts (change_of s) (take (Suc n) pdus) (recs t)"
    if n: "n < length pdus" "\<forall>c. change_of s (pdus ! n) = Some c \<longrightarrow> \<not> possible c (recs t')"
    using n acc(2) by (auto simp: take_Suc_conv_app_nth accepts_append) (auto simp: accepts_def List.map_filter_simps)
  moreover have "accepts (change_of s) (take (Suc n) pdus) (recs t)" if "accepts (change_of s) pdus (recs t)"
    using that by (metis accepts_append append_take_drop_id)
  ultimately show ?thesis using u(1-4,9) assms(3)
    by (intro exI [of _ f] exI [of _ s'] exI [of _ t'] exI [of _ mem'] exI [of _ n]) auto
qed

lemma undo_restores:
  assumes "inv (length pdus + k) t'" "\<forall>pdu\<in>set pdus. pdu_ok s pdu" "False \<notin> set mem" "frame s s'"
    and "accepts (change_of s) pdus A" "recs t' = applied (change_of s) pdus A" "distinct_changes (change_of s) pdus"
  shows "\<exists>t2 mem2. undo_all s' (Some t') pdus mem = Some (RTR_SUCCESS, Some t2, mem2) \<and> False \<notin> set mem2 \<and> inv k t2 \<and> recs t2 = A"
proof -
  let ?cs = "List.map_filter (change_of s) pdus"
  have cs: "map (change_of s') pdus = map Some ?cs" "possible_all ?cs A" "distinct (map snd ?cs)"
    using assms(5,7) frame_law [OF assms(4)] map_Some_filter [of pdus "change_of s"] by (auto simp: accepts_def distinct_changes_def)
  have "\<forall>pdu\<in>set pdus. pdu_ok s' pdu" using assms(2) frame_law [OF assms(4)] by simp
  from undo_all_law [OF assms(1) this cs(1) assms(3)] obtain t2 mem2 where
    "undo_all s' (Some t') pdus mem = Some (RTR_SUCCESS, Some t2, mem2)" "set mem2 \<subseteq> set mem" "inv k t2"
    "recs t2 = fold change (map reverse_change ?cs) (recs t')" by blast
  then show ?thesis using undo_changes [OF cs(3,2)] assms(3,6) by (auto simp: applied_def)
qed

end

section \<open>The prefix table\<close>

text \<open>Reporting an error sends a PDU and may end in the fatal error state.\<close>

definition fail_frame :: "'a rtr_socket_scheme \<Rightarrow> 'a rtr_socket_scheme \<Rightarrow> bool" where
  "fail_frame s s' = (\<exists>s1. send_frame s s1 \<and> (s' = s1 \<or> s' = rtr_change_socket_state s1 RTR_ERROR_FATAL))"

lemma fail_frame_refl: "fail_frame s s"
  unfolding fail_frame_def by (rule exI [of _ s]) simp

lemma fail_frame_send: "send_frame s s1 \<Longrightarrow> fail_frame s s1"
  by (auto simp: fail_frame_def)

lemma fail_frame_fatal: "send_frame s s1 \<Longrightarrow> fail_frame s (rtr_change_socket_state s1 RTR_ERROR_FATAL)"
  by (auto simp: fail_frame_def)

lemma fail_frame_conn: "fail_frame s s' \<Longrightarrow> conn_frame s s'"
  unfolding fail_frame_def by (elim exE conjE disjE) (simp_all add: send_frame_conn conn_frame_state_trans)

lemma fail_frame_self: "fail_frame s s' \<Longrightarrow> self s' = self s \<and> byte_order s' = byte_order s"
  by (drule fail_frame_conn) (simp add: conn_frame_def)

lemma wf_enclosable: "pdu_wf h p \<Longrightarrow> rtr_pdu_to_network_byte_order h p \<noteq> None"
  using to_network_swap by simp

text \<open>The change that a prefix PDU asks for.\<close>

definition pfx_change :: "'a rtr_socket_scheme \<Rightarrow> u8 list \<Rightarrow> (bool \<times> rtr_pfx_record) option" where
  "pfx_change s pdu =
     do { type \<leftarrow> rtr_get_pdu_type pdu; r \<leftarrow> rtr_prefix_pdu_2_pfx_record s pdu type; flags \<leftarrow> get8 8 pdu;
          if flags = 1 then Some (True, r) else if flags = 0 then Some (False, r) else None }"

text \<open>A well-formed prefix PDU whose prefix fits its length.\<close>

definition pfx_pdu_ok :: "'a rtr_socket_scheme \<Rightarrow> u8 list \<Rightarrow> bool" where
  "pfx_pdu_ok s pdu =
     (pdu_wf (byte_order s) pdu \<and>
      (\<exists>r. rtr_prefix_pdu_2_pfx_record s pdu (pdu_type_of (pdu ! 1)) = Some r \<and> rec_ok r))"

lemma pfx_pdu_okE:
  assumes "pfx_pdu_ok s pdu"
  obtains type r flags where "rtr_get_pdu_type pdu = Some type" "rtr_prefix_pdu_2_pfx_record s pdu type = Some r" "rec_ok r"
    "get8 8 pdu = Some flags" "pdu_wf (byte_order s) pdu"
proof -
  have wf: "pdu_wf (byte_order s) pdu" using assms by (simp add: pfx_pdu_ok_def)
  obtain r where r: "rtr_prefix_pdu_2_pfx_record s pdu (pdu_type_of (pdu ! 1)) = Some r" "rec_ok r"
    using assms by (auto simp: pfx_pdu_ok_def)
  have "pdu_type_of (pdu ! 1) \<in> {IPV4_PREFIX, IPV6_PREFIX}"
    using r(1) by (auto simp: rtr_prefix_pdu_2_pfx_record_def Let_def split: if_splits)
  then have "8 < length pdu" using wf by (auto simp: pdu_wf_def)
  then show ?thesis using wf r by (intro that) (auto simp: rtr_get_pdu_type_def get8_def)
qed

lemma error_sent:
  assumes "length txt + 20 \<le> RTR_MAX_PDU_LEN" "8 < length enc \<Longrightarrow> rtr_pdu_to_network_byte_order (byte_order s) enc \<noteq> None"
  shows "\<exists>rv s'. rtr_send_error_pdu_from_host s enc err txt = Some (rv, s') \<and> send_frame s s'"
  by (rule send_error_from_host_ok [OF assms, of err]) auto

lemma report_fatal:
  assumes "length txt + 20 \<le> RTR_MAX_PDU_LEN" "8 < length enc \<Longrightarrow> rtr_pdu_to_network_byte_order (byte_order s) enc \<noteq> None"
  shows "\<exists>s'. do { (r, s) \<leftarrow> rtr_send_error_pdu_from_host s enc err txt;
           Some (RTR_ERROR, rtr_change_socket_state s RTR_ERROR_FATAL, tbl, mem) } = Some (RTR_ERROR, s', tbl, mem) \<and> fail_frame s s'"
  by (rule send_error_from_host_ok [OF assms, of err]) (auto intro: fail_frame_fatal)

lemma report_error:
  assumes "length txt + 20 \<le> RTR_MAX_PDU_LEN" "8 < length enc \<Longrightarrow> rtr_pdu_to_network_byte_order (byte_order s) enc \<noteq> None"
  shows "\<exists>s'. do { (r, s) \<leftarrow> rtr_send_error_pdu_from_host s enc err txt; Some (RTR_ERROR, s, tbl, mem) } = Some (RTR_ERROR, s', tbl, mem) \<and>
    fail_frame s s'"
  by (rule send_error_from_host_ok [OF assms, of err]) (auto intro: fail_frame_send)

lemma short_texts: "length (c_string ''PFX_TABLE Error'') + 20 \<le> RTR_MAX_PDU_LEN" "length ([] :: u8 list) + 20 \<le> RTR_MAX_PDU_LEN"
  "length (c_string ''Prefix PDU with invalid flags value received'') + 20 \<le> RTR_MAX_PDU_LEN"
  "length (c_string ''spki_table Error'') + 20 \<le> RTR_MAX_PDU_LEN"
  "length (c_string ''Router Key PDU with invalid flags value received'') + 20 \<le> RTR_MAX_PDU_LEN"
  by (simp_all add: c_string_def RTR_MAX_PDU_LEN_def)

lemma pfx_change_outcome:
  assumes "pfx_inv t" "rec_ok r"
  obtains rv t' mem' where
    "(if announced then rtr_pfx_table_add (Some t) (Some r) mem else rtr_pfx_table_remove (Some t) r mem) = Some (rv, Some t', mem')"
    "set mem' \<subseteq> set mem" "pfx_inv t'"
    "rv = RTR_PFX_SUCCESS \<and> possible (announced, r) (set (pfx_records t)) \<and>
       set (pfx_records t') = change (announced, r) (set (pfx_records t)) \<or>
     rv \<noteq> RTR_PFX_SUCCESS \<and> rv \<noteq> RTR_PFX_NOT_INITIALIZED \<and> set (pfx_records t') = set (pfx_records t) \<and>
       (rv = RTR_PFX_ERROR \<and> False \<in> set mem \<or> rv \<noteq> RTR_PFX_ERROR \<and> \<not> possible (announced, r) (set (pfx_records t)))"
proof (cases announced)
  case True
  obtain rv t' mem' where o: "rtr_pfx_table_add (Some t) (Some r) mem = Some (rv, Some t', mem')" "add_outcome t r mem rv t'" "set mem' \<subseteq> set mem"
    using rtr_pfx_table_add_outcome [OF assms] by blast
  have "mset xs = add_mset r (mset ys) \<Longrightarrow> set xs = insert r (set ys)" for xs ys :: "rtr_pfx_record list"
    by (metis set_mset_add_mset_insert set_mset_mset)
  then show ?thesis using o True assms(1) by (intro that [of rv t' mem']) (auto simp: add_outcome_def split: if_splits)
next
  case False
  obtain rv t' mem' where o: "rtr_pfx_table_remove (Some t) r mem = Some (rv, Some t', mem')" "remove_outcome t r mem rv t'" "set mem' \<subseteq> set mem"
    using rtr_pfx_table_remove_outcome [OF assms] by blast
  have gone: "set ys = set xs - {r}" if "mset xs = add_mset r (mset ys)" "distinct xs" for xs ys :: "rtr_pfx_record list"
  proof -
    have "distinct (r # ys)" using that by (metis mset.simps(2) mset_eq_imp_distinct_iff)
    moreover have "set xs = insert r (set ys)" using that(1) by (metis set_mset_add_mset_insert set_mset_mset)
    ultimately show ?thesis by auto
  qed
  have "distinct (pfx_records t)" using assms(1) by (rule pfx_records_distinct)
  then show ?thesis using o False assms(1) gone [of "pfx_records t" "pfx_records t'"]
    by (intro that [of rv t' mem']) (auto simp: remove_outcome_def dest: mset_eq_setD split: if_splits)
qed

lemma pfx_upd_law:
  assumes inv: "pfx_inv t" and pdu: "pfx_pdu_ok s pdu"
  shows "\<exists>rv s' t' mem'. rtr_update_pfx_table s (Some t) pdu mem = Some (rv, s', Some t', mem') \<and> fail_frame s s' \<and>
    set mem' \<subseteq> set mem \<and> pfx_inv t' \<and>
    (rv = RTR_SUCCESS \<and> s' = s \<and> (\<exists>c. pfx_change s pdu = Some c \<and> possible c (set (pfx_records t)) \<and>
       set (pfx_records t') = change c (set (pfx_records t))) \<or>
     rv = RTR_ERROR \<and> set (pfx_records t') = set (pfx_records t) \<and>
       (False \<in> set mem \<or> (\<forall>c. pfx_change s pdu = Some c \<longrightarrow> \<not> possible c (set (pfx_records t)))))"
proof -
  obtain type r flags where d: "rtr_get_pdu_type pdu = Some type" "rtr_prefix_pdu_2_pfx_record s pdu type = Some r" "rec_ok r"
    "get8 8 pdu = Some flags" "pdu_wf (byte_order s) pdu" by (rule pfx_pdu_okE [OF pdu])
  note enc = wf_enclosable [OF d(5)]
  show ?thesis
  proof (cases "flags = 1 \<or> flags = 0")
    case True
    obtain rv t' mem' where
      o: "(if flags = 1 then rtr_pfx_table_add (Some t) (Some r) mem else rtr_pfx_table_remove (Some t) r mem) = Some (rv, Some t', mem')"
        "set mem' \<subseteq> set mem" "pfx_inv t'"
        "rv = RTR_PFX_SUCCESS \<and> possible (flags = 1, r) (set (pfx_records t)) \<and>
           set (pfx_records t') = change (flags = 1, r) (set (pfx_records t)) \<or>
         rv \<noteq> RTR_PFX_SUCCESS \<and> rv \<noteq> RTR_PFX_NOT_INITIALIZED \<and> set (pfx_records t') = set (pfx_records t) \<and>
           (rv = RTR_PFX_ERROR \<and> False \<in> set mem \<or> rv \<noteq> RTR_PFX_ERROR \<and> \<not> possible (flags = 1, r) (set (pfx_records t)))"
      by (rule pfx_change_outcome [OF inv d(3), of "flags = 1" mem])
    have c: "pfx_change s pdu = Some (flags = 1, r)" using d True by (auto simp: pfx_change_def)
    have e1: "\<exists>s'. do { (_, s) \<leftarrow> rtr_send_error_pdu_from_host s pdu err []; Some (RTR_ERROR, rtr_change_socket_state s RTR_ERROR_FATAL, Some t', mem') } =
        Some (RTR_ERROR, s', Some t', mem') \<and> fail_frame s s'" for err
      by (rule report_fatal [OF short_texts(2) enc])
    have e2: "\<exists>s'. do { (_, s) \<leftarrow> rtr_send_error_pdu_from_host s [] INTERNAL_ERROR (c_string ''PFX_TABLE Error'');
        Some (RTR_ERROR, rtr_change_socket_state s RTR_ERROR_FATAL, Some t', mem') } = Some (RTR_ERROR, s', Some t', mem') \<and> fail_frame s s'"
      by (rule report_fatal [OF short_texts(1)]) simp
    show ?thesis
      using o c d True e1 [of DUPLICATE_ANNOUNCEMENT] e1 [of WITHDRAWAL_OF_UNKNOWN_RECORD] e2 fail_frame_refl [of s]
      by (cases rv) (auto simp: rtr_update_pfx_table_def)
  next
    case False
    then have "pfx_change s pdu = None" using d by (simp add: pfx_change_def)
    moreover obtain s' where "do { (r, s) \<leftarrow> rtr_send_error_pdu_from_host s pdu CORRUPT_DATA (c_string ''Prefix PDU with invalid flags value received'');
        Some (RTR_ERROR, s, Some t, mem) } = Some (RTR_ERROR, s', Some t, mem)" "fail_frame s s'"
      using report_error [OF short_texts(3) enc, of CORRUPT_DATA "Some t" mem] by blast
    ultimately show ?thesis using d False inv by (auto simp: rtr_update_pfx_table_def)
  qed
qed

lemma pfx_undo_law:
  assumes inv: "pfx_inv t" and pdu: "pfx_pdu_ok s pdu" and c: "pfx_change s pdu = Some c" and mem: "False \<notin> set mem"
  shows "\<exists>rv t' mem'. rtr_undo_update_pfx_table s (Some t) pdu mem = Some (rv, Some t', mem') \<and> rv \<noteq> RTR_ERROR \<and>
    set mem' \<subseteq> set mem \<and> pfx_inv t' \<and> set (pfx_records t') = change (reverse_change c) (set (pfx_records t))"
proof -
  obtain type r flags where d: "rtr_get_pdu_type pdu = Some type" "rtr_prefix_pdu_2_pfx_record s pdu type = Some r" "rec_ok r"
    "get8 8 pdu = Some flags" "pdu_wf (byte_order s) pdu" by (rule pfx_pdu_okE [OF pdu])
  have fl: "c = (flags = 1, r)" "flags = 1 \<or> flags = 0" using c d by (auto simp: pfx_change_def split: if_splits)
  obtain rv t' mem' where
    o: "(if flags \<noteq> 1 then rtr_pfx_table_add (Some t) (Some r) mem else rtr_pfx_table_remove (Some t) r mem) = Some (rv, Some t', mem')"
      "set mem' \<subseteq> set mem" "pfx_inv t'"
      "rv = RTR_PFX_SUCCESS \<and> possible (flags \<noteq> 1, r) (set (pfx_records t)) \<and>
         set (pfx_records t') = change (flags \<noteq> 1, r) (set (pfx_records t)) \<or>
       rv \<noteq> RTR_PFX_SUCCESS \<and> rv \<noteq> RTR_PFX_NOT_INITIALIZED \<and> set (pfx_records t') = set (pfx_records t) \<and>
         (rv = RTR_PFX_ERROR \<and> False \<in> set mem \<or> rv \<noteq> RTR_PFX_ERROR \<and> \<not> possible (flags \<noteq> 1, r) (set (pfx_records t)))"
    by (rule pfx_change_outcome [OF inv d(3), of "flags \<noteq> 1" mem])
  have "rtr_undo_update_pfx_table s (Some t) pdu mem = Some (pfx_code rv, Some t', mem')"
    using o(1) d fl(2) by (auto simp: rtr_undo_update_pfx_table_def)
  moreover have "pfx_code rv \<noteq> RTR_ERROR" using o(4) mem by (cases rv) auto
  moreover have "set (pfx_records t') = change (reverse_change c) (set (pfx_records t))"
    using o(4) mem by (auto simp: fl(1) reverse_change_def split: if_splits)
  ultimately show ?thesis using o(2,3) by blast
qed

lemma pfx_change_cong:
  assumes "self s' = self s" "byte_order s' = byte_order s"
  shows "pfx_change s' = pfx_change s" "pfx_pdu_ok s' = pfx_pdu_ok s"
proof -
  have "rtr_prefix_pdu_2_pfx_record s' pdu ty = rtr_prefix_pdu_2_pfx_record s pdu ty" for pdu ty
    by (simp add: rtr_prefix_pdu_2_pfx_record_def assms cong: if_cong)
  then show "pfx_change s' = pfx_change s" "pfx_pdu_ok s' = pfx_pdu_ok s"
    by (simp_all add: fun_eq_iff pfx_change_def pfx_pdu_ok_def assms)
qed

interpretation pfx_batch: record_table "\<lambda>n. pfx_inv" "\<lambda>t. set (pfx_records t)" pfx_pdu_ok pfx_change fail_frame
  rtr_update_pfx_table rtr_undo_update_pfx_table update_pfx_pdus undo_pfx_pdus
  by unfold_locales (assumption | rule fail_frame_refl pfx_upd_law pfx_undo_law
    | (drule fail_frame_self, intro conjI pfx_change_cong; simp) | simp)+

section \<open>The router key table\<close>

definition spki_room :: "nat \<Rightarrow> rtr_spki_table \<Rightarrow> bool" where
  "spki_room n t = (spki_inv t \<and> length (spki_list t) + n < 2 ^ 29)"

lemma spki_room_mono: "spki_room n t \<Longrightarrow> m \<le> n \<Longrightarrow> spki_room m t"
  by (simp add: spki_room_def)

text \<open>The change that a router key PDU asks for.\<close>

definition spki_change :: "'a rtr_socket_scheme \<Rightarrow> u8 list \<Rightarrow> (bool \<times> rtr_spki_record) option" where
  "spki_change s pdu =
     do { type \<leftarrow> rtr_get_pdu_type pdu; r \<leftarrow> rtr_key_pdu_2_spki_record s pdu type; flags \<leftarrow> get8 2 pdu;
          if flags = 1 then Some (True, r) else if flags = 0 then Some (False, r) else None }"

definition spki_pdu_ok :: "'a rtr_socket_scheme \<Rightarrow> u8 list \<Rightarrow> bool" where
  "spki_pdu_ok s pdu = (pdu_wf (byte_order s) pdu \<and> pdu_type_of (pdu ! 1) = ROUTER_KEY)"

lemma spki_pdu_okE:
  assumes "spki_pdu_ok s pdu"
  obtains r flags where "rtr_get_pdu_type pdu = Some ROUTER_KEY" "rtr_key_pdu_2_spki_record s pdu ROUTER_KEY = Some r"
    "get8 2 pdu = Some flags" "pdu_wf (byte_order s) pdu"
proof -
  have "length pdu = 123" using assms by (auto simp: spki_pdu_ok_def pdu_wf_def)
  then show ?thesis using assms
    by (intro that) (auto simp: spki_pdu_ok_def rtr_get_pdu_type_def get8_def rtr_key_pdu_2_spki_record_def get32_def get_bytes_def)
qed

lemma spki_change_outcome:
  assumes "spki_room (Suc n) t"
  obtains rv t' mem' where "spki_table_change announced (Some t) r mem = Some (rv, Some t', mem')"
    "set mem' \<subseteq> set mem" "spki_room n t'"
    "rv = RTR_SPKI_SUCCESS \<and> possible (announced, r) (set (spki_records t)) \<and>
       set (spki_records t') = change (announced, r) (set (spki_records t)) \<or>
     rv \<noteq> RTR_SPKI_SUCCESS \<and> t' = t \<and>
       (rv = RTR_SPKI_ERROR \<and> False \<in> set mem \<or> rv \<noteq> RTR_SPKI_ERROR \<and> \<not> possible (announced, r) (set (spki_records t)))"
proof -
  have inv: "spki_inv t" "small t" using assms by (simp_all add: spki_room_def)
  have len: "length (spki_records t) = length (spki_list t)" for t by (simp add: spki_records_def)
  show ?thesis
  proof (cases announced)
    case True
    obtain rv t' mem' where o: "spki_table_add_entry t r mem = Some (rv, t', mem')" "spki_inv t'" "set mem' \<subseteq> set mem"
      "spki_add_outcome t r (False \<in> set mem) rv t'"
      using spki_add_entry_outcome [OF inv] by blast
    have "spki_room n t'" using o(2,4) assms len [of t] len [of t'] by (auto simp: spki_room_def spki_add_outcome_def split: if_splits)
    then show ?thesis using o True by (intro that [of rv t' mem']) (auto simp: spki_table_change_def spki_add_outcome_def split: if_splits)
  next
    case False
    obtain rv t' where o: "spki_table_remove_entry t r = Some (rv, t')" "spki_inv t'" "spki_remove_outcome t r rv t'"
      using spki_remove_entry_outcome [OF inv(1)] by blast
    have "spki_room n t'" using o(2,3) assms len [of t] len [of t']
      by (auto simp: spki_room_def spki_remove_outcome_def length_remove1 split: if_splits)
    then show ?thesis using o False distinct_spki_records [OF inv(1)]
      by (intro that [of rv t' mem]) (auto simp: spki_table_change_def spki_remove_outcome_def split: if_splits)
  qed
qed

lemma spki_upd_law:
  assumes inv: "spki_room (Suc n) t" and pdu: "spki_pdu_ok s pdu"
  shows "\<exists>rv s' t' mem'. rtr_update_spki_table s (Some t) pdu mem = Some (rv, s', Some t', mem') \<and> fail_frame s s' \<and>
    set mem' \<subseteq> set mem \<and> spki_room n t' \<and>
    (rv = RTR_SUCCESS \<and> s' = s \<and> (\<exists>c. spki_change s pdu = Some c \<and> possible c (set (spki_records t)) \<and>
       set (spki_records t') = change c (set (spki_records t))) \<or>
     rv = RTR_ERROR \<and> set (spki_records t') = set (spki_records t) \<and>
       (False \<in> set mem \<or> (\<forall>c. spki_change s pdu = Some c \<longrightarrow> \<not> possible c (set (spki_records t)))))"
proof -
  obtain r flags where d: "rtr_get_pdu_type pdu = Some ROUTER_KEY" "rtr_key_pdu_2_spki_record s pdu ROUTER_KEY = Some r"
    "get8 2 pdu = Some flags" "pdu_wf (byte_order s) pdu" by (rule spki_pdu_okE [OF pdu])
  note enc = wf_enclosable [OF d(4)]
  show ?thesis
  proof (cases "flags = 1 \<or> flags = 0")
    case True
    obtain rv t' mem' where o: "spki_table_change (flags = 1) (Some t) r mem = Some (rv, Some t', mem')"
        "set mem' \<subseteq> set mem" "spki_room n t'"
        "rv = RTR_SPKI_SUCCESS \<and> possible (flags = 1, r) (set (spki_records t)) \<and>
           set (spki_records t') = change (flags = 1, r) (set (spki_records t)) \<or>
         rv \<noteq> RTR_SPKI_SUCCESS \<and> t' = t \<and>
           (rv = RTR_SPKI_ERROR \<and> False \<in> set mem \<or> rv \<noteq> RTR_SPKI_ERROR \<and> \<not> possible (flags = 1, r) (set (spki_records t)))"
      by (rule spki_change_outcome [OF inv, of "flags = 1" r mem])
    have c: "spki_change s pdu = Some (flags = 1, r)" using d True by (auto simp: spki_change_def)
    have e1: "\<exists>s'. do { (_, s) \<leftarrow> rtr_send_error_pdu_from_host s pdu err []; Some (RTR_ERROR, rtr_change_socket_state s RTR_ERROR_FATAL, Some t', mem') } =
        Some (RTR_ERROR, s', Some t', mem') \<and> fail_frame s s'" for err
      by (rule report_fatal [OF short_texts(2) enc])
    have e2: "\<exists>s'. do { (_, s) \<leftarrow> rtr_send_error_pdu_from_host s [] INTERNAL_ERROR (c_string ''spki_table Error'');
        Some (RTR_ERROR, rtr_change_socket_state s RTR_ERROR_FATAL, Some t', mem') } = Some (RTR_ERROR, s', Some t', mem') \<and> fail_frame s s'"
      by (rule report_fatal [OF short_texts(4)]) simp
    show ?thesis
      using o c d True e1 [of DUPLICATE_ANNOUNCEMENT] e1 [of WITHDRAWAL_OF_UNKNOWN_RECORD] e2 fail_frame_refl [of s]
      by (cases rv) (auto simp: rtr_update_spki_table_def)
  next
    case False
    then have "spki_change s pdu = None" using d by (simp add: spki_change_def)
    moreover obtain s' where "do { (r, s) \<leftarrow> rtr_send_error_pdu_from_host s pdu CORRUPT_DATA (c_string ''Router Key PDU with invalid flags value received'');
        Some (RTR_ERROR, s, Some t, mem) } = Some (RTR_ERROR, s', Some t, mem)" "fail_frame s s'"
      using report_error [OF short_texts(5) enc, of CORRUPT_DATA "Some t" mem] by blast
    ultimately show ?thesis using d False spki_room_mono [OF inv] by (auto simp: rtr_update_spki_table_def)
  qed
qed

lemma spki_undo_law:
  assumes inv: "spki_room (Suc n) t" and pdu: "spki_pdu_ok s pdu" and c: "spki_change s pdu = Some c" and mem: "False \<notin> set mem"
  shows "\<exists>rv t' mem'. rtr_undo_update_spki_table s (Some t) pdu mem = Some (rv, Some t', mem') \<and> rv \<noteq> RTR_ERROR \<and>
    set mem' \<subseteq> set mem \<and> spki_room n t' \<and> set (spki_records t') = change (reverse_change c) (set (spki_records t))"
proof -
  obtain r flags where d: "rtr_get_pdu_type pdu = Some ROUTER_KEY" "rtr_key_pdu_2_spki_record s pdu ROUTER_KEY = Some r"
    "get8 2 pdu = Some flags" "pdu_wf (byte_order s) pdu" by (rule spki_pdu_okE [OF pdu])
  have fl: "c = (flags = 1, r)" "flags = 1 \<or> flags = 0" using c d by (auto simp: spki_change_def split: if_splits)
  obtain rv t' mem' where o: "spki_table_change (flags \<noteq> 1) (Some t) r mem = Some (rv, Some t', mem')"
      "set mem' \<subseteq> set mem" "spki_room n t'"
      "rv = RTR_SPKI_SUCCESS \<and> possible (flags \<noteq> 1, r) (set (spki_records t)) \<and>
         set (spki_records t') = change (flags \<noteq> 1, r) (set (spki_records t)) \<or>
       rv \<noteq> RTR_SPKI_SUCCESS \<and> t' = t \<and>
         (rv = RTR_SPKI_ERROR \<and> False \<in> set mem \<or> rv \<noteq> RTR_SPKI_ERROR \<and> \<not> possible (flags \<noteq> 1, r) (set (spki_records t)))"
    by (rule spki_change_outcome [OF inv, of "flags \<noteq> 1" r mem])
  have "rtr_undo_update_spki_table s (Some t) pdu mem = Some (spki_code rv, Some t', mem')"
    using o(1) d fl(2) by (auto simp: rtr_undo_update_spki_table_def)
  moreover have "spki_code rv \<noteq> RTR_ERROR" using o(4) mem by (cases rv) auto
  moreover have "set (spki_records t') = change (reverse_change c) (set (spki_records t))"
    using o(4) mem by (auto simp: fl(1) reverse_change_def split: if_splits)
  ultimately show ?thesis using o(2,3) by blast
qed

lemma spki_change_cong:
  assumes "self s' = self s" "byte_order s' = byte_order s"
  shows "spki_change s' = spki_change s" "spki_pdu_ok s' = spki_pdu_ok s"
proof -
  have "rtr_key_pdu_2_spki_record s' pdu ty = rtr_key_pdu_2_spki_record s pdu ty" for pdu ty
    by (simp add: rtr_key_pdu_2_spki_record_def assms cong: if_cong)
  then show "spki_change s' = spki_change s" "spki_pdu_ok s' = spki_pdu_ok s"
    by (simp_all add: fun_eq_iff spki_change_def spki_pdu_ok_def assms)
qed

interpretation spki_batch: record_table spki_room "\<lambda>t. set (spki_records t)" spki_pdu_ok spki_change fail_frame
  rtr_update_spki_table rtr_undo_update_spki_table update_spki_pdus rtr_undo_update_spki_table_batch
  by unfold_locales (assumption | rule fail_frame_refl spki_room_mono spki_upd_law spki_undo_law
    | (drule fail_frame_self, intro conjI spki_change_cong; simp) | simp)+

section \<open>The ASPA table\<close>

definition aspa_pdu_ok :: "'a rtr_socket_scheme \<Rightarrow> u8 list \<Rightarrow> bool" where
  "aspa_pdu_ok s pdu = (pdu_wf (byte_order s) pdu \<and> pdu_type_of (pdu ! 1) = ASPA)"

text \<open>The operations that a list of ASPA PDUs asks for, in order of arrival.\<close>

fun aspa_ops :: "host_order \<Rightarrow> u8 list list \<Rightarrow> nat \<Rightarrow> aspa_update_operation list option" where
  "aspa_ops h [] i = Some []"
| "aspa_ops h (pdu # pdus) i =
     do { op \<leftarrow> rtr_aspa_pdu_2_aspa_operation h pdu i; ops \<leftarrow> aspa_ops h pdus (i + 1); Some (op # ops) }"

text \<open>An announcement with an empty list of providers.\<close>

definition announces_none :: "u8 list \<Rightarrow> bool" where
  "announces_none pdu = (pdu ! 2 AND 1 \<noteq> 0 \<and> length pdu < 16)"

lemma get_words_ok: "off + 4 * n \<le> length pdu \<Longrightarrow> \<exists>ws. get_words h off n pdu = Some ws"
proof (induction n arbitrary: off)
  case (Suc n)
  then obtain ws where "get_words h (off + 4) n pdu = Some ws" by fastforce
  then show ?case using Suc.prems by (simp add: get32_def)
qed simp

lemma provider_count_wf:
  assumes "aspa_pdu_ok s pdu"
  shows "rtr_aspa_provider_count (byte_order s) pdu = Some ((length pdu - 12) div 4)" "12 \<le> length pdu"
  using assms provider_count by (auto simp: aspa_pdu_ok_def pdu_wf_def)

lemma aspa_operation_ok:
  assumes "aspa_pdu_ok s pdu"
  obtains op where "rtr_aspa_pdu_2_aspa_operation (byte_order s) pdu i = Some op" "op_index op = i"
    "op_type op = RTR_ASPA_REMOVE \<longrightarrow> provider_asns (op_record op) = []"
proof -
  let ?n = "(length pdu - 12) div 4"
  note c = provider_count_wf [OF assms]
  have "12 + 4 * ?n \<le> length pdu" using c(2) by linarith
  from get_words_ok [OF this] obtain ws where "get_words (byte_order s) 12 ?n pdu = Some ws" by blast
  moreover obtain flags cust where "get8 2 pdu = Some flags" "get32 (byte_order s) 8 pdu = Some cust"
    using c(2) by (simp add: get8_def get32_def)
  ultimately show ?thesis using c(1) that
    by (cases "flags AND 1 = 1") (simp_all add: rtr_aspa_pdu_2_aspa_operation_def)
qed

lemma aspa_ops_ok:
  assumes "\<forall>pdu\<in>set pdus. aspa_pdu_ok s pdu"
  shows "\<exists>ops. aspa_ops (byte_order s) pdus i = Some ops \<and> map op_index ops = [i..<i + length pdus] \<and> removes_empty ops"
  using assms
proof (induction pdus arbitrary: i)
  case (Cons pdu pdus)
  obtain op where op: "rtr_aspa_pdu_2_aspa_operation (byte_order s) pdu i = Some op" "op_index op = i"
    "op_type op = RTR_ASPA_REMOVE \<longrightarrow> provider_asns (op_record op) = []"
    by (rule aspa_operation_ok [of s pdu i]) (use Cons.prems in auto)
  obtain ops where "aspa_ops (byte_order s) pdus (i + 1) = Some ops" "map op_index ops = [i + 1..<i + 1 + length pdus]" "removes_empty ops"
    using Cons.IH [of "i + 1"] Cons.prems by auto
  moreover from this(2) op(2) have "map op_index (op # ops) = [i..<i + length (pdu # pdus)]" by (simp add: upt_rec)
  ultimately show ?case using op by (auto simp: removes_empty_def)
qed (simp add: removes_empty_def)

lemma announces_none_iff:
  assumes "aspa_pdu_ok s pdu"
  shows "\<exists>flags. get8 2 pdu = Some flags \<and> (flags AND 1 \<noteq> 0 \<and> (length pdu - 12) div 4 = 0 \<longleftrightarrow> announces_none pdu)"
proof -
  have "(length pdu - 12) div 4 = 0 \<longleftrightarrow> length pdu < 16" using provider_count_wf(2) [OF assms] by (auto simp: div_eq_0_iff)
  then show ?thesis using provider_count_wf(2) [OF assms] by (simp add: announces_none_def get8_def)
qed

lemma aspa_operations_outcome:
  assumes "\<forall>pdu\<in>set pdus. aspa_pdu_ok s pdu"
  shows "\<exists>res. aspa_operations s pdus i = Some res \<and>
    (if \<exists>pdu\<in>set pdus. announces_none pdu then \<exists>s'. res = Inl s' \<and> fail_frame s s'
     else \<exists>ops. res = Inr ops \<and> aspa_ops (byte_order s) pdus i = Some ops)"
  using assms
proof (induction pdus arbitrary: i)
  case (Cons pdu pdus)
  have ok: "aspa_pdu_ok s pdu" using Cons.prems by simp
  obtain flags where fl: "get8 2 pdu = Some flags" "flags AND 1 \<noteq> 0 \<and> (length pdu - 12) div 4 = 0 \<longleftrightarrow> announces_none pdu"
    using announces_none_iff [OF ok] by blast
  obtain op where op: "rtr_aspa_pdu_2_aspa_operation (byte_order s) pdu i = Some op" by (rule aspa_operation_ok [OF ok])
  show ?case
  proof (cases "announces_none pdu")
    case True
    have "rtr_pdu_to_network_byte_order (byte_order s) pdu \<noteq> None" using ok by (simp add: aspa_pdu_ok_def wf_enclosable)
    then obtain rv s' where "rtr_send_error_pdu_from_host s pdu INCORRECT_ASPA_PROVIDER_LIST [] = Some (rv, s')" "send_frame s s'"
      by (rule send_error_from_host_ok [OF short_texts(2)])
    then show ?thesis using True fl provider_count_wf(1) [OF ok] by (auto intro: fail_frame_fatal)
  next
    case False
    obtain res where "aspa_operations s pdus (i + 1) = Some res"
      "if \<exists>pdu\<in>set pdus. announces_none pdu then \<exists>s'. res = Inl s' \<and> fail_frame s s'
       else \<exists>ops. res = Inr ops \<and> aspa_ops (byte_order s) pdus (i + 1) = Some ops"
      using Cons.IH [of "i + 1"] Cons.prems by auto
    then show ?thesis using False fl op provider_count_wf(1) [OF ok] by (auto split: if_splits)
  qed
qed simp

text \<open>A batch for which the computation of the update is correct: an announcement replaces a record only
  at the largest customer, and at most 128 do so. The code does not ensure this; what happens to
  other batches is shown with the properties of the ASPA update. It holds for every batch that announces no customer
  that has a record, so for everything a reset receives.\<close>

definition aspa_batch_ok :: "'a rtr_socket_scheme \<Rightarrow> rtr_aspa_table \<Rightarrow> u8 list list \<Rightarrow> bool" where
  "aspa_batch_ok s t pdus =
     ((\<forall>pdu\<in>set pdus. aspa_pdu_ok s pdu) \<and>
      (\<forall>ops. aspa_ops (byte_order s) pdus 0 = Some ops \<longrightarrow>
         length (replacing (socket_records t (self s)) ops) \<le> 128 \<and> replaces_last (socket_records t (self s)) ops))"

definition aspa_accepts :: "'a rtr_socket_scheme \<Rightarrow> rtr_aspa_table \<Rightarrow> u8 list list \<Rightarrow> bool" where
  "aspa_accepts s t pdus =
     ((\<forall>pdu\<in>set pdus. \<not> announces_none pdu) \<and>
      (\<forall>ops c st. aspa_ops (byte_order s) pdus 0 = Some ops \<longrightarrow> customer_run (record_of (socket_records t (self s)) c) (ops_of c ops) \<noteq> Inl st))"

definition aspa_kept :: "rtr_aspa_table \<Rightarrow> rtr_aspa_table \<Rightarrow> bool" where
  "aspa_kept t t' = (store_ok t' \<and> \<not> update_lock t' \<and> (\<forall>u. socket_records t' u = socket_records t u))"

definition aspa_applied :: "'a rtr_socket_scheme \<Rightarrow> rtr_aspa_table \<Rightarrow> u8 list list \<Rightarrow> rtr_aspa_table \<Rightarrow> bool" where
  "aspa_applied s t pdus t' =
     (store_ok t' \<and> \<not> update_lock t' \<and> (\<forall>u. u \<noteq> self s \<longrightarrow> socket_records t' u = socket_records t u) \<and>
      (\<exists>ops. aspa_ops (byte_order s) pdus 0 = Some ops \<and>
         (\<forall>c. customer_run (record_of (socket_records t (self s)) c) (ops_of c ops) = Inr (record_of (socket_records t' (self s)) c))) \<and>
      (if pdus = [] then t' = t else aspa_store_get_node (aspa_store t') (self s) \<noteq> None))"

lemma customer_run_status: "customer_run cur ops = Inl st \<Longrightarrow> st = RTR_ASPA_DUPLICATE_RECORD \<or> st = RTR_ASPA_RECORD_NOT_FOUND"
  by (induction cur ops rule: customer_run.induct) (auto split: if_splits)

lemma aspa_computed_failed:
  assumes "st = RTR_ASPA_DUPLICATE_RECORD \<or> st = RTR_ASPA_RECORD_NOT_FOUND"
    and "\<And>pos. upd_failed_operation upd = Some pos \<Longrightarrow> aspa_pdu_ok s (pdus ! op_index (upd_operations upd ! pos))"
  shows "\<exists>s'. aspa_computed s pdus st (Some upd) = Some (RTR_ERROR, s') \<and> fail_frame s s'"
proof (cases "upd_failed_operation upd")
  case None
  have t: "length (c_string ''aspa_table Error'') + 20 \<le> RTR_MAX_PDU_LEN" by (simp add: c_string_def RTR_MAX_PDU_LEN_def)
  obtain rv s' where "rtr_send_error_pdu_from_host s [] INTERNAL_ERROR (c_string ''aspa_table Error'') = Some (rv, s')" "send_frame s s'"
    by (rule send_error_from_host_ok [OF t, of "[]" s]) auto
  then show ?thesis using None assms(1) by (auto simp: aspa_computed_def intro: fail_frame_fatal)
next
  case (Some pos)
  let ?pdu = "pdus ! op_index (upd_operations upd ! pos)"
  have "rtr_pdu_to_network_byte_order (byte_order s) ?pdu \<noteq> None" using assms(2) [OF Some] by (simp add: aspa_pdu_ok_def wf_enclosable)
  note sent = error_sent [OF short_texts(2) this]
  show ?thesis using Some assms(1) sent [of DUPLICATE_ANNOUNCEMENT] sent [of WITHDRAWAL_OF_UNKNOWN_RECORD]
    by (auto simp: aspa_computed_def Let_def intro: fail_frame_fatal)
qed

lemma aspa_outcome:
  assumes "store_ok t" "\<not> update_lock t" "False \<notin> set mem" "aspa_batch_ok s t pdus"
  shows "\<exists>rv s' t1 upd mem1. rtr_compute_update_aspa_table s (Some t) pdus mem = Some (rv, s', Some t1, upd, mem1) \<and>
    fail_frame s s' \<and> False \<notin> set mem1 \<and>
    (if aspa_accepts s t pdus then
       rv = RTR_SUCCESS \<and> s' = s \<and>
       (\<exists>t2 mem2. finish_aspa_update (Some t1) upd True mem1 = Some (Some t2, mem2) \<and> aspa_applied s t pdus t2 \<and> False \<notin> set mem2)
     else rv = RTR_ERROR \<and>
       (\<forall>mem. \<exists>t2 mem2. finish_aspa_update (Some t1) upd False mem = Some (Some t2, mem2) \<and> aspa_kept t t2))"
proof -
  have pdus: "\<forall>pdu\<in>set pdus. aspa_pdu_ok s pdu" using assms(4) by (simp add: aspa_batch_ok_def)
  obtain ops where ops: "aspa_ops (byte_order s) pdus 0 = Some ops" "map op_index ops = [0..<length pdus]" "removes_empty ops"
    using aspa_ops_ok [OF pdus, of 0] by auto
  have acc: "aspa_accepts s t pdus \<longleftrightarrow> (\<forall>pdu\<in>set pdus. \<not> announces_none pdu) \<and>
      (\<forall>c st. customer_run (record_of (socket_records t (self s)) c) (ops_of c ops) \<noteq> Inl st)"
    using ops(1) by (simp add: aspa_accepts_def)
  obtain m1 where m1: "rtr_malloc mem = (True, m1)" "False \<notin> set m1" using rtr_malloc_fine [OF assms(3)] by blast
  obtain res where res: "aspa_operations s pdus 0 = Some res"
    "if \<exists>pdu\<in>set pdus. announces_none pdu then \<exists>s'. res = Inl s' \<and> fail_frame s s' else res = Inr ops"
    using aspa_operations_outcome [OF pdus, of 0] unfolding ops(1) by (metis option.inject)
  consider (empty) "pdus = []" | (none) s' where "pdus \<noteq> []" "\<exists>pdu\<in>set pdus. announces_none pdu" "res = Inl s'" "fail_frame s s'"
    | (ops) "pdus \<noteq> []" "\<forall>pdu\<in>set pdus. \<not> announces_none pdu" "res = Inr ops"
    using res(2) by (auto split: if_splits)
  then show ?thesis
  proof cases
    case empty
    then show ?thesis using assms(1-3) ops fail_frame_refl [of s]
      by (auto simp: rtr_compute_update_aspa_table_def aspa_accepts_def finish_aspa_update_def aspa_applied_def)
  next
    case none
    have "\<not> aspa_accepts s t pdus" using none(2) acc by blast
    then show ?thesis using none m1 res(1) assms(1,2)
      by (auto simp: rtr_compute_update_aspa_table_def finish_aspa_update_def aspa_kept_def)
  next
    case 3: ops
    have nonempty: "ops \<noteq> []" using 3(1) arg_cong [OF ops(2), of length] by auto
    have "sorted (map op_index ops)" unfolding ops(2) by simp
    moreover have "length (replacing (socket_records t (self s)) ops) \<le> 128" "replaces_last (socket_records t (self s)) ops"
      using assms(4) ops(1) by (simp_all add: aspa_batch_ok_def)
    ultimately obtain st t1 upd mem1 where
      c: "aspa_table_update_swap_in_compute t (self s) ops m1 = Some (st, t1, Some upd, mem1)" "False \<notin> set mem1"
        "if st = RTR_ASPA_SUCCESS then
           \<exists>t2 mem2. aspa_table_update_swap_in_apply t1 (Some upd) mem1 = Some (t2, mem2) \<and>
             \<not> update_lock t2 \<and> store_ok t2 \<and> (\<forall>u. u \<noteq> self s \<longrightarrow> socket_records t2 u = socket_records t u) \<and>
             (\<forall>c. customer_run (record_of (socket_records t (self s)) c) (ops_of c ops) = Inr (record_of (socket_records t2 (self s)) c)) \<and>
             aspa_store_get_node (aspa_store t2) (self s) \<noteq> None \<and> False \<notin> set mem2
         else
           (\<exists>c. customer_run (record_of (socket_records t (self s)) c) (ops_of c ops) = Inl st) \<and>
           (\<exists>t2 mem2. aspa_table_update_swap_in_discard t1 (Some upd) mem1 = Some (t2, mem2) \<and>
             \<not> update_lock t2 \<and> store_ok t2 \<and> (\<forall>u. socket_records t2 u = socket_records t u))"
      using aspa_update_outcome [OF assms(1,2) m1(2) nonempty ops(3), of "self s"] by blast
    have eq: "rtr_compute_update_aspa_table s (Some t) pdus mem =
        map_option (\<lambda>(r, s). (r, s, Some t1, Some upd, mem1)) (aspa_computed s pdus st (Some upd))"
      using 3 m1(1) res(1) c(1) by (simp add: rtr_compute_update_aspa_table_def map_option_case split: option.splits)
    show ?thesis
    proof (cases "st = RTR_ASPA_SUCCESS")
      case True
      have "aspa_computed s pdus st (Some upd) = Some (RTR_SUCCESS, s)" using True by (simp add: aspa_computed_def Let_def split: option.splits)
      moreover have "aspa_accepts s t pdus" using True c(3) 3(2) acc by auto
      ultimately show ?thesis using True c(2,3) ops(1) eq 3(1) fail_frame_refl [of s]
        by (auto simp: finish_aspa_update_def aspa_applied_def)
    next
      case False
      then obtain cust where run: "customer_run (record_of (socket_records t (self s)) cust) (ops_of cust ops) = Inl st" using c(3) by auto
      have "aspa_pdu_ok s (pdus ! op_index (upd_operations upd ! pos))" if "upd_failed_operation upd = Some pos" for pos
      proof -
        have "op_index (upd_operations upd ! pos) \<in> set (map op_index ops)" using swap_in_compute_failed [OF c(1) that] by simp
        then show ?thesis using pdus unfolding ops(2) by simp
      qed
      from aspa_computed_failed [OF customer_run_status [OF run] this]
      obtain s' where "aspa_computed s pdus st (Some upd) = Some (RTR_ERROR, s')" "fail_frame s s'" by blast
      moreover have "\<not> aspa_accepts s t pdus" using run acc by blast
      moreover have "\<exists>t2 mem2. finish_aspa_update (Some t1) (Some upd) False mem = Some (Some t2, mem2) \<and> aspa_kept t t2" for mem
        using c(3) False by (auto simp: finish_aspa_update_def aspa_table_update_swap_in_discard_def aspa_kept_def split: option.splits)
      ultimately show ?thesis using c(2) eq by auto
    qed
  qed
qed

section \<open>All tables\<close>

lemma undo_pfx_pdus_append:
  "undo_pfx_pdus s tbl (xs @ ys) mem =
     do { (r, tbl, mem) \<leftarrow> undo_pfx_pdus s tbl xs mem;
          if r = RTR_ERROR then Some (RTR_ERROR, tbl, mem) else undo_pfx_pdus s tbl ys mem }"
proof (induction xs arbitrary: tbl mem)
  case (Cons x xs)
  then show ?case by (cases "rtr_undo_update_pfx_table s tbl x mem") (simp_all add: split_def)
qed simp

lemma undo_pfx_batch: "rtr_undo_update_pfx_table_batch s tbl xs ys mem = undo_pfx_pdus s tbl (xs @ ys) mem"
  by (simp add: rtr_undo_update_pfx_table_batch_def undo_pfx_pdus_append)

text \<open>What a failed synchronisation leaves: all records, the serial number and the session as they were.\<close>

definition sync_undone ::
  "'a rtr_socket_scheme \<Rightarrow> rtr_pfx_table \<Rightarrow> rtr_spki_table \<Rightarrow> rtr_aspa_table
     \<Rightarrow> (int \<times> 'a rtr_socket_scheme \<times> tables \<times> mem) option \<Rightarrow> bool" where
  "sync_undone s p k a res =
     (\<exists>s' p' k' a' mem'. res = Some (RTR_ERROR, s', (Some p', Some k', Some a'), mem') \<and> pfx_inv p' \<and> spki_inv k' \<and>
        set (pfx_records p') = set (pfx_records p) \<and> set (spki_records k') = set (spki_records k) \<and> aspa_kept a a' \<and>
        conn_frame s s' \<and> (state s \<noteq> RTR_SHUTDOWN \<longrightarrow> state s' = RTR_ERROR_FATAL))"

lemma sync_failed_frame:
  assumes "fail_frame s s'"
  shows "conn_frame s (sync_failed s' False)" "state s \<noteq> RTR_SHUTDOWN \<Longrightarrow> state (sync_failed s' False) = RTR_ERROR_FATAL"
proof -
  show "conn_frame s (sync_failed s' False)" using fail_frame_conn [OF assms] by (simp add: sync_failed_def conn_frame_state_trans)
  show "state s \<noteq> RTR_SHUTDOWN \<Longrightarrow> state (sync_failed s' False) = RTR_ERROR_FATAL"
    using assms by (auto simp: fail_frame_def sync_failed_def change_state_state send_frame_simps(1) split: if_splits)
qed

lemma sync_undone_pfx:
  assumes "pfx_inv p" "spki_inv k" "aspa_kept a a'" "fail_frame s s'" "\<forall>pdu\<in>set (xs @ ys). pfx_pdu_ok s pdu" "False \<notin> set mem"
    and "pfx_inv p1" "accepts (pfx_change s) (xs @ ys) (set (pfx_records p))"
    and "set (pfx_records p1) = applied (pfx_change s) (xs @ ys) (set (pfx_records p))" "distinct_changes (pfx_change s) (xs @ ys)"
    and "spki_inv k'" "set (spki_records k') = set (spki_records k)"
  shows "\<exists>p2 mem2. rtr_undo_update_pfx_table_batch s' (Some p1) xs ys mem = Some (RTR_SUCCESS, Some p2, mem2) \<and>
    sync_undone s p k a (Some (RTR_ERROR, sync_failed s' False, (Some p2, Some k', Some a'), mem2))"
proof -
  obtain p2 mem2 where "undo_pfx_pdus s' (Some p1) (xs @ ys) mem = Some (RTR_SUCCESS, Some p2, mem2)" "pfx_inv p2"
    "set (pfx_records p2) = set (pfx_records p)"
    using pfx_batch.undo_restores [OF assms(7,5,6,4,8,9,10)] by blast
  then show ?thesis using assms(3,11,12) sync_failed_frame [OF assms(4)]
    by (auto simp: undo_pfx_batch sync_undone_def)
qed


definition sync_done ::
  "'a rtr_socket_scheme \<Rightarrow> rtr_pfx_table \<Rightarrow> rtr_spki_table \<Rightarrow> rtr_aspa_table \<Rightarrow> u8 list list \<Rightarrow> u8 list list \<Rightarrow> u8 list list
     \<Rightarrow> u8 list \<Rightarrow> (int \<times> 'a rtr_socket_scheme \<times> tables \<times> mem) option \<Rightarrow> bool" where
  "sync_done s p k a prefixes keys aspas eod res =
     (\<exists>p' k' a' mem'.
        res = Some (RTR_SUCCESS, s\<lparr>serial_number := dec32 (byte_order s) (take 4 (drop 8 eod))\<rparr>, (Some p', Some k', Some a'), mem') \<and>
        pfx_inv p' \<and> spki_inv k' \<and> set (pfx_records p') = applied (pfx_change s) prefixes (set (pfx_records p)) \<and>
        set (spki_records k') = applied (spki_change s) keys (set (spki_records k)) \<and> aspa_applied s a aspas a' \<and> False \<notin> set mem')"

lemma sync_aspa_stage:
  assumes inv: "pfx_inv p" "spki_inv k" "store_ok a" "\<not> update_lock a" "False \<notin> set mem"
    and pdus: "\<forall>pdu\<in>set (v4 @ v6). pfx_pdu_ok s pdu" "\<forall>pdu\<in>set keys. spki_pdu_ok s pdu" "aspa_batch_ok s a aspas" "12 \<le> length eod"
    and dist: "distinct_changes (pfx_change s) (v4 @ v6)" "distinct_changes (spki_change s) keys"
    and p1: "pfx_inv p1" "accepts (pfx_change s) (v4 @ v6) (set (pfx_records p))"
      "set (pfx_records p1) = applied (pfx_change s) (v4 @ v6) (set (pfx_records p))"
    and k1: "spki_room (length keys) k1" "accepts (spki_change s) keys (set (spki_records k))"
      "set (spki_records k1) = applied (spki_change s) keys (set (spki_records k))"
  shows "(if aspa_accepts s a aspas then sync_done s p k a (v4 @ v6) keys aspas eod else sync_undone s p k a)
    (apply_aspas s (Some p1, Some k1, Some a) v4 v6 keys aspas eod mem)"
proof -
  obtain rv s' t1 upd mem1 where
    c: "rtr_compute_update_aspa_table s (Some a) aspas mem = Some (rv, s', Some t1, upd, mem1)" "fail_frame s s'" "False \<notin> set mem1"
      "if aspa_accepts s a aspas then
         rv = RTR_SUCCESS \<and> s' = s \<and>
         (\<exists>t2 mem2. finish_aspa_update (Some t1) upd True mem1 = Some (Some t2, mem2) \<and> aspa_applied s a aspas t2 \<and> False \<notin> set mem2)
       else rv = RTR_ERROR \<and>
         (\<forall>mem. \<exists>t2 mem2. finish_aspa_update (Some t1) upd False mem = Some (Some t2, mem2) \<and> aspa_kept a t2)"
    using aspa_outcome [OF inv(3-5) pdus(3)] by blast
  show ?thesis
  proof (cases "aspa_accepts s a aspas")
    case True
    then show ?thesis using c pdus(4) p1 k1 by (auto simp: apply_aspas_def sync_done_def get32_def spki_room_def)
  next
    case False
    have "spki_room (length keys + 0) k1" using k1(1) by simp
    from spki_batch.undo_restores [OF this pdus(2) c(3,2) k1(2,3) dist(2)] obtain k2 mem2 where
      k2: "rtr_undo_update_spki_table_batch s' (Some k1) keys mem1 = Some (RTR_SUCCESS, Some k2, mem2)" "False \<notin> set mem2"
        "spki_room 0 k2" "set (spki_records k2) = set (spki_records k)" by blast
    have "spki_inv k2" using k2(3) by (simp add: spki_room_def)
    note undo = sync_undone_pfx [where s = s and k' = k2 and mem = mem2, OF inv(1,2) _ c(2) pdus(1) k2(2) p1 dist(1) this k2(4)]
    obtain t0 where "aspa_kept a t0" using c(4) False by auto
    from undo [OF this] obtain p2 mem3 where p2: "rtr_undo_update_pfx_table_batch s' (Some p1) v4 v6 mem2 = Some (RTR_SUCCESS, Some p2, mem3)"
      "sync_undone s p k a (Some (RTR_ERROR, sync_failed s' False, (Some p2, Some k2, Some t0), mem3))" by blast
    obtain t2 mem4 where t2: "finish_aspa_update (Some t1) upd False mem3 = Some (Some t2, mem4)" "aspa_kept a t2"
      using c(4) False by (auto dest: spec [of _ mem3])
    have "sync_undone s p k a (Some (RTR_ERROR, sync_failed s' False, (Some p2, Some k2, Some t2), mem4))"
      using p2(2) t2(2) by (auto simp: sync_undone_def)
    then show ?thesis using False c k2(1) p2(1) t2(1) by (simp add: apply_aspas_def)
  qed
qed

lemma sync_keys_stage:
  assumes inv: "pfx_inv p" "spki_inv k" "length (spki_list k) + 2 * length keys < 2 ^ 29" "store_ok a" "\<not> update_lock a" "False \<notin> set mem"
    and pdus: "\<forall>pdu\<in>set (v4 @ v6). pfx_pdu_ok s pdu" "\<forall>pdu\<in>set keys. spki_pdu_ok s pdu" "aspa_batch_ok s a aspas" "12 \<le> length eod"
    and dist: "distinct_changes (pfx_change s) (v4 @ v6)" "distinct_changes (spki_change s) keys"
    and p1: "pfx_inv p1" "accepts (pfx_change s) (v4 @ v6) (set (pfx_records p))"
      "set (pfx_records p1) = applied (pfx_change s) (v4 @ v6) (set (pfx_records p))"
  shows "(if accepts (spki_change s) keys (set (spki_records k)) \<and> aspa_accepts s a aspas
     then sync_done s p k a (v4 @ v6) keys aspas eod else sync_undone s p k a)
    (apply_keys s (Some p1, Some k, Some a) v4 v6 keys aspas eod mem)"
proof -
  let ?K = "set (spki_records k)"
  have room: "spki_room (length keys + length keys) k" using inv(2,3) by (simp add: spki_room_def)
  obtain f s1 k1 m1 n where
    u: "update_spki_pdus s (Some k) keys 0 mem = Some (f, s1, Some k1, m1)" "fail_frame s s1" "False \<notin> set m1" "spki_room (length keys) k1"
      "accepts (spki_change s) (take n keys) ?K" "set (spki_records k1) = applied (spki_change s) (take n keys) ?K"
      "if accepts (spki_change s) keys ?K then f = None \<and> s1 = s \<and> n = length keys
       else f = Some (0 + n) \<and> n < length keys \<and> \<not> accepts (spki_change s) (take (Suc n) keys) ?K"
    using spki_batch.upd_all_outcome [OF room pdus(2) inv(6), of 0] by blast
  show ?thesis
  proof (cases "accepts (spki_change s) keys ?K")
    case True
    then have s1: "f = None" "s1 = s" "take n keys = keys" using u(7) by auto
    have "set (spki_records k1) = applied (spki_change s) keys ?K" using u(6) s1(3) by simp
    from sync_aspa_stage [OF inv(1,2,4,5) u(3) pdus dist p1 u(4) True this]
    show ?thesis using True u(1) s1 by (simp add: apply_keys_def)
  next
    case False
    have d: "distinct_changes (spki_change s) (take n keys)" using dist(2) by (metis append_take_drop_id distinct_changes_append)
    have ok: "\<forall>pdu\<in>set (take n keys). spki_pdu_ok s pdu" using pdus(2) by (auto dest: in_set_takeD)
    have "spki_room (length (take n keys) + 0) k1" using u(4) by (rule spki_room_mono) simp
    from spki_batch.undo_restores [OF this ok u(3,2,5,6) d] obtain k2 m2 where
      k2: "rtr_undo_update_spki_table_batch s1 (Some k1) (take n keys) m1 = Some (RTR_SUCCESS, Some k2, m2)" "False \<notin> set m2"
        "spki_room 0 k2" "set (spki_records k2) = ?K" by blast
    have "spki_inv k2" "aspa_kept a a" using k2(3) inv(4,5) by (simp_all add: spki_room_def aspa_kept_def)
    from sync_undone_pfx [OF inv(1,2) this(2) u(2) pdus(1) k2(2) p1 dist(1) this(1) k2(4)] show ?thesis
      using False u(1,7) k2(1) by (auto simp: apply_keys_def)
  qed
qed

text \<open>The whole batch.\<close>

lemma sync_update_tables_outcome:
  assumes inv: "pfx_inv p" "spki_inv k" "length (spki_list k) + 2 * length keys < 2 ^ 29" "store_ok a" "\<not> update_lock a" "False \<notin> set mem"
    and pdus: "\<forall>pdu\<in>set (v4 @ v6). pfx_pdu_ok s pdu" "\<forall>pdu\<in>set keys. spki_pdu_ok s pdu" "aspa_batch_ok s a aspas" "12 \<le> length eod"
    and dist: "distinct_changes (pfx_change s) (v4 @ v6)" "distinct_changes (spki_change s) keys"
  shows "(if accepts (pfx_change s) (v4 @ v6) (set (pfx_records p)) \<and> accepts (spki_change s) keys (set (spki_records k)) \<and> aspa_accepts s a aspas
     then sync_done s p k a (v4 @ v6) keys aspas eod else sync_undone s p k a)
    (rtr_sync_update_tables s (Some p, Some k, Some a) v4 v6 keys aspas eod mem)"
proof -
  let ?P = "set (pfx_records p)" and ?K = "set (spki_records k)"
  have kept: "aspa_kept a a" using inv(4,5) by (simp add: aspa_kept_def)
  obtain f s1 p1 m1 n where
    u1: "update_pfx_pdus s (Some p) v4 0 mem = Some (f, s1, Some p1, m1)" "fail_frame s s1" "False \<notin> set m1" "pfx_inv p1"
      "accepts (pfx_change s) (take n v4) ?P" "set (pfx_records p1) = applied (pfx_change s) (take n v4) ?P"
      "if accepts (pfx_change s) v4 ?P then f = None \<and> s1 = s \<and> n = length v4
       else f = Some (0 + n) \<and> n < length v4 \<and> \<not> accepts (pfx_change s) (take (Suc n) v4) ?P"
    using pfx_batch.upd_all_outcome [OF inv(1) _ inv(6), of v4 s 0] pdus(1) by auto
  show ?thesis
  proof (cases "accepts (pfx_change s) v4 ?P")
    case False
    have d: "distinct_changes (pfx_change s) (take n v4 @ [])" using dist(1) by (metis append_Nil2 append_take_drop_id distinct_changes_append)
    have ok: "\<forall>pdu\<in>set (take n v4 @ []). pfx_pdu_ok s pdu" using pdus(1) by (auto dest: in_set_takeD)
    obtain p2 mem2 where "rtr_undo_update_pfx_table_batch s1 (Some p1) (take n v4) [] m1 = Some (RTR_SUCCESS, Some p2, mem2)"
      "sync_undone s p k a (Some (RTR_ERROR, sync_failed s1 False, (Some p2, Some k, Some a), mem2))"
      using sync_undone_pfx [OF inv(1,2) kept u1(2) ok u1(3,4) _ _ d inv(2) refl] u1(5,6) by auto
    then show ?thesis using False u1(1,7) by (auto simp: rtr_sync_update_tables_def accepts_append)
  next
    case v4: True
    then have s1: "f = None" "s1 = s" "take n v4 = v4" using u1(7) by auto
    let ?P1 = "applied (pfx_change s) v4 ?P"
    have P1: "set (pfx_records p1) = ?P1" using u1(6) s1(3) by simp
    obtain f' s2 p2 m2 n' where
      u2: "update_pfx_pdus s (Some p1) v6 0 m1 = Some (f', s2, Some p2, m2)" "fail_frame s s2" "False \<notin> set m2" "pfx_inv p2"
        "accepts (pfx_change s) (take n' v6) ?P1" "set (pfx_records p2) = applied (pfx_change s) (take n' v6) ?P1"
        "if accepts (pfx_change s) v6 ?P1 then f' = None \<and> s2 = s \<and> n' = length v6
         else f' = Some (0 + n') \<and> n' < length v6 \<and> \<not> accepts (pfx_change s) (take (Suc n') v6) ?P1"
      using pfx_batch.upd_all_outcome [OF u1(4) _ u1(3), of v6 s 0] pdus(1) unfolding P1 by auto
    show ?thesis
    proof (cases "accepts (pfx_change s) v6 ?P1")
      case False
      have "v4 @ v6 = (v4 @ take n' v6) @ drop n' v6" by simp
      then have d: "distinct_changes (pfx_change s) (v4 @ take n' v6)" using dist(1) by (metis distinct_changes_append)
      have ok: "\<forall>pdu\<in>set (v4 @ take n' v6). pfx_pdu_ok s pdu" using pdus(1) by (auto dest: in_set_takeD)
      obtain p3 mem3 where "rtr_undo_update_pfx_table_batch s2 (Some p2) v4 (take n' v6) m2 = Some (RTR_SUCCESS, Some p3, mem3)"
        "sync_undone s p k a (Some (RTR_ERROR, sync_failed s2 False, (Some p3, Some k, Some a), mem3))"
        using sync_undone_pfx [OF inv(1,2) kept u2(2) ok u2(3,4) _ _ d inv(2) refl] u2(5,6) v4 by (auto simp: accepts_append applied_append)
      then show ?thesis using False v4 s1 u1(1) u2(1,7) by (auto simp: rtr_sync_update_tables_def accepts_append)
    next
      case v6: True
      then have s2: "f' = None" "s2 = s" "take n' v6 = v6" using u2(7) by auto
      have acc: "accepts (pfx_change s) (v4 @ v6) ?P" "set (pfx_records p2) = applied (pfx_change s) (v4 @ v6) ?P"
        using v4 v6 u2(6) s2(3) by (simp_all add: accepts_append applied_append)
      from sync_keys_stage [OF inv(1-5) u2(3) pdus dist u2(4) this] show ?thesis
        using acc(1) s1 s2 u1(1) u2(1) by (simp add: rtr_sync_update_tables_def)
    qed
  qed
qed

lemma undo_repeated:
  assumes "pfx_inv p" "False \<notin> set mem" "\<forall>pdu\<in>{ann, wd, bad}. pfx_pdu_ok s pdu"
    and "pfx_change s ann = Some (True, r)" "pfx_change s wd = Some (False, r)" "r \<notin> set (pfx_records p)"
    and "\<not> accepts (pfx_change s) [bad] (set (pfx_records p))"
  shows "\<exists>s' p' mem'. rtr_sync_update_tables s (Some p, k, a) [ann, wd, bad] [] keys aspas eod mem = Some (RTR_ERROR, s', (Some p', k, a), mem') \<and>
    set (pfx_records p') = insert r (set (pfx_records p))"
proof -
  let ?A = "set (pfx_records p)" and ?pdus = "[ann, wd, bad]"
  have two: "accepts (pfx_change s) [ann, wd] ?A" "applied (pfx_change s) [ann, wd] ?A = ?A"
    using assms(4-6) by (auto simp: accepts_def applied_def List.map_filter_simps)
  have "accepts (pfx_change s) ([ann, wd] @ [bad]) ?A = False" unfolding accepts_append two using assms(7) by simp
  then have three: "\<not> accepts (pfx_change s) ?pdus ?A" by simp
  have ok: "\<forall>pdu\<in>set ?pdus. pfx_pdu_ok s pdu" using assms(3) by simp
  obtain f s1 p1 m1 n where
    u: "update_pfx_pdus s (Some p) ?pdus 0 mem = Some (f, s1, Some p1, m1)" "fail_frame s s1" "False \<notin> set m1" "pfx_inv p1"
      "accepts (pfx_change s) (take n ?pdus) ?A" "set (pfx_records p1) = applied (pfx_change s) (take n ?pdus) ?A"
      "f = Some n \<and> n < length ?pdus \<and> \<not> accepts (pfx_change s) (take (Suc n) ?pdus) ?A"
    using pfx_batch.upd_all_outcome [OF assms(1) ok assms(2), of 0] three by auto
  have "accepts (pfx_change s) ([ann] @ [wd]) ?A" using two(1) by simp
  then have "accepts (pfx_change s) [ann] ?A" unfolding accepts_append by blast
  then have n: "n = 2" using u(7) two(1) by (cases "n = 0"; cases "n = 1") auto
  then have p1: "set (pfx_records p1) = ?A" using u(6) two(2) by simp
  have cong: "pfx_change s1 = pfx_change s" "pfx_pdu_ok s1 = pfx_pdu_ok s" using pfx_batch.frame_law [OF u(2)] by simp_all
  have "map (pfx_change s1) [ann, wd] = map Some [(True, r), (False, r)]" "\<forall>pdu\<in>set [ann, wd]. pfx_pdu_ok s1 pdu"
    using assms(3-5) by (simp_all add: cong)
  from pfx_batch.undo_all_law [OF u(4) this(2,1) u(3)] obtain p2 m2 where
    "undo_pfx_pdus s1 (Some p1) [ann, wd] m1 = Some (RTR_SUCCESS, Some p2, m2)" "set (pfx_records p2) = insert r ?A"
    by (auto simp: reverse_change_def p1)
  then show ?thesis using u(1,7) n
    by (simp add: rtr_sync_update_tables_def undo_pfx_batch del: update_pfx_pdus.simps undo_pfx_pdus.simps)
qed

section \<open>Properties\<close>

text \<open>C2: applying the PDUs of a synchronisation is atomic, under these conditions: the tables are in good order and
  have room for the keys; the PDUs are well-formed, their prefixes have no bits behind their length, and no two of
  them are about the same prefix record or the same router key; an ASPA announcement replaces a record that exists
  only if no operation of the batch has a larger customer ASN, and at most 128 announcements do so
  (\<open>aspa_batch_ok\<close>); no allocation fails. Then the batch is accepted exactly when every announced
  prefix and router key is new, every withdrawn one is known, all flags are valid and the operations of every
  customer in the ASPA PDUs can be carried out. Then the three tables hold exactly the records that the
  changes lead to and the serial number is that of the End of Data PDU. Otherwise the error is reported, the
  socket is in the fatal error state, and all tables hold the records they held before, with the serial number
  and the session unchanged.\<close>

theorem sync_update_atomic:
  assumes "pfx_inv p" "spki_inv k" "length (spki_list k) + 2 * length keys < 2 ^ 29" "store_ok a" "\<not> update_lock a" "False \<notin> set mem"
    and "\<forall>pdu\<in>set (v4 @ v6). pfx_pdu_ok s pdu" "\<forall>pdu\<in>set keys. spki_pdu_ok s pdu" "aspa_batch_ok s a aspas" "12 \<le> length eod"
    and "distinct_changes (pfx_change s) (v4 @ v6)" "distinct_changes (spki_change s) keys" "state s \<noteq> RTR_SHUTDOWN"
  shows "\<exists>rv s' p' k' a' mem'.
    rtr_sync_update_tables s (Some p, Some k, Some a) v4 v6 keys aspas eod mem = Some (rv, s', (Some p', Some k', Some a'), mem') \<and>
    pfx_inv p' \<and> spki_inv k' \<and>
    (if accepts (pfx_change s) (v4 @ v6) (set (pfx_records p)) \<and> accepts (spki_change s) keys (set (spki_records k)) \<and> aspa_accepts s a aspas
     then rv = RTR_SUCCESS \<and> s' = s\<lparr>serial_number := dec32 (byte_order s) (take 4 (drop 8 eod))\<rparr> \<and>
       set (pfx_records p') = applied (pfx_change s) (v4 @ v6) (set (pfx_records p)) \<and>
       set (spki_records k') = applied (spki_change s) keys (set (spki_records k)) \<and> aspa_applied s a aspas a'
     else rv = RTR_ERROR \<and> state s' = RTR_ERROR_FATAL \<and> serial_number s' = serial_number s \<and>
       session_id s' = session_id s \<and> request_session_id s' = request_session_id s \<and>
       set (pfx_records p') = set (pfx_records p) \<and> set (spki_records k') = set (spki_records k) \<and> aspa_kept a a')"
  using sync_update_tables_outcome [OF assms(1-12)] assms(13)
  by (simp split: if_splits) (force simp: sync_done_def sync_undone_def conn_frame_def)+

definition prefix_pdu :: "u8 \<Rightarrow> u8 \<Rightarrow> u8 list" where
  "prefix_pdu flags first = [1, 4, 0, 0, 20, 0, 0, 0, flags, 8, 24, 0, 0, 0, 0, first, 7, 0, 0, 0]"

lemma prefix_pdu_sample:
  assumes "flags = 0 \<or> flags = 1" "self s = 1" "byte_order s = Little_Endian"
  shows "pfx_pdu_ok s (prefix_pdu flags 10)"
    "pfx_change s (prefix_pdu flags 10) =
      Some (flags = 1, \<lparr>pr_asn = 7, pr_prefix = Ip4 0x0A000000, pr_min_len = 8, pr_max_len = 24, pr_socket = 1\<rparr>)"
    "pdu_wf Little_Endian (prefix_pdu flags 10)"
proof -
  let ?r = "\<lparr>pr_asn = 7, pr_prefix = Ip4 0x0A000000, pr_min_len = 8, pr_max_len = 24, pr_socket = 1\<rparr>"
  have r: "rtr_prefix_pdu_2_pfx_record s (prefix_pdu flags 10) IPV4_PREFIX = Some ?r"
    by (simp add: rtr_prefix_pdu_2_pfx_record_def prefix_pdu_def assms get32_def get8_def dec32_def)
  have ty: "pdu_type_of (prefix_pdu flags 10 ! 1) = IPV4_PREFIX" by (simp add: prefix_pdu_def pdu_type_of_def)
  then show wf: "pdu_wf Little_Endian (prefix_pdu flags 10)"
    by (simp add: pdu_wf_def prefix_pdu_def field32_def dec32_def RTR_MAX_PDU_LEN_def)
  have "rec_ok ?r" by (simp add: rec_ok_def canonical_Ip4)
  with r ty wf show "pfx_pdu_ok s (prefix_pdu flags 10)" by (simp add: pfx_pdu_ok_def assms)
  show "pfx_change s (prefix_pdu flags 10) = Some (flags = 1, ?r)"
    using r ty assms by (auto simp: pfx_change_def rtr_get_pdu_type_def get8_def prefix_pdu_def)
qed

lemma sample_socket_fields: "self (sample_socket evs) = 1" "byte_order (sample_socket evs) = Little_Endian"
  by (simp_all add: sample_socket_def)

theorem sync_update_atomic_witness:
  "\<exists>rv s' p' k' a' mem'. rtr_sync_update_tables (sample_socket []) (Some (rtr_pfx_table_init True), Some (spki_table_init True), Some (rtr_aspa_table_init True))
      [prefix_pdu 1 10] [] [] [] (replicate 12 0) [] = Some (rv, s', (Some p', Some k', Some a'), mem') \<and> rv = RTR_SUCCESS \<and>
    set (pfx_records p') = {\<lparr>pr_asn = 7, pr_prefix = Ip4 0x0A000000, pr_min_len = 8, pr_max_len = 24, pr_socket = 1\<rparr>}"
proof -
  let ?s = "sample_socket []" and ?p = "rtr_pfx_table_init True" and ?k = "spki_table_init True" and ?a = "rtr_aspa_table_init True"
  note pdu = prefix_pdu_sample [of 1 ?s, OF _ sample_socket_fields, simplified]
  have p: "pfx_inv ?p" "pfx_records ?p = []"
    by (simp_all add: rtr_pfx_table_init_def pfx_inv_def pfx_trie_inv_def pfx_records_def)
  have k: "spki_list ?k = []" "state ?s \<noteq> RTR_SHUTDOWN" by (simp_all add: spki_table_init_def sample_socket_def)
  have a: "store_ok ?a" "\<not> update_lock ?a" by (simp_all add: rtr_aspa_table_init_def store_ok_def)
  have aspa: "aspa_batch_ok ?s ?a []" "aspa_accepts ?s ?a []"
    by (simp_all add: aspa_batch_ok_def aspa_accepts_def replacing_def replaces_last_def)
  have "List.map_filter (pfx_change ?s) ([prefix_pdu 1 10] @ []) = [the (pfx_change ?s (prefix_pdu 1 10))]"
    using pdu by (simp add: List.map_filter_simps)
  then have acc: "distinct_changes (pfx_change ?s) ([prefix_pdu 1 10] @ [])" "accepts (pfx_change ?s) ([prefix_pdu 1 10] @ []) (set (pfx_records ?p))"
    "applied (pfx_change ?s) ([prefix_pdu 1 10] @ []) (set (pfx_records ?p)) = {snd (the (pfx_change ?s (prefix_pdu 1 10)))}"
    using pdu p by (simp_all add: distinct_changes_def accepts_def applied_def)
  have keys: "distinct_changes (spki_change ?s) []" by (simp add: distinct_changes_def List.map_filter_simps)
  have room: "length (spki_list ?k) + 2 * length ([] :: u8 list list) < 2 ^ 29" by (simp add: k)
  have ok: "\<forall>pdu\<in>set ([prefix_pdu 1 10] @ []). pfx_pdu_ok ?s pdu" using pdu(1) by simp
  note res = sync_update_atomic [OF p(1) spki_inv_init room a _ ok _ aspa(1) _ acc(1) keys k(2), of "[]" "replicate 12 0"]
  show ?thesis using res acc(2,3) aspa(2) pdu(2) by auto
qed


text \<open>C36: the undoing of a failed batch runs in the order of the changes, not backwards, so it does not
  restore a record that the batch announced and then withdrew: after an error report for the third PDU the
  table holds a record that it did not hold before and that the cache had withdrawn.\<close>

theorem failed_sync_keeps_withdrawn_record:
  assumes "pfx_inv p" "False \<notin> set mem" "\<forall>pdu\<in>{ann, wd, bad}. pfx_pdu_ok s pdu"
    and "pfx_change s ann = Some (True, r)" "pfx_change s wd = Some (False, r)" "r \<notin> set (pfx_records p)"
    and "\<not> accepts (pfx_change s) [bad] (set (pfx_records p))"
  shows "\<exists>s' p' mem'. rtr_sync_update_tables s (Some p, k, a) [ann, wd, bad] [] keys aspas eod mem = Some (RTR_ERROR, s', (Some p', k, a), mem') \<and>
    set (pfx_records p') = insert r (set (pfx_records p)) \<and> r \<notin> set (pfx_records p)"
  using undo_repeated [OF assms] assms(6) by blast

theorem failed_sync_keeps_withdrawn_record_witness:
  "\<exists>s' p' mem'. rtr_sync_update_tables (sample_socket []) (Some (rtr_pfx_table_init True), None, None)
      [prefix_pdu 1 10, prefix_pdu 0 10, prefix_pdu 0 10] [] [] [] [] [] = Some (RTR_ERROR, s', (Some p', None, None), mem') \<and>
    pfx_records p' \<noteq> []"
proof -
  let ?s = "sample_socket []" and ?p = "rtr_pfx_table_init True"
  have p: "pfx_inv ?p" "pfx_records ?p = []"
    by (simp_all add: rtr_pfx_table_init_def pfx_inv_def pfx_trie_inv_def pfx_records_def)
  have "pfx_change ?s (prefix_pdu 1 10) = Some (True, snd (the (pfx_change ?s (prefix_pdu 1 10))))"
    "pfx_change ?s (prefix_pdu 0 10) = Some (False, snd (the (pfx_change ?s (prefix_pdu 1 10))))"
    using prefix_pdu_sample(2) [of _ ?s, OF _ sample_socket_fields] by simp_all
  note c = this
  have ok: "\<forall>pdu\<in>{prefix_pdu 1 10, prefix_pdu 0 10, prefix_pdu 0 10}. pfx_pdu_ok ?s pdu"
    using prefix_pdu_sample(1) [of _ ?s, OF _ sample_socket_fields] by simp
  have "\<not> accepts (pfx_change ?s) [prefix_pdu 0 10] (set (pfx_records ?p))"
    using c(2) p(2) by (simp add: accepts_def List.map_filter_simps)
  with failed_sync_keeps_withdrawn_record [OF p(1) _ ok c, of "[]" None None "[]" "[]" "[]"] show ?thesis
    using p(2) by fastforce
qed

end
