(* ===== verification/Rtr_Session.thy ===== *)
theory Rtr_Session
  imports Rtr_Batch
begin

text \<open>
  A synchronisation as a whole: what it leaves alone for every input, that its receiving part ends for every
  input without leaving the buffers, with a relation that describes what has been read, and what it does when the cache answers properly.
\<close>

section \<open>What a synchronisation leaves alone\<close>

text \<open>The identity of the socket, its configuration and the clock stay; the version only goes down, the timers
  stay in their ranges unless every value is to be accepted, and the state only changes to a failure.\<close>

definition sync_frame :: "'a rtr_socket_scheme \<Rightarrow> 'a rtr_socket_scheme \<Rightarrow> bool" where
  "sync_frame s s' =
     (self s' = self s \<and> byte_order s' = byte_order s \<and> iv_mode s' = iv_mode s \<and> thread_id s' = thread_id s \<and>
      connection_state_fp s' = connection_state_fp s \<and> version s' \<le> version s \<and> may_fail (state s) (state s') \<and>
      clock (tr_socket s') = clock (tr_socket s) \<and> opens (tr_socket s') = opens (tr_socket s) \<and>
      (iv_mode s \<noteq> RTR_INTERVAL_MODE_ACCEPT_ANY \<and> intervals_ok s \<longrightarrow> intervals_ok s'))"

lemma sync_frame_refl [simp]: "sync_frame s s"
  by (simp add: sync_frame_def)

lemma sync_frame_trans: "sync_frame s s' \<Longrightarrow> sync_frame s' s'' \<Longrightarrow> sync_frame s s''"
  by (auto simp: sync_frame_def intro: may_fail_trans)

lemma conn_sync_frame: "conn_frame s s' \<Longrightarrow> sync_frame s s'"
  by (simp add: conn_frame_def sync_frame_def intervals_ok_def)

lemma send_sync_frame: "send_frame s s' \<Longrightarrow> sync_frame s s'"
  by (rule conn_sync_frame [OF send_frame_conn])

lemma sync_frame_state: "sync_frame s s' \<Longrightarrow> st \<in> failure_states \<Longrightarrow> sync_frame s (rtr_change_socket_state s' st)"
  using sync_frame_trans conn_sync_frame conn_frame_state by blast

lemma sync_frame_updates:
  "sync_frame s (s'\<lparr>allocs := mem\<rparr>) = sync_frame s s'" "sync_frame s (s'\<lparr>pfx_table := p\<rparr>) = sync_frame s s'"
  "sync_frame s (s'\<lparr>spki_table := k\<rparr>) = sync_frame s s'" "sync_frame s (s'\<lparr>aspa_table := a\<rparr>) = sync_frame s s'"
  by (simp_all add: sync_frame_def intervals_ok_def)

lemma sync_frame_session:
  "sync_frame s (s'\<lparr>is_resetting := b\<rparr>) = sync_frame s s'" "sync_frame s (s'\<lparr>request_session_id := b\<rparr>) = sync_frame s s'"
  "sync_frame s (s'\<lparr>serial_number := n\<rparr>) = sync_frame s s'" "sync_frame s (s'\<lparr>last_update := t\<rparr>) = sync_frame s s'"
  "sync_frame s (s'\<lparr>session_id := i\<rparr>) = sync_frame s s'"
  by (simp_all add: sync_frame_def intervals_ok_def)

lemma send_error_sync_frame: "rtr_send_error_pdu_from_host s enc err msg = Some (rv, s') \<Longrightarrow> sync_frame s s'"
  by (rule send_sync_frame [OF send_error_from_host_frame])

lemma sync_pdu_frame: "sync_pdu s store buf type = Some (r, s', store') \<Longrightarrow> sync_frame s s'"
  by (drule sync_pdu_conn_frame, drule conn_sync_frame) (simp add: sync_frame_updates)

lemma update_pfx_sync_frame: "rtr_update_pfx_table s tbl pdu mem = Some (r, s', tbl', mem') \<Longrightarrow> sync_frame s s'"
  by (auto simp: rtr_update_pfx_table_def simp del: rtr_pfx_table_add.simps rtr_pfx_table_remove.simps split: if_splits
      elim!: bind_SomeE dest!: send_error_sync_frame intro!: sync_frame_state)

lemma update_spki_sync_frame: "rtr_update_spki_table s tbl pdu mem = Some (r, s', tbl', mem') \<Longrightarrow> sync_frame s s'"
  by (auto simp: rtr_update_spki_table_def split: if_splits elim!: bind_SomeE dest!: send_error_sync_frame intro!: sync_frame_state)

lemma update_pdus_sync_frame:
  "update_pfx_pdus s pt pdus i mem = Some (f, s', pt', mem') \<Longrightarrow> sync_frame s s'"
  "update_spki_pdus s kt pdus i mem = Some (f, s', kt', mem') \<Longrightarrow> sync_frame s s'"
  by (induction pdus arbitrary: s pt kt i mem)
    (auto split: if_splits elim!: bind_SomeE dest: update_pfx_sync_frame update_spki_sync_frame intro: sync_frame_trans)

lemma aspa_operations_sync_frame: "aspa_operations s pdus i = Some (Inl s') \<Longrightarrow> sync_frame s s'"
proof (induction pdus arbitrary: i)
  case (Cons pdu pdus)
  then show ?case
    by (auto simp: map_sum_def split: if_splits sum.splits elim!: bind_SomeE dest!: send_error_sync_frame intro!: sync_frame_state)
qed simp

lemma aspa_computed_sync_frame: "aspa_computed s pdus st upd = Some (r, s') \<Longrightarrow> sync_frame s s'"
  by (auto simp: aspa_computed_def Let_def split: option.splits if_splits elim!: bind_SomeE dest!: send_error_sync_frame
      intro: sync_frame_state)

lemma compute_aspa_sync_frame: "rtr_compute_update_aspa_table s tbl pdus mem = Some (r, s', tbl', upd, mem') \<Longrightarrow> sync_frame s s'"
  by (auto simp: rtr_compute_update_aspa_table_def Let_def split: option.splits if_splits prod.splits sum.splits elim!: bind_SomeE
      dest: aspa_operations_sync_frame aspa_computed_sync_frame conn_sync_frame [OF out_of_memory_frame])

lemma sync_failed_sync_frame: "sync_frame s s' \<Longrightarrow> sync_frame s (sync_failed s' b)"
  by (auto simp: sync_failed_def sync_frame_session intro!: sync_frame_state)

lemma apply_aspas_sync_frame: "apply_aspas s tbls v4 v6 keys aspas eod mem = Some (r, s', tbls', mem') \<Longrightarrow> sync_frame s s'"
  by (auto simp: apply_aspas_def sync_frame_session split: prod.splits if_splits elim!: bind_SomeE
      dest!: compute_aspa_sync_frame intro!: sync_failed_sync_frame)

lemma apply_keys_sync_frame: "apply_keys s tbls v4 v6 keys aspas eod mem = Some (r, s', tbls', mem') \<Longrightarrow> sync_frame s s'"
  by (auto simp: apply_keys_def split: prod.splits option.splits elim!: bind_SomeE dest!: update_pdus_sync_frame apply_aspas_sync_frame
      intro: sync_failed_sync_frame sync_frame_trans)

lemma update_tables_sync_frame: "rtr_sync_update_tables s tbls v4 v6 keys aspas eod mem = Some (r, s', tbls', mem') \<Longrightarrow> sync_frame s s'"
  by (auto simp: rtr_sync_update_tables_def split: prod.splits option.splits elim!: bind_SomeE dest!: update_pdus_sync_frame apply_keys_sync_frame
      intro!: sync_failed_sync_frame) (blast intro: sync_frame_trans)+

lemma check_interval_sync_frame: "sync_frame s (snd (rtr_check_interval_option s (iv_mode s) v ty))"
proof -
  have "sync_frame s (snd (rtr_check_interval_option s (iv_mode s) v ty)) \<longleftrightarrow>
      (iv_mode s \<noteq> RTR_INTERVAL_MODE_ACCEPT_ANY \<and> intervals_ok s \<longrightarrow> intervals_ok (snd (rtr_check_interval_option s (iv_mode s) v ty)))"
    by (cases ty) (simp_all add: sync_frame_def rtr_check_interval_option_def Let_def)
  then show ?thesis using check_interval_option_ok by blast
qed

lemma check_interval_success: "fst (rtr_check_interval_option s m v ty) = RTR_SUCCESS"
  by (simp add: rtr_check_interval_option_def split_def Let_def)

lemma eod_interval_outcome: "eod_interval s buf off ty =
    map_option (\<lambda>v. (RTR_SUCCESS, snd (rtr_check_interval_option s (iv_mode s) v ty))) (get32 (byte_order s) off buf)"
  using check_interval_success [of s "iv_mode s"]
  by (cases "get32 (byte_order s) off buf") (simp_all add: eod_interval_def split_def)

lemma eod_interval_sync_frame: "eod_interval s buf off ty = Some (r, s') \<Longrightarrow> sync_frame s s'"
  by (auto simp: eod_interval_outcome check_interval_sync_frame)

lemma handle_eod_sync_frame: "rtr_handle_eod_pdu s buf = Some (r, s') \<Longrightarrow> sync_frame s s'"
  by (auto simp: rtr_handle_eod_pdu_def split: if_splits elim!: bind_SomeE dest!: eod_interval_sync_frame send_error_sync_frame
      intro!: sync_frame_state) (blast intro: sync_frame_trans)+

lemma swap_tables_in_sync_frame: "swap_tables_in s p k a = Some (s', shadows) \<Longrightarrow> sync_frame s s'"
  by (auto simp: swap_tables_in_def sync_frame_updates Let_def simp del: aspa_table_src_replace.simps split: prod.splits elim!: bind_SomeE)

lemma free_shadow_tables_sync_frame: "free_shadow_tables s tbls = Some s' \<Longrightarrow> sync_frame s s'"
  by (auto simp: free_shadow_tables_def sync_frame_updates sync_frame_session simp del: rtr_aspa_table_free.simps
      split: prod.splits elim!: bind_SomeE)

lemma sync_reset_sync_frame:
  assumes "sync_reset s store eod = Some (r, s')"
  shows "sync_frame s s'"
proof -
  have upd: "sync_frame s s2" if "rtr_sync_update_tables s t a b c d e m = Some (r, s1, t', m')" "free_shadow_tables (s1\<lparr>allocs := m'\<rparr>) x = Some s2"
    for t a b c d e m r s1 t' m' x s2
    using update_tables_sync_frame [OF that(1)] free_shadow_tables_sync_frame [OF that(2)] sync_frame_updates(1) sync_frame_trans by blast
  have swap: "sync_frame s s3"
    if "rtr_sync_update_tables s t a b c d e m = Some (r, s1, t', m')" "swap_tables_in (s1\<lparr>allocs := m'\<rparr>) p k y = Some (s2, x)" "free_shadow_tables s2 x = Some s3"
    for t a b c d e m r s1 t' m' x p k y s2 s3
    using update_tables_sync_frame [OF that(1)] swap_tables_in_sync_frame [OF that(2)] free_shadow_tables_sync_frame [OF that(3)]
      sync_frame_updates(1) sync_frame_trans by blast
  have none: "sync_frame s s2" if "free_shadow_tables (s\<lparr>allocs := m\<rparr>) x = Some s2" for m x s2
    using free_shadow_tables_sync_frame [OF that] sync_frame_updates(1) sync_frame_trans sync_frame_refl by blast
  show ?thesis using assms
    by (auto simp: sync_reset_def Let_def split: prod.splits if_splits elim!: bind_SomeE) (rule none swap upd, assumption+)+
qed

lemma sync_eod_sync_frame:
  assumes "sync_eod s store buf = Some (r, s')"
  shows "sync_frame s s'"
proof -
  obtain rv s1 where e: "rtr_handle_eod_pdu s buf = Some (rv, s1)" using assms by (auto simp: sync_eod_def elim!: bind_SomeE)
  have "sync_frame s1 s'" using assms
    by (auto simp: sync_eod_def e sync_frame_updates split: if_splits elim!: bind_SomeE dest: sync_reset_sync_frame update_tables_sync_frame)
  then show ?thesis by (rule sync_frame_trans [OF handle_eod_sync_frame [OF e]])
qed

lemma receive_sync_frame: "rtr_receive_pdu s buf = Some (rv, buf', s') \<Longrightarrow> sync_frame s s'"
  by (drule receive_pdu_received) (simp add: received_def conn_sync_frame)

lemma recv_store_loop_sync_frame: "recv_store_loop s store buf = Some (r, s') \<Longrightarrow> sync_frame s s'"
proof (induction s store buf arbitrary: r s' rule: recv_store_loop.induct)
  case (1 s store buf)
  obtain rv buf1 s1 where rc: "rtr_receive_pdu s buf = Some (rv, buf1, s1)"
    using "1.prems" by (subst (asm) recv_store_loop.simps) (auto elim!: bind_SomeE)
  note f = receive_sync_frame [OF rc]
  show ?case
  proof (cases "rv < 0")
    case True
    then have "s' = s1 \<or> s' = rtr_change_socket_state s1 RTR_ERROR_TRANSPORT"
      using "1.prems" rc by (subst (asm) recv_store_loop.simps) (auto split: if_splits)
    then show ?thesis using f by (auto intro: sync_frame_state)
  next
    case False
    have wb: "rv \<noteq> RTR_TR_WOULDBLOCK" using False by auto
    have eod: "sync_frame s s'" if "sync_eod s1 store buf1 = Some (r, s')"
      by (rule sync_frame_trans [OF f sync_eod_sync_frame [OF that]])
    have pdu: "sync_frame s s2" if "sync_pdu s1 store buf1 ty = Some (r2, s2, store2)" for r2 s2 store2 ty
      by (rule sync_frame_trans [OF f sync_pdu_frame [OF that]])
    have loop: "sync_frame s s'" if "rtr_get_pdu_type buf1 = Some ty" "ty \<noteq> EOD" "sync_pdu s1 store buf1 ty = Some (r2, s2, store2)"
      "r2 \<noteq> RTR_ERROR" "recv_store_loop s2 store2 buf1 = Some (r, s')" for r2 s2 store2 ty
      using pdu [OF that(3)] "1.IH" [OF rc refl refl wb False that(1,2,3) refl refl that(4,5)] by (rule sync_frame_trans)
    show ?thesis using "1.prems" rc False wb
      by (subst (asm) recv_store_loop.simps, auto split: if_splits elim!: bind_SomeE) (rule eod loop pdu, assumption+)+
  qed
qed

lemma sync_frame_version: "sync_frame s s' \<Longrightarrow> v \<le> version s' \<Longrightarrow> sync_frame s (s'\<lparr>version := v\<rparr>)"
  by (auto simp: sync_frame_def intervals_ok_def)

lemma first_sync_pdu_frame: "first_sync_pdu s buf = Some (r, buf', s') \<Longrightarrow> sync_frame s s'"
proof (induction s buf arbitrary: r buf' s' rule: first_sync_pdu.induct)
  case (1 s buf)
  obtain rv buf1 s1 where rc: "rtr_receive_pdu s buf = Some (rv, buf1, s1)"
    using "1.prems" by (subst (asm) first_sync_pdu.simps) (auto elim!: bind_SomeE)
  note f = receive_sync_frame [OF rc]
  have not_closed: "rv \<noteq> RTR_TR_CLOSED" using receive_pdu_received [OF rc] by (auto simp: received_def)
  have loop: "sync_frame s s'" if "\<not> rv < 0" "rtr_get_pdu_type buf1 = Some SERIAL_NOTIFY" "first_sync_pdu s1 buf1 = Some (r, buf', s')"
  proof -
    have "rv \<noteq> RTR_TR_WOULDBLOCK" using that(1) by auto
    then have "sync_frame s1 s'" using "1.IH" [OF rc refl refl _ _ that(1,2) refl that(3)] not_closed by simp
    then show ?thesis by (rule sync_frame_trans [OF f])
  qed
  show ?case using "1.prems" rc f not_closed
    by (subst (asm) first_sync_pdu.simps, auto split: if_splits elim!: bind_SomeE intro: sync_frame_state) (rule loop, simp_all)
qed

lemma cache_response_sync_frame: "rtr_handle_cache_response_pdu s buf = Some (r, s') \<Longrightarrow> sync_frame s s'"
  by (auto simp: rtr_handle_cache_response_pdu_def Let_def sync_frame_session split: if_splits elim!: bind_SomeE
      dest!: send_error_sync_frame intro: sync_frame_state)

lemma sync_frame_ticks: "sync_frame s (s'\<lparr>tr_socket := (tr_socket s')\<lparr>ticks := n\<rparr>\<rparr>) = sync_frame s s'"
  by (simp add: sync_frame_def intervals_ok_def)

lemma set_last_update_sync_frame:
  assumes "sync_frame s s'"
  shows "sync_frame s (snd (rtr_set_last_update s'))"
proof -
  obtain t where "rtr_get_monotonic_time (tr_socket s') = (t, (tr_socket s')\<lparr>ticks := ticks (tr_socket s') + 1\<rparr>)"
    by (simp add: rtr_get_monotonic_time_def)
  then show ?thesis using assms
    by (cases t) (simp_all add: rtr_set_last_update_def sync_frame_session sync_frame_ticks sync_frame_state)
qed

lemma rtr_sync_frame:
  assumes "rtr_sync s = Some (r, s')"
  shows "sync_frame s s'"
proof -
  obtain rv buf s1 where f: "first_sync_pdu s (stack s) = Some (rv, buf, s1)" using assms by (auto simp: rtr_sync_def elim!: bind_SomeE)
  have "sync_frame s1 s'"
  proof (cases "rv = RTR_SUCCESS")
    case False
    then show ?thesis using assms f by (simp add: rtr_sync_def)
  next
    case True
    then obtain type where ty: "rtr_get_pdu_type buf = Some type" using assms f by (auto simp: rtr_sync_def elim!: bind_SomeE)
    have fin: "sync_frame s1 s'"
      if "rtr_handle_cache_response_pdu s1 buf = Some (ra, s2)" "rtr_sync_receive_and_store_pdus s2 = Some (rb, s3)"
        "s' = s3 \<or> s' = snd (rtr_set_last_update (s3\<lparr>request_session_id := False\<rparr>))" for ra s2 rb s3
    proof -
      have "sync_frame s1 s3" using cache_response_sync_frame [OF that(1)] that(2)
        by (auto simp: rtr_sync_receive_and_store_pdus_def dest: recv_store_loop_sync_frame intro: sync_frame_trans)
      then show ?thesis using that(3) by (auto simp: sync_frame_session intro!: set_last_update_sync_frame)
    qed
    show ?thesis using assms f True ty
      by (cases type) (auto simp: rtr_sync_def split_def Let_def split: if_splits elim!: bind_SomeE
          dest!: handle_error_frame conn_sync_frame send_error_sync_frame intro!: sync_frame_state intro: fin)
  qed
  then show ?thesis by (rule sync_frame_trans [OF first_sync_pdu_frame [OF f]])
qed

section \<open>Collecting the PDUs\<close>

lemma ctx_frame:
  assumes "conn_frame s (s' :: rtr_ctx)"
  shows "pfx_table s' = pfx_table s" "spki_table s' = spki_table s" "aspa_table s' = aspa_table s" "stack s' = stack s" "allocs s' = allocs s"
  using assms by (cases s; cases s'; simp add: conn_frame_def)+

lemma buffer_pdu:
  assumes "pdu_wf h p"
  shows "rtr_get_pdu_type (p @ rest) = Some (pdu_type_of (p ! 1))" "get_bytes 0 (length p) (p @ rest) = Some p"
    "get8 0 (p @ rest) = Some (p ! 0)"
  using assms by (auto simp: pdu_wf_def rtr_get_pdu_type_def get8_def get_bytes_def nth_append)

lemma out_of_memory_ok: "length msg < 60000 \<Longrightarrow> \<exists>s'. out_of_memory s msg = Some (RTR_ERROR, s')"
proof -
  assume "length msg < 60000"
  then have "length (c_string msg) + 20 \<le> RTR_MAX_PDU_LEN" by (simp add: c_string_def RTR_MAX_PDU_LEN_def)
  from error_sent [OF this, of "[]" s INTERNAL_ERROR] show ?thesis by (auto simp: out_of_memory_def)
qed

lemma grow_array_ok: "\<exists>r s' cap mem'. grow_array s arr mem = Some (r, s', (fst arr, cap), mem') \<and>
    (r = RTR_SUCCESS \<and> s' = s \<or> r = RTR_ERROR) \<and> (False \<notin> set mem \<longrightarrow> r = RTR_SUCCESS \<and> False \<notin> set mem')"
  using rtr_malloc_fine [of mem] out_of_memory_ok [of "''Realloc failed''" s]
  by (cases arr; cases "False \<in> set mem") (auto simp: grow_array_def rtr_realloc_def Let_def split: prod.splits)

lemma store_prefix_ok:
  assumes "pdu_wf h p" "pdu_type_of (p ! 1) = IPV4_PREFIX \<or> pdu_type_of (p ! 1) = IPV6_PREFIX" "n = length p"
  shows "\<exists>r s' arr' mem'. rtr_store_prefix_pdu s (p @ rest) n arr mem = Some (r, s', arr', mem') \<and>
    (r = RTR_SUCCESS \<and> fst arr' = fst arr @ [p] \<and> s' = s \<or> r = RTR_ERROR \<and> fst arr' = fst arr) \<and>
    (False \<notin> set mem \<longrightarrow> r = RTR_SUCCESS \<and> False \<notin> set mem')"
  using grow_array_ok [of s arr mem] assms buffer_pdu [OF assms(1)] by (auto simp: rtr_store_prefix_pdu_def)

lemma store_router_key_ok:
  assumes "pdu_wf h p" "pdu_type_of (p ! 1) = ROUTER_KEY" "n = length p"
  shows "\<exists>r s' arr' mem'. rtr_store_router_key_pdu s (p @ rest) n arr mem = Some (r, s', arr', mem') \<and>
    (r = RTR_SUCCESS \<and> fst arr' = fst arr @ [p] \<and> s' = s \<or> r = RTR_ERROR \<and> fst arr' = fst arr) \<and>
    (False \<notin> set mem \<longrightarrow> r = RTR_SUCCESS \<and> False \<notin> set mem')"
  using grow_array_ok [of s arr mem] assms buffer_pdu [OF assms(1)] by (auto simp: rtr_store_router_key_pdu_def)

lemma store_aspa_ok:
  assumes "pdu_wf (byte_order s) p"
  shows "\<exists>r s' arr' mem'. rtr_store_aspa_pdu s (p @ rest) arr mem = Some (r, s', arr', mem') \<and>
    (r = RTR_SUCCESS \<and> fst arr' = fst arr @ [p] \<and> s' = s \<or> r = RTR_ERROR \<and> fst arr' = fst arr) \<and>
    (False \<notin> set mem \<longrightarrow> r = RTR_SUCCESS \<and> False \<notin> set mem')"
proof -
  have len: "8 \<le> length p" "field32 (byte_order s) 4 p = length p" using assms by (auto simp: pdu_wf_def)
  then obtain w where w: "get32 (byte_order s) 4 (p @ rest) = Some w" "unat w = length p" by (simp add: get32_def field32_def)
  obtain r s' cap mem' where g: "grow_array s arr mem = Some (r, s', (fst arr, cap), mem')" "r = RTR_SUCCESS \<and> s' = s \<or> r = RTR_ERROR"
      "False \<notin> set mem \<longrightarrow> r = RTR_SUCCESS \<and> False \<notin> set mem'"
    using grow_array_ok [of s arr mem] by blast
  show ?thesis
    using g w buffer_pdu(2) [OF assms] out_of_memory_ok [of "''Malloc failed''" s] rtr_malloc_fine [of mem']
    by (cases "rtr_malloc mem'"; cases "False \<in> set mem") (auto simp: rtr_store_aspa_pdu_def)
qed

text \<open>The PDUs in the arrays, and what becomes of them when a PDU is stored.\<close>

definition stored :: "pdu_store \<Rightarrow> pdu_type \<Rightarrow> u8 list list" where
  "stored store type =
     (case type of
        IPV4_PREFIX \<Rightarrow> fst (ipv4_pdus store) | IPV6_PREFIX \<Rightarrow> fst (ipv6_pdus store)
      | ROUTER_KEY \<Rightarrow> fst (router_key_pdus store) | ASPA \<Rightarrow> fst (aspa_pdus store) | _ \<Rightarrow> [])"

abbreviation data_types :: "pdu_type set" where
  "data_types \<equiv> {IPV4_PREFIX, IPV6_PREFIX, ROUTER_KEY, ASPA}"

lemma sync_pdu_data:
  assumes "pdu_wf (byte_order s) p" "pdu_type_of (p ! 1) \<in> data_types"
  shows "\<exists>r s' store'. sync_pdu s store (p @ rest) (pdu_type_of (p ! 1)) = Some (r, s', store') \<and>
    (r = RTR_SUCCESS \<and> (\<exists>mem. s' = s\<lparr>allocs := mem\<rparr>) \<and>
       (\<forall>type\<in>data_types. stored store' type = stored store type @ (if type = pdu_type_of (p ! 1) then [p] else [])) \<or>
     r = RTR_ERROR \<and> (\<forall>type\<in>data_types. stored store' type = stored store type)) \<and>
    (False \<notin> set (allocs s) \<longrightarrow> r = RTR_SUCCESS \<and> False \<notin> set (allocs s'))"
proof -
  consider "pdu_type_of (p ! 1) = IPV4_PREFIX" "length p = 20" | "pdu_type_of (p ! 1) = IPV6_PREFIX" "length p = 32"
    | "pdu_type_of (p ! 1) = ROUTER_KEY" "length p = 123" | "pdu_type_of (p ! 1) = ASPA"
    using assms by (auto simp: pdu_wf_def)
  then show ?thesis
  proof cases
    case 1
    then show ?thesis using store_prefix_ok [OF assms(1), of 20 s rest "ipv4_pdus store" "allocs s"]
      by (auto simp: sync_pdu_def stored_def)
  next
    case 2
    then show ?thesis using store_prefix_ok [OF assms(1), of 32 s rest "ipv6_pdus store" "allocs s"]
      by (auto simp: sync_pdu_def stored_def)
  next
    case 3
    then show ?thesis using store_router_key_ok [OF assms(1), of 123 s rest "router_key_pdus store" "allocs s"]
      by (auto simp: sync_pdu_def stored_def)
  next
    case 4
    then show ?thesis using store_aspa_ok [OF assms(1), of rest "aspa_pdus store" "allocs s"]
      by (auto simp: sync_pdu_def stored_def)
  qed
qed

lemma handle_error_ok:
  assumes "pdu_wf (byte_order s) p" "pdu_type_of (p ! 1) = ERROR"
  shows "\<exists>s'. rtr_handle_error_pdu s (p @ rest) = Some (RTR_SUCCESS, s')"
proof -
  have len: "8 \<le> length p" "16 + field32 (byte_order s) 8 p \<le> length p"
    using assms by (auto simp: pdu_wf_def)
  then have "get32 (byte_order s) 8 (p @ rest) = Some (dec32 (byte_order s) (take 4 (drop 8 p)))" by (simp add: get32_def)
  moreover have "\<exists>w. get32 (byte_order s) (12 + unat (dec32 (byte_order s) (take 4 (drop 8 p)))) (p @ rest) = Some w"
    using len(2) by (simp add: get32_def field32_def)
  moreover have "\<exists>w. get16 (byte_order s) 2 (p @ rest) = Some w" "\<exists>v. get8 0 (p @ rest) = Some v"
    using len(1) by (auto simp: get16_def get8_def)
  ultimately show ?thesis by (auto simp: rtr_handle_error_pdu_def Let_def)
qed

lemma unexpected_ok:
  assumes "8 \<le> length p" "length msg < 60000"
  shows "\<exists>bytes r s'. get_bytes 0 sizeof_pdu_header (p @ rest) = Some bytes \<and>
    rtr_send_error_pdu_from_host s bytes CORRUPT_DATA (c_string msg) = Some (r, s')"
proof -
  have "get_bytes 0 sizeof_pdu_header (p @ rest) = Some (take 8 p)" "length (take 8 p) = 8" using assms(1) by (simp_all add: get_bytes_def)
  moreover have "length (c_string msg) + 20 \<le> RTR_MAX_PDU_LEN" using assms(2) by (simp add: c_string_def RTR_MAX_PDU_LEN_def)
  ultimately show ?thesis using error_sent [of "c_string msg" "take 8 p" s CORRUPT_DATA] by auto
qed

text \<open>The PDUs of a type among a list of PDUs.\<close>

definition of_type :: "pdu_type \<Rightarrow> u8 list list \<Rightarrow> u8 list list" where
  "of_type type pdus = filter (\<lambda>p. pdu_type_of (p ! 1) = type) pdus"

lemma sync_pdu_ok:
  assumes "pdu_wf (byte_order s) p" "pdu_type_of (p ! 1) \<noteq> EOD"
  shows "\<exists>r s' store'. sync_pdu s store (p @ rest) (pdu_type_of (p ! 1)) = Some (r, s', store') \<and>
    (r = RTR_ERROR \<or> r = RTR_SUCCESS \<and> (\<forall>type\<in>data_types. stored store' type = stored store type @ of_type type [p]))"
proof (cases "pdu_type_of (p ! 1) \<in> data_types")
  case True
  obtain r s' store' where "sync_pdu s store (p @ rest) (pdu_type_of (p ! 1)) = Some (r, s', store')"
    "r = RTR_SUCCESS \<and> (\<forall>type\<in>data_types. stored store' type = stored store type @ (if type = pdu_type_of (p ! 1) then [p] else [])) \<or>
     r = RTR_ERROR \<and> (\<forall>type\<in>data_types. stored store' type = stored store type)"
    using sync_pdu_data [OF assms(1) True, of store rest] by blast
  then show ?thesis by (auto simp: of_type_def)
next
  case False
  have len: "8 \<le> length p" using assms(1) by (simp add: pdu_wf_def)
  show ?thesis
    using False assms(2) handle_error_ok [OF assms(1), of rest]
      unexpected_ok [OF len, of "''Unexpected PDU received during data synchronisation''" rest s]
    by (cases "pdu_type_of (p ! 1)") (auto simp: sync_pdu_def of_type_def)
qed

text \<open>What the loop reads: PDUs other than End of Data, each of which is stored or ignored without an error, and
  then End of Data, which is left at the front of the buffer.\<close>

inductive reads_to_eod :: "rtr_ctx \<Rightarrow> pdu_store \<Rightarrow> u8 list \<Rightarrow> u8 list list \<Rightarrow> u8 list \<Rightarrow> rtr_ctx \<Rightarrow> pdu_store \<Rightarrow> u8 list \<Rightarrow> bool" where
  Read_Eod: "\<lbrakk>rtr_receive_pdu s buf = Some (RTR_SUCCESS, eod @ rest, s'); pdu_wf (byte_order s) eod; pdu_type_of (eod ! 1) = EOD\<rbrakk>
    \<Longrightarrow> reads_to_eod s store buf [] eod s' store (eod @ rest)"
| Read_Pdu: "\<lbrakk>rtr_receive_pdu s buf = Some (RTR_SUCCESS, p @ rest, s1); pdu_wf (byte_order s) p; pdu_type_of (p ! 1) \<noteq> EOD;
    sync_pdu s1 store (p @ rest) (pdu_type_of (p ! 1)) = Some (RTR_SUCCESS, s2, store2);
    reads_to_eod s2 store2 (p @ rest) pdus eod s' store' buf'\<rbrakk>
    \<Longrightarrow> reads_to_eod s store buf (p # pdus) eod s' store' buf'"

text \<open>What has been read is in the buffer and in the arrays, and the tables have not been touched.\<close>

lemma reads_to_eod_inv:
  assumes "reads_to_eod s store buf pdus eod s' store' buf'" "length buf = RTR_MAX_PDU_LEN"
  shows "pfx_table s' = pfx_table s \<and> spki_table s' = spki_table s \<and> aspa_table s' = aspa_table s \<and> byte_order s' = byte_order s \<and>
    length buf' = RTR_MAX_PDU_LEN \<and> take (length eod) buf' = eod \<and> pdu_wf (byte_order s) eod \<and> pdu_type_of (eod ! 1) = EOD \<and>
    (\<forall>p\<in>set pdus. pdu_wf (byte_order s) p) \<and> (\<forall>type\<in>data_types. stored store' type = stored store type @ of_type type pdus)"
  using assms
proof (induction rule: reads_to_eod.induct)
  case (Read_Eod s buf eod rest s' store)
  have r: "received s buf RTR_SUCCESS (eod @ rest) s'"
    using rtr_receive_pdu_ok [of buf s] Read_Eod.prems Read_Eod.hyps(1) by auto
  then have cf: "conn_frame s s'" by (simp add: received_def)
  moreover have "length (eod @ rest) = RTR_MAX_PDU_LEN" using r Read_Eod.prems by (simp add: received_def)
  moreover have "byte_order s' = byte_order s" using cf by (simp add: conn_frame_def)
  ultimately show ?case using Read_Eod.hyps ctx_frame [OF cf] by (simp add: of_type_def)
next
  case (Read_Pdu s buf p rest s1 store s2 store2 pdus eod s' store' buf')
  have r: "received s buf RTR_SUCCESS (p @ rest) s1"
    using rtr_receive_pdu_ok [of buf s] Read_Pdu.prems Read_Pdu.hyps(1) by auto
  then have cf: "conn_frame s s1" and len: "length (p @ rest) = RTR_MAX_PDU_LEN" using Read_Pdu.prems by (simp_all add: received_def)
  have h: "byte_order s1 = byte_order s" using cf by (simp add: conn_frame_def)
  note f2 = sync_pdu_conn_frame [OF Read_Pdu.hyps(4)]
  have t: "pfx_table s2 = pfx_table s" "spki_table s2 = spki_table s" "aspa_table s2 = aspa_table s" "byte_order s2 = byte_order s"
    using ctx_frame [OF f2] ctx_frame [OF cf] h f2 by (simp_all add: conn_frame_def)
  have st: "\<forall>type\<in>data_types. stored store2 type = stored store type @ of_type type [p]"
    using sync_pdu_ok [of s1 p store rest] Read_Pdu.hyps(2,3,4) h by auto
  show ?case using Read_Pdu.IH [OF len] t st Read_Pdu.hyps(2) by (auto simp: of_type_def)
qed

text \<open>Whatever arrives, the loop ends: with an error and the tables untouched, or after having read up to End of
  Data, with what the End of Data processing makes of it.\<close>

definition collects :: "rtr_ctx \<Rightarrow> pdu_store \<Rightarrow> u8 list \<Rightarrow> (int \<times> rtr_ctx) option \<Rightarrow> bool" where
  "collects s store buf res =
     ((\<exists>s'. res = Some (RTR_ERROR, s') \<and> pfx_table s' = pfx_table s \<and> spki_table s' = spki_table s \<and> aspa_table s' = aspa_table s) \<or>
      (\<exists>pdus eod s' store' buf'. reads_to_eod s store buf pdus eod s' store' buf' \<and> res = sync_eod s' store' buf'))"

lemma recv_store_loop_collects:
  assumes "length buf = RTR_MAX_PDU_LEN"
  shows "collects s store buf (recv_store_loop s store buf)"
  using assms
proof (induction s store buf rule: recv_store_loop.induct)
  case (1 s store buf)
  obtain rv buf1 s1 where rc: "rtr_receive_pdu s buf = Some (rv, buf1, s1)" "received s buf rv buf1 s1"
    using rtr_receive_pdu_ok [of buf s] "1.prems" by auto
  have cf: "conn_frame s s1" using rc(2) by (simp add: received_def)
  then have h: "byte_order s1 = byte_order s" by (simp add: conn_frame_def)
  note t = ctx_frame [OF cf]
  show ?case
  proof (cases "rv < 0")
    case True
    have "recv_store_loop s store buf = Some (RTR_ERROR, if rv = RTR_TR_WOULDBLOCK then rtr_change_socket_state s1 RTR_ERROR_TRANSPORT else s1)"
      using rc(1) True by (subst recv_store_loop.simps) simp
    moreover have "conn_frame s (if rv = RTR_TR_WOULDBLOCK then rtr_change_socket_state s1 RTR_ERROR_TRANSPORT else s1)"
      using cf by (simp add: conn_frame_state_trans)
    ultimately show ?thesis using ctx_frame unfolding collects_def by blast
  next
    case False
    then have ok: "rv = RTR_SUCCESS" using rc(2) by (auto simp: received_def)
    then obtain p rest where p: "buf1 = p @ rest" "pdu_wf (byte_order s) p" using rc(2) by (auto simp: received_def)
    have len: "length buf1 = RTR_MAX_PDU_LEN" using rc(2) "1.prems" by (simp add: received_def)
    note ty = buffer_pdu(1) [OF p(2), of rest, folded p(1)]
    show ?thesis
    proof (cases "pdu_type_of (p ! 1) = EOD")
      case True
      then have "recv_store_loop s store buf = sync_eod s1 store buf1" using rc(1) False ty by (subst recv_store_loop.simps) simp
      then show ?thesis using True p rc(1) ok Read_Eod unfolding collects_def by metis
    next
      case not_eod: False
      obtain r s2 store2 where st: "sync_pdu s1 store buf1 (pdu_type_of (p ! 1)) = Some (r, s2, store2)" "r = RTR_ERROR \<or> r = RTR_SUCCESS"
        using sync_pdu_ok [of s1 p store rest] p h not_eod by auto
      have t2: "pfx_table s2 = pfx_table s" "spki_table s2 = spki_table s" "aspa_table s2 = aspa_table s"
        using ctx_frame [OF sync_pdu_conn_frame [OF st(1)]] t by simp_all
      have eq: "recv_store_loop s store buf = (if r \<noteq> RTR_ERROR then recv_store_loop s2 store2 buf1 else Some (r, s2))"
        using rc(1) False ty not_eod st(1) by (subst recv_store_loop.simps) simp
      show ?thesis
      proof (cases "r = RTR_ERROR")
        case True
        then show ?thesis using eq t2 by (simp add: collects_def)
      next
        case cont: False
        have "rv \<noteq> RTR_TR_WOULDBLOCK" using False by auto
        from "1.IH" [OF rc(1) refl refl this False ty not_eod st(1) refl refl cont len]
        have c: "collects s2 store2 buf1 (recv_store_loop s2 store2 buf1)" .
        have step: "reads_to_eod s store buf (p # pdus) eod s' store' buf'" if "reads_to_eod s2 store2 buf1 pdus eod s' store' buf'"
          for pdus eod s' store' buf'
          using Read_Pdu [of s buf p rest s1 store s2 store2] rc(1) ok p not_eod st cont that by simp
        show ?thesis using c eq cont t2 step unfolding collects_def by (simp, blast)
      qed
    qed
  qed
qed

section \<open>A cache that answers properly\<close>

text \<open>The bytes of a list of PDUs on the wire.\<close>

definition stream_of :: "host_order \<Rightarrow> u8 list list \<Rightarrow> u8 list" where
  "stream_of h pdus = concat (map (network_bytes h) pdus)"

lemma stream_of_Cons [simp]: "stream_of h (p # pdus) = network_bytes h p @ stream_of h pdus" "stream_of h [] = []"
  by (simp_all add: stream_of_def)

text \<open>What the receiver accepts from a cache of its version.\<close>

definition sendable :: "'a rtr_socket_scheme \<Rightarrow> u8 list \<Rightarrow> bool" where
  "sendable s p =
     (pdu_wf (byte_order s) p \<and> version s = ucast (p ! 0) \<and> (pdu_type_of (p ! 1) = ASPA \<longrightarrow> p ! 0 = 2 \<and> length p mod 4 = 0))"

definition advanced :: "rtr_ctx \<Rightarrow> rx_event list \<Rightarrow> mem \<Rightarrow> rtr_ctx" where
  "advanced s evs mem = s\<lparr>tr_socket := (tr_socket s)\<lparr>rx := evs\<rparr>, has_received_pdus := True, allocs := mem\<rparr>"

lemma advanced_simps [simp]:
  "byte_order (advanced s evs mem) = byte_order s" "self (advanced s evs mem) = self s" "version (advanced s evs mem) = version s"
  "state (advanced s evs mem) = state s" "rx (tr_socket (advanced s evs mem)) = evs" "allocs (advanced s evs mem) = mem"
  "advanced (advanced s evs mem) evs' mem' = advanced s evs' mem'" "(advanced s evs mem)\<lparr>allocs := mem'\<rparr> = advanced s evs mem'"
  "sendable (advanced s evs mem) p = sendable s p"
  by (simp_all add: advanced_def sendable_def)

lemma receive_next:
  assumes "sendable s p" "state s \<noteq> RTR_SHUTDOWN" "avail (rx (tr_socket s)) = network_bytes (byte_order s) p @ rest" "length buf = RTR_MAX_PDU_LEN"
  obtains evs where "rtr_receive_pdu s buf = Some (RTR_SUCCESS, p @ drop (length p) buf, advanced s evs (allocs s))" "avail evs = rest"
proof -
  obtain evs where "rtr_receive_pdu s buf = Some (RTR_SUCCESS, p @ drop (length p) buf, s\<lparr>tr_socket := (tr_socket s)\<lparr>rx := evs\<rparr>, has_received_pdus := True\<rparr>)"
    "avail evs = rest"
    by (rule receive_wf [of s p rest buf]) (use assms in \<open>auto simp: sendable_def\<close>)
  then show ?thesis by (intro that) (simp_all add: advanced_def)
qed

lemma collect_stream:
  assumes "\<forall>p\<in>set pdus. sendable s p \<and> (pdu_type_of (p ! 1) \<in> data_types \<or> pdu_type_of (p ! 1) = SERIAL_NOTIFY)"
    and "sendable s eod" "pdu_type_of (eod ! 1) = EOD" "state s \<noteq> RTR_SHUTDOWN"
    and "avail (rx (tr_socket s)) = stream_of (byte_order s) (pdus @ [eod]) @ rest" "length buf = RTR_MAX_PDU_LEN" "False \<notin> set (allocs s)"
  shows "\<exists>evs mem store' tail. recv_store_loop s store buf = sync_eod (advanced s evs mem) store' (eod @ tail) \<and> avail evs = rest \<and>
    False \<notin> set mem \<and> length (eod @ tail) = RTR_MAX_PDU_LEN \<and>
    (\<forall>type\<in>data_types. stored store' type = stored store type @ filter (\<lambda>p. pdu_type_of (p ! 1) = type) pdus)"
  using assms
proof (induction pdus arbitrary: s store buf)
  case Nil
  obtain evs where rc: "rtr_receive_pdu s buf = Some (RTR_SUCCESS, eod @ drop (length eod) buf, advanced s evs (allocs s))" "avail evs = rest"
    by (rule receive_next [of s eod rest buf]) (use Nil.prems in auto)
  have wf: "pdu_wf (byte_order s) eod" "length eod \<le> RTR_MAX_PDU_LEN" using Nil.prems(2) by (auto simp: sendable_def pdu_wf_def)
  have "recv_store_loop s store buf = sync_eod (advanced s evs (allocs s)) store (eod @ drop (length eod) buf)"
    using rc(1) buffer_pdu(1) [OF wf(1)] Nil.prems(3) by (subst recv_store_loop.simps) simp
  then show ?case using rc(2) wf Nil.prems(6,7) by (intro exI conjI) auto
next
  case (Cons p pdus)
  have p: "sendable s p" "pdu_wf (byte_order s) p" "length p \<le> RTR_MAX_PDU_LEN" using Cons.prems(1) by (auto simp: sendable_def pdu_wf_def)
  obtain evs where rc: "rtr_receive_pdu s buf = Some (RTR_SUCCESS, p @ drop (length p) buf, advanced s evs (allocs s))"
    "avail evs = stream_of (byte_order s) (pdus @ [eod]) @ rest"
    by (rule receive_next [of s p "stream_of (byte_order s) (pdus @ [eod]) @ rest" buf]) (use Cons.prems p in auto)
  let ?buf = "p @ drop (length p) buf" and ?s = "advanced s evs (allocs s)"
  have not_eod: "pdu_type_of (p ! 1) \<noteq> EOD" using Cons.prems(1) by auto
  obtain mem store1 where st: "sync_pdu ?s store ?buf (pdu_type_of (p ! 1)) = Some (RTR_SUCCESS, ?s\<lparr>allocs := mem\<rparr>, store1)" "False \<notin> set mem"
    "\<forall>type\<in>data_types. stored store1 type = stored store type @ (if pdu_type_of (p ! 1) = type then [p] else [])"
  proof (cases "pdu_type_of (p ! 1) = SERIAL_NOTIFY")
    case True
    then show ?thesis using that [of "allocs s" store] Cons.prems(7) by (auto simp: sync_pdu_def)
  next
    case False
    then have "pdu_type_of (p ! 1) \<in> data_types" using Cons.prems(1) by auto
    from sync_pdu_data [of ?s p store "drop (length p) buf", OF _ this] p(2) Cons.prems(7) show ?thesis
      by (auto intro: that)
  qed
  have loop: "recv_store_loop s store buf = recv_store_loop (advanced s evs mem) store1 ?buf"
    using rc(1) buffer_pdu(1) [OF p(2)] not_eod st(1) by (subst recv_store_loop.simps) simp
  have "length ?buf = RTR_MAX_PDU_LEN" using p(3) Cons.prems(6) by simp
  then obtain evs' mem' store' tail where IH: "recv_store_loop (advanced s evs mem) store1 ?buf = sync_eod (advanced s evs' mem') store' (eod @ tail)"
    "avail evs' = rest" "False \<notin> set mem'" "length (eod @ tail) = RTR_MAX_PDU_LEN"
    "\<forall>type\<in>data_types. stored store' type = stored store1 type @ filter (\<lambda>p. pdu_type_of (p ! 1) = type) pdus"
    using Cons.IH [of "advanced s evs mem" ?buf store1] Cons.prems(1-4) rc(2) st(2) by auto
  then show ?case unfolding loop using st(3) by (intro exI [of _ evs'] exI [of _ mem'] exI [of _ store'] exI [of _ tail]) auto
qed

text \<open>The session number of a PDU, and the timers an End of Data PDU leads to.\<close>

definition pdu_session :: "host_order \<Rightarrow> u8 list \<Rightarrow> u16" where
  "pdu_session h p = dec16 h (take 2 (drop 2 p))"

definition pdu_serial :: "host_order \<Rightarrow> u8 list \<Rightarrow> u32" where
  "pdu_serial h p = dec32 h (take 4 (drop 8 p))"

definition same_timers_apart :: "'a rtr_socket_scheme \<Rightarrow> 'a rtr_socket_scheme \<Rightarrow> bool" where
  "same_timers_apart s s' =
     (s'\<lparr>expire_interval := 0, refresh_interval := 0, retry_interval := 0\<rparr> = s\<lparr>expire_interval := 0, refresh_interval := 0, retry_interval := 0\<rparr>)"

lemma same_timers_trans: "same_timers_apart s s' \<Longrightarrow> same_timers_apart s' s'' \<Longrightarrow> same_timers_apart s s''"
  by (simp add: same_timers_apart_def)

lemma same_timers_refl [simp]: "same_timers_apart s s"
  by (simp add: same_timers_apart_def)

lemma same_timers_fields:
  assumes "same_timers_apart s s'"
  shows "self s' = self s" "byte_order s' = byte_order s" "tr_socket s' = tr_socket s" "last_update s' = last_update s" "iv_mode s' = iv_mode s"
    "state s' = state s" "session_id s' = session_id s" "request_session_id s' = request_session_id s" "serial_number s' = serial_number s"
    "thread_id s' = thread_id s" "version s' = version s" "is_resetting s' = is_resetting s" "rtr_socket.more s' = rtr_socket.more s"
  using assms by (cases s; cases s'; simp add: same_timers_apart_def)+

lemma check_interval_timers: "same_timers_apart s (snd (rtr_check_interval_option s m v ty))"
  by (cases ty) (simp_all add: rtr_check_interval_option_def Let_def same_timers_apart_def)

lemma eod_interval_ok:
  assumes "off + 4 \<le> length buf"
  shows "\<exists>s'. eod_interval s buf off ty = Some (RTR_SUCCESS, s') \<and> same_timers_apart s s'"
  using assms by (auto simp: eod_interval_outcome get32_def check_interval_timers)

lemma handle_eod_ok:
  assumes "pdu_wf (byte_order s) eod" "pdu_type_of (eod ! 1) = EOD" "length (eod @ tail) = RTR_MAX_PDU_LEN"
    and "ucast (pdu_session (byte_order s) eod) = session_id s"
  shows "\<exists>s'. rtr_handle_eod_pdu s (eod @ tail) = Some (RTR_SUCCESS, s') \<and> same_timers_apart s s'"
proof -
  have len: "8 \<le> length eod" "24 \<le> length (eod @ tail)" using assms(1,3) by (simp_all add: pdu_wf_def RTR_MAX_PDU_LEN_def)
  then have g: "get16 (byte_order s) 2 (eod @ tail) = Some (pdu_session (byte_order s) eod)" "get8 0 (eod @ tail) = Some (eod ! 0)"
    by (auto simp: get16_def get8_def pdu_session_def nth_append)
  obtain s1 where s1: "eod_interval s (eod @ tail) 20 RTR_INTERVAL_TYPE_EXPIRATION = Some (RTR_SUCCESS, s1)" "same_timers_apart s s1"
    using eod_interval_ok [of 20 "eod @ tail" s] len(2) by auto
  obtain s2 where s2: "eod_interval s1 (eod @ tail) 12 RTR_INTERVAL_TYPE_REFRESH = Some (RTR_SUCCESS, s2)" "same_timers_apart s1 s2"
    using eod_interval_ok [of 12 "eod @ tail" s1] len(2) by auto
  obtain s3 where s3: "eod_interval s2 (eod @ tail) 16 RTR_INTERVAL_TYPE_RETRY = Some (RTR_SUCCESS, s3)" "same_timers_apart s2 s3"
    using eod_interval_ok [of 16 "eod @ tail" s2] len(2) by auto
  have "same_timers_apart s s3" using s1(2) s2(2) s3(2) same_timers_trans by blast
  then show ?thesis using g assms(4) s1(1) s2(1) s3(1) by (simp add: rtr_handle_eod_pdu_def)
qed

lemma first_sync_pdu_next:
  assumes "sendable s p" "pdu_type_of (p ! 1) \<noteq> SERIAL_NOTIFY" "state s \<noteq> RTR_SHUTDOWN"
    and "avail (rx (tr_socket s)) = network_bytes (byte_order s) p @ rest" "length buf = RTR_MAX_PDU_LEN"
  obtains evs where "first_sync_pdu s buf = Some (RTR_SUCCESS, p @ drop (length p) buf, advanced s evs (allocs s))" "avail evs = rest"
proof -
  obtain evs where rc: "rtr_receive_pdu s buf = Some (RTR_SUCCESS, p @ drop (length p) buf, advanced s evs (allocs s))" "avail evs = rest"
    by (rule receive_next [OF assms(1,3,4,5)])
  have "pdu_wf (byte_order s) p" using assms(1) by (simp add: sendable_def)
  then have "first_sync_pdu s buf = Some (RTR_SUCCESS, p @ drop (length p) buf, advanced s evs (allocs s))"
    using rc(1) buffer_pdu(1) assms(2) by (subst first_sync_pdu.simps) simp
  then show ?thesis using rc(2) that by blast
qed

text \<open>The tables of the context and what the PDUs ask of them.\<close>

definition prefixes :: "u8 list list \<Rightarrow> u8 list list" where
  "prefixes pdus = of_type IPV4_PREFIX pdus @ of_type IPV6_PREFIX pdus"

definition tables_ready :: "'a rtr_socket_scheme \<Rightarrow> rtr_pfx_table \<Rightarrow> rtr_spki_table \<Rightarrow> rtr_aspa_table \<Rightarrow> u8 list list \<Rightarrow> bool" where
  "tables_ready s p k a pdus =
     (pfx_inv p \<and> spki_inv k \<and> length (spki_list k) + 2 * length (of_type ROUTER_KEY pdus) < 2 ^ 29 \<and> store_ok a \<and> \<not> update_lock a \<and>
      (\<forall>pdu\<in>set (prefixes pdus). pfx_pdu_ok s pdu) \<and> (\<forall>pdu\<in>set (of_type ROUTER_KEY pdus). spki_pdu_ok s pdu) \<and>
      aspa_batch_ok s a (of_type ASPA pdus) \<and>
      distinct_changes (pfx_change s) (prefixes pdus) \<and> distinct_changes (spki_change s) (of_type ROUTER_KEY pdus))"

definition tables_accept :: "'a rtr_socket_scheme \<Rightarrow> rtr_pfx_table \<Rightarrow> rtr_spki_table \<Rightarrow> rtr_aspa_table \<Rightarrow> u8 list list \<Rightarrow> bool" where
  "tables_accept s p k a pdus =
     (accepts (pfx_change s) (prefixes pdus) (set (pfx_records p)) \<and>
      accepts (spki_change s) (of_type ROUTER_KEY pdus) (set (spki_records k)) \<and> aspa_accepts s a (of_type ASPA pdus))"

definition tables_applied ::
  "'a rtr_socket_scheme \<Rightarrow> rtr_pfx_table \<Rightarrow> rtr_spki_table \<Rightarrow> rtr_aspa_table \<Rightarrow> u8 list list
     \<Rightarrow> rtr_pfx_table \<Rightarrow> rtr_spki_table \<Rightarrow> rtr_aspa_table \<Rightarrow> bool" where
  "tables_applied s p k a pdus p' k' a' =
     (pfx_inv p' \<and> spki_inv k' \<and> set (pfx_records p') = applied (pfx_change s) (prefixes pdus) (set (pfx_records p)) \<and>
      set (spki_records k') = applied (spki_change s) (of_type ROUTER_KEY pdus) (set (spki_records k)) \<and>
      aspa_applied s a (of_type ASPA pdus) a')"

lemma tables_cong:
  assumes "self s' = self s" "byte_order s' = byte_order s"
  shows "tables_ready s' = tables_ready s" "tables_accept s' = tables_accept s" "tables_applied s' = tables_applied s"
proof -
  note c = pfx_change_cong [OF assms] spki_change_cong [OF assms]
  have "aspa_batch_ok s' = aspa_batch_ok s" "aspa_accepts s' = aspa_accepts s" "aspa_applied s' = aspa_applied s"
    by (simp_all add: fun_eq_iff aspa_batch_ok_def aspa_pdu_ok_def aspa_accepts_def aspa_applied_def assms)
  then show "tables_ready s' = tables_ready s" "tables_accept s' = tables_accept s" "tables_applied s' = tables_applied s"
    by (simp_all add: fun_eq_iff tables_ready_def tables_accept_def tables_applied_def c)
qed

lemma sync_eod_applies:
  assumes eod: "pdu_wf (byte_order s) eod" "pdu_type_of (eod ! 1) = EOD" "length (eod @ tail) = RTR_MAX_PDU_LEN"
      "ucast (pdu_session (byte_order s) eod) = session_id s"
    and s: "\<not> is_resetting s" "pfx_table s = Some p" "spki_table s = Some k" "aspa_table s = Some a" "False \<notin> set (allocs s)"
    and store: "\<forall>type\<in>data_types. stored store type = of_type type pdus"
    and ready: "tables_ready s p k a pdus" "tables_accept s p k a pdus"
  shows "\<exists>s1 p' k' a' mem. sync_eod s store (eod @ tail) =
      Some (RTR_SUCCESS, s1\<lparr>serial_number := pdu_serial (byte_order s) eod, pfx_table := Some p', spki_table := Some k', aspa_table := Some a', allocs := mem\<rparr>) \<and>
    same_timers_apart s s1 \<and> tables_applied s p k a pdus p' k' a'"
proof -
  obtain s1 where s1: "rtr_handle_eod_pdu s (eod @ tail) = Some (RTR_SUCCESS, s1)" "same_timers_apart s s1"
    using handle_eod_ok [OF eod] by blast
  note f = same_timers_fields [OF s1(2)]
  have t: "pfx_table s1 = Some p" "spki_table s1 = Some k" "aspa_table s1 = Some a" "allocs s1 = allocs s"
    using f(13) s by (cases s; cases s1; simp)+
  have len: "12 \<le> length (eod @ tail)" "12 \<le> length eod" using eod(1-3) by (auto simp: pdu_wf_def RTR_MAX_PDU_LEN_def)
  have st: "fst (ipv4_pdus store) = of_type IPV4_PREFIX pdus" "fst (ipv6_pdus store) = of_type IPV6_PREFIX pdus"
    "fst (router_key_pdus store) = of_type ROUTER_KEY pdus" "fst (aspa_pdus store) = of_type ASPA pdus"
    using store by (simp_all add: stored_def)
  have "tables_ready s1 p k a pdus" "tables_accept s1 p k a pdus" using ready tables_cong [OF f(1,2)] by simp_all
  then have "sync_done s1 p k a (prefixes pdus) (of_type ROUTER_KEY pdus) (of_type ASPA pdus) (eod @ tail)
      (rtr_sync_update_tables s1 (Some p, Some k, Some a) (of_type IPV4_PREFIX pdus) (of_type IPV6_PREFIX pdus)
        (of_type ROUTER_KEY pdus) (of_type ASPA pdus) (eod @ tail) (allocs s))"
    using sync_update_tables_outcome [where p = p and k = k and a = a and s = s1 and ?v4.0 = "of_type IPV4_PREFIX pdus"
        and ?v6.0 = "of_type IPV6_PREFIX pdus" and keys = "of_type ROUTER_KEY pdus" and aspas = "of_type ASPA pdus"
        and eod = "eod @ tail" and mem = "allocs s"] s(5) len(1)
    by (simp add: tables_ready_def tables_accept_def prefixes_def)
  then obtain p' k' a' mem where u: "rtr_sync_update_tables s1 (Some p, Some k, Some a) (of_type IPV4_PREFIX pdus) (of_type IPV6_PREFIX pdus)
        (of_type ROUTER_KEY pdus) (of_type ASPA pdus) (eod @ tail) (allocs s) =
      Some (RTR_SUCCESS, s1\<lparr>serial_number := pdu_serial (byte_order s) eod\<rparr>, (Some p', Some k', Some a'), mem)"
    "tables_applied s1 p k a pdus p' k' a'"
    using len(2) f(2) by (auto simp: sync_done_def tables_applied_def pdu_serial_def)
  have "sync_eod s store (eod @ tail) = Some (RTR_SUCCESS,
      s1\<lparr>serial_number := pdu_serial (byte_order s) eod, pfx_table := Some p', spki_table := Some k', aspa_table := Some a', allocs := mem\<rparr>)"
    using s1(1) u(1) s(1) f(12) by (simp add: sync_eod_def st t)
  moreover have "tables_applied s p k a pdus p' k' a'" using u(2) tables_cong(3) [OF f(1,2)] by simp
  ultimately show ?thesis using s1(2) by blast
qed

text \<open>A synchronisation that is not a reset: the first one, or the continuation of a session.\<close>

definition continues :: "rtr_ctx \<Rightarrow> u8 list \<Rightarrow> bool" where
  "continues s resp =
     (\<not> is_resetting s \<and>
      (request_session_id s \<and> last_update s = 0 \<or> \<not> request_session_id s \<and> session_id s = ucast (pdu_session (byte_order s) resp)))"

definition answers :: "rtr_ctx \<Rightarrow> u8 list \<Rightarrow> u8 list list \<Rightarrow> u8 list \<Rightarrow> bool" where
  "answers s resp pdus eod =
     (sendable s resp \<and> pdu_type_of (resp ! 1) = CACHE_RESPONSE \<and>
      (\<forall>p\<in>set pdus. sendable s p \<and> (pdu_type_of (p ! 1) \<in> data_types \<or> pdu_type_of (p ! 1) = SERIAL_NOTIFY)) \<and>
      sendable s eod \<and> pdu_type_of (eod ! 1) = EOD \<and> pdu_session (byte_order s) eod = pdu_session (byte_order s) resp)"

definition rounded :: "int \<Rightarrow> int \<Rightarrow> int" where
  "rounded sec nsec = (if nsec * 1000000000 \<ge> 5 then sec + 1 else sec)"

lemma set_last_update_ok:
  assumes "clock (tr_socket s) (ticks (tr_socket s)) = Some (sec, nsec)"
  shows "rtr_set_last_update s =
    (RTR_SUCCESS, s\<lparr>tr_socket := (tr_socket s)\<lparr>ticks := ticks (tr_socket s) + 1\<rparr>, last_update := rounded sec nsec\<rparr>)"
  using assms by (simp add: rtr_set_last_update_def rtr_get_monotonic_time_def rounded_def)

abbreviation same_tables :: "rtr_ctx \<Rightarrow> rtr_ctx \<Rightarrow> bool" where
  "same_tables s s' \<equiv> pfx_table s' = pfx_table s \<and> spki_table s' = spki_table s \<and> aspa_table s' = aspa_table s"

text \<open>What follows the End of Data PDU.\<close>

definition sync_finish :: "int \<times> rtr_ctx \<Rightarrow> int \<times> rtr_ctx" where
  "sync_finish res =
     (case res of (r, s) \<Rightarrow>
        if r = RTR_ERROR then (RTR_ERROR, s)
        else (case rtr_set_last_update (s\<lparr>request_session_id := False\<rparr>) of (r, s) \<Rightarrow> (if r = RTR_ERROR then RTR_ERROR else RTR_SUCCESS, s)))"

lemma rtr_sync_response:
  assumes "first_sync_pdu s (stack s) = Some (RTR_SUCCESS, p @ rest, s1)" "pdu_wf (byte_order s) p" "pdu_type_of (p ! 1) = CACHE_RESPONSE"
    "rtr_handle_cache_response_pdu s1 (p @ rest) = Some (r, s2)"
  shows "rtr_sync s = map_option sync_finish (rtr_sync_receive_and_store_pdus s2)"
  using assms buffer_pdu(1) [OF assms(2), of rest]
  by (cases "rtr_sync_receive_and_store_pdus s2") (auto simp: rtr_sync_def sync_finish_def Let_def split: prod.splits)

text \<open>The socket after a Cache Response PDU: a query for everything while there are records starts a reset.\<close>

definition responded :: "rtr_ctx \<Rightarrow> u8 list \<Rightarrow> rtr_ctx" where
  "responded s resp =
     (if request_session_id s \<and> last_update s \<noteq> 0 then s\<lparr>last_update := 0, is_resetting := True\<rparr> else s)
       \<lparr>session_id := ucast (pdu_session (byte_order s) resp)\<rparr>"

lemma responded_simps [simp]:
  "byte_order (responded s resp) = byte_order s" "self (responded s resp) = self s" "state (responded s resp) = state s"
  "version (responded s resp) = version s" "tr_socket (responded s resp) = tr_socket s" "allocs (responded s resp) = allocs s"
  "stack (responded s resp) = stack s" "same_tables s (responded s resp)" "sendable (responded s resp) p = sendable s p"
  "session_id (responded s resp) = ucast (pdu_session (byte_order s) resp)" "request_session_id (responded s resp) = request_session_id s"
  by (simp_all add: responded_def sendable_def)

lemma cache_response_ok:
  assumes "pdu_wf (byte_order s) resp" "request_session_id s \<or> session_id s = ucast (pdu_session (byte_order s) resp)"
  shows "rtr_handle_cache_response_pdu s (resp @ tail) = Some (RTR_SUCCESS, responded s resp)"
proof -
  have "get16 (byte_order s) 2 (resp @ tail) = Some (pdu_session (byte_order s) resp)"
    using assms(1) by (auto simp: get16_def pdu_session_def pdu_wf_def)
  then show ?thesis using assms(2) by (auto simp: rtr_handle_cache_response_pdu_def responded_def)
qed

lemma responded_advanced: "responded (advanced s evs mem) resp = advanced (responded s resp) evs mem"
  by (simp add: responded_def advanced_def)

text \<open>A proper answer brings the synchronisation to its End of Data PDU with all its PDUs in the arrays.\<close>

lemma rtr_sync_stream:
  assumes cache: "answers s resp pdus eod" "avail (rx (tr_socket s)) = stream_of (byte_order s) (resp # pdus @ [eod]) @ rest"
    and s: "request_session_id s \<or> session_id s = ucast (pdu_session (byte_order s) resp)"
      "state s \<noteq> RTR_SHUTDOWN" "length (stack s) = RTR_MAX_PDU_LEN" "False \<notin> set (allocs s)"
  obtains evs mem store tail where
    "rtr_sync s = map_option sync_finish (sync_eod (advanced (responded s resp) evs mem) store (eod @ tail))" "avail evs = rest"
    "False \<notin> set mem" "length (eod @ tail) = RTR_MAX_PDU_LEN" "\<forall>type\<in>data_types. stored store type = of_type type pdus"
proof -
  have a: "sendable s resp" "pdu_type_of (resp ! 1) = CACHE_RESPONSE" "sendable s eod" "pdu_type_of (eod ! 1) = EOD"
    "\<forall>p\<in>set pdus. sendable s p \<and> (pdu_type_of (p ! 1) \<in> data_types \<or> pdu_type_of (p ! 1) = SERIAL_NOTIFY)"
    using cache(1) by (auto simp: answers_def)
  have wf: "pdu_wf (byte_order s) resp" using a(1) by (simp add: sendable_def)
  obtain evs where f: "first_sync_pdu s (stack s) = Some (RTR_SUCCESS, resp @ drop (length resp) (stack s), advanced s evs (allocs s))"
    "avail evs = stream_of (byte_order s) (pdus @ [eod]) @ rest"
    by (rule first_sync_pdu_next [OF a(1) _ s(2) _ s(3), where rest = "stream_of (byte_order s) (pdus @ [eod]) @ rest"])
      (use a(2) cache(2) in auto)
  let ?s2 = "advanced (responded s resp) evs (allocs s)"
  have r: "rtr_handle_cache_response_pdu (advanced s evs (allocs s)) (resp @ drop (length resp) (stack s)) = Some (RTR_SUCCESS, ?s2)"
    using cache_response_ok [of "advanced s evs (allocs s)" resp] wf s(1) by (simp add: responded_advanced) (simp add: advanced_def)
  obtain evs2 mem2 store2 tail where c: "rtr_sync_receive_and_store_pdus ?s2 = sync_eod (advanced ?s2 evs2 mem2) store2 (eod @ tail)"
    "avail evs2 = rest" "False \<notin> set mem2" "length (eod @ tail) = RTR_MAX_PDU_LEN"
    "\<forall>type\<in>data_types. stored store2 type = of_type type pdus"
    using collect_stream [of pdus ?s2 eod rest "stack s" empty_store] a f(2) s
    by (auto simp: rtr_sync_receive_and_store_pdus_def stored_def empty_store_def of_type_def) (auto simp: advanced_def)
  then show ?thesis using that rtr_sync_response [OF f(1) wf a(2) r] by simp
qed

lemma rtr_sync_applies:
  assumes cache: "answers s resp pdus eod" "avail (rx (tr_socket s)) = stream_of (byte_order s) (resp # pdus @ [eod]) @ rest"
    and s: "continues s resp" "state s \<noteq> RTR_SHUTDOWN" "length (stack s) = RTR_MAX_PDU_LEN" "False \<notin> set (allocs s)"
      "clock (tr_socket s) (ticks (tr_socket s)) = Some (sec, nsec)"
    and tables: "pfx_table s = Some p" "spki_table s = Some k" "aspa_table s = Some a" "tables_ready s p k a pdus" "tables_accept s p k a pdus"
  shows "\<exists>s' p' k' a'. rtr_sync s = Some (RTR_SUCCESS, s') \<and> state s' = state s \<and> \<not> request_session_id s' \<and> \<not> is_resetting s' \<and>
    session_id s' = ucast (pdu_session (byte_order s) resp) \<and> serial_number s' = pdu_serial (byte_order s) eod \<and>
    last_update s' = rounded sec nsec \<and>
    pfx_table s' = Some p' \<and> spki_table s' = Some k' \<and> aspa_table s' = Some a' \<and> tables_applied s p k a pdus p' k' a' \<and>
    avail (rx (tr_socket s')) = rest"
proof -
  have "request_session_id s \<or> session_id s = ucast (pdu_session (byte_order s) resp)" using s(1) by (auto simp: continues_def)
  then obtain evs mem store tail where st: "rtr_sync s = map_option sync_finish (sync_eod (advanced (responded s resp) evs mem) store (eod @ tail))"
    "avail evs = rest" "False \<notin> set mem" "length (eod @ tail) = RTR_MAX_PDU_LEN" "\<forall>type\<in>data_types. stored store type = of_type type pdus"
    by (rule rtr_sync_stream [OF cache _ s(2-4)])
  let ?s = "advanced (responded s resp) evs mem"
  have f: "pfx_table ?s = Some p" "spki_table ?s = Some k" "aspa_table ?s = Some a" "\<not> is_resetting ?s"
    "clock (tr_socket ?s) (ticks (tr_socket ?s)) = Some (sec, nsec)" "session_id ?s = ucast (pdu_session (byte_order s) resp)"
    using tables s(1,5) by (auto simp: advanced_def responded_def continues_def)
  have eod: "pdu_wf (byte_order ?s) eod" "pdu_type_of (eod ! 1) = EOD" "ucast (pdu_session (byte_order ?s) eod) = session_id ?s"
    using cache(1) f(6) by (simp_all add: answers_def sendable_def)
  have tr: "tables_ready ?s p k a pdus" "tables_accept ?s p k a pdus" using tables(4,5) tables_cong [of ?s s] by simp_all
  obtain s4 p' k' a' mem' where e: "sync_eod ?s store (eod @ tail) =
      Some (RTR_SUCCESS, s4\<lparr>serial_number := pdu_serial (byte_order s) eod, pfx_table := Some p', spki_table := Some k', aspa_table := Some a', allocs := mem'\<rparr>)"
    "same_timers_apart ?s s4" "tables_applied s p k a pdus p' k' a'"
    using sync_eod_applies [OF eod(1,2) st(4) eod(3) f(4) f(1-3) _ st(5) tr] st(3) tables_cong [of ?s s] by auto
  note f4 = same_timers_fields [OF e(2)]
  let ?s5 = "s4\<lparr>serial_number := pdu_serial (byte_order s) eod, pfx_table := Some p', spki_table := Some k', aspa_table := Some a', allocs := mem', request_session_id := False\<rparr>"
  have "rtr_set_last_update ?s5 = (RTR_SUCCESS, ?s5\<lparr>tr_socket := (tr_socket ?s5)\<lparr>ticks := ticks (tr_socket ?s5) + 1\<rparr>, last_update := rounded sec nsec\<rparr>)"
    by (rule set_last_update_ok) (use f4(3) f(5) in simp)
  then have "rtr_sync s = Some (RTR_SUCCESS, ?s5\<lparr>tr_socket := (tr_socket ?s5)\<lparr>ticks := ticks (tr_socket ?s5) + 1\<rparr>, last_update := rounded sec nsec\<rparr>)"
    using st(1) e(1) by (simp add: sync_finish_def)
  then show ?thesis using e(3) f4 f(4,6) st(2) by auto
qed

section \<open>A synchronisation ends\<close>

lemma change_state_ctx [simp]:
  "pfx_table (rtr_change_socket_state s st) = pfx_table s" "spki_table (rtr_change_socket_state s st) = spki_table s"
  "aspa_table (rtr_change_socket_state s st) = aspa_table s" "stack (rtr_change_socket_state s st) = stack s"
  by (simp_all add: rtr_change_socket_state_def Let_def)

lemma first_sync_pdu_ends:
  assumes "length buf = RTR_MAX_PDU_LEN"
  shows "\<exists>r buf' s'. first_sync_pdu s buf = Some (r, buf', s') \<and> same_tables s s' \<and> byte_order s' = byte_order s \<and> stack s' = stack s \<and>
    (r \<noteq> RTR_SUCCESS \<or> (\<exists>p rest. buf' = p @ rest \<and> pdu_wf (byte_order s) p))"
  using assms
proof (induction s buf rule: first_sync_pdu.induct)
  case (1 s buf)
  obtain rv buf1 s1 where rc: "rtr_receive_pdu s buf = Some (rv, buf1, s1)" "received s buf rv buf1 s1"
    using rtr_receive_pdu_ok [of buf s] "1.prems" by auto
  have cf: "conn_frame s s1" using rc(2) by (simp add: received_def)
  then have h: "byte_order s1 = byte_order s" by (simp add: conn_frame_def)
  note t = ctx_frame [OF cf]
  have nc: "rv \<noteq> RTR_TR_CLOSED" using rc(2) by (auto simp: received_def)
  show ?case
  proof (cases "rv < 0")
    case True
    have "first_sync_pdu s buf = Some (RTR_ERROR, buf1, if rv = RTR_TR_WOULDBLOCK then rtr_change_socket_state s1 RTR_ERROR_TRANSPORT else s1)"
      using rc(1) True nc by (subst first_sync_pdu.simps) simp
    then show ?thesis using t h by simp
  next
    case False
    then have "rv = RTR_SUCCESS" using rc(2) by (auto simp: received_def)
    then obtain p where p: "buf1 = p @ drop (length p) buf" "pdu_wf (byte_order s) p" using rc(2) by (auto simp: received_def)
    have len: "length buf1 = RTR_MAX_PDU_LEN" using rc(2) "1.prems" by (simp add: received_def)
    note ty = buffer_pdu(1) [OF p(2), of "drop (length p) buf", folded p(1)]
    have wb: "rv \<noteq> RTR_TR_WOULDBLOCK" using False by auto
    show ?thesis
    proof (cases "pdu_type_of (p ! 1) = SERIAL_NOTIFY")
      case True
      have "first_sync_pdu s buf = first_sync_pdu s1 buf1" using rc(1) False nc ty True wb by (subst first_sync_pdu.simps) simp
      then show ?thesis using "1.IH" [OF rc(1) refl refl _ wb False ty True len] nc t h by simp
    next
      case other: False
      then have "first_sync_pdu s buf = Some (RTR_SUCCESS, buf1, s1)" using rc(1) False nc ty wb by (subst first_sync_pdu.simps) simp
      then show ?thesis using t h p by auto
    qed
  qed
qed

lemma cache_response_ends:
  assumes "pdu_wf (byte_order s) p" "length (stack s) = RTR_MAX_PDU_LEN"
  shows "\<exists>r s'. rtr_handle_cache_response_pdu s (p @ rest) = Some (r, s') \<and> same_tables s s' \<and> byte_order s' = byte_order s \<and> stack s' = stack s"
proof -
  have g: "get16 (byte_order s) 2 (p @ rest) = Some (pdu_session (byte_order s) p)"
    using assms(1) by (auto simp: get16_def pdu_session_def pdu_wf_def)
  obtain rv s1 where e: "rtr_send_error_pdu_from_host s [] CORRUPT_DATA
      (c_string ''Wrong session_id in Cache Response PDU'') = Some (rv, s1)"
    using error_sent [of "c_string ''Wrong session_id in Cache Response PDU''" "[]" s CORRUPT_DATA] by (auto simp: c_string_def RTR_MAX_PDU_LEN_def)
  have cf: "conn_frame s s1" using send_frame_conn [OF send_error_from_host_frame [OF e]] .
  then have "byte_order s1 = byte_order s" by (simp add: conn_frame_def)
  then show ?thesis using g e ctx_frame [OF cf] by (auto simp: rtr_handle_cache_response_pdu_def Let_def)
qed

lemma handle_error_same:
  assumes "rtr_handle_error_pdu s buf = Some (r, s')"
  shows "same_tables s s'"
  using ctx_frame [OF handle_error_frame [OF assms]] by simp

section \<open>The properties of a synchronisation\<close>

lemma rtr_sync_other:
  assumes "first_sync_pdu s (stack s) = Some (RTR_SUCCESS, p @ rest, s1)" "pdu_wf (byte_order s) p" "byte_order s1 = byte_order s"
    and "pdu_type_of (p ! 1) \<noteq> CACHE_RESPONSE"
  shows "\<exists>s'. rtr_sync s = Some (RTR_ERROR, s') \<and> same_tables s1 s'"
proof -
  have len: "8 \<le> length p" using assms(2) by (simp add: pdu_wf_def)
  have err: "\<exists>s'. rtr_handle_error_pdu s1 (p @ rest) = Some (RTR_SUCCESS, s') \<and> same_tables s1 s'" if "pdu_type_of (p ! 1) = ERROR"
    using handle_error_ok [of s1 p rest] assms(2,3) that handle_error_same by fastforce
  obtain bytes rv s' where unexp: "get_bytes 0 sizeof_pdu_header (p @ rest) = Some bytes"
    "rtr_send_error_pdu_from_host s1 bytes CORRUPT_DATA (c_string ''Unexpected PDU received in data synchronisation'') = Some (rv, s')"
    using unexpected_ok [OF len, of "''Unexpected PDU received in data synchronisation''" rest s1] by auto
  have "same_tables s1 s'" using ctx_frame [OF send_frame_conn [OF send_error_from_host_frame [OF unexp(2)]]] by simp
  then show ?thesis using assms(1,4) buffer_pdu(1) [OF assms(2), of rest] err unexp
    by (cases "pdu_type_of (p ! 1)") (auto simp: rtr_sync_def)
qed

lemma sync_collects:
  assumes "length (stack s) = RTR_MAX_PDU_LEN"
  shows "(\<exists>s'. rtr_sync_receive_and_store_pdus s = Some (RTR_ERROR, s') \<and> same_tables s s') \<or>
    (\<exists>pdus eod s' store buf. reads_to_eod s empty_store (stack s) pdus eod s' store buf \<and>
       rtr_sync_receive_and_store_pdus s = sync_eod s' store buf)"
  using recv_store_loop_collects [OF assms] unfolding collects_def rtr_sync_receive_and_store_pdus_def by blast

lemma stored_empty [simp]: "stored empty_store type = []"
  by (cases type) (simp_all add: stored_def empty_store_def)

text \<open>C9: whatever arrives on the connection, the receiving part of a synchronisation ends inside its buffers.
  Either the synchronisation returns an error and none of the three tables has been touched, or it has read a
  Cache Response PDU, well-formed PDUs each of which was stored or ignored without an error, and End of Data;
  then the arrays hold exactly the data PDUs read, per type in the order of arrival, the tables are as before,
  and the result is what the End of Data processing makes of these arrays.\<close>

theorem rtr_sync_ends:
  assumes "length (stack s) = RTR_MAX_PDU_LEN"
  shows "(\<exists>s'. rtr_sync s = Some (RTR_ERROR, s') \<and> same_tables s s') \<or>
    (\<exists>resp rest s1 r s2 pdus eod s' store buf.
       first_sync_pdu s (stack s) = Some (RTR_SUCCESS, resp @ rest, s1) \<and> pdu_wf (byte_order s) resp \<and>
       pdu_type_of (resp ! 1) = CACHE_RESPONSE \<and> rtr_handle_cache_response_pdu s1 (resp @ rest) = Some (r, s2) \<and>
       reads_to_eod s2 empty_store (stack s2) pdus eod s' store buf \<and> same_tables s s' \<and>
       (\<forall>p\<in>set pdus. pdu_wf (byte_order s) p) \<and> (\<forall>type\<in>data_types. stored store type = of_type type pdus) \<and>
       length buf = RTR_MAX_PDU_LEN \<and> take (length eod) buf = eod \<and> pdu_wf (byte_order s) eod \<and> pdu_type_of (eod ! 1) = EOD \<and>
       rtr_sync s = map_option sync_finish (sync_eod s' store buf))"
proof -
  obtain r buf s1 where f: "first_sync_pdu s (stack s) = Some (r, buf, s1)" "same_tables s s1" "byte_order s1 = byte_order s" "stack s1 = stack s"
    "r \<noteq> RTR_SUCCESS \<or> (\<exists>p rest. buf = p @ rest \<and> pdu_wf (byte_order s) p)"
    using first_sync_pdu_ends [OF assms, of s] by blast
  show ?thesis
  proof (cases "r = RTR_SUCCESS")
    case False
    then show ?thesis using f by (simp add: rtr_sync_def)
  next
    case True
    then obtain p rest where p: "buf = p @ rest" "pdu_wf (byte_order s) p" using f(5) by blast
    show ?thesis
    proof (cases "pdu_type_of (p ! 1) = CACHE_RESPONSE")
      case resp: True
      obtain r2 s2 where c: "rtr_handle_cache_response_pdu s1 (p @ rest) = Some (r2, s2)" "same_tables s1 s2" "byte_order s2 = byte_order s1" "stack s2 = stack s1"
        using cache_response_ends [of s1 p rest] p(2) f(3,4) assms by auto
      have eq: "rtr_sync s = map_option sync_finish (rtr_sync_receive_and_store_pdus s2)"
        using rtr_sync_response [OF _ p(2) resp c(1)] f(1) True p(1) by simp
      have len: "length (stack s2) = RTR_MAX_PDU_LEN" using assms c(4) f(4) by simp
      then consider (failed) s' where "rtr_sync_receive_and_store_pdus s2 = Some (RTR_ERROR, s')" "same_tables s2 s'"
        | (read) pdus eod s' store buf' where "reads_to_eod s2 empty_store (stack s2) pdus eod s' store buf'"
            "rtr_sync_receive_and_store_pdus s2 = sync_eod s' store buf'"
        using sync_collects by blast
      then show ?thesis
      proof cases
        case failed
        then show ?thesis using eq c(2) f(2) by (auto simp: sync_finish_def)
      next
        case read
        note i = reads_to_eod_inv [OF read(1) len]
        have "same_tables s s'" "byte_order s2 = byte_order s" using i c(2,3) f(2,3) by simp_all
        then show ?thesis using i read eq c(1) f(1) True p resp
          by (intro disjI2 exI [of _ p] exI [of _ rest] exI [of _ s1] exI [of _ r2] exI [of _ s2] exI [of _ pdus] exI [of _ eod]
              exI [of _ s'] exI [of _ store] exI [of _ buf']) simp
      qed
    next
      case other: False
      then show ?thesis using rtr_sync_other [of s p rest s1] f(1,2,3) True p by auto
    qed
  qed
qed

definition sample_ctx :: "rx_event list \<Rightarrow> rtr_ctx" where
  "sample_ctx evs = rtr_socket.extend (sample_socket evs) (rtr_ctx.fields (Some (rtr_pfx_table_init True)) (Some (spki_table_init True))
     (Some (rtr_aspa_table_init True)) [] (replicate RTR_MAX_PDU_LEN 0))"

lemma sample_ctx_fields [simp]:
  "self (sample_ctx evs) = 1" "byte_order (sample_ctx evs) = Little_Endian" "rx (tr_socket (sample_ctx evs)) = evs" "version (sample_ctx evs) = 1"
  "state (sample_ctx evs) = RTR_SYNC" "stack (sample_ctx evs) = replicate RTR_MAX_PDU_LEN 0" "allocs (sample_ctx evs) = []"
  "clock (tr_socket (sample_ctx evs)) n = Some (0, 0)" "request_session_id (sample_ctx evs)" "\<not> is_resetting (sample_ctx evs)"
  "last_update (sample_ctx evs) = 0" "pfx_table (sample_ctx evs) = Some (rtr_pfx_table_init True)"
  "spki_table (sample_ctx evs) = Some (spki_table_init True)" "aspa_table (sample_ctx evs) = Some (rtr_aspa_table_init True)"
  by (simp_all add: sample_ctx_def sample_socket_def rtr_socket.extend_def rtr_ctx.fields_def)

abbreviation cut_off :: "rtr_ctx" where
  "cut_off \<equiv> sample_ctx [Rx_Bytes [1, 3, 0], Rx_Fail Tr_Error]"

theorem rtr_sync_ends_witness: "\<exists>s'. rtr_sync cut_off = Some (RTR_ERROR, s') \<and> same_tables cut_off s'"
proof -
  have "length (stack cut_off) = RTR_MAX_PDU_LEN" by simp
  moreover have "\<nexists>buf s1. first_sync_pdu cut_off (stack cut_off) = Some (RTR_SUCCESS, buf, s1)"
    by (subst first_sync_pdu.simps)
      (simp add: rtr_receive_pdu_def tr_recv_all_fails ending.simps avail.simps write_at_def receive_failed_def Let_def)
  ultimately show ?thesis using rtr_sync_ends [of cut_off] by blast
qed

text \<open>C5: a cache that answers a query properly, whatever portions its answer arrives in, brings the router up
  to date. The answer continues the session: it is the first one or has the session of the socket, and no reset is
  under way. The tables, PDUs and allocations are as for applying a batch (no prefix record and no key twice, an
  ASPA announcement replaces a record only at the largest customer ASN of the batch, at most 128 do), and every
  change is possible. Then the synchronisation succeeds, the three tables hold exactly what the PDUs make of their former
  contents, session and serial number are those the cache has sent, the time of the update is noted, and what
  follows the answer stays in the stream.\<close>

theorem sync_brings_up_to_date:
  assumes "answers s resp pdus eod" "avail (rx (tr_socket s)) = stream_of (byte_order s) (resp # pdus @ [eod]) @ rest"
    and "continues s resp" "state s \<noteq> RTR_SHUTDOWN" "length (stack s) = RTR_MAX_PDU_LEN" "False \<notin> set (allocs s)"
    and "clock (tr_socket s) (ticks (tr_socket s)) = Some (sec, nsec)"
    and "pfx_table s = Some p" "spki_table s = Some k" "aspa_table s = Some a" "tables_ready s p k a pdus" "tables_accept s p k a pdus"
  shows "\<exists>s' p' k' a'. rtr_sync s = Some (RTR_SUCCESS, s') \<and> state s' = state s \<and> \<not> request_session_id s' \<and> \<not> is_resetting s' \<and>
    session_id s' = ucast (pdu_session (byte_order s) resp) \<and> serial_number s' = pdu_serial (byte_order s) eod \<and>
    last_update s' = rounded sec nsec \<and>
    pfx_table s' = Some p' \<and> spki_table s' = Some k' \<and> aspa_table s' = Some a' \<and> tables_applied s p k a pdus p' k' a' \<and>
    avail (rx (tr_socket s')) = rest"
  using assms by (rule rtr_sync_applies)

definition response_pdu :: "u8 list" where
  "response_pdu = [1, 3, 5, 0, 8, 0, 0, 0]"

definition eod_pdu :: "u8 list" where
  "eod_pdu = [1, 7, 5, 0, 24, 0, 0, 0, 9, 0, 0, 0, 16, 14, 0, 0, 88, 2, 0, 0, 32, 28, 0, 0]"

abbreviation cache_bytes :: "u8 list" where
  "cache_bytes \<equiv> [1, 3, 0, 5, 0, 0, 0, 8,
     1, 4, 0, 0, 0, 0, 0, 20, 1, 8, 24, 0, 10, 0, 0, 0, 0, 0, 0, 7,
     1, 7, 0, 5, 0, 0, 0, 24, 0, 0, 0, 9, 0, 0, 14, 16, 0, 0, 2, 88, 0, 0, 28, 32]"


lemma cache_bytes_stream: "stream_of Little_Endian (response_pdu # [prefix_pdu 1 10] @ [eod_pdu]) = cache_bytes"
  by code_simp

lemma empty_tables:
  "pfx_inv (rtr_pfx_table_init True)" "pfx_records (rtr_pfx_table_init True) = []" "spki_inv (spki_table_init True)"
  "spki_list (spki_table_init True) = []" "store_ok (rtr_aspa_table_init True)" "\<not> update_lock (rtr_aspa_table_init True)"
  by (fact spki_inv_init | simp add: rtr_pfx_table_init_def pfx_inv_def pfx_trie_inv_def pfx_records_def spki_table_init_def
      rtr_aspa_table_init_def store_ok_def)+

lemma spki_records_init: "spki_records (spki_table_init True) = []"
  by (simp add: spki_records_def empty_tables)

lemma sample_answer: "answers (sample_ctx evs) response_pdu [prefix_pdu 1 10] eod_pdu"
  by (simp add: answers_def sendable_def response_pdu_def eod_pdu_def prefix_pdu_def pdu_type_of_def pdu_wf_def
      field32_def dec32_def RTR_MAX_PDU_LEN_def pdu_session_def)

lemma sample_tables:
  "tables_ready (sample_ctx evs) (rtr_pfx_table_init True) (spki_table_init True) (rtr_aspa_table_init True) [prefix_pdu 1 10]"
  "tables_accept (sample_ctx evs) (rtr_pfx_table_init True) (spki_table_init True) (rtr_aspa_table_init True) [prefix_pdu 1 10]"
  "applied (pfx_change (sample_ctx evs)) (prefixes [prefix_pdu 1 10]) (set (pfx_records (rtr_pfx_table_init True))) =
     {\<lparr>pr_asn = 7, pr_prefix = Ip4 0x0A000000, pr_min_len = 8, pr_max_len = 24, pr_socket = 1\<rparr>}"
proof -
  note pdu = prefix_pdu_sample [of 1 "sample_ctx evs", simplified]
  have f: "prefixes [prefix_pdu 1 10] = [prefix_pdu 1 10]" "of_type ROUTER_KEY [prefix_pdu 1 10] = []" "of_type ASPA [prefix_pdu 1 10] = []"
    by (simp_all add: prefixes_def of_type_def prefix_pdu_def pdu_type_of_def)
  have c: "List.map_filter (pfx_change (sample_ctx evs)) [prefix_pdu 1 10] = [the (pfx_change (sample_ctx evs) (prefix_pdu 1 10))]"
    "List.map_filter (spki_change (sample_ctx evs)) [] = []" using pdu by (simp_all add: List.map_filter_simps)
  show "tables_ready (sample_ctx evs) (rtr_pfx_table_init True) (spki_table_init True) (rtr_aspa_table_init True) [prefix_pdu 1 10]"
    using c pdu by (simp add: tables_ready_def f empty_tables distinct_changes_def aspa_batch_ok_def replacing_def replaces_last_def)
  show "tables_accept (sample_ctx evs) (rtr_pfx_table_init True) (spki_table_init True) (rtr_aspa_table_init True) [prefix_pdu 1 10]"
    using c pdu by (simp add: tables_accept_def f empty_tables accepts_def aspa_accepts_def replacing_def replaces_last_def)
  show "applied (pfx_change (sample_ctx evs)) (prefixes [prefix_pdu 1 10]) (set (pfx_records (rtr_pfx_table_init True))) =
     {\<lparr>pr_asn = 7, pr_prefix = Ip4 0x0A000000, pr_min_len = 8, pr_max_len = 24, pr_socket = 1\<rparr>}"
    using c pdu by (simp add: f empty_tables applied_def)
qed

theorem sync_brings_up_to_date_witness:
  "\<exists>s' p'. rtr_sync (sample_ctx [Rx_Bytes (take 11 cache_bytes), Rx_Bytes (drop 11 cache_bytes)]) = Some (RTR_SUCCESS, s') \<and>
    pfx_table s' = Some p' \<and> serial_number s' = 9 \<and> session_id s' = 5 \<and>
    set (pfx_records p') = {\<lparr>pr_asn = 7, pr_prefix = Ip4 0x0A000000, pr_min_len = 8, pr_max_len = 24, pr_socket = 1\<rparr>}"
proof -
  let ?s = "sample_ctx [Rx_Bytes (take 11 cache_bytes), Rx_Bytes (drop 11 cache_bytes)]"
  have stream: "avail (rx (tr_socket ?s)) = stream_of (byte_order ?s) (response_pdu # [prefix_pdu 1 10] @ [eod_pdu]) @ []"
    unfolding sample_ctx_fields cache_bytes_stream by simp
  have "continues ?s response_pdu" "state ?s \<noteq> RTR_SHUTDOWN" "length (stack ?s) = RTR_MAX_PDU_LEN" "False \<notin> set (allocs ?s)"
    "clock (tr_socket ?s) (ticks (tr_socket ?s)) = Some (0, 0)" by (simp_all add: continues_def)
  note s = this
  have n: "pdu_session Little_Endian response_pdu = 5" "pdu_serial Little_Endian eod_pdu = 9"
    by (simp_all add: pdu_session_def pdu_serial_def response_pdu_def eod_pdu_def dec16_def dec32_def)
  from sync_brings_up_to_date [OF sample_answer stream s sample_ctx_fields(12,13,14) sample_tables(1,2)] show ?thesis
    using sample_tables(3) by (auto simp: n tables_applied_def)
qed

end
