(* ===== verification/Rtr_Reset.thy ===== *)
theory Rtr_Reset
  imports Rtr_Session
begin

text \<open>
  The reset of a session, after the End of Data branch of \<open>rtr_sync_receive_and_store_pdus\<close>: shadow tables
  with the records of the other sockets take what the cache has sent and are swapped in at once. The theorems
  state when a reset succeeds, what it leaves and reports then, and what a failed reset leads to.
\<close>

section \<open>Building the shadow tables\<close>

abbreviation others_pfx :: "socket_id \<Rightarrow> rtr_pfx_table \<Rightarrow> rtr_pfx_record set" where
  "others_pfx me p \<equiv> {r \<in> set (pfx_records p). pr_socket r \<noteq> me}"

abbreviation others_spki :: "socket_id \<Rightarrow> rtr_spki_table \<Rightarrow> rtr_spki_record set" where
  "others_spki me k \<equiv> {r \<in> set (spki_records k). sr_socket r \<noteq> me}"

lemma shadow_pfx:
  assumes "pfx_inv p" "False \<notin> set mem"
  obtains q mem' where "pfx_table_copy_except_socket (Some p) (Some (rtr_pfx_table_init False)) me mem = Some (RTR_PFX_SUCCESS, Some q, mem')"
    "pfx_inv q" "set (pfx_records q) = others_pfx me p" "False \<notin> set mem'"
proof -
  have e: "pfx_inv (rtr_pfx_table_init False)" "pfx_records (rtr_pfx_table_init False) = []"
    by (simp_all add: rtr_pfx_table_init_def pfx_inv_def pfx_trie_inv_def pfx_records_def)
  obtain q mem' where q: "pfx_table_copy_except_socket (Some p) (Some (rtr_pfx_table_init False)) me mem = Some (RTR_PFX_SUCCESS, Some q, mem')"
    "pfx_inv q" "False \<notin> set mem'" "mset (pfx_records q) = mset (filter (\<lambda>r. pr_socket r \<noteq> me) (pfx_records p))"
    using pfx_table_copy_outcome [OF assms(1) e(1) assms(2), of me] e(2) by auto
  have "set (pfx_records q) = others_pfx me p" using arg_cong [OF q(4), of set_mset] by auto
  with q that show ?thesis by blast
qed

lemma add_entry_mem: "spki_table_add_entry tbl r mem = Some (rv, tbl', mem') \<Longrightarrow> set mem' \<subseteq> set mem"
  by (auto simp: spki_table_add_entry_def Let_def split: prod.splits if_splits option.splits elim!: bind_SomeE dest!: rtr_malloc_set)

lemma copy_entries_mem: "copy_entries me es dst mem = Some (rv, dst', mem') \<Longrightarrow> set mem' \<subseteq> set mem"
  by (induction me es dst mem rule: copy_entries.induct) (fastforce split: if_splits elim!: bind_SomeE dest: add_entry_mem)+

lemma shadow_spki:
  assumes "spki_inv k" "length (spki_list k) < 2 ^ 29" "False \<notin> set mem"
  obtains l mem' where "spki_table_copy_except_socket k (spki_table_init False) me mem = Some (RTR_SPKI_SUCCESS, l, mem')"
    "spki_inv l" "set (spki_records l) = others_spki me k" "length (spki_list l) \<le> length (spki_list k)" "False \<notin> set mem'"
proof -
  have e: "spki_inv (spki_table_init False)" "spki_list (spki_table_init False) = []" by (simp add: spki_inv_init) (simp add: spki_table_init_def)
  have d: "distinct (spki_list k)" using assms(1) by (simp add: spki_inv_def)
  obtain rv l mem' where l: "copy_entries me (spki_list k) (spki_table_init False) mem = Some (rv, l, mem')"
    "copied (filter (\<lambda>e. ke_socket e \<noteq> me) (spki_list k)) (spki_table_init False) (False \<in> set mem) rv l"
    using copy_entries_outcome [OF e(1) d, of me mem] e(2) assms(2) by auto
  then have c: "rv = RTR_SPKI_SUCCESS" "spki_inv l" "spki_list l = filter (\<lambda>e. ke_socket e \<noteq> me) (spki_list k)"
    using assms(3) e(2) by (auto simp: copied_def split: if_splits)
  have "set (spki_records l) = others_spki me k" by (auto simp: spki_records_def c(3) key_entry_to_spki_record_def)
  moreover have "length (spki_list l) \<le> length (spki_list k)" by (simp add: c(3))
  moreover have "False \<notin> set mem'" using copy_entries_mem [OF l(1)] assms(3) by auto
  ultimately show ?thesis using that l(1) c(1,2) by (simp add: spki_table_copy_except_socket_def)
qed

section \<open>Swapping them in\<close>

text \<open>What the clients of the prefix table are told.\<close>

definition pfx_reported :: "socket_id \<Rightarrow> rtr_pfx_table \<Rightarrow> rtr_pfx_record set \<Rightarrow> rtr_pfx_table \<Rightarrow> bool" where
  "pfx_reported me p new p' =
     (\<exists>adds gone. pfx_log p' = pfx_log p @ (if update_fp p then map (\<lambda>r. (r, RTR_PFX_ADD)) adds @ map (\<lambda>r. (r, RTR_PFX_REMOVE)) gone else []) \<and>
        distinct adds \<and> distinct gone \<and> set adds = {r \<in> new. pr_socket r = me \<and> r \<notin> set (pfx_records p)} \<and>
        set gone = {r \<in> set (pfx_records p). pr_socket r = me \<and> r \<notin> new})"

lemma pfx_swapped [simp]:
  "pfx_inv (p\<lparr>ipv4 := ipv4 q, ipv6 := ipv6 q\<rparr>) = pfx_inv q" "pfx_records (p\<lparr>ipv4 := ipv4 q, ipv6 := ipv6 q\<rparr>) = pfx_records q"
  by (simp_all add: pfx_inv_def pfx_records_def)

lemma pfx_records_notify_all [simp]: "pfx_records (notify_all op rs p) = pfx_records p" "pfx_inv (notify_all op rs p) = pfx_inv p"
  by (simp_all add: pfx_records_def pfx_inv_def)

lemma swap_pfx:
  assumes "pfx_inv p" "pfx_inv q" "False \<notin> set mem"
  obtains p' q' mem' where "(if update_fp (fst (pfx_table_swap p q)) then pfx_table_notify_diff (fst (pfx_table_swap p q)) (snd (pfx_table_swap p q)) me mem
      else Some (fst (pfx_table_swap p q), snd (pfx_table_swap p q), mem)) = Some (p', q', mem')"
    "pfx_inv p'" "pfx_inv q'" "set (pfx_records p') = set (pfx_records q)" "pfx_reported me p (set (pfx_records q)) p'"
proof (cases "update_fp p")
  case False
  then have "pfx_reported me p (set (pfx_records q)) (fst (pfx_table_swap p q))"
    using finite_distinct_list [of "{r \<in> set (pfx_records q). pr_socket r = me \<and> r \<notin> set (pfx_records p)}"]
      finite_distinct_list [of "{r \<in> set (pfx_records p). pr_socket r = me \<and> r \<notin> set (pfx_records q)}"]
    unfolding pfx_reported_def by (auto simp: pfx_table_swap_def)
  then show ?thesis using False assms by (intro that [of "fst (pfx_table_swap p q)" "snd (pfx_table_swap p q)" mem]) (simp_all add: pfx_table_swap_def)
next
  case True
  let ?n = "p\<lparr>ipv4 := ipv4 q, ipv6 := ipv6 q\<rparr>" and ?o = "q\<lparr>ipv4 := ipv4 p, ipv6 := ipv6 p\<rparr>"
  let ?adds = "filter (\<lambda>r. pr_socket r = me \<and> r \<notin> set (pfx_records p)) (pfx_records q)"
  obtain o' mem' w where d: "pfx_table_notify_diff ?n ?o me mem = Some (notify_all RTR_PFX_REMOVE w (notify_all RTR_PFX_ADD ?adds ?n), o', mem')"
    "pfx_inv o'" "distinct w" "set w = {r \<in> set (pfx_records p). pr_socket r = me \<and> r \<notin> set (pfx_records q)}"
    using pfx_table_notify_diff_outcome [of ?n ?o mem me] assms by auto
  have "distinct ?adds" using pfx_records_distinct [OF assms(2)] by simp
  then have "pfx_reported me p (set (pfx_records q)) (notify_all RTR_PFX_REMOVE w (notify_all RTR_PFX_ADD ?adds ?n))"
    unfolding pfx_reported_def using d(3,4) by (intro exI [of _ ?adds] exI [of _ w] conjI) (simp_all add: True notify_all_log)
  then show ?thesis using True d assms(2)
    by (intro that [of "notify_all RTR_PFX_REMOVE w (notify_all RTR_PFX_ADD ?adds ?n)" o' mem']) (simp_all add: pfx_table_swap_def)
qed

lemma spki_swapped [simp]:
  "spki_inv (k\<lparr>spki_hashtable := spki_hashtable l, spki_list := spki_list l\<rparr>) = spki_inv l"
  "spki_records (k\<lparr>spki_hashtable := spki_hashtable l, spki_list := spki_list l\<rparr>) = spki_records l"
  "spki_inv (k\<lparr>spki_log := lg\<rparr>) = spki_inv k" "spki_records (k\<lparr>spki_log := lg\<rparr>) = spki_records k"
  by (simp_all add: spki_inv_def spki_records_def)

lemma swap_spki:
  assumes "spki_inv k" "spki_inv l"
  obtains k' l' where "(if spki_fp (fst (spki_table_swap k l)) then spki_table_notify_diff (fst (spki_table_swap k l)) (snd (spki_table_swap k l)) me
      else Some (fst (spki_table_swap k l), snd (spki_table_swap k l))) = Some (k', l')"
    "spki_inv k'" "set (spki_records k') = set (spki_records l)"
    "spki_log k' = spki_log k @ (if spki_fp k then spki_diff_log (spki_records l) (spki_records k) me else [])"
proof -
  let ?n = "k\<lparr>spki_hashtable := spki_hashtable l, spki_list := spki_list l\<rparr>" and ?o = "l\<lparr>spki_hashtable := spki_hashtable k, spki_list := spki_list k\<rparr>"
  obtain o' where "spki_table_notify_diff ?n ?o me =
      Some (?n\<lparr>spki_log := spki_log ?n @ (if spki_fp ?n then spki_diff_log (spki_records ?n) (spki_records ?o) me else [])\<rparr>, o')"
    using notify_diff_outcome [of ?n ?o me] assms by auto
  then show ?thesis using assms that by (cases "spki_fp k") (simp_all add: spki_table_swap_def)
qed

text \<open>What \<open>aspa_table_src_replace\<close> makes of the ASPA table. When the socket has no node in the shadow table, which is
  so when its cache has sent no ASPA PDU, the function returns an error that its caller ignores: the former records
  stay and nothing is reported. Otherwise every former record is reported as removed and every new one as added.\<close>

definition aspa_replaced :: "socket_id \<Rightarrow> rtr_aspa_table \<Rightarrow> rtr_aspa_table \<Rightarrow> rtr_aspa_table \<Rightarrow> bool" where
  "aspa_replaced me a b a' =
     (store_ok a' \<and> one_node_each a' \<and> \<not> update_lock a' \<and>
      (\<forall>t. socket_records a' t =
         (if t = me \<and> aspa_store_get_node (aspa_store b) me \<noteq> None then socket_records b me else socket_records a t)) \<and>
      aspa_log a' = aspa_log a @
        (if aspa_store_get_node (aspa_store b) me \<noteq> None \<and> aspa_fp a
         then map (\<lambda>r. (r, me, RTR_ASPA_REMOVE)) (socket_records a me) @ map (\<lambda>r. (r, me, RTR_ASPA_ADD)) (socket_records b me) else []))"

lemma replace_aspa:
  assumes "store_ok a" "one_node_each a" "\<not> update_lock a" "store_ok b" "\<not> update_lock b" "False \<notin> set mem"
  obtains st a' b' mem' where "aspa_table_src_replace (Some a) (Some b) me (aspa_fp a) False mem = Some (st, Some a', Some b', mem')"
    "aspa_replaced me a b a'" "\<not> update_lock b'" "False \<notin> set mem'"
proof (cases "aspa_store_get_node (aspa_store b) me")
  case None
  have "aspa_table_src_replace (Some a) (Some b) me (aspa_fp a) False mem = Some (RTR_ASPA_ERROR, Some a, Some b, mem)"
    by (rule aspa_src_replace_missing [OF assms(3,5) None])
  then show ?thesis using that [of RTR_ASPA_ERROR a b mem] assms None by (simp add: aspa_replaced_def del: aspa_table_src_replace.simps)
next
  case (Some i)
  from aspa_src_replace_outcome [OF assms(2,3,5,1,4) Some assms(6), of "aspa_fp a" False] obtain a' b' mem' where
    "aspa_table_src_replace (Some a) (Some b) me (aspa_fp a) False mem = Some (RTR_ASPA_SUCCESS, Some a', Some b', mem')"
    "\<forall>t. socket_records a' t = (if t = me then socket_records b me else socket_records a t)"
    "one_node_each a'" "store_ok a'" "\<not> update_lock a'" "\<not> update_lock b'" "False \<notin> set mem'"
    "aspa_log a' = aspa_log a @ (if aspa_fp a \<and> aspa_fp a then map (\<lambda>r. (r, me, RTR_ASPA_REMOVE)) (socket_records a me) @
      map (\<lambda>r. (r, me, RTR_ASPA_ADD)) (socket_records b me) else [])" by blast
  then show ?thesis using that [of RTR_ASPA_SUCCESS a' b' mem'] Some by (simp add: aspa_replaced_def del: aspa_table_src_replace.simps)
qed

definition swapped :: "socket_id \<Rightarrow> tables \<Rightarrow> tables \<Rightarrow> tables \<Rightarrow> bool" where
  "swapped me old new res =
     (case (old, new, res) of
        ((Some p, Some k, Some a), (Some q, Some l, Some b), (Some p', Some k', Some a')) \<Rightarrow>
          pfx_inv p' \<and> spki_inv k' \<and> set (pfx_records p') = set (pfx_records q) \<and> set (spki_records k') = set (spki_records l) \<and>
          aspa_replaced me a b a' \<and> pfx_reported me p (set (pfx_records q)) p' \<and>
          spki_log k' = spki_log k @ (if spki_fp k then spki_diff_log (spki_records l) (spki_records k) me else [])
      | _ \<Rightarrow> False)"

lemma swap_tables_in_ok:
  assumes t: "pfx_table s = Some p" "spki_table s = Some k" "aspa_table s = Some a"
    and inv: "pfx_inv p" "spki_inv k" "store_ok a" "one_node_each a" "\<not> update_lock a"
    and new: "pfx_inv q" "spki_inv l" "store_ok b" "\<not> update_lock b" "False \<notin> set (allocs s)"
  obtains p' k' a' q' l' b' mem where
    "swap_tables_in s q l b = Some (s\<lparr>pfx_table := Some p', spki_table := Some k', aspa_table := Some a', allocs := mem\<rparr>, (Some q', Some l', Some b'))"
    "swapped (self s) (Some p, Some k, Some a) (Some q, Some l, Some b) (Some p', Some k', Some a')" "pfx_inv q'" "\<not> update_lock b'"
proof -
  obtain st a' b' mem1 where ar: "aspa_table_src_replace (Some a) (Some b) (self s) (aspa_fp a) False (allocs s) = Some (st, Some a', Some b', mem1)"
    "aspa_replaced (self s) a b a'" "\<not> update_lock b'" "False \<notin> set mem1"
    by (rule replace_aspa [OF inv(3-5) new(3-5)])
  obtain p' q' mem2 where pr: "(if update_fp (fst (pfx_table_swap p q)) then pfx_table_notify_diff (fst (pfx_table_swap p q)) (snd (pfx_table_swap p q)) (self s) mem1
      else Some (fst (pfx_table_swap p q), snd (pfx_table_swap p q), mem1)) = Some (p', q', mem2)"
    "pfx_inv p'" "pfx_inv q'" "set (pfx_records p') = set (pfx_records q)" "pfx_reported (self s) p (set (pfx_records q)) p'"
    by (rule swap_pfx [OF inv(1) new(1) ar(4)])
  obtain k' l' where kr: "(if spki_fp (fst (spki_table_swap k l)) then spki_table_notify_diff (fst (spki_table_swap k l)) (snd (spki_table_swap k l)) (self s)
      else Some (fst (spki_table_swap k l), snd (spki_table_swap k l))) = Some (k', l')"
    "spki_inv k'" "set (spki_records k') = set (spki_records l)"
    "spki_log k' = spki_log k @ (if spki_fp k then spki_diff_log (spki_records l) (spki_records k) (self s) else [])"
    by (rule swap_spki [OF inv(2) new(2)])
  have "swap_tables_in s q l b = Some (s\<lparr>pfx_table := Some p', spki_table := Some k', aspa_table := Some a', allocs := mem2\<rparr>, (Some q', Some l', Some b'))"
    using t ar(1) pr(1) kr(1)
    by (cases "update_fp (fst (pfx_table_swap p q))"; cases "spki_fp (fst (spki_table_swap k l))")
      (simp_all add: swap_tables_in_def split_def Let_def del: aspa_table_src_replace.simps)
  moreover have "swapped (self s) (Some p, Some k, Some a) (Some q, Some l, Some b) (Some p', Some k', Some a')"
    using ar(2) pr(2-5) kr(2-4) by (simp add: swapped_def)
  ultimately show ?thesis using that ar(3) pr(3) by blast
qed

lemma free_store_quiet: "snd (free_store tbl ns False mem) = mem"
  by (induction ns arbitrary: tbl) (auto simp: aspa_table_remove_node_def Let_def split: option.splits)

lemma free_shadow_tables_ok:
  assumes "pfx_inv q" "\<not> update_lock b"
  shows "free_shadow_tables s (Some q, l, Some b) = Some (s\<lparr>is_resetting := False\<rparr>)"
proof -
  have "pfx_inv (q\<lparr>update_fp := False\<rparr>)" using assms(1) by simp
  from rtr_pfx_table_free_outcome [OF this] obtain r where "pfx_table_free_without_notify q = Some r"
    by (auto simp: pfx_table_free_without_notify_def)
  then show ?thesis using assms(2) free_store_quiet [of b "aspa_store b" "allocs s"]
    by (simp add: free_shadow_tables_def split_def)
qed


section \<open>The reset as a whole\<close>

definition shadows_ready :: "'a rtr_socket_scheme \<Rightarrow> rtr_spki_table \<Rightarrow> u8 list list \<Rightarrow> bool" where
  "shadows_ready s k pdus =
     (length (spki_list k) + 2 * length (of_type ROUTER_KEY pdus) < 2 ^ 29 \<and>
      (\<forall>pdu\<in>set (prefixes pdus). pfx_pdu_ok s pdu) \<and> (\<forall>pdu\<in>set (of_type ROUTER_KEY pdus). spki_pdu_ok s pdu) \<and>
      aspa_batch_ok s (rtr_aspa_table_init False) (of_type ASPA pdus) \<and>
      distinct_changes (pfx_change s) (prefixes pdus) \<and> distinct_changes (spki_change s) (of_type ROUTER_KEY pdus))"

definition shadows_accept :: "'a rtr_socket_scheme \<Rightarrow> rtr_pfx_table \<Rightarrow> rtr_spki_table \<Rightarrow> u8 list list \<Rightarrow> bool" where
  "shadows_accept s p k pdus =
     (accepts (pfx_change s) (prefixes pdus) (others_pfx (self s) p) \<and>
      accepts (spki_change s) (of_type ROUTER_KEY pdus) (others_spki (self s) k) \<and>
      aspa_accepts s (rtr_aspa_table_init False) (of_type ASPA pdus))"

text \<open>What a successful reset leaves: the other sockets' records and, for this socket, what the PDUs say.\<close>

definition reset_done :: "'a rtr_socket_scheme \<Rightarrow> tables \<Rightarrow> u8 list list \<Rightarrow> tables \<Rightarrow> bool" where
  "reset_done s old pdus res =
     (\<exists>q l b. swapped (self s) old (Some q, Some l, Some b) res \<and>
        (case old of (Some p, Some k, _) \<Rightarrow>
           set (pfx_records q) = applied (pfx_change s) (prefixes pdus) (others_pfx (self s) p) \<and>
           set (spki_records l) = applied (spki_change s) (of_type ROUTER_KEY pdus) (others_spki (self s) k)
         | _ \<Rightarrow> False) \<and>
        aspa_applied s (rtr_aspa_table_init False) (of_type ASPA pdus) b)"

definition reset_finish :: "(int \<times> rtr_ctx \<times> tables \<times> mem) option \<Rightarrow> (int \<times> rtr_ctx) option" where
  "reset_finish res =
     do { (retval, s, (pfxt, spkit, aspat), mem) \<leftarrow> res;
          let s = s\<lparr>allocs := mem\<rparr>;
          pfx_shadow \<leftarrow> pfxt; spki_shadow \<leftarrow> spkit; aspa_shadow \<leftarrow> aspat;
          (s, shadows) \<leftarrow>
            (if retval = RTR_SUCCESS then swap_tables_in s pfx_shadow spki_shadow aspa_shadow
             else Some (s, (Some pfx_shadow, Some spki_shadow, Some aspa_shadow)));
          s \<leftarrow> free_shadow_tables s shadows;
          Some (retval, s) }"

lemma reset_finish_done:
  assumes t: "pfx_table s = Some p" "spki_table s = Some k" "aspa_table s = Some a"
    and inv: "pfx_inv p" "spki_inv k" "store_ok a" "one_node_each a" "\<not> update_lock a"
    and new: "pfx_inv q" "spki_inv l" "store_ok b" "\<not> update_lock b" "False \<notin> set mem"
  shows "\<exists>s'. reset_finish (Some (RTR_SUCCESS, s\<lparr>serial_number := n\<rparr>, (Some q, Some l, Some b), mem)) = Some (RTR_SUCCESS, s') \<and>
    \<not> is_resetting s' \<and> serial_number s' = n \<and> state s' = state s \<and>
    swapped (self s) (Some p, Some k, Some a) (Some q, Some l, Some b) (pfx_table s', spki_table s', aspa_table s')"
proof -
  let ?s = "s\<lparr>serial_number := n, allocs := mem\<rparr>"
  have t': "pfx_table ?s = Some p" "spki_table ?s = Some k" "aspa_table ?s = Some a" "False \<notin> set (allocs ?s)" using t new(5) by simp_all
  obtain p' k' a' q' l' b' mem' where w:
    "swap_tables_in ?s q l b = Some (?s\<lparr>pfx_table := Some p', spki_table := Some k', aspa_table := Some a', allocs := mem'\<rparr>, (Some q', Some l', Some b'))"
    "swapped (self ?s) (Some p, Some k, Some a) (Some q, Some l, Some b) (Some p', Some k', Some a')" "pfx_inv q'" "\<not> update_lock b'"
    by (rule swap_tables_in_ok [OF t'(1-3) inv new(1-4) t'(4)])
  show ?thesis using w free_shadow_tables_ok [OF w(3,4)] by (simp add: reset_finish_def)
qed

lemma reset_finish_undone:
  assumes "pfx_inv q" "\<not> update_lock b" "conn_frame s s1"
  shows "\<exists>s'. reset_finish (Some (RTR_ERROR, s1, (Some q, Some l, Some b), mem)) = Some (RTR_ERROR, s') \<and>
    \<not> is_resetting s' \<and> same_tables s s' \<and> state s' = state s1 \<and> request_session_id s' = request_session_id s \<and> last_update s' = last_update s"
  using free_shadow_tables_ok [OF assms(1,2)] ctx_frame [OF assms(3)] assms(3) by (simp add: reset_finish_def conn_frame_def)

lemma sync_reset_outcome:
  assumes t: "pfx_table s = Some p" "spki_table s = Some k" "aspa_table s = Some a" "False \<notin> set (allocs s)"
    and inv: "pfx_inv p" "spki_inv k" "store_ok a" "one_node_each a" "\<not> update_lock a"
    and ready: "shadows_ready s k pdus" "\<forall>type\<in>data_types. stored store type = of_type type pdus" "12 \<le> length eod"
  shows "\<exists>rv s'. sync_reset s store eod = Some (rv, s') \<and> \<not> is_resetting s' \<and>
    (if shadows_accept s p k pdus
     then rv = RTR_SUCCESS \<and> serial_number s' = dec32 (byte_order s) (take 4 (drop 8 eod)) \<and> state s' = state s \<and>
       reset_done s (Some p, Some k, Some a) pdus (pfx_table s', spki_table s', aspa_table s')
     else rv = RTR_ERROR \<and> same_tables s s' \<and> (state s \<noteq> RTR_SHUTDOWN \<longrightarrow> state s' = RTR_ERROR_FATAL) \<and> request_session_id s' = request_session_id s \<and> last_update s' = last_update s)"
proof -
  obtain m1 where m1: "rtr_malloc (allocs s) = (True, m1)" "False \<notin> set m1" using rtr_malloc_fine [OF t(4)] by blast
  obtain q m2 where q: "pfx_table_copy_except_socket (Some p) (Some (rtr_pfx_table_init False)) (self s) m1 = Some (RTR_PFX_SUCCESS, Some q, m2)"
    "pfx_inv q" "set (pfx_records q) = others_pfx (self s) p" "False \<notin> set m2" by (rule shadow_pfx [OF inv(1) m1(2)])
  obtain m3 where m3: "rtr_malloc m2 = (True, m3)" "False \<notin> set m3" using rtr_malloc_fine [OF q(4)] by blast
  have room: "length (spki_list k) < 2 ^ 29" using ready(1) by (simp add: shadows_ready_def)
  obtain l m4 where l: "spki_table_copy_except_socket k (spki_table_init False) (self s) m3 = Some (RTR_SPKI_SUCCESS, l, m4)"
    "spki_inv l" "set (spki_records l) = others_spki (self s) k" "length (spki_list l) \<le> length (spki_list k)" "False \<notin> set m4"
    by (rule shadow_spki [OF inv(2) room m3(2)])
  obtain m5 where m5: "rtr_malloc m4 = (True, m5)" "False \<notin> set m5" using rtr_malloc_fine [OF l(5)] by blast
  have b: "store_ok (rtr_aspa_table_init False)" "\<not> update_lock (rtr_aspa_table_init False)" by (simp_all add: rtr_aspa_table_init_def store_ok_def)
  have st: "fst (ipv4_pdus store) = of_type IPV4_PREFIX pdus" "fst (ipv6_pdus store) = of_type IPV6_PREFIX pdus"
    "fst (router_key_pdus store) = of_type ROUTER_KEY pdus" "fst (aspa_pdus store) = of_type ASPA pdus"
    using ready(2) by (simp_all add: stored_def)
  let ?upd = "rtr_sync_update_tables s (Some q, Some l, Some (rtr_aspa_table_init False)) (of_type IPV4_PREFIX pdus) (of_type IPV6_PREFIX pdus)
    (of_type ROUTER_KEY pdus) (of_type ASPA pdus) eod m5"
  have upd: "(if shadows_accept s p k pdus then sync_done s q l (rtr_aspa_table_init False) (prefixes pdus) (of_type ROUTER_KEY pdus) (of_type ASPA pdus) eod
     else sync_undone s q l (rtr_aspa_table_init False)) ?upd"
    using sync_update_tables_outcome [where p = q and k = l and a = "rtr_aspa_table_init False" and s = s and ?v4.0 = "of_type IPV4_PREFIX pdus"
        and ?v6.0 = "of_type IPV6_PREFIX pdus" and keys = "of_type ROUTER_KEY pdus" and aspas = "of_type ASPA pdus"
        and eod = eod and mem = m5] q(2) l(2,4) b m5(2) ready(1,3)
    unfolding shadows_accept_def q(3) l(3) prefixes_def by (simp add: shadows_ready_def prefixes_def)
  have eq: "sync_reset s store eod = reset_finish ?upd"
    unfolding sync_reset_def reset_finish_def st using t m1(1) q(1) m3(1) l(1) m5(1) by simp
  show ?thesis
  proof (cases "shadows_accept s p k pdus")
    case True
    then obtain q1 l1 b1 m6 where u: "?upd = Some (RTR_SUCCESS, s\<lparr>serial_number := dec32 (byte_order s) (take 4 (drop 8 eod))\<rparr>, (Some q1, Some l1, Some b1), m6)"
      "pfx_inv q1" "spki_inv l1" "set (pfx_records q1) = applied (pfx_change s) (prefixes pdus) (set (pfx_records q))"
      "set (spki_records l1) = applied (spki_change s) (of_type ROUTER_KEY pdus) (set (spki_records l))"
      "aspa_applied s (rtr_aspa_table_init False) (of_type ASPA pdus) b1" "False \<notin> set m6"
      using upd by (auto simp: sync_done_def)
    have b1: "store_ok b1" "\<not> update_lock b1" using u(6) by (simp_all add: aspa_applied_def)
    from reset_finish_done [OF t(1-3) inv u(2,3) b1 u(7)] show ?thesis
      using True u(4-6) unfolding eq u(1) reset_done_def q(3) l(3) by fastforce
  next
    case False
    then obtain s1 q1 l1 b1 m6 where u: "?upd = Some (RTR_ERROR, s1, (Some q1, Some l1, Some b1), m6)" "pfx_inv q1"
      "aspa_kept (rtr_aspa_table_init False) b1" "conn_frame s s1" "state s \<noteq> RTR_SHUTDOWN \<longrightarrow> state s1 = RTR_ERROR_FATAL"
      using upd by (auto simp: sync_undone_def)
    have "\<not> update_lock b1" using u(3) by (simp add: aspa_kept_def)
    from reset_finish_undone [OF u(2) this u(4)] show ?thesis using False u(5) unfolding eq u(1) by fastforce
  qed
qed

lemma shadows_cong:
  assumes "self s' = self s" "byte_order s' = byte_order s"
  shows "shadows_ready s' = shadows_ready s" "shadows_accept s' = shadows_accept s" "reset_done s' = reset_done s"
proof -
  note c = pfx_change_cong [OF assms] spki_change_cong [OF assms]
  have "aspa_batch_ok s' = aspa_batch_ok s" "aspa_accepts s' = aspa_accepts s" "aspa_applied s' = aspa_applied s"
    by (simp_all add: fun_eq_iff aspa_batch_ok_def aspa_pdu_ok_def aspa_accepts_def aspa_applied_def assms)
  note eqs = this c assms(1)
  show "shadows_ready s' = shadows_ready s" "shadows_accept s' = shadows_accept s" "reset_done s' = reset_done s"
    unfolding shadows_ready_def shadows_accept_def reset_done_def eqs by (rule refl)+
qed

lemma sync_eod_resets:
  assumes eod: "pdu_wf (byte_order s) eod" "pdu_type_of (eod ! 1) = EOD" "length (eod @ tail) = RTR_MAX_PDU_LEN"
      "ucast (pdu_session (byte_order s) eod) = session_id s"
    and s: "is_resetting s" "pfx_table s = Some p" "spki_table s = Some k" "aspa_table s = Some a" "False \<notin> set (allocs s)"
    and inv: "pfx_inv p" "spki_inv k" "store_ok a" "one_node_each a" "\<not> update_lock a"
    and ready: "shadows_ready s k pdus" "\<forall>type\<in>data_types. stored store type = of_type type pdus"
  shows "\<exists>rv s'. sync_eod s store (eod @ tail) = Some (rv, s') \<and> \<not> is_resetting s' \<and> 
    (if shadows_accept s p k pdus
     then rv = RTR_SUCCESS \<and> serial_number s' = pdu_serial (byte_order s) eod \<and> state s' = state s \<and>
       reset_done s (Some p, Some k, Some a) pdus (pfx_table s', spki_table s', aspa_table s')
     else rv = RTR_ERROR \<and> same_tables s s' \<and> (state s \<noteq> RTR_SHUTDOWN \<longrightarrow> state s' = RTR_ERROR_FATAL) \<and> request_session_id s' = request_session_id s \<and> last_update s' = last_update s)"
proof -
  obtain s1 where s1: "rtr_handle_eod_pdu s (eod @ tail) = Some (RTR_SUCCESS, s1)" "same_timers_apart s s1"
    using handle_eod_ok [OF eod] by blast
  note f = same_timers_fields [OF s1(2)]
  have t: "pfx_table s1 = Some p" "spki_table s1 = Some k" "aspa_table s1 = Some a" "False \<notin> set (allocs s1)"
    using f(13) s by (cases s; cases s1; simp)+
  have len: "12 \<le> length (eod @ tail)" "12 \<le> length eod" using eod(1-3) by (auto simp: pdu_wf_def RTR_MAX_PDU_LEN_def)
  have "shadows_ready s1 k pdus" using ready(1) shadows_cong(1) [OF f(1,2)] by simp
  from sync_reset_outcome [OF t inv this ready(2) len(1)] obtain rv s' where r: "sync_reset s1 store (eod @ tail) = Some (rv, s')" "\<not> is_resetting s'"
    "if shadows_accept s p k pdus
     then rv = RTR_SUCCESS \<and> serial_number s' = dec32 (byte_order s1) (take 4 (drop 8 (eod @ tail))) \<and> state s' = state s1 \<and>
       reset_done s (Some p, Some k, Some a) pdus (pfx_table s', spki_table s', aspa_table s')
     else rv = RTR_ERROR \<and> same_tables s1 s' \<and> (state s1 \<noteq> RTR_SHUTDOWN \<longrightarrow> state s' = RTR_ERROR_FATAL) \<and>
       request_session_id s' = request_session_id s1 \<and> last_update s' = last_update s1"
    unfolding shadows_cong(2,3) [OF f(1,2)] by blast
  have "dec32 (byte_order s1) (take 4 (drop 8 (eod @ tail))) = pdu_serial (byte_order s) eod" using len(2) f(2) by (simp add: pdu_serial_def)
  moreover have "same_tables s s1" using t s by simp
  ultimately show ?thesis using r s1(1) s(1) f(4,6,8,12) by (auto simp: sync_eod_def split: if_splits)
qed


lemma rtr_sync_resets:
  assumes "answers s resp pdus eod" "avail (rx (tr_socket s)) = stream_of (byte_order s) (resp # pdus @ [eod]) @ rest"
    and "request_session_id s" "last_update s \<noteq> 0" "state s \<noteq> RTR_SHUTDOWN" "length (stack s) = RTR_MAX_PDU_LEN" "False \<notin> set (allocs s)"
    and "None \<notin> range (clock (tr_socket s))"
    and "pfx_table s = Some p" "spki_table s = Some k" "aspa_table s = Some a"
    and "pfx_inv p" "spki_inv k" "store_ok a" "one_node_each a" "\<not> update_lock a" "shadows_ready s k pdus"
  shows "\<exists>rv s'. rtr_sync s = Some (rv, s') \<and> \<not> is_resetting s' \<and>
    (if shadows_accept s p k pdus
     then rv = RTR_SUCCESS \<and> reset_done s (Some p, Some k, Some a) pdus (pfx_table s', spki_table s', aspa_table s') \<and>
       (\<exists>n sec nsec. clock (tr_socket s) n = Some (sec, nsec) \<and> last_update s' = rounded sec nsec) \<and> serial_number s' = pdu_serial (byte_order s) eod
     else rv = RTR_ERROR \<and> same_tables s s' \<and> state s' = RTR_ERROR_FATAL \<and> request_session_id s' \<and> last_update s' = 0)"
proof -
  obtain evs mem store tail where st: "rtr_sync s = map_option sync_finish (sync_eod (advanced (responded s resp) evs mem) store (eod @ tail))"
    "avail evs = rest" "False \<notin> set mem" "length (eod @ tail) = RTR_MAX_PDU_LEN" "\<forall>type\<in>data_types. stored store type = of_type type pdus"
    by (rule rtr_sync_stream [OF assms(1,2) _ assms(5,6,7)]) (use assms(3) in simp)
  let ?s = "advanced (responded s resp) evs mem"
  have f: "is_resetting ?s" "pfx_table ?s = Some p" "spki_table ?s = Some k" "aspa_table ?s = Some a" "False \<notin> set (allocs ?s)"
    "clock (tr_socket ?s) = clock (tr_socket s)" "session_id ?s = ucast (pdu_session (byte_order s) resp)" "state ?s \<noteq> RTR_SHUTDOWN"
    "request_session_id ?s" "last_update ?s = 0"
    using assms(3-11) st(3) by (auto simp: advanced_def responded_def)
  have eod: "pdu_wf (byte_order ?s) eod" "pdu_type_of (eod ! 1) = EOD" "ucast (pdu_session (byte_order ?s) eod) = session_id ?s"
    using assms(1) f(7) by (simp_all add: answers_def sendable_def)
  have sc: "shadows_ready ?s = shadows_ready s" "shadows_accept ?s = shadows_accept s" "reset_done ?s = reset_done s" by (rule shadows_cong; simp)+
  have same: "same_tables s ?s" using f(2-4) assms(9-11) by simp
  obtain rv s' where e: "sync_eod ?s store (eod @ tail) = Some (rv, s')" "\<not> is_resetting s'"
    "if shadows_accept s p k pdus
     then rv = RTR_SUCCESS \<and> serial_number s' = pdu_serial (byte_order s) eod \<and> state s' = state ?s \<and>
       reset_done s (Some p, Some k, Some a) pdus (pfx_table s', spki_table s', aspa_table s')
     else rv = RTR_ERROR \<and> same_tables ?s s' \<and> (state ?s \<noteq> RTR_SHUTDOWN \<longrightarrow> state s' = RTR_ERROR_FATAL) \<and>
       request_session_id s' \<and> last_update s' = 0"
    using sync_eod_resets [OF eod(1,2) st(4) eod(3) f(1-5) assms(12-16) _ st(5)] assms(17) f(9,10) unfolding sc by auto
  have io: "clock (tr_socket s') = clock (tr_socket ?s)" using sync_eod_sync_frame [OF e(1)] by (simp add: sync_frame_def)
  show ?thesis
  proof (cases "shadows_accept s p k pdus")
    case True
    let ?s1 = "s'\<lparr>request_session_id := False\<rparr>"
    obtain sec nsec where now: "clock (tr_socket ?s1) (ticks (tr_socket ?s1)) = Some (sec, nsec)"
      using assms(8) io f(6) by (cases "clock (tr_socket s) (ticks (tr_socket s'))") (auto simp: image_iff, metis)
    have "rtr_sync s = Some (RTR_SUCCESS, ?s1\<lparr>tr_socket := (tr_socket ?s1)\<lparr>ticks := ticks (tr_socket ?s1) + 1\<rparr>, last_update := rounded sec nsec\<rparr>)"
      using st(1) e True set_last_update_ok [OF now] by (simp add: sync_finish_def)
    moreover have "clock (tr_socket s) (ticks (tr_socket s')) = Some (sec, nsec)" using now io f(6) by simp
    ultimately show ?thesis using e(2,3) True by auto
  next
    case False
    then show ?thesis using st(1) e same f(8) by (simp add: sync_finish_def)
  qed
qed

text \<open>A batch that the tables do not accept outside a reset.\<close>

lemma sync_eod_rejects:
  assumes eod: "pdu_wf (byte_order s) eod" "pdu_type_of (eod ! 1) = EOD" "length (eod @ tail) = RTR_MAX_PDU_LEN"
      "ucast (pdu_session (byte_order s) eod) = session_id s"
    and s: "\<not> is_resetting s" "pfx_table s = Some p" "spki_table s = Some k" "aspa_table s = Some a" "False \<notin> set (allocs s)"
    and store: "\<forall>type\<in>data_types. stored store type = of_type type pdus"
    and ready: "tables_ready s p k a pdus" "\<not> tables_accept s p k a pdus"
  shows "\<exists>s' p' k' a'. sync_eod s store (eod @ tail) = Some (RTR_ERROR, s') \<and> pfx_table s' = Some p' \<and> spki_table s' = Some k' \<and> aspa_table s' = Some a' \<and>
    set (pfx_records p') = set (pfx_records p) \<and> set (spki_records k') = set (spki_records k) \<and> aspa_kept a a' \<and>
    request_session_id s' = request_session_id s \<and> last_update s' = last_update s \<and> \<not> is_resetting s'"
proof -
  obtain s1 where s1: "rtr_handle_eod_pdu s (eod @ tail) = Some (RTR_SUCCESS, s1)" "same_timers_apart s s1"
    using handle_eod_ok [OF eod] by blast
  note f = same_timers_fields [OF s1(2)]
  have t: "pfx_table s1 = Some p" "spki_table s1 = Some k" "aspa_table s1 = Some a" "allocs s1 = allocs s"
    using f(13) s by (cases s; cases s1; simp)+
  have len: "12 \<le> length (eod @ tail)" using eod(1-3) by (auto simp: pdu_wf_def RTR_MAX_PDU_LEN_def)
  have st: "fst (ipv4_pdus store) = of_type IPV4_PREFIX pdus" "fst (ipv6_pdus store) = of_type IPV6_PREFIX pdus"
    "fst (router_key_pdus store) = of_type ROUTER_KEY pdus" "fst (aspa_pdus store) = of_type ASPA pdus"
    using store by (simp_all add: stored_def)
  have "tables_ready s1 p k a pdus" "\<not> tables_accept s1 p k a pdus" using ready tables_cong [OF f(1,2)] by simp_all
  then have "sync_undone s1 p k a
      (rtr_sync_update_tables s1 (Some p, Some k, Some a) (of_type IPV4_PREFIX pdus) (of_type IPV6_PREFIX pdus)
        (of_type ROUTER_KEY pdus) (of_type ASPA pdus) (eod @ tail) (allocs s))"
    using sync_update_tables_outcome [where p = p and k = k and a = a and s = s1 and ?v4.0 = "of_type IPV4_PREFIX pdus"
        and ?v6.0 = "of_type IPV6_PREFIX pdus" and keys = "of_type ROUTER_KEY pdus" and aspas = "of_type ASPA pdus"
        and eod = "eod @ tail" and mem = "allocs s"] s(5) len
    by (auto simp: tables_ready_def tables_accept_def prefixes_def)
  then obtain s2 p' k' a' mem where u: "rtr_sync_update_tables s1 (Some p, Some k, Some a) (of_type IPV4_PREFIX pdus) (of_type IPV6_PREFIX pdus)
        (of_type ROUTER_KEY pdus) (of_type ASPA pdus) (eod @ tail) (allocs s) = Some (RTR_ERROR, s2, (Some p', Some k', Some a'), mem)"
    "set (pfx_records p') = set (pfx_records p)" "set (spki_records k') = set (spki_records k)" "aspa_kept a a'" "conn_frame s1 s2"
    by (auto simp: sync_undone_def)
  then show ?thesis using s1(1) s(1) f(4,8,12) by (auto simp: sync_eod_def st t conn_frame_def)
qed

lemma announced_twice:
  assumes "distinct_changes ch pdus" "pdu \<in> set pdus" "ch pdu = Some (True, r)" "r \<in> A"
  shows "\<not> accepts ch pdus A"
proof -
  have "(True, r) \<in> set (List.map_filter ch pdus)" using assms(2,3) by (force simp: List.map_filter_def)
  then show ?thesis using assms(1,4) possible_all_distinct by (fastforce simp: accepts_def distinct_changes_def)
qed

section \<open>Properties of the reset\<close>

text \<open>The ASPA part of a successful reset, with the empty answer apart.\<close>

lemma reset_done_aspa:
  assumes "reset_done s (Some p, Some k, Some a) pdus (p', k', Some a')"
  shows "(\<forall>t. t \<noteq> self s \<longrightarrow> socket_records a' t = socket_records a t) \<and>
    (if of_type ASPA pdus = [] then socket_records a' (self s) = socket_records a (self s) \<and> aspa_log a' = aspa_log a
     else (\<exists>ops. aspa_ops (byte_order s) (of_type ASPA pdus) 0 = Some ops \<and>
         (\<forall>c. customer_run None (ops_of c ops) = Inr (record_of (socket_records a' (self s)) c))) \<and>
       aspa_log a' = aspa_log a @ (if aspa_fp a then map (\<lambda>r. (r, self s, RTR_ASPA_REMOVE)) (socket_records a (self s)) @
         map (\<lambda>r. (r, self s, RTR_ASPA_ADD)) (socket_records a' (self s)) else []))"
proof -
  obtain b where b: "aspa_replaced (self s) a b a'" "aspa_applied s (rtr_aspa_table_init False) (of_type ASPA pdus) b"
    using assms by (auto simp: reset_done_def swapped_def split: option.splits)
  have none: "record_of (socket_records (rtr_aspa_table_init False) u) c = None" for u c
    by (simp add: rtr_aspa_table_init_def socket_records_def record_of_def)
  show ?thesis using b unfolding aspa_replaced_def aspa_applied_def none
    by (cases "of_type ASPA pdus = []") (simp_all add: rtr_aspa_table_init_def)
qed

text \<open>C3: a reset is atomic. A socket that has been updated before asks for everything, and the cache answers with
  well-formed PDUs whose prefixes have no bits behind their length and which name every prefix record and every
  router key at most once; no allocation fails and the tables are in good order. Then the answer is accepted exactly if it can be applied to
  the tables without this socket's records. If it is accepted, the prefix and key tables hold the other sockets'
  records unchanged and for this socket exactly what the answer says, and their clients are told exactly the
  difference. The ASPA table keeps the other sockets' records; if the answer has ASPA PDUs the socket's records
  are exactly those its operations lead to from nothing, and the clients see every former record removed and every
  new one added; if it has none the socket's former ASPA records stay and nothing is reported. Serial number and
  time of the update are noted. If the answer is not accepted, all three tables are left as they were, the
  socket is in the fatal error state, still without a session, and its time of the last update is lost.\<close>

theorem reset_is_atomic:
  assumes "answers s resp pdus eod" "avail (rx (tr_socket s)) = stream_of (byte_order s) (resp # pdus @ [eod]) @ rest"
    and "request_session_id s" "last_update s \<noteq> 0" "state s \<noteq> RTR_SHUTDOWN" "length (stack s) = RTR_MAX_PDU_LEN" "False \<notin> set (allocs s)"
    and "None \<notin> range (clock (tr_socket s))"
    and "pfx_table s = Some p" "spki_table s = Some k" "aspa_table s = Some a"
    and "pfx_inv p" "spki_inv k" "store_ok a" "one_node_each a" "\<not> update_lock a" "shadows_ready s k pdus"
  shows "\<exists>rv s' p' k' a'. rtr_sync s = Some (rv, s') \<and> pfx_table s' = Some p' \<and> spki_table s' = Some k' \<and> aspa_table s' = Some a' \<and> \<not> is_resetting s' \<and>
    (if shadows_accept s p k pdus
     then rv = RTR_SUCCESS \<and>
       set (pfx_records p') = applied (pfx_change s) (prefixes pdus) (others_pfx (self s) p) \<and> pfx_reported (self s) p (set (pfx_records p')) p' \<and>
       set (spki_records k') = applied (spki_change s) (of_type ROUTER_KEY pdus) (others_spki (self s) k) \<and>
       (\<exists>new. set new = set (spki_records k') \<and> spki_log k' = spki_log k @ (if spki_fp k then spki_diff_log new (spki_records k) (self s) else [])) \<and>
       (\<forall>t. t \<noteq> self s \<longrightarrow> socket_records a' t = socket_records a t) \<and>
       (if of_type ASPA pdus = [] then socket_records a' (self s) = socket_records a (self s) \<and> aspa_log a' = aspa_log a
        else (\<exists>ops. aspa_ops (byte_order s) (of_type ASPA pdus) 0 = Some ops \<and>
            (\<forall>c. customer_run None (ops_of c ops) = Inr (record_of (socket_records a' (self s)) c))) \<and>
          aspa_log a' = aspa_log a @ (if aspa_fp a then map (\<lambda>r. (r, self s, RTR_ASPA_REMOVE)) (socket_records a (self s)) @
            map (\<lambda>r. (r, self s, RTR_ASPA_ADD)) (socket_records a' (self s)) else [])) \<and>
       (\<exists>n sec nsec. clock (tr_socket s) n = Some (sec, nsec) \<and> last_update s' = rounded sec nsec) \<and> serial_number s' = pdu_serial (byte_order s) eod
     else rv = RTR_ERROR \<and> p' = p \<and> k' = k \<and> a' = a \<and> state s' = RTR_ERROR_FATAL \<and> request_session_id s' \<and> last_update s' = 0)"
proof -
  obtain rv s' where r: "rtr_sync s = Some (rv, s')" "\<not> is_resetting s'"
    "if shadows_accept s p k pdus
     then rv = RTR_SUCCESS \<and> reset_done s (Some p, Some k, Some a) pdus (pfx_table s', spki_table s', aspa_table s') \<and>
       (\<exists>n sec nsec. clock (tr_socket s) n = Some (sec, nsec) \<and> last_update s' = rounded sec nsec) \<and> serial_number s' = pdu_serial (byte_order s) eod
     else rv = RTR_ERROR \<and> same_tables s s' \<and> state s' = RTR_ERROR_FATAL \<and> request_session_id s' \<and> last_update s' = 0"
    using rtr_sync_resets [OF assms] by blast
  show ?thesis
  proof (cases "shadows_accept s p k pdus")
    case True
    then have d: "reset_done s (Some p, Some k, Some a) pdus (pfx_table s', spki_table s', aspa_table s')" using r(3) by simp
    then obtain q l b where sw: "swapped (self s) (Some p, Some k, Some a) (Some q, Some l, Some b) (pfx_table s', spki_table s', aspa_table s')"
      "set (pfx_records q) = applied (pfx_change s) (prefixes pdus) (others_pfx (self s) p)"
      "set (spki_records l) = applied (spki_change s) (of_type ROUTER_KEY pdus) (others_spki (self s) k)"
      unfolding reset_done_def by auto
    then obtain p' k' a' where t': "pfx_table s' = Some p'" "spki_table s' = Some k'" "aspa_table s' = Some a'"
      by (auto simp: swapped_def split: option.splits)
    have t: "pfx_table s' = Some p'" "spki_table s' = Some k'" "aspa_table s' = Some a'"
      "set (pfx_records p') = set (pfx_records q)" "set (spki_records k') = set (spki_records l)" "pfx_reported (self s) p (set (pfx_records q)) p'"
      "spki_log k' = spki_log k @ (if spki_fp k then spki_diff_log (spki_records l) (spki_records k) (self s) else [])"
      "set (pfx_records q) = applied (pfx_change s) (prefixes pdus) (others_pfx (self s) p)"
      "set (spki_records l) = applied (spki_change s) (of_type ROUTER_KEY pdus) (others_spki (self s) k)"
      using sw unfolding t' by (simp_all add: swapped_def)
    have "set (spki_records l) = set (spki_records k') \<and>
        spki_log k' = spki_log k @ (if spki_fp k then spki_diff_log (spki_records l) (spki_records k) (self s) else [])" using t(5,7) by simp
    then show ?thesis using True r t reset_done_aspa [of s p k a pdus "Some p'" "Some k'" a'] d
      by (intro exI [of _ rv] exI [of _ s'] exI [of _ p'] exI [of _ k'] exI [of _ a']) (simp, blast)
  next
    case False
    then show ?thesis using r assms(9-11) by auto
  qed
qed

definition warm_ctx :: rtr_ctx where
  "warm_ctx = (sample_ctx [Rx_Bytes (take 11 cache_bytes), Rx_Bytes (drop 11 cache_bytes)])\<lparr>pfx_table := Some sample_table, last_update := 5\<rparr>"

lemma warm_ctx_ok:
  "request_session_id warm_ctx" "last_update warm_ctx \<noteq> 0" "state warm_ctx \<noteq> RTR_SHUTDOWN" "length (stack warm_ctx) = RTR_MAX_PDU_LEN"
  "False \<notin> set (allocs warm_ctx)" "None \<notin> range (clock (tr_socket warm_ctx))" "pfx_table warm_ctx = Some sample_table"
  "spki_table warm_ctx = Some (spki_table_init True)" "aspa_table warm_ctx = Some (rtr_aspa_table_init True)" "byte_order warm_ctx = Little_Endian" "self warm_ctx = 1"
  by (auto simp: warm_ctx_def image_iff)

lemma warm_ctx_cache:
  "avail (rx (tr_socket warm_ctx)) = stream_of (byte_order warm_ctx) (response_pdu # [prefix_pdu 1 10] @ [eod_pdu]) @ []"
  "answers warm_ctx response_pdu [prefix_pdu 1 10] eod_pdu"
proof -
  show "avail (rx (tr_socket warm_ctx)) = stream_of (byte_order warm_ctx) (response_pdu # [prefix_pdu 1 10] @ [eod_pdu]) @ []"
    unfolding warm_ctx_ok(10) cache_bytes_stream by (simp add: warm_ctx_def)
  let ?s = "sample_ctx [Rx_Bytes (take 11 cache_bytes), Rx_Bytes (drop 11 cache_bytes)]"
  have "sendable warm_ctx = sendable ?s" "byte_order warm_ctx = byte_order ?s" by (simp_all add: fun_eq_iff sendable_def warm_ctx_def)
  then show "answers warm_ctx response_pdu [prefix_pdu 1 10] eod_pdu" using sample_answer by (simp add: answers_def)
qed

lemma one_prefix:
  "prefixes [prefix_pdu 1 10] = [prefix_pdu 1 10]" "of_type ROUTER_KEY [prefix_pdu 1 10] = []" "of_type ASPA [prefix_pdu 1 10] = []"
  by (simp_all add: prefixes_def of_type_def prefix_pdu_def pdu_type_of_def)

abbreviation new_record :: rtr_pfx_record where
  "new_record \<equiv> \<lparr>pr_asn = 7, pr_prefix = Ip4 0x0A000000, pr_min_len = 8, pr_max_len = 24, pr_socket = 1\<rparr>"

lemma warm_ctx_shadows:
  "shadows_ready warm_ctx (spki_table_init True) [prefix_pdu 1 10]" "shadows_accept warm_ctx sample_table (spki_table_init True) [prefix_pdu 1 10]"
  "applied (pfx_change warm_ctx) (prefixes [prefix_pdu 1 10]) (others_pfx 1 sample_table) = insert new_record (others_pfx 1 sample_table)"
proof -
  note pdu = prefix_pdu_sample [of 1 warm_ctx, OF _ warm_ctx_ok(11,10), simplified]
  have c: "List.map_filter (pfx_change warm_ctx) [prefix_pdu 1 10] = [(True, new_record)]" "List.map_filter (spki_change warm_ctx) [] = []"
    using pdu by (simp_all add: List.map_filter_simps)
  show "shadows_ready warm_ctx (spki_table_init True) [prefix_pdu 1 10]"
    using c pdu by (simp add: shadows_ready_def one_prefix empty_tables distinct_changes_def aspa_batch_ok_def replacing_def replaces_last_def)
  show "shadows_accept warm_ctx sample_table (spki_table_init True) [prefix_pdu 1 10]"
    using c pdu by (simp add: shadows_accept_def one_prefix warm_ctx_ok(11) accepts_def aspa_accepts_def)
  show "applied (pfx_change warm_ctx) (prefixes [prefix_pdu 1 10]) (others_pfx 1 sample_table) = insert new_record (others_pfx 1 sample_table)"
    using c by (simp add: one_prefix applied_def)
qed

theorem reset_is_atomic_witness:
  "\<exists>s' p'. rtr_sync warm_ctx = Some (RTR_SUCCESS, s') \<and> pfx_table s' = Some p' \<and>
    set (pfx_records p') = insert new_record (others_pfx 1 sample_table)"
proof -
  have inv: "pfx_inv sample_table" "spki_inv (spki_table_init True)" "store_ok (rtr_aspa_table_init True)" "one_node_each (rtr_aspa_table_init True)"
    "\<not> update_lock (rtr_aspa_table_init True)" using sample_table_inv empty_tables by (simp_all add: rtr_aspa_table_init_def)
  from reset_is_atomic [OF warm_ctx_cache(2,1) warm_ctx_ok(1-9) inv warm_ctx_shadows(1)] show ?thesis
    using warm_ctx_shadows(2,3) by (simp add: warm_ctx_ok(11)) blast
qed

text \<open>C37: a reset does not withdraw the ASPA records of a cache that has none any more: when the answer to the
  query for everything holds no ASPA PDU, the reset succeeds and the socket's former ASPA records stay.\<close>

theorem reset_keeps_stale_aspas:
  assumes "answers s resp pdus eod" "avail (rx (tr_socket s)) = stream_of (byte_order s) (resp # pdus @ [eod]) @ rest"
    and "request_session_id s" "last_update s \<noteq> 0" "state s \<noteq> RTR_SHUTDOWN" "length (stack s) = RTR_MAX_PDU_LEN" "False \<notin> set (allocs s)"
    and "None \<notin> range (clock (tr_socket s))"
    and "pfx_table s = Some p" "spki_table s = Some k" "aspa_table s = Some a"
    and "pfx_inv p" "spki_inv k" "store_ok a" "one_node_each a" "\<not> update_lock a" "shadows_ready s k pdus"
    and "shadows_accept s p k pdus" "of_type ASPA pdus = []"
  shows "\<exists>s' a'. rtr_sync s = Some (RTR_SUCCESS, s') \<and> aspa_table s' = Some a' \<and> (\<forall>t. socket_records a' t = socket_records a t)"
proof -
  obtain s' where s': "rtr_sync s = Some (RTR_SUCCESS, s')" "reset_done s (Some p, Some k, Some a) pdus (pfx_table s', spki_table s', aspa_table s')"
    using rtr_sync_resets [OF assms(1-17)] assms(18) by auto
  then obtain q l b where b: "swapped (self s) (Some p, Some k, Some a) (Some q, Some l, Some b) (pfx_table s', spki_table s', aspa_table s')"
    "b = rtr_aspa_table_init False"
    using assms(19) by (auto simp: reset_done_def aspa_applied_def)
  then show ?thesis using s'(1) by (auto simp: swapped_def aspa_replaced_def rtr_aspa_table_init_def split: option.splits)
qed

theorem reset_keeps_stale_aspas_witness:
  "\<exists>s' a'. rtr_sync (warm_ctx\<lparr>aspa_table := Some sample_aspa\<rparr>) = Some (RTR_SUCCESS, s') \<and> aspa_table s' = Some a' \<and>
    socket_records a' 1 = socket_records sample_aspa 1 \<and> socket_records a' 1 \<noteq> []"
proof -
  let ?s = "warm_ctx\<lparr>aspa_table := Some sample_aspa\<rparr>"
  have inv: "pfx_inv sample_table" "spki_inv (spki_table_init True)" "store_ok sample_aspa" "one_node_each sample_aspa" "\<not> update_lock sample_aspa"
    using sample_table_inv empty_tables by (simp_all add: sample_aspa_def store_ok_def array_wf_def)
  have "sendable ?s = sendable warm_ctx" by (simp add: fun_eq_iff sendable_def)
  then have ans: "answers ?s response_pdu [prefix_pdu 1 10] eod_pdu" using warm_ctx_cache(2) by (simp add: answers_def)
  have sh: "shadows_ready ?s = shadows_ready warm_ctx" "shadows_accept ?s = shadows_accept warm_ctx" by (rule shadows_cong; simp)+
  have stream: "avail (rx (tr_socket ?s)) = stream_of (byte_order ?s) (response_pdu # [prefix_pdu 1 10] @ [eod_pdu]) @ []" using warm_ctx_cache(1) by simp
  have "socket_records sample_aspa 1 \<noteq> []" by (simp add: sample_aspa_def socket_records_def)
  then show ?thesis
    using reset_keeps_stale_aspas [of ?s response_pdu "[prefix_pdu 1 10]" eod_pdu "[]" sample_table "spki_table_init True" sample_aspa, OF ans stream _ _ _ _ _ _ _ _ _ inv]
      warm_ctx_ok warm_ctx_shadows(1,2) one_prefix(3) by (auto simp: sh)
qed

text \<open>What happens between two synchronisations of a socket without a session and without a time of its last update:
  the connection and the state change, the tables and the position of the socket do not.\<close>

definition reconnected :: "rtr_ctx \<Rightarrow> rtr_ctx \<Rightarrow> bool" where
  "reconnected s s' =
     (self s' = self s \<and> byte_order s' = byte_order s \<and> request_session_id s' = request_session_id s \<and> last_update s' = last_update s \<and>
      is_resetting s' = is_resetting s \<and> same_tables s s')"

lemma rtr_sync_duplicate:
  assumes "answers s resp pdus eod" "avail (rx (tr_socket s)) = stream_of (byte_order s) (resp # pdus @ [eod]) @ rest"
    and "request_session_id s" "last_update s = 0" "\<not> is_resetting s" "state s \<noteq> RTR_SHUTDOWN" "length (stack s) = RTR_MAX_PDU_LEN" "False \<notin> set (allocs s)"
    and "pfx_table s = Some p" "spki_table s = Some k" "aspa_table s = Some a" "tables_ready s p k a pdus"
    and "pdu \<in> set (prefixes pdus)" "pfx_change s pdu = Some (True, r)" "r \<in> set (pfx_records p)"
  shows "\<exists>s' p'. rtr_sync s = Some (RTR_ERROR, s') \<and> pfx_table s' = Some p' \<and> set (pfx_records p') = set (pfx_records p) \<and>
    request_session_id s' \<and> last_update s' = 0 \<and> \<not> is_resetting s'"
proof -
  have rej: "\<not> tables_accept s p k a pdus"
    using announced_twice [of "pfx_change s" "prefixes pdus" pdu r] assms(12-15) by (simp add: tables_accept_def tables_ready_def)
  obtain evs mem store tail where st: "rtr_sync s = map_option sync_finish (sync_eod (advanced (responded s resp) evs mem) store (eod @ tail))"
    "avail evs = rest" "False \<notin> set mem" "length (eod @ tail) = RTR_MAX_PDU_LEN" "\<forall>type\<in>data_types. stored store type = of_type type pdus"
    by (rule rtr_sync_stream [OF assms(1,2) _ assms(6,7,8)]) (use assms(3) in simp)
  let ?s = "advanced (responded s resp) evs mem"
  have f: "\<not> is_resetting ?s" "pfx_table ?s = Some p" "spki_table ?s = Some k" "aspa_table ?s = Some a" "False \<notin> set (allocs ?s)"
    "request_session_id ?s" "last_update ?s = 0"
    using assms(3-11) st(3) by (auto simp: advanced_def responded_def)
  have eod: "pdu_wf (byte_order ?s) eod" "pdu_type_of (eod ! 1) = EOD" "ucast (pdu_session (byte_order ?s) eod) = session_id ?s"
    using assms(1) by (simp_all add: answers_def sendable_def) (simp add: advanced_def)
  have t: "tables_ready ?s p k a pdus" "\<not> tables_accept ?s p k a pdus" using assms(12) rej tables_cong [of ?s s] by simp_all
  from sync_eod_rejects [OF eod(1,2) st(4) eod(3) f(1-5) st(5) t] show ?thesis
    using st(1) f(6,7) by (auto simp: sync_finish_def)
qed

text \<open>C38: a reset that fails blocks the socket for good. When a cache answers the query for everything of a socket
  that has been updated before with PDUs that cannot be applied, the synchronisation fails and the reset is
  forgotten, but so is the time of the last update. After reconnecting, which leaves the tables and this position
  alone, every answer to the query for everything that announces a prefix record the table still holds for this
  socket is rejected as a duplicate, however correct it is: the synchronisation fails again, the prefix records
  stay, and the socket is in the same position as before.\<close>

theorem failed_reset_blocks:
  assumes "answers s resp pdus eod" "avail (rx (tr_socket s)) = stream_of (byte_order s) (resp # pdus @ [eod]) @ rest"
    and "request_session_id s" "last_update s \<noteq> 0" "state s \<noteq> RTR_SHUTDOWN" "length (stack s) = RTR_MAX_PDU_LEN" "False \<notin> set (allocs s)"
    and "None \<notin> range (clock (tr_socket s))"
    and "pfx_table s = Some p" "spki_table s = Some k" "aspa_table s = Some a"
    and "pfx_inv p" "spki_inv k" "store_ok a" "one_node_each a" "\<not> update_lock a" "shadows_ready s k pdus"
    and "\<not> shadows_accept s p k pdus" "rtr_sync s = Some (rv, s1)" "reconnected s1 s2"
    and "answers s2 resp2 pdus2 eod2" "avail (rx (tr_socket s2)) = stream_of (byte_order s2) (resp2 # pdus2 @ [eod2]) @ rest2"
    and "state s2 \<noteq> RTR_SHUTDOWN" "length (stack s2) = RTR_MAX_PDU_LEN" "False \<notin> set (allocs s2)" "tables_ready s2 p k a pdus2"
    and "pdu \<in> set (prefixes pdus2)" "pfx_change s2 pdu = Some (True, r)" "r \<in> set (pfx_records p)"
  shows "rv = RTR_ERROR \<and> request_session_id s1 \<and> last_update s1 = 0 \<and> \<not> is_resetting s1 \<and>
    (\<exists>s3 p'. rtr_sync s2 = Some (RTR_ERROR, s3) \<and> pfx_table s3 = Some p' \<and> set (pfx_records p') = set (pfx_records p) \<and>
       request_session_id s3 \<and> last_update s3 = 0 \<and> \<not> is_resetting s3)"
proof -
  have s1: "rv = RTR_ERROR" "request_session_id s1" "last_update s1 = 0" "\<not> is_resetting s1" "same_tables s s1"
    using rtr_sync_resets [OF assms(1-17)] assms(18,19) by auto
  then have s2: "request_session_id s2" "last_update s2 = 0" "\<not> is_resetting s2" "pfx_table s2 = Some p" "spki_table s2 = Some k" "aspa_table s2 = Some a"
    using assms(9-11,20) by (simp_all add: reconnected_def)
  from rtr_sync_duplicate [OF assms(21,22) s2(1-3) assms(23-25) s2(4-6) assms(26-29)] show ?thesis using s1 by blast
qed

definition held_table :: rtr_pfx_table where
  "held_table = \<lparr>ipv4 = Node \<lparr>tn_prefix = Ip4 0x0A000000, tn_len = 8, tn_data = [rec_elem new_record]\<rparr> Null Null,
     ipv6 = Null, update_fp = True, pfx_log = []\<rparr>"

lemma held_table_ok: "pfx_inv held_table" "new_record \<in> set (pfx_records held_table)"
  by (simp_all add: pfx_inv_def pfx_trie_inv_def held_table_def rec_elem_def item_ok_def canonical_Ip4 item_key_def
      pfx_records_def trie_records_def item_records_def elem_record_def)

abbreviation withdrawal_bytes :: "u8 list" where
  "withdrawal_bytes \<equiv> [1, 3, 0, 5, 0, 0, 0, 8,
     1, 4, 0, 0, 0, 0, 0, 20, 0, 8, 24, 0, 10, 0, 0, 0, 0, 0, 0, 7,
     1, 7, 0, 5, 0, 0, 0, 24, 0, 0, 0, 9, 0, 0, 14, 16, 0, 0, 2, 88, 0, 0, 28, 32]"

lemma withdrawal_bytes_stream: "stream_of Little_Endian (response_pdu # [prefix_pdu 0 10] @ [eod_pdu]) = withdrawal_bytes"
  by code_simp

lemma one_withdrawal:
  "prefixes [prefix_pdu 0 10] = [prefix_pdu 0 10]" "of_type ROUTER_KEY [prefix_pdu 0 10] = []" "of_type ASPA [prefix_pdu 0 10] = []"
  by (simp_all add: prefixes_def of_type_def prefix_pdu_def pdu_type_of_def)

definition before_reset :: rtr_ctx where
  "before_reset = (sample_ctx [Rx_Bytes withdrawal_bytes])\<lparr>pfx_table := Some held_table, last_update := 5\<rparr>"

lemma before_reset_ok:
  "request_session_id before_reset" "last_update before_reset \<noteq> 0" "state before_reset \<noteq> RTR_SHUTDOWN" "length (stack before_reset) = RTR_MAX_PDU_LEN"
  "False \<notin> set (allocs before_reset)" "None \<notin> range (clock (tr_socket before_reset))" "pfx_table before_reset = Some held_table"
  "spki_table before_reset = Some (spki_table_init True)" "aspa_table before_reset = Some (rtr_aspa_table_init True)"
  "byte_order before_reset = Little_Endian" "self before_reset = 1"
  by (auto simp: before_reset_def image_iff)

lemma before_reset_answer:
  "answers before_reset response_pdu [prefix_pdu 0 10] eod_pdu"
  "avail (rx (tr_socket before_reset)) = stream_of (byte_order before_reset) (response_pdu # [prefix_pdu 0 10] @ [eod_pdu]) @ []"
proof -
  show "answers before_reset response_pdu [prefix_pdu 0 10] eod_pdu"
    by (simp add: before_reset_def answers_def sendable_def response_pdu_def eod_pdu_def prefix_pdu_def pdu_type_of_def pdu_wf_def
      field32_def dec32_def RTR_MAX_PDU_LEN_def pdu_session_def)
  show "avail (rx (tr_socket before_reset)) = stream_of (byte_order before_reset) (response_pdu # [prefix_pdu 0 10] @ [eod_pdu]) @ []"
    unfolding before_reset_ok(10) withdrawal_bytes_stream by (simp add: before_reset_def)
qed

lemma before_reset_shadows:
  "shadows_ready before_reset (spki_table_init True) [prefix_pdu 0 10]"
  "\<not> shadows_accept before_reset held_table (spki_table_init True) [prefix_pdu 0 10]"
proof -
  note pdu = prefix_pdu_sample [of 0 before_reset, OF _ before_reset_ok(11,10), simplified]
  have c: "List.map_filter (pfx_change before_reset) [prefix_pdu 0 10] = [(False, new_record)]" "List.map_filter (spki_change before_reset) [] = []"
    using pdu by (simp_all add: List.map_filter_simps)
  show "shadows_ready before_reset (spki_table_init True) [prefix_pdu 0 10]"
    using c pdu by (simp add: shadows_ready_def one_withdrawal empty_tables distinct_changes_def aspa_batch_ok_def replacing_def replaces_last_def)
  show "\<not> shadows_accept before_reset held_table (spki_table_init True) [prefix_pdu 0 10]"
    using c by (simp add: shadows_accept_def one_withdrawal before_reset_ok(11) accepts_def)
qed

definition after_reset :: rtr_ctx where
  "after_reset = (sample_ctx [Rx_Bytes cache_bytes])\<lparr>pfx_table := Some held_table\<rparr>"

lemma after_reset_answer:
  "answers after_reset response_pdu [prefix_pdu 1 10] eod_pdu"
  "avail (rx (tr_socket after_reset)) = stream_of (byte_order after_reset) (response_pdu # [prefix_pdu 1 10] @ [eod_pdu]) @ []"
  "tables_ready after_reset held_table (spki_table_init True) (rtr_aspa_table_init True) [prefix_pdu 1 10]"
  "prefix_pdu 1 10 \<in> set (prefixes [prefix_pdu 1 10])" "pfx_change after_reset (prefix_pdu 1 10) = Some (True, new_record)"
proof -
  have f: "self after_reset = 1" "byte_order after_reset = Little_Endian" by (simp_all add: after_reset_def)
  note pdu = prefix_pdu_sample [of 1 after_reset, OF _ f, simplified]
  show "avail (rx (tr_socket after_reset)) = stream_of (byte_order after_reset) (response_pdu # [prefix_pdu 1 10] @ [eod_pdu]) @ []"
    using cache_bytes_stream by (simp add: after_reset_def)
  have "sendable after_reset = sendable (sample_ctx [Rx_Bytes cache_bytes])" by (simp add: fun_eq_iff sendable_def after_reset_def)
  then show "answers after_reset response_pdu [prefix_pdu 1 10] eod_pdu" using sample_answer f by (simp add: answers_def)
  have "List.map_filter (pfx_change after_reset) [prefix_pdu 1 10] = [(True, new_record)]" using pdu by (simp add: List.map_filter_simps)
  then show "tables_ready after_reset held_table (spki_table_init True) (rtr_aspa_table_init True) [prefix_pdu 1 10]"
    using pdu held_table_ok(1) by (simp add: tables_ready_def one_prefix empty_tables distinct_changes_def aspa_batch_ok_def
        replacing_def replaces_last_def List.map_filter_simps)
  show "prefix_pdu 1 10 \<in> set (prefixes [prefix_pdu 1 10])" "pfx_change after_reset (prefix_pdu 1 10) = Some (True, new_record)"
    using pdu by (simp_all add: one_prefix)
qed

theorem failed_reset_blocks_witness:
  "\<exists>s1 s3. rtr_sync before_reset = Some (RTR_ERROR, s1) \<and> reconnected s1 after_reset \<and> rtr_sync after_reset = Some (RTR_ERROR, s3) \<and>
    request_session_id s3 \<and> last_update s3 = 0 \<and> \<not> is_resetting s3"
proof -
  have inv: "pfx_inv held_table" "spki_inv (spki_table_init True)" "store_ok (rtr_aspa_table_init True)" "one_node_each (rtr_aspa_table_init True)"
    "\<not> update_lock (rtr_aspa_table_init True)" using held_table_ok empty_tables by (simp_all add: rtr_aspa_table_init_def)
  note h = before_reset_answer before_reset_ok(1-9) inv before_reset_shadows(1)
  obtain rv s1 where s1: "rtr_sync before_reset = Some (rv, s1)" "\<not> is_resetting s1" "same_tables before_reset s1" "request_session_id s1" "last_update s1 = 0"
    using rtr_sync_resets [OF h] before_reset_shadows(2) by auto
  have "self s1 = 1" "byte_order s1 = Little_Endian"
    using rtr_sync_frame [OF s1(1)] before_reset_ok(10,11) by (simp_all add: sync_frame_def)
  then have rc: "reconnected s1 after_reset" using s1 before_reset_ok(7-9) by (simp add: reconnected_def after_reset_def)
  have s2: "state after_reset \<noteq> RTR_SHUTDOWN" "length (stack after_reset) = RTR_MAX_PDU_LEN" "False \<notin> set (allocs after_reset)"
    by (simp_all add: after_reset_def)
  from failed_reset_blocks [OF h before_reset_shadows(2) s1(1) rc after_reset_answer(1,2) s2 after_reset_answer(3-5) held_table_ok(2)]
  show ?thesis using s1(1) rc by auto
qed

end
