(* ===== verification/Rtr_Fsm.thy ===== *)
theory Rtr_Fsm
  imports Rtr_Reset
begin

text \<open>
  The state machine of an RTR socket, after \<^verbatim>\<open>rtrlib/rtr/rtr.c\<close>: initialisation, start, the loop of
  the processing thread, the removal of outdated records and stop. One turn of the loop is a step; a run
  interleaves steps of the thread with requests to stop from another thread. The answers of the thread
  library (whether thread-specific data can be set, the identity of a new thread) and of the start callback
  are arguments.
\<close>

section \<open>Initialisation and start\<close>

fun rtr_state_to_str :: "rtr_socket_state \<Rightarrow> string option" where
  "rtr_state_to_str RTR_CONNECTING = Some ''RTR_CONNECTING''"
| "rtr_state_to_str RTR_ESTABLISHED = Some ''RTR_ESTABLISHED''"
| "rtr_state_to_str RTR_RESET = Some ''RTR_RESET''"
| "rtr_state_to_str RTR_SYNC = Some ''RTR_SYNC''"
| "rtr_state_to_str RTR_FAST_RECONNECT = Some ''RTR_FAST_RECONNECT''"
| "rtr_state_to_str RTR_ERROR_NO_DATA_AVAIL = Some ''RTR_ERROR_NO_DATA_AVAIL''"
| "rtr_state_to_str RTR_ERROR_NO_INCR_UPDATE_AVAIL = Some ''RTR_ERROR_NO_INCR_UPDATE_AVAIL''"
| "rtr_state_to_str RTR_ERROR_FATAL = Some ''RTR_ERROR_FATAL''"
| "rtr_state_to_str RTR_ERROR_TRANSPORT = Some ''RTR_ERROR_TRANSPORT''"
| "rtr_state_to_str RTR_SHUTDOWN = Some ''RTR_SHUTDOWN''"
| "rtr_state_to_str RTR_CLOSED = None"

definition rtr_init ::
  "rtr_ctx \<Rightarrow> rtr_tr_socket option \<Rightarrow> tables \<Rightarrow> u32 \<Rightarrow> u32 \<Rightarrow> u32 \<Rightarrow> rtr_interval_mode \<Rightarrow> bool \<Rightarrow> int \<times> rtr_ctx" where
  "rtr_init s tr tbls refresh expire retry mode fp =
     (let s = (case tr of None \<Rightarrow> s | Some io \<Rightarrow> s\<lparr>tr_socket := io\<rparr>) in
      if rtr_check_interval_range refresh RTR_REFRESH_MIN RTR_REFRESH_MAX \<noteq> RTR_INSIDE_INTERVAL_RANGE \<or>
         rtr_check_interval_range expire RTR_EXPIRATION_MIN RTR_EXPIRATION_MAX \<noteq> RTR_INSIDE_INTERVAL_RANGE \<or>
         rtr_check_interval_range retry RTR_RETRY_MIN RTR_RETRY_MAX \<noteq> RTR_INSIDE_INTERVAL_RANGE
      then (RTR_INVALID_PARAM, s)
      else (case tbls of (pfxt, spkit, aspat) \<Rightarrow>
        (RTR_SUCCESS,
         s\<lparr>refresh_interval := refresh, expire_interval := expire, retry_interval := retry, iv_mode := mode,
           state := RTR_CLOSED, request_session_id := True, serial_number := 0, last_update := 0,
           pfx_table := pfxt, spki_table := spkit, aspa_table := aspat, connection_state_fp := fp, thread_id := 0,
           version := ucast RTR_PROTOCOL_MAX_SUPPORTED_VERSION, has_received_pdus := False, is_resetting := False\<rparr>)))"

text \<open>Whether the key for thread-specific data exists, and the identity of the thread if it can be created.\<close>

definition rtr_start :: "rtr_ctx \<Rightarrow> bool \<Rightarrow> nat option \<Rightarrow> int \<times> rtr_ctx" where
  "rtr_start s key_ok new_thread =
     (if thread_id s \<noteq> 0 then (RTR_ERROR, s)
      else if \<not> key_ok then (RTR_ERROR, s)
      else let (ok, mem) = rtr_malloc (allocs s); s = s\<lparr>allocs := mem\<rparr> in
        if \<not> ok then (RTR_ERROR, s)
        else case new_thread of
          Some tid \<Rightarrow> (RTR_SUCCESS, s\<lparr>thread_id := tid\<rparr>)
        | None \<Rightarrow> (RTR_ERROR, s))"

section \<open>Outdated records\<close>

text \<open>The records of the socket leave all three tables.\<close>

definition src_remove_all :: "rtr_ctx \<Rightarrow> rtr_ctx option" where
  "src_remove_all s =
     do { (_, pfxt, mem) \<leftarrow> rtr_pfx_table_src_remove (pfx_table s) (self s) (allocs s);
          (_, spkit) \<leftarrow> spki_table_src_remove (spki_table s) (self s);
          (_, aspat, mem) \<leftarrow> rtr_aspa_table_src_remove (aspa_table s) (self s) True mem;
          Some (s\<lparr>pfx_table := pfxt, spki_table := spkit, aspa_table := aspat, allocs := mem\<rparr>) }"

definition rtr_purge_outdated_records :: "rtr_ctx \<Rightarrow> rtr_ctx option" where
  "rtr_purge_outdated_records s =
     (if last_update s = 0 then Some s
      else let (cur_time, io) = rtr_get_monotonic_time (tr_socket s); s = s\<lparr>tr_socket := io\<rparr> in
        if (case cur_time of None \<Rightarrow> True | Some now \<Rightarrow> last_update s + uint (expire_interval s) < now) then
          do { s \<leftarrow> src_remove_all s;
               Some (s\<lparr>request_session_id := True, serial_number := 0, last_update := 0, is_resetting := True\<rparr>) }
        else Some s)"

section \<open>The processing thread\<close>

definition rtr_fsm_start :: "rtr_ctx \<Rightarrow> bool \<Rightarrow> int option \<Rightarrow> bool \<times> rtr_ctx" where
  "rtr_fsm_start s specific_ok start_callback =
     (if \<not> specific_ok then (False, s)
      else if state s = RTR_SHUTDOWN then (False, s)
      else if (case start_callback of None \<Rightarrow> False | Some res \<Rightarrow> res \<noteq> RTR_SUCCESS) then (False, s)
      else (True, s\<lparr>state := RTR_CONNECTING\<rparr>))"

definition io_sleep :: "rtr_ctx \<Rightarrow> rtr_ctx" where
  "io_sleep s = s\<lparr>tr_socket := (tr_socket s)\<lparr>acts := acts (tr_socket s) @ [Act_Sleep (retry_interval s)]\<rparr>\<rparr>"

definition io_close :: "rtr_ctx \<Rightarrow> rtr_ctx" where
  "io_close s = s\<lparr>tr_socket := tr_close (tr_socket s)\<rparr>"

definition fsm_connecting :: "rtr_ctx \<Rightarrow> rtr_ctx option" where
  "fsm_connecting s =
     do { s \<leftarrow> rtr_purge_outdated_records (s\<lparr>has_received_pdus := False\<rparr>);
          let (rv, io) = tr_open (tr_socket s);
          let s = s\<lparr>tr_socket := io\<rparr>;
          if rv = RTR_TR_ERROR then Some (rtr_change_socket_state s RTR_ERROR_TRANSPORT)
          else if request_session_id s then Some (rtr_change_socket_state s RTR_RESET)
          else do { (rv, s) \<leftarrow> rtr_send_serial_query s;
                    Some (if rv = RTR_SUCCESS then rtr_change_socket_state s RTR_SYNC
                          else rtr_change_socket_state s RTR_ERROR_FATAL) } }"

definition fsm_reset :: "rtr_ctx \<Rightarrow> rtr_ctx option" where
  "fsm_reset s =
     do { (rv, s) \<leftarrow> rtr_send_reset_query s; Some (if rv = RTR_SUCCESS then rtr_change_socket_state s RTR_SYNC else s) }"

definition fsm_sync :: "rtr_ctx \<Rightarrow> rtr_ctx option" where
  "fsm_sync s =
     do { (rv, s) \<leftarrow> rtr_sync s; Some (if rv = RTR_SUCCESS then rtr_change_socket_state s RTR_ESTABLISHED else s) }"

definition fsm_established :: "rtr_ctx \<Rightarrow> rtr_ctx option" where
  "fsm_established s =
     do { (ret, s) \<leftarrow> rtr_wait_for_sync s (stack s);
          if ret = RTR_SUCCESS then
            do { (rv, s) \<leftarrow> rtr_send_serial_query s; Some (if rv = RTR_SUCCESS then rtr_change_socket_state s RTR_SYNC else s) }
          else Some s }"

definition fsm_no_data :: "rtr_ctx \<Rightarrow> rtr_ctx option" where
  "fsm_no_data s =
     rtr_purge_outdated_records (io_sleep (rtr_change_socket_state (s\<lparr>request_session_id := True, serial_number := 0\<rparr>) RTR_RESET))"

definition fsm_no_incr_update :: "rtr_ctx \<Rightarrow> rtr_ctx option" where
  "fsm_no_incr_update s =
     rtr_purge_outdated_records (rtr_change_socket_state (s\<lparr>request_session_id := True, serial_number := 0\<rparr>) RTR_RESET)"

definition fsm_reconnect :: "rtr_ctx \<Rightarrow> rtr_ctx" where
  "fsm_reconnect s = rtr_change_socket_state (io_close s) RTR_CONNECTING"

text \<open>One turn of the loop; the flag tells whether the thread goes on.\<close>

definition fsm_step :: "rtr_ctx \<Rightarrow> (bool \<times> rtr_ctx) option" where
  "fsm_step s =
     (case state s of
        RTR_CONNECTING \<Rightarrow> map_option (Pair True) (fsm_connecting s)
      | RTR_RESET \<Rightarrow> map_option (Pair True) (fsm_reset s)
      | RTR_SYNC \<Rightarrow> map_option (Pair True) (fsm_sync s)
      | RTR_ESTABLISHED \<Rightarrow> map_option (Pair True) (fsm_established s)
      | RTR_FAST_RECONNECT \<Rightarrow> Some (True, fsm_reconnect s)
      | RTR_ERROR_NO_DATA_AVAIL \<Rightarrow> map_option (Pair True) (fsm_no_data s)
      | RTR_ERROR_NO_INCR_UPDATE_AVAIL \<Rightarrow> map_option (Pair True) (fsm_no_incr_update s)
      | RTR_ERROR_TRANSPORT \<Rightarrow> Some (True, io_sleep (fsm_reconnect s))
      | RTR_ERROR_FATAL \<Rightarrow> Some (True, io_sleep (fsm_reconnect s))
      | RTR_SHUTDOWN \<Rightarrow> Some (False, s)
      | RTR_CLOSED \<Rightarrow> Some (True, s))"

section \<open>Stop\<close>

text \<open>Another thread requests the end; the thread is cancelled and joined before the rest.\<close>

definition stop_thread :: "rtr_ctx \<Rightarrow> rtr_ctx option" where
  "stop_thread s =
     (if thread_id s \<noteq> 0 then
        do { s \<leftarrow> src_remove_all ((io_close s)\<lparr>request_session_id := True, serial_number := 0, last_update := 0\<rparr>);
             Some (s\<lparr>thread_id := 0, state := RTR_CLOSED\<rparr>) }
      else Some s)"

definition rtr_stop :: "rtr_ctx \<Rightarrow> rtr_ctx option" where
  "rtr_stop s = stop_thread (rtr_change_socket_state s RTR_SHUTDOWN)"

section \<open>Runs\<close>

text \<open>What the thread does in one turn, and a request to stop that arrives between two turns.\<close>

inductive fsm_move :: "rtr_ctx \<Rightarrow> rtr_ctx \<Rightarrow> bool" where
  fsm_turn: "fsm_step s = Some (True, s') \<Longrightarrow> fsm_move s s'"
| fsm_stop: "fsm_move s (rtr_change_socket_state s RTR_SHUTDOWN)"

inductive fsm_run :: "rtr_ctx \<Rightarrow> rtr_ctx \<Rightarrow> bool" where
  run_start: "fsm_run s s"
| run_move: "fsm_run s s' \<Longrightarrow> fsm_move s' s'' \<Longrightarrow> fsm_run s s''"

section \<open>What every turn keeps\<close>

definition config_frame :: "'a rtr_socket_scheme \<Rightarrow> 'a rtr_socket_scheme \<Rightarrow> bool" where
  "config_frame s s' =
     (self s' = self s \<and> byte_order s' = byte_order s \<and> iv_mode s' = iv_mode s \<and> thread_id s' = thread_id s \<and>
      connection_state_fp s' = connection_state_fp s \<and> version s' \<le> version s \<and>
      (iv_mode s \<noteq> RTR_INTERVAL_MODE_ACCEPT_ANY \<and> intervals_ok s \<longrightarrow> intervals_ok s'))"

lemma config_frame_refl [simp]: "config_frame s s"
  by (simp add: config_frame_def)

lemma config_frame_trans: "config_frame s s' \<Longrightarrow> config_frame s' s'' \<Longrightarrow> config_frame s s''"
  by (auto simp: config_frame_def)

lemma sync_config_frame: "sync_frame s s' \<Longrightarrow> config_frame s s'"
  by (simp add: sync_frame_def config_frame_def)

lemma config_frame_updates [simp]:
  "config_frame s (s'\<lparr>request_session_id := b\<rparr>) = config_frame s s'" "config_frame s (s'\<lparr>serial_number := n\<rparr>) = config_frame s s'"
  "config_frame s (s'\<lparr>last_update := t\<rparr>) = config_frame s s'" "config_frame s (s'\<lparr>is_resetting := b\<rparr>) = config_frame s s'"
  "config_frame s (s'\<lparr>has_received_pdus := b\<rparr>) = config_frame s s'" "config_frame s (s'\<lparr>tr_socket := io\<rparr>) = config_frame s s'"
  "config_frame s (rtr_change_socket_state s' st) = config_frame s s'"
  by (simp_all add: config_frame_def intervals_ok_def rtr_change_socket_state_def Let_def)

lemma config_frame_tables [simp]:
  "config_frame s (s'\<lparr>pfx_table := p\<rparr>) = config_frame s s'" "config_frame s (s'\<lparr>spki_table := k\<rparr>) = config_frame s s'"
  "config_frame s (s'\<lparr>aspa_table := a\<rparr>) = config_frame s s'" "config_frame s (s'\<lparr>allocs := m\<rparr>) = config_frame s s'"
  by (simp_all add: config_frame_def intervals_ok_def)

lemma config_frame_io [simp]: "config_frame s (io_sleep s') = config_frame s s'" "config_frame s (io_close s') = config_frame s s'"
  by (simp_all add: io_sleep_def io_close_def)

lemma io_state [simp]: "state (io_sleep s) = state s" "state (io_close s) = state s"
  by (simp_all add: io_sleep_def io_close_def)

lemma src_remove_all_frame:
  assumes "src_remove_all s = Some s'"
  shows "config_frame s s'" "state s' = state s"
  using assms by (auto simp: src_remove_all_def elim!: bind_SomeE)

lemma config_frame_from [simp]:
  "config_frame (s\<lparr>tr_socket := io\<rparr>) s' = config_frame s s'" "config_frame (s\<lparr>has_received_pdus := b\<rparr>) s' = config_frame s s'"
  by (simp_all add: config_frame_def intervals_ok_def)

lemma purge_cases:
  assumes "rtr_purge_outdated_records s = Some s'"
  obtains (none) "last_update s = 0" "s' = s"
  | (fresh) now io where "last_update s \<noteq> 0" "rtr_get_monotonic_time (tr_socket s) = (Some now, io)" "now \<le> last_update s + uint (expire_interval s)"
      "s' = s\<lparr>tr_socket := io\<rparr>"
  | (old) t io s1 where "last_update s \<noteq> 0" "rtr_get_monotonic_time (tr_socket s) = (t, io)" "src_remove_all (s\<lparr>tr_socket := io\<rparr>) = Some s1"
      "s' = s1\<lparr>request_session_id := True, serial_number := 0, last_update := 0, is_resetting := True\<rparr>"
  using assms
  by (cases "rtr_get_monotonic_time (tr_socket s)"; cases "fst (rtr_get_monotonic_time (tr_socket s))")
    (auto simp: rtr_purge_outdated_records_def Let_def not_less split: if_splits elim!: bind_SomeE)

lemma purge_frame:
  assumes "rtr_purge_outdated_records s = Some s'"
  shows "config_frame s s'" "state s' = state s"
  using assms by (cases rule: purge_cases; auto dest: src_remove_all_frame)+

lemma send_query_frame:
  assumes "rtr_send_serial_query s = Some (rv, s') \<or> rtr_send_reset_query s = Some (rv, s')"
  shows "sync_frame s s'" "rv = RTR_SUCCESS \<Longrightarrow> state s' = state s"
    "rv \<noteq> RTR_SUCCESS \<Longrightarrow> state s' = (if state s = RTR_SHUTDOWN then RTR_SHUTDOWN else RTR_ERROR_TRANSPORT)"
proof -
  obtain pdu rv1 s1 where p: "rtr_send_pdu s pdu = Some (rv1, s1)"
    "if rv1 \<noteq> RTR_SUCCESS then rv = RTR_ERROR \<and> s' = rtr_change_socket_state s1 RTR_ERROR_TRANSPORT else rv = RTR_SUCCESS \<and> s' = s1"
    using assms by (auto simp: rtr_send_serial_query_def rtr_send_reset_query_def split: if_splits elim!: bind_SomeE)
  note f = send_pdu_frame [OF p(1)]
  have "state s1 = state s" using f by (auto simp: send_frame_def)
  then show "sync_frame s s'" "rv = RTR_SUCCESS \<Longrightarrow> state s' = state s"
    "rv \<noteq> RTR_SUCCESS \<Longrightarrow> state s' = (if state s = RTR_SHUTDOWN then RTR_SHUTDOWN else RTR_ERROR_TRANSPORT)"
    using p(2) send_sync_frame [OF f] by (auto simp: change_state_state sync_frame_state split: if_splits)
qed

lemmas serial_query_frame = send_query_frame [OF disjI1]
lemmas reset_query_frame = send_query_frame [OF disjI2]

lemma wait_for_sync_frame:
  assumes "rtr_wait_for_sync s buf = Some (rv, s')"
  shows "config_frame s s'" "may_fail (state s) (state s')"
proof -
  obtain io rv1 buf1 where rc: "rtr_receive_pdu (s\<lparr>tr_socket := io\<rparr>) buf = Some (rv1, buf1, s')"
    using assms by (auto simp: rtr_wait_for_sync_def Let_def split: prod.splits if_splits elim!: bind_SomeE)
  note f = receive_sync_frame [OF rc]
  show "config_frame s s'" using sync_config_frame [OF f] by simp
  show "may_fail (state s) (state s')" using f by (simp add: sync_frame_def)
qed

section \<open>The states the thread goes through\<close>

text \<open>The states a turn that starts in a given state may end in.\<close>

fun successors :: "rtr_socket_state \<Rightarrow> rtr_socket_state set" where
  "successors RTR_CONNECTING = {RTR_RESET, RTR_SYNC, RTR_ERROR_TRANSPORT, RTR_ERROR_FATAL}"
| "successors RTR_RESET = {RTR_SYNC, RTR_ERROR_TRANSPORT}"
| "successors RTR_SYNC = {RTR_SYNC, RTR_ESTABLISHED} \<union> failure_states"
| "successors RTR_ESTABLISHED = {RTR_SYNC, RTR_ESTABLISHED} \<union> failure_states"
| "successors RTR_FAST_RECONNECT = {RTR_CONNECTING}"
| "successors RTR_ERROR_NO_DATA_AVAIL = {RTR_RESET}"
| "successors RTR_ERROR_NO_INCR_UPDATE_AVAIL = {RTR_RESET}"
| "successors RTR_ERROR_FATAL = {RTR_CONNECTING}"
| "successors RTR_ERROR_TRANSPORT = {RTR_CONNECTING}"
| "successors RTR_SHUTDOWN = {RTR_SHUTDOWN}"
| "successors RTR_CLOSED = {RTR_CLOSED}"

lemma fsm_connecting_frame:
  assumes "fsm_connecting s = Some s'"
  shows "config_frame s s'" "state s = RTR_CONNECTING \<Longrightarrow> state s' \<in> successors RTR_CONNECTING"
proof -
  obtain s1 where s1: "rtr_purge_outdated_records (s\<lparr>has_received_pdus := False\<rparr>) = Some s1"
    using assms by (auto simp: fsm_connecting_def elim!: bind_SomeE)
  have p: "config_frame s s1" "state s1 = state s" using purge_frame [OF s1] by simp_all
  define s2 where "s2 = s1\<lparr>tr_socket := snd (tr_open (tr_socket s1))\<rparr>"
  have f: "config_frame s s2" "state s2 = state s" using p by (simp_all add: s2_def)
  have "s' \<in> {rtr_change_socket_state s2 RTR_ERROR_TRANSPORT, rtr_change_socket_state s2 RTR_RESET} \<or>
    (\<exists>rv s3. rtr_send_serial_query s2 = Some (rv, s3) \<and> s' = rtr_change_socket_state s3 (if rv = RTR_SUCCESS then RTR_SYNC else RTR_ERROR_FATAL))"
    using assms s1 by (auto simp: fsm_connecting_def Let_def s2_def split: prod.splits if_splits elim!: bind_SomeE)
  then consider "s' \<in> {rtr_change_socket_state s2 RTR_ERROR_TRANSPORT, rtr_change_socket_state s2 RTR_RESET}"
    | rv s3 where "rtr_send_serial_query s2 = Some (rv, s3)" "s' = rtr_change_socket_state s3 (if rv = RTR_SUCCESS then RTR_SYNC else RTR_ERROR_FATAL)"
    by blast
  then have "config_frame s s' \<and> (state s = RTR_CONNECTING \<longrightarrow> state s' \<in> successors RTR_CONNECTING)"
  proof cases
    case 2
    show ?thesis
      using serial_query_frame(2,3) [OF 2(1)] config_frame_trans [OF f(1) sync_config_frame [OF serial_query_frame(1) [OF 2(1)]]] f(2) 2(2)
      by (cases "rv = RTR_SUCCESS") (auto simp: change_state_state)
  qed (use f in \<open>auto simp: change_state_state\<close>)
  then show "config_frame s s'" "state s = RTR_CONNECTING \<Longrightarrow> state s' \<in> successors RTR_CONNECTING" by blast+
qed

lemma fsm_reset_frame:
  assumes "fsm_reset s = Some s'"
  shows "config_frame s s'" "state s = RTR_RESET \<Longrightarrow> state s' \<in> successors RTR_RESET"
proof -
  obtain rv s1 where q: "rtr_send_reset_query s = Some (rv, s1)" "s' = (if rv = RTR_SUCCESS then rtr_change_socket_state s1 RTR_SYNC else s1)"
    using assms by (auto simp: fsm_reset_def elim!: bind_SomeE)
  show "config_frame s s'" "state s = RTR_RESET \<Longrightarrow> state s' \<in> successors RTR_RESET"
    using reset_query_frame(2,3) [OF q(1)] sync_config_frame [OF reset_query_frame(1) [OF q(1)]] q(2)
    by (auto simp: change_state_state split: if_splits)
qed

lemma fsm_sync_frame:
  assumes "fsm_sync s = Some s'"
  shows "config_frame s s'" "state s = RTR_SYNC \<Longrightarrow> state s' \<in> successors RTR_SYNC"
proof -
  obtain rv s1 where q: "rtr_sync s = Some (rv, s1)" "s' = (if rv = RTR_SUCCESS then rtr_change_socket_state s1 RTR_ESTABLISHED else s1)"
    using assms by (auto simp: fsm_sync_def elim!: bind_SomeE)
  note f = rtr_sync_frame [OF q(1)]
  show "config_frame s s'" using sync_config_frame [OF f] q(2) by simp
  show "state s' \<in> successors RTR_SYNC" if "state s = RTR_SYNC"
    using f q(2) that by (auto simp: change_state_state sync_frame_def may_fail_def split: if_splits)
qed

lemma fsm_established_frame:
  assumes "fsm_established s = Some s'"
  shows "config_frame s s'" "state s = RTR_ESTABLISHED \<Longrightarrow> state s' \<in> successors RTR_ESTABLISHED"
proof -
  obtain rv s1 where w: "rtr_wait_for_sync s (stack s) = Some (rv, s1)"
      "s' = s1 \<or> (\<exists>rv s2. rtr_send_serial_query s1 = Some (rv, s2) \<and> s' = (if rv = RTR_SUCCESS then rtr_change_socket_state s2 RTR_SYNC else s2))"
    using assms by (auto simp: fsm_established_def split: if_splits elim!: bind_SomeE)
  note f = wait_for_sync_frame [OF w(1)]
  have *: "config_frame s s2 \<and> (state s = RTR_ESTABLISHED \<longrightarrow> state (if rv = RTR_SUCCESS then rtr_change_socket_state s2 RTR_SYNC else s2) \<in> successors RTR_ESTABLISHED)"
    if "rtr_send_serial_query s1 = Some (rv, s2)" for rv s2
    using serial_query_frame(2,3) [OF that] config_frame_trans [OF f(1) sync_config_frame [OF serial_query_frame(1) [OF that]]] f(2)
    by (auto simp: change_state_state may_fail_def)
  show "config_frame s s'" using w(2) * f(1) by (auto split: if_splits)
  show "state s' \<in> successors RTR_ESTABLISHED" if "state s = RTR_ESTABLISHED"
    using w(2) * f(2) that by (auto simp: may_fail_def simp del: successors.simps) (auto simp: may_fail_def)
qed

lemma fsm_no_data_frame:
  assumes "fsm_no_data s = Some s' \<or> fsm_no_incr_update s = Some s'"
  shows "config_frame s s'" "state s \<noteq> RTR_SHUTDOWN \<Longrightarrow> state s' = RTR_RESET"
proof -
  obtain s1 where s1: "rtr_purge_outdated_records s1 = Some s'" "config_frame s s1" "state s \<noteq> RTR_SHUTDOWN \<longrightarrow> state s1 = RTR_RESET"
    using assms unfolding fsm_no_data_def fsm_no_incr_update_def by (elim disjE) (rule that, assumption, simp, simp add: change_state_state)+
  show "config_frame s s'" "state s \<noteq> RTR_SHUTDOWN \<Longrightarrow> state s' = RTR_RESET"
    using config_frame_trans [OF s1(2) purge_frame(1) [OF s1(1)]] purge_frame(2) [OF s1(1)] s1(3) by auto
qed

lemma fsm_step_frame:
  assumes "fsm_step s = Some (go, s')"
  shows "config_frame s s' \<and> state s' \<in> successors (state s) \<and> (go \<longleftrightarrow> state s \<noteq> RTR_SHUTDOWN)"
  using assms
  by (cases "state s") (auto simp: fsm_step_def fsm_reconnect_def change_state_state
      dest: fsm_connecting_frame fsm_reset_frame fsm_sync_frame fsm_established_frame intro: fsm_no_data_frame)


lemma fsm_move_frame: "fsm_move s s' \<Longrightarrow> config_frame s s'"
  by (auto elim!: fsm_move.cases dest!: fsm_step_frame)

lemma fsm_run_frame: "fsm_run s s' \<Longrightarrow> config_frame s s'"
  by (induction rule: fsm_run.induct) (auto intro: config_frame_trans fsm_move_frame)

section \<open>Withdrawing the records of the socket\<close>

text \<open>The tables of a socket that has all three, and what the removal of its records makes of them.\<close>

definition tables_inv :: "rtr_ctx \<Rightarrow> rtr_pfx_table \<Rightarrow> rtr_spki_table \<Rightarrow> rtr_aspa_table \<Rightarrow> bool" where
  "tables_inv s p k a =
     (pfx_table s = Some p \<and> spki_table s = Some k \<and> aspa_table s = Some a \<and> pfx_inv p \<and> spki_inv k \<and> store_ok a \<and> one_node_each a \<and>
      \<not> update_lock a)"

definition withdrawn :: "socket_id \<Rightarrow> rtr_pfx_table \<Rightarrow> rtr_spki_table \<Rightarrow> rtr_aspa_table \<Rightarrow> rtr_pfx_table \<Rightarrow> rtr_spki_table \<Rightarrow> rtr_aspa_table \<Rightarrow> bool" where
  "withdrawn me p k a p' k' a' =
     (mset (pfx_records p') = filter_mset (\<lambda>r. pr_socket r \<noteq> me) (mset (pfx_records p)) \<and>
      spki_records k' = filter (\<lambda>r. sr_socket r \<noteq> me) (spki_records k) \<and>
      (\<forall>t. socket_records a' t = (if t = me then [] else socket_records a t)))"

lemma removed_mset:
  assumes "M = G + R" "\<forall>r\<in>#G. P r" "\<forall>r\<in>#R. \<not> P r"
  shows "R = filter_mset (\<lambda>r. \<not> P r) M"
proof -
  have "filter_mset (\<lambda>r. \<not> P r) G = {#}" "filter_mset (\<lambda>r. \<not> P r) R = R"
    using assms(2,3) filter_mset_cong [OF refl, of G "\<lambda>r. \<not> P r" "\<lambda>r. False"] filter_mset_cong [OF refl, of R "\<lambda>r. \<not> P r" "\<lambda>r. True"] by simp_all
  then show ?thesis using assms(1) by simp
qed

lemma src_remove_all_ok:
  assumes "tables_inv s p k a" "False \<notin> set (allocs s)"
  shows "\<exists>p' k' a' mem. src_remove_all s = Some (s\<lparr>pfx_table := Some p', spki_table := Some k', aspa_table := Some a', allocs := mem\<rparr>) \<and>
    withdrawn (self s) p k a p' k' a' \<and> pfx_inv p' \<and> spki_inv k' \<and> store_ok a' \<and> one_node_each a' \<and> \<not> update_lock a' \<and> False \<notin> set mem"
proof -
  note inv = assms(1) [unfolded tables_inv_def]
  obtain rv p' mem1 where p': "rtr_pfx_table_src_remove (Some p) (self s) (allocs s) = Some (rv, Some p', mem1)" "src_removed (self s) (allocs s) p rv p' mem1"
    using rtr_pfx_table_src_remove_outcome inv by blast
  then have p: "mset (pfx_records p') = filter_mset (\<lambda>r. pr_socket r \<noteq> self s) (mset (pfx_records p))" "pfx_inv p'" "set mem1 \<subseteq> set (allocs s)"
    using assms(2) removed_mset [of "mset (pfx_records p)" _ "mset (pfx_records p')" "\<lambda>r. pr_socket r = self s"] by (auto simp: src_removed_def)
  obtain k' where k: "spki_table_src_remove (Some k) (self s) = Some (RTR_SPKI_SUCCESS, Some k')" "spki_inv k'"
    "spki_records k' = filter (\<lambda>r. sr_socket r \<noteq> self s) (spki_records k)"
    using src_remove_outcome [of k "self s"] inv by blast
  obtain a' mem2 where a: "rtr_aspa_table_src_remove (Some a) (self s) True mem1 = Some (RTR_ASPA_SUCCESS, Some a', mem2)"
    "\<forall>t. socket_records a' t = (if t = self s then [] else socket_records a t)" "one_node_each a'" "store_ok a'" "\<not> update_lock a'" "set mem2 \<subseteq> set mem1"
    using aspa_src_remove_outcome [of a "self s" True mem1] inv by blast
  have "src_remove_all s = Some (s\<lparr>pfx_table := Some p', spki_table := Some k', aspa_table := Some a', allocs := mem2\<rparr>)"
    using inv p'(1) k(1) a(1) by (simp add: src_remove_all_def del: rtr_aspa_table_src_remove.simps)
  moreover have "withdrawn (self s) p k a p' k' a'" "False \<notin> set mem2" using p k a assms(2) by (auto simp: withdrawn_def)
  ultimately show ?thesis using p(2) k(2) a(3-5) by blast
qed


lemma tables_inv_cong: "same_tables s s' \<Longrightarrow> tables_inv s' p k a = tables_inv s p k a"
  by (simp add: tables_inv_def)

lemma supported_up_to_max:
  fixes v :: u32
  assumes "v \<le> 2"
  shows "rtr_version_supported (ucast v)"
proof -
  have "unat v \<le> 2" using assms by (simp add: word_le_nat_alt)
  then have "unat v = 0 \<or> unat v = 1 \<or> unat v = 2" by arith
  then have "v = 0 \<or> v = 1 \<or> v = 2" by (auto simp: word_unat_eq_iff)
  then show ?thesis by (auto simp: rtr_version_supported_def)
qed

lemma run_started:
  assumes "fsm_run s s'" "state s \<noteq> RTR_CLOSED"
  shows "state s' \<noteq> RTR_CLOSED"
  using assms
proof (induction rule: fsm_run.induct)
  case (run_move s s' s'')
  have "state s'' \<noteq> RTR_CLOSED" if "fsm_step s' = Some (True, s'')"
  proof -
    have "state s'' \<in> successors (state s')" using fsm_step_frame [OF that] by blast
    then show ?thesis using run_move.IH run_move.prems by (cases "state s'") auto
  qed
  then show ?case using run_move by (auto elim!: fsm_move.cases simp: change_state_state)
qed

lemma run_from_shutdown:
  assumes "fsm_run s s'" "state s = RTR_SHUTDOWN"
  shows "s' = s"
  using assms
  by (induction rule: fsm_run.induct) (auto elim!: fsm_move.cases simp: fsm_step_def rtr_change_socket_state_def)

text \<open>The turns that lead from a failed synchronisation to the next one change neither the tables nor the position of a
  socket without a session and without a time of its last update: its records do not expire either.\<close>

lemma reconnecting_turn:
  assumes "fsm_step s = Some (go, s')" "state s \<in> {RTR_ERROR_FATAL, RTR_ERROR_TRANSPORT, RTR_FAST_RECONNECT, RTR_CONNECTING, RTR_RESET}"
    "request_session_id s" "last_update s = 0"
  shows "reconnected s s'"
proof -
  have "reconnected s s'" if "conn_frame s s'" for s s'
    using that ctx_frame [OF that] by (simp add: reconnected_def conn_frame_def)
  note f = this
  have q: "reconnected s s1" if "rtr_send_reset_query s = Some (rv, s1)" for rv s1
    by (rule f) (use that in \<open>auto simp: rtr_send_reset_query_def split: if_splits elim!: bind_SomeE
        intro!: conn_frame_state_trans dest!: send_pdu_frame intro: send_frame_conn\<close>)
  have r: "reconnected s (rtr_change_socket_state s1 st)" if "reconnected s s1" for s1 st
    using that by (simp add: reconnected_def)
  have io: "reconnected s (s\<lparr>has_received_pdus := b, tr_socket := io\<rparr>)" "reconnected s (s\<lparr>tr_socket := io\<rparr>)" for io b
    by (simp_all add: reconnected_def)
  have e: "reconnected s (fsm_reconnect s)" unfolding fsm_reconnect_def io_close_def by (rule r [OF io(2)])
  then have e2: "reconnected s (io_sleep (fsm_reconnect s))" by (simp add: reconnected_def io_sleep_def)
  have c: "reconnected s s1" if "fsm_connecting s = Some s1" for s1
    using that assms(3,4) r [OF io(1)] by (auto simp: fsm_connecting_def rtr_purge_outdated_records_def Let_def split: prod.splits if_splits)
  have z: "reconnected s s1" if "fsm_reset s = Some s1" for s1
    using that q r by (auto simp: fsm_reset_def split: if_splits elim!: bind_SomeE)
  show ?thesis using assms(1,2) e e2 c z by (auto simp: fsm_step_def)
qed

section \<open>Properties of the state machine\<close>

text \<open>C18: the thread moves only along the transitions of the state machine, and stops in \<open>RTR_SHUTDOWN\<close> only;
  every failure leads back to connecting or to a reset query.\<close>

theorem fsm_follows_diagram:
  assumes "fsm_step s = Some (go, s')"
  shows "state s' \<in> successors (state s) \<and> (go \<longleftrightarrow> state s \<noteq> RTR_SHUTDOWN)"
  using fsm_step_frame [OF assms] by simp

theorem fsm_follows_diagram_witness:
  "\<exists>s'. fsm_step ((sample_ctx [])\<lparr>state := RTR_ERROR_FATAL\<rparr>) = Some (True, s') \<and> state s' \<in> successors RTR_ERROR_FATAL"
  using fsm_follows_diagram [of "(sample_ctx [])\<lparr>state := RTR_ERROR_FATAL\<rparr>" True] by (simp add: fsm_step_def)

text \<open>C17: from initialisation on, through every run of the thread and whatever the cache sends, a socket keeps
  its identity and its interval mode, speaks a supported version, has timers inside their ranges unless it is
  told to accept any value, and is never closed while it runs; once shut down nothing changes any more.\<close>

theorem session_invariant:
  assumes "rtr_init s0 tr tbls refresh expire retry mode fp = (RTR_SUCCESS, s1)"
    and "rtr_start s1 key_ok new_thread = (RTR_SUCCESS, s2)" "rtr_fsm_start s2 specific_ok callback = (True, s3)" "fsm_run s3 s"
  shows "self s = self s0 \<and> iv_mode s = mode \<and> rtr_version_supported (ucast (version s)) \<and> state s \<noteq> RTR_CLOSED \<and>
    (mode \<noteq> RTR_INTERVAL_MODE_ACCEPT_ANY \<longrightarrow> intervals_ok s) \<and> (\<forall>s'. state s = RTR_SHUTDOWN \<and> fsm_run s s' \<longrightarrow> s' = s)"
proof -
  have 1: "self s1 = self s0" "iv_mode s1 = mode" "version s1 = 2" "intervals_ok s1"
    using assms(1) by (auto simp: rtr_init_def Let_def intervals_ok_def split: if_splits option.splits prod.splits)
  have 2: "self s2 = self s1" "iv_mode s2 = iv_mode s1" "version s2 = version s1" "intervals_ok s2 = intervals_ok s1"
    using assms(2) by (auto simp: rtr_start_def Let_def intervals_ok_def split: if_splits option.splits prod.splits)
  have 3: "s3 = s2\<lparr>state := RTR_CONNECTING\<rparr>"
    using assms(3) by (auto simp: rtr_fsm_start_def split: if_splits)
  have 4: "config_frame s3 s" "state s \<noteq> RTR_CLOSED" using fsm_run_frame [OF assms(4)] run_started [OF assms(4)] 3 by simp_all
  have "version s \<le> 2" using 1 2 3 4(1) by (simp add: config_frame_def)
  then have "rtr_version_supported (ucast (version s))" by (rule supported_up_to_max)
  then show ?thesis using 1 2 3 4 run_from_shutdown by (auto simp: config_frame_def intervals_ok_def)
qed


theorem session_invariant_witness:
  "\<exists>s1 s2 s3 s. rtr_init (sample_ctx []) None (None, None, None) 3600 7200 600 RTR_INTERVAL_MODE_DEFAULT_MIN_MAX True = (RTR_SUCCESS, s1) \<and>
     rtr_start s1 True (Some 7) = (RTR_SUCCESS, s2) \<and> rtr_fsm_start s2 True None = (True, s3) \<and> fsm_run s3 s \<and>
     state s = RTR_SHUTDOWN \<and> intervals_ok s \<and> self s = 1"
proof -
  define s1 where "s1 = snd (rtr_init (sample_ctx []) None (None, None, None) 3600 7200 600 RTR_INTERVAL_MODE_DEFAULT_MIN_MAX True)"
  define s2 where "s2 = snd (rtr_start s1 True (Some 7))"
  define s3 where "s3 = snd (rtr_fsm_start s2 True None)"
  define s where "s = rtr_change_socket_state s3 RTR_SHUTDOWN"
  have i: "rtr_init (sample_ctx []) None (None, None, None) 3600 7200 600 RTR_INTERVAL_MODE_DEFAULT_MIN_MAX True = (RTR_SUCCESS, s1)"
    by (simp add: s1_def rtr_init_def rtr_check_interval_range_def)
  have a: "rtr_start s1 True (Some 7) = (RTR_SUCCESS, s2)"
    using i by (auto simp: s2_def rtr_start_def rtr_init_def rtr_check_interval_range_def)
  have st: "state s2 = RTR_CLOSED"
    using i a by (auto simp: rtr_start_def rtr_init_def rtr_check_interval_range_def)
  have f: "rtr_fsm_start s2 True None = (True, s3)" by (simp add: s3_def rtr_fsm_start_def st)
  have r: "fsm_run s3 s" unfolding s_def by (rule run_move [OF run_start fsm_stop])
  have "state s3 = RTR_CONNECTING" using f by (auto simp: rtr_fsm_start_def st)
  then have "state s = RTR_SHUTDOWN" by (simp add: s_def change_state_state)
  with i a f r session_invariant [OF i a f r] show ?thesis by auto
qed

text \<open>C20: stopping a running socket closes the connection, forgets the session and takes every record of this
  socket out of the three tables, and no record of another socket.\<close>

theorem stop_withdraws_records:
  assumes "tables_inv s p k a" "False \<notin> set (allocs s)" "thread_id s \<noteq> 0"
  shows "\<exists>s' p' k' a'. rtr_stop s = Some s' \<and> pfx_table s' = Some p' \<and> spki_table s' = Some k' \<and> aspa_table s' = Some a' \<and>
    withdrawn (self s) p k a p' k' a' \<and> pfx_inv p' \<and> spki_inv k' \<and> store_ok a' \<and> one_node_each a' \<and>
    state s' = RTR_CLOSED \<and> thread_id s' = 0 \<and> request_session_id s' \<and> last_update s' = 0 \<and>
    acts (tr_socket s') = acts (tr_socket s) @ [Act_Close]"
proof -
  let ?s = "(io_close (rtr_change_socket_state s RTR_SHUTDOWN))\<lparr>request_session_id := True, serial_number := 0, last_update := 0\<rparr>"
  have f: "same_tables s ?s" "allocs ?s = allocs s" "self ?s = self s" "thread_id ?s = thread_id s" "acts (tr_socket ?s) = acts (tr_socket s) @ [Act_Close]"
    by (auto simp: io_close_def rtr_change_socket_state_def Let_def tr_close_def)
  obtain p' k' a' mem where r: "src_remove_all ?s = Some (?s\<lparr>pfx_table := Some p', spki_table := Some k', aspa_table := Some a', allocs := mem\<rparr>)"
    "withdrawn (self s) p k a p' k' a'" "pfx_inv p'" "spki_inv k'" "store_ok a'" "one_node_each a'"
    using src_remove_all_ok [of ?s p k a] assms(1,2) tables_inv_cong [OF f(1)] f(2,3) by auto
  have "thread_id (rtr_change_socket_state s RTR_SHUTDOWN) \<noteq> 0" using assms(3) by (simp add: rtr_change_socket_state_def Let_def)
  then have "rtr_stop s = Some (?s\<lparr>pfx_table := Some p', spki_table := Some k', aspa_table := Some a', allocs := mem, thread_id := 0, state := RTR_CLOSED\<rparr>)"
    using r(1) by (simp add: rtr_stop_def stop_thread_def)
  then show ?thesis using r(2-6) f(5) by auto
qed


definition filled_ctx :: rtr_ctx where
  "filled_ctx = (sample_ctx [])\<lparr>pfx_table := Some sample_table, last_update := 5, tr_socket := (tr_socket (sample_ctx []))\<lparr>clock := \<lambda>n. Some (10000, 0)\<rparr>\<rparr>"

lemma filled_ctx_ok:
  "tables_inv filled_ctx sample_table (spki_table_init True) (rtr_aspa_table_init True)" "allocs filled_ctx = []" "thread_id filled_ctx \<noteq> 0"
  "self filled_ctx = 1" "last_update filled_ctx = 5" "clock (tr_socket filled_ctx) n = Some (10000, 0)" "expire_interval filled_ctx = 7200"
  using empty_tables by (simp_all add: filled_ctx_def tables_inv_def sample_table_inv sample_ctx_def sample_socket_def rtr_socket.extend_def
      rtr_ctx.fields_def rtr_aspa_table_init_def)

theorem stop_withdraws_records_witness:
  "\<exists>s' p'. rtr_stop filled_ctx = Some s' \<and> pfx_table s' = Some p' \<and> state s' = RTR_CLOSED \<and>
    mset (pfx_records p') = filter_mset (\<lambda>r. pr_socket r \<noteq> 1) (mset (pfx_records sample_table))"
  using stop_withdraws_records [OF filled_ctx_ok(1) _ filled_ctx_ok(3)] filled_ctx_ok(2,4) by (auto simp: withdrawn_def)

lemma monotonic_time_ok:
  "clock io (ticks io) = Some (sec, nsec) \<Longrightarrow> rtr_get_monotonic_time io = (Some (rounded sec nsec), io\<lparr>ticks := ticks io + 1\<rparr>)"
  by (simp add: rtr_get_monotonic_time_def rounded_def)

text \<open>C19: records outlive their expiry time by no reconnection: when the expire interval has passed since the last
  update, all records of the socket leave the three tables and the next query asks for everything; before that
  they stay, and so do session and serial number.\<close>

theorem expired_records_leave:
  assumes "tables_inv s p k a" "False \<notin> set (allocs s)" "last_update s \<noteq> 0" "clock (tr_socket s) (ticks (tr_socket s)) = Some (sec, nsec)"
  shows "\<exists>s'. rtr_purge_outdated_records s = Some s' \<and> state s' = state s \<and>
    (if last_update s + uint (expire_interval s) < rounded sec nsec
     then (\<exists>p' k' a'. tables_inv s' p' k' a' \<and> withdrawn (self s) p k a p' k' a') \<and> request_session_id s' \<and> last_update s' = 0 \<and> serial_number s' = 0
     else same_tables s s' \<and> request_session_id s' = request_session_id s \<and> last_update s' = last_update s \<and> serial_number s' = serial_number s)"
proof -
  let ?s = "s\<lparr>tr_socket := (tr_socket s)\<lparr>ticks := ticks (tr_socket s) + 1\<rparr>\<rparr>"
  obtain p' k' a' mem where r: "src_remove_all ?s = Some (?s\<lparr>pfx_table := Some p', spki_table := Some k', aspa_table := Some a', allocs := mem\<rparr>)"
    "withdrawn (self s) p k a p' k' a'" "pfx_inv p'" "spki_inv k'" "store_ok a'" "one_node_each a'" "\<not> update_lock a'"
    using src_remove_all_ok [of ?s p k a] assms(1,2) tables_inv_cong [of s ?s] by auto
  show ?thesis
  proof (cases "last_update s + uint (expire_interval s) < rounded sec nsec")
    case True
    then have "rtr_purge_outdated_records s = Some (?s\<lparr>pfx_table := Some p', spki_table := Some k', aspa_table := Some a', allocs := mem,
        request_session_id := True, serial_number := 0, last_update := 0, is_resetting := True\<rparr>)"
      using r(1) assms(3) monotonic_time_ok [OF assms(4)] by (simp add: rtr_purge_outdated_records_def)
    then show ?thesis using True r(2-) by (auto simp: tables_inv_def)
  next
    case False
    then have "rtr_purge_outdated_records s = Some ?s" using assms(3) monotonic_time_ok [OF assms(4)] by (simp add: rtr_purge_outdated_records_def)
    then show ?thesis using False by simp
  qed
qed


theorem expired_records_leave_witness:
  "\<exists>s' p' k' a'. rtr_purge_outdated_records filled_ctx = Some s' \<and> tables_inv s' p' k' a' \<and> last_update s' = 0 \<and>
    mset (pfx_records p') = filter_mset (\<lambda>r. pr_socket r \<noteq> 1) (mset (pfx_records sample_table))"
proof -
  have "last_update filled_ctx + uint (expire_interval filled_ctx) < rounded 10000 0" by (simp add: filled_ctx_ok rounded_def)
  then show ?thesis using expired_records_leave [OF filled_ctx_ok(1) _ _ filled_ctx_ok(6)] filled_ctx_ok(2,4,5) by (auto simp: withdrawn_def)
qed

section \<open>Coming up\<close>

text \<open>Turns of the thread one after the other.\<close>

primrec fsm_turns :: "nat \<Rightarrow> rtr_ctx \<Rightarrow> rtr_ctx option" where
  "fsm_turns 0 s = Some s"
| "fsm_turns (Suc n) s = do { (go, s) \<leftarrow> fsm_step s; if go then fsm_turns n s else None }"

lemma reset_query_ok:
  assumes "state s \<noteq> RTR_SHUTDOWN" "Tx_Fail ` UNIV \<inter> set (tx (tr_socket s)) = {}"
  obtains s' where "rtr_send_reset_query s = Some (RTR_SUCCESS, s')" "send_frame s s'"
    "wire (tr_socket s') = wire (tr_socket s) @ network_bytes (byte_order s) (pdu_reset_query (byte_order s) (ucast (version s)))"
proof -
  have "pdu_wf (byte_order s) (pdu_reset_query (byte_order s) (ucast (version s)))"
    by (cases "byte_order s") (simp_all add: pdu_reset_query_def pdu_wf_def pdu_type_of_def field32_def dec32_def enc32_def enc16_def
      be_bytes16_def be_bytes32_def RTR_MAX_PDU_LEN_def)
  then show ?thesis
    by (rule send_pdu_ok) (use assms in \<open>auto simp: rtr_send_reset_query_def network_bytes_def intro!: that\<close>)
qed

lemma connecting_resets:
  assumes "state s = RTR_CONNECTING" "request_session_id s" "last_update s = 0" "opens (tr_socket s) = []"
  shows "fsm_step s = Some (True, rtr_change_socket_state
    (s\<lparr>has_received_pdus := False, tr_socket := (tr_socket s)\<lparr>acts := acts (tr_socket s) @ [Act_Open True]\<rparr>\<rparr>) RTR_RESET)"
  using assms by (simp add: fsm_step_def fsm_connecting_def rtr_purge_outdated_records_def)


lemma change_state_eq: "state s \<noteq> RTR_SHUTDOWN \<Longrightarrow> \<exists>l. rtr_change_socket_state s st = s\<lparr>state := st, state_log := l\<rparr>"
  by (cases s) (auto simp: rtr_change_socket_state_def Let_def)

text \<open>What brings the socket from connecting to the point where it waits for the answer to its reset query.\<close>

lemma connecting_to_sync:
  assumes "state s = RTR_CONNECTING" "request_session_id s" "last_update s = 0" "opens (tr_socket s) = []"
    and "Tx_Fail ` UNIV \<inter> set (tx (tr_socket s)) = {}"
  shows "\<exists>l t w a. fsm_turns 2 s = Some (s\<lparr>has_received_pdus := False, state := RTR_SYNC, state_log := l,
    tr_socket := (tr_socket s)\<lparr>acts := a, tx := t, wire := wire (tr_socket s) @ w\<rparr>\<rparr>) \<and>
    w = network_bytes (byte_order s) (pdu_reset_query (byte_order s) (ucast (version s)))"
proof -
  let ?s = "s\<lparr>has_received_pdus := False, tr_socket := (tr_socket s)\<lparr>acts := acts (tr_socket s) @ [Act_Open True]\<rparr>\<rparr>"
  have "state ?s \<noteq> RTR_SHUTDOWN" using assms(1) by simp
  from change_state_eq [OF this, of RTR_RESET] obtain l where
    l: "rtr_change_socket_state ?s RTR_RESET = ?s\<lparr>state := RTR_RESET, state_log := l\<rparr>" by blast
  let ?s1 = "?s\<lparr>state := RTR_RESET, state_log := l\<rparr>"
  have st: "state ?s1 \<noteq> RTR_SHUTDOWN" and tx: "Tx_Fail ` UNIV \<inter> set (tx (tr_socket ?s1)) = {}" using assms(5) by simp_all
  obtain s2 where q: "rtr_send_reset_query ?s1 = Some (RTR_SUCCESS, s2)" "send_frame ?s1 s2"
      "wire (tr_socket s2) = wire (tr_socket ?s1) @ network_bytes (byte_order ?s1) (pdu_reset_query (byte_order ?s1) (ucast (version ?s1)))"
    by (rule reset_query_ok [OF st tx])
  then obtain t w where s2: "s2 = ?s1\<lparr>tr_socket := (tr_socket ?s1)\<lparr>tx := t, wire := wire (tr_socket ?s1) @ w\<rparr>\<rparr>" unfolding send_frame_def by blast
  then have w: "w = network_bytes (byte_order s) (pdu_reset_query (byte_order s) (ucast (version s)))" using q(3) by simp
  have "state s2 \<noteq> RTR_SHUTDOWN" by (simp add: s2)
  from change_state_eq [OF this, of RTR_SYNC] obtain l2 where l2: "rtr_change_socket_state s2 RTR_SYNC = s2\<lparr>state := RTR_SYNC, state_log := l2\<rparr>" by blast
  have "fsm_step s = Some (True, ?s1)" using connecting_resets [OF assms(1-4)] l by simp
  moreover have "fsm_step ?s1 = Some (True, s2\<lparr>state := RTR_SYNC, state_log := l2\<rparr>)" using q(1) l2 by (simp add: fsm_step_def fsm_reset_def)
  ultimately have "fsm_turns 2 s = Some (s2\<lparr>state := RTR_SYNC, state_log := l2\<rparr>)" by (simp add: numeral_2_eq_2)
  moreover have "s2\<lparr>state := RTR_SYNC, state_log := l2\<rparr> = s\<lparr>has_received_pdus := False, state := RTR_SYNC, state_log := l2,
      tr_socket := (tr_socket s)\<lparr>acts := acts (tr_socket s) @ [Act_Open True], tx := t, wire := wire (tr_socket s) @ w\<rparr>\<rparr>" by (simp add: s2)
  ultimately show ?thesis using w by metis
qed

text \<open>C6: a socket without a session that reaches a properly answering cache comes up: in three turns it has
  connected, sent a reset query, and established the session with exactly the records the cache has sent added
  to the tables.\<close>

theorem proper_cache_establishes:
  assumes "state s = RTR_CONNECTING" "request_session_id s" "last_update s = 0" "\<not> is_resetting s" "opens (tr_socket s) = []"
    and "Tx_Fail ` UNIV \<inter> set (tx (tr_socket s)) = {}"
    and "answers s resp pdus eod" "avail (rx (tr_socket s)) = stream_of (byte_order s) (resp # pdus @ [eod]) @ rest"
    and "length (stack s) = RTR_MAX_PDU_LEN" "False \<notin> set (allocs s)" "clock (tr_socket s) (ticks (tr_socket s)) = Some (sec, nsec)"
    and "pfx_table s = Some p" "spki_table s = Some k" "aspa_table s = Some a" "tables_ready s p k a pdus" "tables_accept s p k a pdus"
  shows "\<exists>s' p' k' a'. fsm_turns 3 s = Some s' \<and> state s' = RTR_ESTABLISHED \<and> \<not> request_session_id s' \<and>
    session_id s' = ucast (pdu_session (byte_order s) resp) \<and> serial_number s' = pdu_serial (byte_order s) eod \<and>
    last_update s' = rounded sec nsec \<and>
    pfx_table s' = Some p' \<and> spki_table s' = Some k' \<and> aspa_table s' = Some a' \<and> tables_applied s p k a pdus p' k' a'"
proof -
  obtain l t w c where two: "fsm_turns 2 s = Some (s\<lparr>has_received_pdus := False, state := RTR_SYNC, state_log := l,
    tr_socket := (tr_socket s)\<lparr>acts := c, tx := t, wire := wire (tr_socket s) @ w\<rparr>\<rparr>)"
    using connecting_to_sync [OF assms(1,2,3,5,6)] by blast
  let ?s = "s\<lparr>has_received_pdus := False, state := RTR_SYNC, state_log := l,
    tr_socket := (tr_socket s)\<lparr>acts := c, tx := t, wire := wire (tr_socket s) @ w\<rparr>\<rparr>"
  have "sendable ?s = sendable s" by (simp add: fun_eq_iff sendable_def)
  then have same: "answers ?s resp pdus eod" "continues ?s resp" "tables_ready ?s p k a pdus" "tables_accept ?s p k a pdus"
      "tables_applied ?s = tables_applied s"
    using assms(2-4,7,15,16) tables_cong [of ?s s] by (simp_all add: answers_def continues_def)
  obtain s' p' k' a' where sync: "rtr_sync ?s = Some (RTR_SUCCESS, s')" "state s' = RTR_SYNC" "\<not> request_session_id s'"
      "session_id s' = ucast (pdu_session (byte_order s) resp)" "serial_number s' = pdu_serial (byte_order s) eod"
      "last_update s' = rounded sec nsec" "pfx_table s' = Some p'" "spki_table s' = Some k'" "aspa_table s' = Some a'"
      "tables_applied s p k a pdus p' k' a'"
    using rtr_sync_applies [OF same(1) _ same(2) _ _ _ _ _ _ _ same(3,4), of rest sec nsec] assms(8-14) same(5) by auto
  have "state s' \<noteq> RTR_SHUTDOWN" using sync(2) by simp
  from change_state_eq [OF this, of RTR_ESTABLISHED] obtain l2 where
    l2: "rtr_change_socket_state s' RTR_ESTABLISHED = s'\<lparr>state := RTR_ESTABLISHED, state_log := l2\<rparr>" by blast
  have "fsm_step ?s = Some (True, s'\<lparr>state := RTR_ESTABLISHED, state_log := l2\<rparr>)" using sync(1) l2 by (simp add: fsm_step_def fsm_sync_def)
  then have "fsm_turns 3 s = Some (s'\<lparr>state := RTR_ESTABLISHED, state_log := l2\<rparr>)"
    using two by (auto simp: numeral_2_eq_2 numeral_3_eq_3 split: if_splits elim!: bind_SomeE)
  then show ?thesis using sync(3-) by auto
qed


definition cold_ctx :: rtr_ctx where
  "cold_ctx = (sample_ctx [Rx_Bytes (take 11 cache_bytes), Rx_Bytes (drop 11 cache_bytes)])\<lparr>state := RTR_CONNECTING\<rparr>"

lemma cold_ctx_ok:
  "state cold_ctx = RTR_CONNECTING" "request_session_id cold_ctx" "last_update cold_ctx = 0" "\<not> is_resetting cold_ctx" "opens (tr_socket cold_ctx) = []"
  "Tx_Fail ` UNIV \<inter> set (tx (tr_socket cold_ctx)) = {}" "length (stack cold_ctx) = RTR_MAX_PDU_LEN" "False \<notin> set (allocs cold_ctx)"
  "clock (tr_socket cold_ctx) (ticks (tr_socket cold_ctx)) = Some (0, 0)" "pfx_table cold_ctx = Some (rtr_pfx_table_init True)"
  "spki_table cold_ctx = Some (spki_table_init True)" "aspa_table cold_ctx = Some (rtr_aspa_table_init True)" "byte_order cold_ctx = Little_Endian"
  by (auto simp: cold_ctx_def sample_ctx_def sample_socket_def rtr_socket.extend_def rtr_ctx.fields_def)

theorem proper_cache_establishes_witness:
  "\<exists>s' p'. fsm_turns 3 cold_ctx = Some s' \<and> state s' = RTR_ESTABLISHED \<and> pfx_table s' = Some p' \<and>
    set (pfx_records p') = {\<lparr>pr_asn = 7, pr_prefix = Ip4 0x0A000000, pr_min_len = 8, pr_max_len = 24, pr_socket = 1\<rparr>}"
proof -
  let ?s = "sample_ctx [Rx_Bytes (take 11 cache_bytes), Rx_Bytes (drop 11 cache_bytes)]"
  have stream: "avail (rx (tr_socket cold_ctx)) = stream_of (byte_order cold_ctx) (response_pdu # [prefix_pdu 1 10] @ [eod_pdu]) @ []"
    unfolding cold_ctx_ok(13) cache_bytes_stream by (simp add: cold_ctx_def)
  have "sendable cold_ctx = sendable ?s" "byte_order cold_ctx = byte_order ?s" by (simp_all add: fun_eq_iff sendable_def cold_ctx_def)
  then have ans: "answers cold_ctx response_pdu [prefix_pdu 1 10] eod_pdu" using sample_answer by (simp add: answers_def)
  have "tables_ready cold_ctx = tables_ready ?s" "tables_accept cold_ctx = tables_accept ?s" "tables_applied cold_ctx = tables_applied ?s"
    by (rule tables_cong; simp add: cold_ctx_def)+
  then have t: "tables_ready cold_ctx (rtr_pfx_table_init True) (spki_table_init True) (rtr_aspa_table_init True) [prefix_pdu 1 10]"
    "tables_accept cold_ctx (rtr_pfx_table_init True) (spki_table_init True) (rtr_aspa_table_init True) [prefix_pdu 1 10]"
    "tables_applied cold_ctx = tables_applied ?s" using sample_tables by simp_all
  from proper_cache_establishes [OF cold_ctx_ok(1-6) ans stream cold_ctx_ok(7-12) t(1,2)] show ?thesis
    using sample_tables(3) t(3) by (auto simp: tables_applied_def)
qed

end
