(* ===== verification/Tommy_Sort.thy ===== *)
theory Tommy_Sort
  imports Rtr_Prelude
begin

text \<open>
  The list sort of the tommyds library, after \<^verbatim>\<open>third-party/tommyds/tommychain.h\<close> and
  \<^verbatim>\<open>tommylist.c\<close>: a bottom-up merge sort whose buckets hold chains of \<open>2 ^ i\<close> nodes. A chain is the
  nonempty list of its nodes; a bucket that was never written is \<^const>\<open>None\<close>.
\<close>

unbundle bit_operations_syntax

lemma unat_half: "unat (drop_bit (Suc 0) (m :: u32)) = unat m div 2"
  unfolding unat_drop_bit_eq by (simp add: drop_bit_eq_div)

lemma low_bit: "(m :: u32) AND 1 \<noteq> 0 \<longleftrightarrow> odd (unat m)"
proof -
  have "unat (m AND 1) = unat m mod 2" unfolding unsigned_and_eq by (simp add: and_one_eq)
  then show ?thesis by (metis unat_eq_zero odd_iff_mod_2_eq_one not_mod_2_eq_1_eq_0)
qed

section \<open>Operations\<close>

type_synonym 'a compare = "'a \<Rightarrow> 'a \<Rightarrow> int"

fun tommy_chain_merge :: "'a compare \<Rightarrow> 'a list \<Rightarrow> 'a list \<Rightarrow> 'a list" where
  "tommy_chain_merge cmp (x # xs) (y # ys) =
     (if cmp x y > 0 then y # (if ys = [] then x # xs else tommy_chain_merge cmp (x # xs) ys)
      else if xs = [] then x # y # ys else x # tommy_chain_merge cmp xs (y # ys))"
| "tommy_chain_merge cmp first second = first @ second"

definition tommy_chain_merge_degenerated :: "'a compare \<Rightarrow> 'a list \<Rightarrow> 'a list \<Rightarrow> 'a list" where
  "tommy_chain_merge_degenerated cmp first second =
     (if cmp (last first) (hd second) \<le> 0 then first @ second
      else if cmp (last second) (hd first) < 0 then second @ first
      else tommy_chain_merge cmp first second)"

abbreviation TOMMY_CHAIN_BIT_MAX :: nat where "TOMMY_CHAIN_BIT_MAX \<equiv> 32"

text \<open>The inner loop of \<open>tommy_chain_mergesort\<close>: the carry moves up through the full buckets.\<close>

function add_carry :: "'a compare \<Rightarrow> 'a list option list \<Rightarrow> nat \<Rightarrow> u32 \<Rightarrow> 'a list \<Rightarrow> 'a list option list option" where
  "add_carry cmp bits i msk carry =
     (if msk AND 1 \<noteq> 0 then
        if i < TOMMY_CHAIN_BIT_MAX then
          do { chain \<leftarrow> bits ! i;
               let merged = tommy_chain_merge_degenerated cmp chain carry;
               add_carry cmp (bits[i := Some merged]) (i + 1) (drop_bit 1 msk) merged }
        else None
      else if i < TOMMY_CHAIN_BIT_MAX then Some (bits[i := Some carry]) else None)"
  by pat_completeness auto
termination
proof (relation "measure (\<lambda>(cmp, bits, i, msk, carry). unat msk)", simp, clarsimp)
  fix msk :: u32
  assume "msk AND 1 \<noteq> 0"
  then have "msk \<noteq> 0" by auto
  then have "unat msk \<noteq> 0" by (simp add: unat_eq_zero)
  then show "unat (drop_bit (Suc 0) msk) < unat msk" by (simp add: unat_half)
qed

declare add_carry.simps [simp del]

fun add_nodes :: "'a compare \<Rightarrow> 'a list \<Rightarrow> 'a list option list \<Rightarrow> u32 \<Rightarrow> ('a list option list \<times> u32) option" where
  "add_nodes cmp [] bits counter = Some (bits, counter)"
| "add_nodes cmp (node # rest) bits counter =
     do { bits \<leftarrow> add_carry cmp bits 0 counter [node]; add_nodes cmp rest bits (counter + 1) }"

text \<open>The final loop: \<open>mask\<close> is never 0 in it.\<close>

function merge_buckets :: "'a compare \<Rightarrow> 'a list option list \<Rightarrow> nat \<Rightarrow> u32 \<Rightarrow> 'a list option" where
  "merge_buckets cmp bits i msk =
     (if i > TOMMY_CHAIN_BIT_MAX then None
      else if msk = 1 then bits ! i
      else if msk = 0 then None
      else let msk = drop_bit 1 msk in
        do { low \<leftarrow> bits ! i;
             chain \<leftarrow> (if msk AND 1 \<noteq> 0 then map_option (\<lambda>high. tommy_chain_merge_degenerated cmp high low) (bits ! (i + 1)) else Some low);
             merge_buckets cmp (bits[i + 1 := Some chain]) (i + 1) msk })"
  by pat_completeness auto
termination
proof (relation "measure (\<lambda>(cmp, bits, i, msk). unat msk)", simp, clarsimp)
  fix msk :: u32
  assume "msk \<noteq> 0"
  then have "unat msk \<noteq> 0" by (simp add: unat_eq_zero)
  then show "unat (drop_bit (Suc 0) msk) < unat msk" by (simp add: unat_half)
qed

declare merge_buckets.simps [simp del]

text \<open>The number of trailing zero bits, of at most 32.\<close>

fun trailing_zeros :: "nat \<Rightarrow> u32 \<Rightarrow> nat" where
  "trailing_zeros 0 value = 0"
| "trailing_zeros (Suc n) value = (if value AND 1 \<noteq> 0 then 0 else Suc (trailing_zeros n (drop_bit 1 value)))"

definition tommy_ctz_u32 :: "u32 \<Rightarrow> nat" where
  "tommy_ctz_u32 value = trailing_zeros 32 value"

definition tommy_chain_mergesort :: "'a compare \<Rightarrow> 'a list \<Rightarrow> 'a list option" where
  "tommy_chain_mergesort cmp chain =
     do { (bits, counter) \<leftarrow> add_nodes cmp chain (replicate (TOMMY_CHAIN_BIT_MAX + 1) None) 0;
          let i = tommy_ctz_u32 counter;
          merge_buckets cmp bits i (drop_bit i counter) }"

definition tommy_list_sort :: "'a compare \<Rightarrow> 'a list \<Rightarrow> 'a list option" where
  "tommy_list_sort cmp list = (if list = [] then Some [] else tommy_chain_mergesort cmp list)"

section \<open>Merging sorted chains\<close>

text \<open>A comparison function that compares by a key.\<close>

definition compares_by :: "('a \<Rightarrow> 'k :: linorder) \<Rightarrow> 'a compare \<Rightarrow> bool" where
  "compares_by key cmp = (\<forall>x y. (cmp x y > 0 \<longleftrightarrow> key y < key x) \<and> (cmp x y < 0 \<longleftrightarrow> key x < key y))"

lemma merge_perm: "mset (tommy_chain_merge cmp xs ys) = mset xs + mset ys"
  by (induction cmp xs ys rule: tommy_chain_merge.induct) auto

lemma merge_sorted:
  assumes "compares_by key cmp" "sorted (map key xs)" "sorted (map key ys)"
  shows "sorted (map key (tommy_chain_merge cmp xs ys))"
  using assms
proof (induction cmp xs ys rule: tommy_chain_merge.induct)
  case (1 cmp x xs y ys)
  have c: "cmp x y > 0 \<longleftrightarrow> key y < key x" using "1.prems"(1) by (simp add: compares_by_def)
  have s: "set (tommy_chain_merge cmp as bs) = set as \<union> set bs" for as bs
    using arg_cong [OF merge_perm [of cmp as bs], of set_mset] by simp
  show ?case using 1 c by (auto simp: s)
qed auto

lemma merge_stable:
  assumes "compares_by key cmp" "sorted (map key xs)" "sorted (map key ys)"
  shows "filter (\<lambda>x. key x = k) (tommy_chain_merge cmp xs ys) = filter (\<lambda>x. key x = k) xs @ filter (\<lambda>x. key x = k) ys"
  using assms
proof (induction cmp xs ys rule: tommy_chain_merge.induct)
  case (1 cmp x xs y ys)
  have c: "cmp x y > 0 \<longleftrightarrow> key y < key x" using "1.prems"(1) by (simp add: compares_by_def)
  have "filter (\<lambda>a. key a = key y) xs = []" if "key y < key x"
    using "1.prems"(2) that by (auto simp: filter_empty_conv)
  then show ?case using 1 c by auto
qed auto

lemma merge_degenerated:
  assumes "compares_by key cmp" "sorted (map key xs)" "sorted (map key ys)" "xs \<noteq> []" "ys \<noteq> []"
  shows "tommy_chain_merge_degenerated cmp xs ys = sort_key key (xs @ ys)"
proof -
  have c: "cmp x y > 0 \<longleftrightarrow> key y < key x" "cmp x y < 0 \<longleftrightarrow> key x < key y" for x y using assms(1) by (auto simp: compares_by_def)
  have top: "key x \<le> key (last zs)" "key (hd zs) \<le> key x" if "sorted (map key zs)" "x \<in> set zs" for x zs
    using that by (induction zs) (auto simp: last_conv_nth dest: sorted_nth_mono)
  consider "key (last xs) \<le> key (hd ys)" | "key (last ys) < key (hd xs)" "\<not> key (last xs) \<le> key (hd ys)"
    | "\<not> key (last ys) < key (hd xs)" "\<not> key (last xs) \<le> key (hd ys)" by blast
  then show ?thesis
  proof cases
    case 1
    then have "sorted (map key (xs @ ys))" using assms top(1) [OF assms(2)] top(2) [OF assms(3)] by (force simp: sorted_append)
    from sort_key_id_if_sorted [OF this] show ?thesis using 1 c by (simp add: tommy_chain_merge_degenerated_def not_less [symmetric])
  next
    case 2
    have less: "key y < key x" if "x \<in> set xs" "y \<in> set ys" for x y
      using 2(1) top(2) [OF assms(2) that(1)] top(1) [OF assms(3) that(2)] by order
    then have "sorted (map key (ys @ xs))" using assms by (force simp: sorted_append)
    moreover have "filter (\<lambda>x. key k = key x) (ys @ xs) = filter (\<lambda>x. key k = key x) (xs @ ys)" for k
    proof (cases "\<exists>x\<in>set xs. key k = key x")
      case True
      then have "filter (\<lambda>x. key k = key x) ys = []" using less by (force simp: filter_empty_conv)
      then show ?thesis by simp
    next
      case False
      then have "filter (\<lambda>x. key k = key x) xs = []" by (auto simp: filter_empty_conv)
      then show ?thesis by simp
    qed
    ultimately have "sort_key key (xs @ ys) = ys @ xs" by (intro properties_for_sort_key) auto
    then show ?thesis using 2 c by (simp add: tommy_chain_merge_degenerated_def not_less [symmetric])
  next
    case 3
    have "sort_key key (xs @ ys) = tommy_chain_merge cmp xs ys"
    proof (rule properties_for_sort_key)
      show "filter (\<lambda>x. key k = key x) (tommy_chain_merge cmp xs ys) = filter (\<lambda>x. key k = key x) (xs @ ys)" for k
        using merge_stable [OF assms(1-3), of "key k"] by (simp add: eq_commute)
    qed (simp_all add: merge_perm merge_sorted [OF assms(1-3)])
    then show ?thesis using 3 c by (simp add: tommy_chain_merge_degenerated_def not_less [symmetric])
  qed
qed

lemma filter_sort_key: "filter (\<lambda>x. key k = key x) (sort_key key zs) = filter (\<lambda>x. key k = key x) zs"
  using sort_key_stable [of key "key k" zs] by (simp add: eq_commute)

lemma merge_sorted_chains:
  assumes "compares_by key cmp" "xs \<noteq> []" "ys \<noteq> []"
  shows "tommy_chain_merge_degenerated cmp (sort_key key xs) (sort_key key ys) = sort_key key (xs @ ys)"
proof -
  have "sort_key key (sort_key key xs @ sort_key key ys) = sort_key key (xs @ ys)"
    by (rule properties_for_sort_key) (simp_all add: filter_sort_key)
  moreover have "sort_key key zs \<noteq> []" if "zs \<noteq> []" for zs using that by (metis set_sort set_empty)
  ultimately show ?thesis using merge_degenerated [OF assms(1), of "sort_key key xs" "sort_key key ys"] assms(2,3) by simp
qed


section \<open>The buckets\<close>

text \<open>The buckets from \<open>i\<close> on whose bit is set in the counter hold the nodes read so far, in sorted chains, the
  earlier nodes in the higher buckets.\<close>

inductive holds :: "('a \<Rightarrow> 'k :: linorder) \<Rightarrow> nat \<Rightarrow> nat \<Rightarrow> 'a list option list \<Rightarrow> 'a list \<Rightarrow> bool" for key where
  holds_none: "holds key 0 i bits []"
| holds_full: "odd n \<Longrightarrow> i < length bits \<Longrightarrow> bits ! i = Some (sort_key key ys) \<Longrightarrow> ys \<noteq> [] \<Longrightarrow> holds key (n div 2) (i + 1) bits xs \<Longrightarrow>
    holds key n i bits (xs @ ys)"
| holds_free: "even n \<Longrightarrow> 0 < n \<Longrightarrow> holds key (n div 2) (i + 1) bits xs \<Longrightarrow> holds key n i bits xs"

inductive_cases holds_oddE: "holds key n i bits xs"

lemma holds_update: "holds key n i bits xs \<Longrightarrow> j < i \<Longrightarrow> holds key n i (bits[j := c]) xs"
  by (induction rule: holds.induct) (auto intro: holds.intros)

lemma holds_odd:
  assumes "holds key n i bits xs" "odd n"
  obtains ys zs where "xs = zs @ ys" "ys \<noteq> []" "i < length bits" "bits ! i = Some (sort_key key ys)" "holds key (n div 2) (i + 1) bits zs"
  using assms by (auto elim: holds.cases)

lemma holds_even:
  assumes "holds key n i bits xs" "even n" "0 < n"
  shows "holds key (n div 2) (i + 1) bits xs"
  using assms by (auto elim: holds.cases)

lemma add_carry_holds:
  assumes "compares_by key cmp" "holds key (unat msk) i bits xs" "ys \<noteq> []" "length bits = 33" "unat msk + 1 < 2 ^ (32 - i)" "i \<le> 32"
  shows "\<exists>bits'. add_carry cmp bits i msk (sort_key key ys) = Some bits' \<and> length bits' = 33 \<and> holds key (unat msk + 1) i bits' (xs @ ys) \<and>
    (\<forall>j<i. bits' ! j = bits ! j)"
  using assms
proof (induction "unat msk" arbitrary: msk i bits xs ys rule: less_induct)
  case less
  have i: "i < 32" using less.prems(5) by (cases "i = 32") (use less.prems(6) in auto)
  show ?case
  proof (cases "odd (unat msk)")
    case False
    have h: "holds key (unat msk div 2) (i + 1) (bits[i := Some (sort_key key ys)]) xs"
    proof (cases "unat msk = 0")
      case True
      then show ?thesis using less.prems(2) by (auto elim: holds.cases intro: holds.intros)
    next
      case nz: False
      then have "holds key (unat msk div 2) (i + 1) bits xs" using holds_even [OF less.prems(2)] False by simp
      then show ?thesis by (rule holds_update) simp
    qed
    have "holds key (unat msk + 1) i (bits[i := Some (sort_key key ys)]) (xs @ ys)"
      by (rule holds_full) (use h False i less.prems(3,4) in \<open>auto\<close>)
    then show ?thesis using False i less.prems(4) low_bit [of msk] by (subst add_carry.simps) auto
  next
    case True
    then obtain us vs where v: "xs = vs @ us" "us \<noteq> []" "bits ! i = Some (sort_key key us)" "holds key (unat msk div 2) (i + 1) bits vs"
      using holds_odd [OF less.prems(2)] by blast
    have m: "tommy_chain_merge_degenerated cmp (sort_key key us) (sort_key key ys) = sort_key key (us @ ys)"
      by (rule merge_sorted_chains [OF less.prems(1) v(2) less.prems(3)])
    let ?b = "bits[i := Some (sort_key key (us @ ys))]"
    have h: "holds key (unat (drop_bit 1 msk)) (i + 1) ?b vs" using holds_update [OF v(4), of i] by (simp add: unat_half)
    have p: "(2 :: nat) ^ (32 - i) = 2 * 2 ^ (32 - (i + 1))" using i by (simp flip: power_Suc add: Suc_diff_Suc)
    have bound: "unat (drop_bit 1 msk) + 1 < 2 ^ (32 - (i + 1))" using less.prems(5) True unfolding p by (simp add: unat_half) presburger
    have "unat (drop_bit 1 msk) < unat msk" using odd_pos [OF True] by (simp add: unat_half)
    then obtain bits' where b': "add_carry cmp ?b (i + 1) (drop_bit 1 msk) (sort_key key (us @ ys)) = Some bits'" "length bits' = 33"
      "holds key (unat (drop_bit 1 msk) + 1) (i + 1) bits' (vs @ us @ ys)" "\<forall>j<i + 1. bits' ! j = ?b ! j"
      using less.hyps [OF _ less.prems(1) h _ _ bound, of "us @ ys"] v(2) less.prems(4) i by auto
    have half: "(unat msk + 1) div 2 = unat (drop_bit 1 msk) + 1" using True by (simp add: unat_half)
    have "holds key (unat msk + 1) i bits' (xs @ ys)"
      by (rule holds_free) (use True in simp, simp, unfold half v(1) append_assoc, rule b'(3))
    moreover have "\<forall>j<i. bits' ! j = bits ! j" using b'(4) by simp
    moreover have "add_carry cmp bits i msk (sort_key key ys) = Some bits'" using True i v(3) m b'(1) low_bit [of msk] by (subst add_carry.simps) simp
    ultimately show ?thesis using b'(2) by blast
  qed
qed


lemma add_nodes_holds:
  assumes "compares_by key cmp" "holds key (unat counter) 0 bits xs" "length bits = 33" "unat counter + length nodes < 2 ^ 32"
  shows "\<exists>bits'. add_nodes cmp nodes bits counter = Some (bits', counter + of_nat (length nodes)) \<and> length bits' = 33 \<and>
    holds key (unat counter + length nodes) 0 bits' (xs @ nodes)"
  using assms
proof (induction cmp nodes bits counter arbitrary: xs rule: add_nodes.induct)
  case (2 cmp node rest bits counter)
  obtain bits1 where b: "add_carry cmp bits 0 counter [node] = Some bits1" "length bits1 = 33" "holds key (unat counter + 1) 0 bits1 (xs @ [node])"
    using add_carry_holds [OF "2.prems"(1,2), of "[node]"] "2.prems"(3,4) by auto
  have u: "unat (counter + 1) = unat counter + 1" using "2.prems"(4) by (subst unat_word_ariths) simp
  have h: "holds key (unat (counter + 1)) 0 bits1 (xs @ [node])" unfolding u by (rule b(3))
  have "unat (counter + 1) + length rest < 2 ^ 32" unfolding u using "2.prems"(4) by simp
  from "2.IH" [OF b(1) "2.prems"(1) h b(2) this] show ?case using b(1) unfolding u by (simp add: algebra_simps)
qed simp

lemma merge_buckets_sorts:
  assumes "compares_by key cmp" "holds key (unat msk div 2) (i + 1) bits xs" "bits ! i = Some (sort_key key ys)" "ys \<noteq> []"
    and "length bits = 33" "msk \<noteq> 0" "unat msk < 2 ^ (33 - i)" "i \<le> 32"
  shows "merge_buckets cmp bits i msk = Some (sort_key key (xs @ ys))"
  using assms
proof (induction "unat msk" arbitrary: msk i bits xs ys rule: less_induct)
  case less
  show ?case
  proof (cases "msk = 1")
    case True
    then have "xs = []" using less.prems(2) by (auto elim: holds.cases)
    then show ?thesis using True less.prems(3,8) by (subst merge_buckets.simps) simp
  next
    case False
    have pos: "unat msk \<noteq> 0" "unat msk \<noteq> 1" using less.prems(6) False by (simp_all add: word_unat_eq_iff)
    let ?m = "drop_bit 1 msk" and ?m' = "unat msk div 2"
    have m: "unat ?m = ?m'" "?m' \<noteq> 0" "?m' < unat msk" using pos by (auto simp: unat_half)
    then have nz: "?m \<noteq> 0" by (metis unat_0)
    have i: "i < 32"
    proof (rule ccontr)
      assume "\<not> i < 32"
      then have "i = 32" using less.prems(8) by simp
      then show False using less.prems(7) pos by simp
    qed
    have p: "(2 :: nat) ^ (33 - i) = 2 * 2 ^ (33 - (i + 1))" using i by (simp flip: power_Suc add: Suc_diff_Suc)
    have bound: "unat ?m < 2 ^ (33 - (i + 1))" using less.prems(7) unfolding p m(1) by auto
    have step: "merge_buckets cmp (bits[i + 1 := Some (sort_key key zs)]) (i + 1) ?m = Some (sort_key key (vs @ zs))"
      if "holds key (?m' div 2) (i + 1 + 1) bits vs" "zs \<noteq> []" for vs zs
    proof -
      have h: "holds key (unat ?m div 2) (i + 1 + 1) (bits[i + 1 := Some (sort_key key zs)]) vs" unfolding m(1) by (rule holds_update [OF that(1)]) simp
      show ?thesis by (rule less.hyps [OF _ less.prems(1) h _ that(2) _ nz bound]) (use m less.prems(5) i in auto)
    qed
    show ?thesis
    proof (cases "odd ?m'")
      case True
      obtain us vs where v: "xs = vs @ us" "us \<noteq> []" "bits ! (i + 1) = Some (sort_key key us)" "holds key (?m' div 2) (i + 1 + 1) bits vs"
        using holds_odd [OF less.prems(2) True] by blast
      have "tommy_chain_merge_degenerated cmp (sort_key key us) (sort_key key ys) = sort_key key (us @ ys)"
        by (rule merge_sorted_chains [OF less.prems(1) v(2) less.prems(4)])
      then show ?thesis using step [OF v(4), of "us @ ys"] v less.prems(3,6) False i True low_bit [of ?m] m(1)
        by (subst merge_buckets.simps) simp
    next
      case even: False
      have "holds key (?m' div 2) (i + 1 + 1) bits xs" using holds_even [OF less.prems(2)] even m(2) by simp
      from step [OF this less.prems(4)] show ?thesis using less.prems(3,6) False i even low_bit [of ?m] m(1)
        by (subst merge_buckets.simps) simp
    qed
  qed
qed

lemma trailing_zeros_holds:
  assumes "unat v \<noteq> 0" "unat v < 2 ^ n"
  shows "odd (unat (drop_bit (trailing_zeros n v) v)) \<and> trailing_zeros n v < n \<and>
    (holds key (unat v) i bits xs \<longrightarrow> holds key (unat (drop_bit (trailing_zeros n v) v)) (i + trailing_zeros n v) bits xs)"
  using assms
proof (induction n arbitrary: v i)
  case (Suc n)
  show ?case
  proof (cases "odd (unat v)")
    case True
    then show ?thesis using low_bit [of v] by simp
  next
    case False
    have "unat (drop_bit 1 v) \<noteq> 0" "unat (drop_bit 1 v) < 2 ^ n" using Suc.prems False by (auto simp: unat_half elim!: evenE)
    from Suc.IH [OF this, of "i + 1"] show ?thesis using False low_bit [of v] holds_even [of key "unat v" i bits xs] Suc.prems(1)
      by (auto simp: unat_half)
  qed
qed simp


section \<open>Property\<close>

lemma list_sort_correct:
  assumes "compares_by key cmp" "length xs < 2 ^ 32"
  shows "tommy_list_sort cmp xs = Some (sort_key key xs)"
proof (cases "xs = []")
  case False
  have none: "holds key (unat (0 :: u32)) 0 (replicate 33 None) []" by (simp add: holds_none)
  obtain bits where b: "add_nodes cmp xs (replicate 33 None) 0 = Some (bits, of_nat (length xs))" "length bits = 33"
    "holds key (length xs) 0 bits xs"
    using add_nodes_holds [OF assms(1) none, of xs] assms(2) by auto
  let ?c = "of_nat (length xs) :: u32"
  let ?t = "tommy_ctz_u32 ?c"
  have u: "unat ?c = length xs" "unat ?c \<noteq> 0" "unat ?c < 2 ^ 32" using assms(2) False by (simp_all add: unat_of_nat take_bit_nat_eq_self_iff)
  have t: "odd (unat (drop_bit ?t ?c))" "?t < 32" "holds key (unat (drop_bit ?t ?c)) ?t bits xs"
    using trailing_zeros_holds [OF u(2,3), of key 0 bits xs] b(3) u(1) by (simp_all add: tommy_ctz_u32_def)
  obtain ys zs where y: "xs = zs @ ys" "ys \<noteq> []" "bits ! ?t = Some (sort_key key ys)" "holds key (unat (drop_bit ?t ?c) div 2) (?t + 1) bits zs"
    using holds_odd [OF t(3,1)] by blast
  have "unat (drop_bit ?t ?c) = unat ?c div 2 ^ ?t" unfolding unat_drop_bit_eq by (simp add: drop_bit_eq_div)
  also have "\<dots> < 2 ^ (33 - ?t)"
  proof -
    have "unat ?c < 2 ^ ?t * 2 ^ (33 - ?t)" using u(3) t(2) by (simp flip: power_add)
    then show ?thesis by (simp add: less_mult_imp_div_less mult.commute)
  qed
  finally have bound: "unat (drop_bit ?t ?c) < 2 ^ (33 - ?t)" .
  have nz: "drop_bit ?t ?c \<noteq> 0" using t(1) by (metis even_zero unat_0)
  have "merge_buckets cmp bits ?t (drop_bit ?t ?c) = Some (sort_key key (zs @ ys))"
    by (rule merge_buckets_sorts [OF assms(1) y(4,3,2) b(2) nz bound]) (use t(2) in simp)
  then show ?thesis using b(1) False y(1) by (simp add: tommy_list_sort_def tommy_chain_mergesort_def)
qed (simp add: tommy_list_sort_def)

text \<open>C23: the bottom-up merge sort of the list library is a stable sort: for every comparison function that compares
  by a key and every list of fewer than \<open>2 ^ 32\<close> nodes it ends with all buckets in bounds and returns the nodes
  in the order of their keys, equal ones in their former order.\<close>

theorem tommy_list_sort_stable:
  assumes "compares_by key cmp" "length xs < 2 ^ 32"
  shows "tommy_list_sort cmp xs = Some (sort_key key xs)"
  using assms by (rule list_sort_correct)

theorem tommy_list_sort_stable_witness:
  "tommy_list_sort (\<lambda>x y. int (fst x) - int (fst y)) [(3 :: nat, ''a''), (1, ''b''), (3, ''c''), (2, ''d''), (1, ''e'')] =
     Some [(1, ''b''), (1, ''e''), (2, ''d''), (3, ''a''), (3, ''c'')]"
proof -
  have "compares_by fst (\<lambda>x y :: nat \<times> string. int (fst x) - int (fst y))" by (auto simp: compares_by_def)
  from tommy_list_sort_stable [OF this, of "[(3, ''a''), (1, ''b''), (3, ''c''), (2, ''d''), (1, ''e'')]"] show ?thesis by simp
qed

end
