(* ===== verification/Rtr_Mgr.thy ===== *)
theory Rtr_Mgr
  imports Rtr_Fsm Tommy_Sort
begin

text \<open>
  The connection manager, after \<^verbatim>\<open>rtrlib/rtr_mgr.c\<close>: groups of RTR sockets ordered by preference, of
  which the most preferred one that works is in use. The groups live in a memory of their own (\<open>group_mem\<close>)
  and the list of the configuration holds pointers to them, since a group that has left the list is still used
  by \<open>rtr_mgr_remove_group\<close>; the sockets of a group are its elements. The tables live in memories of their
  own too, because configuration and sockets point to them: a pointer is uninitialised, NULL, or the index of
  a table. Reading an uninitialised pointer or a released group is undefined, hence \<^const>\<open>None\<close>.
  The callback that an RTR socket makes on every change of its state is \<open>rtr_mgr_cb\<close>; the only operation of
  the manager that changes the state of a socket is \<open>rtr_stop\<close>, so the model of it makes the callback.
\<close>

section \<open>State\<close>

datatype rtr_mgr_status = RTR_MGR_CLOSED | RTR_MGR_CONNECTING | RTR_MGR_ESTABLISHED | RTR_MGR_ERROR

fun rtr_mgr_status_to_str :: "rtr_mgr_status \<Rightarrow> string" where
  "rtr_mgr_status_to_str RTR_MGR_CLOSED = ''RTR_MGR_CLOSED''"
| "rtr_mgr_status_to_str RTR_MGR_CONNECTING = ''RTR_MGR_CONNECTING''"
| "rtr_mgr_status_to_str RTR_MGR_ESTABLISHED = ''RTR_MGR_ESTABLISHED''"
| "rtr_mgr_status_to_str RTR_MGR_ERROR = ''RTR_MGR_ERROR''"

datatype tbl_ptr = Uninit | Null_Ptr | Ptr nat

record mgr_socket = rtr_socket +
  ptr_pfx :: tbl_ptr
  ptr_spki :: tbl_ptr
  ptr_aspa :: tbl_ptr

record rtr_mgr_group =
  sockets :: "mgr_socket list"
  preference :: u8
  status :: rtr_mgr_status

type_synonym group_id = nat

text \<open>\<open>thread_answers\<close> lists, for the coming calls of \<open>rtr_start\<close>, whether the key for thread-specific data
  exists and the identity of the thread if it can be created; when it is used up every call succeeds.\<close>

record rtr_mgr_config =
  groups :: "group_id list option"
  group_mem :: "group_id \<rightharpoonup> rtr_mgr_group"
  next_group :: group_id
  len :: u32
  status_fp :: bool
  status_log :: "(group_id \<times> rtr_mgr_status \<times> socket_id option) list"
  conf_pfx :: tbl_ptr
  conf_spki :: tbl_ptr
  conf_aspa :: tbl_ptr
  pfx_mem :: "rtr_pfx_table list"
  spki_mem :: "rtr_spki_table list"
  aspa_mem :: "rtr_aspa_table list"
  thread_answers :: "(bool \<times> nat option) list"
  mgr_allocs :: mem

section \<open>Pointers\<close>

fun deref :: "tbl_ptr \<Rightarrow> 't list \<Rightarrow> 't option option" where
  "deref Uninit tbls = None"
| "deref Null_Ptr tbls = Some None"
| "deref (Ptr i) tbls = (if i < length tbls then Some (Some (tbls ! i)) else None)"

fun assign :: "tbl_ptr \<Rightarrow> 't option \<Rightarrow> 't list \<Rightarrow> 't list" where
  "assign (Ptr i) (Some t) tbls = tbls[i := t]"
| "assign p t tbls = tbls"

definition put_group :: "group_id \<Rightarrow> rtr_mgr_group \<Rightarrow> rtr_mgr_config \<Rightarrow> rtr_mgr_config" where
  "put_group gid g conf = conf\<lparr>group_mem := (group_mem conf)(gid \<mapsto> g)\<rparr>"

definition get_socket :: "rtr_mgr_config \<Rightarrow> group_id \<Rightarrow> nat \<Rightarrow> mgr_socket option" where
  "get_socket conf gid j =
     do { g \<leftarrow> group_mem conf gid; if j < length (sockets g) then Some (sockets g ! j) else None }"

definition put_socket :: "group_id \<Rightarrow> nat \<Rightarrow> mgr_socket \<Rightarrow> rtr_mgr_config \<Rightarrow> rtr_mgr_config" where
  "put_socket gid j s conf =
     (case group_mem conf gid of None \<Rightarrow> conf | Some g \<Rightarrow> put_group gid (g\<lparr>sockets := (sockets g)[j := s]\<rparr>) conf)"

text \<open>A socket together with the tables it points to, and back.\<close>

definition ctx_of :: "mgr_socket \<Rightarrow> tables \<Rightarrow> mem \<Rightarrow> rtr_ctx" where
  "ctx_of s tbls mem =
     (case tbls of (p, k, a) \<Rightarrow> rtr_socket.extend (rtr_socket.truncate s) (rtr_ctx.fields p k a mem []))"

definition socket_of :: "rtr_ctx \<Rightarrow> mgr_socket \<Rightarrow> mgr_socket" where
  "socket_of c s =
     rtr_socket.extend (rtr_socket.truncate c) (mgr_socket.fields (ptr_pfx s) (ptr_spki s) (ptr_aspa s))"

definition load_ctx :: "rtr_mgr_config \<Rightarrow> mgr_socket \<Rightarrow> rtr_ctx option" where
  "load_ctx conf s =
     do { p \<leftarrow> deref (ptr_pfx s) (pfx_mem conf);
          k \<leftarrow> deref (ptr_spki s) (spki_mem conf);
          a \<leftarrow> deref (ptr_aspa s) (aspa_mem conf);
          Some (ctx_of s (p, k, a) (mgr_allocs conf)) }"

definition store_ctx :: "rtr_ctx \<Rightarrow> mgr_socket \<Rightarrow> rtr_mgr_config \<Rightarrow> rtr_mgr_config" where
  "store_ctx c s conf =
     conf\<lparr>pfx_mem := assign (ptr_pfx s) (pfx_table c) (pfx_mem conf),
       spki_mem := assign (ptr_spki s) (spki_table c) (spki_mem conf),
       aspa_mem := assign (ptr_aspa s) (aspa_table c) (aspa_mem conf), mgr_allocs := allocs c\<rparr>"

section \<open>Groups\<close>

definition set_status :: "rtr_mgr_config \<Rightarrow> group_id \<Rightarrow> rtr_mgr_status \<Rightarrow> socket_id option \<Rightarrow> rtr_mgr_config option" where
  "set_status conf gid st sock =
     do { g \<leftarrow> group_mem conf gid;
          let conf = put_group gid (g\<lparr>status := st\<rparr>) conf;
          Some (if status_fp conf then conf\<lparr>status_log := status_log conf @ [(gid, st, sock)]\<rparr> else conf) }"

definition thread_answer :: "rtr_mgr_config \<Rightarrow> (bool \<times> nat option) \<times> rtr_mgr_config" where
  "thread_answer conf =
     (case thread_answers conf of [] \<Rightarrow> ((True, Some 1), conf)
      | ans # rest \<Rightarrow> (ans, conf\<lparr>thread_answers := rest\<rparr>))"

fun start_each :: "mgr_socket list \<Rightarrow> rtr_mgr_config \<Rightarrow> int \<times> mgr_socket list \<times> rtr_mgr_config" where
  "start_each [] conf = (RTR_SUCCESS, [], conf)"
| "start_each (s # rest) conf =
     (let ((key_ok, tid), conf) = thread_answer conf;
          (rv, c) = rtr_start (ctx_of s (None, None, None) (mgr_allocs conf)) key_ok tid;
          conf = conf\<lparr>mgr_allocs := allocs c\<rparr> in
      if rv \<noteq> 0 then (RTR_ERROR, socket_of c s # rest, conf)
      else let (rv, rest, conf) = start_each rest conf in (rv, socket_of c s # rest, conf))"

definition rtr_mgr_start_sockets :: "group_id \<Rightarrow> rtr_mgr_config \<Rightarrow> (int \<times> rtr_mgr_config) option" where
  "rtr_mgr_start_sockets gid conf =
     do { g \<leftarrow> group_mem conf gid;
          let (rv, ss, conf) = start_each (sockets g) conf;
          Some (if rv \<noteq> RTR_SUCCESS then (RTR_ERROR, put_group gid (g\<lparr>sockets := ss\<rparr>) conf)
                else (RTR_SUCCESS, put_group gid (g\<lparr>sockets := ss, status := RTR_MGR_CONNECTING\<rparr>) conf)) }"

fun rtr_mgr_init_sockets ::
  "mgr_socket list \<Rightarrow> rtr_mgr_config \<Rightarrow> u32 \<Rightarrow> u32 \<Rightarrow> u32 \<Rightarrow> rtr_interval_mode \<Rightarrow> int \<times> mgr_socket list" where
  "rtr_mgr_init_sockets [] conf refresh expire retry mode = (RTR_SUCCESS, [])"
| "rtr_mgr_init_sockets (s # rest) conf refresh expire retry mode =
     (let (rv, c) = rtr_init (ctx_of s (None, None, None) (mgr_allocs conf)) None (None, None, None) refresh expire retry mode True in
      if rv \<noteq> 0 then (rv, socket_of c s # rest)
      else let s = (socket_of c s)\<lparr>ptr_pfx := conf_pfx conf, ptr_spki := conf_spki conf, ptr_aspa := conf_aspa conf\<rparr>;
               (rv, rest) = rtr_mgr_init_sockets rest conf refresh expire retry mode in
           (rv, s # rest))"

definition rtr_mgr_config_status_is_synced :: "rtr_mgr_group \<Rightarrow> bool" where
  "rtr_mgr_config_status_is_synced g =
     list_all (\<lambda>s. last_update s \<noteq> 0 \<and> (state s = RTR_ESTABLISHED \<or> state s = RTR_RESET \<or> state s = RTR_SYNC)) (sockets g)"

definition rtr_mgr_cb_state_shutdown :: "socket_id \<Rightarrow> rtr_mgr_config \<Rightarrow> group_id \<Rightarrow> rtr_mgr_config option" where
  "rtr_mgr_cb_state_shutdown sock conf gid =
     do { g \<leftarrow> group_mem conf gid;
          if list_all (\<lambda>s. state s = RTR_SHUTDOWN) (sockets g) then set_status conf gid RTR_MGR_CLOSED (Some sock)
          else set_status conf gid (status g) (Some sock) }"

text \<open>\<open>rtr_stop\<close> on a socket of a group: the change of state with its callback, then the thread and the records.\<close>

definition stop_socket :: "group_id \<Rightarrow> nat \<Rightarrow> rtr_mgr_config \<Rightarrow> rtr_mgr_config option" where
  "stop_socket gid j conf =
     do { s \<leftarrow> get_socket conf gid j;
          let s' = rtr_change_socket_state s RTR_SHUTDOWN;
          let conf = put_socket gid j s' conf;
          conf \<leftarrow> (if state_log s' \<noteq> state_log s then rtr_mgr_cb_state_shutdown (self s) conf gid else Some conf);
          if thread_id s' \<noteq> 0 then
            do { c \<leftarrow> load_ctx conf s';
                 c \<leftarrow> stop_thread c;
                 Some (put_socket gid j (socket_of c s') (store_ctx c s' conf)) }
          else Some conf }"

fun stop_sockets :: "group_id \<Rightarrow> nat list \<Rightarrow> rtr_mgr_config \<Rightarrow> rtr_mgr_config option" where
  "stop_sockets gid [] conf = Some conf"
| "stop_sockets gid (j # js) conf = do { conf \<leftarrow> stop_socket gid j conf; stop_sockets gid js conf }"

definition stop_group :: "group_id \<Rightarrow> rtr_mgr_config \<Rightarrow> rtr_mgr_config option" where
  "stop_group gid conf = do { g \<leftarrow> group_mem conf gid; stop_sockets gid [0..<length (sockets g)] conf }"

section \<open>The callback of the sockets\<close>

fun close_groups :: "socket_id \<Rightarrow> rtr_mgr_config \<Rightarrow> group_id \<Rightarrow> group_id list \<Rightarrow> rtr_mgr_config option" where
  "close_groups sock conf gid [] = Some conf"
| "close_groups sock conf gid (cur # rest) =
     do { c \<leftarrow> group_mem conf cur;
          g \<leftarrow> group_mem conf gid;
          conf \<leftarrow> (if status c \<noteq> RTR_MGR_CLOSED \<and> cur \<noteq> gid \<and> preference c > preference g then
                    do { conf \<leftarrow> stop_group cur conf; set_status conf cur RTR_MGR_CLOSED (Some sock) }
                  else Some conf);
          close_groups sock conf gid rest }"

definition rtr_mgr_close_less_preferable_groups :: "socket_id \<Rightarrow> rtr_mgr_config \<Rightarrow> group_id \<Rightarrow> rtr_mgr_config option" where
  "rtr_mgr_close_less_preferable_groups sock conf gid = do { gids \<leftarrow> groups conf; close_groups sock conf gid gids }"

text \<open>The groups of the list, in its order.\<close>

fun read_groups :: "rtr_mgr_config \<Rightarrow> group_id list \<Rightarrow> (group_id \<times> rtr_mgr_group) list option" where
  "read_groups conf [] = Some []"
| "read_groups conf (gid # rest) =
     do { g \<leftarrow> group_mem conf gid; gs \<leftarrow> read_groups conf rest; Some ((gid, g) # gs) }"

definition listed_groups :: "rtr_mgr_config \<Rightarrow> (group_id \<times> rtr_mgr_group) list option" where
  "listed_groups conf = do { gids \<leftarrow> groups conf; read_groups conf gids }"

definition get_best_inactive_rtr_mgr_group :: "rtr_mgr_config \<Rightarrow> group_id \<Rightarrow> group_id option option" where
  "get_best_inactive_rtr_mgr_group conf gid =
     do { gs \<leftarrow> listed_groups conf;
          Some (map_option fst (find (\<lambda>(cur, g). cur \<noteq> gid \<and> status g = RTR_MGR_CLOSED) gs)) }"

definition is_some_rtr_mgr_group_established :: "rtr_mgr_config \<Rightarrow> bool option" where
  "is_some_rtr_mgr_group_established conf =
     do { gs \<leftarrow> listed_groups conf; Some (list_ex (\<lambda>(cur, g). status g = RTR_MGR_ESTABLISHED) gs) }"

text \<open>Every other group that is more preferable is in error or closed.\<close>

definition all_error :: "rtr_mgr_config \<Rightarrow> group_id \<Rightarrow> bool option" where
  "all_error conf gid =
     do { gs \<leftarrow> listed_groups conf;
          me \<leftarrow> group_mem conf gid;
          Some (\<not> list_ex (\<lambda>(cur, g). cur \<noteq> gid \<and> status g \<noteq> RTR_MGR_ERROR \<and> status g \<noteq> RTR_MGR_CLOSED \<and>
                                    preference g < preference me) gs) }"

definition rtr_mgr_cb_state_established :: "socket_id \<Rightarrow> rtr_mgr_config \<Rightarrow> group_id \<Rightarrow> rtr_mgr_config option" where
  "rtr_mgr_cb_state_established sock conf gid =
     do { g \<leftarrow> group_mem conf gid;
          if status g = RTR_MGR_CONNECTING then
            if rtr_mgr_config_status_is_synced g then
              do { conf \<leftarrow> set_status conf gid RTR_MGR_ESTABLISHED (Some sock);
                   rtr_mgr_close_less_preferable_groups sock conf gid }
            else set_status conf gid RTR_MGR_CONNECTING (Some sock)
          else if status g = RTR_MGR_ERROR then
            do { errs \<leftarrow> all_error conf gid;
                 if errs \<and> rtr_mgr_config_status_is_synced g then
                   do { conf \<leftarrow> set_status conf gid RTR_MGR_ESTABLISHED (Some sock);
                        rtr_mgr_close_less_preferable_groups sock conf gid }
                 else set_status conf gid RTR_MGR_ERROR (Some sock) }
          else Some conf }"

definition rtr_mgr_cb_state_connecting :: "socket_id \<Rightarrow> rtr_mgr_config \<Rightarrow> group_id \<Rightarrow> rtr_mgr_config option" where
  "rtr_mgr_cb_state_connecting sock conf gid =
     do { g \<leftarrow> group_mem conf gid;
          if status g = RTR_MGR_ERROR then set_status conf gid RTR_MGR_ERROR (Some sock)
          else set_status conf gid RTR_MGR_CONNECTING (Some sock) }"

definition rtr_mgr_cb_state_error :: "socket_id \<Rightarrow> rtr_mgr_config \<Rightarrow> group_id \<Rightarrow> rtr_mgr_config option" where
  "rtr_mgr_cb_state_error sock conf gid =
     do { conf \<leftarrow> set_status conf gid RTR_MGR_ERROR (Some sock);
          est \<leftarrow> is_some_rtr_mgr_group_established conf;
          if \<not> est then
            do { next_gid \<leftarrow> get_best_inactive_rtr_mgr_group conf gid;
                 case next_gid of
                   Some n \<Rightarrow> map_option snd (rtr_mgr_start_sockets n conf)
                 | None \<Rightarrow> Some conf }
          else Some conf }"

definition rtr_mgr_cb :: "socket_id \<Rightarrow> rtr_socket_state \<Rightarrow> rtr_mgr_config \<Rightarrow> group_id option \<Rightarrow> rtr_mgr_config option" where
  "rtr_mgr_cb sock st conf data_group =
     (case data_group of
        None \<Rightarrow> Some conf
      | Some gid \<Rightarrow>
          (case st of
             RTR_SHUTDOWN \<Rightarrow> rtr_mgr_cb_state_shutdown sock conf gid
           | RTR_ESTABLISHED \<Rightarrow> rtr_mgr_cb_state_established sock conf gid
           | RTR_CONNECTING \<Rightarrow> rtr_mgr_cb_state_connecting sock conf gid
           | RTR_ERROR_FATAL \<Rightarrow> rtr_mgr_cb_state_error sock conf gid
           | RTR_ERROR_TRANSPORT \<Rightarrow> rtr_mgr_cb_state_error sock conf gid
           | RTR_ERROR_NO_DATA_AVAIL \<Rightarrow> rtr_mgr_cb_state_error sock conf gid
           | _ \<Rightarrow> do { g \<leftarrow> group_mem conf gid; set_status conf gid (status g) (Some sock) }))"

section \<open>Setting up\<close>

definition rtr_mgr_config_cmp :: "rtr_mgr_group \<Rightarrow> rtr_mgr_group \<Rightarrow> int" where
  "rtr_mgr_config_cmp a b =
     (if preference a > preference b then 1 else if preference a < preference b then -1 else 0)"

definition rtr_mgr_config_cmp_tommy :: "group_id \<times> rtr_mgr_group \<Rightarrow> group_id \<times> rtr_mgr_group \<Rightarrow> int" where
  "rtr_mgr_config_cmp_tommy a b = rtr_mgr_config_cmp (snd a) (snd b)"

definition sort_groups :: "rtr_mgr_config \<Rightarrow> rtr_mgr_config option" where
  "sort_groups conf =
     do { gs \<leftarrow> listed_groups conf;
          gs \<leftarrow> tommy_list_sort rtr_mgr_config_cmp_tommy gs;
          Some (conf\<lparr>groups := Some (map fst gs)\<rparr>) }"

text \<open>The check of the sorted array: preferences differ and every group has a socket.\<close>

fun groups_valid :: "u8 option \<Rightarrow> rtr_mgr_group list \<Rightarrow> bool" where
  "groups_valid last_preference [] = True"
| "groups_valid last_preference (g # gs) =
     (last_preference \<noteq> Some (preference g) \<and> sockets g \<noteq> [] \<and> groups_valid (Some (preference g)) gs)"

text \<open>The configuration as it comes from the allocator: only \<open>len\<close> is written. \<open>zeroed\<close> tells whether the
  memory holds zeros, \<open>lock_ok\<close> whether the lock could be created, \<open>threads\<close> what the coming thread creations
  answer; an error exit frees \<open>config->groups\<close>.
  The result has the sorted array too.\<close>

definition raw_config :: "bool \<Rightarrow> (bool \<times> nat option) list \<Rightarrow> mem \<Rightarrow> u32 \<Rightarrow> rtr_mgr_config" where
  "raw_config zeroed threads mem n =
     (let p = (if zeroed then Null_Ptr else Uninit) in
      \<lparr>groups = None, group_mem = Map.empty, next_group = 0, len = n, status_fp = False, status_log = [],
       conf_pfx = p, conf_spki = p, conf_aspa = p, pfx_mem = [], spki_mem = [], aspa_mem = [],
       thread_answers = threads, mgr_allocs = mem\<rparr>)"

definition rtr_mgr_init ::
  "bool \<Rightarrow> bool \<Rightarrow> (bool \<times> nat option) list \<Rightarrow> mem \<Rightarrow> rtr_mgr_group list \<Rightarrow> bool
     \<Rightarrow> (int \<times> rtr_mgr_group list \<times> rtr_mgr_config option) option" where
  "rtr_mgr_init zeroed lock_ok threads mem gs fp =
     (if gs = [] then Some (RTR_ERROR, gs, None)
      else let (ok, mem) = rtr_malloc mem in
        if \<not> ok then Some (RTR_ERROR, gs, None)
        else let conf = raw_config zeroed threads mem (of_nat (length gs));
                 sorted_gs = sort_key preference gs in
          if \<not> lock_ok then (if zeroed then Some (RTR_ERROR, gs, None) else None)
          else if groups_valid None sorted_gs then Some (RTR_SUCCESS, sorted_gs, Some (conf\<lparr>status_fp := fp\<rparr>))
          else if zeroed then Some (RTR_ERROR, sorted_gs, None)
          else None)"

text \<open>A copy of a group of the caller, appended to the list: whether it was added and the error code at
  hand, which is still that of \<open>rtr_mgr_init_sockets\<close> when there is no memory for the list node.\<close>

definition insert_group :: "rtr_mgr_config \<Rightarrow> rtr_mgr_group \<Rightarrow> u32 \<Rightarrow> u32 \<Rightarrow> u32 \<Rightarrow> bool \<times> int \<times> rtr_mgr_config" where
  "insert_group conf g refresh expire retry =
     (let (ok, mem) = rtr_malloc (mgr_allocs conf); conf = conf\<lparr>mgr_allocs := mem\<rparr> in
      if \<not> ok then (False, RTR_ERROR, conf)
      else let (rv, ss) = rtr_mgr_init_sockets (sockets g) conf refresh expire retry RTR_INTERVAL_MODE_DEFAULT_MIN_MAX in
        if rv \<noteq> 0 then (False, rv, conf)
        else let (ok, mem) = rtr_malloc (mgr_allocs conf); conf = conf\<lparr>mgr_allocs := mem\<rparr> in
          if \<not> ok then (False, rv, conf)
          else let gid = next_group conf in
            (True, rv,
             put_group gid (g\<lparr>sockets := ss, status := RTR_MGR_CLOSED\<rparr>)
               (conf\<lparr>next_group := gid + 1, groups := map_option (\<lambda>gids. gids @ [gid]) (groups conf)\<rparr>)))"

fun insert_groups :: "rtr_mgr_config \<Rightarrow> rtr_mgr_group list \<Rightarrow> u32 \<Rightarrow> u32 \<Rightarrow> u32 \<Rightarrow> bool \<times> rtr_mgr_config" where
  "insert_groups conf [] refresh expire retry = (True, conf)"
| "insert_groups conf (g # gs) refresh expire retry =
     (let (added, rv, conf) = insert_group conf g refresh expire retry in
      if \<not> added then (False, conf) else insert_groups conf gs refresh expire retry)"

definition rtr_mgr_setup_sockets ::
  "rtr_mgr_config \<Rightarrow> rtr_mgr_group list \<Rightarrow> u32 \<Rightarrow> u32 \<Rightarrow> u32 \<Rightarrow> (int \<times> rtr_mgr_config) option" where
  "rtr_mgr_setup_sockets conf gs refresh expire retry =
     (let (ok, mem) = rtr_malloc (mgr_allocs conf); conf = conf\<lparr>len := of_nat (length gs), mgr_allocs := mem\<rparr> in
      if \<not> ok then Some (RTR_ERROR, conf\<lparr>groups := None\<rparr>)
      else let (all_added, conf) = insert_groups (conf\<lparr>groups := Some []\<rparr>) gs refresh expire retry in
        if \<not> all_added then Some (RTR_ERROR, conf)
        else do { conf \<leftarrow> sort_groups conf; Some (RTR_SUCCESS, conf) })"

definition rtr_mgr_add_roa_support :: "rtr_mgr_config option \<Rightarrow> bool \<Rightarrow> int \<times> rtr_mgr_config option" where
  "rtr_mgr_add_roa_support config fp =
     (case config of
        None \<Rightarrow> (RTR_ERROR, None)
      | Some conf \<Rightarrow>
          let (ok, mem) = rtr_malloc (mgr_allocs conf); conf = conf\<lparr>mgr_allocs := mem\<rparr> in
          if \<not> ok then (RTR_ERROR, Some conf)
          else (RTR_SUCCESS, Some (conf\<lparr>pfx_mem := pfx_mem conf @ [rtr_pfx_table_init fp], conf_pfx := Ptr (length (pfx_mem conf))\<rparr>)))"

definition rtr_mgr_add_aspa_support :: "rtr_mgr_config option \<Rightarrow> bool \<Rightarrow> int \<times> rtr_mgr_config option" where
  "rtr_mgr_add_aspa_support config fp =
     (case config of
        None \<Rightarrow> (RTR_ERROR, None)
      | Some conf \<Rightarrow>
          let (ok, mem) = rtr_malloc (mgr_allocs conf); conf = conf\<lparr>mgr_allocs := mem\<rparr> in
          if \<not> ok then (RTR_ERROR, Some conf)
          else (RTR_SUCCESS, Some (conf\<lparr>aspa_mem := aspa_mem conf @ [rtr_aspa_table_init fp], conf_aspa := Ptr (length (aspa_mem conf))\<rparr>)))"

text \<open>The return values are \<open>RTR_ASPA_ERROR\<close> and \<open>RTR_ASPA_SUCCESS\<close>, which have the values of
  \<open>RTR_ERROR\<close> and \<open>RTR_SUCCESS\<close>.\<close>

definition rtr_mgr_add_spki_support :: "rtr_mgr_config option \<Rightarrow> bool \<Rightarrow> int \<times> rtr_mgr_config option" where
  "rtr_mgr_add_spki_support config fp =
     (case config of
        None \<Rightarrow> (RTR_ERROR, None)
      | Some conf \<Rightarrow>
          let (ok, mem) = rtr_malloc (mgr_allocs conf); conf = conf\<lparr>mgr_allocs := mem\<rparr> in
          if \<not> ok then (RTR_ERROR, Some conf)
          else (RTR_SUCCESS, Some (conf\<lparr>spki_mem := spki_mem conf @ [spki_table_init fp], conf_spki := Ptr (length (spki_mem conf))\<rparr>)))"

section \<open>Operations on a running manager\<close>

definition rtr_mgr_get_first_group :: "rtr_mgr_config \<Rightarrow> group_id option" where
  "rtr_mgr_get_first_group conf =
     do { gids \<leftarrow> groups conf; case gids of [] \<Rightarrow> None | gid # _ \<Rightarrow> Some gid }"

definition rtr_mgr_start :: "rtr_mgr_config \<Rightarrow> (int \<times> rtr_mgr_config) option" where
  "rtr_mgr_start conf = do { best \<leftarrow> rtr_mgr_get_first_group conf; rtr_mgr_start_sockets best conf }"

definition rtr_mgr_conf_in_sync :: "rtr_mgr_config \<Rightarrow> bool option" where
  "rtr_mgr_conf_in_sync conf =
     do { gs \<leftarrow> listed_groups conf; Some (list_ex (\<lambda>(gid, g). list_all (\<lambda>s. last_update s \<noteq> 0) (sockets g)) gs) }"

text \<open>What the tables of the configuration are when their memory is released; the groups of the list go with it.\<close>

definition rtr_mgr_free :: "rtr_mgr_config \<Rightarrow> tables option" where
  "rtr_mgr_free conf =
     do { p \<leftarrow> deref (conf_pfx conf) (pfx_mem conf);
          p \<leftarrow> rtr_pfx_table_free p;
          k \<leftarrow> deref (conf_spki conf) (spki_mem conf);
          let k = spki_table_free k;
          a \<leftarrow> deref (conf_aspa conf) (aspa_mem conf);
          (a, mem) \<leftarrow> rtr_aspa_table_free a True (mgr_allocs conf);
          gs \<leftarrow> listed_groups conf;
          Some (p, k, a) }"

definition rtr_mgr_roa_validate ::
  "rtr_mgr_config \<Rightarrow> u32 \<Rightarrow> rtr_ip_addr \<Rightarrow> nat \<Rightarrow> (rtr_pfx_rtvals \<times> rtr_pfxv_state option) option" where
  "rtr_mgr_roa_validate conf asn prefix mask_len =
     do { tbl \<leftarrow> deref (conf_pfx conf) (pfx_mem conf);
          if tbl = None then Some (RTR_PFX_NOT_INITIALIZED, None) else rtr_pfx_table_validate tbl asn prefix mask_len }"

definition rtr_mgr_aspa_validate ::
  "rtr_mgr_config \<Rightarrow> u32 list \<Rightarrow> rtr_aspa_direction \<Rightarrow> (rtr_aspa_status \<times> rtr_aspa_verification_result option) option" where
  "rtr_mgr_aspa_validate conf path direction =
     do { tbl \<leftarrow> deref (conf_aspa conf) (aspa_mem conf);
          if tbl = None then Some (RTR_ASPA_NOT_INITIALIZED, None)
          else Some (RTR_ASPA_SUCCESS, Some (rtr_aspa_verify_as_path tbl path direction)) }"

definition rtr_mgr_bgpsec_get_spki ::
  "rtr_mgr_config \<Rightarrow> u32 \<Rightarrow> u8 list \<Rightarrow> (rtr_spki_rtvals \<times> rtr_spki_record list option \<times> mem) option" where
  "rtr_mgr_bgpsec_get_spki conf asn ski =
     do { tbl \<leftarrow> deref (conf_spki conf) (spki_mem conf); tbl \<leftarrow> tbl; spki_table_get_all tbl asn ski (mgr_allocs conf) }"

fun stop_groups :: "group_id list \<Rightarrow> rtr_mgr_config \<Rightarrow> rtr_mgr_config option" where
  "stop_groups [] conf = Some conf"
| "stop_groups (gid # rest) conf = do { conf \<leftarrow> stop_group gid conf; stop_groups rest conf }"

definition rtr_mgr_stop :: "rtr_mgr_config \<Rightarrow> rtr_mgr_config option" where
  "rtr_mgr_stop conf = do { gids \<leftarrow> groups conf; stop_groups gids conf }"

text \<open>The intervals of the existing groups (refresh, retry, expire); \<open>Inl\<close> when the preference is taken.\<close>

fun group_intervals :: "(group_id \<times> rtr_mgr_group) list \<Rightarrow> u8 \<Rightarrow> u32 \<times> u32 \<times> u32 \<Rightarrow> (unit + u32 \<times> u32 \<times> u32) option" where
  "group_intervals [] pref iv = Some (Inr iv)"
| "group_intervals ((gid, g) # rest) pref (refresh, retry, expire) =
     (if preference g = pref then Some (Inl ())
      else case sockets g of
        [] \<Rightarrow> None
      | s # _ \<Rightarrow> group_intervals rest pref
                 (if refresh_interval s \<noteq> 0 then refresh_interval s else refresh,
                  if retry_interval s \<noteq> 0 then retry_interval s else retry,
                  if expire_interval s \<noteq> 0 then expire_interval s else expire))"

text \<open>Starting the most preferred group if it is closed, the end of adding and removing.\<close>

definition start_best :: "rtr_mgr_config \<Rightarrow> rtr_mgr_config option" where
  "start_best conf =
     do { best \<leftarrow> rtr_mgr_get_first_group conf;
          g \<leftarrow> group_mem conf best;
          if status g = RTR_MGR_CLOSED then map_option snd (rtr_mgr_start_sockets best conf) else Some conf }"

definition rtr_mgr_add_group :: "rtr_mgr_config \<Rightarrow> rtr_mgr_group \<Rightarrow> (int \<times> rtr_mgr_config) option" where
  "rtr_mgr_add_group conf new_group =
     do { gs \<leftarrow> listed_groups conf;
          iv \<leftarrow> group_intervals gs (preference new_group) (3600, 600, 7200);
          case iv of
            Inl _ \<Rightarrow> Some (RTR_INVALID_PARAM, conf)
          | Inr (refresh, retry, expire) \<Rightarrow>
              let (added, rv, conf) = insert_group conf new_group refresh expire retry in
              if \<not> added then Some (rv, conf)
              else do { conf \<leftarrow> sort_groups (conf\<lparr>len := len conf + 1\<rparr>);
                        conf \<leftarrow> start_best conf;
                        Some (RTR_SUCCESS, conf) } }"

definition rtr_mgr_remove_group :: "rtr_mgr_config \<Rightarrow> u32 \<Rightarrow> (int \<times> rtr_mgr_config) option" where
  "rtr_mgr_remove_group conf pref =
     (if len conf = 1 then Some (RTR_ERROR, conf)
      else do {
        gs \<leftarrow> listed_groups conf;
        case find (\<lambda>(gid, g). ucast (preference g) = pref) gs of
          None \<Rightarrow> Some (RTR_ERROR, conf)
        | Some (gid, g) \<Rightarrow>
            do { let conf = conf\<lparr>groups := map_option (remove1 gid) (groups conf), len := len conf - 1\<rparr>;
                 conf \<leftarrow> (if status g \<noteq> RTR_MGR_CLOSED
                          then do { conf \<leftarrow> stop_group gid conf; set_status conf gid RTR_MGR_CLOSED None }
                          else Some conf);
                 conf \<leftarrow> start_best conf;
                 Some (RTR_SUCCESS, conf\<lparr>group_mem := (group_mem conf)(gid := None)\<rparr>) } })"

definition rtr_mgr_for_each_group :: "rtr_mgr_config \<Rightarrow> (rtr_mgr_group \<Rightarrow> 'd \<Rightarrow> 'd) \<Rightarrow> 'd \<Rightarrow> (int \<times> 'd) option" where
  "rtr_mgr_for_each_group conf fp data =
     do { gs \<leftarrow> listed_groups conf; Some (RTR_SUCCESS, fold (\<lambda>(gid, g). fp g) gs data) }"

definition rtr_mgr_roa_for_each_ipv4_record ::
  "rtr_mgr_config \<Rightarrow> (rtr_pfx_record \<Rightarrow> 's \<Rightarrow> 's option) \<Rightarrow> 's \<Rightarrow> (rtr_pfx_rtvals \<times> 's) option" where
  "rtr_mgr_roa_for_each_ipv4_record conf fp data =
     do { tbl \<leftarrow> deref (conf_pfx conf) (pfx_mem conf); rtr_pfx_table_for_each_ipv4_record tbl fp data }"

definition rtr_mgr_roa_for_each_ipv6_record ::
  "rtr_mgr_config \<Rightarrow> (rtr_pfx_record \<Rightarrow> 's \<Rightarrow> 's option) \<Rightarrow> 's \<Rightarrow> (rtr_pfx_rtvals \<times> 's) option" where
  "rtr_mgr_roa_for_each_ipv6_record conf fp data =
     do { tbl \<leftarrow> deref (conf_pfx conf) (pfx_mem conf); rtr_pfx_table_for_each_ipv6_record tbl fp data }"

end
