(* ===== verification/Mgr_Frames.thy ===== *)
theory Mgr_Frames
  imports Rtr_Mgr
begin

text \<open>
  What the operations of the connection manager change and what they leave alone: the records that stay when
  sockets are stopped, the effect of stopping a socket or a group, of closing the less preferable groups, and
  of starting a group.
\<close>

section \<open>Tables behind pointers\<close>

text \<open>No record is new, and only records of sockets in \<open>S\<close> have gone.\<close>

definition kept :: "('r \<Rightarrow> socket_id) \<Rightarrow> ('t \<Rightarrow> 'r set) \<Rightarrow> socket_id set \<Rightarrow> 't list \<Rightarrow> 't list \<Rightarrow> bool" where
  "kept owner recs S old new =
     (length new = length old \<and>
      (\<forall>i<length old. recs (new ! i) \<subseteq> recs (old ! i) \<and> (\<forall>r\<in>recs (old ! i). owner r \<notin> S \<longrightarrow> r \<in> recs (new ! i))))"

lemma kept_refl [simp]: "kept owner recs S tbls tbls"
  by (simp add: kept_def)

lemma kept_trans: "kept owner recs S a b \<Longrightarrow> kept owner recs T b c \<Longrightarrow> kept owner recs (S \<union> T) a c"
  by (auto simp: kept_def) blast+

lemma kept_mono: "kept owner recs S a b \<Longrightarrow> S \<subseteq> T \<Longrightarrow> kept owner recs T a b"
  by (auto simp: kept_def)

lemma kept_assign:
  assumes "deref p tbls = Some t" "rel_option (\<lambda>x y. recs y = {r \<in> recs x. owner r \<noteq> me}) t t'"
  shows "kept owner recs {me} tbls (assign p t' tbls)"
  using assms by (cases p; cases t; cases t') (auto simp: kept_def nth_list_update split: if_splits)

lemma deref_assign:
  assumes "deref p tbls = Some t" "rel_option R t t'"
  shows "deref p (assign p t' tbls) = Some t'"
  using assms by (cases p; cases t; cases t') (auto split: if_splits)

lemma set_assign:
  assumes "deref p tbls = Some t" "rel_option R t t'" "\<And>x y. R x y \<Longrightarrow> P y" "\<forall>x\<in>set tbls. P x"
  shows "\<forall>x\<in>set (assign p t' tbls). P x"
  using assms by (cases p; cases t; cases t') (auto split: if_splits dest!: set_update_subset_insert [THEN subsetD])

lemma deref_same_length: "length a = length b \<Longrightarrow> deref p a \<noteq> None \<longleftrightarrow> deref p b \<noteq> None"
  by (cases p) auto

lemma deref_in_set: "deref p tbls = Some (Some t) \<Longrightarrow> t \<in> set tbls"
  by (cases p) (auto split: if_splits)

definition aspa_recs :: "rtr_aspa_table \<Rightarrow> (socket_id \<times> rtr_aspa_record) set" where
  "aspa_recs a = {(me, r). r \<in> set (socket_records a me)}"

definition aspa_fine :: "rtr_aspa_table \<Rightarrow> bool" where
  "aspa_fine a = (store_ok a \<and> one_node_each a \<and> \<not> update_lock a)"

definition heap_ok :: "rtr_mgr_config \<Rightarrow> bool" where
  "heap_ok conf =
     ((\<forall>p\<in>set (pfx_mem conf). pfx_inv p) \<and> (\<forall>k\<in>set (spki_mem conf). spki_inv k) \<and> (\<forall>a\<in>set (aspa_mem conf). aspa_fine a))"

definition records_kept :: "socket_id set \<Rightarrow> rtr_mgr_config \<Rightarrow> rtr_mgr_config \<Rightarrow> bool" where
  "records_kept S conf conf' =
     (kept pr_socket (\<lambda>t. set (pfx_records t)) S (pfx_mem conf) (pfx_mem conf') \<and>
      kept sr_socket (\<lambda>t. set (spki_records t)) S (spki_mem conf) (spki_mem conf') \<and>
      kept fst aspa_recs S (aspa_mem conf) (aspa_mem conf'))"

lemma records_kept_refl [simp]: "records_kept S conf conf"
  by (simp add: records_kept_def)

lemma records_kept_trans: "records_kept S a b \<Longrightarrow> records_kept T b c \<Longrightarrow> records_kept (S \<union> T) a c"
  unfolding records_kept_def by (blast intro: kept_trans)

lemma records_kept_mono: "records_kept S a b \<Longrightarrow> S \<subseteq> T \<Longrightarrow> records_kept T a b"
  unfolding records_kept_def by (blast intro: kept_mono)

text \<open>The tables a socket points to hold no record of it.\<close>

definition no_records :: "rtr_mgr_config \<Rightarrow> mgr_socket \<Rightarrow> bool" where
  "no_records conf s =
     ((\<forall>t. deref (ptr_pfx s) (pfx_mem conf) = Some (Some t) \<longrightarrow> (\<forall>r\<in>set (pfx_records t). pr_socket r \<noteq> self s)) \<and>
      (\<forall>t. deref (ptr_spki s) (spki_mem conf) = Some (Some t) \<longrightarrow> (\<forall>r\<in>set (spki_records t). sr_socket r \<noteq> self s)) \<and>
      (\<forall>t. deref (ptr_aspa s) (aspa_mem conf) = Some (Some t) \<longrightarrow> (\<forall>r\<in>aspa_recs t. fst r \<noteq> self s)))"

lemma none_left:
  assumes "kept owner recs S a b" "\<forall>t. deref p a = Some (Some t) \<longrightarrow> (\<forall>r\<in>recs t. P r)"
  shows "\<forall>t. deref p b = Some (Some t) \<longrightarrow> (\<forall>r\<in>recs t. P r)"
  using assms by (cases p) (auto simp: kept_def split: if_splits)

lemma no_records_kept: "records_kept S conf conf' \<Longrightarrow> no_records conf s \<Longrightarrow> no_records conf' s"
  unfolding records_kept_def no_records_def by (intro conjI; elim conjE; rule none_left, assumption, assumption)

definition ptrs_ok :: "rtr_mgr_config \<Rightarrow> mgr_socket \<Rightarrow> bool" where
  "ptrs_ok conf s =
     (deref (ptr_pfx s) (pfx_mem conf) \<noteq> None \<and> deref (ptr_spki s) (spki_mem conf) \<noteq> None \<and> deref (ptr_aspa s) (aspa_mem conf) \<noteq> None)"

lemma records_kept_ptrs: "records_kept S conf conf' \<Longrightarrow> ptrs_ok conf' s = ptrs_ok conf s"
  unfolding records_kept_def kept_def ptrs_ok_def
  by (metis deref_same_length)

section \<open>Stopping\<close>

lemma src_remove_all_opt:
  assumes "pred_option pfx_inv (pfx_table s)" "pred_option spki_inv (spki_table s)" "pred_option aspa_fine (aspa_table s)" "False \<notin> set (allocs s)"
  shows "\<exists>p k a mem. src_remove_all s = Some (s\<lparr>pfx_table := p, spki_table := k, aspa_table := a, allocs := mem\<rparr>) \<and> False \<notin> set mem \<and>
    rel_option (\<lambda>x y. pfx_inv y \<and> set (pfx_records y) = {r \<in> set (pfx_records x). pr_socket r \<noteq> self s}) (pfx_table s) p \<and>
    rel_option (\<lambda>x y. spki_inv y \<and> set (spki_records y) = {r \<in> set (spki_records x). sr_socket r \<noteq> self s}) (spki_table s) k \<and>
    rel_option (\<lambda>x y. aspa_fine y \<and> aspa_recs y = {r \<in> aspa_recs x. fst r \<noteq> self s}) (aspa_table s) a"
proof -
  obtain rv p mem1 where p: "rtr_pfx_table_src_remove (pfx_table s) (self s) (allocs s) = Some (rv, p, mem1)" "False \<notin> set mem1"
    "rel_option (\<lambda>x y. pfx_inv y \<and> set (pfx_records y) = {r \<in> set (pfx_records x). pr_socket r \<noteq> self s}) (pfx_table s) p"
  proof (cases "pfx_table s")
    case (Some t)
    obtain rv t' mem1 where r: "rtr_pfx_table_src_remove (Some t) (self s) (allocs s) = Some (rv, Some t', mem1)" "src_removed (self s) (allocs s) t rv t' mem1"
      using rtr_pfx_table_src_remove_outcome assms(1) Some by fastforce
    then have "mset (pfx_records t') = filter_mset (\<lambda>r. pr_socket r \<noteq> self s) (mset (pfx_records t))" "pfx_inv t'" "set mem1 \<subseteq> set (allocs s)"
      using assms(4) removed_mset [of "mset (pfx_records t)" _ "mset (pfx_records t')" "\<lambda>r. pr_socket r = self s"] by (auto simp: src_removed_def)
    then have "set (pfx_records t') = {r \<in> set (pfx_records t). pr_socket r \<noteq> self s}" by (metis set_mset_mset set_mset_filter)
    with that r(1) Some assms(4) \<open>pfx_inv t'\<close> \<open>set mem1 \<subseteq> _\<close> show ?thesis by auto
  qed (use that assms(4) in auto)
  obtain rv k where k: "spki_table_src_remove (spki_table s) (self s) = Some (rv, k)"
    "rel_option (\<lambda>x y. spki_inv y \<and> set (spki_records y) = {r \<in> set (spki_records x). sr_socket r \<noteq> self s}) (spki_table s) k"
  proof (cases "spki_table s")
    case (Some t)
    then show ?thesis using that src_remove_outcome [of t "self s"] assms(2) by fastforce
  qed (use that in auto)
  obtain rv a mem2 where a: "rtr_aspa_table_src_remove (aspa_table s) (self s) True mem1 = Some (rv, a, mem2)" "False \<notin> set mem2"
    "rel_option (\<lambda>x y. aspa_fine y \<and> aspa_recs y = {r \<in> aspa_recs x. fst r \<noteq> self s}) (aspa_table s) a"
  proof (cases "aspa_table s")
    case (Some t)
    then obtain t' mem2 where t: "rtr_aspa_table_src_remove (Some t) (self s) True mem1 = Some (RTR_ASPA_SUCCESS, Some t', mem2)"
      "\<forall>u. socket_records t' u = (if u = self s then [] else socket_records t u)" "one_node_each t'" "store_ok t'" "\<not> update_lock t'" "set mem2 \<subseteq> set mem1"
      using aspa_src_remove_outcome [of t "self s" True mem1] assms(3) by (auto simp: aspa_fine_def)
    have "aspa_recs t' = {r \<in> aspa_recs t. fst r \<noteq> self s}" using t(2) by (auto simp: aspa_recs_def split: if_splits)
    with t p(2) Some that show ?thesis by (auto simp: aspa_fine_def simp del: rtr_aspa_table_src_remove.simps)
  qed (use that p(2) in auto)
  show ?thesis using p k a by (auto simp: src_remove_all_def simp del: rtr_aspa_table_src_remove.simps rtr_pfx_table_src_remove.simps)
qed

lemma ctx_of_fields [simp]:
  "self (ctx_of s t mem) = self s" "thread_id (ctx_of s t mem) = thread_id s" "state (ctx_of s t mem) = state s"
  "pfx_table (ctx_of s t mem) = fst t" "spki_table (ctx_of s t mem) = fst (snd t)" "aspa_table (ctx_of s t mem) = snd (snd t)"
  "allocs (ctx_of s t mem) = mem" "connection_state_fp (ctx_of s t mem) = connection_state_fp s"
  by (simp_all add: ctx_of_def rtr_socket.extend_def rtr_socket.truncate_def rtr_ctx.fields_def split: prod.splits)

lemma socket_of_fields [simp]:
  "self (socket_of c s) = self c" "thread_id (socket_of c s) = thread_id c" "state (socket_of c s) = state c" "last_update (socket_of c s) = last_update c"
  "ptr_pfx (socket_of c s) = ptr_pfx s" "ptr_spki (socket_of c s) = ptr_spki s" "ptr_aspa (socket_of c s) = ptr_aspa s"
  "connection_state_fp (socket_of c s) = connection_state_fp c"
  by (simp_all add: socket_of_def rtr_socket.extend_def rtr_socket.truncate_def mgr_socket.fields_def)

definition same_socket :: "mgr_socket \<Rightarrow> mgr_socket \<Rightarrow> bool" where
  "same_socket s s' = (self s' = self s \<and> ptr_pfx s' = ptr_pfx s \<and> ptr_spki s' = ptr_spki s \<and> ptr_aspa s' = ptr_aspa s)"

lemma same_socket_refl [simp]: "same_socket s s"
  by (simp add: same_socket_def)

lemma same_socket_trans: "same_socket a b \<Longrightarrow> same_socket b c \<Longrightarrow> same_socket a c"
  by (simp add: same_socket_def)

lemma change_state_same [simp]:
  "same_socket s (rtr_change_socket_state s st)" "thread_id (rtr_change_socket_state s st) = thread_id s"
  by (simp_all add: same_socket_def rtr_change_socket_state_def Let_def)

lemma ptrs_ok_same: "same_socket s s' \<Longrightarrow> ptrs_ok conf s' = ptrs_ok conf s"
  by (simp add: ptrs_ok_def same_socket_def)

lemma no_records_same: "same_socket s s' \<Longrightarrow> no_records conf s' = no_records conf s"
  by (simp add: no_records_def same_socket_def)

text \<open>Everything but groups, tables, allocation script and log of the callbacks.\<close>

definition same_config :: "rtr_mgr_config \<Rightarrow> rtr_mgr_config \<Rightarrow> bool" where
  "same_config conf conf' =
     (groups conf' = groups conf \<and> next_group conf' = next_group conf \<and> len conf' = len conf \<and> status_fp conf' = status_fp conf \<and>
      conf_pfx conf' = conf_pfx conf \<and> conf_spki conf' = conf_spki conf \<and> conf_aspa conf' = conf_aspa conf \<and>
      thread_answers conf' = thread_answers conf)"

lemma same_config_refl [simp]: "same_config conf conf"
  by (simp add: same_config_def)

lemma same_config_trans: "same_config a b \<Longrightarrow> same_config b c \<Longrightarrow> same_config a c"
  by (simp add: same_config_def)

text \<open>A step that touches no table and needs no memory.\<close>

definition quiet :: "rtr_mgr_config \<Rightarrow> rtr_mgr_config \<Rightarrow> bool" where
  "quiet conf conf' =
     (same_config conf conf' \<and> pfx_mem conf' = pfx_mem conf \<and> spki_mem conf' = spki_mem conf \<and> aspa_mem conf' = aspa_mem conf \<and>
      mgr_allocs conf' = mgr_allocs conf)"

lemma set_status_outcome:
  assumes "group_mem conf gid = Some g"
  shows "\<exists>conf'. set_status conf gid st sock = Some conf' \<and> quiet conf conf' \<and> group_mem conf' = (group_mem conf)(gid \<mapsto> g\<lparr>status := st\<rparr>)"
  using assms by (auto simp: set_status_def quiet_def same_config_def put_group_def Let_def)

lemma shutdown_outcome:
  assumes "group_mem conf gid = Some g"
  shows "\<exists>conf'. rtr_mgr_cb_state_shutdown sock conf gid = Some conf' \<and> quiet conf conf' \<and>
    group_mem conf' = (group_mem conf)(gid \<mapsto> g\<lparr>status := if \<forall>s\<in>set (sockets g). state s = RTR_SHUTDOWN then RTR_MGR_CLOSED else status g\<rparr>)"
proof -
  let ?st = "if \<forall>s\<in>set (sockets g). state s = RTR_SHUTDOWN then RTR_MGR_CLOSED else status g"
  have "rtr_mgr_cb_state_shutdown sock conf gid = set_status conf gid ?st (Some sock)" using assms by (simp add: rtr_mgr_cb_state_shutdown_def list_all_iff)
  then show ?thesis using set_status_outcome [OF assms, of ?st "Some sock"] by simp
qed

text \<open>The outcome of stopping sockets whose identities are in \<open>S\<close>.\<close>

definition stopping :: "socket_id set \<Rightarrow> rtr_mgr_config \<Rightarrow> rtr_mgr_config \<Rightarrow> bool" where
  "stopping S conf conf' =
     (same_config conf conf' \<and> records_kept S conf conf' \<and> (heap_ok conf \<longrightarrow> heap_ok conf') \<and>
      (False \<notin> set (mgr_allocs conf) \<longrightarrow> False \<notin> set (mgr_allocs conf')))"

lemma stopping_refl [simp]: "stopping S conf conf"
  by (simp add: stopping_def)

lemma stopping_trans: "stopping S a b \<Longrightarrow> stopping T b c \<Longrightarrow> stopping (S \<union> T) a c"
  unfolding stopping_def by (blast intro: same_config_trans records_kept_trans)

lemma stopping_mono: "stopping S a b \<Longrightarrow> S \<subseteq> T \<Longrightarrow> stopping T a b"
  unfolding stopping_def by (blast intro: records_kept_mono)

lemma quiet_stopping: "quiet a b \<Longrightarrow> stopping S a b"
  by (simp add: quiet_def stopping_def heap_ok_def records_kept_def)

lemma stop_thread_outcome:
  assumes "pred_option pfx_inv (pfx_table c)" "pred_option spki_inv (spki_table c)" "pred_option aspa_fine (aspa_table c)" "False \<notin> set (allocs c)"
    "thread_id c \<noteq> 0"
  shows "\<exists>c'. stop_thread c = Some c' \<and> False \<notin> set (allocs c') \<and> self c' = self c \<and> thread_id c' = 0 \<and> state c' = RTR_CLOSED \<and> last_update c' = 0 \<and>
    rel_option (\<lambda>x y. pfx_inv y \<and> set (pfx_records y) = {r \<in> set (pfx_records x). pr_socket r \<noteq> self c}) (pfx_table c) (pfx_table c') \<and>
    rel_option (\<lambda>x y. spki_inv y \<and> set (spki_records y) = {r \<in> set (spki_records x). sr_socket r \<noteq> self c}) (spki_table c) (spki_table c') \<and>
    rel_option (\<lambda>x y. aspa_fine y \<and> aspa_recs y = {r \<in> aspa_recs x. fst r \<noteq> self c}) (aspa_table c) (aspa_table c')"
proof -
  let ?c = "(io_close c)\<lparr>request_session_id := True, serial_number := 0, last_update := 0\<rparr>"
  obtain p k a mem where r: "src_remove_all ?c = Some (?c\<lparr>pfx_table := p, spki_table := k, aspa_table := a, allocs := mem\<rparr>)" "False \<notin> set mem"
    "rel_option (\<lambda>x y. pfx_inv y \<and> set (pfx_records y) = {r \<in> set (pfx_records x). pr_socket r \<noteq> self c}) (pfx_table c) p"
    "rel_option (\<lambda>x y. spki_inv y \<and> set (spki_records y) = {r \<in> set (spki_records x). sr_socket r \<noteq> self c}) (spki_table c) k"
    "rel_option (\<lambda>x y. aspa_fine y \<and> aspa_recs y = {r \<in> aspa_recs x. fst r \<noteq> self c}) (aspa_table c) a"
    using src_remove_all_opt [of ?c] assms(1-4) by (auto simp: io_close_def)
  have "stop_thread c = Some (?c\<lparr>pfx_table := p, spki_table := k, aspa_table := a, allocs := mem, thread_id := 0, state := RTR_CLOSED\<rparr>)"
    using r(1) assms(5) by (simp add: stop_thread_def)
  then show ?thesis using r(2-5) by (simp add: io_close_def)
qed

lemma load_ctx_ok:
  assumes "ptrs_ok conf s" "heap_ok conf"
  shows "\<exists>c p k a. load_ctx conf s = Some c \<and> c = ctx_of s (p, k, a) (mgr_allocs conf) \<and> deref (ptr_pfx s) (pfx_mem conf) = Some p \<and>
    deref (ptr_spki s) (spki_mem conf) = Some k \<and> deref (ptr_aspa s) (aspa_mem conf) = Some a \<and>
    pred_option pfx_inv p \<and> pred_option spki_inv k \<and> pred_option aspa_fine a"
proof -
  obtain p k a where d: "deref (ptr_pfx s) (pfx_mem conf) = Some p" "deref (ptr_spki s) (spki_mem conf) = Some k" "deref (ptr_aspa s) (aspa_mem conf) = Some a"
    using assms(1) by (auto simp: ptrs_ok_def)
  have "pred_option pfx_inv p" "pred_option spki_inv k" "pred_option aspa_fine a"
    using d assms(2) deref_in_set by (cases p; cases k; cases a; fastforce simp: heap_ok_def)+
  then show ?thesis using d by (simp add: load_ctx_def)
qed

lemma rel_option_weaken: "rel_option R x y \<Longrightarrow> (\<And>a b. R a b \<Longrightarrow> Q a b) \<Longrightarrow> rel_option Q x y"
  by (rule option.rel_mono_strong)

lemma no_records_deref:
  assumes "deref p tbls = Some t" "rel_option (\<lambda>x y. recs y = {r \<in> recs x. owner r \<noteq> me}) t t'" "deref p (assign p t' tbls) = Some (Some u)" "r \<in> recs u"
  shows "owner r \<noteq> me"
  using assms by (cases p; cases t; cases t') (auto split: if_splits)

lemma store_ctx_outcome:
  assumes "load_ctx conf s = Some c0" "c0 = ctx_of s (p, k, a) (mgr_allocs conf)"
    and d: "deref (ptr_pfx s) (pfx_mem conf) = Some p" "deref (ptr_spki s) (spki_mem conf) = Some k" "deref (ptr_aspa s) (aspa_mem conf) = Some a"
    and r: "rel_option (\<lambda>x y. pfx_inv y \<and> set (pfx_records y) = {r \<in> set (pfx_records x). pr_socket r \<noteq> self s}) p (pfx_table c)"
      "rel_option (\<lambda>x y. spki_inv y \<and> set (spki_records y) = {r \<in> set (spki_records x). sr_socket r \<noteq> self s}) k (spki_table c)"
      "rel_option (\<lambda>x y. aspa_fine y \<and> aspa_recs y = {r \<in> aspa_recs x. fst r \<noteq> self s}) a (aspa_table c)"
    and "False \<notin> set (allocs c)"
  shows "stopping {self s} conf (store_ctx c s conf) \<and> no_records (store_ctx c s conf) s"
proof -
  have r': "rel_option (\<lambda>x y. set (pfx_records y) = {r \<in> set (pfx_records x). pr_socket r \<noteq> self s}) p (pfx_table c)"
      "rel_option (\<lambda>x y. set (spki_records y) = {r \<in> set (spki_records x). sr_socket r \<noteq> self s}) k (spki_table c)"
      "rel_option (\<lambda>x y. aspa_recs y = {r \<in> aspa_recs x. fst r \<noteq> self s}) a (aspa_table c)"
    using r by (blast intro: rel_option_weaken)+
  have "heap_ok (store_ctx c s conf)" if "heap_ok conf"
    using that set_assign [OF d(1) r(1), of pfx_inv] set_assign [OF d(2) r(2), of spki_inv] set_assign [OF d(3) r(3), of aspa_fine]
    by (simp add: heap_ok_def store_ctx_def)
  moreover have "records_kept {self s} conf (store_ctx c s conf)"
    using kept_assign [where recs = "\<lambda>t. set (pfx_records t)", OF d(1) r'(1)] kept_assign [where recs = "\<lambda>t. set (spki_records t)", OF d(2) r'(2)]
      kept_assign [where recs = aspa_recs, OF d(3) r'(3)] by (simp add: records_kept_def store_ctx_def)
  moreover have "no_records (store_ctx c s conf) s"
    using no_records_deref [where recs = "\<lambda>t. set (pfx_records t)", OF d(1) r'(1)] no_records_deref [where recs = "\<lambda>t. set (spki_records t)", OF d(2) r'(2)]
      no_records_deref [where recs = aspa_recs, OF d(3) r'(3)] unfolding no_records_def by (simp add: store_ctx_def)
  ultimately show ?thesis using assms(9) by (simp add: stopping_def same_config_def store_ctx_def)
qed

lemma group_update_commute: "g\<lparr>status := st, sockets := ss\<rparr> = g\<lparr>sockets := ss, status := st\<rparr>"
  by (rule rtr_mgr_group.equality) simp_all

lemma shutdown_state: "state (rtr_change_socket_state s RTR_SHUTDOWN) = RTR_SHUTDOWN"
  by (simp add: rtr_change_socket_state_def Let_def)

lemma stop_socket_outcome:
  assumes "group_mem conf gid = Some g" "j < length (sockets g)" "ptrs_ok conf (sockets g ! j)" "heap_ok conf" "False \<notin> set (mgr_allocs conf)"
  shows "\<exists>conf' s' st. stop_socket gid j conf = Some conf' \<and> stopping {self (sockets g ! j)} conf conf' \<and>
    group_mem conf' = (group_mem conf)(gid \<mapsto> g\<lparr>sockets := (sockets g)[j := s'], status := st\<rparr>) \<and> (st = status g \<or> st = RTR_MGR_CLOSED) \<and>
    ((\<exists>k<length (sockets g). k \<noteq> j \<and> state (sockets g ! k) \<noteq> RTR_SHUTDOWN) \<longrightarrow> st = status g) \<and>
    same_socket (sockets g ! j) s' \<and> thread_id s' = 0 \<and> (if thread_id (sockets g ! j) = 0 then state s' = RTR_SHUTDOWN else state s' = RTR_CLOSED \<and> no_records conf' s')"
proof -
  let ?s = "sockets g ! j" and ?s' = "rtr_change_socket_state (sockets g ! j) RTR_SHUTDOWN"
  let ?g = "g\<lparr>sockets := (sockets g)[j := ?s']\<rparr>" and ?c1 = "put_socket gid j ?s' conf"
  have g1: "group_mem ?c1 = (group_mem conf)(gid \<mapsto> ?g)" "quiet conf ?c1" using assms(1) by (simp_all add: put_socket_def put_group_def quiet_def same_config_def)
  obtain c2 st where c2: "(if state_log ?s' \<noteq> state_log ?s then rtr_mgr_cb_state_shutdown (self ?s) ?c1 gid else Some ?c1) = Some c2" "quiet ?c1 c2"
    "st = status g \<or> st = RTR_MGR_CLOSED" "group_mem c2 = (group_mem conf)(gid \<mapsto> ?g\<lparr>status := st\<rparr>)"
    "(\<exists>k<length (sockets g). k \<noteq> j \<and> state (sockets g ! k) \<noteq> RTR_SHUTDOWN) \<longrightarrow> st = status g"
  proof (cases "state_log ?s' \<noteq> state_log ?s")
    case True
    define st where "st = (if \<forall>s\<in>set (sockets ?g). state s = RTR_SHUTDOWN then RTR_MGR_CLOSED else status g)"
    have gg: "group_mem ?c1 gid = Some ?g" using g1(1) by simp
    obtain c2 where c2: "rtr_mgr_cb_state_shutdown (self ?s) ?c1 gid = Some c2" "quiet ?c1 c2" "group_mem c2 = (group_mem ?c1)(gid \<mapsto> ?g\<lparr>status := st\<rparr>)"
      using shutdown_outcome [OF gg, of "self ?s"] unfolding st_def by auto
    have other: "st = status g" if "k < length (sockets g)" "k \<noteq> j" "state (sockets g ! k) \<noteq> RTR_SHUTDOWN" for k
    proof -
      have "sockets ?g ! k = sockets g ! k" "sockets ?g ! k \<in> set (sockets ?g)" using that nth_mem [of k "sockets ?g"] by simp_all
      then show ?thesis using that(3) unfolding st_def by metis
    qed
    show ?thesis
    proof (rule that [of c2 st])
      show "st = status g \<or> st = RTR_MGR_CLOSED" by (simp add: st_def)
    qed (use True c2 g1(1) other in auto)
  next
    case False
    with that [of ?c1 "status g"] g1 show ?thesis by (simp add: quiet_def)
  qed
  have get: "get_socket conf gid j = Some ?s" using assms(1,2) by (simp add: get_socket_def)
  have q: "quiet conf c2" using g1(2) c2(2) by (auto simp: quiet_def same_config_def)
  show ?thesis
  proof (cases "thread_id ?s = 0")
    case True
    then have "stop_socket gid j conf = Some c2" using get c2(1) by (simp add: stop_socket_def Let_def)
    then show ?thesis using True q c2(3-5) by (intro exI [of _ c2] exI [of _ ?s'] exI [of _ st]) (simp add: quiet_stopping shutdown_state)
  next
    case False
    have h: "heap_ok c2" "ptrs_ok c2 ?s'" "mgr_allocs c2 = mgr_allocs conf" using q assms(3,4) ptrs_ok_same [OF change_state_same(1)]
      by (simp_all add: quiet_def heap_ok_def ptrs_ok_def)
    obtain p k a where l: "load_ctx c2 ?s' = Some (ctx_of ?s' (p, k, a) (mgr_allocs c2))" "deref (ptr_pfx ?s') (pfx_mem c2) = Some p"
      "deref (ptr_spki ?s') (spki_mem c2) = Some k" "deref (ptr_aspa ?s') (aspa_mem c2) = Some a"
      "pred_option pfx_inv p" "pred_option spki_inv k" "pred_option aspa_fine a"
      using load_ctx_ok [OF h(2,1)] by blast
    obtain c where c: "stop_thread (ctx_of ?s' (p, k, a) (mgr_allocs c2)) = Some c" "False \<notin> set (allocs c)" "self c = self ?s'" "thread_id c = 0" "state c = RTR_CLOSED"
      "rel_option (\<lambda>x y. pfx_inv y \<and> set (pfx_records y) = {r \<in> set (pfx_records x). pr_socket r \<noteq> self ?s'}) p (pfx_table c)"
      "rel_option (\<lambda>x y. spki_inv y \<and> set (spki_records y) = {r \<in> set (spki_records x). sr_socket r \<noteq> self ?s'}) k (spki_table c)"
      "rel_option (\<lambda>x y. aspa_fine y \<and> aspa_recs y = {r \<in> aspa_recs x. fst r \<noteq> self ?s'}) a (aspa_table c)"
      using stop_thread_outcome [of "ctx_of ?s' (p, k, a) (mgr_allocs c2)"] l(5-7) assms(5) h(3) False by auto
    let ?c3 = "store_ctx c ?s' c2" and ?r = "socket_of c ?s'"
    have s: "stopping {self ?s'} c2 ?c3" "no_records ?c3 ?s'" using store_ctx_outcome [OF l(1) refl l(2-4) c(6-8,2)] by blast+
    let ?c4 = "put_socket gid j ?r ?c3"
    have id: "self ?s' = self ?s" using change_state_same(1) [of ?s RTR_SHUTDOWN] by (simp add: same_socket_def)
    have "quiet ?c3 ?c4" "group_mem ?c4 = (group_mem conf)(gid \<mapsto> g\<lparr>sockets := (sockets g)[j := ?r], status := st\<rparr>)"
      using c2(4) by (simp_all add: put_socket_def put_group_def quiet_def same_config_def store_ctx_def group_update_commute)
    moreover have same: "same_socket ?s' ?r" using c(3) by (simp add: same_socket_def)
    moreover have "no_records ?c4 ?r" using s(2) calculation(1) no_records_same [OF same] by (simp add: quiet_def no_records_def)
    moreover have "stopping {self ?s} conf ?c4"
      using stopping_trans [OF quiet_stopping [OF q, of "{}"] stopping_trans [OF s(1) quiet_stopping [OF calculation(1), of "{}"]]] id by simp
    moreover have "stop_socket gid j conf = Some ?c4" using get c2(1) l(1) c(1) False by (simp add: stop_socket_def Let_def)
    ultimately show ?thesis using c2(3,5) c(4,5) same_socket_trans [OF change_state_same(1) same] False
      by (intro exI [of _ ?c4] exI [of _ ?r] exI [of _ st]) simp
  qed
qed

definition sockets_ok :: "rtr_mgr_config \<Rightarrow> rtr_mgr_group \<Rightarrow> bool" where
  "sockets_ok conf g = (\<forall>s\<in>set (sockets g). ptrs_ok conf s)"

definition idle :: "rtr_mgr_group \<Rightarrow> bool" where
  "idle g = (\<forall>s\<in>set (sockets g). thread_id s = 0)"

lemma same_sockets_ok:
  assumes "list_all2 same_socket (sockets g) (sockets g')" "records_kept S conf conf'"
  shows "sockets_ok conf' g' = sockets_ok conf g"
proof -
  have "ptrs_ok conf' (sockets g' ! i) = ptrs_ok conf (sockets g ! i)" if "i < length (sockets g)" for i
    using assms that records_kept_ptrs ptrs_ok_same list_all2_nthD by metis
  then show ?thesis using list_all2_lengthD [OF assms(1)] by (simp add: sockets_ok_def all_set_conv_all_nth)
qed

lemma same_socket_update: "list_all2 same_socket xs ys \<Longrightarrow> j < length ys \<Longrightarrow> same_socket (ys ! j) s \<Longrightarrow> list_all2 same_socket xs (ys[j := s])"
  by (auto simp: list_all2_conv_all_nth nth_list_update intro: same_socket_trans)

lemma same_sockets_trans: "list_all2 same_socket xs ys \<Longrightarrow> list_all2 same_socket ys zs \<Longrightarrow> list_all2 same_socket xs zs"
  by (rule list_all2_trans [of same_socket same_socket same_socket]) (auto intro: same_socket_trans)

lemma same_sockets_refl [simp]: "list_all2 same_socket xs xs"
  by (simp add: list_all2_conv_all_nth)

lemma stop_sockets_outcome:
  assumes "group_mem conf gid = Some g" "\<forall>j\<in>set js. j < length (sockets g)" "sockets_ok conf g" "heap_ok conf" "False \<notin> set (mgr_allocs conf)"
  shows "\<exists>conf' ss st. stop_sockets gid js conf = Some conf' \<and> stopping (self ` set (sockets g)) conf conf' \<and>
    group_mem conf' = (group_mem conf)(gid \<mapsto> g\<lparr>sockets := ss, status := st\<rparr>) \<and> (st = status g \<or> st = RTR_MGR_CLOSED) \<and>
    list_all2 same_socket (sockets g) ss \<and> (\<forall>j\<in>set js. thread_id (ss ! j) = 0 \<and> (thread_id (sockets g ! j) \<noteq> 0 \<longrightarrow> no_records conf' (ss ! j))) \<and>
    (\<forall>j<length ss. thread_id (sockets g ! j) = 0 \<longrightarrow> thread_id (ss ! j) = 0)"
  using assms
proof (induction js arbitrary: conf g)
  case Nil
  then show ?case by (intro exI [of _ conf] exI [of _ "sockets g"] exI [of _ "status g"]) auto
next
  case (Cons j js)
  let ?s = "sockets g ! j"
  have j: "j < length (sockets g)" "ptrs_ok conf ?s" using Cons.prems(2,3) by (auto simp: sockets_ok_def)
  obtain c1 s' st where c1: "stop_socket gid j conf = Some c1" "stopping {self ?s} conf c1"
    "group_mem c1 = (group_mem conf)(gid \<mapsto> g\<lparr>sockets := (sockets g)[j := s'], status := st\<rparr>)" "st = status g \<or> st = RTR_MGR_CLOSED"
    "same_socket ?s s'" "thread_id s' = 0" "thread_id ?s \<noteq> 0 \<longrightarrow> no_records c1 s'"
    using stop_socket_outcome [OF Cons.prems(1) j Cons.prems(4,5)] by metis
  let ?g1 = "g\<lparr>sockets := (sockets g)[j := s'], status := st\<rparr>"
  have same: "list_all2 same_socket (sockets g) (sockets ?g1)" using same_socket_update [OF same_sockets_refl j(1) c1(5)] by simp
  have ok: "group_mem c1 gid = Some ?g1" "\<forall>j\<in>set js. j < length (sockets ?g1)" "sockets_ok c1 ?g1" "heap_ok c1" "False \<notin> set (mgr_allocs c1)"
    using c1(2,3) Cons.prems same_sockets_ok [OF same] by (auto simp: stopping_def)
  obtain c2 ss st' where c2: "stop_sockets gid js c1 = Some c2" "stopping (self ` set (sockets ?g1)) c1 c2"
    "group_mem c2 = (group_mem c1)(gid \<mapsto> ?g1\<lparr>sockets := ss, status := st'\<rparr>)" "st' = status ?g1 \<or> st' = RTR_MGR_CLOSED"
    "list_all2 same_socket (sockets ?g1) ss" "\<forall>i\<in>set js. thread_id (ss ! i) = 0 \<and> (thread_id (sockets ?g1 ! i) \<noteq> 0 \<longrightarrow> no_records c2 (ss ! i))"
    "\<forall>i<length ss. thread_id (sockets ?g1 ! i) = 0 \<longrightarrow> thread_id (ss ! i) = 0"
    using Cons.IH [OF ok] by blast
  have len: "length ss = length (sockets g)" using list_all2_lengthD [OF c2(5)] by simp
  have ids: "self ` set (sockets ?g1) \<subseteq> self ` set (sockets g)" using c1(5) j(1) by (auto simp: same_socket_def dest!: set_update_subset_insert [THEN subsetD])
  have "stopping (self ` set (sockets g)) conf c2"
    using stopping_mono [OF stopping_trans [OF c1(2) c2(2)]] ids j(1) by auto
  moreover have "group_mem c2 = (group_mem conf)(gid \<mapsto> g\<lparr>sockets := ss, status := st'\<rparr>)" using c1(3) c2(3) by (simp add: group_update_commute)
  moreover have "no_records c2 (ss ! j)" if "thread_id ?s \<noteq> 0"
  proof -
    have "same_socket s' (ss ! j)" using list_all2_nthD [OF c2(5), of j] j(1) by simp
    moreover have "no_records c2 s'" using that c1(7) c2(2) no_records_kept by (auto simp: stopping_def)
    ultimately show ?thesis using no_records_same by blast
  qed
  moreover have "thread_id (ss ! j) = 0" using c2(7) c1(6) len j(1) by simp
  moreover have "\<forall>i\<in>set js. thread_id (ss ! i) = 0 \<and> (thread_id (sockets g ! i) \<noteq> 0 \<longrightarrow> no_records c2 (ss ! i))"
    using c2(6) calculation(3) by (metis nth_list_update_neq rtr_mgr_group.select_convs(1) rtr_mgr_group.surjective rtr_mgr_group.update_convs(1,3))
  moreover have "\<forall>i<length ss. thread_id (sockets g ! i) = 0 \<longrightarrow> thread_id (ss ! i) = 0"
    using c2(7) c1(6) len by (metis nth_list_update_eq nth_list_update_neq rtr_mgr_group.select_convs(1) rtr_mgr_group.surjective rtr_mgr_group.update_convs(1,3))
  moreover have "list_all2 same_socket (sockets g) ss" using same_sockets_trans [OF same c2(5)] .
  moreover have "st' = status g \<or> st' = RTR_MGR_CLOSED" using c1(4) c2(4) by auto
  ultimately show ?case using c1(1) c2(1) by (intro exI [of _ c2] exI [of _ ss] exI [of _ st']) auto
qed

text \<open>A group after it has been stopped.\<close>

definition stopped :: "rtr_mgr_config \<Rightarrow> rtr_mgr_group \<Rightarrow> rtr_mgr_group \<Rightarrow> bool" where
  "stopped conf g g' =
     (preference g' = preference g \<and> list_all2 same_socket (sockets g) (sockets g') \<and> idle g' \<and>
      (\<forall>j<length (sockets g). thread_id (sockets g ! j) \<noteq> 0 \<longrightarrow> no_records conf (sockets g' ! j)))"

lemma stop_group_outcome:
  assumes "group_mem conf gid = Some g" "sockets_ok conf g" "heap_ok conf" "False \<notin> set (mgr_allocs conf)"
  shows "\<exists>conf' g'. stop_group gid conf = Some conf' \<and> stopping (self ` set (sockets g)) conf conf' \<and>
    group_mem conf' = (group_mem conf)(gid \<mapsto> g') \<and> stopped conf' g g' \<and> (status g' = status g \<or> status g' = RTR_MGR_CLOSED)"
proof -
  obtain conf' ss st where r: "stop_sockets gid [0..<length (sockets g)] conf = Some conf'" "stopping (self ` set (sockets g)) conf conf'"
    "group_mem conf' = (group_mem conf)(gid \<mapsto> g\<lparr>sockets := ss, status := st\<rparr>)" "st = status g \<or> st = RTR_MGR_CLOSED"
    "list_all2 same_socket (sockets g) ss"
    "\<forall>j\<in>set [0..<length (sockets g)]. thread_id (ss ! j) = 0 \<and> (thread_id (sockets g ! j) \<noteq> 0 \<longrightarrow> no_records conf' (ss ! j))"
    using stop_sockets_outcome [OF assms(1) _ assms(2-4), of "[0..<length (sockets g)]"] by auto
  let ?g = "g\<lparr>sockets := ss, status := st\<rparr>"
  have "stopped conf' g ?g" using r(5,6) list_all2_lengthD [OF r(5)] by (auto simp: stopped_def idle_def in_set_conv_nth)
  with r(1-4) assms(1) show ?thesis by (intro exI [of _ conf'] exI [of _ ?g]) (simp add: stop_group_def)
qed

lemma stopped_kept: "stopped conf g g' \<Longrightarrow> stopping S conf conf' \<Longrightarrow> stopped conf' g g'"
  unfolding stopped_def stopping_def using no_records_kept by blast

section \<open>Closing the less preferable groups\<close>

definition to_close :: "group_id \<Rightarrow> u8 \<Rightarrow> group_id \<Rightarrow> rtr_mgr_group \<Rightarrow> bool" where
  "to_close gid pref h g = (status g \<noteq> RTR_MGR_CLOSED \<and> h \<noteq> gid \<and> pref < preference g)"

definition closed_ids :: "group_id \<Rightarrow> u8 \<Rightarrow> rtr_mgr_config \<Rightarrow> group_id list \<Rightarrow> socket_id set" where
  "closed_ids gid pref conf hs = {self s | s g h. h \<in> set hs \<and> group_mem conf h = Some g \<and> to_close gid pref h g \<and> s \<in> set (sockets g)}"

lemma close_groups_outcome:
  assumes "group_mem conf gid = Some me" "distinct hs" "\<forall>h\<in>set hs. \<exists>g. group_mem conf h = Some g \<and> sockets_ok conf g"
    "heap_ok conf" "False \<notin> set (mgr_allocs conf)"
  shows "\<exists>conf'. close_groups sock conf gid hs = Some conf' \<and> stopping (closed_ids gid (preference me) conf hs) conf conf' \<and>
    (\<forall>h g. h \<in> set hs \<and> group_mem conf h = Some g \<and> to_close gid (preference me) h g \<longrightarrow>
       (\<exists>g'. group_mem conf' h = Some g' \<and> stopped conf' g g' \<and> status g' = RTR_MGR_CLOSED)) \<and>
    (\<forall>h. h \<in> set hs \<and> (\<exists>g. group_mem conf h = Some g \<and> to_close gid (preference me) h g) \<or> group_mem conf' h = group_mem conf h)"
  using assms
proof (induction hs arbitrary: conf)
  case Nil
  then show ?case by simp
next
  case (Cons h hs)
  obtain g where g: "group_mem conf h = Some g" "sockets_ok conf g" using Cons.prems(3) by auto
  let ?c = "to_close gid (preference me) h g"
  obtain c1 g1 where c1: "(if status g \<noteq> RTR_MGR_CLOSED \<and> h \<noteq> gid \<and> preference g > preference me then
                    do { conf \<leftarrow> stop_group h conf; set_status conf h RTR_MGR_CLOSED (Some sock) } else Some conf) = Some c1"
    "stopping (if ?c then self ` set (sockets g) else {}) conf c1" "group_mem c1 = (group_mem conf)(h \<mapsto> g1)" "if ?c then stopped c1 g g1 \<and> status g1 = RTR_MGR_CLOSED else g1 = g"
  proof (cases ?c)
    case True
    obtain ca ga where a: "stop_group h conf = Some ca" "stopping (self ` set (sockets g)) conf ca" "group_mem ca = (group_mem conf)(h \<mapsto> ga)" "stopped ca g ga"
      using stop_group_outcome [OF g Cons.prems(4,5)] by blast
    obtain cb where b: "set_status ca h RTR_MGR_CLOSED (Some sock) = Some cb" "quiet ca cb" "group_mem cb = (group_mem ca)(h \<mapsto> ga\<lparr>status := RTR_MGR_CLOSED\<rparr>)"
      using set_status_outcome [of ca h ga] a(3) by auto
    have "stopping (self ` set (sockets g)) conf cb" using stopping_trans [OF a(2) quiet_stopping [OF b(2), of "{}"]] by simp
    moreover have "stopped cb g (ga\<lparr>status := RTR_MGR_CLOSED\<rparr>)" using stopped_kept [OF a(4) quiet_stopping [OF b(2)]] by (simp add: stopped_def idle_def)
    ultimately show ?thesis using that [of cb "ga\<lparr>status := RTR_MGR_CLOSED\<rparr>"] True a(1,3) b(1,3) by (simp add: to_close_def)
  next
    case False
    then show ?thesis using that [of conf g] g(1) map_upd_triv [of "group_mem conf" h g] by (auto simp: to_close_def)
  qed
  have me: "group_mem c1 gid = Some me" using c1(3,4) Cons.prems(1) g(1) by (cases ?c) (auto simp: to_close_def)
  have rest: "group_mem c1 x = group_mem conf x" if "x \<in> set hs" for x using that Cons.prems(2) c1(3) by auto
  have ok: "distinct hs" "\<forall>x\<in>set hs. \<exists>g. group_mem c1 x = Some g \<and> sockets_ok c1 g" "heap_ok c1" "False \<notin> set (mgr_allocs c1)"
    using Cons.prems rest same_sockets_ok [OF same_sockets_refl] c1(2) by (fastforce simp: stopping_def)+
  obtain c2 where c2: "close_groups sock c1 gid hs = Some c2" "stopping (closed_ids gid (preference me) c1 hs) c1 c2"
    "\<forall>x y. x \<in> set hs \<and> group_mem c1 x = Some y \<and> to_close gid (preference me) x y \<longrightarrow> (\<exists>g'. group_mem c2 x = Some g' \<and> stopped c2 y g' \<and> status g' = RTR_MGR_CLOSED)"
    "\<forall>x. x \<in> set hs \<and> (\<exists>g. group_mem c1 x = Some g \<and> to_close gid (preference me) x g) \<or> group_mem c2 x = group_mem c1 x"
    using Cons.IH [OF me ok] by blast
  have "close_groups sock conf gid (h # hs) = Some c2" using g(1) Cons.prems(1) c1(1) c2(1) by simp
  moreover have "(if ?c then self ` set (sockets g) else {}) \<union> closed_ids gid (preference me) c1 hs \<subseteq> closed_ids gid (preference me) conf (h # hs)"
    using g(1) rest by (auto simp: closed_ids_def) blast+
  then have "stopping (closed_ids gid (preference me) conf (h # hs)) conf c2" by (rule stopping_mono [OF stopping_trans [OF c1(2) c2(2)]])
  moreover have hh: "group_mem c2 h = Some g1" using c2(4) c1(3) Cons.prems(2) by (metis distinct.simps(2) fun_upd_same)
  have "\<exists>g'. group_mem c2 x = Some g' \<and> stopped c2 y g' \<and> status g' = RTR_MGR_CLOSED"
    if x: "x \<in> set (h # hs)" "group_mem conf x = Some y" "to_close gid (preference me) x y" for x y
  proof (cases "x = h")
    case True
    then show ?thesis using x g(1) c1(4) hh stopped_kept [OF _ c2(2), of g g1] by auto
  next
    case False
    then show ?thesis using x c2(3) rest by auto
  qed
  moreover have "x \<in> set (h # hs) \<and> (\<exists>g. group_mem conf x = Some g \<and> to_close gid (preference me) x g) \<or> group_mem c2 x = group_mem conf x" for x
  proof (cases "x = h")
    case True
    then show ?thesis using g(1) hh c1(4) by (cases ?c) auto
  next
    case False
    then show ?thesis using c2(4) [rule_format, of x] rest [of x] c1(3) by auto
  qed
  ultimately show ?case by blast
qed

section \<open>Starting\<close>

lemma rtr_start_fine:
  assumes "False \<notin> set (allocs c)"
  shows "\<exists>rv c'. rtr_start c True (Some 1) = (rv, c') \<and> False \<notin> set (allocs c') \<and> self c' = self c \<and>
    (if thread_id c = 0 then rv = 0 \<and> thread_id c' = 1 else rv \<noteq> 0 \<and> thread_id c' = thread_id c)"
  using assms by (cases "allocs c" rule: rtr_malloc.cases) (auto simp: rtr_start_def)

lemma start_each_outcome:
  assumes "thread_answers conf = []" "False \<notin> set (mgr_allocs conf)"
  shows "\<exists>rv ss' mem. start_each ss conf = (rv, ss', conf\<lparr>mgr_allocs := mem\<rparr>) \<and> False \<notin> set mem \<and> list_all2 same_socket ss ss' \<and>
    (if \<forall>s\<in>set ss. thread_id s = 0 then rv = 0 \<and> (\<forall>s\<in>set ss'. thread_id s \<noteq> 0) else rv \<noteq> 0)"
  using assms
proof (induction ss arbitrary: conf)
  case Nil
  have "conf\<lparr>mgr_allocs := mgr_allocs conf\<rparr> = conf" by simp
  then show ?case using Nil.prems(2) by (metis start_each.simps(1) list.rel_intros(1) list.set(1) empty_iff)
next
  case (Cons s ss)
  have t: "thread_answer conf = ((True, Some 1), conf)" using Cons.prems(1) by (simp add: thread_answer_def)
  obtain rv c where c: "rtr_start (ctx_of s (None, None, None) (mgr_allocs conf)) True (Some 1) = (rv, c)" "False \<notin> set (allocs c)" "self c = self s"
    "if thread_id s = 0 then rv = 0 \<and> thread_id c = 1 else rv \<noteq> 0 \<and> thread_id c = thread_id s"
    using rtr_start_fine [of "ctx_of s (None, None, None) (mgr_allocs conf)"] Cons.prems(2) by auto
  have same: "same_socket s (socket_of c s)" using c(3) by (simp add: same_socket_def)
  show ?case
  proof (cases "thread_id s = 0")
    case False
    then have "start_each (s # ss) conf = (-1, socket_of c s # ss, conf\<lparr>mgr_allocs := allocs c\<rparr>)" using t c by (simp add: Let_def)
    then show ?thesis using False c(2) same by auto
  next
    case True
    let ?c = "conf\<lparr>mgr_allocs := allocs c\<rparr>"
    obtain rv' ss' mem where r: "start_each ss ?c = (rv', ss', ?c\<lparr>mgr_allocs := mem\<rparr>)" "False \<notin> set mem" "list_all2 same_socket ss ss'"
      "if \<forall>s\<in>set ss. thread_id s = 0 then rv' = 0 \<and> (\<forall>s\<in>set ss'. thread_id s \<noteq> 0) else rv' \<noteq> 0"
      using Cons.IH [of ?c] Cons.prems(1) c(2) by auto
    have "start_each (s # ss) conf = (rv', socket_of c s # ss', conf\<lparr>mgr_allocs := mem\<rparr>)" using True t c r(1) by (simp add: Let_def)
    then show ?thesis using True c(4) r(2-4) same by (intro exI [of _ rv'] exI [of _ "socket_of c s # ss'"] exI [of _ mem]) (auto split: if_splits)
  qed
qed

definition started :: "rtr_mgr_group \<Rightarrow> rtr_mgr_group \<Rightarrow> bool" where
  "started g g' =
     (preference g' = preference g \<and> list_all2 same_socket (sockets g) (sockets g') \<and>
      (if idle g then status g' = RTR_MGR_CONNECTING \<and> (\<forall>s\<in>set (sockets g'). thread_id s \<noteq> 0) else status g' = status g))"

lemma start_sockets_outcome:
  assumes "group_mem conf gid = Some g" "thread_answers conf = []" "False \<notin> set (mgr_allocs conf)"
  shows "\<exists>rv conf' g'. rtr_mgr_start_sockets gid conf = Some (rv, conf') \<and> (rv = 0 \<longleftrightarrow> idle g) \<and> stopping {} conf conf' \<and>
    group_mem conf' = (group_mem conf)(gid \<mapsto> g') \<and> started g g'"
proof -
  obtain rv ss mem where r: "start_each (sockets g) conf = (rv, ss, conf\<lparr>mgr_allocs := mem\<rparr>)" "False \<notin> set mem" "list_all2 same_socket (sockets g) ss"
    "if idle g then rv = 0 \<and> (\<forall>s\<in>set ss. thread_id s \<noteq> 0) else rv \<noteq> 0"
    using start_each_outcome [OF assms(2,3), of "sockets g"] by (auto simp: idle_def)
  let ?g = "if rv \<noteq> 0 then g\<lparr>sockets := ss\<rparr> else g\<lparr>sockets := ss, status := RTR_MGR_CONNECTING\<rparr>"
  have "rtr_mgr_start_sockets gid conf = Some (if rv \<noteq> 0 then -1 else 0, put_group gid ?g (conf\<lparr>mgr_allocs := mem\<rparr>))"
    using assms(1) r(1) by (simp add: rtr_mgr_start_sockets_def)
  moreover have "started g ?g" using r(3,4) by (auto simp: started_def)
  moreover have "stopping {} conf (put_group gid ?g (conf\<lparr>mgr_allocs := mem\<rparr>))" using r(2)
    by (simp add: stopping_def put_group_def same_config_def records_kept_def heap_ok_def)
  ultimately show ?thesis using r(4)
    by (intro exI [of _ "if rv \<noteq> 0 then -1 else 0"] exI [of _ "put_group gid ?g (conf\<lparr>mgr_allocs := mem\<rparr>)"] exI [of _ ?g]) (auto simp: put_group_def split: if_splits)
qed

end
