(* ===== verification/Mgr_Props.thy ===== *)
theory Mgr_Props
  imports Mgr_Frames
begin

text \<open>
  The invariant of the connection manager through all its operations and callbacks, and what it means for the
  groups: their order, the one group that serves, switching to another group and back.
\<close>

section \<open>The invariant\<close>

definition grp :: "rtr_mgr_config \<Rightarrow> group_id \<Rightarrow> rtr_mgr_group" where
  "grp conf h = the (group_mem conf h)"

definition order_ok :: "rtr_mgr_config \<Rightarrow> group_id list \<Rightarrow> bool" where
  "order_ok conf gids = sorted_wrt (\<lambda>h x. preference (grp conf h) < preference (grp conf x)) gids"

text \<open>The group exists, has sockets, and no thread runs in it when it is closed.\<close>

definition member_ok :: "rtr_mgr_config \<Rightarrow> group_id \<Rightarrow> bool" where
  "member_ok conf h =
     (h < next_group conf \<and>
      (\<exists>g. group_mem conf h = Some g \<and> sockets g \<noteq> [] \<and> sockets_ok conf g \<and> (status g = RTR_MGR_CLOSED \<longrightarrow> idle g)))"

text \<open>Beside an established group every less preferable one is closed.\<close>

definition one_serves :: "rtr_mgr_config \<Rightarrow> group_id list \<Rightarrow> bool" where
  "one_serves conf gids =
     (\<forall>h\<in>set gids. status (grp conf h) = RTR_MGR_ESTABLISHED \<longrightarrow>
        (\<forall>x\<in>set gids. preference (grp conf h) < preference (grp conf x) \<longrightarrow> status (grp conf x) = RTR_MGR_CLOSED))"

text \<open>Memory is available, threads can be created, and the tables are in order.\<close>

definition env_ok :: "rtr_mgr_config \<Rightarrow> bool" where
  "env_ok conf =
     (heap_ok conf \<and> False \<notin> set (mgr_allocs conf) \<and> thread_answers conf = [] \<and> deref (conf_pfx conf) (pfx_mem conf) \<noteq> None \<and>
      deref (conf_spki conf) (spki_mem conf) \<noteq> None \<and> deref (conf_aspa conf) (aspa_mem conf) \<noteq> None)"

definition mgr_inv :: "rtr_mgr_config \<Rightarrow> group_id list \<Rightarrow> bool" where
  "mgr_inv conf gids =
     (groups conf = Some gids \<and> gids \<noteq> [] \<and> order_ok conf gids \<and> (\<forall>h\<in>set gids. member_ok conf h) \<and> one_serves conf gids \<and>
      len conf = of_nat (length gids) \<and> env_ok conf)"

lemma order_distinct: "order_ok conf gids \<Longrightarrow> distinct gids"
  unfolding order_ok_def distinct_conv_nth sorted_wrt_iff_nth_less
  by (metis less_irrefl linorder_neqE_nat)

lemma order_at_most_256:
  assumes "order_ok conf gids"
  shows "length gids \<le> 256"
proof -
  let ?ps = "map (\<lambda>h. unat (preference (grp conf h))) gids"
  have "sorted_wrt (<) ?ps" using assms by (simp add: order_ok_def sorted_wrt_map word_less_nat_alt)
  then have "distinct ?ps" by (simp add: strict_sorted_iff)
  then have "length gids = card (set ?ps)" by (metis distinct_card length_map)
  moreover have u: "unat p < 256" for p :: u8 using unsigned_less [of p] by simp
  have "set ?ps \<subseteq> {..<256}" using u by (simp add: image_subset_iff)
  then have "card (set ?ps) \<le> card {..<256 :: nat}" by (intro card_mono finite_lessThan)
  ultimately show ?thesis by simp
qed

lemma stopping_env: "stopping S conf conf' \<Longrightarrow> env_ok conf \<Longrightarrow> env_ok conf'"
proof -
  assume a: "stopping S conf conf'" "env_ok conf"
  then have "length (pfx_mem conf') = length (pfx_mem conf)" "length (spki_mem conf') = length (spki_mem conf)" "length (aspa_mem conf') = length (aspa_mem conf)"
    by (auto simp: stopping_def records_kept_def kept_def)
  then show ?thesis using a deref_same_length unfolding stopping_def env_ok_def same_config_def by metis
qed

lemma mgr_inv_step:
  assumes "mgr_inv conf gids" "stopping S conf conf'" "one_serves conf' gids"
    "\<And>h g. h \<in> set gids \<Longrightarrow> group_mem conf h = Some g \<Longrightarrow>
       \<exists>g'. group_mem conf' h = Some g' \<and> preference g' = preference g \<and> list_all2 same_socket (sockets g) (sockets g') \<and> (status g' = RTR_MGR_CLOSED \<longrightarrow> idle g')"
  shows "mgr_inv conf' gids"
proof -
  have m: "\<forall>h\<in>set gids. member_ok conf h" using assms(1) by (simp add: mgr_inv_def)
  have same: "same_config conf conf'" "records_kept S conf conf'" using assms(2) by (auto simp: stopping_def)
  have "member_ok conf' h \<and> preference (grp conf' h) = preference (grp conf h)" if h: "h \<in> set gids" for h
  proof -
    obtain g where g: "group_mem conf h = Some g" "h < next_group conf" "sockets g \<noteq> []" "sockets_ok conf g" using m h by (auto simp: member_ok_def)
    obtain g' where g': "group_mem conf' h = Some g'" "preference g' = preference g" "list_all2 same_socket (sockets g) (sockets g')" "status g' = RTR_MGR_CLOSED \<longrightarrow> idle g'"
      using assms(4) [OF h g(1)] by blast
    have "sockets g' \<noteq> []" using g'(3) g(3) by auto
    then show ?thesis using g g' same same_sockets_ok [OF g'(3) same(2)] by (auto simp: member_ok_def same_config_def grp_def)
  qed
  then have "\<forall>h\<in>set gids. member_ok conf' h" "order_ok conf' gids"
    using assms(1) sorted_wrt_mono_rel [of gids "\<lambda>h x. preference (grp conf h) < preference (grp conf x)" "\<lambda>h x. preference (grp conf' h) < preference (grp conf' x)"]
    by (auto simp: mgr_inv_def order_ok_def)
  then show ?thesis using assms(1,3) same(1) stopping_env [OF assms(2)] by (simp add: mgr_inv_def same_config_def)
qed

text \<open>One group changes: it does not become established, and it does not wake up beside an established better one.\<close>

lemma one_serves_update:
  assumes "one_serves conf gids" "group_mem conf' = (group_mem conf)(gid \<mapsto> g')" "group_mem conf gid = Some g" "preference g' = preference g"
    "status g' = RTR_MGR_ESTABLISHED \<longrightarrow> status g = RTR_MGR_ESTABLISHED"
    "status g' \<noteq> RTR_MGR_CLOSED \<longrightarrow> status g \<noteq> RTR_MGR_CLOSED \<or> (\<forall>h\<in>set gids. preference (grp conf h) < preference g \<longrightarrow> status (grp conf h) \<noteq> RTR_MGR_ESTABLISHED)"
  shows "one_serves conf' gids"
  unfolding one_serves_def
proof (intro ballI impI)
  fix h x assume h: "h \<in> set gids" "status (grp conf' h) = RTR_MGR_ESTABLISHED" and x: "x \<in> set gids" "preference (grp conf' h) < preference (grp conf' x)"
  have me: "grp conf' gid = g'" "grp conf gid = g" using assms(2,3) by (simp_all add: grp_def)
  have other: "grp conf' y = grp conf y" if "y \<noteq> gid" for y using assms(2) that by (simp add: grp_def)
  have pref: "preference (grp conf' y) = preference (grp conf y)" for y using me other assms(4) by (cases "y = gid") simp_all
  have est: "status (grp conf h) = RTR_MGR_ESTABLISHED" using h(2) me other assms(5) by metis
  then have c: "status (grp conf x) = RTR_MGR_CLOSED" using assms(1) [unfolded one_serves_def] h(1) x(1) x(2) [unfolded pref] by blast
  show "status (grp conf' x) = RTR_MGR_CLOSED"
  proof (cases "x = gid")
    case True
    then show ?thesis using c assms(6) me pref h(1) est x(2) by auto
  next
    case False
    then show ?thesis using c other by simp
  qed
qed

lemma mgr_inv_update:
  assumes "mgr_inv conf gids" "stopping S conf conf'" "group_mem conf' = (group_mem conf)(gid \<mapsto> g')" "group_mem conf gid = Some g" "preference g' = preference g"
    "list_all2 same_socket (sockets g) (sockets g')" "status g' = RTR_MGR_CLOSED \<longrightarrow> idle g'"
    "status g' = RTR_MGR_ESTABLISHED \<longrightarrow> status g = RTR_MGR_ESTABLISHED"
    "status g' \<noteq> RTR_MGR_CLOSED \<longrightarrow> status g \<noteq> RTR_MGR_CLOSED \<or> (\<forall>h\<in>set gids. preference (grp conf h) < preference g \<longrightarrow> status (grp conf h) \<noteq> RTR_MGR_ESTABLISHED)"
  shows "mgr_inv conf' gids"
proof (rule mgr_inv_step [OF assms(1,2)])
  show "one_serves conf' gids" using one_serves_update [OF _ assms(3,4,5,8,9)] assms(1) by (simp add: mgr_inv_def)
next
  fix h x assume h: "h \<in> set gids" "group_mem conf h = Some x"
  have "status x = RTR_MGR_CLOSED \<longrightarrow> idle x" using assms(1) h by (auto simp: mgr_inv_def member_ok_def)
  then show "\<exists>y. group_mem conf' h = Some y \<and> preference y = preference x \<and> list_all2 same_socket (sockets x) (sockets y) \<and> (status y = RTR_MGR_CLOSED \<longrightarrow> idle y)"
    using h assms(3-7) by auto
qed

section \<open>Callbacks\<close>

lemma read_groups_ok: "(\<forall>h\<in>set gids. group_mem conf h \<noteq> None) \<Longrightarrow> read_groups conf gids = Some (map (\<lambda>h. (h, grp conf h)) gids)"
  by (induction gids) (auto simp: grp_def)

lemma mgr_inv_listed: "mgr_inv conf gids \<Longrightarrow> listed_groups conf = Some (map (\<lambda>h. (h, grp conf h)) gids)"
  using read_groups_ok [of gids conf] by (force simp: mgr_inv_def listed_groups_def member_ok_def)

lemma mgr_inv_group: "mgr_inv conf gids \<Longrightarrow> h \<in> set gids \<Longrightarrow> group_mem conf h = Some (grp conf h)"
  by (auto simp: mgr_inv_def member_ok_def grp_def)

lemma mgr_inv_member:
  assumes "mgr_inv conf gids" "h \<in> set gids"
  shows "sockets (grp conf h) \<noteq> []" "sockets_ok conf (grp conf h)" "status (grp conf h) = RTR_MGR_CLOSED \<Longrightarrow> idle (grp conf h)"
  using assms by (auto simp: mgr_inv_def member_ok_def grp_def)

lemma mgr_inv_env: "mgr_inv conf gids \<Longrightarrow> heap_ok conf \<and> False \<notin> set (mgr_allocs conf) \<and> thread_answers conf = []"
  by (simp add: mgr_inv_def env_ok_def)

lemma find_map_fst: "map_option fst (find (\<lambda>(h, g). P h g) (map (\<lambda>h. (h, f h)) gids)) = find (\<lambda>h. P h (f h)) gids"
  by (induction gids) auto

lemma status_kept:
  assumes "mgr_inv conf gids" "gid \<in> set gids" "status (grp conf gid) \<noteq> RTR_MGR_CLOSED" "st \<noteq> RTR_MGR_CLOSED" "st = RTR_MGR_ESTABLISHED \<longrightarrow> status (grp conf gid) = RTR_MGR_ESTABLISHED"
  shows "\<exists>conf'. set_status conf gid st sock = Some conf' \<and> mgr_inv conf' gids \<and> quiet conf conf' \<and>
    group_mem conf' = (group_mem conf)(gid \<mapsto> (grp conf gid)\<lparr>status := st\<rparr>)"
proof -
  note g = mgr_inv_group [OF assms(1,2)]
  obtain conf' where c: "set_status conf gid st sock = Some conf'" "quiet conf conf'" "group_mem conf' = (group_mem conf)(gid \<mapsto> (grp conf gid)\<lparr>status := st\<rparr>)"
    using set_status_outcome [OF g] by blast
  have "mgr_inv conf' gids" by (rule mgr_inv_update [OF assms(1) quiet_stopping [OF c(2), of "{}"] c(3) g]) (use assms(3-5) in auto)
  with c show ?thesis by blast
qed

lemma start_inv:
  assumes "mgr_inv conf gids" "gid \<in> set gids" "\<forall>h\<in>set gids. preference (grp conf h) < preference (grp conf gid) \<longrightarrow> status (grp conf h) \<noteq> RTR_MGR_ESTABLISHED"
  shows "\<exists>rv conf' g'. rtr_mgr_start_sockets gid conf = Some (rv, conf') \<and> (rv = 0 \<longleftrightarrow> idle (grp conf gid)) \<and> mgr_inv conf' gids \<and> stopping {} conf conf' \<and>
    group_mem conf' = (group_mem conf)(gid \<mapsto> g') \<and> started (grp conf gid) g'"
proof -
  note g = mgr_inv_group [OF assms(1,2)] and e = mgr_inv_env [OF assms(1)]
  obtain rv conf' g' where r: "rtr_mgr_start_sockets gid conf = Some (rv, conf')" "rv = 0 \<longleftrightarrow> idle (grp conf gid)" "stopping {} conf conf'"
    "group_mem conf' = (group_mem conf)(gid \<mapsto> g')" "started (grp conf gid) g'"
    using start_sockets_outcome [OF g] e by blast
  have "mgr_inv conf' gids"
    by (rule mgr_inv_update [OF assms(1) r(3,4) g])
      (use r(5) mgr_inv_member(3) [OF assms(1,2)] assms(3) in \<open>auto simp: started_def split: if_splits\<close>)
  with r show ?thesis by blast
qed

lemma error_outcome:
  assumes "mgr_inv conf gids" "gid \<in> set gids" "status (grp conf gid) \<noteq> RTR_MGR_CLOSED"
  shows "\<exists>conf'. rtr_mgr_cb_state_error sock conf gid = Some conf' \<and> mgr_inv conf' gids \<and> stopping {} conf conf' \<and>
    (if \<exists>h\<in>set gids. h \<noteq> gid \<and> status (grp conf h) = RTR_MGR_ESTABLISHED
     then group_mem conf' = (group_mem conf)(gid \<mapsto> (grp conf gid)\<lparr>status := RTR_MGR_ERROR\<rparr>)
     else case find (\<lambda>h. h \<noteq> gid \<and> status (grp conf h) = RTR_MGR_CLOSED) gids of
         None \<Rightarrow> group_mem conf' = (group_mem conf)(gid \<mapsto> (grp conf gid)\<lparr>status := RTR_MGR_ERROR\<rparr>)
       | Some n \<Rightarrow> \<exists>g'. group_mem conf' = (group_mem conf)(gid \<mapsto> (grp conf gid)\<lparr>status := RTR_MGR_ERROR\<rparr>, n \<mapsto> g') \<and> started (grp conf n) g' \<and>
           status g' = RTR_MGR_CONNECTING)"
proof -
  obtain c where c: "set_status conf gid RTR_MGR_ERROR (Some sock) = Some c" "mgr_inv c gids" "quiet conf c"
    "group_mem c = (group_mem conf)(gid \<mapsto> (grp conf gid)\<lparr>status := RTR_MGR_ERROR\<rparr>)"
    using status_kept [OF assms] by blast
  have g: "grp c h = (if h = gid then (grp conf gid)\<lparr>status := RTR_MGR_ERROR\<rparr> else grp conf h)" for h using c(4) by (simp add: grp_def)
  have est: "is_some_rtr_mgr_group_established c = Some (\<exists>h\<in>set gids. h \<noteq> gid \<and> status (grp conf h) = RTR_MGR_ESTABLISHED)"
    using mgr_inv_listed [OF c(2)] g by (auto simp: is_some_rtr_mgr_group_established_def list_ex_iff)
  have "(\<lambda>h. h \<noteq> gid \<and> status (grp c h) = RTR_MGR_CLOSED) = (\<lambda>h. h \<noteq> gid \<and> status (grp conf h) = RTR_MGR_CLOSED)" using g by auto
  then have best: "get_best_inactive_rtr_mgr_group c gid = Some (find (\<lambda>h. h \<noteq> gid \<and> status (grp conf h) = RTR_MGR_CLOSED) gids)"
    using mgr_inv_listed [OF c(2)] find_map_fst [of "\<lambda>h g. h \<noteq> gid \<and> status g = RTR_MGR_CLOSED" "grp c" gids] by (simp add: get_best_inactive_rtr_mgr_group_def)
  note cb = rtr_mgr_cb_state_error_def [of sock conf gid] and q = quiet_stopping [OF c(3), of "{}"]
  show ?thesis
  proof (cases "\<exists>h\<in>set gids. h \<noteq> gid \<and> status (grp conf h) = RTR_MGR_ESTABLISHED")
    case True
    then show ?thesis using cb c est q by simp
  next
    case no_est: False
    show ?thesis
    proof (cases "find (\<lambda>h. h \<noteq> gid \<and> status (grp conf h) = RTR_MGR_CLOSED) gids")
      case None
      then show ?thesis using cb c est best no_est q by simp
    next
      case (Some n)
      then have n: "n \<in> set gids" "n \<noteq> gid" "status (grp conf n) = RTR_MGR_CLOSED" by (auto simp: find_Some_iff)
      then have gn: "grp c n = grp conf n" using g by simp
      have "\<forall>h\<in>set gids. status (grp c h) \<noteq> RTR_MGR_ESTABLISHED" using no_est g by auto
      then obtain rv c' g' where s: "rtr_mgr_start_sockets n c = Some (rv, c')" "mgr_inv c' gids" "stopping {} c c'" "group_mem c' = (group_mem c)(n \<mapsto> g')" "started (grp c n) g'"
        using start_inv [OF c(2) n(1)] by blast
      have "idle (grp c n)" using mgr_inv_member(3) [OF c(2) n(1)] gn n(3) by simp
      then have "status g' = RTR_MGR_CONNECTING" using s(5) by (simp add: started_def)
      moreover have "rtr_mgr_cb_state_error sock conf gid = Some c'" using cb c(1) est best no_est Some s(1) by simp
      moreover have "stopping {} conf c'" using stopping_trans [OF q s(3)] by simp
      ultimately show ?thesis using no_est Some s(2,4,5) c(4) gn by auto
    qed
  qed
qed

lemma grp_eq: "group_mem conf h = Some g \<Longrightarrow> grp conf h = g"
  by (simp add: grp_def)

lemma pref_distinct:
  assumes "order_ok conf gids" "h \<in> set gids" "x \<in> set gids" "preference (grp conf h) = preference (grp conf x)"
  shows "h = x"
  using assms unfolding order_ok_def sorted_wrt_iff_nth_less by (metis in_set_conv_nth linorder_neqE_nat order_less_irrefl)

text \<open>The sockets of the groups that are less preferable than \<open>gid\<close>.\<close>

definition worse_ids :: "rtr_mgr_config \<Rightarrow> group_id list \<Rightarrow> group_id \<Rightarrow> socket_id set" where
  "worse_ids conf gids gid =
     {self s | s h. h \<in> set gids \<and> preference (grp conf gid) < preference (grp conf h) \<and> s \<in> set (sockets (grp conf h))}"

text \<open>The group \<open>gid\<close> is established and everything less preferable is closed and has left the tables.\<close>

definition serves :: "rtr_mgr_config \<Rightarrow> group_id list \<Rightarrow> group_id \<Rightarrow> rtr_mgr_config \<Rightarrow> bool" where
  "serves conf gids gid conf' =
     (group_mem conf' gid = Some ((grp conf gid)\<lparr>status := RTR_MGR_ESTABLISHED\<rparr>) \<and>
      (\<forall>h\<in>set gids. preference (grp conf gid) < preference (grp conf h) \<longrightarrow> status (grp conf' h) = RTR_MGR_CLOSED \<and>
         (status (grp conf h) \<noteq> RTR_MGR_CLOSED \<longrightarrow> stopped conf' (grp conf h) (grp conf' h))) \<and>
      (\<forall>h\<in>set gids. preference (grp conf h) < preference (grp conf gid) \<longrightarrow> group_mem conf' h = group_mem conf h) \<and>
      stopping (worse_ids conf gids gid) conf conf')"

lemma serves_outcome:
  assumes "mgr_inv conf gids" "gid \<in> set gids" "status (grp conf gid) \<noteq> RTR_MGR_CLOSED"
    "\<forall>h\<in>set gids. preference (grp conf h) < preference (grp conf gid) \<longrightarrow> status (grp conf h) \<noteq> RTR_MGR_ESTABLISHED"
  shows "\<exists>conf1 conf'. set_status conf gid RTR_MGR_ESTABLISHED (Some sock) = Some conf1 \<and>
    rtr_mgr_close_less_preferable_groups sock conf1 gid = Some conf' \<and> mgr_inv conf' gids \<and> serves conf gids gid conf'"
proof -
  note g = mgr_inv_group [OF assms(1,2)]
  let ?me = "(grp conf gid)\<lparr>status := RTR_MGR_ESTABLISHED\<rparr>" and ?p = "preference (grp conf gid)"
  obtain c where c: "set_status conf gid RTR_MGR_ESTABLISHED (Some sock) = Some c" "quiet conf c" "group_mem c = (group_mem conf)(gid \<mapsto> ?me)"
    using set_status_outcome [OF g] by blast
  have gc: "grp c h = (if h = gid then ?me else grp conf h)" for h using c(3) by (simp add: grp_def)
  have kc: "records_kept {} conf c" using quiet_stopping [OF c(2), of "{}"] by (simp add: stopping_def)
  have ok: "distinct gids" "\<forall>h\<in>set gids. \<exists>x. group_mem c h = Some x \<and> sockets_ok c x" "heap_ok c" "False \<notin> set (mgr_allocs c)" "groups c = Some gids"
  proof -
    show "distinct gids" using assms(1) order_distinct by (auto simp: mgr_inv_def)
    show "\<forall>h\<in>set gids. \<exists>x. group_mem c h = Some x \<and> sockets_ok c x"
      using mgr_inv_group [OF assms(1)] mgr_inv_member(2) [OF assms(1)] same_sockets_ok [OF same_sockets_refl kc] c(3) by (auto simp: sockets_ok_def)
    show "heap_ok c" "False \<notin> set (mgr_allocs c)" "groups c = Some gids"
      using mgr_inv_env [OF assms(1)] assms(1) c(2) by (auto simp: quiet_def heap_ok_def same_config_def mgr_inv_def)
  qed
  have mec: "group_mem c gid = Some ?me" and pme: "preference ?me = ?p" using c(3) by simp_all
  obtain c' where c': "close_groups sock c gid gids = Some c'" "stopping (closed_ids gid ?p c gids) c c'"
    "\<forall>h x. h \<in> set gids \<and> group_mem c h = Some x \<and> to_close gid ?p h x \<longrightarrow> (\<exists>x'. group_mem c' h = Some x' \<and> stopped c' x x' \<and> status x' = RTR_MGR_CLOSED)"
    "\<forall>h. h \<in> set gids \<and> (\<exists>x. group_mem c h = Some x \<and> to_close gid ?p h x) \<or> group_mem c' h = group_mem c h"
    using close_groups_outcome [OF mec ok(1-4), of sock, unfolded pme] by blast
  have "closed_ids gid ?p c gids \<subseteq> worse_ids conf gids gid"
    using c(3) mgr_inv_group [OF assms(1)] by (auto simp: closed_ids_def worse_ids_def to_close_def split: if_splits) fastforce
  then have st: "stopping (worse_ids conf gids gid) conf c'"
    using stopping_mono [OF stopping_trans [OF quiet_stopping [OF c(2), of "{}"] c'(2)]] by simp
  have me': "group_mem c' gid = Some ?me" using c'(4) [rule_format, of gid] mec by (auto simp: to_close_def)
  have worse: "status (grp c' h) = RTR_MGR_CLOSED \<and> (status (grp conf h) \<noteq> RTR_MGR_CLOSED \<longrightarrow> stopped c' (grp conf h) (grp c' h)) \<and>
      (status (grp conf h) = RTR_MGR_CLOSED \<longrightarrow> group_mem c' h = group_mem conf h) \<and> group_mem c' h \<noteq> None"
    if h: "h \<in> set gids" "?p < preference (grp conf h)" for h
  proof -
    have "h \<noteq> gid" using h by auto
    then have hc: "group_mem c h = Some (grp conf h)" using c(3) mgr_inv_group [OF assms(1) h(1)] by simp
    show ?thesis
    proof (cases "status (grp conf h) = RTR_MGR_CLOSED")
      case True
      then have "group_mem c' h = group_mem c h" using c'(4) [rule_format, of h] hc by (auto simp: to_close_def)
      then show ?thesis using hc True mgr_inv_group [OF assms(1) h(1)] grp_eq [of c' h] by simp
    next
      case False
      then obtain x' where "group_mem c' h = Some x'" "stopped c' (grp conf h) x'" "status x' = RTR_MGR_CLOSED"
        using c'(3) [rule_format, of h "grp conf h"] h hc \<open>h \<noteq> gid\<close> by (auto simp: to_close_def)
      then show ?thesis using False grp_eq [of c' h] by simp
    qed
  qed
  have better: "group_mem c' h = group_mem conf h" if h: "h \<in> set gids" "preference (grp conf h) < ?p" for h
  proof -
    have "h \<noteq> gid" using h by auto
    then have "group_mem c h = Some (grp conf h)" using c(3) mgr_inv_group [OF assms(1) h(1)] by simp
    then show ?thesis using c'(4) [rule_format, of h] h \<open>h \<noteq> gid\<close> mgr_inv_group [OF assms(1) h(1)] by (auto simp: to_close_def)
  qed
  have s: "serves conf gids gid c'" using me' worse better st by (simp add: serves_def)
  have tri: "h = gid \<or> ?p < preference (grp conf h) \<or> preference (grp conf h) < ?p" if "h \<in> set gids" for h
    using pref_distinct [of conf gids h gid] that assms(1,2) neq_iff [of ?p "preference (grp conf h)"] by (auto simp: mgr_inv_def)
  have pair: "\<exists>x'. group_mem c' h = Some x' \<and> preference x' = preference (grp conf h) \<and> list_all2 same_socket (sockets (grp conf h)) (sockets x') \<and>
      (status x' = RTR_MGR_CLOSED \<longrightarrow> idle x')" if h: "h \<in> set gids" for h
    using tri [OF h]
  proof (elim disjE)
    assume "?p < preference (grp conf h)"
    note w = worse [OF h this] and m = mgr_inv_group [OF assms(1) h]
    show ?thesis
    proof (cases "status (grp conf h) = RTR_MGR_CLOSED")
      case True
      then show ?thesis using w m mgr_inv_member(3) [OF assms(1) h] by simp
    next
      case False
      then have "stopped c' (grp conf h) (grp c' h)" "group_mem c' h \<noteq> None"
        using w by auto
      then show ?thesis using grp_eq [of c' h] by (auto simp: stopped_def)
    qed
  qed (use me' better [OF h] mgr_inv_group [OF assms(1) h] mgr_inv_member(3) [OF assms(1) h] in \<open>auto simp: idle_def\<close>)
  have "one_serves c' gids"
    unfolding one_serves_def
  proof (intro ballI impI)
    fix h x assume h: "h \<in> set gids" "status (grp c' h) = RTR_MGR_ESTABLISHED" and x: "x \<in> set gids" "preference (grp c' h) < preference (grp c' x)"
    have "h = gid" using tri [OF h(1)] worse [OF h(1)] better [OF h(1)] assms(4) h grp_eq [of c' h] mgr_inv_group [OF assms(1) h(1)] by auto
    moreover have "preference (grp c' x) = preference (grp conf x)" using pair [OF x(1)] grp_eq [of c' x] by auto
    ultimately show "status (grp c' x) = RTR_MGR_CLOSED" using x worse [OF x(1)] grp_eq [OF me'] by simp
  qed
  then have "mgr_inv c' gids" using mgr_inv_step [OF assms(1) st] pair mgr_inv_group [OF assms(1)] by (metis option.inject)
  then show ?thesis using c(1) c'(1) s ok(5) by (auto simp: rtr_mgr_close_less_preferable_groups_def)
qed

lemma none_better:
  assumes "mgr_inv conf gids" "gid \<in> set gids" "status (grp conf gid) \<noteq> RTR_MGR_CLOSED"
  shows "\<forall>h\<in>set gids. preference (grp conf h) < preference (grp conf gid) \<longrightarrow> status (grp conf h) \<noteq> RTR_MGR_ESTABLISHED"
  using assms unfolding mgr_inv_def one_serves_def by blast

lemma established_outcome:
  assumes "mgr_inv conf gids" "gid \<in> set gids" "status (grp conf gid) \<noteq> RTR_MGR_CLOSED"
  shows "\<exists>conf'. rtr_mgr_cb_state_established sock conf gid = Some conf' \<and> mgr_inv conf' gids \<and>
    (status (grp conf gid) = RTR_MGR_CONNECTING \<and> rtr_mgr_config_status_is_synced (grp conf gid) \<longrightarrow> serves conf gids gid conf')"
proof -
  note g = mgr_inv_group [OF assms(1,2)] and cb = rtr_mgr_cb_state_established_def [of sock conf gid]
  obtain c1 c2 where e: "set_status conf gid RTR_MGR_ESTABLISHED (Some sock) = Some c1" "rtr_mgr_close_less_preferable_groups sock c1 gid = Some c2"
    "mgr_inv c2 gids" "serves conf gids gid c2"
    using serves_outcome [OF assms none_better [OF assms]] by blast
  obtain c3 where c: "set_status conf gid RTR_MGR_CONNECTING (Some sock) = Some c3" "mgr_inv c3 gids" using status_kept [OF assms, of RTR_MGR_CONNECTING] by auto
  obtain c4 where r: "set_status conf gid RTR_MGR_ERROR (Some sock) = Some c4" "mgr_inv c4 gids" using status_kept [OF assms, of RTR_MGR_ERROR] by auto
  obtain errs where "all_error conf gid = Some errs" using mgr_inv_listed [OF assms(1)] g by (simp add: all_error_def)
  then show ?thesis using cb g e c r assms(1) by (cases "status (grp conf gid)"; cases "rtr_mgr_config_status_is_synced (grp conf gid)"; cases errs) auto
qed

lemma callback_outcome:
  assumes "mgr_inv conf gids" "gid \<in> set gids" "status (grp conf gid) \<noteq> RTR_MGR_CLOSED" "st \<noteq> RTR_SHUTDOWN"
  shows "\<exists>conf'. rtr_mgr_cb sock st conf (Some gid) = Some conf' \<and> mgr_inv conf' gids"
proof -
  note g = mgr_inv_group [OF assms(1,2)]
  have e: "\<exists>conf'. rtr_mgr_cb_state_error sock conf gid = Some conf' \<and> mgr_inv conf' gids" using error_outcome [OF assms(1-3)] by blast
  have a: "\<exists>conf'. rtr_mgr_cb_state_established sock conf gid = Some conf' \<and> mgr_inv conf' gids" using established_outcome [OF assms(1-3)] by blast
  have k: "\<exists>conf'. set_status conf gid x (Some sock) = Some conf' \<and> mgr_inv conf' gids" if "x = status (grp conf gid) \<or> x = RTR_MGR_CONNECTING" for x
    using status_kept [OF assms(1-3), of x "Some sock"] that assms(3) by auto
  have c: "\<exists>conf'. rtr_mgr_cb_state_connecting sock conf gid = Some conf' \<and> mgr_inv conf' gids"
    using k [of RTR_MGR_CONNECTING] k [of "status (grp conf gid)"] g by (auto simp: rtr_mgr_cb_state_connecting_def)
  show ?thesis using e a c k [of "status (grp conf gid)"] g assms(4) by (cases st) (auto simp: rtr_mgr_cb_def)
qed

section \<open>Stopping, adding and removing\<close>

lemma stop_group_inv:
  assumes "mgr_inv conf gids" "gid \<in> set gids"
  shows "\<exists>conf' g'. stop_group gid conf = Some conf' \<and> mgr_inv conf' gids \<and> stopping (self ` set (sockets (grp conf gid))) conf conf' \<and>
    group_mem conf' = (group_mem conf)(gid \<mapsto> g') \<and> stopped conf' (grp conf gid) g'"
proof -
  note g = mgr_inv_group [OF assms] and e = mgr_inv_env [OF assms(1)]
  obtain conf' g' where r: "stop_group gid conf = Some conf'" "stopping (self ` set (sockets (grp conf gid))) conf conf'"
    "group_mem conf' = (group_mem conf)(gid \<mapsto> g')" "stopped conf' (grp conf gid) g'" "status g' = status (grp conf gid) \<or> status g' = RTR_MGR_CLOSED"
    using stop_group_outcome [OF g mgr_inv_member(2) [OF assms]] e by blast
  have "mgr_inv conf' gids" by (rule mgr_inv_update [OF assms(1) r(2,3) g]) (use r(4,5) in \<open>auto simp: stopped_def\<close>)
  with r show ?thesis by blast
qed

lemma stop_groups_inv:
  assumes "mgr_inv conf gids" "set hs \<subseteq> set gids"
  shows "\<exists>conf'. stop_groups hs conf = Some conf' \<and> mgr_inv conf' gids \<and> (\<forall>h\<in>set gids. h \<in> set hs \<or> idle (grp conf h) \<longrightarrow> idle (grp conf' h))"
  using assms
proof (induction hs arbitrary: conf)
  case (Cons h hs)
  obtain c g' where c: "stop_group h conf = Some c" "mgr_inv c gids" "group_mem c = (group_mem conf)(h \<mapsto> g')" "stopped c (grp conf h) g'"
    using stop_group_inv [OF Cons.prems(1), of h] Cons.prems(2) by auto
  have i: "idle (grp c h)" using c(3,4) by (simp add: grp_def stopped_def)
  have o: "idle (grp conf x) \<longrightarrow> idle (grp c x)" for x using i c(3) by (cases "x = h") (simp_all add: grp_def)
  obtain c' where c': "stop_groups hs c = Some c'" "mgr_inv c' gids" "\<forall>x\<in>set gids. x \<in> set hs \<or> idle (grp c x) \<longrightarrow> idle (grp c' x)"
    using Cons.IH [OF c(2)] Cons.prems(2) by auto
  then have "\<forall>x\<in>set gids. x \<in> set (h # hs) \<or> idle (grp conf x) \<longrightarrow> idle (grp c' x)" using i o by (metis set_ConsD)
  with c(1) c'(1,2) show ?case by simp
qed simp

lemma stop_inv:
  assumes "mgr_inv conf gids"
  shows "\<exists>conf'. rtr_mgr_stop conf = Some conf' \<and> mgr_inv conf' gids \<and> (\<forall>h\<in>set gids. idle (grp conf' h))"
  using stop_groups_inv [OF assms, of gids] assms by (auto simp: rtr_mgr_stop_def mgr_inv_def)

lemma first_is_best:
  assumes "mgr_inv conf gids"
  shows "rtr_mgr_get_first_group conf = Some (hd gids)" "hd gids \<in> set gids" "\<forall>h\<in>set gids. \<not> preference (grp conf h) < preference (grp conf (hd gids))"
proof -
  obtain b rest where b: "gids = b # rest" using assms by (cases gids) (auto simp: mgr_inv_def)
  show "rtr_mgr_get_first_group conf = Some (hd gids)" "hd gids \<in> set gids" using assms b by (auto simp: mgr_inv_def rtr_mgr_get_first_group_def)
  show "\<forall>h\<in>set gids. \<not> preference (grp conf h) < preference (grp conf (hd gids))" using assms b by (auto simp: mgr_inv_def order_ok_def less_not_sym)
qed

lemma start_outcome:
  assumes "mgr_inv conf gids"
  shows "\<exists>rv conf' g'. rtr_mgr_start conf = Some (rv, conf') \<and> (rv = 0 \<longleftrightarrow> idle (grp conf (hd gids))) \<and> mgr_inv conf' gids \<and> stopping {} conf conf' \<and>
    group_mem conf' = (group_mem conf)(hd gids \<mapsto> g') \<and> started (grp conf (hd gids)) g'"
  using start_inv [OF assms first_is_best(2) [OF assms]] first_is_best(1,3) [OF assms] by (auto simp: rtr_mgr_start_def)

lemma start_best_inv:
  assumes "mgr_inv conf gids"
  shows "\<exists>conf'. start_best conf = Some conf' \<and> mgr_inv conf' gids \<and> stopping {} conf conf' \<and> status (grp conf' (hd gids)) \<noteq> RTR_MGR_CLOSED \<and>
    (\<forall>h. h \<noteq> hd gids \<longrightarrow> group_mem conf' h = group_mem conf h) \<and> (\<forall>h. preference (grp conf' h) = preference (grp conf h))"
proof -
  note b = first_is_best [OF assms]
  obtain rv conf' g' where s: "rtr_mgr_start_sockets (hd gids) conf = Some (rv, conf')" "mgr_inv conf' gids" "stopping {} conf conf'"
    "group_mem conf' = (group_mem conf)(hd gids \<mapsto> g')" "started (grp conf (hd gids)) g'"
    using start_inv [OF assms b(2)] b(3) by blast
  have "status g' = RTR_MGR_CONNECTING" if "status (grp conf (hd gids)) = RTR_MGR_CLOSED"
    using s(5) mgr_inv_member(3) [OF assms b(2) that] by (simp add: started_def)
  moreover have "preference (grp conf' h) = preference (grp conf h)" for h
    using s(4,5) by (cases "h = hd gids") (simp_all add: grp_def started_def)
  ultimately show ?thesis using s b(1) mgr_inv_group [OF assms b(2)] assms grp_eq [of conf' "hd gids" g'] by (auto simp: start_best_def)
qed

lemma cmp_tommy_compares: "compares_by (\<lambda>x. preference (snd x)) rtr_mgr_config_cmp_tommy"
  by (auto simp: compares_by_def rtr_mgr_config_cmp_tommy_def rtr_mgr_config_cmp_def dest: less_asym)

lemma sort_groups_outcome:
  assumes "groups conf = Some hs" "\<forall>h\<in>set hs. group_mem conf h \<noteq> None" "length hs < 2 ^ 32"
  shows "\<exists>hs'. sort_groups conf = Some (conf\<lparr>groups := Some hs'\<rparr>) \<and> mset hs' = mset hs \<and> sorted (map (\<lambda>h. preference (grp conf h)) hs')"
proof -
  let ?gs = "map (\<lambda>h. (h, grp conf h)) hs" and ?key = "\<lambda>x :: group_id \<times> rtr_mgr_group. preference (snd x)"
  let ?s = "sort_key ?key ?gs"
  have "tommy_list_sort rtr_mgr_config_cmp_tommy ?gs = Some ?s" by (rule list_sort_correct [OF cmp_tommy_compares]) (use assms(3) in simp)
  then have "sort_groups conf = Some (conf\<lparr>groups := Some (map fst ?s)\<rparr>)"
    using assms(1) read_groups_ok [OF assms(2)] by (simp add: sort_groups_def listed_groups_def)
  moreover have "mset (map fst ?s) = mset hs" by (simp add: image_mset.compositionality comp_def)
  moreover have "\<forall>x\<in>set ?s. snd x = grp conf (fst x)" by auto
  then have "map (\<lambda>h. preference (grp conf h)) (map fst ?s) = map ?key ?s" by simp
  then have "sorted (map (\<lambda>h. preference (grp conf h)) (map fst ?s))" using sorted_sort_key [of ?key ?gs] by (rule ssubst)
  ultimately show ?thesis by blast
qed

lemma sorted_distinct_order:
  assumes "sorted (map (\<lambda>h. preference (grp conf h)) hs)" "distinct (map (\<lambda>h. preference (grp conf h)) hs)"
  shows "order_ok conf hs"
  using assms strict_sorted_iff [of "map (\<lambda>h. preference (grp conf h)) hs"] by (simp add: order_ok_def sorted_wrt_map)

text \<open>A socket as \<open>rtr_mgr_init_sockets\<close> leaves it.\<close>

definition fresh_socket :: "rtr_mgr_config \<Rightarrow> mgr_socket \<Rightarrow> bool" where
  "fresh_socket conf s =
     (thread_id s = 0 \<and> state s = RTR_CLOSED \<and> last_update s = 0 \<and> ptr_pfx s = conf_pfx conf \<and> ptr_spki s = conf_spki conf \<and> ptr_aspa s = conf_aspa conf)"

definition init_intervals_ok :: "u32 \<Rightarrow> u32 \<Rightarrow> u32 \<Rightarrow> bool" where
  "init_intervals_ok refresh expire retry =
     (rtr_check_interval_range refresh RTR_REFRESH_MIN RTR_REFRESH_MAX = RTR_INSIDE_INTERVAL_RANGE \<and>
      rtr_check_interval_range expire RTR_EXPIRATION_MIN RTR_EXPIRATION_MAX = RTR_INSIDE_INTERVAL_RANGE \<and>
      rtr_check_interval_range retry RTR_RETRY_MIN RTR_RETRY_MAX = RTR_INSIDE_INTERVAL_RANGE)"

lemma init_sockets_outcome:
  "\<exists>rv ss'. rtr_mgr_init_sockets ss conf refresh expire retry mode = (rv, ss') \<and> (rv = 0 \<longleftrightarrow> ss = [] \<or> init_intervals_ok refresh expire retry) \<and>
    (rv = 0 \<longrightarrow> map self ss' = map self ss \<and> (\<forall>s\<in>set ss'. fresh_socket conf s))"
proof (induction ss)
  case (Cons s ss)
  let ?c = "ctx_of s (None, None, None) (mgr_allocs conf)"
  obtain rv c where c: "rtr_init ?c None (None, None, None) refresh expire retry mode True = (rv, c)" by force
  have i: "rv = 0 \<longleftrightarrow> init_intervals_ok refresh expire retry" "rv = 0 \<Longrightarrow> thread_id c = 0 \<and> state c = RTR_CLOSED \<and> last_update c = 0 \<and> self c = self s"
    using c by (auto simp: rtr_init_def init_intervals_ok_def Let_def split: if_splits)
  obtain rv' ss' where r: "rtr_mgr_init_sockets ss conf refresh expire retry mode = (rv', ss')" "rv' = 0 \<longleftrightarrow> ss = [] \<or> init_intervals_ok refresh expire retry"
    "rv' = 0 \<longrightarrow> map self ss' = map self ss \<and> (\<forall>s\<in>set ss'. fresh_socket conf s)"
    using Cons.IH by blast
  show ?case
  proof (cases "rv = 0")
    case False
    then have "rtr_mgr_init_sockets (s # ss) conf refresh expire retry mode = (rv, socket_of c s # ss)" using c by simp
    then show ?thesis using i(1) False by auto
  next
    case True
    let ?s = "(socket_of c s)\<lparr>ptr_pfx := conf_pfx conf, ptr_spki := conf_spki conf, ptr_aspa := conf_aspa conf\<rparr>"
    have "rtr_mgr_init_sockets (s # ss) conf refresh expire retry mode = (rv', ?s # ss')" using c r(1) True by (simp add: Let_def)
    then show ?thesis using True i r(2,3) by (auto simp: fresh_socket_def)
  qed
qed simp

lemma insert_group_outcome:
  assumes "False \<notin> set (mgr_allocs conf)"
  shows "\<exists>added rv mem. False \<notin> set mem \<and> (added \<longleftrightarrow> rv = 0) \<and> (added \<longleftrightarrow> sockets g = [] \<or> init_intervals_ok refresh expire retry) \<and>
    (if added then \<exists>g'. preference g' = preference g \<and> status g' = RTR_MGR_CLOSED \<and> map self (sockets g') = map self (sockets g) \<and> (\<forall>s\<in>set (sockets g'). fresh_socket conf s) \<and>
        insert_group conf g refresh expire retry = (True, rv, conf\<lparr>mgr_allocs := mem, next_group := next_group conf + 1,
          groups := map_option (\<lambda>gids. gids @ [next_group conf]) (groups conf), group_mem := (group_mem conf)(next_group conf \<mapsto> g')\<rparr>)
     else insert_group conf g refresh expire retry = (False, rv, conf\<lparr>mgr_allocs := mem\<rparr>))"
proof -
  obtain mem1 where m1: "rtr_malloc (mgr_allocs conf) = (True, mem1)" "False \<notin> set mem1" using rtr_malloc_fine [OF assms] by blast
  obtain mem2 where m2: "rtr_malloc mem1 = (True, mem2)" "False \<notin> set mem2" using rtr_malloc_fine [OF m1(2)] by blast
  let ?c = "conf\<lparr>mgr_allocs := mem1\<rparr>"
  obtain rv ss where r: "rtr_mgr_init_sockets (sockets g) ?c refresh expire retry RTR_INTERVAL_MODE_DEFAULT_MIN_MAX = (rv, ss)"
    "rv = 0 \<longleftrightarrow> sockets g = [] \<or> init_intervals_ok refresh expire retry" "rv = 0 \<longrightarrow> map self ss = map self (sockets g) \<and> (\<forall>s\<in>set ss. fresh_socket ?c s)"
    using init_sockets_outcome by blast
  have f: "fresh_socket ?c = fresh_socket conf" by (rule ext) (simp add: fresh_socket_def)
  show ?thesis
  proof (cases "rv = 0")
    case True
    let ?g = "g\<lparr>sockets := ss, status := RTR_MGR_CLOSED\<rparr>"
    have "insert_group conf g refresh expire retry = (True, rv, conf\<lparr>mgr_allocs := mem2, next_group := next_group conf + 1,
          groups := map_option (\<lambda>gids. gids @ [next_group conf]) (groups conf), group_mem := (group_mem conf)(next_group conf \<mapsto> ?g)\<rparr>)"
      using m1(1) m2(1) r(1) True by (simp add: insert_group_def put_group_def Let_def)
    then show ?thesis using True m2(2) r(2,3) f by (intro exI [of _ True] exI [of _ rv] exI [of _ mem2]) (auto intro!: exI [of _ ?g])
  next
    case False
    then have "insert_group conf g refresh expire retry = (False, rv, conf\<lparr>mgr_allocs := mem1\<rparr>)" using m1(1) r(1) by (simp add: insert_group_def)
    then show ?thesis using False m1(2) r(2) by auto
  qed
qed

lemma group_intervals_outcome:
  assumes "\<forall>x\<in>set gs. sockets (snd x) \<noteq> []"
  shows "\<exists>res. group_intervals gs pref iv = Some res \<and> (isl res \<longleftrightarrow> (\<exists>x\<in>set gs. preference (snd x) = pref))"
  using assms
proof (induction gs pref iv rule: group_intervals.induct)
  case (2 h g rest pref refresh retry expire)
  obtain s ss where s: "sockets g = s # ss" using "2.prems" by (cases "sockets g") auto
  show ?case
  proof (cases "preference g = pref")
    case False
    then show ?thesis using "2.IH" [OF False s] "2.prems" s by auto
  qed simp
qed simp

lemma allocs_inv:
  assumes "mgr_inv conf gids" "False \<notin> set mem"
  shows "mgr_inv (conf\<lparr>mgr_allocs := mem\<rparr>) gids"
proof (rule mgr_inv_step [OF assms(1)])
  show "stopping {} conf (conf\<lparr>mgr_allocs := mem\<rparr>)" using assms(2) by (simp add: stopping_def same_config_def records_kept_def heap_ok_def)
  show "one_serves (conf\<lparr>mgr_allocs := mem\<rparr>) gids" using assms(1) by (simp add: mgr_inv_def one_serves_def grp_def)
qed (use assms(1) in \<open>auto simp: mgr_inv_def member_ok_def\<close>)

lemma fresh_ptrs: "env_ok conf \<Longrightarrow> fresh_socket conf s \<Longrightarrow> ptrs_ok conf s"
  by (simp add: env_ok_def fresh_socket_def ptrs_ok_def)

text \<open>The state between the insertion of a group and the start of the best one.\<close>

lemma inserted_inv:
  assumes "mgr_inv conf gids" "preference g \<notin> (\<lambda>h. preference (grp conf h)) ` set gids" "status g = RTR_MGR_CLOSED" "sockets g \<noteq> []" "\<forall>s\<in>set (sockets g). fresh_socket conf s"
    "mset hs = mset (gids @ [next_group conf])" "False \<notin> set mem"
    "conf' = conf\<lparr>mgr_allocs := mem, next_group := next_group conf + 1, groups := Some hs, group_mem := (group_mem conf)(next_group conf \<mapsto> g), len := len conf + 1\<rparr>"
    "sorted (map (\<lambda>h. preference (grp conf' h)) hs)"
  shows "mgr_inv conf' hs"
proof -
  let ?n = "next_group conf"
  have new: "?n \<notin> set gids" "grp conf' ?n = g" and old: "\<And>h. h \<in> set gids \<Longrightarrow> grp conf' h = grp conf h" "\<And>h. h \<in> set gids \<Longrightarrow> group_mem conf' h = group_mem conf h"
    using assms(1) by (auto simp: mgr_inv_def member_ok_def grp_def assms(8))
  have set: "set hs = insert ?n (set gids)" using mset_eq_setD [OF assms(6)] by simp
  have "distinct (map (\<lambda>h. preference (grp conf h)) gids)" using assms(1) strict_sorted_iff [of "map (\<lambda>h. preference (grp conf h)) gids"]
    by (simp add: mgr_inv_def order_ok_def sorted_wrt_map)
  then have "distinct (map (\<lambda>h. preference (grp conf' h)) (gids @ [?n]))" using new assms(2) old(1) by (simp add: distinct_map inj_on_def)
  moreover have "mset (map (\<lambda>h. preference (grp conf' h)) hs) = mset (map (\<lambda>h. preference (grp conf' h)) (gids @ [?n]))" using assms(6) by (simp only: mset_map)
  ultimately have "distinct (map (\<lambda>h. preference (grp conf' h)) hs)" using mset_eq_imp_distinct_iff by blast
  then have ord: "order_ok conf' hs" using sorted_distinct_order [OF assms(9)] by blast
  have tab: "ptrs_ok conf' s = ptrs_ok conf s" for s by (simp add: assms(8) ptrs_ok_def)
  have env: "env_ok conf" "env_ok conf'" using assms(1,7) by (simp_all add: assms(8) mgr_inv_def env_ok_def heap_ok_def)
  have "member_ok conf' ?n" using new(2) assms(3-5) fresh_ptrs [OF env(1)] tab by (auto simp: member_ok_def sockets_ok_def idle_def fresh_socket_def assms(8))
  moreover have "member_ok conf' h" if "h \<in> set gids" for h
  proof -
    have "h < next_group conf'" using assms(1) that by (auto simp: assms(8) mgr_inv_def member_ok_def)
    moreover have "sockets_ok conf' x = sockets_ok conf x" for x by (simp add: sockets_ok_def tab)
    moreover have "member_ok conf h" using assms(1) that by (simp add: mgr_inv_def)
    ultimately show ?thesis using old(2) [OF that] by (simp add: member_ok_def)
  qed
  moreover have "one_serves conf' hs"
    unfolding one_serves_def
  proof (intro ballI impI)
    fix h x assume h: "h \<in> set hs" "status (grp conf' h) = RTR_MGR_ESTABLISHED" and x: "x \<in> set hs" "preference (grp conf' h) < preference (grp conf' x)"
    have "h \<noteq> ?n" using h(2) new(2) assms(3) by auto
    then have "h \<in> set gids" using h(1) set by auto
    show "status (grp conf' x) = RTR_MGR_CLOSED"
    proof (cases "x = ?n")
      case True
      then show ?thesis using new(2) assms(3) by simp
    next
      case False
      then have "x \<in> set gids" using x(1) set by auto
      then show ?thesis using assms(1) h(2) x(2) \<open>h \<in> set gids\<close> old(1) unfolding mgr_inv_def one_serves_def by metis
    qed
  qed
  moreover have "len conf' = of_nat (length hs)" using assms(1) mset_eq_length [OF assms(6)] by (simp add: assms(8) mgr_inv_def add.commute)
  ultimately show ?thesis using ord set env(2) by (auto simp: mgr_inv_def assms(8))
qed

lemma add_outcome:
  assumes "mgr_inv conf gids" "sockets g \<noteq> []"
  shows "\<exists>rv conf' hs. rtr_mgr_add_group conf g = Some (rv, conf') \<and> mgr_inv conf' hs \<and>
    (if rv = 0 then preference g \<notin> (\<lambda>h. preference (grp conf h)) ` set gids \<and> mset hs = mset (gids @ [next_group conf]) \<and>
       preference (grp conf' (next_group conf)) = preference g \<and> status (grp conf' (hd hs)) \<noteq> RTR_MGR_CLOSED
     else hs = gids \<and> group_mem conf' = group_mem conf)"
proof -
  let ?gs = "map (\<lambda>h. (h, grp conf h)) gids"
  have "\<forall>x\<in>set ?gs. sockets (snd x) \<noteq> []" using mgr_inv_member(1) [OF assms(1)] by auto
  then obtain res where res0: "group_intervals ?gs (preference g) (3600, 600, 7200) = Some res" "isl res \<longleftrightarrow> (\<exists>x\<in>set ?gs. preference (snd x) = preference g)"
    using group_intervals_outcome [of ?gs "preference g" "(3600, 600, 7200)"] by blast
  then have res: "group_intervals ?gs (preference g) (3600, 600, 7200) = Some res" "isl res \<longleftrightarrow> preference g \<in> (\<lambda>h. preference (grp conf h)) ` set gids"
    by (auto simp: image_iff) metis+
  note add = rtr_mgr_add_group_def [of conf g] and l = mgr_inv_listed [OF assms(1)]
  show ?thesis
  proof (cases res)
    case (Inl u)
    then show ?thesis using add l res(1) assms(1) by (intro exI [of _ "-2"] exI [of _ conf] exI [of _ gids]) simp
  next
    case (Inr iv)
    obtain refresh retry expire where iv: "iv = (refresh, retry, expire)" by (cases iv) auto
    have new: "preference g \<notin> (\<lambda>h. preference (grp conf h)) ` set gids" using res(2) Inr by simp
    obtain added rv mem where i: "False \<notin> set mem" "added \<longleftrightarrow> rv = 0"
      "if added then \<exists>g'. preference g' = preference g \<and> status g' = RTR_MGR_CLOSED \<and> map self (sockets g') = map self (sockets g) \<and> (\<forall>s\<in>set (sockets g'). fresh_socket conf s) \<and>
          insert_group conf g refresh expire retry = (True, rv, conf\<lparr>mgr_allocs := mem, next_group := next_group conf + 1,
            groups := map_option (\<lambda>gids. gids @ [next_group conf]) (groups conf), group_mem := (group_mem conf)(next_group conf \<mapsto> g')\<rparr>)
       else insert_group conf g refresh expire retry = (False, rv, conf\<lparr>mgr_allocs := mem\<rparr>)"
      using insert_group_outcome [of conf g refresh expire retry] mgr_inv_env [OF assms(1)] by blast
    show ?thesis
    proof (cases added)
      case False
      then have "rtr_mgr_add_group conf g = Some (rv, conf\<lparr>mgr_allocs := mem\<rparr>)" using add l res(1) Inr iv i(3) by simp
      then show ?thesis using False i(2) allocs_inv [OF assms(1) i(1)] by (intro exI [of _ rv] exI [of _ "conf\<lparr>mgr_allocs := mem\<rparr>"] exI [of _ gids]) simp
    next
      case True
      then obtain g' where g': "preference g' = preference g" "status g' = RTR_MGR_CLOSED" "map self (sockets g') = map self (sockets g)" "\<forall>s\<in>set (sockets g'). fresh_socket conf s"
        "insert_group conf g refresh expire retry = (True, rv, conf\<lparr>mgr_allocs := mem, next_group := next_group conf + 1,
            groups := map_option (\<lambda>gids. gids @ [next_group conf]) (groups conf), group_mem := (group_mem conf)(next_group conf \<mapsto> g')\<rparr>)"
        using i(3) by auto
      let ?c = "conf\<lparr>mgr_allocs := mem, next_group := next_group conf + 1, groups := Some (gids @ [next_group conf]),
        group_mem := (group_mem conf)(next_group conf \<mapsto> g'), len := len conf + 1\<rparr>"
      have gr: "groups conf = Some gids" "length gids \<le> 256" using assms(1) order_at_most_256 by (auto simp: mgr_inv_def)
      have pre: "groups ?c = Some (gids @ [next_group conf])" "\<forall>h\<in>set (gids @ [next_group conf]). group_mem ?c h \<noteq> None" "length (gids @ [next_group conf]) < 2 ^ 32"
        using gr(2) mgr_inv_group [OF assms(1)] by auto
      obtain hs where hs: "sort_groups ?c = Some (?c\<lparr>groups := Some hs\<rparr>)" "mset hs = mset (gids @ [next_group conf])" "sorted (map (\<lambda>h. preference (grp ?c h)) hs)"
        using sort_groups_outcome [OF pre] by blast
      have ne: "sockets g' \<noteq> []" using g'(3) assms(2) by auto
      have inv: "mgr_inv (?c\<lparr>groups := Some hs\<rparr>) hs"
        by (rule inserted_inv [OF assms(1) _ g'(2) ne g'(4) hs(2) i(1)]) (use new g'(1) hs(3) in \<open>auto simp: grp_def\<close>)
      obtain c' where c': "start_best (?c\<lparr>groups := Some hs\<rparr>) = Some c'" "mgr_inv c' hs" "stopping {} (?c\<lparr>groups := Some hs\<rparr>) c'" "status (grp c' (hd hs)) \<noteq> RTR_MGR_CLOSED"
        "\<forall>h. h \<noteq> hd hs \<longrightarrow> group_mem c' h = group_mem (?c\<lparr>groups := Some hs\<rparr>) h" "\<forall>h. preference (grp c' h) = preference (grp (?c\<lparr>groups := Some hs\<rparr>) h)"
        using start_best_inv [OF inv] by blast
      have "rtr_mgr_add_group conf g = Some (0, c')" using add l res(1) Inr iv g'(5) gr(1) hs(1) c'(1) by (simp add: add.commute)
      moreover have "preference (grp c' (next_group conf)) = preference g" using c'(6) g'(1) by (simp add: grp_def)
      ultimately show ?thesis using new hs(2) c'(2,4) by (intro exI [of _ 0] exI [of _ c'] exI [of _ hs]) simp
    qed
  qed
qed

lemma mgr_inv_other:
  assumes "mgr_inv conf gids" "stopping S conf conf'" "\<forall>h\<in>set gids. group_mem conf' h = group_mem conf h"
  shows "mgr_inv conf' gids"
proof (rule mgr_inv_step [OF assms(1,2)])
  show "one_serves conf' gids" using assms(1,3) by (auto simp: mgr_inv_def one_serves_def grp_def)
qed (use assms(1,3) in \<open>auto simp: mgr_inv_def member_ok_def\<close>)

lemma shorter_inv:
  assumes "mgr_inv conf gids" "h \<in> set gids" "length gids \<noteq> 1"
  shows "mgr_inv (conf\<lparr>groups := Some (remove1 h gids), len := len conf - 1\<rparr>) (remove1 h gids)"
proof -
  let ?hs = "remove1 h gids" and ?c = "conf\<lparr>groups := Some (remove1 h gids), len := len conf - 1\<rparr>"
  have l: "length ?hs = length gids - 1" "length gids \<noteq> 0" using assms(2) by (auto simp: length_remove1)
  have "?hs \<noteq> []" using l assms(3) by (cases ?hs) auto
  moreover have "order_ok ?c ?hs"
  proof -
    have "distinct gids" using assms(1) order_distinct by (auto simp: mgr_inv_def)
    then have "?hs = filter (\<lambda>x. x \<noteq> h) gids" by (rule distinct_remove1_removeAll [of gids h, unfolded removeAll_filter_not_eq eq_commute [of h]])
    then show ?thesis using assms(1) by (simp add: mgr_inv_def order_ok_def grp_def sorted_wrt_filter)
  qed
  moreover have sub: "set ?hs \<subseteq> set gids" by (rule set_remove1_subset)
  moreover have "one_serves ?c ?hs" using assms(1) sub unfolding mgr_inv_def one_serves_def by (auto simp: grp_def)
  moreover have "len ?c = of_nat (length ?hs)" using assms(1) l by (cases "length gids") (simp_all add: mgr_inv_def)
  ultimately show ?thesis using assms(1) by (auto simp: mgr_inv_def member_ok_def env_ok_def heap_ok_def sockets_ok_def ptrs_ok_def)
qed

lemma len_is_one:
  assumes "mgr_inv conf gids"
  shows "len conf = 1 \<longleftrightarrow> length gids = 1"
proof -
  have "length gids \<le> 256" "len conf = of_nat (length gids)" using assms order_at_most_256 by (auto simp: mgr_inv_def)
  then have "unat (len conf) = length gids" by (simp add: unat_of_nat take_bit_nat_eq_self)
  then show ?thesis by (metis unat_1 word_unat_eq_iff)
qed

lemma remove_outcome:
  assumes "mgr_inv conf gids"
  shows "\<exists>rv conf' hs. rtr_mgr_remove_group conf pref = Some (rv, conf') \<and> mgr_inv conf' hs \<and>
    (if rv = 0 then \<exists>h\<in>set gids. ucast (preference (grp conf h)) = pref \<and> hs = remove1 h gids \<and> group_mem conf' h = None \<and> status (grp conf' (hd hs)) \<noteq> RTR_MGR_CLOSED
     else conf' = conf \<and> hs = gids \<and> (length gids = 1 \<or> (\<forall>h\<in>set gids. ucast (preference (grp conf h)) \<noteq> pref)))"
proof -
  let ?gs = "map (\<lambda>h. (h, grp conf h)) gids"
  note rm = rtr_mgr_remove_group_def [of conf pref] and l = mgr_inv_listed [OF assms] and e = mgr_inv_env [OF assms]
  show ?thesis
  proof (cases "length gids = 1")
    case True
    then show ?thesis using rm len_is_one [OF assms] assms by (intro exI [of _ "-1"] exI [of _ conf] exI [of _ gids]) simp
  next
    case len: False
    show ?thesis
    proof (cases "find (\<lambda>(h, g). ucast (preference g) = pref) ?gs")
      case None
      then have "\<forall>h\<in>set gids. ucast (preference (grp conf h)) \<noteq> pref" by (auto simp: find_None_iff)
      then show ?thesis using rm l None len len_is_one [OF assms] assms by (intro exI [of _ "-1"] exI [of _ conf] exI [of _ gids]) simp
    next
      case (Some x)
      then obtain h where h: "x = (h, grp conf h)" "h \<in> set gids" "ucast (preference (grp conf h)) = pref" by (auto simp: find_Some_iff)
      let ?hs = "remove1 h gids" and ?c = "conf\<lparr>groups := Some (remove1 h gids), len := len conf - 1\<rparr>"
      have gr: "groups conf = Some gids" "h \<notin> set ?hs" using assms order_distinct by (auto simp: mgr_inv_def)
      note inv = shorter_inv [OF assms h(2) len]
      obtain c1 where c1: "(if status (grp conf h) \<noteq> RTR_MGR_CLOSED then do { conf \<leftarrow> stop_group h ?c; set_status conf h RTR_MGR_CLOSED None } else Some ?c) = Some c1"
        "mgr_inv c1 ?hs"
      proof (cases "status (grp conf h) = RTR_MGR_CLOSED")
        case True
        with inv that show ?thesis by simp
      next
        case False
        have ok: "group_mem ?c h = Some (grp conf h)" "sockets_ok ?c (grp conf h)" "heap_ok ?c" "False \<notin> set (mgr_allocs ?c)"
          using mgr_inv_group [OF assms h(2)] mgr_inv_member(2) [OF assms h(2)] e by (auto simp: sockets_ok_def ptrs_ok_def heap_ok_def)
        obtain c2 g2 where c2: "stop_group h ?c = Some c2" "stopping (self ` set (sockets (grp conf h))) ?c c2" "group_mem c2 = (group_mem ?c)(h \<mapsto> g2)"
          using stop_group_outcome [OF ok] by blast
        obtain c3 where c3: "set_status c2 h RTR_MGR_CLOSED None = Some c3" "quiet c2 c3" "group_mem c3 = (group_mem c2)(h \<mapsto> g2\<lparr>status := RTR_MGR_CLOSED\<rparr>)"
          using set_status_outcome [of c2 h g2] c2(3) by auto
        have "mgr_inv c3 ?hs"
          by (rule mgr_inv_other [OF inv stopping_trans [OF c2(2) quiet_stopping [OF c3(2), of "{}"]]]) (use c2(3) c3(3) gr(2) in auto)
        with False c2(1) c3(1) that show ?thesis by simp
      qed
      obtain c4 where c4: "start_best c1 = Some c4" "mgr_inv c4 ?hs" "status (grp c4 (hd ?hs)) \<noteq> RTR_MGR_CLOSED" using start_best_inv [OF c1(2)] by blast
      let ?d = "c4\<lparr>group_mem := (group_mem c4)(h := None)\<rparr>"
      have "mgr_inv ?d ?hs"
        by (rule mgr_inv_other [OF c4(2), of "{}"]) (use gr(2) in \<open>auto simp: stopping_def same_config_def records_kept_def heap_ok_def\<close>)
      moreover have "hd ?hs \<noteq> h" using first_is_best(2) [OF c4(2)] gr(2) by auto
      then have "status (grp ?d (hd ?hs)) \<noteq> RTR_MGR_CLOSED" using c4(3) by (simp add: grp_def)
      moreover have "rtr_mgr_remove_group conf pref = Some (0, ?d)" using rm l Some h(1) gr(1) len len_is_one [OF assms] c1(1) c4(1) by simp
      ultimately show ?thesis using h(2,3) by (intro exI [of _ 0] exI [of _ ?d] exI [of _ ?hs]) auto
    qed
  qed
qed

section \<open>Setting up\<close>

text \<open>The copy of a group of the caller that the manager keeps.\<close>

definition group_copy :: "rtr_mgr_config \<Rightarrow> rtr_mgr_group \<Rightarrow> rtr_mgr_group \<Rightarrow> bool" where
  "group_copy conf g g' =
     (preference g' = preference g \<and> status g' = RTR_MGR_CLOSED \<and> map self (sockets g') = map self (sockets g) \<and> (\<forall>s\<in>set (sockets g'). fresh_socket conf s))"

lemma insert_groups_outcome:
  assumes "False \<notin> set (mgr_allocs conf)" "init_intervals_ok refresh expire retry"
  shows "\<exists>mem gm. False \<notin> set mem \<and> (\<forall>h<next_group conf. gm h = group_mem conf h) \<and>
    (\<forall>i<length gs. \<exists>g'. gm (next_group conf + i) = Some g' \<and> group_copy conf (gs ! i) g') \<and>
    insert_groups conf gs refresh expire retry = (True, conf\<lparr>mgr_allocs := mem, next_group := next_group conf + length gs,
      groups := map_option (\<lambda>hs. hs @ [next_group conf..<next_group conf + length gs]) (groups conf), group_mem := gm\<rparr>)"
  using assms(1)
proof (induction gs arbitrary: conf)
  case Nil
  have "conf\<lparr>mgr_allocs := mgr_allocs conf, next_group := next_group conf + 0,
      groups := map_option (\<lambda>hs. hs @ [next_group conf..<next_group conf + 0]) (groups conf), group_mem := group_mem conf\<rparr> = conf"
    by (simp add: option.map_ident)
  then show ?case using Nil by (intro exI [of _ "mgr_allocs conf"] exI [of _ "group_mem conf"]) simp
next
  case (Cons g gs)
  let ?n = "next_group conf"
  obtain rv mem g' where i: "False \<notin> set mem" "group_copy conf g g'"
    "insert_group conf g refresh expire retry = (True, rv, conf\<lparr>mgr_allocs := mem, next_group := ?n + 1,
          groups := map_option (\<lambda>gids. gids @ [?n]) (groups conf), group_mem := (group_mem conf)(?n \<mapsto> g')\<rparr>)"
    using insert_group_outcome [OF Cons.prems, of g refresh expire retry] assms(2) by (auto simp: group_copy_def)
  let ?c = "conf\<lparr>mgr_allocs := mem, next_group := ?n + 1, groups := map_option (\<lambda>gids. gids @ [?n]) (groups conf), group_mem := (group_mem conf)(?n \<mapsto> g')\<rparr>"
  obtain mem' gm where r: "False \<notin> set mem'" "\<forall>h<next_group ?c. gm h = group_mem ?c h"
    "\<forall>i<length gs. \<exists>g'. gm (next_group ?c + i) = Some g' \<and> group_copy ?c (gs ! i) g'"
    "insert_groups ?c gs refresh expire retry = (True, ?c\<lparr>mgr_allocs := mem', next_group := next_group ?c + length gs,
      groups := map_option (\<lambda>hs. hs @ [next_group ?c..<next_group ?c + length gs]) (groups ?c), group_mem := gm\<rparr>)"
    using Cons.IH [of ?c] i(1) by auto
  have gc: "group_copy ?c = group_copy conf" by (intro ext) (simp add: group_copy_def fresh_socket_def)
  have "gm ?n = Some g'" using r(2) by simp
  then have "\<forall>k<length (g # gs). \<exists>x. gm (?n + k) = Some x \<and> group_copy conf ((g # gs) ! k) x"
    using r(3) i(2) gc by (auto simp: nth_Cons less_Suc_eq_0_disj split: nat.split)
  moreover have "map_option (\<lambda>hs. hs @ [next_group ?c..<next_group ?c + length gs]) (groups ?c) = map_option (\<lambda>hs. hs @ [?n..<?n + length (g # gs)]) (groups conf)"
    using upt_conv_Cons [of ?n "Suc (?n + length gs)"] by (cases "groups conf") (simp_all del: upt_Suc)
  ultimately show ?case using i(3) r by (intro exI [of _ mem'] exI [of _ gm]) auto
qed

lemma groups_valid_distinct:
  assumes "groups_valid p gs" "sorted (map preference gs)" "\<forall>q. p = Some q \<longrightarrow> (\<forall>g\<in>set gs. q \<le> preference g)"
  shows "distinct (map preference gs) \<and> (\<forall>q. p = Some q \<longrightarrow> q \<notin> preference ` set gs) \<and> (\<forall>g\<in>set gs. sockets g \<noteq> [])"
  using assms
proof (induction p gs rule: groups_valid.induct)
  case (2 p g gs)
  have r: "distinct (map preference gs)" "preference g \<notin> preference ` set gs" "\<forall>x\<in>set gs. sockets x \<noteq> []" using "2.IH" "2.prems" by auto
  have "q \<notin> preference ` set (g # gs)" if "p = Some q" for q
  proof -
    have "q \<noteq> preference g" "q \<le> preference g" using "2.prems" that by auto
    moreover have "preference g \<le> preference x" if "x \<in> set gs" for x using "2.prems"(2) that by auto
    ultimately show ?thesis by fastforce
  qed
  with r "2.prems"(1) show ?case by auto
qed simp

lemma closed_groups_inv:
  assumes "groups conf = Some hs" "hs \<noteq> []" "order_ok conf hs" "len conf = of_nat (length hs)" "env_ok conf"
    "\<forall>h\<in>set hs. h < next_group conf \<and> (\<exists>g. group_mem conf h = Some g \<and> sockets g \<noteq> [] \<and> status g = RTR_MGR_CLOSED \<and> (\<forall>s\<in>set (sockets g). fresh_socket conf s))"
  shows "mgr_inv conf hs"
proof -
  have "member_ok conf h" if "h \<in> set hs" for h
    using assms(6) that fresh_ptrs [OF assms(5)] by (fastforce simp: member_ok_def sockets_ok_def idle_def fresh_socket_def)
  moreover have "one_serves conf hs" using assms(6) by (fastforce simp: one_serves_def grp_def)
  ultimately show ?thesis using assms(1-5) by (simp add: mgr_inv_def)
qed

lemma setup_outcome:
  assumes "env_ok conf" "gs \<noteq> []" "distinct (map preference gs)" "\<forall>g\<in>set gs. sockets g \<noteq> []" "init_intervals_ok refresh expire retry"
  shows "\<exists>conf' hs. rtr_mgr_setup_sockets conf gs refresh expire retry = Some (0, conf') \<and> mgr_inv conf' hs \<and>
    mset (map (\<lambda>h. preference (grp conf' h)) hs) = mset (map preference gs) \<and> (\<forall>h\<in>set hs. status (grp conf' h) = RTR_MGR_CLOSED \<and> (\<exists>g\<in>set gs. group_copy conf g (grp conf' h)))"
proof -
  obtain mem where m: "rtr_malloc (mgr_allocs conf) = (True, mem)" "False \<notin> set mem" using rtr_malloc_fine assms(1) by (auto simp: env_ok_def)
  let ?c = "conf\<lparr>len := of_nat (length gs), mgr_allocs := mem, groups := Some []\<rparr>" and ?n = "next_group conf" and ?l = "length gs"
  obtain mem' gm where r: "False \<notin> set mem'" "\<forall>i<?l. \<exists>g'. gm (?n + i) = Some g' \<and> group_copy ?c (gs ! i) g'"
    "insert_groups ?c gs refresh expire retry = (True, ?c\<lparr>mgr_allocs := mem', next_group := ?n + ?l, groups := Some [?n..<?n + ?l], group_mem := gm\<rparr>)"
    using insert_groups_outcome [of ?c refresh expire retry gs] m(2) assms(5) by auto
  let ?d = "?c\<lparr>mgr_allocs := mem', next_group := ?n + ?l, groups := Some [?n..<?n + ?l], group_mem := gm\<rparr>"
  have gc: "group_copy ?c = group_copy conf" by (intro ext) (simp add: group_copy_def fresh_socket_def)
  have at: "gm (?n + i) = Some (grp ?d (?n + i)) \<and> group_copy conf (gs ! i) (grp ?d (?n + i))" if "i < ?l" for i using r(2) that gc by (auto simp: grp_def)
  have ex: "group_mem ?d h \<noteq> None \<and> (\<exists>g\<in>set gs. group_copy conf g (grp ?d h))" if h: "h \<in> set [?n..<?n + ?l]" for h
  proof -
    obtain i where "h = ?n + i" "i < ?l" using h by (auto simp: nat_le_iff_add)
    then show ?thesis using at [of i] nth_mem [of i gs] by auto
  qed
  have prefs: "map (\<lambda>h. preference (grp ?d h)) [?n..<?n + ?l] = map preference gs"
    using at by (intro nth_equalityI) (auto simp: group_copy_def)
  then have "distinct (map (\<lambda>h. preference (grp ?d h)) [?n..<?n + ?l])" using assms(3) by simp
  then have "length (map preference gs) \<le> 256" using prefs assms(3) distinct_card [of "map preference gs"] card_mono [of "UNIV :: u8 set" "set (map preference gs)"] by (simp add: card_word)
  then have pre: "groups ?d = Some [?n..<?n + ?l]" "\<forall>h\<in>set [?n..<?n + ?l]. group_mem ?d h \<noteq> None" "length [?n..<?n + ?l] < 2 ^ 32" using ex by auto
  obtain hs where hs: "sort_groups ?d = Some (?d\<lparr>groups := Some hs\<rparr>)" "mset hs = mset [?n..<?n + ?l]" "sorted (map (\<lambda>h. preference (grp ?d h)) hs)"
    using sort_groups_outcome [OF pre] by blast
  let ?e = "?d\<lparr>groups := Some hs\<rparr>"
  have e: "grp ?e = grp ?d" "group_mem ?e = group_mem ?d" by (auto simp: grp_def)
  have set: "set hs = set [?n..<?n + ?l]" using mset_eq_setD [OF hs(2)] .
  have pm: "mset (map (\<lambda>h. preference (grp ?e h)) hs) = mset (map preference gs)" 
    unfolding e(1) prefs [symmetric] by (simp only: mset_map hs(2))
  have "mgr_inv ?e hs"
  proof (rule closed_groups_inv)
    show "order_ok ?e hs" using sorted_distinct_order [of ?e hs] hs(3) e(1) mset_eq_imp_distinct_iff [OF pm] assms(3) by simp
    show "\<forall>h\<in>set hs. h < next_group ?e \<and> (\<exists>g. group_mem ?e h = Some g \<and> sockets g \<noteq> [] \<and> status g = RTR_MGR_CLOSED \<and> (\<forall>s\<in>set (sockets g). fresh_socket ?e s))"
    proof
      fix h assume h: "h \<in> set hs"
      then obtain g where g: "g \<in> set gs" "group_copy conf g (grp ?d h)" "group_mem ?d h \<noteq> None" using ex set by blast
      moreover have "sockets (grp ?d h) \<noteq> []" using g(1,2) assms(4) by (auto simp: group_copy_def)
      ultimately show "h < next_group ?e \<and> (\<exists>g. group_mem ?e h = Some g \<and> sockets g \<noteq> [] \<and> status g = RTR_MGR_CLOSED \<and> (\<forall>s\<in>set (sockets g). fresh_socket ?e s))"
        using h set by (auto simp: group_copy_def fresh_socket_def grp_def)
    qed
    show "len ?e = of_nat (length hs)" "hs \<noteq> []" using mset_eq_length [OF hs(2)] assms(2) by auto
    show "env_ok ?e" using assms(1) r(1) by (simp add: env_ok_def heap_ok_def)
  qed simp
  moreover have "rtr_mgr_setup_sockets conf gs refresh expire retry = Some (0, ?e)" using m(1) r(3) hs(1) by (simp add: rtr_mgr_setup_sockets_def)
  moreover have "\<forall>h\<in>set hs. status (grp ?e h) = RTR_MGR_CLOSED \<and> (\<exists>g\<in>set gs. group_copy conf g (grp ?e h))"
    unfolding e(1) set using ex unfolding group_copy_def by blast
  ultimately show ?thesis using pm by blast
qed

end
