(* ===== verification/Mgr_Runs.thy ===== *)
theory Mgr_Runs
  imports Mgr_Props
begin

text \<open>
  Runs of the connection manager: calls of the application, callbacks of the sockets and the work of the
  processing threads in any order. The theorems state what holds in all of them, how the manager switches to
  another group and back, and what is left behind when it is stopped.
\<close>

section \<open>Runs\<close>

text \<open>
  A thread changes its own socket and the tables, and keeps the identity of the socket, its thread and its
  pointers; whether the tables stay in order is up to the tables (theories \<open>Pfx_Props\<close>, \<open>Spki_Table\<close>,
  \<open>Aspa_Update\<close>). A callback comes from a running socket; the one for \<open>RTR_SHUTDOWN\<close> is part of stopping.
\<close>

inductive mgr_move :: "rtr_mgr_config \<Rightarrow> rtr_mgr_config \<Rightarrow> bool" where
  thread_works: "groups conf = Some gids \<Longrightarrow> gid \<in> set gids \<Longrightarrow> get_socket conf gid j = Some s \<Longrightarrow> thread_id s \<noteq> 0 \<Longrightarrow>
    same_socket s s' \<Longrightarrow> thread_id s' = thread_id s \<Longrightarrow>
    length ps = length (pfx_mem conf) \<Longrightarrow> length ks = length (spki_mem conf) \<Longrightarrow> length as = length (aspa_mem conf) \<Longrightarrow> False \<notin> set mem \<Longrightarrow>
    conf' = put_socket gid j s' (conf\<lparr>pfx_mem := ps, spki_mem := ks, aspa_mem := as, mgr_allocs := mem\<rparr>) \<Longrightarrow> heap_ok conf' \<Longrightarrow> mgr_move conf conf'"
| socket_reports: "groups conf = Some gids \<Longrightarrow> gid \<in> set gids \<Longrightarrow> get_socket conf gid j = Some s \<Longrightarrow> thread_id s \<noteq> 0 \<Longrightarrow> st \<noteq> RTR_SHUTDOWN \<Longrightarrow>
    rtr_mgr_cb (self s) st conf (Some gid) = Some conf' \<Longrightarrow> mgr_move conf conf'"
| app_starts: "rtr_mgr_start conf = Some (rv, conf') \<Longrightarrow> mgr_move conf conf'"
| app_stops: "rtr_mgr_stop conf = Some conf' \<Longrightarrow> mgr_move conf conf'"
| app_adds: "sockets g \<noteq> [] \<Longrightarrow> rtr_mgr_add_group conf g = Some (rv, conf') \<Longrightarrow> mgr_move conf conf'"
| app_removes: "rtr_mgr_remove_group conf pref = Some (rv, conf') \<Longrightarrow> mgr_move conf conf'"

inductive mgr_run :: "rtr_mgr_config \<Rightarrow> rtr_mgr_config \<Rightarrow> bool" where
  mgr_rests: "mgr_run conf conf"
| mgr_moves: "mgr_run conf conf1 \<Longrightarrow> mgr_move conf1 conf2 \<Longrightarrow> mgr_run conf conf2"

lemma running_not_closed:
  assumes "mgr_inv conf gids" "gid \<in> set gids" "get_socket conf gid j = Some s" "thread_id s \<noteq> 0"
  shows "status (grp conf gid) \<noteq> RTR_MGR_CLOSED"
proof -
  have "s \<in> set (sockets (grp conf gid))" using assms(3) mgr_inv_group [OF assms(1,2)] by (auto simp: get_socket_def split: if_splits)
  then show ?thesis using mgr_inv_member(3) [OF assms(1,2)] assms(4) by (auto simp: idle_def)
qed

lemma thread_works_inv:
  assumes "mgr_inv conf gids" "gid \<in> set gids" "get_socket conf gid j = Some s" "thread_id s \<noteq> 0" "same_socket s s'"
    "length ps = length (pfx_mem conf)" "length ks = length (spki_mem conf)" "length as = length (aspa_mem conf)" "False \<notin> set mem"
    "conf' = put_socket gid j s' (conf\<lparr>pfx_mem := ps, spki_mem := ks, aspa_mem := as, mgr_allocs := mem\<rparr>)" "heap_ok conf'"
  shows "mgr_inv conf' gids"
proof -
  let ?g = "grp conf gid" and ?g' = "(grp conf gid)\<lparr>sockets := (sockets (grp conf gid))[j := s']\<rparr>"
  note g = mgr_inv_group [OF assms(1,2)]
  have j: "j < length (sockets ?g)" "sockets ?g ! j = s" using assms(3) g by (auto simp: get_socket_def split: if_splits)
  have c: "conf' = conf\<lparr>pfx_mem := ps, spki_mem := ks, aspa_mem := as, mgr_allocs := mem, group_mem := (group_mem conf)(gid \<mapsto> ?g')\<rparr>"
    using assms(10) g by (simp add: put_socket_def put_group_def)
  have len: "length (pfx_mem conf') = length (pfx_mem conf)" "length (spki_mem conf') = length (spki_mem conf)" "length (aspa_mem conf') = length (aspa_mem conf)"
    using assms(6-8) by (simp_all add: c)
  note d = deref_same_length [OF len(1)] deref_same_length [OF len(2)] deref_same_length [OF len(3)]
  have p: "ptrs_ok conf' = ptrs_ok conf" by (rule ext) (simp only: ptrs_ok_def d)
  have gr: "grp conf' h = (if h = gid then ?g' else grp conf h)" for h by (simp add: c grp_def)
  have same: "preference (grp conf' h) = preference (grp conf h)" "status (grp conf' h) = status (grp conf h)" for h by (simp_all add: gr)
  have "ptrs_ok conf s'" using assms(5) mgr_inv_member(2) [OF assms(1,2)] j ptrs_ok_same by (metis nth_mem sockets_ok_def)
  then have ok': "sockets_ok conf' ?g'" using mgr_inv_member(2) [OF assms(1,2)] p by (auto simp: sockets_ok_def dest!: set_update_subset_insert [THEN subsetD])
  have nc: "status ?g \<noteq> RTR_MGR_CLOSED" by (rule running_not_closed [OF assms(1-4)])
  have "member_ok conf' h" if "h \<in> set gids" for h
  proof (cases "h = gid")
    case True
    then show ?thesis using ok' nc mgr_inv_member(1) [OF assms(1,2)] assms(1,2) by (auto simp: member_ok_def c mgr_inv_def)
  next
    case False
    have "member_ok conf h" using assms(1) that by (simp add: mgr_inv_def)
    moreover have "sockets_ok conf' x = sockets_ok conf x" for x by (simp add: sockets_ok_def p)
    ultimately show ?thesis using False by (simp add: member_ok_def) (simp add: c)
  qed
  moreover have "order_ok conf' gids = order_ok conf gids" "one_serves conf' gids = one_serves conf gids"
    by (simp_all add: order_ok_def one_serves_def same)
  moreover have "env_ok conf'" 
  proof -
    have "conf_pfx conf' = conf_pfx conf" "conf_spki conf' = conf_spki conf" "conf_aspa conf' = conf_aspa conf" "thread_answers conf' = thread_answers conf" "mgr_allocs conf' = mem"
      by (simp_all add: c)
    moreover have "env_ok conf" using assms(1) by (simp add: mgr_inv_def)
    ultimately show ?thesis using assms(9,11) unfolding env_ok_def by (simp only: d) simp
  qed
  ultimately show ?thesis using assms(1) by (simp add: mgr_inv_def) (simp add: c)
qed

lemma mgr_move_inv:
  assumes "mgr_move conf conf'" "mgr_inv conf gids"
  shows "\<exists>hs. mgr_inv conf' hs"
  using assms
proof (cases rule: mgr_move.cases)
  case (thread_works gids' gid j s s' ps ks as mem)
  then show ?thesis using thread_works_inv [of conf gids gid j s s' ps ks as mem conf'] assms(2) by (auto simp: mgr_inv_def)
next
  case (socket_reports gids' gid j s st)
  then have gid: "gid \<in> set gids" using assms(2) by (simp add: mgr_inv_def)
  show ?thesis
    using callback_outcome [OF assms(2) gid running_not_closed [OF assms(2) gid socket_reports(3,4)] socket_reports(5), of "self s"] socket_reports(6) by auto
next
  case (app_starts rv)
  then show ?thesis using start_outcome [OF assms(2)] by auto
next
  case app_stops
  then show ?thesis using stop_inv [OF assms(2)] by auto
next
  case (app_adds g rv)
  then show ?thesis using add_outcome [OF assms(2)] by fastforce
next
  case (app_removes pref rv)
  then show ?thesis using remove_outcome [OF assms(2), of pref] by auto
qed

lemma mgr_run_inv: "mgr_run conf conf' \<Longrightarrow> mgr_inv conf gids \<Longrightarrow> \<exists>hs. mgr_inv conf' hs"
  by (induction rule: mgr_run.induct) (blast dest: mgr_move_inv)+

section \<open>What stopping leaves behind\<close>

text \<open>The states of the sockets after a group has been stopped, and when its status stays.\<close>

definition halted :: "nat set \<Rightarrow> rtr_mgr_group \<Rightarrow> rtr_mgr_group \<Rightarrow> bool" where
  "halted J g g' =
     (length (sockets g') = length (sockets g) \<and>
      (\<forall>j<length (sockets g). if j \<in> J then state (sockets g' ! j) = (if thread_id (sockets g ! j) = 0 then RTR_SHUTDOWN else RTR_CLOSED)
                            else sockets g' ! j = sockets g ! j) \<and>
      (2 \<le> length (sockets g) \<and> (\<forall>s\<in>set (sockets g). state s \<noteq> RTR_SHUTDOWN) \<and> (\<forall>j\<in>J. thread_id (sockets g ! j) \<noteq> 0) \<longrightarrow> status g' = status g))"

lemma stop_sockets_halts:
  assumes "group_mem conf gid = Some g" "distinct js" "\<forall>j\<in>set js. j < length (sockets g)" "sockets_ok conf g" "heap_ok conf" "False \<notin> set (mgr_allocs conf)"
  shows "\<exists>conf' g'. stop_sockets gid js conf = Some conf' \<and> group_mem conf' gid = Some g' \<and> halted (set js) g g'"
  using assms
proof (induction js arbitrary: conf g)
  case Nil
  then show ?case by (auto simp: halted_def)
next
  case (Cons j js)
  let ?s = "sockets g ! j"
  have j: "j < length (sockets g)" "ptrs_ok conf ?s" "j \<notin> set js" using Cons.prems(2-4) by (auto simp: sockets_ok_def)
  obtain c s' st where c: "stop_socket gid j conf = Some c" "stopping {self ?s} conf c" "group_mem c = (group_mem conf)(gid \<mapsto> g\<lparr>sockets := (sockets g)[j := s'], status := st\<rparr>)"
    "(\<exists>k<length (sockets g). k \<noteq> j \<and> state (sockets g ! k) \<noteq> RTR_SHUTDOWN) \<longrightarrow> st = status g" "same_socket ?s s'"
    "state s' = (if thread_id ?s = 0 then RTR_SHUTDOWN else RTR_CLOSED)"
    using stop_socket_outcome [OF Cons.prems(1) j(1,2) Cons.prems(5,6)] by metis
  let ?g = "g\<lparr>sockets := (sockets g)[j := s'], status := st\<rparr>"
  have same: "list_all2 same_socket (sockets g) (sockets ?g)" using same_socket_update [OF same_sockets_refl j(1) c(5)] by simp
  have ok: "group_mem c gid = Some ?g" "distinct js" "\<forall>j\<in>set js. j < length (sockets ?g)" "sockets_ok c ?g" "heap_ok c" "False \<notin> set (mgr_allocs c)"
    using c(2,3) Cons.prems same_sockets_ok [OF same] by (auto simp: stopping_def)
  obtain c' g' where c': "stop_sockets gid js c = Some c'" "group_mem c' gid = Some g'" "halted (set js) ?g g'" using Cons.IH [OF ok] by blast
  have len: "length (sockets g') = length (sockets g)" using c'(3) by (simp add: halted_def)
  have at: "if i \<in> set (j # js) then state (sockets g' ! i) = (if thread_id (sockets g ! i) = 0 then RTR_SHUTDOWN else RTR_CLOSED)
      else sockets g' ! i = sockets g ! i" if i: "i < length (sockets g)" for i
  proof -
    have r: "if i \<in> set js then state (sockets g' ! i) = (if thread_id (sockets ?g ! i) = 0 then RTR_SHUTDOWN else RTR_CLOSED) else sockets g' ! i = sockets ?g ! i"
      using c'(3) i by (simp add: halted_def)
    show ?thesis
    proof (cases "i = j")
      case True
      then show ?thesis using r j c(6) by simp
    next
      case False
      then show ?thesis using r by simp
    qed
  qed
  have "status g' = status g" if a: "2 \<le> length (sockets g)" "\<forall>s\<in>set (sockets g). state s \<noteq> RTR_SHUTDOWN" "\<forall>i\<in>set (j # js). thread_id (sockets g ! i) \<noteq> 0"
  proof -
    obtain k where "k < length (sockets g)" "k \<noteq> j" using a(1) by (metis Suc_le_lessD less_trans_Suc linorder_neqE_nat numeral_2_eq_2 one_less_numeral_iff zero_less_Suc not_less_eq less_Suc0 zero_neq_one)
    then have "st = status g" using c(4) a(2) nth_mem by blast
    moreover have "\<forall>s\<in>set (sockets ?g). state s \<noteq> RTR_SHUTDOWN" using a(2,3) c(6) by (auto dest!: set_update_subset_insert [THEN subsetD])
    moreover have "\<forall>i\<in>set js. thread_id (sockets ?g ! i) \<noteq> 0" using a(3) j(3) by (simp add: nth_list_update_neq) (metis nth_list_update_neq)
    ultimately show ?thesis using c'(3) a(1) by (simp add: halted_def)
  qed
  then have "halted (set (j # js)) g g'" using len at unfolding halted_def by blast
  then show ?case using c(1) c'(1,2) by auto
qed

lemma stop_group_halts:
  assumes "mgr_inv conf gids" "gid \<in> set gids"
  shows "\<exists>conf' g'. stop_group gid conf = Some conf' \<and> mgr_inv conf' gids \<and> group_mem conf' = (group_mem conf)(gid \<mapsto> g') \<and> idle g' \<and>
    halted {..<length (sockets (grp conf gid))} (grp conf gid) g'"
proof -
  note g = mgr_inv_group [OF assms] and e = mgr_inv_env [OF assms(1)]
  obtain conf' g' where r: "stop_group gid conf = Some conf'" "mgr_inv conf' gids" "group_mem conf' = (group_mem conf)(gid \<mapsto> g')" "stopped conf' (grp conf gid) g'"
    using stop_group_inv [OF assms] by blast
  obtain conf2 g2 where h: "stop_sockets gid [0..<length (sockets (grp conf gid))] conf = Some conf2" "group_mem conf2 gid = Some g2"
    "halted (set [0..<length (sockets (grp conf gid))]) (grp conf gid) g2"
    using stop_sockets_halts [OF g, of "[0..<length (sockets (grp conf gid))]"] mgr_inv_member(2) [OF assms] e by auto
  have "conf2 = conf'" using h(1) r(1) g by (simp add: stop_group_def)
  then have "g2 = g'" using h(2) r(3) by simp
  with h(3) r show ?thesis by (auto simp: atLeast0LessThan stopped_def)
qed

lemma stop_groups_halts:
  assumes "mgr_inv conf gids" "set hs \<subseteq> set gids" "distinct hs"
  shows "\<exists>conf'. stop_groups hs conf = Some conf' \<and> mgr_inv conf' gids \<and>
    (\<forall>h\<in>set gids. if h \<in> set hs then idle (grp conf' h) \<and> halted {..<length (sockets (grp conf h))} (grp conf h) (grp conf' h) else grp conf' h = grp conf h)"
  using assms
proof (induction hs arbitrary: conf)
  case (Cons x hs)
  obtain c g' where c: "stop_group x conf = Some c" "mgr_inv c gids" "group_mem c = (group_mem conf)(x \<mapsto> g')" "idle g'"
    "halted {..<length (sockets (grp conf x))} (grp conf x) g'"
    using stop_group_halts [OF Cons.prems(1), of x] Cons.prems(2) by auto
  obtain c' where c': "stop_groups hs c = Some c'" "mgr_inv c' gids"
    "\<forall>h\<in>set gids. if h \<in> set hs then idle (grp c' h) \<and> halted {..<length (sockets (grp c h))} (grp c h) (grp c' h) else grp c' h = grp c h"
    using Cons.IH [OF c(2)] Cons.prems(2,3) by auto
  have "if h \<in> set (x # hs) then idle (grp c' h) \<and> halted {..<length (sockets (grp conf h))} (grp conf h) (grp c' h) else grp c' h = grp conf h"
    if h: "h \<in> set gids" for h
  proof (cases "h = x")
    case True
    moreover have "grp c x = g'" using c(3) by (simp add: grp_def)
    moreover have "grp c' x = grp c x" using c'(3) h True Cons.prems(3) by simp
    ultimately show ?thesis using c(4,5) by simp
  next
    case False
    then have "grp c h = grp conf h" using c(3) by (simp add: grp_def)
    then show ?thesis using c'(3) h False by auto
  qed
  then show ?case using c(1) c'(1,2) by auto
qed simp

lemma stop_halts:
  assumes "mgr_inv conf gids"
  shows "\<exists>conf'. rtr_mgr_stop conf = Some conf' \<and> mgr_inv conf' gids \<and>
    (\<forall>h\<in>set gids. idle (grp conf' h) \<and> halted {..<length (sockets (grp conf h))} (grp conf h) (grp conf' h))"
proof -
  have "groups conf = Some gids" "distinct gids" using assms order_distinct by (auto simp: mgr_inv_def)
  then show ?thesis using stop_groups_halts [OF assms, of gids] by (auto simp: rtr_mgr_stop_def)
qed

section \<open>From the initialisation on\<close>

lemma tables_init_fine: "pfx_inv (rtr_pfx_table_init fp)" "spki_inv (spki_table_init fp)" "aspa_fine (rtr_aspa_table_init fp)"
  using spki_inv_init by (simp_all add: rtr_pfx_table_init_def pfx_inv_def pfx_trie_inv_def aspa_fine_def rtr_aspa_table_init_def store_ok_def)

lemma setup_needs_intervals:
  assumes "rtr_mgr_setup_sockets conf gs refresh expire retry = Some (0, conf')" "False \<notin> set (mgr_allocs conf)" "gs \<noteq> []" "\<forall>g\<in>set gs. sockets g \<noteq> []"
  shows "init_intervals_ok refresh expire retry"
proof (rule ccontr)
  assume no: "\<not> init_intervals_ok refresh expire retry"
  obtain mem where m: "rtr_malloc (mgr_allocs conf) = (True, mem)" "False \<notin> set mem" using rtr_malloc_fine assms(2) by blast
  obtain g rest where gs: "gs = g # rest" "sockets g \<noteq> []" using assms(3,4) by (cases gs) auto
  let ?c = "conf\<lparr>len := of_nat (length gs), mgr_allocs := mem, groups := Some []\<rparr>"
  obtain rv c where "insert_group ?c g refresh expire retry = (False, rv, c)"
    using insert_group_outcome [of ?c g refresh expire retry] m(2) no gs(2) by (metis rtr_mgr_config.select_convs(14) rtr_mgr_config.surjective rtr_mgr_config.update_convs(1,14))
  then show False using assms(1) m(1) gs(1) by (simp add: rtr_mgr_setup_sockets_def Let_def)
qed

lemma set_up_inv:
  assumes "False \<notin> set mem" "rtr_mgr_init zeroed lock_ok [] mem gs fp = Some (0, gs', Some c0)"
    "rtr_mgr_add_roa_support (Some c0) f1 = (0, Some c1)" "rtr_mgr_add_aspa_support (Some c1) f2 = (0, Some c2)"
    "rtr_mgr_add_spki_support (Some c2) f3 = (0, Some c3)" "rtr_mgr_setup_sockets c3 gs' refresh expire retry = Some (0, conf)"
  shows "\<exists>hs. mgr_inv conf hs"
proof -
  obtain mem0 where m: "rtr_malloc mem = (True, mem0)" "False \<notin> set mem0" using rtr_malloc_fine [OF assms(1)] by blast
  have i: "gs \<noteq> []" "gs' = sort_key preference gs" "groups_valid None gs'" "c0 = (raw_config zeroed [] mem0 (of_nat (length gs)))\<lparr>status_fp := fp\<rparr>"
    using assms(2) m(1) by (auto simp: rtr_mgr_init_def Let_def split: if_splits)
  have gs': "gs' \<noteq> []" "distinct (map preference gs')" "\<forall>g\<in>set gs'. sockets g \<noteq> []"
    using groups_valid_distinct [OF i(3)] i(1,2) by (auto simp: set_empty [symmetric] simp del: set_empty)
  obtain mem1 where m1: "rtr_malloc mem0 = (True, mem1)" "False \<notin> set mem1" using rtr_malloc_fine [OF m(2)] by blast
  obtain mem2 where m2: "rtr_malloc mem1 = (True, mem2)" "False \<notin> set mem2" using rtr_malloc_fine [OF m1(2)] by blast
  obtain mem3 where m3: "rtr_malloc mem2 = (True, mem3)" "False \<notin> set mem3" using rtr_malloc_fine [OF m2(2)] by blast
  have c: "c1 = c0\<lparr>mgr_allocs := mem1, pfx_mem := [rtr_pfx_table_init f1], conf_pfx := Ptr 0\<rparr>" "c2 = c1\<lparr>mgr_allocs := mem2, aspa_mem := [rtr_aspa_table_init f2], conf_aspa := Ptr 0\<rparr>"
    "c3 = c2\<lparr>mgr_allocs := mem3, spki_mem := [spki_table_init f3], conf_spki := Ptr 0\<rparr>"
    using assms(3-5) m1(1) m2(1) m3(1) i(4)
    by (auto simp: rtr_mgr_add_roa_support_def rtr_mgr_add_aspa_support_def rtr_mgr_add_spki_support_def raw_config_def Let_def)
  have env: "env_ok c3" using m3(2) tables_init_fine by (simp add: c i(4) raw_config_def env_ok_def heap_ok_def Let_def)
  have iv: "init_intervals_ok refresh expire retry" by (rule setup_needs_intervals [OF assms(6) _ gs'(1,3)]) (use m3(2) in \<open>simp add: c\<close>)
  show ?thesis using setup_outcome [OF env gs' iv] assms(6) by auto
qed

section \<open>Properties\<close>

text \<open>C7: as long as threads can be created and allocations succeed, whatever the application calls and the sockets
  report after the manager has been set up, its groups stay in the order of their preferences, and beside an established group no less preferable group is in use: those
  groups are closed and none of their threads runs. So at most one group is established.\<close>

theorem one_group_serves:
  assumes "False \<notin> set mem" "rtr_mgr_init zeroed lock_ok [] mem gs fp = Some (0, gs', Some c0)"
    "rtr_mgr_add_roa_support (Some c0) f1 = (0, Some c1)" "rtr_mgr_add_aspa_support (Some c1) f2 = (0, Some c2)"
    "rtr_mgr_add_spki_support (Some c2) f3 = (0, Some c3)" "rtr_mgr_setup_sockets c3 gs' refresh expire retry = Some (0, conf)"
    "mgr_run conf conf'"
  shows "\<exists>hs. listed_groups conf' = Some hs \<and> hs \<noteq> [] \<and> sorted_wrt (\<lambda>(h, g) (x, k). preference g < preference k) hs \<and>
    (\<forall>(h, g)\<in>set hs. status g = RTR_MGR_ESTABLISHED \<longrightarrow>
       (\<forall>(x, k)\<in>set hs. preference g < preference k \<longrightarrow> status k = RTR_MGR_CLOSED \<and> (\<forall>s\<in>set (sockets k). thread_id s = 0)))"
proof -
  obtain gids where inv: "mgr_inv conf' gids" using mgr_run_inv [OF assms(7)] set_up_inv [OF assms(1-6)] by blast
  let ?hs = "map (\<lambda>h. (h, grp conf' h)) gids"
  have b: "gids \<noteq> []" "sorted_wrt (\<lambda>(h, g) (x, k). preference g < preference k) ?hs" using inv by (auto simp: mgr_inv_def order_ok_def sorted_wrt_map)
  have key: "status (grp conf' x) = RTR_MGR_CLOSED \<and> (\<forall>s\<in>set (sockets (grp conf' x)). thread_id s = 0)"
    if a: "h \<in> set gids" "status (grp conf' h) = RTR_MGR_ESTABLISHED" "x \<in> set gids" "preference (grp conf' h) < preference (grp conf' x)" for h x
  proof -
    have "status (grp conf' x) = RTR_MGR_CLOSED" using inv a unfolding mgr_inv_def one_serves_def by metis
    then show ?thesis using mgr_inv_member(3) [OF inv a(3)] by (simp add: idle_def)
  qed
  have "\<forall>(h, g)\<in>set ?hs. status g = RTR_MGR_ESTABLISHED \<longrightarrow>
       (\<forall>(x, k)\<in>set ?hs. preference g < preference k \<longrightarrow> status k = RTR_MGR_CLOSED \<and> (\<forall>s\<in>set (sockets k). thread_id s = 0))"
  proof
    fix p assume "p \<in> set ?hs"
    then obtain h where p: "p = (h, grp conf' h)" "h \<in> set gids" by auto
    show "case p of (h, g) \<Rightarrow> status g = RTR_MGR_ESTABLISHED \<longrightarrow>
       (\<forall>(x, k)\<in>set ?hs. preference g < preference k \<longrightarrow> status k = RTR_MGR_CLOSED \<and> (\<forall>s\<in>set (sockets k). thread_id s = 0))"
      unfolding p(1) prod.case
    proof (intro impI ballI)
      fix q assume e: "status (grp conf' h) = RTR_MGR_ESTABLISHED" and "q \<in> set ?hs"
      then obtain x where q: "q = (x, grp conf' x)" "x \<in> set gids" by auto
      show "case q of (x, k) \<Rightarrow> preference (grp conf' h) < preference k \<longrightarrow> status k = RTR_MGR_CLOSED \<and> (\<forall>s\<in>set (sockets k). thread_id s = 0)"
        unfolding q(1) prod.case by (rule impI) (rule key [OF p(2) e q(2)])
    qed
  qed
  with b show ?thesis using mgr_inv_listed [OF inv] by (intro exI [of _ ?hs] conjI) (assumption | simp)+
qed

definition demo_socket :: "socket_id \<Rightarrow> nat \<Rightarrow> rtr_socket_state \<Rightarrow> int \<Rightarrow> mgr_socket" where
  "demo_socket me tid st upd =
     (rtr_socket.extend (rtr_socket.truncate (sample_socket [])) (mgr_socket.fields (Ptr 0) (Ptr 0) (Ptr 0)))
       \<lparr>self := me, thread_id := tid, state := st, last_update := upd, connection_state_fp := True\<rparr>"

lemma demo_socket_fields [simp]:
  "self (demo_socket me tid st upd) = me" "thread_id (demo_socket me tid st upd) = tid" "state (demo_socket me tid st upd) = st"
  "last_update (demo_socket me tid st upd) = upd" "ptr_pfx (demo_socket me tid st upd) = Ptr 0" "ptr_spki (demo_socket me tid st upd) = Ptr 0"
  "ptr_aspa (demo_socket me tid st upd) = Ptr 0"
  by (simp_all add: demo_socket_def rtr_socket.extend_def mgr_socket.fields_def)

definition demo_group :: "mgr_socket list \<Rightarrow> u8 \<Rightarrow> rtr_mgr_status \<Rightarrow> rtr_mgr_group" where
  "demo_group ss pref st = \<lparr>sockets = ss, preference = pref, status = st\<rparr>"

lemma demo_group_fields [simp]: "sockets (demo_group ss p st) = ss" "preference (demo_group ss p st) = p" "status (demo_group ss p st) = st"
  by (simp_all add: demo_group_def)

definition demo_groups :: "rtr_mgr_group list" where
  "demo_groups = [demo_group [demo_socket 1 0 RTR_CLOSED 0] 2 RTR_MGR_CLOSED, demo_group [demo_socket 2 0 RTR_CLOSED 0] 1 RTR_MGR_CLOSED]"

theorem one_group_serves_witness:
  "\<exists>c0 c1 c2 c3 conf rv conf' hs. rtr_mgr_init False True [] [] demo_groups True = Some (0, rev demo_groups, Some c0) \<and>
    rtr_mgr_add_roa_support (Some c0) True = (0, Some c1) \<and> rtr_mgr_add_aspa_support (Some c1) True = (0, Some c2) \<and>
    rtr_mgr_add_spki_support (Some c2) True = (0, Some c3) \<and> rtr_mgr_setup_sockets c3 (rev demo_groups) 3600 7200 600 = Some (0, conf) \<and>
    rtr_mgr_start conf = Some (rv, conf') \<and> listed_groups conf' = Some hs \<and> sorted_wrt (\<lambda>(h, g) (x, k). preference g < preference k) hs"
proof -
  let ?c0 = "(raw_config False [] [] 2)\<lparr>status_fp := True\<rparr>"
  have s: "sort_key preference demo_groups = rev demo_groups" by (simp add: demo_groups_def word_le_nat_alt)
  have "groups_valid None (rev demo_groups)" by (simp add: demo_groups_def)
  then have i: "rtr_mgr_init False True [] [] demo_groups True = Some (0, rev demo_groups, Some ?c0)"
    by (simp add: rtr_mgr_init_def s) (simp add: demo_groups_def)
  obtain c1 c2 c3 where t: "rtr_mgr_add_roa_support (Some ?c0) True = (0, Some c1)" "rtr_mgr_add_aspa_support (Some c1) True = (0, Some c2)"
    "rtr_mgr_add_spki_support (Some c2) True = (0, Some c3)"
    by (simp add: rtr_mgr_add_roa_support_def rtr_mgr_add_aspa_support_def rtr_mgr_add_spki_support_def raw_config_def)
  have "c3 = ?c0\<lparr>pfx_mem := [rtr_pfx_table_init True], conf_pfx := Ptr 0, aspa_mem := [rtr_aspa_table_init True], conf_aspa := Ptr 0, spki_mem := [spki_table_init True], conf_spki := Ptr 0\<rparr>"
    using t by (auto simp: rtr_mgr_add_roa_support_def rtr_mgr_add_aspa_support_def rtr_mgr_add_spki_support_def raw_config_def)
  then have env: "env_ok c3" using tables_init_fine by (simp add: raw_config_def env_ok_def heap_ok_def)
  have iv: "init_intervals_ok 3600 7200 600" by (simp add: init_intervals_ok_def rtr_check_interval_range_def)
  obtain conf gids where conf: "rtr_mgr_setup_sockets c3 (rev demo_groups) 3600 7200 600 = Some (0, conf)" "mgr_inv conf gids"
    using setup_outcome [OF env _ _ _ iv, of "rev demo_groups"] by (auto simp: demo_groups_def)
  obtain rv conf' where st: "rtr_mgr_start conf = Some (rv, conf')" using start_outcome [OF conf(2)] by blast
  then have "mgr_run conf conf'" by (intro mgr_moves [OF mgr_rests] app_starts)
  then show ?thesis using one_group_serves [OF _ i t conf(1)] i t conf(1) st by fastforce
qed

lemma first_is_least:
  assumes "order_ok conf gids" "find P gids = Some n"
  shows "\<forall>h\<in>set gids. P h \<longrightarrow> preference (grp conf n) \<le> preference (grp conf h)"
proof -
  obtain i where i: "i < length gids" "P (gids ! i)" "n = gids ! i" "\<forall>j<i. \<not> P (gids ! j)" using assms(2) by (auto simp: find_Some_iff)
  have "preference (grp conf n) \<le> preference (grp conf (gids ! k))" if "k < length gids" "P (gids ! k)" for k
  proof (cases "k = i")
    case False
    then have "i < k" using that(2) i(4) by (meson linorder_neqE_nat)
    then show ?thesis using assms(1) that(1) i(3) by (auto simp: order_ok_def sorted_wrt_iff_nth_less intro: less_imp_le)
  qed (use i(3) in simp)
  then show ?thesis by (auto simp: in_set_conv_nth)
qed

text \<open>C14: when a socket reports an error and no other group is established, the manager marks its group and starts
  the most preferred of the closed groups: all sockets of that group run afterwards and the group is connecting.
  No other group changes and no table loses a record.\<close>

theorem error_fails_over:
  assumes "mgr_inv conf gids" "gid \<in> set gids" "status (grp conf gid) \<noteq> RTR_MGR_CLOSED"
    "st \<in> {RTR_ERROR_FATAL, RTR_ERROR_TRANSPORT, RTR_ERROR_NO_DATA_AVAIL}"
    "\<forall>h\<in>set gids. h \<noteq> gid \<longrightarrow> status (grp conf h) \<noteq> RTR_MGR_ESTABLISHED" "x \<in> set gids" "x \<noteq> gid" "status (grp conf x) = RTR_MGR_CLOSED"
  shows "\<exists>conf' n g'. rtr_mgr_cb sock st conf (Some gid) = Some conf' \<and> n \<in> set gids \<and> n \<noteq> gid \<and> status (grp conf n) = RTR_MGR_CLOSED \<and>
    (\<forall>h\<in>set gids. h \<noteq> gid \<and> status (grp conf h) = RTR_MGR_CLOSED \<longrightarrow> preference (grp conf n) \<le> preference (grp conf h)) \<and>
    group_mem conf' = (group_mem conf)(gid \<mapsto> (grp conf gid)\<lparr>status := RTR_MGR_ERROR\<rparr>, n \<mapsto> g') \<and>
    status g' = RTR_MGR_CONNECTING \<and> (\<forall>s\<in>set (sockets g'). thread_id s \<noteq> 0) \<and> records_kept {} conf conf'"
proof -
  let ?P = "\<lambda>h. h \<noteq> gid \<and> status (grp conf h) = RTR_MGR_CLOSED"
  obtain n where n: "find ?P gids = Some n" using assms(6-8) by (cases "find ?P gids") (auto simp: find_None_iff)
  then have n': "n \<in> set gids" "n \<noteq> gid" "status (grp conf n) = RTR_MGR_CLOSED" by (auto simp: find_Some_iff)
  have none: "\<not> (\<exists>h\<in>set gids. h \<noteq> gid \<and> status (grp conf h) = RTR_MGR_ESTABLISHED)" using assms(5) by blast
  obtain conf' g' where r: "rtr_mgr_cb_state_error sock conf gid = Some conf'" "stopping {} conf conf'"
    "group_mem conf' = (group_mem conf)(gid \<mapsto> (grp conf gid)\<lparr>status := RTR_MGR_ERROR\<rparr>, n \<mapsto> g')" "started (grp conf n) g'" "status g' = RTR_MGR_CONNECTING"
    using error_outcome [OF assms(1-3), of sock] none n by auto
  have "idle (grp conf n)" by (rule mgr_inv_member(3) [OF assms(1) n'(1,3)])
  then have run: "\<forall>s\<in>set (sockets g'). thread_id s \<noteq> 0" using r(4) by (simp add: started_def)
  have least: "\<forall>h\<in>set gids. ?P h \<longrightarrow> preference (grp conf n) \<le> preference (grp conf h)" using first_is_least [OF _ n] assms(1) by (simp add: mgr_inv_def)
  have cb: "rtr_mgr_cb sock st conf (Some gid) = Some conf'" using r(1) assms(4) by (auto simp: rtr_mgr_cb_def)
  have kept: "records_kept {} conf conf'" using r(2) by (simp add: stopping_def)
  show ?thesis by (rule exI [of _ conf'], rule exI [of _ n], rule exI [of _ g']) (use cb n' least r(3,5) run kept in blast)
qed

text \<open>A configuration with two groups and empty tables.\<close>

definition demo_conf :: "rtr_mgr_group \<Rightarrow> rtr_mgr_group \<Rightarrow> rtr_mgr_config" where
  "demo_conf g0 g1 =
     \<lparr>groups = Some [0, 1], group_mem = [0 \<mapsto> g0, 1 \<mapsto> g1], next_group = 2, len = 2, status_fp = True, status_log = [],
      conf_pfx = Ptr 0, conf_spki = Ptr 0, conf_aspa = Ptr 0, pfx_mem = [rtr_pfx_table_init True], spki_mem = [spki_table_init True],
      aspa_mem = [rtr_aspa_table_init True], thread_answers = [], mgr_allocs = []\<rparr>"

lemma demo_grp [simp]: "grp (demo_conf g0 g1) 0 = g0" "grp (demo_conf g0 g1) (Suc 0) = g1" "grp (demo_conf g0 g1) 1 = g1"
  by (simp_all add: grp_def demo_conf_def)

lemma demo_inv:
  assumes "preference g0 < preference g1" "\<forall>g\<in>{g0, g1}. sockets g \<noteq> [] \<and> (\<forall>s\<in>set (sockets g). ptr_pfx s = Ptr 0 \<and> ptr_spki s = Ptr 0 \<and> ptr_aspa s = Ptr 0) \<and>
      (status g = RTR_MGR_CLOSED \<longrightarrow> idle g)" "status g0 = RTR_MGR_ESTABLISHED \<longrightarrow> status g1 = RTR_MGR_CLOSED"
  shows "mgr_inv (demo_conf g0 g1) [0, 1]"
proof -
  let ?c = "demo_conf g0 g1"
  have "order_ok ?c [0, 1]" using assms(1) by (simp add: order_ok_def)
  moreover have "member_ok ?c 0" "member_ok ?c 1" using assms(2) by (auto simp: member_ok_def demo_conf_def sockets_ok_def ptrs_ok_def)
  moreover have "one_serves ?c [0, 1]" using assms(1,3) by (auto simp: one_serves_def dest: less_asym)
  moreover have "env_ok ?c" using tables_init_fine by (simp add: env_ok_def heap_ok_def demo_conf_def)
  moreover have "groups ?c = Some [0, 1]" "len ?c = 2" by (simp_all add: demo_conf_def)
  ultimately show ?thesis by (simp add: mgr_inv_def)
qed

theorem error_fails_over_witness:
  "\<exists>conf' g'. rtr_mgr_cb 1 RTR_ERROR_TRANSPORT
      (demo_conf (demo_group [demo_socket 1 7 RTR_ERROR_TRANSPORT 0] 1 RTR_MGR_CONNECTING) (demo_group [demo_socket 2 0 RTR_CLOSED 0] 2 RTR_MGR_CLOSED)) (Some 0) = Some conf' \<and>
    group_mem conf' 1 = Some g' \<and> status g' = RTR_MGR_CONNECTING \<and> (\<forall>s\<in>set (sockets g'). thread_id s \<noteq> 0)"
proof -
  let ?g0 = "demo_group [demo_socket 1 7 RTR_ERROR_TRANSPORT 0] 1 RTR_MGR_CONNECTING" and ?g1 = "demo_group [demo_socket 2 0 RTR_CLOSED 0] 2 RTR_MGR_CLOSED"
  have "mgr_inv (demo_conf ?g0 ?g1) [0, 1]" by (rule demo_inv) (simp_all add: word_less_nat_alt idle_def)
  then obtain conf' n g' where r: "rtr_mgr_cb 1 RTR_ERROR_TRANSPORT (demo_conf ?g0 ?g1) (Some 0) = Some conf'" "n \<in> set [0, 1]" "n \<noteq> 0"
    "group_mem conf' = (group_mem (demo_conf ?g0 ?g1))(0 \<mapsto> (grp (demo_conf ?g0 ?g1) 0)\<lparr>status := RTR_MGR_ERROR\<rparr>, n \<mapsto> g')"
    "status g' = RTR_MGR_CONNECTING" "\<forall>s\<in>set (sockets g'). thread_id s \<noteq> 0"
    using error_fails_over [of "demo_conf ?g0 ?g1" "[0, 1]" 0 RTR_ERROR_TRANSPORT 1 1] by auto
  then have "n = 1" by simp
  with r show ?thesis by auto
qed

text \<open>C15: when the last socket of a connecting group is synchronised, the group becomes established and every less
  preferable group is shut down: it is closed, no thread of it runs, and the tables hold no record of a socket that
  was running. The more preferable groups are left alone, and so are all records of other sockets.\<close>

theorem synced_group_takes_over:
  assumes "mgr_inv conf gids" "gid \<in> set gids" "status (grp conf gid) = RTR_MGR_CONNECTING" "rtr_mgr_config_status_is_synced (grp conf gid)"
  shows "\<exists>conf'. rtr_mgr_cb sock RTR_ESTABLISHED conf (Some gid) = Some conf' \<and> status (grp conf' gid) = RTR_MGR_ESTABLISHED \<and>
    (\<forall>h\<in>set gids. preference (grp conf gid) < preference (grp conf h) \<longrightarrow> status (grp conf' h) = RTR_MGR_CLOSED \<and> idle (grp conf' h) \<and>
       (\<forall>j<length (sockets (grp conf h)). thread_id (sockets (grp conf h) ! j) \<noteq> 0 \<longrightarrow> no_records conf' (sockets (grp conf' h) ! j))) \<and>
    (\<forall>h\<in>set gids. preference (grp conf h) < preference (grp conf gid) \<longrightarrow> grp conf' h = grp conf h) \<and>
    records_kept (worse_ids conf gids gid) conf conf'"
proof -
  have "status (grp conf gid) \<noteq> RTR_MGR_CLOSED" using assms(3) by simp
  then obtain conf' where r: "rtr_mgr_cb_state_established sock conf gid = Some conf'" "mgr_inv conf' gids" "serves conf gids gid conf'"
    using established_outcome [OF assms(1,2)] assms(3,4) by blast
  note s = r(3) [unfolded serves_def]
  have "status (grp conf' h) = RTR_MGR_CLOSED \<and> idle (grp conf' h) \<and>
      (\<forall>j<length (sockets (grp conf h)). thread_id (sockets (grp conf h) ! j) \<noteq> 0 \<longrightarrow> no_records conf' (sockets (grp conf' h) ! j))"
    if h: "h \<in> set gids" "preference (grp conf gid) < preference (grp conf h)" for h
  proof -
    have c: "status (grp conf' h) = RTR_MGR_CLOSED" "status (grp conf h) \<noteq> RTR_MGR_CLOSED \<longrightarrow> stopped conf' (grp conf h) (grp conf' h)" using s h by blast+
    have "\<forall>j<length (sockets (grp conf h)). thread_id (sockets (grp conf h) ! j) \<noteq> 0 \<longrightarrow> no_records conf' (sockets (grp conf' h) ! j)"
    proof (cases "status (grp conf h) = RTR_MGR_CLOSED")
      case True
      then have "idle (grp conf h)" by (rule mgr_inv_member(3) [OF assms(1) h(1)])
      then show ?thesis by (auto simp: idle_def)
    qed (use c(2) in \<open>auto simp: stopped_def\<close>)
    then show ?thesis using c(1) mgr_inv_member(3) [OF r(2) h(1)] by blast
  qed
  moreover have "grp conf' h = grp conf h" if "h \<in> set gids" "preference (grp conf h) < preference (grp conf gid)" for h using s that by (simp add: grp_def)
  moreover have "status (grp conf' gid) = RTR_MGR_ESTABLISHED" using s grp_eq by fastforce
  moreover have "rtr_mgr_cb sock RTR_ESTABLISHED conf (Some gid) = Some conf'" using r(1) by (simp add: rtr_mgr_cb_def)
  ultimately show ?thesis using s by (intro exI [of _ conf'] conjI) (auto simp: stopping_def)
qed

theorem synced_group_takes_over_witness:
  "\<exists>conf'. rtr_mgr_cb 1 RTR_ESTABLISHED
      (demo_conf (demo_group [demo_socket 1 7 RTR_ESTABLISHED 5] 1 RTR_MGR_CONNECTING) (demo_group [demo_socket 2 8 RTR_ESTABLISHED 4] 2 RTR_MGR_ESTABLISHED)) (Some 0) = Some conf' \<and>
    status (grp conf' 0) = RTR_MGR_ESTABLISHED \<and> status (grp conf' 1) = RTR_MGR_CLOSED \<and> idle (grp conf' 1)"
proof -
  let ?c = "demo_conf (demo_group [demo_socket 1 7 RTR_ESTABLISHED 5] 1 RTR_MGR_CONNECTING) (demo_group [demo_socket 2 8 RTR_ESTABLISHED 4] 2 RTR_MGR_ESTABLISHED)"
  have "mgr_inv ?c [0, 1]" by (rule demo_inv) (simp_all add: word_less_nat_alt)
  then show ?thesis using synced_group_takes_over [of ?c "[0, 1]" 0 1]
    by (auto simp: rtr_mgr_config_status_is_synced_def word_less_nat_alt)
qed

text \<open>A start that fails after its first socket, because the thread of the second one cannot be created, leaves the
  first thread running in a group whose status does not change: the invariant of closed groups needs that
  threads can be created.\<close>

lemma partial_start_runs:
  assumes "group_mem conf gid = Some g" "sockets g = s1 # s2 # rest" "thread_id s1 = 0" "thread_id s2 = 0" "False \<notin> set (mgr_allocs conf)"
    "thread_answers conf = (True, Some tid) # (True, None) # ths"
  shows "\<exists>conf' g'. rtr_mgr_start_sockets gid conf = Some (RTR_ERROR, conf') \<and> group_mem conf' gid = Some g' \<and> status g' = status g \<and>
    thread_id (hd (sockets g')) = tid"
proof -
  obtain m where m: "rtr_malloc (mgr_allocs conf) = (True, m)" "False \<notin> set m" using rtr_malloc_fine [OF assms(5)] by blast
  obtain m' where m': "rtr_malloc m = (True, m')" using rtr_malloc_fine [OF m(2)] by blast
  show ?thesis using assms(1-4,6) m(1) m'
    by (simp add: rtr_mgr_start_sockets_def thread_answer_def rtr_start_def put_group_def Let_def)
qed

text \<open>C39: a stop leaves stale statuses behind that disable the fail-over after the next start. When the manager is
  stopped while an established group that is not the most preferred one has two or more running sockets, all threads
  end, but the status of this group stays established, because none of its sockets sees all others in the state
  \<open>RTR_SHUTDOWN\<close>. After a new start of the most preferred group, an error of this group then starts no other group:
  no group but the failing one has a thread.\<close>

theorem stop_keeps_stale_status:
  assumes "mgr_inv conf gids" "gid \<in> set gids" "gid \<noteq> hd gids" "2 \<le> length (sockets (grp conf gid))"
    "\<forall>s\<in>set (sockets (grp conf gid)). thread_id s \<noteq> 0 \<and> state s \<noteq> RTR_SHUTDOWN" "status (grp conf gid) = RTR_MGR_ESTABLISHED"
    "st \<in> {RTR_ERROR_FATAL, RTR_ERROR_TRANSPORT, RTR_ERROR_NO_DATA_AVAIL}"
  shows "\<exists>c1 c2 c3. rtr_mgr_stop conf = Some c1 \<and> (\<forall>h\<in>set gids. idle (grp c1 h)) \<and> rtr_mgr_start c1 = Some (RTR_SUCCESS, c2) \<and>
    rtr_mgr_cb sock st c2 (Some (hd gids)) = Some c3 \<and> status (grp c3 (hd gids)) = RTR_MGR_ERROR \<and>
    status (grp c3 gid) = RTR_MGR_ESTABLISHED \<and> (\<forall>h\<in>set gids. h \<noteq> hd gids \<longrightarrow> idle (grp c3 h))"
proof -
  obtain c1 where r: "rtr_mgr_stop conf = Some c1" "mgr_inv c1 gids"
    "\<forall>h\<in>set gids. idle (grp c1 h) \<and> halted {..<length (sockets (grp conf h))} (grp conf h) (grp c1 h)"
    using stop_halts [OF assms(1)] by blast
  have "halted {..<length (sockets (grp conf gid))} (grp conf gid) (grp c1 gid)" using r(3) assms(2) by blast
  then have est: "status (grp c1 gid) = RTR_MGR_ESTABLISHED" using assms(4-6) by (auto simp: halted_def)
  have hd: "hd gids \<in> set gids" by (rule first_is_best(2) [OF r(2)])
  obtain rv c2 g' where s: "rtr_mgr_start c1 = Some (rv, c2)" "rv = 0 \<longleftrightarrow> idle (grp c1 (hd gids))" "mgr_inv c2 gids"
    "group_mem c2 = (group_mem c1)(hd gids \<mapsto> g')" "started (grp c1 (hd gids)) g'"
    using start_outcome [OF r(2)] by blast
  have idle: "idle (grp c1 (hd gids))" using r(3) hd by blast
  have g2: "grp c2 h = (if h = hd gids then g' else grp c1 h)" for h using s(4) by (simp add: grp_def)
  have st2: "status (grp c2 (hd gids)) \<noteq> RTR_MGR_CLOSED" using s(5) idle g2 by (simp add: started_def)
  have "\<exists>h\<in>set gids. h \<noteq> hd gids \<and> status (grp c2 h) = RTR_MGR_ESTABLISHED" using assms(2,3) est g2 by auto
  then obtain c3 where e: "rtr_mgr_cb_state_error sock c2 (hd gids) = Some c3"
    "group_mem c3 = (group_mem c2)(hd gids \<mapsto> (grp c2 (hd gids))\<lparr>status := RTR_MGR_ERROR\<rparr>)"
    using error_outcome [OF s(3) hd st2, of sock] by auto
  have g3: "grp c3 h = (if h = hd gids then (grp c2 (hd gids))\<lparr>status := RTR_MGR_ERROR\<rparr> else grp c2 h)" for h using e(2) by (simp add: grp_def)
  have "rtr_mgr_cb sock st c2 (Some (hd gids)) = Some c3" using e(1) assms(7) by (auto simp: rtr_mgr_cb_def)
  moreover have "status (grp c3 gid) = RTR_MGR_ESTABLISHED" "status (grp c3 (hd gids)) = RTR_MGR_ERROR" using g3 g2 est assms(3) by simp_all
  moreover have "\<forall>h\<in>set gids. h \<noteq> hd gids \<longrightarrow> idle (grp c3 h)" using g3 g2 r(3) by simp
  ultimately show ?thesis using r(1,3) s(1,2) idle by (intro exI [of _ c1] exI [of _ c2] exI [of _ c3]) simp
qed

theorem stop_keeps_stale_status_witness:
  "\<exists>c1 c2 c3. rtr_mgr_stop (demo_conf (demo_group [demo_socket 1 7 RTR_CONNECTING 0] 1 RTR_MGR_ERROR)
      (demo_group [demo_socket 2 8 RTR_ESTABLISHED 5, demo_socket 3 9 RTR_ESTABLISHED 6] 2 RTR_MGR_ESTABLISHED)) = Some c1 \<and>
    rtr_mgr_start c1 = Some (RTR_SUCCESS, c2) \<and> rtr_mgr_cb 1 RTR_ERROR_TRANSPORT c2 (Some 0) = Some c3 \<and>
    status (grp c3 0) = RTR_MGR_ERROR \<and> status (grp c3 1) = RTR_MGR_ESTABLISHED \<and> idle (grp c3 1)"
proof -
  let ?c = "demo_conf (demo_group [demo_socket 1 7 RTR_CONNECTING 0] 1 RTR_MGR_ERROR)
      (demo_group [demo_socket 2 8 RTR_ESTABLISHED 5, demo_socket 3 9 RTR_ESTABLISHED 6] 2 RTR_MGR_ESTABLISHED)"
  have "mgr_inv ?c [0, 1]" by (rule demo_inv) (simp_all add: word_less_nat_alt)
  from stop_keeps_stale_status [OF this, of 1 RTR_ERROR_TRANSPORT 1] show ?thesis by (simp, blast)
qed

text \<open>C40: stopping the manager shuts the sockets of all groups that are not running out for good: their state is
  \<open>RTR_SHUTDOWN\<close>, which \<open>rtr_start\<close> does not reset, so that a thread created for such a socket ends before its
  first turn.\<close>

theorem stop_disables_idle_groups:
  assumes "mgr_inv conf gids" "gid \<in> set gids" "idle (grp conf gid)"
  shows "\<exists>conf'. rtr_mgr_stop conf = Some conf' \<and>
    (\<forall>s\<in>set (sockets (grp conf' gid)). state s = RTR_SHUTDOWN \<and> (\<forall>tbls mem rv c ok cb. rtr_start (ctx_of s tbls mem) True (Some 1) = (rv, c) \<longrightarrow> rtr_fsm_start c ok cb = (False, c)))"
proof -
  obtain conf' where r: "rtr_mgr_stop conf = Some conf'" "halted {..<length (sockets (grp conf gid))} (grp conf gid) (grp conf' gid)"
    using stop_halts [OF assms(1)] assms(2) by blast
  have "state s = RTR_SHUTDOWN" if mem: "s \<in> set (sockets (grp conf' gid))" for s
  proof -
    obtain i where i: "i < length (sockets (grp conf' gid))" "s = sockets (grp conf' gid) ! i" using mem by (auto simp: in_set_conv_nth)
    have len: "length (sockets (grp conf' gid)) = length (sockets (grp conf gid))" using r(2) by (simp add: halted_def)
    then have "thread_id (sockets (grp conf gid) ! i) = 0" using i(1) assms(3) nth_mem by (metis idle_def)
    then show ?thesis using r(2) i len by (simp add: halted_def)
  qed
  moreover have "rtr_fsm_start c ok cb = (False, c)" if "state s = RTR_SHUTDOWN" "rtr_start (ctx_of s tbls mem) True (Some 1) = (rv, c)" for s tbls mem rv c ok cb
  proof -
    have "state c = RTR_SHUTDOWN" using that by (auto simp: rtr_start_def Let_def split: if_splits prod.splits)
    then show ?thesis by (simp add: rtr_fsm_start_def)
  qed
  ultimately show ?thesis using r(1) by blast
qed

theorem stop_disables_idle_groups_witness:
  "\<exists>conf'. rtr_mgr_stop (demo_conf (demo_group [demo_socket 1 7 RTR_ESTABLISHED 5] 1 RTR_MGR_ESTABLISHED)
      (demo_group [demo_socket 3 0 RTR_CLOSED 0] 2 RTR_MGR_CLOSED)) = Some conf' \<and> (\<forall>s\<in>set (sockets (grp conf' 1)). state s = RTR_SHUTDOWN)"
proof -
  let ?c = "demo_conf (demo_group [demo_socket 1 7 RTR_ESTABLISHED 5] 1 RTR_MGR_ESTABLISHED) (demo_group [demo_socket 3 0 RTR_CLOSED 0] 2 RTR_MGR_CLOSED)"
  have "mgr_inv ?c [0, 1]" by (rule demo_inv) (simp_all add: word_less_nat_alt idle_def)
  then show ?thesis using stop_disables_idle_groups [of ?c "[0, 1]" 1] by (auto simp: idle_def)
qed

end
