(* ===== verification/Spec2Isabelle.thy ===== *)
theory Spec2Isabelle
  imports Pfx_Props Aspa_Update Spki_Table Mgr_Runs
begin

text \<open>
  \<^bold>\<open>RTRlib\<close> is a C library for routers that fetch validated RPKI data from caches with the RPKI-RTR protocol
  (RFC 6810, RFC 8210 and its successor with ASPA records) and validate BGP routes and AS paths against it.
  This development models the library below its transports and above its sockets, and proves what its parts do.

  \<^bold>\<open>The parts and how they interact.\<close> An application sets up a connection manager (\<^verbatim>\<open>rtr_mgr.c\<close>) with groups of
  RTR sockets in an order of preference. Every running socket has a thread that executes a state machine
  (\<^verbatim>\<open>rtr/rtr.c\<close>): connect, query, synchronise, wait. A synchronisation (\<^verbatim>\<open>rtr/packets.c\<close>) receives PDUs through the
  transport layer (\<^verbatim>\<open>transport/transport.c\<close>), collects them until End of Data and applies them at once to three
  tables that all sockets share: prefixes (\<^verbatim>\<open>pfx/trie\<close>), router keys (\<^verbatim>\<open>spki/hashtable\<close>) and ASPA records (\<^verbatim>\<open>aspa\<close>).
  When a session is lost the answer is built in shadow tables, which replace the socket's records when it is
  complete. The tables call back the application for every change. State changes of a socket call back the
  manager, which starts and stops groups. The application asks the tables for the validation state of a route
  or an AS path.

  \<^bold>\<open>How the code is modelled.\<close> Structs are records, enums datatypes, machine integers words, arrays and linked lists
  lists, and a function returns its results together with the changed state. The result \<open>None\<close> stands for what
  has no defined continuation in C: a failing assertion, a NULL or uninitialised pointer that is read, an access
  outside a buffer, an undefined shift, a lock that is never released. Everything the code itself treats as
  an error is an ordinary value with the code's own constants. Allocations are answered by a script
  (a list of booleans, with success when it is used up), the network by a script of incoming events, the clock
  by a function of the number of calls, thread creation by a script; callbacks append to a log.

  \<^bold>\<open>Theories, sources and correspondence.\<close>
  \<^item> \<open>Rtr_Prelude\<close>: conventions, machine integers, allocation (\<^verbatim>\<open>lib/alloc_utils.c\<close>), shared lemmas.
  \<^item> \<open>Ip_Addr\<close>: addresses, bit extraction and comparison (\<^verbatim>\<open>lib/ip.c\<close>, \<^verbatim>\<open>ipv4.c\<close>, \<^verbatim>\<open>ipv6.c\<close>, \<^verbatim>\<open>utils.c\<close>), with the
    meaning of the extracted bits.
  \<^item> \<open>Trie\<close>: \<^verbatim>\<open>pfx/trie/trie.c\<close>. Trees of items; a pointer to a node is the path to it. Invariant: lengths grow
    downwards and every node lies on the side its bits say; insertion, lookup and removal keep it.
  \<^item> \<open>Pfx_Table\<close>, \<open>Pfx_Proofs\<close>, \<open>Pfx_Bulk\<close>, \<open>Pfx_Props\<close>: \<^verbatim>\<open>pfx/trie/trie-pfx.c\<close>, one definition per function. A table
    means its multiset of records: adding and removing refine insertion and deletion on every branch,
    validation is RFC 6811, and the operations on whole tables (removing a source, copying, swapping with
    difference reports, freeing) are exact, with their callbacks. Two theorems show where validation aborts:
    a stored zero-length prefix, and a trie deeper than the addresses are wide.
  \<^item> \<open>Aspa_Array\<close>, \<open>Aspa_Table\<close>, \<open>Aspa_Update\<close>: \<^verbatim>\<open>aspa/aspa_array/aspa_array.c\<close> and \<^verbatim>\<open>aspa/aspa.c\<close>. An array has its records,
    its capacity and the bytes of its block, so that writes past the block show. The update of a table is
    computed, then applied or discarded; it is shown to do what the operations of every customer say when
    announcements replace records only at the largest customer of the batch, and what goes wrong otherwise.
  \<^item> \<open>Aspa_Verify\<close>: \<^verbatim>\<open>aspa/aspa_verification.c\<close>. The hop check against all attestations, with the distance between ASNs
    up to which it is right and a theorem about what it misses beyond, and the equivalence of the path
    verification with the algorithm of the draft.
  \<^item> \<open>Tommy_Hashlin\<close>, \<open>Spki_Table\<close>: \<^verbatim>\<open>third-party/tommyds/tommyhashlin.c\<close> with its stepwise growing and shrinking, and
    \<^verbatim>\<open>spki/hashtable/ht-spkitable.c\<close> on top of it: every sequence of operations has the effect it has on a list of keys.
  \<^item> \<open>Tommy_Sort\<close>: the merge sort of \<^verbatim>\<open>tommychain.h\<close> and \<^verbatim>\<open>tommylist.c\<close> is the stable sort.
  \<^item> \<open>Transport\<close>: \<^verbatim>\<open>transport/transport.c\<close> and the monotonic clock; the loops that send and receive everything.
  \<^item> \<open>Rtr_Pdu\<close>: the layout of PDUs, byte orders and the size check of \<^verbatim>\<open>rtr/packets.c\<close>; conversions stay inside the PDU
    and are inverse to each other.
  \<^item> \<open>Rtr_Socket\<close>, \<open>Rtr_Packets\<close>: the socket of \<^verbatim>\<open>rtr/rtr.h\<close>, sending, Error Reports, receiving and single handlers;
    receiving is safe for every input, and what is sent is what is received.
  \<^item> \<open>Rtr_Records\<close>, \<open>Rtr_Sync\<close>: records of PDUs, the arrays that collect them, \<open>rtr_sync_update_tables\<close>, \<open>rtr_sync\<close>.
  \<^item> \<open>Rtr_Batch\<close>, \<open>Rtr_Session\<close>, \<open>Rtr_Reset\<close>: applying a batch is atomic; the receiving part of a synchronisation
    ends for every input; a proper answer brings the tables up to date; a reset replaces the socket's records
    or leaves all tables alone, with the exception of ASPA records of a cache that sends none; what a failed
    reset leads to.
  \<^item> \<open>Rtr_Fsm\<close>: \<^verbatim>\<open>rtr/rtr.c\<close>. Initialisation, start, the thread one turn at a time, removal of outdated records and
    stop. Runs are sequences of turns and stop requests; what every run keeps, the transitions, and that a
    socket that reaches a proper cache is established in three turns.
  \<^item> \<open>Rtr_Mgr\<close>, \<open>Mgr_Frames\<close>, \<open>Mgr_Props\<close>, \<open>Mgr_Runs\<close>: \<^verbatim>\<open>rtr_mgr.c\<close>. Groups and tables are reached through pointers
    as in the code. The invariant (order, status and threads, one serving group) holds through every sequence
    of calls, callbacks and turns; switching to another group and back; what stopping leaves behind.

  \<^bold>\<open>Interfaces.\<close> \<open>node_store\<close> (in \<open>Tommy_Hashlin\<close>) is what the key table relies on of a hash table of nodes; the linear
  hash table implements it. \<open>record_table\<close> (in \<open>Rtr_Batch\<close>) is what the loops over a batch and their undoing need of a
  table; the prefix table and the key table implement it. \<open>hop_check\<close> (in \<open>Aspa_Verify\<close>) is what path verification
  needs of a hop check; the table's own check implements it.

  \<^bold>\<open>Conditions.\<close> Each condition of a theorem is a hypothesis with a name. The recurring ones: \<open>pfx_inv\<close>, \<open>spki_inv\<close>,
  \<open>store_ok\<close> (tables in good order, kept by the operations under the conditions below); \<open>pfx_searchable\<close> (no zero-length prefix, tries no deeper
  than the addresses are wide; not kept by the operations); \<open>rec_ok\<close> (no bits behind the prefix length; the
  code does not check it); \<open>distinct_changes\<close> (no record twice in a batch) and \<open>aspa_batch_ok\<close> (announcements replace only at
  the largest customer, at most 128; the code does not ensure it); \<open>False \<notin> set mem\<close> (no allocation fails);
  fewer than 2^29 router keys, since the hash table counts with 32 bits.

  \<^bold>\<open>Bounds and termination.\<close> No fuel is used. The receive loops end because every turn consumes an event of the finite
  script of incoming data, whose end is a failing receive; the other loops run over lists or decrease a
  measure. Buffers have the length \<open>RTR_MAX_PDU_LEN\<close> of the code. The sizes in \<open>rtr_send_error_pdu\<close> are natural
  numbers: all callers pass at most that many bytes, so that the 32-bit sums do not wrap.

  \<^bold>\<open>Not modelled.\<close> The TCP and SSH transports (operating system and libssh; their possible answers are the script),
  BGPsec (OpenSSL), the text forms of addresses, debug output, the command line tools and the unused
  containers of tommyds. Threads are interleaved between whole operations: lock operations and
  cancellation points are left out, apart from the update lock of the ASPA table, which is held across calls.
  Freed memory is not part of the states; where the code uses it after freeing, the text of the theorem says so.
\<close>

end
